(* ===== verification/Prelude.thy ===== *)
theory Prelude
  imports Main "HOL-Library.AList" "HOL-Library.Sublist"
begin

text \<open>
  Shared vocabulary of the development: results of code that may raise, loops that stop at
  the first exception, Python text and dictionaries, keyed table rows, and the two interface
  locales for components that move a state by steps.

  \<^item> A Python call that may raise is a function into \<open>'e + 'a\<close>; \<open>Inl\<close> is the exception.
  \<^item> A Python \<open>str\<close> is modelled by its UTF-8 bytes (\<open>string\<close>). Equality, concatenation,
    prefix, suffix and substring tests, splitting at ASCII separators and the code point
    order agree with the byte view; \<open>len\<close> counts the bytes that start a code point
    (\<open>py_len\<close>); \<open>str.strip\<close> removes the encodings of Unicode white space (\<open>py_strip\<close>).
  \<^item> A Python \<open>dict\<close> is an association list in insertion order: \<open>map_of\<close> reads it,
    \<open>AList.update\<close> stores (in place, or at the end for a new key), \<open>AList.delete\<close> pops.
\<close>

section \<open>Exceptions as values\<close>

definition bindE :: "'e + 'a \<Rightarrow> ('a \<Rightarrow> 'e + 'b) \<Rightarrow> 'e + 'b" where
  "bindE m f = (case m of Inl e \<Rightarrow> Inl e | Inr x \<Rightarrow> f x)"

definition guardE :: "bool \<Rightarrow> 'e \<Rightarrow> 'e + unit" where
  \<comment> \<open>\<open>if not c: raise e\<close>\<close>
  "guardE c e = (if c then Inr () else Inl e)"

fun foldE :: "('s \<Rightarrow> 'a \<Rightarrow> 'e + 's) \<Rightarrow> 's \<Rightarrow> 'a list \<Rightarrow> 'e + 's" where
  "foldE f s [] = Inr s"
| "foldE f s (x # xs) = (case f s x of Inl e \<Rightarrow> Inl e | Inr s' \<Rightarrow> foldE f s' xs)"

fun mapE :: "('a \<Rightarrow> 'e + 'b) \<Rightarrow> 'a list \<Rightarrow> 'e + 'b list" where
  "mapE f [] = Inr []"
| "mapE f (x # xs) =
     (case f x of Inl e \<Rightarrow> Inl e
      | Inr y \<Rightarrow> (case mapE f xs of Inl e \<Rightarrow> Inl e | Inr ys \<Rightarrow> Inr (y # ys)))"

definition try_step :: "('s \<Rightarrow> 'a \<Rightarrow> 'e + 's) \<Rightarrow> 's \<Rightarrow> 'a \<Rightarrow> 's" where
  \<comment> \<open>a transaction: a raise rolls the state back\<close>
  "try_step f s a = (case f s a of Inl e \<Rightarrow> s | Inr s' \<Rightarrow> s')"

definition try_steps :: "('s \<Rightarrow> 'a \<Rightarrow> 'e + 's) \<Rightarrow> 's \<Rightarrow> 'a list \<Rightarrow> 's" where
  "try_steps f s as = foldl (try_step f) s as"

named_theorems result_simps

lemma bindE_simps [simp, result_simps]:
  "bindE (Inl e) f = Inl e" "bindE (Inr x) f = f x"
  by (simp_all add: bindE_def)

lemma bindE_eq_Inr [result_simps]:
  "bindE m f = Inr y \<longleftrightarrow> (\<exists>x. m = Inr x \<and> f x = Inr y)"
  by (cases m) (simp_all add: bindE_def)

lemma bindE_eq_Inl [result_simps]:
  "bindE m f = Inl e \<longleftrightarrow> m = Inl e \<or> (\<exists>x. m = Inr x \<and> f x = Inl e)"
  by (cases m) (simp_all add: bindE_def)

lemma bindE_assoc: "bindE (bindE m f) g = bindE m (\<lambda>x. bindE (f x) g)"
  by (cases m) simp_all

lemma guardE_simps [simp]: "guardE True e = Inr ()" "guardE False e = Inl e"
  by (simp_all add: guardE_def)

lemma guardE_eq_Inr [simp, result_simps]: "guardE c e = Inr u \<longleftrightarrow> c"
  by (simp add: guardE_def)

lemma guardE_eq_Inl [simp, result_simps]: "guardE c e = Inl e' \<longleftrightarrow> \<not> c \<and> e' = e"
  by (auto simp: guardE_def)

lemma foldE_append:
  "foldE f s (xs @ ys) = bindE (foldE f s xs) (\<lambda>s'. foldE f s' ys)"
  by (induction xs arbitrary: s) (auto split: sum.splits)

lemma mapE_length: "mapE f xs = Inr ys \<Longrightarrow> length ys = length xs"
  by (induction xs arbitrary: ys) (auto split: sum.splits)

lemma mapE_InrD: "mapE f xs = Inr ys \<Longrightarrow> map f xs = map Inr ys"
  by (induction xs arbitrary: ys) (auto split: sum.splits)

lemma try_steps_simps [simp]:
  "try_steps f s [] = s" "try_steps f s (a # as) = try_steps f (try_step f s a) as"
  by (simp_all add: try_steps_def)

lemma remdups_adj_snoc:
  "xs \<noteq> [] \<Longrightarrow> remdups_adj (xs @ [x]) =
     (if last xs = x then remdups_adj xs else remdups_adj xs @ [x])"
  by (induction xs rule: remdups_adj.induct) auto

section \<open>Text\<close>

definition is_cont :: "char \<Rightarrow> bool" where
  \<comment> \<open>a UTF-8 continuation byte: 10xxxxxx\<close>
  "is_cont c \<longleftrightarrow> 128 \<le> (of_char c :: nat) \<and> (of_char c :: nat) < 192"

definition py_len :: "string \<Rightarrow> nat" where
  "py_len s = length (filter (\<lambda>c. \<not> is_cont c) s)"

text \<open>A text as the list of its characters, each a group of bytes.\<close>

function code_points :: "string \<Rightarrow> string list" where
  "code_points [] = []"
| "code_points (c # s) = (c # takeWhile is_cont s) # code_points (dropWhile is_cont s)"
  by pat_completeness auto
termination
  by (relation "measure length") (auto simp: le_imp_less_Suc length_dropWhile_le)

text \<open>The encodings of the code points for which \<open>str.isspace\<close> holds.\<close>

definition ws_codes :: "nat list list" where
  "ws_codes =
     [[9], [10], [11], [12], [13], [28], [29], [30], [31], [32],
      [194, 133], [194, 160], [225, 154, 128],
      [226, 128, 128], [226, 128, 129], [226, 128, 130], [226, 128, 131], [226, 128, 132],
      [226, 128, 133], [226, 128, 134], [226, 128, 135], [226, 128, 136], [226, 128, 137],
      [226, 128, 138], [226, 128, 168], [226, 128, 169], [226, 128, 175], [226, 129, 159],
      [227, 128, 128]]"

definition codes :: "string \<Rightarrow> nat list" where
  "codes s = map of_char s"

function strip_codes :: "nat list list \<Rightarrow> string \<Rightarrow> string" where
  \<comment> \<open>drop leading encodings taken from the list\<close>
  "strip_codes ws s =
     (case find (\<lambda>w. w \<noteq> [] \<and> prefix w (codes s)) ws of
        None \<Rightarrow> s
      | Some w \<Rightarrow> strip_codes ws (drop (length w) s))"
  by pat_completeness auto
termination
proof (relation "measure (\<lambda>(ws, s). length s)", goal_cases)
  case 1
  show ?case by simp
next
  case (2 ws s w)
  then have "w \<noteq> []" "prefix w (codes s)"
    by (auto simp: find_Some_iff)
  then have "s \<noteq> []" "0 < length w"
    by (auto simp: codes_def)
  then show ?case by simp
qed

declare strip_codes.simps [simp del]

definition py_strip :: "string \<Rightarrow> string" where
  "py_strip s = rev (strip_codes (map rev ws_codes) (rev (strip_codes ws_codes s)))"

definition blank :: "string \<Rightarrow> bool" where
  \<comment> \<open>\<open>not s.strip()\<close>\<close>
  "blank s \<longleftrightarrow> py_strip s = []"

fun occurs_in :: "string \<Rightarrow> string \<Rightarrow> bool" where
  \<comment> \<open>\<open>p in s\<close> on text\<close>
  "occurs_in p [] = (p = [])"
| "occurs_in p (c # s) = (prefix p (c # s) \<or> occurs_in p s)"

lemma occurs_in_iff: "occurs_in p s \<longleftrightarrow> (\<exists>us vs. s = us @ p @ vs)"
proof (induction s)
  case Nil
  then show ?case by auto
next
  case (Cons c s)
  have "(\<exists>us vs. c # s = us @ p @ vs) \<longleftrightarrow>
      prefix p (c # s) \<or> (\<exists>us vs. s = us @ p @ vs)"
    by (metis (no_types, opaque_lifting) append_Cons append_Nil list.exhaust list.inject
        prefix_def)
  with Cons.IH show ?case by simp
qed

lemma strip_codes_length: "length (strip_codes ws s) \<le> length s"
proof (induction ws s rule: strip_codes.induct)
  case (1 ws s)
  show ?case
  proof (cases "find (\<lambda>w. w \<noteq> [] \<and> prefix w (codes s)) ws")
    case None
    then show ?thesis by (simp add: strip_codes.simps [of ws s])
  next
    case (Some w)
    with 1 have "length (strip_codes ws (drop (length w) s)) \<le> length s"
      by fastforce
    with Some show ?thesis by (simp add: strip_codes.simps [of ws s])
  qed
qed

lemma strip_codes_noop:
  assumes "\<forall>w \<in> set ws. w = [] \<or> s = [] \<or> hd w \<noteq> of_char (hd s)"
  shows "strip_codes ws s = s"
proof -
  have "find (\<lambda>w. w \<noteq> [] \<and> prefix w (codes s)) ws = None"
    using assms by (cases s) (auto simp: find_None_iff codes_def prefix_Cons neq_Nil_conv)
  then show ?thesis by (simp add: strip_codes.simps)
qed

text \<open>Text that starts and ends with a printable ASCII character has nothing to strip.\<close>

lemma py_strip_noop:
  assumes "s \<noteq> []" "32 < (of_char (hd s) :: nat)" "(of_char (hd s) :: nat) < 128"
    "32 < (of_char (last s) :: nat)" "(of_char (last s) :: nat) < 128"
  shows "py_strip s = s"
proof -
  have "strip_codes ws_codes s = s"
    by (rule strip_codes_noop) (use assms in \<open>auto simp: ws_codes_def\<close>)
  moreover have "strip_codes (map rev ws_codes) (rev s) = rev s"
    by (rule strip_codes_noop) (use assms in \<open>auto simp: ws_codes_def hd_rev\<close>)
  ultimately show ?thesis by (simp add: py_strip_def)
qed

lemma py_strip_length: "length (py_strip s) \<le> length s"
  by (metis (no_types, lifting) length_rev order_trans py_strip_def strip_codes_length)

lemma blank_Nil [simp]: "blank []"
  by (simp add: blank_def py_strip_def strip_codes.simps codes_def ws_codes_def)

lemma py_len_append [simp]: "py_len (s @ t) = py_len s + py_len t"
  by (simp add: py_len_def)

lemma py_len_le: "py_len s \<le> length s"
  by (simp add: py_len_def)

section \<open>Tables keyed by an identifier\<close>

text \<open>
  A database table is the list of its rows. \<open>row_by\<close> is a select by primary key, \<open>put_row\<close>
  the write of a changed row back under its key.
\<close>

definition row_by :: "('r \<Rightarrow> 'k) \<Rightarrow> 'k \<Rightarrow> 'r list \<Rightarrow> 'r option" where
  "row_by key k rs = find (\<lambda>r. key r = k) rs"

definition put_row :: "('r \<Rightarrow> 'k) \<Rightarrow> 'r \<Rightarrow> 'r list \<Rightarrow> 'r list" where
  "put_row key r rs = map (\<lambda>x. if key x = key r then r else x) rs"

lemma row_by_Some_mem: "row_by key k rs = Some r \<Longrightarrow> r \<in> set rs \<and> key r = k"
  by (auto simp: row_by_def find_Some_iff)

lemma row_by_None_iff: "row_by key k rs = None \<longleftrightarrow> k \<notin> key ` set rs"
  by (auto simp: row_by_def find_None_iff)

lemma row_by_distinct:
  "distinct (map key rs) \<Longrightarrow> r \<in> set rs \<Longrightarrow> row_by key (key r) rs = Some r"
  by (induction rs) (auto simp: row_by_def rev_image_eqI)

lemma keys_put_row [simp]: "map key (put_row key r rs) = map key rs"
  by (simp add: put_row_def)

lemma key_image_put_row [simp]: "key ` set (put_row key r rs) = key ` set rs"
  by (metis keys_put_row list.set_map)

lemma row_by_put_row:
  "row_by key k (put_row key r rs) =
     (if k = key r \<and> row_by key k rs \<noteq> None then Some r else row_by key k rs)"
  by (induction rs) (auto simp: row_by_def put_row_def)

lemma row_by_put_row_same:
  "row_by key k rs = Some r0 \<Longrightarrow> key r = k \<Longrightarrow> row_by key k (put_row key r rs) = Some r"
  by (simp add: row_by_put_row)

lemma row_by_put_row_other [simp]:
  "k \<noteq> key r \<Longrightarrow> row_by key k (put_row key r rs) = row_by key k rs"
  by (simp add: row_by_put_row)

lemma set_put_row:
  "x \<in> set (put_row key r rs) \<Longrightarrow> x = r \<or> (x \<in> set rs \<and> key x \<noteq> key r)"
  by (auto simp: put_row_def split: if_splits)

lemma map_put_row:
  "(\<And>x. x \<in> set rs \<Longrightarrow> key x = key r \<Longrightarrow> f x = f r) \<Longrightarrow> map f (put_row key r rs) = map f rs"
  by (auto simp: put_row_def)

lemma mem_put_row: "r0 \<in> set rs \<Longrightarrow> key r0 = key r \<Longrightarrow> r \<in> set (put_row key r rs)"
  by (force simp: put_row_def)

lemma mem_put_row_other: "x \<in> set rs \<Longrightarrow> key x \<noteq> key r \<Longrightarrow> x \<in> set (put_row key r rs)"
  by (force simp: put_row_def)

lemma distinct_key_eq:
  "distinct (map key rs) \<Longrightarrow> x \<in> set rs \<Longrightarrow> y \<in> set rs \<Longrightarrow> key x = key y \<Longrightarrow> x = y"
  by (metis option.inject row_by_distinct)

lemma row_by_append:
  "row_by key k (rs @ ss) = (case row_by key k rs of None \<Rightarrow> row_by key k ss | Some r \<Rightarrow> Some r)"
  by (induction rs) (auto simp: row_by_def)

lemma row_by_single [simp]: "row_by key k [r] = (if key r = k then Some r else None)"
  by (simp add: row_by_def)

lemma row_by_Nil [simp]: "row_by key k [] = None"
  by (simp add: row_by_def)

section \<open>Interfaces of stateful components\<close>

text \<open>
  A component moves its state by steps that may raise. The first locale says that every
  successful step keeps an invariant; the second adds a revision counter that every
  successful step moves forward, which is what optimistic concurrency relies on.
\<close>

locale step_invariant =
  fixes step :: "'s \<Rightarrow> 'a \<Rightarrow> 'e + 's"
    and inv :: "'s \<Rightarrow> bool"
  assumes step_inv: "inv s \<Longrightarrow> step s a = Inr s' \<Longrightarrow> inv s'"
begin

lemma run_inv: "inv s \<Longrightarrow> foldE step s as = Inr s' \<Longrightarrow> inv s'"
  by (induction as arbitrary: s) (auto split: sum.splits intro: step_inv)

lemma try_step_inv: "inv s \<Longrightarrow> inv (try_step step s a)"
  by (auto simp: try_step_def split: sum.splits intro: step_inv)

lemma try_steps_inv: "inv s \<Longrightarrow> inv (try_steps step s as)"
  by (induction as arbitrary: s) (auto intro: try_step_inv)

end

locale step_monotone =
  fixes step :: "'s \<Rightarrow> 'a \<Rightarrow> 'e + 's"
    and le :: "'s \<Rightarrow> 's \<Rightarrow> bool"
  assumes le_refl: "le s s"
    and le_trans: "le s t \<Longrightarrow> le t u \<Longrightarrow> le s u"
    and step_le: "step s a = Inr s' \<Longrightarrow> le s s'"
begin

lemma run_le: "foldE step s as = Inr s' \<Longrightarrow> le s s'"
  by (induction as arbitrary: s) (auto split: sum.splits intro: le_refl le_trans step_le)

lemma try_steps_le: "le s (try_steps step s as)"
proof (induction as arbitrary: s)
  case Nil
  then show ?case by (simp add: le_refl)
next
  case (Cons a as)
  have "le s (try_step step s a)"
    by (auto simp: try_step_def split: sum.splits intro: le_refl step_le)
  with Cons.IH show ?case by (auto intro: le_trans)
qed

end

end
