(* ===== verification/Json.thy ===== *)
theory Json
  imports Prelude Complex_Main "HOL-Library.Multiset" "HOL-Library.Char_ord" "HOL-Library.List_Lexorder"
begin

text \<open>
  Python's JSON values and the canonical serialisation that the program uses wherever it
  hashes, bounds or encrypts a payload:
  \<open>json.dumps(value, ensure_ascii=False, allow_nan=False, separators=(",", ":"),
  sort_keys=True)\<close>.

  A float is a finite rational, an infinity or NaN. The shortest decimal text of a finite
  float (\<open>float.__repr__\<close>) is the argument \<open>fr\<close> of the printing functions.
\<close>

datatype pyfloat = Finite rat | PosInf | NegInf | NaN

datatype json =
    JNull
  | JBool bool
  | JInt int
  | JFloat pyfloat
  | JStr string
  | JList "json list"
  | JDict "(string \<times> json) list"

type_synonym pydict = "(string \<times> json) list"

record datetime =
  instant :: int \<comment> \<open>microseconds\<close>
  utcoffset :: "int option" \<comment> \<open>\<open>None\<close>: a naive timestamp\<close>

text \<open>
  What the code takes from outside the repository or from Unicode and hash tables: SHA-256
  (hex), the text of a finite float, the ISO text of a timestamp, Unicode case folding, the
  JSON Schema library's two entry points (is this a schema, does this value satisfy it), the
  AES-GCM primitive of the cryptography library (key, nonce, text, associated data) and the
  JSON parser.
\<close>

record platform =
  sha256 :: "string \<Rightarrow> string"
  frepr :: "rat \<Rightarrow> string"
  isoformat :: "datetime \<Rightarrow> string"
  casefold :: "string \<Rightarrow> string"
  check_schema :: "json \<Rightarrow> bool"
  validates :: "json \<Rightarrow> json \<Rightarrow> bool"
  aead_encrypt :: "string \<Rightarrow> string \<Rightarrow> string \<Rightarrow> string \<Rightarrow> string"
  aead_decrypt :: "string \<Rightarrow> string \<Rightarrow> string \<Rightarrow> string \<Rightarrow> string option"
  json_loads :: "string \<Rightarrow> json option"

definition ascii_lower :: "string \<Rightarrow> string" where
  "ascii_lower s = map (\<lambda>c. let n = (of_char c :: nat) in
     if 65 \<le> n \<and> n \<le> 90 then char_of (n + 32) else c) s"

definition demo_platform :: platform where
  \<comment> \<open>a concrete platform for witnesses\<close>
  "demo_platform = \<lparr>sha256 = (\<lambda>s. s), frepr = (\<lambda>q. ''0.0''), isoformat = (\<lambda>t. ''t''),
     casefold = ascii_lower, check_schema = (\<lambda>_. True), validates = (\<lambda>_ _. True),
     aead_encrypt = (\<lambda>k n m a. CHR ''!'' # a @ m),
     aead_decrypt = (\<lambda>k n c a. if take (Suc (length a)) c = CHR ''!'' # a
       then Some (drop (Suc (length a)) c) else None),
     json_loads = (\<lambda>t. Some JNull)\<rparr>"

section \<open>Reading values\<close>

fun is_str :: "json \<Rightarrow> bool" where
  "is_str (JStr s) = True" | "is_str _ = False"

fun is_dict :: "json \<Rightarrow> bool" where
  "is_dict (JDict d) = True" | "is_dict _ = False"

fun is_list :: "json \<Rightarrow> bool" where
  "is_list (JList xs) = True" | "is_list _ = False"

fun pyfloat_zero :: "pyfloat \<Rightarrow> bool" where
  "pyfloat_zero (Finite q) = (q = 0)" | "pyfloat_zero _ = False"

fun truthy :: "json \<Rightarrow> bool" where
  "truthy JNull = False"
| "truthy (JBool b) = b"
| "truthy (JInt i) = (i \<noteq> 0)"
| "truthy (JFloat x) = (\<not> pyfloat_zero x)"
| "truthy (JStr s) = (s \<noteq> [])"
| "truthy (JList xs) = (xs \<noteq> [])"
| "truthy (JDict d) = (d \<noteq> [])"

definition dget :: "pydict \<Rightarrow> string \<Rightarrow> json" where
  \<comment> \<open>\<open>d.get(k)\<close>\<close>
  "dget d k = (case map_of d k of None \<Rightarrow> JNull | Some v \<Rightarrow> v)"

definition dget_or :: "pydict \<Rightarrow> string \<Rightarrow> json \<Rightarrow> json" where
  \<comment> \<open>\<open>d.get(k, default)\<close>\<close>
  "dget_or d k v0 = (case map_of d k of None \<Rightarrow> v0 | Some v \<Rightarrow> v)"

definition has_key :: "('k \<times> 'v) list \<Rightarrow> 'k \<Rightarrow> bool" where
  "has_key d k \<longleftrightarrow> k \<in> fst ` set d"

lemma has_key_iff: "has_key d k \<longleftrightarrow> map_of d k \<noteq> None"
  by (simp add: has_key_def map_of_eq_None_iff)

lemma has_key_update [simp]: "has_key (AList.update k v d) k' \<longleftrightarrow> k' = k \<or> has_key d k'"
  by (auto simp: has_key_iff update_conv')

section \<open>Printing\<close>

fun nat_str :: "nat \<Rightarrow> string" where
  "nat_str n = (if n < 10 then [char_of (48 + n)] else nat_str (n div 10) @ [char_of (48 + n mod 10)])"

declare nat_str.simps [simp del]

definition int_str :: "int \<Rightarrow> string" where
  "int_str i = (if i < 0 then ''-'' @ nat_str (nat (- i)) else nat_str (nat i))"

definition hex_digit :: "nat \<Rightarrow> char" where
  "hex_digit n = (if n < 10 then char_of (48 + n) else char_of (87 + n))"

definition escape_char :: "char \<Rightarrow> string" where
  "escape_char c =
     (let n = (of_char c :: nat) in
      if n = 92 then [CHR 0x5C, CHR 0x5C]
      else if n = 34 then [CHR 0x5C, CHR 0x22]
      else if n = 8 then [CHR 0x5C, CHR ''b'']
      else if n = 12 then [CHR 0x5C, CHR ''f'']
      else if n = 10 then [CHR 0x5C, CHR ''n'']
      else if n = 13 then [CHR 0x5C, CHR ''r'']
      else if n = 9 then [CHR 0x5C, CHR ''t'']
      else if n < 32 then [CHR 0x5C, CHR ''u'', CHR ''0'', CHR ''0'', hex_digit (n div 16), hex_digit (n mod 16)]
      else [c])"

definition quote_str :: "string \<Rightarrow> string" where
  "quote_str s = [CHR 0x22] @ concat (map escape_char s) @ [CHR 0x22]"

fun join :: "string \<Rightarrow> string list \<Rightarrow> string" where
  "join sep [] = []"
| "join sep [x] = x"
| "join sep (x # y # ys) = x @ sep @ join sep (y # ys)"

primrec finite_json :: "json \<Rightarrow> bool" where
  \<comment> \<open>no NaN or infinity inside: otherwise \<open>allow_nan=False\<close> raises ValueError\<close>
  "finite_json JNull = True"
| "finite_json (JBool b) = True"
| "finite_json (JInt i) = True"
| "finite_json (JFloat x) = (case x of Finite q \<Rightarrow> True | _ \<Rightarrow> False)"
| "finite_json (JStr s) = True"
| "finite_json (JList xs) = list_all id (map finite_json xs)"
| "finite_json (JDict d) = list_all snd (map (map_prod id finite_json) d)"

primrec print_json :: "(rat \<Rightarrow> string) \<Rightarrow> json \<Rightarrow> string" where
  "print_json fr JNull = ''null''"
| "print_json fr (JBool b) = (if b then ''true'' else ''false'')"
| "print_json fr (JInt i) = int_str i"
| "print_json fr (JFloat x) = (case x of Finite q \<Rightarrow> fr q | PosInf \<Rightarrow> ''Infinity'' | NegInf \<Rightarrow> ''-Infinity'' | NaN \<Rightarrow> ''NaN'')"
| "print_json fr (JStr s) = quote_str s"
| "print_json fr (JList xs) = ''['' @ join '','' (map (print_json fr) xs) @ '']''"
| "print_json fr (JDict d) =
     ''{'' @ join '','' (map (\<lambda>(k, t). quote_str k @ '':'' @ t)
                       (sort_key fst (map (map_prod id (print_json fr)) d))) @ ''}''"

definition dumps :: "(rat \<Rightarrow> string) \<Rightarrow> json \<Rightarrow> string option" where
  \<comment> \<open>\<open>None\<close> is the ValueError of a non-finite float\<close>
  "dumps fr v = (if finite_json v then Some (print_json fr v) else None)"

primrec json_nodes :: "json \<Rightarrow> nat" where
  \<comment> \<open>number of values inside a value, itself included: the work of a traversal\<close>
  "json_nodes JNull = 1"
| "json_nodes (JBool b) = 1"
| "json_nodes (JInt i) = 1"
| "json_nodes (JFloat x) = 1"
| "json_nodes (JStr s) = 1"
| "json_nodes (JList xs) = Suc (sum_list (map json_nodes xs))"
| "json_nodes (JDict d) = Suc (sum_list (map snd (map (map_prod id json_nodes) d)))"

section \<open>Canonical text does not depend on the order of keys\<close>

lemma sort_key_fst_perm:
  assumes "mset d = mset d'" and "distinct (map fst d)"
  shows "sort_key fst d = sort_key fst d'"
proof (rule map_sorted_distinct_set_unique [where f = fst])
  have "mset (map fst d) = mset (map fst d')" using assms(1) by simp
  with assms(2) have d': "distinct (map fst d')" by (metis mset_eq_imp_distinct_iff)
  have perm: "mset (map fst (sort_key fst xs)) = mset (map fst xs)" for xs :: "('a \<times> 'b) list"
    by simp
  show "inj_on fst (set (sort_key fst d) \<union> set (sort_key fst d'))"
    using assms by (metis distinct_map mset_eq_setD set_sort sup.idem)
  show "sorted (map fst (sort_key fst d))" "sorted (map fst (sort_key fst d'))" by simp_all
  show "distinct (map fst (sort_key fst d))" "distinct (map fst (sort_key fst d'))"
    using assms(2) d' perm by (metis mset_eq_imp_distinct_iff)+
  show "set (sort_key fst d) = set (sort_key fst d')"
    using assms(1) by (metis mset_eq_setD set_sort)
qed

lemma print_json_perm:
  assumes "mset d = mset d'" and "distinct (map fst d)"
  shows "print_json fr (JDict d) = print_json fr (JDict d')"
proof -
  let ?f = "map (map_prod id (print_json fr)) :: pydict \<Rightarrow> (string \<times> string) list"
  have "mset (?f d) = mset (?f d')" using assms(1) by simp
  moreover have "distinct (map fst (?f d))" using assms(2) by (simp add: comp_def)
  ultimately have "sort_key fst (?f d) = sort_key fst (?f d')"
    by (rule sort_key_fst_perm)
  then show ?thesis by simp
qed

lemma json_nodes_pos [simp]: "0 < json_nodes v"
  by (cases v) auto

lemma nodes_values_less: "sum_list (map json_nodes (map snd d)) < json_nodes (JDict d)"
  by (simp add: comp_def)

end
