(* ===== verification/Run_Lifecycle.thy ===== *)
theory Run_Lifecycle
  imports Json
begin

text \<open>
  The Run platform (\<open>src/api/run_platform\<close>): the lifecycle table and its versioned
  transition (\<open>domain.py\<close>), the v2 event envelope and its payload checks
  (\<open>schemas.py\<close>), and the projection of an event stream onto a lifecycle
  (\<open>events.py\<close>).

  The hash function, the text of a finite float and the ISO text of a timestamp come from the
  parameter \<open>platform\<close>; no property assumes anything of them.
\<close>

section \<open>domain.py: statuses and transitions\<close>

datatype RunStatus =
  ACCEPTED | QUEUED | RUNNING | WAITING_INPUT | CANCEL_REQUESTED
  | COMPLETED | FAILED | CANCELLED | INTERRUPTED

datatype DesiredRunState = DesiredRunning | DesiredCancelled

definition TERMINAL_RUN_STATUSES :: "RunStatus set" where
  "TERMINAL_RUN_STATUSES = {COMPLETED, FAILED, CANCELLED, INTERRUPTED}"

fun ALLOWED_RUN_TRANSITIONS :: "RunStatus \<Rightarrow> RunStatus set" where
  "ALLOWED_RUN_TRANSITIONS ACCEPTED = {QUEUED, CANCEL_REQUESTED, CANCELLED}"
| "ALLOWED_RUN_TRANSITIONS QUEUED = {RUNNING, CANCEL_REQUESTED, CANCELLED}"
| "ALLOWED_RUN_TRANSITIONS RUNNING =
     {WAITING_INPUT, CANCEL_REQUESTED, COMPLETED, FAILED, CANCELLED, INTERRUPTED}"
| "ALLOWED_RUN_TRANSITIONS WAITING_INPUT = {QUEUED, CANCEL_REQUESTED}"
| "ALLOWED_RUN_TRANSITIONS CANCEL_REQUESTED = {COMPLETED, FAILED, CANCELLED, INTERRUPTED}"
| "ALLOWED_RUN_TRANSITIONS COMPLETED = {}"
| "ALLOWED_RUN_TRANSITIONS FAILED = {}"
| "ALLOWED_RUN_TRANSITIONS CANCELLED = {}"
| "ALLOWED_RUN_TRANSITIONS INTERRUPTED = {}"

definition can_transition :: "RunStatus \<Rightarrow> RunStatus \<Rightarrow> bool" where
  "can_transition current target \<longleftrightarrow> target \<in> ALLOWED_RUN_TRANSITIONS current"

record RunLifecycle =
  status :: RunStatus
  desired_state :: DesiredRunState
  version :: int

definition initial_lifecycle :: RunLifecycle where
  \<comment> \<open>the dataclass defaults\<close>
  "initial_lifecycle = \<lparr>status = ACCEPTED, desired_state = DesiredRunning, version = 1\<rparr>"

definition lifecycle_terminal :: "RunLifecycle \<Rightarrow> bool" where
  "lifecycle_terminal l \<longleftrightarrow> status l \<in> TERMINAL_RUN_STATUSES"

datatype RunTransitionError =
  VersionConflict int int | IllegalTransition RunStatus RunStatus

definition version_conflict :: "RunLifecycle \<Rightarrow> int option \<Rightarrow> bool" where
  "version_conflict l expected_version \<longleftrightarrow>
     (case expected_version of None \<Rightarrow> False | Some v \<Rightarrow> v \<noteq> version l)"

definition transition ::
  "RunLifecycle \<Rightarrow> RunStatus \<Rightarrow> int option \<Rightarrow> RunTransitionError + RunLifecycle" where
  "transition l target expected_version =
     (if version_conflict l expected_version
      then Inl (VersionConflict (the expected_version) (version l))
      else if \<not> can_transition (status l) target
      then Inl (IllegalTransition (status l) target)
      else Inr (l\<lparr>status := target,
                  desired_state := (if target \<in> {CANCEL_REQUESTED, CANCELLED}
                    then DesiredCancelled else desired_state l),
                  version := version l + 1\<rparr>))"

section \<open>schemas.py: the event envelope\<close>

record RunEventEnvelope =
  ev_v :: int
  ev_event_id :: string
  ev_run_id :: string
  ev_thread_id :: string
  ev_turn_id :: string
  ev_seq :: int
  ev_type :: string
  ev_created_at :: datetime
  ev_data :: pydict

definition require_aware_datetime :: "datetime \<Rightarrow> bool" where
  "require_aware_datetime t \<longleftrightarrow> utcoffset t \<noteq> None"

definition reject_non_finite_numbers :: "pydict \<Rightarrow> bool" where
  "reject_non_finite_numbers d \<longleftrightarrow> finite_json (JDict d)"

definition envelope_valid :: "RunEventEnvelope \<Rightarrow> bool" where
  \<comment> \<open>the declared field constraints of \<open>RunEventEnvelope\<close>\<close>
  "envelope_valid e \<longleftrightarrow>
     ev_v e = 2 \<and> 1 \<le> ev_seq e \<and> require_aware_datetime (ev_created_at e)
     \<and> reject_non_finite_numbers (ev_data e)"

definition message_delta_data :: "pydict \<Rightarrow> bool" where
  \<comment> \<open>\<open>MessageDeltaData\<close>: two text fields, nothing else\<close>
  "message_delta_data d \<longleftrightarrow>
     is_str (dget d ''part_id'') \<and> is_str (dget d ''delta'')
     \<and> list_all (\<lambda>kv. fst kv \<in> {''part_id'', ''delta''}) d"

definition parse_message_delta :: "RunEventEnvelope \<Rightarrow> bool" where
  \<comment> \<open>false: the validation raises\<close>
  "parse_message_delta e \<longleftrightarrow>
     envelope_valid e \<and> ev_type e = ''message.delta'' \<and> message_delta_data (ev_data e)"

section \<open>events.py: projection of an event stream\<close>

definition event_target_status :: "string \<Rightarrow> RunStatus option" where
  "event_target_status ty = map_of
     [(''run.queued'', QUEUED), (''run.started'', RUNNING),
      (''interaction.required'', WAITING_INPUT), (''interaction.submitted'', QUEUED),
      (''run.cancel_requested'', CANCEL_REQUESTED), (''run.completed'', COMPLETED),
      (''run.failed'', FAILED), (''run.cancelled'', CANCELLED),
      (''run.interrupted'', INTERRUPTED)] ty"

definition initial_event_type :: string where
  "initial_event_type = ''run.accepted''"

definition output_event_types :: "string set" where
  "output_event_types = {''message.delta'', ''message.snapshot''}"

definition output_event_allowed_statuses :: "RunStatus set" where
  "output_event_allowed_statuses = {RUNNING, CANCEL_REQUESTED}"

record RunProjection =
  pr_run_id :: string
  pr_thread_id :: string
  pr_turn_id :: string
  pr_lifecycle :: RunLifecycle
  pr_last_event_seq :: int
  pr_last_event_id :: string
  pr_last_event_digest :: string

definition projection_terminal :: "RunProjection \<Rightarrow> bool" where
  "projection_terminal p \<longleftrightarrow> lifecycle_terminal (pr_lifecycle p)"

definition event_dump :: "platform \<Rightarrow> RunEventEnvelope \<Rightarrow> json" where
  \<comment> \<open>\<open>event.model_dump(mode="json")\<close>\<close>
  "event_dump P e = JDict
     [(''v'', JInt (ev_v e)), (''event_id'', JStr (ev_event_id e)),
      (''run_id'', JStr (ev_run_id e)), (''thread_id'', JStr (ev_thread_id e)),
      (''turn_id'', JStr (ev_turn_id e)), (''seq'', JInt (ev_seq e)),
      (''type'', JStr (ev_type e)), (''created_at'', JStr (isoformat P (ev_created_at e))),
      (''data'', JDict (ev_data e))]"

definition event_digest :: "platform \<Rightarrow> RunEventEnvelope \<Rightarrow> string" where
  "event_digest P e = sha256 P (print_json (frepr P) (event_dump P e))"

datatype RunEventProjectionError =
    FirstEventNotAccepted
  | RepeatedEventDiffers
  | EventAfterTerminal
  | AcceptedNotFirst
  | StreamIdentityChanged
  | SeqNotContiguous int int
  | OutputInStatus string RunStatus
  | MessageDeltaInvalid
  | LifecycleViolation RunTransitionError

definition initial_projection ::
  "platform \<Rightarrow> RunEventEnvelope \<Rightarrow> RunEventProjectionError + RunProjection" where
  "initial_projection P e =
     (if ev_seq e \<noteq> 1 \<or> ev_type e \<noteq> initial_event_type then Inl FirstEventNotAccepted
      else Inr \<lparr>pr_run_id = ev_run_id e, pr_thread_id = ev_thread_id e,
                pr_turn_id = ev_turn_id e, pr_lifecycle = initial_lifecycle,
                pr_last_event_seq = 1, pr_last_event_id = ev_event_id e,
                pr_last_event_digest = event_digest P e\<rparr>)"

definition check_output_event ::
  "RunProjection \<Rightarrow> RunEventEnvelope \<Rightarrow> RunEventProjectionError + unit" where
  "check_output_event p e =
     (if ev_type e \<in> output_event_types then
        if status (pr_lifecycle p) \<notin> output_event_allowed_statuses
        then Inl (OutputInStatus (ev_type e) (status (pr_lifecycle p)))
        else if ev_type e = ''message.delta'' \<and> \<not> parse_message_delta e
        then Inl MessageDeltaInvalid
        else Inr ()
      else Inr ())"

definition next_lifecycle ::
  "RunLifecycle \<Rightarrow> string \<Rightarrow> RunEventProjectionError + RunLifecycle" where
  "next_lifecycle l ty =
     (case event_target_status ty of
        None \<Rightarrow> Inr l
      | Some target \<Rightarrow>
          (case transition l target None of
             Inl err \<Rightarrow> Inl (LifecycleViolation err) | Inr l' \<Rightarrow> Inr l'))"

definition same_stream :: "RunProjection \<Rightarrow> RunEventEnvelope \<Rightarrow> bool" where
  "same_stream p e \<longleftrightarrow> ev_run_id e = pr_run_id p \<and> ev_thread_id e = pr_thread_id p
     \<and> ev_turn_id e = pr_turn_id p"

definition is_repeat :: "RunProjection \<Rightarrow> RunEventEnvelope \<Rightarrow> bool" where
  "is_repeat p e \<longleftrightarrow> ev_seq e = pr_last_event_seq p \<and> ev_event_id e = pr_last_event_id p"

definition apply_run_event ::
  "platform \<Rightarrow> RunProjection option \<Rightarrow> RunEventEnvelope
     \<Rightarrow> RunEventProjectionError + RunProjection" where
  "apply_run_event P projection e =
     (case projection of
        None \<Rightarrow> initial_projection P e
      | Some p \<Rightarrow>
          if is_repeat p e then
            (if event_digest P e = pr_last_event_digest p then Inr p
             else Inl RepeatedEventDiffers)
          else if projection_terminal p then Inl EventAfterTerminal
          else if ev_type e = initial_event_type then Inl AcceptedNotFirst
          else if \<not> same_stream p e then Inl StreamIdentityChanged
          else if ev_seq e \<noteq> pr_last_event_seq p + 1
               then Inl (SeqNotContiguous (pr_last_event_seq p + 1) (ev_seq e))
          else bindE (check_output_event p e) (\<lambda>_.
               bindE (next_lifecycle (pr_lifecycle p) (ev_type e)) (\<lambda>l.
               Inr (p\<lparr>pr_lifecycle := l, pr_last_event_seq := ev_seq e,
                      pr_last_event_id := ev_event_id e,
                      pr_last_event_digest := event_digest P e\<rparr>))))"

definition project_step ::
  "platform \<Rightarrow> RunProjection option \<Rightarrow> RunEventEnvelope
     \<Rightarrow> RunEventProjectionError + RunProjection option" where
  "project_step P p e = map_sum id Some (apply_run_event P p e)"

definition project_events ::
  "platform \<Rightarrow> RunEventEnvelope list \<Rightarrow> RunEventProjectionError + RunProjection option" where
  "project_events P es = foldE (project_step P) None es"

section \<open>The lifecycle table\<close>

lemma terminal_iff_stuck: "s \<in> TERMINAL_RUN_STATUSES \<longleftrightarrow> ALLOWED_RUN_TRANSITIONS s = {}"
  by (cases s) (auto simp: TERMINAL_RUN_STATUSES_def)

lemma transition_eq_Inr:
  "transition l t ev = Inr l' \<longleftrightarrow>
     (\<forall>v. ev = Some v \<longrightarrow> v = version l) \<and> t \<in> ALLOWED_RUN_TRANSITIONS (status l) \<and>
     l' = l\<lparr>status := t,
            desired_state := (if t \<in> {CANCEL_REQUESTED, CANCELLED} then DesiredCancelled
                              else desired_state l),
            version := version l + 1\<rparr>"
  by (auto simp: transition_def can_transition_def version_conflict_def split: option.splits if_splits)

lemma transition_step:
  assumes "transition l t ev = Inr l'"
  shows "status l' = t" "version l' = version l + 1" "\<not> lifecycle_terminal l"
    "desired_state l = DesiredCancelled \<Longrightarrow> desired_state l' = DesiredCancelled"
proof -
  from assms have "t \<in> ALLOWED_RUN_TRANSITIONS (status l)"
    by (simp add: transition_eq_Inr)
  then show "\<not> lifecycle_terminal l"
    unfolding lifecycle_terminal_def terminal_iff_stuck by auto
qed (use assms in \<open>auto simp: transition_eq_Inr\<close>)

text \<open>What the lifecycle guarantees of a state: a cancel request is recorded in the desired
  state, and the version counts the accepted transitions from the initial one.\<close>

definition lifecycle_inv :: "RunLifecycle \<Rightarrow> bool" where
  "lifecycle_inv l \<longleftrightarrow>
     1 \<le> version l \<and>
     (status l \<in> {CANCEL_REQUESTED, CANCELLED} \<longrightarrow> desired_state l = DesiredCancelled) \<and>
     (desired_state l = DesiredCancelled \<longrightarrow>
        status l = CANCEL_REQUESTED \<or> lifecycle_terminal l) \<and>
     (status l = ACCEPTED \<longrightarrow> version l = 1)"

lemma lifecycle_inv_transition:
  assumes "lifecycle_inv l" and "transition l t ev = Inr l'"
  shows "lifecycle_inv l'"
proof -
  from assms(2) have t: "t \<in> ALLOWED_RUN_TRANSITIONS (status l)" by (simp add: transition_eq_Inr)
  show ?thesis
    using assms t by (cases "status l")
      (auto simp: transition_eq_Inr lifecycle_inv_def lifecycle_terminal_def TERMINAL_RUN_STATUSES_def)
qed

lemma lifecycle_inv_initial [simp]: "lifecycle_inv initial_lifecycle"
  by (simp add: lifecycle_inv_def initial_lifecycle_def)

definition lifecycle_command :: "RunLifecycle \<Rightarrow> RunStatus \<times> int option \<Rightarrow> RunTransitionError + RunLifecycle" where
  "lifecycle_command l c = transition l (fst c) (snd c)"

interpretation lifecycle: step_invariant lifecycle_command lifecycle_inv
  by unfold_locales (auto simp: lifecycle_command_def intro: lifecycle_inv_transition)

definition lifecycle_le :: "RunLifecycle \<Rightarrow> RunLifecycle \<Rightarrow> bool" where
  "lifecycle_le l l' \<longleftrightarrow>
     l' = l \<or> (version l < version l' \<and> \<not> lifecycle_terminal l \<and>
       (desired_state l = DesiredCancelled \<longrightarrow> desired_state l' = DesiredCancelled))"

interpretation lifecycle_order: step_monotone lifecycle_command lifecycle_le
proof unfold_locales
  show "lifecycle_le s s" for s by (simp add: lifecycle_le_def)
  show "lifecycle_le s t \<Longrightarrow> lifecycle_le t u \<Longrightarrow> lifecycle_le s u" for s t u
    by (auto simp: lifecycle_le_def)
  show "lifecycle_command s a = Inr s' \<Longrightarrow> lifecycle_le s s'" for s a s'
    using transition_step by (fastforce simp: lifecycle_command_def lifecycle_le_def)
qed

section \<open>The projection\<close>

lemma next_lifecycle_cases:
  assumes "next_lifecycle l ty = Inr l'"
  shows "l' = l \<or> (\<exists>t. event_target_status ty = Some t \<and> transition l t None = Inr l')"
  using assms by (auto simp: next_lifecycle_def split: option.splits sum.splits)

lemma apply_run_event_cases:
  assumes "apply_run_event P (Some p) e = Inr p'"
  obtains (duplicate) "is_repeat p e" "event_digest P e = pr_last_event_digest p" "p' = p"
  | (advance) l where "\<not> is_repeat p e" "\<not> projection_terminal p" "same_stream p e"
      "ev_seq e = pr_last_event_seq p + 1" "check_output_event p e = Inr ()"
      "next_lifecycle (pr_lifecycle p) (ev_type e) = Inr l"
      "p' = p\<lparr>pr_lifecycle := l, pr_last_event_seq := ev_seq e,
              pr_last_event_id := ev_event_id e, pr_last_event_digest := event_digest P e\<rparr>"
  using assms by (auto simp: apply_run_event_def result_simps split: if_splits)

definition projection_inv :: "platform \<Rightarrow> RunProjection \<Rightarrow> bool" where
  "projection_inv P p \<longleftrightarrow>
     lifecycle_inv (pr_lifecycle p) \<and> 1 \<le> pr_last_event_seq p \<and>
     version (pr_lifecycle p) \<le> pr_last_event_seq p"

lemma projection_inv_initial:
  "apply_run_event P None e = Inr p \<Longrightarrow> projection_inv P p"
  by (auto simp: apply_run_event_def initial_projection_def projection_inv_def
      initial_lifecycle_def lifecycle_inv_def split: if_splits)

lemma projection_inv_step:
  assumes "projection_inv P p" and "apply_run_event P (Some p) e = Inr p'"
  shows "projection_inv P p'"
  using assms(2)
proof (cases rule: apply_run_event_cases)
  case duplicate
  with assms(1) show ?thesis by simp
next
  case (advance l)
  from advance(6) have "lifecycle_inv l \<and> version l \<le> version (pr_lifecycle p) + 1"
    using assms(1) lifecycle_inv_transition transition_step(2)
    by (fastforce simp: projection_inv_def dest: next_lifecycle_cases)
  with advance assms(1) show ?thesis by (auto simp: projection_inv_def)
qed

lemma next_lifecycle_le: "next_lifecycle l ty = Inr l' \<Longrightarrow> lifecycle_le l l'"
  using lifecycle_order.step_le [of l "(_, None)" l']
  by (auto simp: lifecycle_command_def lifecycle_le_def dest!: next_lifecycle_cases)

interpretation projection: step_invariant "project_step P" "\<lambda>p. case p of None \<Rightarrow> True | Some q \<Rightarrow> projection_inv P q"
  for P
proof unfold_locales
  fix s a s'
  assume "case s of None \<Rightarrow> True | Some q \<Rightarrow> projection_inv P q" "project_step P s a = Inr s'"
  then show "case s' of None \<Rightarrow> True | Some q \<Rightarrow> projection_inv P q"
    by (cases s; cases "apply_run_event P s a")
      (auto simp: project_step_def intro: projection_inv_initial projection_inv_step)
qed

section \<open>Properties\<close>

lemma project_events_snoc:
  "project_events P (es @ [e]) = bindE (project_events P es) (\<lambda>p. project_step P p e)"
  by (simp add: project_events_def foldE_append bindE_def split: sum.splits)

lemma project_step_Inr:
  "project_step P q e = Inr r \<longleftrightarrow> (\<exists>p. apply_run_event P q e = Inr p \<and> r = Some p)"
  by (cases "apply_run_event P q e") (auto simp: project_step_def)

lemma project_events_None: "project_events P es = Inr None \<longleftrightarrow> es = []"
proof (cases es rule: rev_cases)
  case Nil
  then show ?thesis by (simp add: project_events_def)
next
  case (snoc ys y)
  then show ?thesis by (auto simp: project_events_snoc result_simps project_step_Inr)
qed

lemma project_events_induct [consumes 1, case_names init step]:
  assumes "project_events P es = Inr (Some p)"
    and init: "\<And>e p. apply_run_event P None e = Inr p \<Longrightarrow> Q [e] p"
    and step: "\<And>es e p p'. es \<noteq> [] \<Longrightarrow> project_events P es = Inr (Some p) \<Longrightarrow> Q es p \<Longrightarrow>
      apply_run_event P (Some p) e = Inr p' \<Longrightarrow> Q (es @ [e]) p'"
  shows "Q es p"
  using assms(1)
proof (induction es arbitrary: p rule: rev_induct)
  case Nil
  then show ?case by (simp add: project_events_def)
next
  case (snoc e es)
  then obtain q where q: "project_events P es = Inr q" "apply_run_event P q e = Inr p"
    by (auto simp: project_events_snoc result_simps project_step_Inr)
  show ?case
  proof (cases q)
    case None
    with q show ?thesis using init by (simp add: project_events_None)
  next
    case (Some p0)
    with q snoc.IH show ?thesis by (metis option.distinct(1) project_events_None step sum.inject(2))
  qed
qed

text \<open>An event of the stream, or a retransmission of one: same sequence number, id and digest.\<close>

definition belongs :: "platform \<Rightarrow> RunEventEnvelope list \<Rightarrow> RunProjection \<Rightarrow> RunEventEnvelope \<Rightarrow> bool" where
  "belongs P es p e \<longleftrightarrow> (\<exists>e' \<in> set es. same_stream p e' \<and> ev_seq e' = ev_seq e \<and>
     ev_event_id e' = ev_event_id e \<and> event_digest P e' = event_digest P e)"

lemma same_stream_advance [simp]:
  "same_stream (p\<lparr>pr_lifecycle := l, pr_last_event_seq := n, pr_last_event_id := i,
     pr_last_event_digest := d\<rparr>) e = same_stream p e"
  by (simp add: same_stream_def)

lemma project_events_belongs:
  assumes "project_events P es = Inr (Some p)"
  shows "(\<forall>e \<in> set es. belongs P es p e) \<and>
    (\<exists>e' \<in> set es. same_stream p e' \<and> is_repeat p e' \<and> event_digest P e' = pr_last_event_digest p)"
  using assms
proof (induction rule: project_events_induct)
  case (init e p)
  then show ?case
    by (auto simp: apply_run_event_def initial_projection_def same_stream_def is_repeat_def
        belongs_def split: if_splits)
next
  case (step es e p p')
  from step.hyps(3) show ?case
  proof (cases rule: apply_run_event_cases)
    case duplicate
    with step.IH have "belongs P es p e" by (auto simp: belongs_def is_repeat_def)
    with duplicate step.IH show ?thesis by (auto simp: belongs_def)
  next
    case (advance l)
    have "belongs P (es @ [e]) p' x" if "belongs P es p x" for x
      using that advance(7) by (auto simp: belongs_def)
    moreover from advance have "same_stream p' e" "is_repeat p' e"
      "event_digest P e = pr_last_event_digest p'"
      by (auto simp: is_repeat_def)
    ultimately show ?thesis using step.IH by (auto simp: belongs_def)
  qed
qed

lemma project_events_inv:
  "project_events P es = Inr (Some p) \<Longrightarrow> projection_inv P p"
  using projection.run_inv [of P None es "Some p"] by (simp add: project_events_def)

lemma project_events_seqs:
  assumes "project_events P es = Inr (Some p)"
  shows "remdups_adj (map ev_seq es) = [1..pr_last_event_seq p]"
  using assms
proof (induction rule: project_events_induct)
  case (init e p)
  then show ?case
    by (auto simp: apply_run_event_def initial_projection_def split: if_splits)
next
  case (step es e p p')
  from step.hyps(2) have pos: "1 \<le> pr_last_event_seq p"
    using project_events_inv by (fastforce simp: projection_inv_def)
  have last: "last (map ev_seq es) = pr_last_event_seq p"
  proof -
    have "last (remdups_adj (map ev_seq es)) = last [1..pr_last_event_seq p]"
      using step.IH by simp
    with pos show ?thesis by (simp add: upto_rec2)
  qed
  from step.hyps(3) show ?case
  proof (cases rule: apply_run_event_cases)
    case duplicate
    with step.IH last show ?thesis
      using step.hyps(1) by (auto simp: remdups_adj_snoc is_repeat_def)
  next
    case (advance l)
    then have "remdups_adj (map ev_seq es @ [ev_seq e]) = remdups_adj (map ev_seq es) @ [ev_seq e]"
      using step.hyps(1) last by (simp add: remdups_adj_snoc)
    with advance step.IH pos show ?thesis by (simp add: upto_rec2)
  qed
qed

text \<open>
  What a run's statuses should do, from its states and not from the table: it is queued when accepted or answered, runs from the
  queue, waits and ends only while running, may be cancelled until it ends, only ends once a cancellation
  is requested, and nothing follows an end.
\<close>

fun legal_move :: "RunStatus \<Rightarrow> RunStatus \<Rightarrow> bool" where
  "legal_move s ACCEPTED = False"
| "legal_move s QUEUED = (s = ACCEPTED \<or> s = WAITING_INPUT)"
| "legal_move s RUNNING = (s = QUEUED)"
| "legal_move s WAITING_INPUT = (s = RUNNING)"
| "legal_move s CANCEL_REQUESTED = (s \<in> {ACCEPTED, QUEUED, RUNNING, WAITING_INPUT})"
| "legal_move s CANCELLED = (s \<in> {ACCEPTED, QUEUED, RUNNING, CANCEL_REQUESTED})"
| "legal_move s t = (s \<in> {RUNNING, CANCEL_REQUESTED})"

lemma table_legal: "t \<in> ALLOWED_RUN_TRANSITIONS s \<longleftrightarrow> legal_move s t"
  by (cases s; cases t) auto

text \<open>The statuses a stream visits: those its events name, retransmissions left out.\<close>

fun fresh_events :: "RunEventEnvelope list \<Rightarrow> RunEventEnvelope list" where
  "fresh_events (e # f # es) = (if ev_seq e = ev_seq f then fresh_events (e # es) else e # fresh_events (f # es))"
| "fresh_events es = es"

definition visited :: "RunEventEnvelope list \<Rightarrow> RunStatus list" where
  "visited es = ACCEPTED # List.map_filter (\<lambda>e. event_target_status (ev_type e)) (fresh_events es)"

lemma fresh_events_snoc:
  "es \<noteq> [] \<Longrightarrow> fresh_events (es @ [x]) = (if ev_seq (last es) = ev_seq x then fresh_events es else fresh_events es @ [x])"
  by (induction es rule: fresh_events.induct) auto

lemma visited_snoc:
  assumes "es \<noteq> []"
  shows "visited (es @ [e]) = (if ev_seq (last es) = ev_seq e then visited es
    else visited es @ (case event_target_status (ev_type e) of None \<Rightarrow> [] | Some t \<Rightarrow> [t]))"
  using assms by (auto simp: visited_def fresh_events_snoc map_filter_def split: option.splits)

definition visits :: "RunEventEnvelope list \<Rightarrow> RunLifecycle \<Rightarrow> bool" where
  "visits es l \<longleftrightarrow> last (visited es) = status l \<and> int (length (visited es)) = version l \<and> successively legal_move (visited es) \<and>
     (desired_state l = DesiredCancelled \<longleftrightarrow> CANCEL_REQUESTED \<in> set (visited es) \<or> CANCELLED \<in> set (visited es))"

lemma visited_ne [simp]: "visited es \<noteq> []"
  by (simp add: visited_def)

lemma visits_next:
  assumes "visits es l" "next_lifecycle l (ev_type e) = Inr l'" "es \<noteq> []" "ev_seq (last es) \<noteq> ev_seq e"
  shows "visits (es @ [e]) l'"
proof (cases "event_target_status (ev_type e)")
  case None
  with assms show ?thesis by (simp add: visits_def visited_snoc next_lifecycle_def)
next
  case (Some t)
  with assms(2) have "transition l t None = Inr l'"
    by (auto simp: next_lifecycle_def split: sum.splits)
  then have "legal_move (status l) t" "l' = l\<lparr>status := t, desired_state := (if t \<in> {CANCEL_REQUESTED, CANCELLED} then DesiredCancelled
      else desired_state l), version := version l + 1\<rparr>"
    by (auto simp: transition_eq_Inr table_legal)
  with assms Some show ?thesis
    by (auto simp: visits_def visited_snoc successively_append_iff)
qed

lemma project_events_visits:
  assumes "project_events P es = Inr (Some p)"
  shows "visits es (pr_lifecycle p) \<and> ev_seq (last es) = pr_last_event_seq p"
  using assms
proof (induction rule: project_events_induct)
  case (init e p)
  then show ?case
    by (auto simp: apply_run_event_def initial_projection_def initial_lifecycle_def initial_event_type_def visits_def visited_def
        event_target_status_def map_filter_def split: if_splits)
next
  case (step es e p p')
  from step.hyps(3) show ?case
  proof (cases rule: apply_run_event_cases)
    case duplicate
    with step.IH step.hyps(1) show ?thesis by (auto simp: visits_def visited_snoc is_repeat_def)
  next
    case (advance l)
    with step.IH step.hyps(1) visits_next [of es "pr_lifecycle p" e l] show ?thesis by auto
  qed
qed

text \<open>Property C1. A replayed stream walks through exactly the statuses its events name (retransmissions aside), each step a
  legal one; the projection holds the last of them, its version counts them, and a cancellation is desired
  exactly when one was requested or made on the way. The version never exceeds the last sequence number, a desired
  cancellation means the run is cancel-requested or terminal, and every event belongs to the run, thread and turn of
  the projection or is a retransmission of one that does.\<close>

theorem run_projection_sound:
  assumes "project_events P es = Inr (Some p)"
  shows "last (visited es) = status (pr_lifecycle p) \<and> int (length (visited es)) = version (pr_lifecycle p) \<and>
    successively legal_move (visited es) \<and>
    (desired_state (pr_lifecycle p) = DesiredCancelled \<longleftrightarrow> CANCEL_REQUESTED \<in> set (visited es) \<or> CANCELLED \<in> set (visited es)) \<and>
    lifecycle_inv (pr_lifecycle p) \<and> version (pr_lifecycle p) \<le> pr_last_event_seq p \<and>
    (\<forall>e \<in> set es. belongs P es p e)"
  using project_events_visits [OF assms] project_events_inv [OF assms]
    project_events_belongs [OF assms]
  by (simp add: projection_inv_def visits_def)

text \<open>The sequence numbers of an accepted stream, with immediate retransmissions
  dropped, are exactly \<open>1, 2, ..., n\<close> where \<open>n\<close> is the projection's last sequence number.\<close>

lemma run_seq_contiguous:
  assumes "project_events P es = Inr (Some p)"
  shows "remdups_adj (map ev_seq es) = [1..pr_last_event_seq p]"
  using assms by (rule project_events_seqs)

text \<open>A terminal run accepts nothing but an exact repeat of its last event, and
  that repeat changes nothing.\<close>

lemma run_terminal_absorbing:
  assumes "projection_terminal p" and "apply_run_event P (Some p) e = Inr p'"
  shows "p' = p \<and> is_repeat p e \<and> event_digest P e = pr_last_event_digest p"
  using assms(2) by (cases rule: apply_run_event_cases) (use assms(1) in auto)

text \<open>Applying an event a second time, right after it was accepted, leaves the
  projection as it is: redelivery after a lost acknowledgement is harmless.\<close>

lemma run_redelivery_idempotent:
  assumes "apply_run_event P q e = Inr p"
  shows "apply_run_event P (Some p) e = Inr p"
proof (cases q)
  case None
  with assms show ?thesis
    by (auto simp: apply_run_event_def initial_projection_def is_repeat_def split: if_splits)
next
  case (Some p0)
  with assms have "apply_run_event P (Some p0) e = Inr p" by simp
  then show ?thesis
    by (cases rule: apply_run_event_cases)
      (auto simp: apply_run_event_def is_repeat_def)
qed

text \<open>Property C2. Two writers that read the same version cannot both move a run: after the
  first transition the second one fails with a version conflict.\<close>

theorem run_version_cas:
  assumes "transition l t1 (Some v) = Inr l1"
  shows "transition l1 t2 (Some v) = Inl (VersionConflict v (v + 1))"
proof -
  have "version l1 = v + 1" using assms by (auto simp: transition_eq_Inr)
  then show ?thesis by (simp add: transition_def version_conflict_def)
qed

text \<open>Once cancellation is requested, at most one more transition is accepted,
  the request is never withdrawn, and after that transition the run is terminal.\<close>

lemma run_cancel_sticky:
  assumes "lifecycle_inv l" and "desired_state l = DesiredCancelled"
    and "foldE lifecycle_command l cs = Inr l'"
  shows "desired_state l' = DesiredCancelled \<and> length cs \<le> 1 \<and>
    (cs \<noteq> [] \<longrightarrow> lifecycle_terminal l')"
proof (cases cs)
  case Nil
  with assms show ?thesis by simp
next
  case (Cons c cs')
  with assms(3) obtain m where m: "transition l (fst c) (snd c) = Inr m"
    and rest: "foldE lifecycle_command m cs' = Inr l'"
    by (auto simp: lifecycle_command_def split: sum.splits)
  have "lifecycle_inv m" "desired_state m = DesiredCancelled" "status l = CANCEL_REQUESTED"
    using lifecycle_inv_transition [OF assms(1) m] transition_step(3,4) [OF m] assms(1,2)
    by (auto simp: lifecycle_inv_def)
  moreover from this m have "lifecycle_terminal m"
    by (auto simp: transition_eq_Inr lifecycle_terminal_def TERMINAL_RUN_STATUSES_def)
  moreover from this rest have "cs' = [] \<and> l' = m"
    by (cases cs')
      (auto simp: lifecycle_command_def dest: transition_step(3) split: sum.splits)
  ultimately show ?thesis using Cons by simp
qed

section \<open>Witnesses\<close>

definition demo_event :: "int \<Rightarrow> string \<Rightarrow> RunEventEnvelope" where
  "demo_event n ty = \<lparr>ev_v = 2, ev_event_id = ''e'' @ int_str n, ev_run_id = ''r'',
     ev_thread_id = ''th'', ev_turn_id = ''tu'', ev_seq = n, ev_type = ty,
     ev_created_at = \<lparr>instant = n, utcoffset = Some 0\<rparr>, ev_data = []\<rparr>"

definition demo_stream :: "RunEventEnvelope list" where
  "demo_stream = [demo_event 1 ''run.accepted'', demo_event 2 ''run.queued'',
     demo_event 2 ''run.queued'', demo_event 3 ''run.started'', demo_event 4 ''run.completed'']"

lemma demo_stream_accepted:
  "\<exists>p. project_events demo_platform demo_stream = Inr (Some p) \<and>
     status (pr_lifecycle p) = COMPLETED \<and> pr_last_event_seq p = 4"
  by (simp add: project_events_def demo_stream_def demo_event_def demo_platform_def
      project_step_def apply_run_event_def initial_projection_def initial_event_type_def
      initial_lifecycle_def is_repeat_def same_stream_def projection_terminal_def
      lifecycle_terminal_def TERMINAL_RUN_STATUSES_def check_output_event_def
      output_event_types_def next_lifecycle_def event_target_status_def transition_def
      version_conflict_def can_transition_def int_str_def nat_str.simps)

theorem run_projection_sound_witness:
  "visited demo_stream = [ACCEPTED, QUEUED, RUNNING, COMPLETED] \<and> successively legal_move (visited demo_stream) \<and>
   (\<exists>p. project_events demo_platform demo_stream = Inr (Some p) \<and> last (visited demo_stream) = status (pr_lifecycle p))"
proof -
  have "visited demo_stream = [ACCEPTED, QUEUED, RUNNING, COMPLETED]"
    by (simp add: visited_def demo_stream_def demo_event_def map_filter_def event_target_status_def)
  then show ?thesis using demo_stream_accepted run_projection_sound by metis
qed

lemma run_seq_contiguous_example:
  "remdups_adj (map ev_seq demo_stream) = [1..4]"
  using demo_stream_accepted run_seq_contiguous by metis

definition demo_done :: RunProjection where
  "demo_done = \<lparr>pr_run_id = ''r'', pr_thread_id = ''th'', pr_turn_id = ''tu'',
     pr_lifecycle = \<lparr>status = COMPLETED, desired_state = DesiredRunning, version = 4\<rparr>,
     pr_last_event_seq = 4, pr_last_event_id = ''e'' @ int_str 4,
     pr_last_event_digest = event_digest demo_platform (demo_event 4 ''run.completed'')\<rparr>"

lemma demo_done_repeat:
  "projection_terminal demo_done"
  "apply_run_event demo_platform (Some demo_done) (demo_event 4 ''run.completed'') = Inr demo_done"
  by (simp_all add: demo_done_def projection_terminal_def lifecycle_terminal_def
      TERMINAL_RUN_STATUSES_def apply_run_event_def is_repeat_def demo_event_def)

lemma run_terminal_absorbing_example:
  "is_repeat demo_done (demo_event 4 ''run.completed'')"
  using run_terminal_absorbing [OF demo_done_repeat] by blast

lemma run_redelivery_idempotent_example:
  "\<exists>p. apply_run_event demo_platform None (demo_event 1 ''run.accepted'') = Inr p \<and>
     apply_run_event demo_platform (Some p) (demo_event 1 ''run.accepted'') = Inr p"
proof -
  have "\<exists>p. apply_run_event demo_platform None (demo_event 1 ''run.accepted'') = Inr p"
    by (simp add: apply_run_event_def initial_projection_def demo_event_def initial_event_type_def)
  then show ?thesis using run_redelivery_idempotent by blast
qed

theorem run_version_cas_witness:
  "transition initial_lifecycle QUEUED (Some 1) =
     Inr \<lparr>status = QUEUED, desired_state = DesiredRunning, version = 2\<rparr> \<and>
   transition \<lparr>status = QUEUED, desired_state = DesiredRunning, version = 2\<rparr> CANCELLED (Some 1) =
     Inl (VersionConflict 1 2)"
proof -
  have h: "transition initial_lifecycle QUEUED (Some 1) =
     Inr \<lparr>status = QUEUED, desired_state = DesiredRunning, version = 2\<rparr>"
    by (simp add: transition_eq_Inr initial_lifecycle_def)
  show ?thesis using h run_version_cas [OF h, of CANCELLED] by simp
qed

lemma run_cancel_sticky_example:
  "lifecycle_terminal \<lparr>status = COMPLETED, desired_state = DesiredCancelled, version = 4\<rparr> \<and>
   length [(COMPLETED, None :: int option)] \<le> 1"
proof -
  let ?l = "\<lparr>status = CANCEL_REQUESTED, desired_state = DesiredCancelled, version = 3\<rparr>"
  have "lifecycle_inv ?l" by (simp add: lifecycle_inv_def)
  moreover have "foldE lifecycle_command ?l [(COMPLETED, None)] =
      Inr \<lparr>status = COMPLETED, desired_state = DesiredCancelled, version = 4\<rparr>"
    by (simp add: lifecycle_command_def transition_def version_conflict_def can_transition_def)
  ultimately show ?thesis using run_cancel_sticky by fastforce
qed

end
