(* ===== verification/Base64.thy ===== *)
theory Base64
  imports Json
begin

text \<open>
  URL-safe base64 as the program uses it (\<open>base64.urlsafe_b64encode\<close> with the padding
  stripped, and \<open>base64.b64decode(..., altchars=b"-_", validate=True)\<close>), and the strict
  decoding of an AES-256 payload key, \<open>decode_interaction_payload_key\<close> of
  \<open>src/common/mcp_interactions.py\<close>. Bytes are \<open>char\<close>s.
\<close>

section \<open>Groups of three bytes\<close>

definition b64_char :: "nat \<Rightarrow> char" where
  "b64_char n =
     (if n < 26 then char_of (65 + n)
      else if n < 52 then char_of (71 + n)
      else if n < 62 then char_of (n - 4)
      else if n = 62 then CHR ''-'' else CHR ''_'')"

definition b64_val :: "char \<Rightarrow> nat option" where
  \<comment> \<open>\<open>altchars\<close> translates \<open>-\<close> and \<open>_\<close> to \<open>+\<close> and \<open>/\<close>, which stay accepted\<close>
  "b64_val c =
     (let n = (of_char c :: nat) in
      if 65 \<le> n \<and> n \<le> 90 then Some (n - 65)
      else if 97 \<le> n \<and> n \<le> 122 then Some (n - 71)
      else if 48 \<le> n \<and> n \<le> 57 then Some (n + 4)
      else if n = 45 \<or> n = 43 then Some 62
      else if n = 95 \<or> n = 47 then Some 63
      else None)"

definition byte :: "nat \<Rightarrow> char" where
  "byte n = char_of n"

fun b64encode :: "string \<Rightarrow> string" where
  \<comment> \<open>\<open>base64.urlsafe_b64encode\<close>\<close>
  "b64encode [] = []"
| "b64encode [a] =
     (let x = of_char a in
      [b64_char (x div 4), b64_char (x mod 4 * 16), CHR ''='', CHR ''=''])"
| "b64encode [a, b] =
     (let x = of_char a; y = of_char b in
      [b64_char (x div 4), b64_char (x mod 4 * 16 + y div 16), b64_char (y mod 16 * 4), CHR ''=''])"
| "b64encode (a # b # c # bs) =
     (let x = of_char a; y = of_char b; z = of_char c in
      [b64_char (x div 4), b64_char (x mod 4 * 16 + y div 16),
       b64_char (y mod 16 * 4 + z div 64), b64_char (z mod 64)] @ b64encode bs)"

fun b64decode :: "string \<Rightarrow> string option" where
  \<comment> \<open>strict mode: quads of the alphabet, padding only at the very end\<close>
  "b64decode [] = Some []"
| "b64decode (p # q # r # s # rest) =
     (case (b64_val p, b64_val q) of
        (Some w, Some x) \<Rightarrow>
          (case b64_val r of
             Some y \<Rightarrow>
               (case b64_val s of
                  Some z \<Rightarrow>
                    map_option (\<lambda>bs. byte (w * 4 + x div 16) # byte (x mod 16 * 16 + y div 4)
                                  # byte (y mod 4 * 64 + z) # bs) (b64decode rest)
                | None \<Rightarrow>
                    if s = CHR ''='' \<and> rest = []
                    then Some [byte (w * 4 + x div 16), byte (x mod 16 * 16 + y div 4)] else None)
           | None \<Rightarrow>
               if r = CHR ''='' \<and> s = CHR ''='' \<and> rest = []
               then Some [byte (w * 4 + x div 16)] else None)
      | _ \<Rightarrow> None)"
| "b64decode _ = None"

definition rstrip_pad :: "string \<Rightarrow> string" where
  \<comment> \<open>\<open>s.rstrip("=")\<close>\<close>
  "rstrip_pad s = rev (dropWhile (\<lambda>c. c = CHR ''='') (rev s))"

definition pad_for :: "string \<Rightarrow> string" where
  \<comment> \<open>\<open>"=" * (-len(s) % 4)\<close>\<close>
  "pad_for s = replicate (nat (- int (length s) mod 4)) (CHR ''='')"

definition is_ascii :: "string \<Rightarrow> bool" where
  "is_ascii s \<longleftrightarrow> list_all (\<lambda>c. (of_char c :: nat) < 128) s"

datatype key_error = NotCanonicalBase64 | NotThirtyTwoBytes

definition decode_interaction_payload_key :: "string \<Rightarrow> key_error + string" where
  "decode_interaction_payload_key encoded_key =
     (let candidate = py_strip encoded_key in
      if \<not> is_ascii candidate then Inl NotCanonicalBase64
      else case b64decode (candidate @ pad_for candidate) of
             None \<Rightarrow> Inl NotCanonicalBase64
           | Some raw \<Rightarrow>
               if length raw \<noteq> 32 then Inl NotThirtyTwoBytes
               else if rstrip_pad (b64encode raw) \<noteq> rstrip_pad candidate
               then Inl NotCanonicalBase64
               else Inr raw)"

section \<open>Round trip\<close>

lemma of_char_256: "(of_char c :: nat) < 256"
  by (metis nat_of_char_less_256)

lemma of_char_char_of: "n < 256 \<Longrightarrow> (of_char (char_of n) :: nat) = n"
  by simp

lemma b64_val_char: "n < 64 \<Longrightarrow> b64_val (b64_char n) = Some n"
  by (auto simp: b64_val_def b64_char_def Let_def)

lemma b64_val_pad [simp]: "b64_val (CHR ''='') = None"
  by (simp add: b64_val_def)

lemma byte_of_char [simp]: "byte (of_char c) = c"
  by (simp add: byte_def)

lemma six_bits:
  "x div 4 < 64" "x mod 4 * 16 + y div 16 < 64" "y mod 16 * 4 + z div 64 < 64"
  "x mod 4 * 16 < 64" "y mod 16 * 4 < 64"
  if "x < 256" "y < 256" "z < 256" for x y z :: nat
  using that by simp_all

lemma of_char_div [simp]: "of_char c div 16 < (16 :: nat)" "of_char c div 64 < (4 :: nat)"
  using of_char_256 [of c] by (simp_all add: less_mult_imp_div_less)

lemmas b64_bits = six_bits [OF of_char_256 of_char_256 of_char_256]

lemma b64_roundtrip: "b64decode (b64encode bs) = Some bs"
proof (induction bs rule: b64encode.induct)
  case 1
  then show ?case by simp
next
  case (2 a)
  have "of_char a div 4 * 4 + of_char a mod 4 * 16 div 16 = (of_char a :: nat)"
    by simp
  then show ?case by (simp add: Let_def b64_val_char b64_bits)
next
  case (3 a b)
  have "(of_char a mod 4 * 16 + of_char b div 16) mod 16 * 16 + of_char b mod 16 * 4 div 4
      = (of_char b :: nat)"
    by simp
  then show ?case by (simp add: Let_def b64_val_char b64_bits)
next
  case (4 a b c bs)
  then show ?case by (simp add: Let_def b64_val_char b64_bits)
qed

lemma b64_char_code:
  "of_char (b64_char n) \<in> {45, 95} \<union> {48..57} \<union> {65..90} \<union> {97..122 :: nat}"
  by (auto simp: b64_char_def)

lemma b64_char_facts [simp]:
  "b64_char n \<noteq> CHR ''=''" "(32 :: nat) < of_char (b64_char n)" "of_char (b64_char n) < (128 :: nat)"
proof -
  have "of_char (b64_char n) \<noteq> (61 :: nat)" "(32 :: nat) < of_char (b64_char n)"
    "of_char (b64_char n) < (128 :: nat)"
    using b64_char_code [of n] by auto
  then show "b64_char n \<noteq> CHR ''=''" "(32 :: nat) < of_char (b64_char n)"
    "of_char (b64_char n) < (128 :: nat)"
    by auto
qed

text \<open>An encoding is alphabet characters followed by the padding that its length asks for.\<close>

lemma b64encode_shape:
  "\<exists>ns k. b64encode bs = map b64_char ns @ replicate k (CHR ''='') \<and>
     k = nat (- int (length ns) mod 4) \<and> (bs \<noteq> [] \<longrightarrow> ns \<noteq> [])"
proof (induction bs rule: b64encode.induct)
  case 1
  then show ?case by simp
next
  case (2 a)
  have "b64encode [a] = map b64_char [of_char a div 4, of_char a mod 4 * 16] @ replicate 2 (CHR ''='')"
    by (simp add: Let_def numeral_2_eq_2)
  then show ?case by (intro exI conjI) (assumption, simp_all)
next
  case (3 a b)
  have "b64encode [a, b] = map b64_char [of_char a div 4, of_char a mod 4 * 16 + of_char b div 16,
      of_char b mod 16 * 4] @ replicate 1 (CHR ''='')"
    by (simp add: Let_def)
  then show ?case by (intro exI conjI) (assumption, simp_all)
next
  case (4 a b c bs)
  then obtain ns k where IH: "b64encode bs = map b64_char ns @ replicate k (CHR ''='')"
    "k = nat (- int (length ns) mod 4)" by blast
  let ?ms = "[of_char a div 4, of_char a mod 4 * 16 + of_char b div 16,
      of_char b mod 16 * 4 + of_char c div 64, of_char c mod 64] @ ns"
  have "b64encode (a # b # c # bs) = map b64_char ?ms @ replicate k (CHR ''='')"
    using IH(1) by (simp add: Let_def)
  moreover have "k = nat (- int (length ?ms) mod 4)"
  proof -
    have "int (length ?ms) = int (length ns) + 4" by simp
    then have "- int (length ?ms) mod 4 = - int (length ns) mod 4" by presburger
    then show ?thesis using IH(2) by simp
  qed
  ultimately show ?case by (intro exI conjI) (assumption, assumption, simp)
qed

lemma rstrip_pad_alphabet:
  "rstrip_pad (map b64_char ns @ replicate k (CHR ''='')) = map b64_char ns"
proof -
  have "dropWhile (\<lambda>c. c = CHR ''='') (replicate k (CHR ''='') @ rev (map b64_char ns))
      = rev (map b64_char ns)"
    by (induction k) (cases "rev ns"; simp add: rev_map)+
  then show ?thesis by (simp add: rstrip_pad_def rev_map)
qed

text \<open>Every 32-byte key survives the trip through its unpadded text, and a text
  that decodes at all decodes to 32 bytes and is, up to surrounding white space and padding,
  the one canonical encoding of them: no two different texts stand for the same key.\<close>

lemma payload_key_canonical:
  "(length raw = 32 \<longrightarrow>
      decode_interaction_payload_key (rstrip_pad (b64encode raw)) = Inr raw) \<and>
   (decode_interaction_payload_key t = Inr raw \<longrightarrow>
      length raw = 32 \<and> rstrip_pad (py_strip t) = rstrip_pad (b64encode raw))"
proof (rule conjI)
  show "length raw = 32 \<longrightarrow>
      decode_interaction_payload_key (rstrip_pad (b64encode raw)) = Inr raw"
  proof
    assume len: "length raw = 32"
    obtain ns k where e: "b64encode raw = map b64_char ns @ replicate k (CHR ''='')"
      and k: "k = nat (- int (length ns) mod 4)" and ne: "ns \<noteq> []"
      using b64encode_shape [of raw] len by auto
    have u: "rstrip_pad (b64encode raw) = map b64_char ns"
      by (simp add: e rstrip_pad_alphabet)
    have strip: "py_strip (map b64_char ns) = map b64_char ns"
      by (rule py_strip_noop) (simp_all add: ne hd_map last_map)
    have "map b64_char ns @ pad_for (map b64_char ns) = b64encode raw"
      by (simp add: e k pad_for_def)
    moreover have "is_ascii (map b64_char ns)" by (simp add: is_ascii_def list_all_iff)
    moreover have "rstrip_pad (map b64_char ns) = map b64_char ns"
      using rstrip_pad_alphabet [of ns 0] by simp
    ultimately show "decode_interaction_payload_key (rstrip_pad (b64encode raw)) = Inr raw"
      by (simp add: decode_interaction_payload_key_def u strip b64_roundtrip len)
  qed
  show "decode_interaction_payload_key t = Inr raw \<longrightarrow>
      length raw = 32 \<and> rstrip_pad (py_strip t) = rstrip_pad (b64encode raw)"
    by (auto simp: decode_interaction_payload_key_def Let_def split: if_splits option.splits)
qed

lemma payload_key_canonical_example:
  "decode_interaction_payload_key (rstrip_pad (b64encode (replicate 32 (CHR ''k'')))) =
     Inr (replicate 32 (CHR ''k''))"
  using payload_key_canonical [of "replicate 32 (CHR ''k'')"] by simp

end
