(* ===== verification/Mcp_Contracts.thy ===== *)
theory Mcp_Contracts
  imports Base64
begin

text \<open>
  The contracts of durable MCP interactions: the immutable request, fence, receipt and resume
  objects of \<open>src/common/mcp_interactions.py\<close>, the error codes and the lease of
  \<open>src/api/identity/mcp_interactions/contracts.py\<close>, and the fail-closed normalisation of
  payloads in \<open>src/api/identity/mcp_interactions/validation.py\<close>.

  A dataclass is a record and its \<open>__post_init__\<close> a function into a sum whose left side is
  the exception; run-time type checks that the record's types already enforce (\<open>type(x) is
  int\<close>) have no counterpart. The JSON Schema library and the hash are fields of
  \<open>platform\<close>.
\<close>

section \<open>common/mcp\_interactions.py\<close>

datatype InteractionEffect = READ | PREPARE | SIDE_EFFECT

datatype ContractError = FenceInvalid | RequestInvalid | ReceiptInvalid | ResumeInvalid | LeaseFenceInconsistent

definition is_alnum :: "char \<Rightarrow> bool" where
  "is_alnum c \<longleftrightarrow> (let n = (of_char c :: nat) in
     (48 \<le> n \<and> n \<le> 57) \<or> (65 \<le> n \<and> n \<le> 90) \<or> (97 \<le> n \<and> n \<le> 122))"

definition valid_opaque :: "string \<Rightarrow> bool" where
  \<comment> \<open>\<open>[A-Za-z0-9][A-Za-z0-9._:-]{0,254}\<close>\<close>
  "valid_opaque s \<longleftrightarrow> s \<noteq> [] \<and> is_alnum (hd s) \<and> length s \<le> 255 \<and>
     list_all (\<lambda>c. is_alnum c \<or> c \<in> {CHR ''.'', CHR ''_'', CHR '':'', CHR ''-''}) s"

definition valid_text :: "string \<Rightarrow> bool" where
  "valid_text s \<longleftrightarrow> \<not> blank s \<and> py_len s \<le> 2048"

definition replay_modes :: "string set" where
  "replay_modes = {''reusable'', ''single_use''}"

record InteractionLeaseFence =
  fence_job_id :: string
  fence_owner :: string
  fence_attempt :: int

definition make_lease_fence :: "string \<Rightarrow> string \<Rightarrow> int \<Rightarrow> ContractError + InteractionLeaseFence" where
  "make_lease_fence job_id owner attempt =
     (if \<not> valid_opaque job_id \<or> owner \<noteq> py_strip owner \<or> owner = [] \<or> py_len owner > 64
         \<or> attempt \<le> 0
      then Inl FenceInvalid
      else Inr \<lparr>fence_job_id = job_id, fence_owner = owner, fence_attempt = attempt\<rparr>)"

record InteractionRequest =
  rq_tenant_id :: string
  rq_platform_user_id :: string
  rq_external_identity_id :: "string option"
  rq_identity_revision :: "int option"
  rq_agent_id :: string
  rq_agent_revision_id :: string
  rq_mcp_server_id :: string
  rq_resource_name :: string
  rq_resource_uri :: string
  rq_tool_name :: string
  rq_original_arguments :: pydict
  rq_input_requests :: pydict
  rq_output_schema :: "pydict option"
  rq_request_state :: string
  rq_effect :: InteractionEffect
  rq_replay_mode :: string
  rq_policy_revision :: string
  rq_credential_generation :: int
  rq_expires_at :: "datetime option"
  rq_interaction_id :: "string option"
  rq_previous_revision :: "int option"
  rq_lease_fence :: "InteractionLeaseFence option"
  rq_call_digest :: string

definition canonical_call_digest ::
  "platform \<Rightarrow> string \<Rightarrow> string \<Rightarrow> string \<Rightarrow> string \<Rightarrow> pydict \<Rightarrow> string" where
  "canonical_call_digest P mcp_server_id resource_name resource_uri tool_name arguments =
     sha256 P (''multirag.mcp-interaction.call.v1'' @ [CHR 0x00] @ print_json (frepr P) (JDict
       [(''arguments'', JDict arguments), (''mcp_server_id'', JStr mcp_server_id),
        (''resource_name'', JStr resource_name), (''resource_uri'', JStr resource_uri),
        (''tool_name'', JStr tool_name)]))"

definition opt_all :: "('a \<Rightarrow> bool) \<Rightarrow> 'a option \<Rightarrow> bool" where
  "opt_all p x \<longleftrightarrow> (case x of None \<Rightarrow> True | Some y \<Rightarrow> p y)"

definition round_binding_valid :: "InteractionRequest \<Rightarrow> bool" where
  \<comment> \<open>a first round names no interaction; a later one names interaction, revision and fence\<close>
  "round_binding_valid r \<longleftrightarrow>
     (rq_interaction_id r = None \<and> rq_previous_revision r = None \<and> rq_lease_fence r = None)
     \<or> ((case rq_interaction_id r of None \<Rightarrow> False | Some i \<Rightarrow> valid_opaque i)
         \<and> (case rq_previous_revision r of None \<Rightarrow> False | Some n \<Rightarrow> 0 < n)
         \<and> rq_lease_fence r \<noteq> None)"

definition request_valid :: "InteractionRequest \<Rightarrow> bool" where
  "request_valid r \<longleftrightarrow>
     list_all valid_opaque
       [rq_tenant_id r, rq_platform_user_id r, rq_agent_id r, rq_agent_revision_id r,
        rq_mcp_server_id r, rq_resource_name r, rq_tool_name r, rq_policy_revision r]
     \<and> valid_text (rq_resource_uri r)
     \<and> rq_input_requests r \<noteq> []
     \<and> valid_text (rq_request_state r)
     \<and> rq_effect r \<noteq> SIDE_EFFECT
     \<and> rq_replay_mode r \<in> replay_modes
     \<and> 0 \<le> rq_credential_generation r
     \<and> (case rq_expires_at r of None \<Rightarrow> False | Some t \<Rightarrow> utcoffset t \<noteq> None)
     \<and> opt_all valid_opaque (rq_external_identity_id r)
     \<and> opt_all (\<lambda>n. 0 < n) (rq_identity_revision r)
     \<and> round_binding_valid r"

definition request_post_init :: "platform \<Rightarrow> InteractionRequest \<Rightarrow> ContractError + InteractionRequest" where
  "request_post_init P r =
     (if \<not> request_valid r \<or> \<not> finite_json (JDict (rq_original_arguments r))
         \<or> \<not> finite_json (JDict (rq_input_requests r))
         \<or> \<not> opt_all (\<lambda>d. finite_json (JDict d)) (rq_output_schema r)
      then Inl RequestInvalid
      else Inr (r\<lparr>rq_call_digest := canonical_call_digest P (rq_mcp_server_id r)
        (rq_resource_name r) (rq_resource_uri r) (rq_tool_name r) (rq_original_arguments r)\<rparr>))"

record InteractionReceipt =
  rc_interaction_id :: string
  rc_revision :: int

definition make_receipt :: "string \<Rightarrow> int \<Rightarrow> ContractError + InteractionReceipt" where
  "make_receipt i n =
     (if \<not> valid_opaque i \<or> n \<le> 0 then Inl ReceiptInvalid
      else Inr \<lparr>rc_interaction_id = i, rc_revision = n\<rparr>)"

record InteractionResume =
  rs_interaction_id :: string
  rs_revision :: int
  rs_request :: InteractionRequest
  rs_input_responses :: pydict
  rs_call_digest :: string

definition make_resume ::
  "string \<Rightarrow> int \<Rightarrow> InteractionRequest \<Rightarrow> pydict \<Rightarrow> ContractError + InteractionResume" where
  "make_resume i n r responses =
     (if \<not> valid_opaque i \<or> n \<le> 0 \<or> rq_interaction_id r \<noteq> Some i
         \<or> rq_previous_revision r \<noteq> Some n \<or> rq_lease_fence r = None \<or> responses = []
         \<or> \<not> finite_json (JDict responses)
      then Inl ResumeInvalid
      else Inr \<lparr>rs_interaction_id = i, rs_revision = n, rs_request = r,
                rs_input_responses = responses, rs_call_digest = rq_call_digest r\<rparr>)"

section \<open>contracts.py\<close>

datatype InteractionErrorCode =
  NOT_FOUND | ACTOR_MISMATCH | REVISION_CONFLICT | STATE_CONFLICT | EXPIRED | RESPONSE_INVALID
  | PAYLOAD_INVALID | SIDE_EFFECT_BLOCKED | REAUTHORIZATION_DENIED | REMOTE_RESULT_UNKNOWN
  | ROUND_LIMIT
  | TypeErrorRaised \<comment> \<open>no code: an unhashable value is looked up in a set\<close>

datatype ResponseClaimStatus = CLAIM_ACCEPTED | CLAIM_DUPLICATE

record ResponseClaim =
  cl_interaction_id :: string
  cl_revision :: int
  cl_status :: ResponseClaimStatus

record InteractionLease =
  ls_job_id :: string
  ls_owner :: string
  ls_attempt :: int
  ls_resume :: InteractionResume

definition make_lease ::
  "string \<Rightarrow> string \<Rightarrow> int \<Rightarrow> InteractionResume \<Rightarrow> ContractError + InteractionLease" where
  "make_lease job_id owner attempt resume =
     bindE (make_lease_fence job_id owner attempt) (\<lambda>f.
       if rq_lease_fence (rs_request resume) \<noteq> Some f then Inl LeaseFenceInconsistent
       else Inr \<lparr>ls_job_id = job_id, ls_owner = owner, ls_attempt = attempt, ls_resume = resume\<rparr>)"

record InteractionProjection =
  ip_interaction_id :: string
  ip_revision :: int
  ip_state :: string
  ip_input_requests :: pydict
  ip_expires_at :: int

section \<open>validation.py\<close>

definition FORBIDDEN_FIELD_PARTS :: "string list" where
  "FORBIDDEN_FIELD_PARTS =
     [''api_key'', ''apikey'', ''card_number'', ''credit_card'', ''cvv'', ''oauth'',
      ''password'', ''payment'', ''secret'', ''token'']"

definition ACTIONS :: "string set" where
  "ACTIONS = {''accept'', ''decline'', ''cancel''}"

definition payload_size :: "platform \<Rightarrow> json \<Rightarrow> InteractionErrorCode + nat" where
  "payload_size P v =
     (case dumps (frepr P) v of None \<Rightarrow> Inl PAYLOAD_INVALID | Some t \<Rightarrow> Inr (length t))"

definition forbidden_name :: "platform \<Rightarrow> string \<Rightarrow> bool" where
  "forbidden_name P name \<longleftrightarrow>
     list_ex (\<lambda>part. occurs_in part (casefold P name)) FORBIDDEN_FIELD_PARTS"

definition password_format :: "platform \<Rightarrow> pydict \<Rightarrow> bool" where
  \<comment> \<open>the text of a value that is no string (a list, a number, \<open>None\<close>) is never \<open>password\<close>\<close>
  "password_format P node \<longleftrightarrow>
     (case dget node ''format'' of JStr f \<Rightarrow> casefold P f = ''password'' | _ \<Rightarrow> False)"

definition schema_children :: "string \<Rightarrow> pydict \<Rightarrow> (string \<times> json) list" where
  \<comment> \<open>what a checked node pushes: its properties, then its \<open>items\<close> under the same name\<close>
  "schema_children name node =
     (case dget node ''properties'' of JDict ps \<Rightarrow> ps | _ \<Rightarrow> []) @
     (case dget node ''items'' of JNull \<Rightarrow> [] | v \<Rightarrow> [(name, v)])"

definition node_rejected :: "platform \<Rightarrow> string \<Rightarrow> json \<Rightarrow> bool" where
  "node_rejected P name node \<longleftrightarrow> forbidden_name P name \<or>
     (case node of
        JDict d \<Rightarrow> password_format P d
          \<or> (truthy (dget d ''properties'') \<and> \<not> is_dict (dget d ''properties''))
      | _ \<Rightarrow> False)"

definition pending_nodes :: "(string \<times> json) list \<Rightarrow> nat" where
  "pending_nodes ps = sum_list (map (json_nodes \<circ> snd) ps)"

lemma json_nodes_value:
  "map_of d k = Some v \<Longrightarrow> json_nodes v \<le> sum_list (map (json_nodes \<circ> snd) d)"
  by (induction d) (auto split: if_splits)

lemma json_nodes_two_values:
  "map_of d k = Some v \<Longrightarrow> map_of d k' = Some v' \<Longrightarrow> k \<noteq> k' \<Longrightarrow>
     json_nodes v + json_nodes v' \<le> sum_list (map (json_nodes \<circ> snd) d)"
  by (induction d) (auto split: if_splits dest: json_nodes_value)

lemma pending_nodes_append [simp]: "pending_nodes (ps @ qs) = pending_nodes ps + pending_nodes qs"
  by (simp add: pending_nodes_def)

lemma pending_nodes_rev [simp]: "pending_nodes (rev ps) = pending_nodes ps"
  by (induction ps) (simp_all add: pending_nodes_def)

lemma pending_nodes_Cons [simp]: "pending_nodes (p # ps) = json_nodes (snd p) + pending_nodes ps"
  by (simp add: pending_nodes_def)

lemma sum_nodes_rev [simp]: "sum_list (map f (rev xs)) = sum_list (map (f :: 'a \<Rightarrow> nat) xs)"
  by (induction xs) simp_all

lemma schema_children_smaller: "pending_nodes (schema_children name d) < json_nodes (JDict d)"
proof -
  have d: "json_nodes (JDict d) = Suc (sum_list (map (json_nodes \<circ> snd) d))"
    by (simp add: comp_def)
  have p: "pending_nodes ps < json_nodes (JDict ps)" for ps
    by (simp add: pending_nodes_def comp_def)
  let ?P = "case dget d ''properties'' of JDict ps \<Rightarrow> ps | _ \<Rightarrow> []"
  let ?I = "case dget d ''items'' of JNull \<Rightarrow> [] | v \<Rightarrow> [(name, v)]"
  have P: "?P = [] \<or> (\<exists>ps. map_of d ''properties'' = Some (JDict ps) \<and> ?P = ps)"
    by (auto simp: dget_def split: option.splits json.splits)
  have I: "?I = [] \<or> (\<exists>v. map_of d ''items'' = Some v \<and> ?I = [(name, v)])"
    by (auto simp: dget_def split: option.splits json.splits)
  have "pending_nodes ?P + pending_nodes ?I < json_nodes (JDict d)"
    using P I json_nodes_two_values [of d "''properties''" _ "''items''"] json_nodes_value [of d] p d
    by (elim disjE exE conjE) (fastforce simp: pending_nodes_def)+
  then show ?thesis by (simp add: schema_children_def)
qed

function safe_schema_loop :: "platform \<Rightarrow> (string \<times> json) list \<Rightarrow> bool" where
  \<comment> \<open>the \<open>while pending\<close> loop; the head of the list is the top of the stack\<close>
  "safe_schema_loop P [] = True"
| "safe_schema_loop P ((name, node) # pending) =
     (if node_rejected P name node then False
      else case node of
             JDict d \<Rightarrow> safe_schema_loop P (rev (schema_children name d) @ pending)
           | _ \<Rightarrow> safe_schema_loop P pending)"
  by pat_completeness auto
termination
  by (relation "measure (\<lambda>(P, ps). pending_nodes ps)")
    (use schema_children_smaller in auto)

definition assert_safe_schema :: "platform \<Rightarrow> json \<Rightarrow> InteractionErrorCode + json" where
  "assert_safe_schema P schema =
     (case schema of
        JDict d \<Rightarrow>
          if dget d ''type'' \<noteq> JStr ''object'' then Inl PAYLOAD_INVALID
          else if \<not> check_schema P schema then Inl PAYLOAD_INVALID
          else if safe_schema_loop P [('''', schema)] then Inr schema
          else Inl PAYLOAD_INVALID
      | _ \<Rightarrow> Inl PAYLOAD_INVALID)"

definition check_input_request :: "platform \<Rightarrow> string \<times> json \<Rightarrow> InteractionErrorCode + unit" where
  "check_input_request P r =
     (case r of (request_id, raw) \<Rightarrow>
       if blank request_id then Inl PAYLOAD_INVALID
       else case raw of
         JDict d \<Rightarrow>
           (case dget d ''params'' of
              JDict params \<Rightarrow>
                if dget d ''method'' \<noteq> JStr ''elicitation/create'' then Inl PAYLOAD_INVALID
                else if dget_or params ''mode'' (JStr ''form'') \<noteq> JStr ''form''
                then Inl PAYLOAD_INVALID
                else bindE (assert_safe_schema P (dget params ''requestedSchema'')) (\<lambda>_. Inr ())
            | _ \<Rightarrow> Inl PAYLOAD_INVALID)
       | _ \<Rightarrow> Inl PAYLOAD_INVALID)"

definition bounded :: "platform \<Rightarrow> int \<Rightarrow> json \<Rightarrow> InteractionErrorCode \<Rightarrow> InteractionErrorCode + unit" where
  "bounded P max_payload_bytes v code =
     bindE (payload_size P v) (\<lambda>n. guardE (int n \<le> max_payload_bytes) code)"

definition normalize_input_requests ::
  "platform \<Rightarrow> int \<Rightarrow> pydict \<Rightarrow> InteractionErrorCode + pydict" where
  "normalize_input_requests P max_payload_bytes input_requests =
     (if input_requests = [] then Inl PAYLOAD_INVALID
      else bindE (bounded P max_payload_bytes (JDict input_requests) PAYLOAD_INVALID) (\<lambda>_.
           bindE (mapE (check_input_request P) input_requests) (\<lambda>_. Inr input_requests)))"

definition interaction_schema_digest :: "platform \<Rightarrow> pydict \<Rightarrow> string" where
  "interaction_schema_digest P input_requests =
     sha256 P (''multirag.mcp-interaction.schema.v1'' @ [CHR 0x00] @
       print_json (frepr P) (JDict input_requests))"

definition bad_reference :: "pydict \<Rightarrow> bool" where
  "bad_reference node \<longleftrightarrow>
     (case dget node ''$ref'' of
        JNull \<Rightarrow> False | JStr s \<Rightarrow> \<not> prefix ''#'' s | _ \<Rightarrow> True)"

function local_refs_loop :: "json list \<Rightarrow> bool" where
  "local_refs_loop [] = True"
| "local_refs_loop (node # pending) =
     (case node of
        JDict d \<Rightarrow> if bad_reference d then False
                    else local_refs_loop (rev (map snd d) @ pending)
      | JList xs \<Rightarrow> local_refs_loop (rev xs @ pending)
      | _ \<Rightarrow> local_refs_loop pending)"
  by pat_completeness auto
termination
  by (relation "measure (\<lambda>ps. sum_list (map json_nodes ps))") (auto simp: comp_def simp flip: rev_map)

definition normalize_output_schema ::
  "platform \<Rightarrow> int \<Rightarrow> pydict option \<Rightarrow> InteractionErrorCode + pydict option" where
  "normalize_output_schema P max_payload_bytes output_schema =
     (case output_schema of
        None \<Rightarrow> Inr None
      | Some d \<Rightarrow>
          if d = [] then Inl PAYLOAD_INVALID
          else bindE (bounded P max_payload_bytes (JDict d) PAYLOAD_INVALID) (\<lambda>_.
               bindE (guardE (check_schema P (JDict d)) PAYLOAD_INVALID) (\<lambda>_.
               bindE (guardE (local_refs_loop [JDict d]) PAYLOAD_INVALID) (\<lambda>_.
               Inr (Some d)))))"

definition output_schema_digest :: "platform \<Rightarrow> pydict option \<Rightarrow> string option" where
  "output_schema_digest P output_schema =
     map_option (\<lambda>d. sha256 P (''multirag.mcp-interaction.output-schema.v1'' @ [CHR 0x00] @
       print_json (frepr P) (JDict d))) output_schema"

definition normalize_interaction_result ::
  "platform \<Rightarrow> int \<Rightarrow> pydict option \<Rightarrow> json \<Rightarrow> InteractionErrorCode + json" where
  "normalize_interaction_result P max_payload_bytes output_schema result =
     bindE (bounded P max_payload_bytes result PAYLOAD_INVALID) (\<lambda>_.
     bindE (normalize_output_schema P max_payload_bytes output_schema) (\<lambda>schema.
     case schema of
       None \<Rightarrow> Inr result
     | Some d \<Rightarrow> if validates P (JDict d) result then Inr result else Inl PAYLOAD_INVALID))"

definition requested_schema :: "json \<Rightarrow> json" where
  \<comment> \<open>\<open>request["params"]["requestedSchema"]\<close>, \<open>None\<close> where a level is missing\<close>
  "requested_schema request =
     (case request of
        JDict d \<Rightarrow> (case dget d ''params'' of JDict p \<Rightarrow> dget p ''requestedSchema'' | _ \<Rightarrow> JNull)
      | _ \<Rightarrow> JNull)"

definition check_input_response ::
  "platform \<Rightarrow> pydict \<Rightarrow> string \<times> json \<Rightarrow> InteractionErrorCode + unit" where
  "check_input_response P input_requests r =
     (case r of (request_id, raw) \<Rightarrow>
       (case raw of
          JDict d \<Rightarrow>
            if \<not> fst ` set d \<subseteq> {''action'', ''content''} then Inl RESPONSE_INVALID
            else (case dget d ''action'' of
              JStr action \<Rightarrow>
                if action \<notin> ACTIONS then Inl RESPONSE_INVALID
                else if action = ''accept'' then
                  bindE (assert_safe_schema P (requested_schema (dget input_requests request_id)))
                    (\<lambda>schema. guardE (validates P schema (dget d ''content'')) RESPONSE_INVALID)
                else if has_key d ''content'' then Inl RESPONSE_INVALID
                else Inr ()
            | JList _ \<Rightarrow> Inl TypeErrorRaised
            | JDict _ \<Rightarrow> Inl TypeErrorRaised
            | _ \<Rightarrow> Inl RESPONSE_INVALID)
        | _ \<Rightarrow> Inl RESPONSE_INVALID))"

definition normalize_input_responses ::
  "platform \<Rightarrow> int \<Rightarrow> pydict \<Rightarrow> pydict \<Rightarrow> InteractionErrorCode + pydict" where
  "normalize_input_responses P max_payload_bytes input_requests input_responses =
     (if fst ` set input_responses \<noteq> fst ` set input_requests then Inl RESPONSE_INVALID
      else bindE (bounded P max_payload_bytes (JDict input_responses) RESPONSE_INVALID) (\<lambda>_.
           bindE (mapE (check_input_response P input_requests) input_responses) (\<lambda>_.
           Inr input_responses)))"

declare safe_schema_loop.simps(2) [simp del] local_refs_loop.simps(2) [simp del]

section \<open>What the traversals check\<close>

text \<open>The fields of a form schema, after the meaning of its keywords: the schema itself under the empty name, what
  \<open>properties\<close> declares for a field, each under its own name, and the \<open>items\<close> of a field under that field's name.\<close>

inductive schema_field :: "string \<times> json \<Rightarrow> string \<Rightarrow> json \<Rightarrow> bool" for start where
  here: "schema_field start (fst start) (snd start)"
| property: "schema_field start n (JDict d) \<Longrightarrow> map_of d ''properties'' = Some (JDict ps) \<Longrightarrow> (n', v) \<in> set ps \<Longrightarrow>
    schema_field start n' v"
| element: "schema_field start n (JDict d) \<Longrightarrow> map_of d ''items'' = Some v \<Longrightarrow> v \<noteq> JNull \<Longrightarrow> schema_field start n v"

lemma schema_children_iff:
  "(n', v) \<in> set (schema_children n d) \<longleftrightarrow>
     (\<exists>ps. map_of d ''properties'' = Some (JDict ps) \<and> (n', v) \<in> set ps) \<or> n' = n \<and> map_of d ''items'' = Some v \<and> v \<noteq> JNull"
  by (auto simp: schema_children_def dget_def split: option.splits json.splits)

lemma schema_field_child:
  "schema_field start n (JDict d) \<Longrightarrow> (n', v) \<in> set (schema_children n d) \<Longrightarrow> schema_field start n' v"
  by (auto simp: schema_children_iff intro: schema_field.intros)

lemma schema_field_induct [consumes 1, case_names here child]:
  assumes "schema_field start n v" "Q (fst start) (snd start)"
    and "\<And>n d n' v. schema_field start n (JDict d) \<Longrightarrow> Q n (JDict d) \<Longrightarrow> (n', v) \<in> set (schema_children n d) \<Longrightarrow> Q n' v"
  shows "Q n v"
  using assms(1) by (induction rule: schema_field.induct) (auto intro: assms(2,3) simp: schema_children_iff)

lemma schema_field_via_child:
  "schema_field c n v \<Longrightarrow> c \<in> set (schema_children m d) \<Longrightarrow> schema_field (m, JDict d) n v"
proof (induction rule: schema_field_induct)
  case here
  then show ?case
    using schema_field_child [OF schema_field.here [of "(m, JDict d)", simplified]]
    by (metis prod.collapse)
next
  case (child n d' n' v)
  then show ?case by (auto intro: schema_field_child)
qed

lemma schema_field_unfold:
  "schema_field (m, w) n v \<longleftrightarrow>
     (n = m \<and> v = w) \<or>
     (\<exists>d. w = JDict d \<and> (\<exists>c \<in> set (schema_children m d). schema_field c n v))"
    (is "?L \<longleftrightarrow> ?R")
proof
  show "?L \<Longrightarrow> ?R"
  proof (induction rule: schema_field_induct)
    case here
    then show ?case by simp
  next
    case (child n d n' v)
    from child.IH show ?case
    proof
      assume "n = m \<and> JDict d = w"
      moreover have "schema_field (n', v) n' v"
        using schema_field.here [of "(n', v)"] by simp
      ultimately show ?thesis using child.hyps(2) by auto
    next
      assume "\<exists>d'. w = JDict d' \<and> (\<exists>c \<in> set (schema_children m d'). schema_field c n (JDict d))"
      with child.hyps(2) show ?thesis by (blast intro: schema_field_child)
    qed
  qed
  show "?R \<Longrightarrow> ?L"
    using schema_field.here [of "(m, w)"] by (auto intro: schema_field_via_child)
qed

lemma safe_schema_loop_iff:
  "safe_schema_loop P ps \<longleftrightarrow>
     (\<forall>p \<in> set ps. \<forall>n v. schema_field p n v \<longrightarrow> \<not> node_rejected P n v)"
proof (induction P ps rule: safe_schema_loop.induct)
  case (1 P)
  then show ?case by simp
next
  case (2 P name node pending)
  show ?case
  proof (cases "node_rejected P name node")
    case True
    then show ?thesis
      using schema_field.here [of "(name, node)"] by (auto simp: safe_schema_loop.simps(2))
  next
    case False
    then show ?thesis
    proof (cases node)
      case (JDict d)
      with False 2(7) show ?thesis
        by (auto simp: safe_schema_loop.simps(2) schema_field_unfold [of name])
    qed (use 2 False in \<open>auto simp: safe_schema_loop.simps(2) schema_field_unfold [of name]\<close>)
  qed
qed

inductive subvalue :: "json \<Rightarrow> json \<Rightarrow> bool" for root where
  sub_root: "subvalue root root"
| sub_item: "subvalue root (JList xs) \<Longrightarrow> x \<in> set xs \<Longrightarrow> subvalue root x"
| sub_value: "subvalue root (JDict d) \<Longrightarrow> (k, x) \<in> set d \<Longrightarrow> subvalue root x"

definition children :: "json \<Rightarrow> json list" where
  "children v = (case v of JList xs \<Rightarrow> xs | JDict d \<Rightarrow> map snd d | _ \<Rightarrow> [])"

lemma subvalue_child: "subvalue c x \<Longrightarrow> c \<in> set (children v) \<Longrightarrow> subvalue v x"
  by (induction rule: subvalue.induct)
    (auto simp: children_def split: json.splits intro: subvalue.intros)

lemma subvalue_unfold:
  "subvalue v x \<longleftrightarrow> x = v \<or> (\<exists>c \<in> set (children v). subvalue c x)" (is "?L \<longleftrightarrow> ?R")
proof
  show "?L \<Longrightarrow> ?R"
  proof (induction rule: subvalue.induct)
    case (sub_item xs x)
    then show ?case by (auto simp: children_def intro: subvalue.intros)
  next
    case (sub_value d k x)
    then show ?case by (force simp: children_def intro: subvalue.intros)
  qed simp
  show "?R \<Longrightarrow> ?L" by (auto intro: subvalue_child subvalue.intros)
qed

lemma subvalue_leaf: "children v = [] \<Longrightarrow> subvalue v x \<longleftrightarrow> x = v"
  by (simp add: subvalue_unfold [of v])

lemma local_refs_loop_iff:
  "local_refs_loop ps \<longleftrightarrow> (\<forall>p \<in> set ps. \<forall>d. subvalue p (JDict d) \<longrightarrow> \<not> bad_reference d)"
proof (induction ps rule: local_refs_loop.induct)
  case 1
  then show ?case by simp
next
  case (2 node pending)
  show ?case
  proof (cases node)
    case (JDict d)
    then show ?thesis using 2(7) [OF JDict]
      by (auto simp: local_refs_loop.simps(2) subvalue_unfold [of "JDict d"] children_def)
  next
    case (JList xs)
    then show ?thesis using 2(6) [OF JList]
      by (auto simp: local_refs_loop.simps(2) subvalue_unfold [of "JList xs"] children_def)
  qed (use 2 in \<open>auto simp: local_refs_loop.simps(2) subvalue_leaf children_def\<close>)
qed

section \<open>Properties\<close>

lemma assert_safe_schema_Inr:
  "assert_safe_schema P schema = Inr v \<longleftrightarrow>
     v = schema \<and> (\<exists>d. schema = JDict d \<and> dget d ''type'' = JStr ''object'') \<and>
     check_schema P schema \<and> safe_schema_loop P [([], schema)]"
  by (auto simp: assert_safe_schema_def split: json.splits if_splits)

lemma mapE_unit_Inr: "mapE f xs = Inr (us :: unit list) \<Longrightarrow> x \<in> set xs \<Longrightarrow> f x = Inr ()"
  by (induction xs arbitrary: us) (auto split: sum.splits)

lemma bounded_Inr:
  "bounded P m v c = Inr u \<longleftrightarrow> finite_json v \<and> int (length (print_json (frepr P) v)) \<le> m"
  by (auto simp: bounded_def payload_size_def dumps_def)

text \<open>Property C10. A form schema is accepted exactly when it describes an object, the schema library accepts it, and no field
  that is declared through \<open>properties\<close> and \<open>items\<close>, at any depth, has a name with a credential or payment word in it, a
  password format, or properties that are not an object. (Fields under other keywords, such as \<open>anyOf\<close> and \<open>$defs\<close>, are
  not among them: the check does not look there.)\<close>

theorem safe_schema_exact:
  "(\<exists>v. assert_safe_schema P schema = Inr v) \<longleftrightarrow>
     (\<exists>d. schema = JDict d \<and> dget d ''type'' = JStr ''object'') \<and> check_schema P schema \<and>
     (\<forall>n v. schema_field ([], schema) n v \<longrightarrow>
        \<not> (\<exists>word \<in> {''api_key'', ''apikey'', ''card_number'', ''credit_card'', ''cvv'', ''oauth'', ''password'', ''payment'', ''secret'',
              ''token''}. occurs_in word (casefold P n)) \<and>
        (\<forall>d. v = JDict d \<longrightarrow> (\<forall>f. dget d ''format'' = JStr f \<longrightarrow> casefold P f \<noteq> ''password'') \<and>
          (truthy (dget d ''properties'') \<longrightarrow> is_dict (dget d ''properties''))))"
proof -
  have "\<not> node_rejected P n v \<longleftrightarrow>
        \<not> (\<exists>word \<in> {''api_key'', ''apikey'', ''card_number'', ''credit_card'', ''cvv'', ''oauth'', ''password'', ''payment'', ''secret'',
              ''token''}. occurs_in word (casefold P n)) \<and>
        (\<forall>d. v = JDict d \<longrightarrow> (\<forall>f. dget d ''format'' = JStr f \<longrightarrow> casefold P f \<noteq> ''password'') \<and>
          (truthy (dget d ''properties'') \<longrightarrow> is_dict (dget d ''properties'')))" for n v
    by (cases v) (auto simp: node_rejected_def forbidden_name_def FORBIDDEN_FIELD_PARTS_def password_format_def split: json.splits)
  then show ?thesis by (simp add: assert_safe_schema_Inr safe_schema_loop_iff)
qed

definition demo_form :: json where
  "demo_form = JDict [(''type'', JStr ''object''),
     (''properties'', JDict [(''days'', JDict [(''type'', JStr ''integer'')])])]"

lemmas demo_schema_defs = assert_safe_schema_def safe_schema_loop.simps(2) node_rejected_def schema_children_def dget_def
  forbidden_name_def FORBIDDEN_FIELD_PARTS_def password_format_def demo_platform_def ascii_lower_def

theorem safe_schema_exact_witness:
  "(\<exists>v. assert_safe_schema demo_platform demo_form = Inr v) \<and> \<not> occurs_in ''token'' (casefold demo_platform ''days'')"
proof -
  have "assert_safe_schema demo_platform demo_form = Inr demo_form"
    by (simp add: demo_schema_defs demo_form_def prefix_Cons)
  then have acc: "\<exists>v. assert_safe_schema demo_platform demo_form = Inr v" ..
  have root: "schema_field ([], demo_form) [] demo_form"
    using schema_field.here [of "([], demo_form)"] by simp
  have "schema_field ([], demo_form) ''days'' (JDict [(''type'', JStr ''integer'')])"
    using root schema_field.property [of "([], demo_form)" "[]"] by (simp add: demo_form_def)
  with safe_schema_exact [of demo_platform demo_form, THEN iffD1, OF acc] have
    "\<not> occurs_in ''token'' (casefold demo_platform ''days'')" by (metis insertCI)
  with acc show ?thesis by blast
qed

text \<open>A password field that is declared under \<open>anyOf\<close> is accepted.\<close>

lemma any_of_unchecked:
  "\<exists>v. assert_safe_schema demo_platform (JDict [(''type'', JStr ''object''), (''anyOf'', JList [JDict [(''properties'',
     JDict [(''password'', JDict [(''type'', JStr ''string''), (''format'', JStr ''password'')])])]])]) = Inr v"
  by (simp add: demo_schema_defs prefix_Cons)

text \<open>An accepted output schema is bounded in its canonical size, and no
  \<open>$ref\<close> at any depth of it points outside the document.\<close>

lemma output_schema_local:
  assumes "normalize_output_schema P m (Some d) = Inr out"
  shows "out = Some d \<and> int (length (print_json (frepr P) (JDict d))) \<le> m \<and>
    (\<forall>e v. subvalue (JDict d) (JDict e) \<longrightarrow> map_of e ''$ref'' = Some v \<longrightarrow>
       v = JNull \<or> (\<exists>s. v = JStr s \<and> prefix ''#'' s))"
proof -
  from assms have "out = Some d \<and> int (length (print_json (frepr P) (JDict d))) \<le> m"
    and refs: "local_refs_loop [JDict d]"
    by (auto simp: normalize_output_schema_def result_simps bounded_Inr split: if_splits)
  moreover have "v = JNull \<or> (\<exists>s. v = JStr s \<and> prefix ''#'' s)"
    if "subvalue (JDict d) (JDict e)" "map_of e ''$ref'' = Some v" for e v
  proof -
    from refs that(1) have "\<not> bad_reference e" by (simp add: local_refs_loop_iff)
    with that(2) show ?thesis by (cases v) (simp_all add: bad_reference_def dget_def)
  qed
  ultimately show ?thesis by blast
qed

definition demo_output :: pydict where
  "demo_output = [(''a'', JDict [(''$ref'', JStr ''#/defs/x'')])]"

lemma output_schema_local_example:
  "normalize_output_schema demo_platform 100 (Some demo_output) = Inr (Some demo_output) \<and>
   prefix ''#'' ''#/defs/x''"
proof -
  have h: "normalize_output_schema demo_platform 100 (Some demo_output) = Inr (Some demo_output)"
    by (simp add: normalize_output_schema_def demo_output_def bounded_def payload_size_def dumps_def
        demo_platform_def local_refs_loop.simps(2) bad_reference_def dget_def quote_str_def
        escape_char_def Let_def)
  have "subvalue (JDict demo_output) (JDict [(''$ref'', JStr ''#/defs/x'')])"
    by (rule subvalue.sub_value [OF subvalue.sub_root]) (auto simp: demo_output_def)
  with output_schema_local [OF h] h show ?thesis by fastforce
qed

text \<open>Accepted form responses answer exactly the requests of the round; every
  action is accept, decline or cancel; an accepted form's content satisfies the schema its own
  request asked for; declining or cancelling carries no content.\<close>

lemma input_responses_checked:
  assumes "normalize_input_responses P m reqs resps = Inr out"
  shows "out = resps \<and> fst ` set resps = fst ` set reqs \<and>
    int (length (print_json (frepr P) (JDict resps))) \<le> m \<and>
    (\<forall>i raw. (i, raw) \<in> set resps \<longrightarrow>
      (\<exists>d action. raw = JDict d \<and> dget d ''action'' = JStr action \<and> action \<in> ACTIONS \<and>
        (action = ''accept'' \<longrightarrow>
           (\<exists>schema. assert_safe_schema P (requested_schema (dget reqs i)) = Inr schema \<and>
             validates P schema (dget d ''content''))) \<and>
        (action \<noteq> ''accept'' \<longrightarrow> \<not> has_key d ''content'')))"
proof -
  from assms obtain us where out: "out = resps" and keys: "fst ` set resps = fst ` set reqs"
    and size: "int (length (print_json (frepr P) (JDict resps))) \<le> m"
    and us: "mapE (check_input_response P reqs) resps = Inr us"
    by (auto simp: normalize_input_responses_def result_simps bounded_Inr split: if_splits)
  have "\<exists>d action. raw = JDict d \<and> dget d ''action'' = JStr action \<and> action \<in> ACTIONS \<and>
        (action = ''accept'' \<longrightarrow>
           (\<exists>schema. assert_safe_schema P (requested_schema (dget reqs i)) = Inr schema \<and>
             validates P schema (dget d ''content''))) \<and>
        (action \<noteq> ''accept'' \<longrightarrow> \<not> has_key d ''content'')"
    if "(i, raw) \<in> set resps" for i raw
    using mapE_unit_Inr [OF us that]
    by (auto simp: check_input_response_def result_simps split: json.splits if_splits)
  with out keys size show ?thesis by blast
qed

definition demo_requests :: pydict where
  "demo_requests = [(''q1'', JDict [(''method'', JStr ''elicitation/create''),
     (''params'', JDict [(''requestedSchema'', demo_form)])])]"

lemma input_responses_checked_example:
  "normalize_input_responses demo_platform 100 demo_requests
     [(''q1'', JDict [(''action'', JStr ''decline'')])] =
     Inr [(''q1'', JDict [(''action'', JStr ''decline'')])] \<and>
   \<not> has_key [(''action'', JStr ''decline'')] ''content''"
proof -
  have h: "normalize_input_responses demo_platform 100 demo_requests
     [(''q1'', JDict [(''action'', JStr ''decline'')])] =
     Inr [(''q1'', JDict [(''action'', JStr ''decline'')])]"
    by (simp add: normalize_input_responses_def demo_requests_def bounded_def payload_size_def
        dumps_def quote_str_def escape_char_def Let_def check_input_response_def dget_def
        ACTIONS_def has_key_def)
  show ?thesis using input_responses_checked [OF h] h by (simp add: dget_def ACTIONS_def)
qed

end
