(* ===== verification/Mcp_Crypto.thy ===== *)
theory Mcp_Crypto
  imports Mcp_Contracts
begin

text \<open>
  Authenticated encryption of persisted MCP interaction payloads
  (\<open>src/api/identity/mcp_interactions/crypto.py\<close>): a key ring, a ciphertext text
  \<open>v1.<base64>\<close> and associated data that names tenant, interaction, revision and purpose.
  AES-GCM and the JSON parser are fields of \<open>platform\<close>; the random nonce is an argument.
\<close>

definition PURPOSES :: "string set" where
  "PURPOSES = {''input_requests'', ''input_response'', ''channel_callback'', ''form_mapping'',
     ''original_arguments'', ''output_schema'', ''principal_evidence'', ''request_state'',
     ''result''}"

definition NONCE_BYTES :: nat where
  "NONCE_BYTES = 12"

definition VERSION :: string where
  "VERSION = ''v1''"

definition AAD_DOMAIN :: string where
  "AAD_DOMAIN = ''multirag.mcp-interaction.payload:v1''"

datatype CipherError =
  KeyRingInvalid | KeysNotUnique | KeyInvalid | PayloadUnserialisable | KeyUnavailable | BoundaryInvalid
  | DecryptFailed

record EncryptedPayload =
  ep_ciphertext :: string
  ep_key_id :: string

record PayloadCipher =
  ring_keys :: "(string \<times> string) list" \<comment> \<open>key id, key\<close>
  ring_active :: string

definition key_id_of :: "platform \<Rightarrow> string \<Rightarrow> string" where
  "key_id_of P key = take 16 (sha256 P key)"

definition add_key ::
  "platform \<Rightarrow> (string \<times> string) list \<Rightarrow> string \<Rightarrow> CipherError + (string \<times> string) list" where
  "add_key P keyed key =
     (if has_key keyed (key_id_of P key) then Inl KeysNotUnique
      else Inr (keyed @ [(key_id_of P key, key)]))"

definition make_cipher :: "platform \<Rightarrow> string list \<Rightarrow> CipherError + PayloadCipher" where
  "make_cipher P keys =
     (if keys = [] \<or> list_ex (\<lambda>k. length k \<noteq> 32) keys then Inl KeyRingInvalid
      else bindE (foldE (add_key P) [] keys) (\<lambda>keyed.
        Inr \<lparr>ring_keys = keyed, ring_active = fst (hd keyed)\<rparr>))"

definition from_base64_keyring :: "platform \<Rightarrow> string list \<Rightarrow> CipherError + PayloadCipher" where
  "from_base64_keyring P encoded =
     (case mapE decode_interaction_payload_key encoded of
        Inl _ \<Rightarrow> Inl KeyInvalid | Inr keys \<Rightarrow> make_cipher P keys)"

definition aad :: "string \<Rightarrow> string \<Rightarrow> int \<Rightarrow> string \<Rightarrow> CipherError + string" where
  "aad tenant_id interaction_id revision purpose =
     (if blank tenant_id \<or> blank interaction_id \<or> revision \<le> 0 \<or> purpose \<notin> PURPOSES
      then Inl BoundaryInvalid
      else Inr (join [CHR 0x00]
        [AAD_DOMAIN, tenant_id, interaction_id, int_str revision, purpose]))"

definition encrypt ::
  "platform \<Rightarrow> PayloadCipher \<Rightarrow> string \<Rightarrow> string \<Rightarrow> string \<Rightarrow> int \<Rightarrow> string \<Rightarrow> json
     \<Rightarrow> CipherError + EncryptedPayload" where
  "encrypt P c nonce tenant_id interaction_id revision purpose v =
     bindE (aad tenant_id interaction_id revision purpose) (\<lambda>a.
     case dumps (frepr P) v of
       None \<Rightarrow> Inl PayloadUnserialisable
     | Some plaintext \<Rightarrow>
         (case map_of (ring_keys c) (ring_active c) of
            None \<Rightarrow> Inl KeyUnavailable
          | Some key \<Rightarrow>
              Inr \<lparr>ep_ciphertext = VERSION @ ''.'' @
                     rstrip_pad (b64encode (nonce @ aead_encrypt P key nonce plaintext a)),
                   ep_key_id = ring_active c\<rparr>))"

fun split_dot :: "string \<Rightarrow> (string \<times> string) option" where
  \<comment> \<open>\<open>s.split(".", maxsplit=1)\<close>; \<open>None\<close> when there is no dot to split at\<close>
  "split_dot [] = None"
| "split_dot (c # s) =
     (if c = CHR ''.'' then Some ([], s) else map_option (\<lambda>(u, v). (c # u, v)) (split_dot s))"

definition decode_payload :: "string \<Rightarrow> (string \<times> string) option" where
  \<comment> \<open>version and encoding checks of a stored text: nonce and sealed bytes\<close>
  "decode_payload ciphertext =
     (case split_dot ciphertext of
        None \<Rightarrow> None
      | Some (version_text, encoded) \<Rightarrow>
          if version_text \<noteq> VERSION \<or> encoded = [] \<or> \<not> is_ascii encoded then None
          else case b64decode (encoded @ pad_for encoded) of
                 None \<Rightarrow> None
               | Some payload \<Rightarrow>
                   if length payload \<le> NONCE_BYTES then None
                   else Some (take NONCE_BYTES payload, drop NONCE_BYTES payload))"

definition decrypt ::
  "platform \<Rightarrow> PayloadCipher \<Rightarrow> string \<Rightarrow> string \<Rightarrow> int \<Rightarrow> string \<Rightarrow> EncryptedPayload
     \<Rightarrow> CipherError + json" where
  "decrypt P c tenant_id interaction_id revision purpose encrypted =
     (case map_of (ring_keys c) (ep_key_id encrypted) of
        None \<Rightarrow> Inl KeyUnavailable
      | Some key \<Rightarrow>
          bindE (aad tenant_id interaction_id revision purpose) (\<lambda>a.
          case decode_payload (ep_ciphertext encrypted) of
            None \<Rightarrow> Inl DecryptFailed
          | Some (nonce, sealed) \<Rightarrow>
              (case aead_decrypt P key nonce sealed a of
                 None \<Rightarrow> Inl DecryptFailed
               | Some plaintext \<Rightarrow>
                   (case json_loads P plaintext of None \<Rightarrow> Inl DecryptFailed | Some v \<Rightarrow> Inr v))))"

section \<open>The stored text\<close>

lemma split_dot_version: "split_dot (VERSION @ ''.'' @ t) = Some (VERSION, t)"
  by (simp add: VERSION_def)

lemma pad_rstrip: "rstrip_pad (b64encode bs) @ pad_for (rstrip_pad (b64encode bs)) = b64encode bs"
proof -
  obtain ns k where e: "b64encode bs = map b64_char ns @ replicate k (CHR ''='')"
    and k: "k = nat (- int (length ns) mod 4)"
    using b64encode_shape [of bs] by auto
  then show ?thesis by (simp add: rstrip_pad_alphabet pad_for_def)
qed

lemma rstrip_ascii: "is_ascii (rstrip_pad (b64encode bs))"
proof -
  obtain ns k where e: "b64encode bs = map b64_char ns @ replicate k (CHR ''='')"
    using b64encode_shape [of bs] by auto
  then show ?thesis by (simp add: rstrip_pad_alphabet is_ascii_def list_all_iff)
qed

lemma decode_payload_encode:
  assumes "length nonce = NONCE_BYTES" and "sealed \<noteq> []"
  shows "decode_payload (VERSION @ ''.'' @ rstrip_pad (b64encode (nonce @ sealed))) =
    Some (nonce, sealed)"
proof -
  let ?t = "rstrip_pad (b64encode (nonce @ sealed))"
  have dec: "b64decode (?t @ pad_for ?t) = Some (nonce @ sealed)"
    by (simp add: pad_rstrip b64_roundtrip)
  have "?t \<noteq> []"
  proof
    assume "?t = []"
    then have "b64decode [] = Some (nonce @ sealed)" using dec by (simp add: pad_for_def)
    with assms(2) show False by simp
  qed
  with dec assms show ?thesis
    using rstrip_ascii [of "nonce @ sealed"] unfolding decode_payload_def split_dot_version by simp
qed

section \<open>The associated data names its boundary\<close>

lemma join_sep_inj:
  assumes "CHR 0x00 \<notin> set a" "CHR 0x00 \<notin> set a'"
    and "a @ [CHR 0x00] @ r = a' @ [CHR 0x00] @ r'"
  shows "a = a' \<and> r = r'"
  using assms
proof (induction a arbitrary: a')
  case Nil
  then show ?case by (cases a') auto
next
  case (Cons x a)
  then show ?case by (cases a') auto
qed

lemma opaque_no_nul: "valid_opaque s \<Longrightarrow> CHR 0x00 \<notin> set s"
  by (auto simp: valid_opaque_def list_all_iff is_alnum_def)

lemma nat_str_digits: "\<forall>c \<in> set (nat_str n). (48 :: nat) \<le> of_char c \<and> of_char c \<le> (57 :: nat)"
proof (induction n rule: nat_str.induct)
  case (1 n)
  then show ?case
    by (subst nat_str.simps) (auto simp: less_Suc_eq_le)
qed

lemma nat_str_nonempty [simp]: "nat_str n \<noteq> []"
  by (subst nat_str.simps) simp

lemma nat_str_inj: "nat_str m = nat_str n \<Longrightarrow> m = n"
proof (induction m arbitrary: n rule: nat_str.induct)
  case (1 m)
  show ?case
  proof (cases "m < 10 \<or> n < 10")
    case True
    have len: "length (nat_str k) = 1 \<longleftrightarrow> k < 10" for k
      by (subst nat_str.simps) simp
    from True "1.prems" len have both: "m < 10" "n < 10" by metis+
    with "1.prems" have "(char_of (48 + m) :: char) = char_of (48 + n)"
      by (simp add: nat_str.simps)
    with both show ?thesis by simp
  next
    case False
    with "1.prems" have "nat_str (m div 10) = nat_str (n div 10) \<and>
        (char_of (48 + m mod 10) :: char) = char_of (48 + n mod 10)"
      by (simp add: nat_str.simps [of m] nat_str.simps [of n])
    then have "m div 10 = n div 10" "m mod 10 = n mod 10"
      using "1.IH" False by (auto simp: mod_less_divisor order.strict_trans [OF mod_less_divisor])
    then show ?thesis by (metis div_mult_mod_eq)
  qed
qed

lemma int_str_pos:
  assumes "0 < i"
  shows "CHR 0x00 \<notin> set (int_str i)" and "int_str i = int_str j \<Longrightarrow> 0 < j \<Longrightarrow> i = j"
  using assms nat_str_digits [of "nat i"]
  by (auto simp: int_str_def dest!: nat_str_inj)

lemma aad_injective:
  assumes "aad t i r p = Inr a" "aad t' i' r' p' = Inr a"
    and "CHR 0x00 \<notin> set t" "CHR 0x00 \<notin> set t'" "CHR 0x00 \<notin> set i" "CHR 0x00 \<notin> set i'"
  shows "t = t' \<and> i = i' \<and> r = r' \<and> p = p'"
proof -
  from assms(1,2) have pos: "0 < r" "0 < r'"
    and eq: "t @ [CHR 0x00] @ i @ [CHR 0x00] @ int_str r @ [CHR 0x00] @ p =
      t' @ [CHR 0x00] @ i' @ [CHR 0x00] @ int_str r' @ [CHR 0x00] @ p'"
    by (auto simp: aad_def split: if_splits)
  from join_sep_inj [OF assms(3,4) eq]
  have t: "t = t'" and eq2: "i @ [CHR 0x00] @ int_str r @ [CHR 0x00] @ p =
      i' @ [CHR 0x00] @ int_str r' @ [CHR 0x00] @ p'" by simp_all
  from join_sep_inj [OF assms(5,6) eq2]
  have i: "i = i'" and eq3: "int_str r @ [CHR 0x00] @ p = int_str r' @ [CHR 0x00] @ p'" by simp_all
  from join_sep_inj [OF int_str_pos(1) [OF pos(1)] int_str_pos(1) [OF pos(2)] eq3]
  show ?thesis using t i int_str_pos(2) [OF pos(1)] pos(2) by simp
qed

section \<open>Properties\<close>

lemma add_keys:
  assumes "foldE (add_key P) keyed keys = Inr out" "distinct (map fst keyed)"
  shows "out = keyed @ map (\<lambda>k. (key_id_of P k, k)) keys \<and> distinct (map fst out)"
  using assms
proof (induction keys arbitrary: keyed)
  case (Cons k keys)
  then have "\<not> has_key keyed (key_id_of P k)" "foldE (add_key P) (keyed @ [(key_id_of P k, k)]) keys = Inr out"
    by (auto simp: add_key_def [of P keyed k] split: if_splits)
  with Cons.IH [of "keyed @ [(key_id_of P k, k)]"] Cons.prems(2) show ?case
    by (force simp: has_key_def)
qed simp

lemma make_cipher_keys:
  assumes "make_cipher P keys = Inr c"
  shows "ring_active c = key_id_of P (hd keys)" "k \<in> set keys \<Longrightarrow> map_of (ring_keys c) (key_id_of P k) = Some k" "keys \<noteq> []"
proof -
  obtain keyed where ne: "keys \<noteq> []" and fold: "foldE (add_key P) [] keys = Inr keyed"
    and c: "c = \<lparr>ring_keys = keyed, ring_active = fst (hd keyed)\<rparr>"
    using assms by (auto simp: make_cipher_def result_simps split: if_splits)
  have keyed: "keyed = map (\<lambda>k. (key_id_of P k, k)) keys" "distinct (map fst keyed)"
    using add_keys [OF fold] by auto
  show "keys \<noteq> []" "ring_active c = key_id_of P (hd keys)"
    using ne by (simp_all add: c keyed hd_map)
  show "map_of (ring_keys c) (key_id_of P k) = Some k" if "k \<in> set keys"
    using that keyed by (auto simp: c intro!: map_of_is_SomeI)
qed

text \<open>Property C8. A payload sealed under a key ring names the ring's first key and opens again, under the same tenant, interaction,
  revision and purpose, with every ring that still has this key, wherever a rotation put it (a new key goes first);
  it gives back what the JSON parser reads from its canonical text.\<close>

theorem payload_opens_at_its_boundary:
  assumes "make_cipher P keys = Inr c" and "encrypt P c nonce t i r p v = Inr e"
    and "make_cipher P keys' = Inr c'" and "hd keys \<in> set keys'"
    and "length nonce = NONCE_BYTES"
    and "\<And>k m a. aead_encrypt P k nonce m a \<noteq> [] \<and>
           aead_decrypt P k nonce (aead_encrypt P k nonce m a) a = Some m"
    and "json_loads P (print_json (frepr P) v) = Some w"
  shows "ep_key_id e = key_id_of P (hd keys) \<and> decrypt P c' t i r p e = Inr w"
proof -
  let ?k = "hd keys"
  note ring = make_cipher_keys [OF assms(1)]
  have key: "map_of (ring_keys c) (ring_active c) = Some ?k"
    using ring(2) [of ?k] ring(1,3) by simp
  with assms(2) obtain a where a: "aad t i r p = Inr a"
    and e: "e = \<lparr>ep_ciphertext = VERSION @ ''.'' @ rstrip_pad (b64encode
        (nonce @ aead_encrypt P ?k nonce (print_json (frepr P) v) a)), ep_key_id = ring_active c\<rparr>"
    by (auto simp: encrypt_def result_simps dumps_def split: option.splits if_splits)
  have "decode_payload (ep_ciphertext e) =
      Some (nonce, aead_encrypt P ?k nonce (print_json (frepr P) v) a)"
    using decode_payload_encode [OF assms(5)] assms(6) by (simp add: e)
  then show ?thesis using a ring(1) make_cipher_keys(2) [OF assms(3,4)] assms(6,7)
    by (simp add: decrypt_def e)
qed

text \<open>Property C9. A sealed payload is bound to its boundary: provided the AEAD rejects other
  associated data, no other tenant, interaction, revision or purpose can open it.\<close>

theorem payload_bound_to_boundary:
  assumes "encrypt P c nonce t i r p v = Inr e"
    and "length nonce = NONCE_BYTES"
    and "\<And>k m a. aead_encrypt P k nonce m a \<noteq> []"
    and "\<And>k m a a'. a' \<noteq> a \<Longrightarrow> aead_decrypt P k nonce (aead_encrypt P k nonce m a) a' = None"
    and "valid_opaque t" "valid_opaque t'" "valid_opaque i" "valid_opaque i'"
    and "(t', i', r', p') \<noteq> (t, i, r, p)"
  shows "decrypt P c t' i' r' p' e \<in> {Inl DecryptFailed, Inl BoundaryInvalid}"
proof -
  from assms(1) obtain a key where a: "aad t i r p = Inr a"
    and key: "map_of (ring_keys c) (ring_active c) = Some key"
    and e: "e = \<lparr>ep_ciphertext = VERSION @ ''.'' @ rstrip_pad (b64encode
        (nonce @ aead_encrypt P key nonce (print_json (frepr P) v) a)), ep_key_id = ring_active c\<rparr>"
    by (auto simp: encrypt_def result_simps dumps_def split: option.splits if_splits)
  have dec: "decode_payload (ep_ciphertext e) =
      Some (nonce, aead_encrypt P key nonce (print_json (frepr P) v) a)"
    using decode_payload_encode [OF assms(2)] assms(3) by (simp add: e)
  show ?thesis
  proof (cases "aad t' i' r' p'")
    case (Inl x)
    then show ?thesis using key by (auto simp: decrypt_def e aad_def split: if_splits)
  next
    case (Inr a')
    have "a' \<noteq> a" using aad_injective [OF a, of t' i' r' p'] Inr assms(5-9) opaque_no_nul by auto
    then show ?thesis using Inr key dec assms(4) by (simp add: decrypt_def e)
  qed
qed

definition demo_cipher :: PayloadCipher where
  "demo_cipher = \<lparr>ring_keys = [(''k1'', replicate 32 (CHR ''k''))], ring_active = ''k1''\<rparr>"

definition demo_nonce :: string where
  "demo_nonce = replicate 12 (CHR ''n'')"

definition rotated_platform :: platform where
  "rotated_platform = demo_platform\<lparr>sha256 := (\<lambda>k. k)\<rparr>"

theorem payload_opens_at_its_boundary_witness:
  "\<exists>c c' e. make_cipher rotated_platform [replicate 32 (CHR ''k'')] = Inr c \<and>
     make_cipher rotated_platform [replicate 32 (CHR ''n''), replicate 32 (CHR ''k'')] = Inr c' \<and>
     encrypt rotated_platform c demo_nonce ''ten'' ''int'' 1 ''result'' JNull = Inr e \<and>
     decrypt rotated_platform c' ''ten'' ''int'' 1 ''result'' e = Inr JNull"
proof -
  let ?k = "replicate 32 (CHR ''k'')" and ?n = "replicate 32 (CHR ''n'')"
  have "\<not> blank ''ten''" "\<not> blank ''int''"
    by (simp_all add: blank_def py_strip_noop)
  then obtain c c' e where c: "make_cipher rotated_platform [?k] = Inr c" "make_cipher rotated_platform [?n, ?k] = Inr c'"
    "encrypt rotated_platform c demo_nonce ''ten'' ''int'' 1 ''result'' JNull = Inr e"
    by (auto simp: make_cipher_def add_key_def key_id_of_def rotated_platform_def has_key_def encrypt_def aad_def PURPOSES_def dumps_def)
  have "ep_key_id e = key_id_of rotated_platform (hd [?k]) \<and> decrypt rotated_platform c' ''ten'' ''int'' 1 ''result'' e = Inr JNull"
    by (rule payload_opens_at_its_boundary [OF c(1,3,2)])
      (simp_all add: demo_nonce_def NONCE_BYTES_def rotated_platform_def demo_platform_def)
  with c show ?thesis by blast
qed

text \<open>For the second witness the demonstration AEAD writes the associated data in front in a
  prefix-free form, so that other associated data never opens a text.\<close>

definition framed :: "string \<Rightarrow> string" where
  "framed a = concat (map (\<lambda>c. [CHR ''1'', c]) a) @ ''0''"

definition strict_platform :: platform where
  "strict_platform = demo_platform\<lparr>
     aead_encrypt := (\<lambda>k n m a. framed a @ m),
     aead_decrypt := (\<lambda>k n c a. if prefix (framed a) c then Some (drop (length (framed a)) c) else None)\<rparr>"

lemma framed_nonempty: "framed a \<noteq> []"
  by (simp add: framed_def)

lemma framed_prefix: "prefix (framed x) (framed y @ m) \<Longrightarrow> x = y"
proof (induction x arbitrary: y)
  case Nil
  then show ?case by (cases y) (auto simp: framed_def)
next
  case (Cons c x)
  then show ?case by (cases y) (auto simp: framed_def)
qed

theorem payload_bound_to_boundary_witness:
  "\<exists>e. encrypt strict_platform demo_cipher demo_nonce ''ten'' ''int'' 1 ''result'' JNull = Inr e \<and>
     decrypt strict_platform demo_cipher ''ten'' ''int'' 2 ''result'' e
       \<in> {Inl DecryptFailed, Inl BoundaryInvalid}"
proof -
  have "\<not> blank ''ten''" "\<not> blank ''int''"
    by (simp_all add: blank_def py_strip_noop)
  then obtain e where
    e: "encrypt strict_platform demo_cipher demo_nonce ''ten'' ''int'' 1 ''result'' JNull = Inr e"
    by (auto simp: encrypt_def aad_def PURPOSES_def dumps_def demo_cipher_def)
  have "decrypt strict_platform demo_cipher ''ten'' ''int'' 2 ''result'' e
       \<in> {Inl DecryptFailed, Inl BoundaryInvalid}"
    by (rule payload_bound_to_boundary [OF e])
      (auto simp: demo_nonce_def NONCE_BYTES_def strict_platform_def valid_opaque_def
        is_alnum_def framed_nonempty dest: framed_prefix)
  with e show ?thesis by blast
qed

end
