(* ===== verification/Mcp_Interactions.thy ===== *)
theory Mcp_Interactions
  imports Mcp_Crypto
begin

text \<open>
  The durable interaction store (\<open>src/api/identity/mcp_interactions/repository.py\<close> and the
  two tables of \<open>src/api/db/db_models.py\<close>): rounds that wait for a person, the responses
  they get, and the leased, fenced attempts to resume them.

  A transaction is a function from the two tables to an error or the new tables. Every
  \<open>SELECT ... FOR UPDATE\<close> is a lookup in them, so a transaction sees the state at its locks;
  what the database, the clock and the random source contribute is passed in:
  \<open>env\<close> holds the configuration of the repository, \<open>now\<close> the wall clock read after the
  last lock (microseconds), \<open>nonce\<close> the nonce drawn for each encrypted column, and
  \<open>new_id\<close> the fresh \<open>uuid4().hex\<close>.
\<close>

section \<open>Tables\<close>

datatype InteractionState =
  AwaitingInput | ResponseReady | Resuming | RowCompleted | Declined | RowCancelled | RowExpired | RowFailed

datatype JobState = JobReady | JobLeased | JobSucceeded | JobTerminalFailed

record McpInteraction =
  ia_id :: string
  ia_tenant_id :: string
  ia_platform_user_id :: string
  ia_external_identity_id :: "string option"
  ia_identity_revision :: "int option"
  ia_agent_id :: string
  ia_agent_revision_id :: string
  ia_mcp_server_id :: string
  ia_resource_name :: string
  ia_resource_uri :: string
  ia_tool_name :: string
  ia_call_digest :: string
  ia_schema_digest :: string
  ia_output_schema_digest :: "string option"
  ia_output_schema :: "EncryptedPayload option" \<comment> \<open>ciphertext and key id columns\<close>
  ia_original_arguments :: EncryptedPayload
  ia_input_requests :: EncryptedPayload
  ia_request_state :: EncryptedPayload
  ia_policy_revision :: string
  ia_credential_generation :: int
  ia_effect :: InteractionEffect
  ia_replay_mode :: string
  ia_state :: InteractionState
  ia_revision :: int
  ia_round_count :: int
  ia_expires_at :: int
  ia_result :: "EncryptedPayload option"
  ia_created_at :: int
  ia_updated_at :: int

record McpInteractionResumeJob =
  jb_id :: string
  jb_interaction_id :: string
  jb_tenant_id :: string
  jb_revision :: int
  jb_response_key :: string
  jb_input_response :: EncryptedPayload
  jb_state :: JobState
  jb_lease_owner :: "string option"
  jb_lease_until :: "int option"
  jb_attempt :: int
  jb_next_attempt_at :: "int option"
  jb_safe_error_code :: "InteractionErrorCode option"
  jb_created_at :: int
  jb_updated_at :: int

record mcp_db =
  interactions :: "McpInteraction list"
  resume_jobs :: "McpInteractionResumeJob list"

record repo_env =
  env_platform :: platform
  env_cipher :: PayloadCipher
  env_max_rounds :: int
  env_max_payload_bytes :: int

datatype RepoError =
    StateError InteractionErrorCode
  | CipherFailure CipherError
  | ContractFailure ContractError
  | IntegrityFailure
  | AssertionFailure
  | BadLeaseOwner
  | BadLeaseBounds

abbreviation rows :: "mcp_db \<Rightarrow> string \<Rightarrow> McpInteraction option" where
  "rows db i \<equiv> row_by ia_id i (interactions db)"

abbreviation jobs :: "mcp_db \<Rightarrow> string \<Rightarrow> McpInteractionResumeJob option" where
  "jobs db j \<equiv> row_by jb_id j (resume_jobs db)"

definition put_interaction :: "McpInteraction \<Rightarrow> mcp_db \<Rightarrow> mcp_db" where
  "put_interaction r db = db\<lparr>interactions := put_row ia_id r (interactions db)\<rparr>"

definition put_job :: "McpInteractionResumeJob \<Rightarrow> mcp_db \<Rightarrow> mcp_db" where
  "put_job j db = db\<lparr>resume_jobs := put_row jb_id j (resume_jobs db)\<rparr>"

definition seconds :: "int \<Rightarrow> int" where
  \<comment> \<open>\<open>timedelta(seconds=n)\<close> in microseconds\<close>
  "seconds n = n * 1000000"

section \<open>Helpers of the repository\<close>

definition liftS :: "InteractionErrorCode + 'a \<Rightarrow> RepoError + 'a" where
  "liftS m = (case m of Inl c \<Rightarrow> Inl (StateError c) | Inr x \<Rightarrow> Inr x)"

definition liftC :: "CipherError + 'a \<Rightarrow> RepoError + 'a" where
  "liftC m = (case m of Inl c \<Rightarrow> Inl (CipherFailure c) | Inr x \<Rightarrow> Inr x)"

definition liftK :: "ContractError + 'a \<Rightarrow> RepoError + 'a" where
  "liftK m = (case m of Inl c \<Rightarrow> Inl (ContractFailure c) | Inr x \<Rightarrow> Inr x)"

definition idempotency_digest :: "platform \<Rightarrow> string \<Rightarrow> string \<Rightarrow> int \<Rightarrow> string \<Rightarrow> InteractionErrorCode + string" where
  "idempotency_digest P tenant_id interaction_id revision key =
     (if blank key \<or> py_len key > 255 then Inl RESPONSE_INVALID
      else Inr (sha256 P (''multirag.mcp-interaction.response.v1'' @ [CHR 0x00] @
        join [CHR 0x00] [tenant_id, interaction_id, int_str revision, key])))"

definition locked_interaction :: "mcp_db \<Rightarrow> string \<Rightarrow> string \<Rightarrow> McpInteraction option" where
  "locked_interaction db interaction_id tenant_id =
     (case rows db interaction_id of
        None \<Rightarrow> None
      | Some r \<Rightarrow> if ia_tenant_id r = tenant_id then Some r else None)"

definition repo_encrypt ::
  "repo_env \<Rightarrow> (string \<Rightarrow> string) \<Rightarrow> string \<Rightarrow> string \<Rightarrow> int \<Rightarrow> string \<Rightarrow> json
     \<Rightarrow> RepoError + EncryptedPayload" where
  "repo_encrypt E nonce tenant_id interaction_id revision purpose v =
     liftC (encrypt (env_platform E) (env_cipher E) (nonce purpose)
       tenant_id interaction_id revision purpose v)"

definition encrypt_output_schema ::
  "repo_env \<Rightarrow> (string \<Rightarrow> string) \<Rightarrow> string \<Rightarrow> string \<Rightarrow> int \<Rightarrow> pydict option
     \<Rightarrow> RepoError + EncryptedPayload option" where
  "encrypt_output_schema E nonce tenant_id interaction_id revision output_schema =
     (case output_schema of
        None \<Rightarrow> Inr None
      | Some d \<Rightarrow> bindE (repo_encrypt E nonce tenant_id interaction_id revision ''output_schema'' (JDict d))
                    (\<lambda>e. Inr (Some e)))"

definition decrypt_mapping ::
  "repo_env \<Rightarrow> McpInteraction \<Rightarrow> string \<Rightarrow> EncryptedPayload \<Rightarrow> RepoError + pydict" where
  "decrypt_mapping E row purpose e =
     bindE (liftC (decrypt (env_platform E) (env_cipher E) (ia_tenant_id row) (ia_id row)
       (ia_revision row) purpose e)) (\<lambda>v.
     case v of JDict d \<Rightarrow> Inr d | _ \<Rightarrow> Inl (StateError PAYLOAD_INVALID))"

definition decrypt_output_schema :: "repo_env \<Rightarrow> McpInteraction \<Rightarrow> RepoError + pydict option" where
  "decrypt_output_schema E row =
     (case (ia_output_schema_digest row, ia_output_schema row) of
        (None, None) \<Rightarrow> Inr None
      | (Some digest, Some e) \<Rightarrow>
          bindE (decrypt_mapping E row ''output_schema'' e) (\<lambda>d.
          if output_schema_digest (env_platform E) (Some d) \<noteq> Some digest
          then Inl (StateError PAYLOAD_INVALID) else Inr (Some d))
      | _ \<Rightarrow> Inl (StateError PAYLOAD_INVALID))"

definition decrypt_input_requests :: "repo_env \<Rightarrow> McpInteraction \<Rightarrow> RepoError + pydict" where
  "decrypt_input_requests E row =
     bindE (decrypt_mapping E row ''input_requests'' (ia_input_requests row)) (\<lambda>d.
     if interaction_schema_digest (env_platform E) d \<noteq> ia_schema_digest row
     then Inl (StateError PAYLOAD_INVALID) else Inr d)"

definition same_binding :: "platform \<Rightarrow> McpInteraction \<Rightarrow> InteractionRequest \<Rightarrow> pydict option \<Rightarrow> bool" where
  "same_binding P row request output_schema \<longleftrightarrow>
     ia_platform_user_id row = rq_platform_user_id request
     \<and> ia_external_identity_id row = rq_external_identity_id request
     \<and> ia_agent_id row = rq_agent_id request
     \<and> ia_agent_revision_id row = rq_agent_revision_id request
     \<and> ia_mcp_server_id row = rq_mcp_server_id request
     \<and> ia_resource_name row = rq_resource_name request
     \<and> ia_resource_uri row = rq_resource_uri request
     \<and> ia_tool_name row = rq_tool_name request
     \<and> ia_call_digest row = rq_call_digest request
     \<and> ia_output_schema_digest row = output_schema_digest P output_schema
     \<and> ia_effect row = rq_effect request
     \<and> ia_replay_mode row = rq_replay_mode request"

definition response_terminal_state :: "pydict \<Rightarrow> InteractionState option" where
  "response_terminal_state responses =
     (let actions = map (\<lambda>r. case snd r of JDict d \<Rightarrow> [dget d ''action''] | _ \<Rightarrow> []) responses in
      if JStr ''cancel'' \<in> set (concat actions) then Some RowCancelled
      else if JStr ''decline'' \<in> set (concat actions) then Some Declined
      else None)"

definition terminal_job :: "McpInteractionResumeJob \<Rightarrow> int \<Rightarrow> InteractionErrorCode \<Rightarrow> McpInteractionResumeJob" where
  "terminal_job job now code =
     job\<lparr>jb_state := JobTerminalFailed, jb_lease_owner := None, jb_lease_until := None,
         jb_safe_error_code := Some code, jb_updated_at := now\<rparr>"

section \<open>Pause: create a round or advance to the next one\<close>

definition create_interaction ::
  "repo_env \<Rightarrow> (string \<Rightarrow> string) \<Rightarrow> string \<Rightarrow> int \<Rightarrow> InteractionRequest \<Rightarrow> pydict \<Rightarrow> pydict option
     \<Rightarrow> mcp_db \<Rightarrow> RepoError + (mcp_db \<times> InteractionReceipt)" where
  "create_interaction E nonce new_id now request input_requests output_schema db =
     (let P = env_platform E; enc = repo_encrypt E nonce (rq_tenant_id request) new_id 1 in
     bindE (enc ''original_arguments'' (JDict (rq_original_arguments request))) (\<lambda>original.
     bindE (enc ''input_requests'' (JDict input_requests)) (\<lambda>inputs.
     bindE (enc ''request_state'' (JStr (rq_request_state request))) (\<lambda>state.
     bindE (encrypt_output_schema E nonce (rq_tenant_id request) new_id 1 output_schema) (\<lambda>schema.
     if rows db new_id \<noteq> None \<or> rq_expires_at request = None then Inl IntegrityFailure
     else bindE (liftK (make_receipt new_id 1)) (\<lambda>receipt. Inr
       (db\<lparr>interactions := interactions db @ [\<lparr>
          ia_id = new_id, ia_tenant_id = rq_tenant_id request,
          ia_platform_user_id = rq_platform_user_id request,
          ia_external_identity_id = rq_external_identity_id request,
          ia_identity_revision = rq_identity_revision request,
          ia_agent_id = rq_agent_id request, ia_agent_revision_id = rq_agent_revision_id request,
          ia_mcp_server_id = rq_mcp_server_id request,
          ia_resource_name = rq_resource_name request, ia_resource_uri = rq_resource_uri request,
          ia_tool_name = rq_tool_name request, ia_call_digest = rq_call_digest request,
          ia_schema_digest = interaction_schema_digest P input_requests,
          ia_output_schema_digest = output_schema_digest P output_schema,
          ia_output_schema = schema, ia_original_arguments = original,
          ia_input_requests = inputs, ia_request_state = state,
          ia_policy_revision = rq_policy_revision request,
          ia_credential_generation = rq_credential_generation request,
          ia_effect = rq_effect request, ia_replay_mode = rq_replay_mode request,
          ia_state = AwaitingInput, ia_revision = 1, ia_round_count = 1,
          ia_expires_at = instant (the (rq_expires_at request)), ia_result = None,
          ia_created_at = now, ia_updated_at = now\<rparr>]\<rparr>, receipt)))))))"

definition fence_holds ::
  "McpInteractionResumeJob \<Rightarrow> string \<Rightarrow> int \<Rightarrow> int \<Rightarrow> bool" where
  \<comment> \<open>the job is leased to this owner under this attempt and the lease has not run out\<close>
  "fence_holds job owner attempt now \<longleftrightarrow>
     jb_state job = JobLeased \<and> jb_lease_owner job = Some owner \<and> jb_attempt job = attempt
     \<and> (case jb_lease_until job of None \<Rightarrow> False | Some u \<Rightarrow> now < u)"

definition succeed_job :: "McpInteractionResumeJob \<Rightarrow> int \<Rightarrow> McpInteractionResumeJob" where
  "succeed_job job now =
     job\<lparr>jb_state := JobSucceeded, jb_lease_owner := None, jb_lease_until := None, jb_updated_at := now\<rparr>"

definition advance_guard ::
  "repo_env \<Rightarrow> int \<Rightarrow> InteractionRequest \<Rightarrow> pydict option \<Rightarrow> mcp_db
     \<Rightarrow> RepoError + (McpInteraction \<times> McpInteractionResumeJob)" where
  "advance_guard E now request output_schema db =
     (case rq_lease_fence request of None \<Rightarrow> Inl AssertionFailure | Some fence \<Rightarrow>
     (case jobs db (fence_job_id fence) of None \<Rightarrow> Inl (StateError STATE_CONFLICT) | Some job \<Rightarrow>
     (case locked_interaction db (the (rq_interaction_id request)) (rq_tenant_id request) of
        None \<Rightarrow> Inl (StateError NOT_FOUND)
      | Some row \<Rightarrow>
          if Some (jb_interaction_id job) \<noteq> rq_interaction_id request
             \<or> Some (jb_revision job) \<noteq> rq_previous_revision request
             \<or> \<not> fence_holds job (fence_owner fence) (fence_attempt fence) now
          then Inl (StateError STATE_CONFLICT)
          else if ia_state row \<noteq> Resuming \<or> Some (ia_revision row) \<noteq> rq_previous_revision request
          then Inl (StateError STATE_CONFLICT)
          else if ia_expires_at row \<le> now then Inl (StateError EXPIRED)
          else if ia_round_count row \<ge> env_max_rounds E then Inl (StateError ROUND_LIMIT)
          else if \<not> same_binding (env_platform E) row request output_schema
          then Inl (StateError STATE_CONFLICT)
          else Inr (row, job))))"

definition advance_interaction ::
  "repo_env \<Rightarrow> (string \<Rightarrow> string) \<Rightarrow> int \<Rightarrow> InteractionRequest \<Rightarrow> pydict \<Rightarrow> pydict option
     \<Rightarrow> mcp_db \<Rightarrow> RepoError + (mcp_db \<times> InteractionReceipt)" where
  "advance_interaction E nonce now request input_requests output_schema db =
     bindE (advance_guard E now request output_schema db) (\<lambda>(row, job).
     let P = env_platform E; revision = ia_revision row + 1;
         enc = repo_encrypt E nonce (rq_tenant_id request) (ia_id row) revision in
     bindE (enc ''original_arguments'' (JDict (rq_original_arguments request))) (\<lambda>original.
     bindE (enc ''input_requests'' (JDict input_requests)) (\<lambda>inputs.
     bindE (enc ''request_state'' (JStr (rq_request_state request))) (\<lambda>state.
     bindE (encrypt_output_schema E nonce (rq_tenant_id request) (ia_id row) revision output_schema) (\<lambda>schema.
     if rq_expires_at request = None then Inl IntegrityFailure
     else bindE (liftK (make_receipt (ia_id row) revision)) (\<lambda>receipt. Inr
       (put_job (succeed_job job now) (put_interaction (row\<lparr>
          ia_original_arguments := original, ia_input_requests := inputs,
          ia_request_state := state,
          ia_schema_digest := interaction_schema_digest P input_requests,
          ia_output_schema_digest := output_schema_digest P output_schema,
          ia_output_schema := schema,
          ia_policy_revision := rq_policy_revision request,
          ia_credential_generation := rq_credential_generation request,
          ia_identity_revision := rq_identity_revision request,
          ia_state := AwaitingInput, ia_revision := revision,
          ia_round_count := ia_round_count row + 1,
          ia_expires_at := instant (the (rq_expires_at request)),
          ia_updated_at := now\<rparr>) db), receipt)))))))"

definition pause ::
  "repo_env \<Rightarrow> (string \<Rightarrow> string) \<Rightarrow> string \<Rightarrow> int \<Rightarrow> InteractionRequest
     \<Rightarrow> mcp_db \<Rightarrow> RepoError + (mcp_db \<times> InteractionReceipt)" where
  "pause E nonce new_id now request db =
     bindE (liftS (normalize_input_requests (env_platform E) (env_max_payload_bytes E)
       (rq_input_requests request))) (\<lambda>input_requests.
     bindE (liftS (normalize_output_schema (env_platform E) (env_max_payload_bytes E)
       (rq_output_schema request))) (\<lambda>output_schema.
     if rq_interaction_id request = None
     then create_interaction E nonce new_id now request input_requests output_schema db
     else advance_interaction E nonce now request input_requests output_schema db))"

section \<open>A person's response\<close>

record Actor =
  ac_tenant_id :: string
  ac_platform_user_id :: string
  ac_external_identity_id :: "string option"

definition round_job :: "mcp_db \<Rightarrow> string \<Rightarrow> int \<Rightarrow> McpInteractionResumeJob option" where
  "round_job db interaction_id revision =
     find (\<lambda>j. jb_interaction_id j = interaction_id \<and> jb_revision j = revision) (resume_jobs db)"

definition record_response ::
  "repo_env \<Rightarrow> (string \<Rightarrow> string) \<Rightarrow> string \<Rightarrow> int \<Rightarrow> McpInteraction \<Rightarrow> string \<Rightarrow> pydict
     \<Rightarrow> mcp_db \<Rightarrow> RepoError + mcp_db" where
  \<comment> \<open>the tail of \<open>submit_response\<close>: check the payload, insert the job, move the row\<close>
  "record_response E nonce new_id now row digest input_responses db =
     (let P = env_platform E in
     bindE (decrypt_input_requests E row) (\<lambda>input_requests.
     bindE (liftS (normalize_input_responses P (env_max_payload_bytes E) input_requests input_responses)) (\<lambda>responses.
     bindE (repo_encrypt E nonce (ia_tenant_id row) (ia_id row) (ia_revision row)
       ''input_response'' (JDict responses)) (\<lambda>encrypted.
     let terminal = response_terminal_state responses in
     if jobs db new_id \<noteq> None
        \<or> list_ex (\<lambda>j. jb_tenant_id j = ia_tenant_id row \<and> jb_response_key j = digest) (resume_jobs db)
     then Inl IntegrityFailure
     else Inr (put_interaction
       (row\<lparr>ia_state := (case terminal of None \<Rightarrow> ResponseReady | Some s \<Rightarrow> s), ia_updated_at := now\<rparr>)
       (db\<lparr>resume_jobs := resume_jobs db @ [\<lparr>
          jb_id = new_id, jb_interaction_id = ia_id row, jb_tenant_id = ia_tenant_id row,
          jb_revision = ia_revision row, jb_response_key = digest, jb_input_response = encrypted,
          jb_state = (if terminal \<noteq> None then JobSucceeded else JobReady),
          jb_lease_owner = None, jb_lease_until = None, jb_attempt = 0,
          jb_next_attempt_at = None, jb_safe_error_code = None,
          jb_created_at = now, jb_updated_at = now\<rparr>]\<rparr>))))))"

definition submit_response ::
  "repo_env \<Rightarrow> (string \<Rightarrow> string) \<Rightarrow> string \<Rightarrow> int \<Rightarrow> Actor \<Rightarrow> string \<Rightarrow> int \<Rightarrow> string \<Rightarrow> pydict
     \<Rightarrow> mcp_db \<Rightarrow> (RepoError + ResponseClaim) \<times> mcp_db" where
  \<comment> \<open>the tables are returned with an error too: the expiry branch writes before it raises\<close>
  "submit_response E nonce new_id now actor interaction_id revision key input_responses db =
     (case idempotency_digest (env_platform E) (ac_tenant_id actor) interaction_id revision key of
        Inl c \<Rightarrow> (Inl (StateError c), db)
      | Inr digest \<Rightarrow>
     (case locked_interaction db interaction_id (ac_tenant_id actor) of
        None \<Rightarrow> (Inl (StateError NOT_FOUND), db)
      | Some row \<Rightarrow>
          if ia_platform_user_id row \<noteq> ac_platform_user_id actor
             \<or> ia_external_identity_id row \<noteq> ac_external_identity_id actor
          then (Inl (StateError ACTOR_MISMATCH), db)
          else if ia_revision row \<noteq> revision then (Inl (StateError REVISION_CONFLICT), db)
          else (case round_job db (ia_id row) revision of
            Some existing \<Rightarrow>
              if jb_response_key existing = digest
              then (Inr \<lparr>cl_interaction_id = ia_id row, cl_revision = revision,
                         cl_status = CLAIM_DUPLICATE\<rparr>, db)
              else (Inl (StateError STATE_CONFLICT), db)
          | None \<Rightarrow>
              if ia_expires_at row \<le> now
              then (Inl (StateError EXPIRED),
                    put_interaction (row\<lparr>ia_state := RowExpired, ia_updated_at := now\<rparr>) db)
              else if ia_state row \<noteq> AwaitingInput then (Inl (StateError STATE_CONFLICT), db)
              else (case record_response E nonce new_id now row digest input_responses db of
                      Inl e \<Rightarrow> (Inl e, db)
                    | Inr db' \<Rightarrow> (Inr \<lparr>cl_interaction_id = ia_id row, cl_revision = revision,
                                       cl_status = CLAIM_ACCEPTED\<rparr>, db')))))"

definition projection ::
  "repo_env \<Rightarrow> string \<Rightarrow> string \<Rightarrow> string \<Rightarrow> mcp_db \<Rightarrow> RepoError + InteractionProjection" where
  "projection E tenant_id platform_user_id interaction_id db =
     (case rows db interaction_id of
        None \<Rightarrow> Inl (StateError NOT_FOUND)
      | Some row \<Rightarrow>
          if ia_tenant_id row \<noteq> tenant_id \<or> ia_platform_user_id row \<noteq> platform_user_id
          then Inl (StateError NOT_FOUND)
          else bindE (decrypt_input_requests E row) (\<lambda>input_requests. Inr
            \<lparr>ip_interaction_id = ia_id row, ip_revision = ia_revision row,
             ip_state = (case ia_state row of
                AwaitingInput \<Rightarrow> ''awaiting_input'' | ResponseReady \<Rightarrow> ''response_ready''
              | Resuming \<Rightarrow> ''resuming'' | RowCompleted \<Rightarrow> ''completed'' | Declined \<Rightarrow> ''declined''
              | RowCancelled \<Rightarrow> ''cancelled'' | RowExpired \<Rightarrow> ''expired'' | RowFailed \<Rightarrow> ''failed''),
             ip_input_requests = input_requests, ip_expires_at = ia_expires_at row\<rparr>))"

section \<open>Leases\<close>

definition to_resume ::
  "repo_env \<Rightarrow> McpInteraction \<Rightarrow> McpInteractionResumeJob \<Rightarrow> RepoError + InteractionResume" where
  "to_resume E row job =
     (let P = env_platform E in
     bindE (decrypt_mapping E row ''original_arguments'' (ia_original_arguments row)) (\<lambda>original.
     bindE (decrypt_input_requests E row) (\<lambda>input_requests.
     bindE (liftC (decrypt P (env_cipher E) (ia_tenant_id row) (ia_id row) (ia_revision row)
       ''request_state'' (ia_request_state row))) (\<lambda>state_value.
     bindE (decrypt_mapping E row ''input_response'' (jb_input_response job)) (\<lambda>responses.
     bindE (case state_value of JStr s \<Rightarrow> Inr s | _ \<Rightarrow> Inl (StateError PAYLOAD_INVALID)) (\<lambda>request_state.
     bindE (decrypt_output_schema E row) (\<lambda>output_schema.
     bindE (liftK (make_lease_fence (jb_id job)
       (case jb_lease_owner job of None \<Rightarrow> [] | Some w \<Rightarrow> w) (jb_attempt job))) (\<lambda>fence.
     bindE (liftK (request_post_init P \<lparr>
        rq_tenant_id = ia_tenant_id row, rq_platform_user_id = ia_platform_user_id row,
        rq_external_identity_id = ia_external_identity_id row,
        rq_identity_revision = ia_identity_revision row,
        rq_agent_id = ia_agent_id row, rq_agent_revision_id = ia_agent_revision_id row,
        rq_mcp_server_id = ia_mcp_server_id row, rq_resource_name = ia_resource_name row,
        rq_resource_uri = ia_resource_uri row, rq_tool_name = ia_tool_name row,
        rq_original_arguments = original, rq_input_requests = input_requests,
        rq_output_schema = output_schema, rq_request_state = request_state,
        rq_effect = ia_effect row, rq_replay_mode = ia_replay_mode row,
        rq_policy_revision = ia_policy_revision row,
        rq_credential_generation = ia_credential_generation row,
        rq_expires_at = Some \<lparr>instant = ia_expires_at row, utcoffset = Some 0\<rparr>,
        rq_interaction_id = Some (ia_id row), rq_previous_revision = Some (ia_revision row),
        rq_lease_fence = Some fence, rq_call_digest = []\<rparr>)) (\<lambda>request.
     if rq_call_digest request \<noteq> ia_call_digest row then Inl (StateError PAYLOAD_INVALID)
     else liftK (make_resume (ia_id row) (ia_revision row) request responses))))))))))"

definition eligible :: "int \<Rightarrow> McpInteractionResumeJob \<Rightarrow> bool" where
  \<comment> \<open>the WHERE clause of \<open>lease_ready\<close>\<close>
  "eligible candidate_now j \<longleftrightarrow>
     (jb_state j = JobReady \<and>
        (case jb_next_attempt_at j of None \<Rightarrow> True | Some t \<Rightarrow> t \<le> candidate_now))
     \<or> (jb_state j = JobLeased \<and>
        (case jb_lease_until j of None \<Rightarrow> False | Some u \<Rightarrow> u \<le> candidate_now))"

definition candidates ::
  "int \<Rightarrow> (string \<Rightarrow> bool) \<Rightarrow> nat \<Rightarrow> mcp_db \<Rightarrow> McpInteractionResumeJob list" where
  \<comment> \<open>oldest first, rows locked by other transactions skipped\<close>
  "candidates candidate_now locked limit db =
     take limit (sort_key jb_created_at
       (filter (\<lambda>j. eligible candidate_now j \<and> \<not> locked (jb_id j)) (resume_jobs db)))"

definition leased_job :: "McpInteractionResumeJob \<Rightarrow> string \<Rightarrow> int \<Rightarrow> int \<Rightarrow> McpInteractionResumeJob" where
  "leased_job job owner lease_seconds now =
     job\<lparr>jb_state := JobLeased, jb_lease_owner := Some owner,
         jb_lease_until := Some (now + seconds lease_seconds),
         jb_attempt := jb_attempt job + 1, jb_updated_at := now\<rparr>"

definition lease_one ::
  "repo_env \<Rightarrow> string \<Rightarrow> int \<Rightarrow> int \<Rightarrow> McpInteractionResumeJob \<Rightarrow> mcp_db
     \<Rightarrow> RepoError + (mcp_db \<times> InteractionLease option)" where
  \<comment> \<open>the body of the loop over the selected jobs\<close>
  "lease_one E owner lease_seconds now job db =
     (case locked_interaction db (jb_interaction_id job) (jb_tenant_id job) of
        None \<Rightarrow> Inr (put_job (terminal_job job now STATE_CONFLICT) db, None)
      | Some row \<Rightarrow>
          if ia_revision row \<noteq> jb_revision job
          then Inr (put_job (terminal_job job now STATE_CONFLICT) db, None)
          else if ia_expires_at row \<le> now
          then Inr (put_job (terminal_job job now EXPIRED)
                 (put_interaction (row\<lparr>ia_state := RowExpired, ia_updated_at := now\<rparr>) db), None)
          else if ia_effect row = SIDE_EFFECT
          then Inr (put_job (terminal_job job now SIDE_EFFECT_BLOCKED)
                 (put_interaction (row\<lparr>ia_state := RowFailed, ia_updated_at := now\<rparr>) db), None)
          else if jb_state job = JobLeased \<and> ia_replay_mode row \<noteq> ''reusable''
          then Inr (put_job (terminal_job job now REMOTE_RESULT_UNKNOWN)
                 (put_interaction (row\<lparr>ia_state := RowFailed, ia_updated_at := now\<rparr>) db), None)
          else (let job' = leased_job job owner lease_seconds now;
                    row' = row\<lparr>ia_state := Resuming, ia_updated_at := now\<rparr> in
            bindE (to_resume E row' job') (\<lambda>resume.
            bindE (liftK (make_lease (jb_id job') owner (jb_attempt job') resume)) (\<lambda>lease.
            Inr (put_job job' (put_interaction row' db), Some lease)))))"

fun lease_loop ::
  "repo_env \<Rightarrow> string \<Rightarrow> int \<Rightarrow> (nat \<Rightarrow> int) \<Rightarrow> nat \<Rightarrow> McpInteractionResumeJob list \<Rightarrow> mcp_db
     \<Rightarrow> RepoError + (mcp_db \<times> InteractionLease list)" where
  "lease_loop E owner lease_seconds clock n [] db = Inr (db, [])"
| "lease_loop E owner lease_seconds clock n (job # js) db =
     bindE (lease_one E owner lease_seconds (clock n) job db) (\<lambda>(db', lease).
     bindE (lease_loop E owner lease_seconds clock (Suc n) js db') (\<lambda>(db'', leases).
     Inr (db'', (case lease of None \<Rightarrow> leases | Some l \<Rightarrow> l # leases))))"

definition lease_ready ::
  "repo_env \<Rightarrow> (nat \<Rightarrow> int) \<Rightarrow> (string \<Rightarrow> bool) \<Rightarrow> string \<Rightarrow> int \<Rightarrow> int \<Rightarrow> mcp_db
     \<Rightarrow> RepoError + (mcp_db \<times> InteractionLease list)" where
  \<comment> \<open>\<open>clock 0\<close> is the candidate time, \<open>clock (Suc i)\<close> the time read for the i-th job\<close>
  "lease_ready E clock locked owner lease_seconds limit db =
     (if owner \<noteq> py_strip owner \<or> owner = [] \<or> py_len owner > 64 then Inl BadLeaseOwner
      else if lease_seconds \<le> 0 \<or> limit \<le> 0 then Inl BadLeaseBounds
      else lease_loop E owner lease_seconds clock 1 (candidates (clock 0) locked (nat limit) db) db)"

definition locked_lease ::
  "int \<Rightarrow> InteractionLease \<Rightarrow> mcp_db \<Rightarrow> RepoError + (McpInteraction \<times> McpInteractionResumeJob)" where
  "locked_lease now lease db =
     (case jobs db (ls_job_id lease) of None \<Rightarrow> Inl (StateError STATE_CONFLICT) | Some job \<Rightarrow>
     (case locked_interaction db (jb_interaction_id job) (jb_tenant_id job) of
        None \<Rightarrow> Inl (StateError STATE_CONFLICT)
      | Some row \<Rightarrow>
          if \<not> fence_holds job (ls_owner lease) (ls_attempt lease) now
             \<or> ia_state row \<noteq> Resuming \<or> ia_revision row \<noteq> jb_revision job
          then Inl (StateError STATE_CONFLICT)
          else if ia_expires_at row \<le> now then Inl (StateError EXPIRED)
          else Inr (row, job)))"

definition complete ::
  "repo_env \<Rightarrow> (string \<Rightarrow> string) \<Rightarrow> int \<Rightarrow> int \<Rightarrow> InteractionLease \<Rightarrow> json \<Rightarrow> mcp_db \<Rightarrow> RepoError + mcp_db" where
  "complete E nonce now1 now2 lease result db =
     bindE (locked_lease now1 lease db) (\<lambda>(row, job).
     bindE (decrypt_output_schema E row) (\<lambda>output_schema.
     bindE (liftS (normalize_interaction_result (env_platform E) (env_max_payload_bytes E)
       output_schema result)) (\<lambda>normalized.
     bindE (repo_encrypt E nonce (ia_tenant_id row) (ia_id row) (ia_revision row) ''result'' normalized) (\<lambda>encrypted.
     Inr (put_job (succeed_job job now2)
       (put_interaction (row\<lparr>ia_result := Some encrypted, ia_state := RowCompleted, ia_updated_at := now2\<rparr>) db))))))"

definition terminal_fail ::
  "int \<Rightarrow> int \<Rightarrow> InteractionLease \<Rightarrow> InteractionErrorCode \<Rightarrow> mcp_db \<Rightarrow> RepoError + mcp_db" where
  "terminal_fail now1 now2 lease code db =
     bindE (locked_lease now1 lease db) (\<lambda>(row, job).
     Inr (put_job (terminal_job job now2 code)
       (put_interaction (row\<lparr>ia_state := RowFailed, ia_updated_at := now2\<rparr>) db)))"

definition retry ::
  "int \<Rightarrow> int \<Rightarrow> InteractionLease \<Rightarrow> int \<Rightarrow> InteractionErrorCode \<Rightarrow> mcp_db \<Rightarrow> RepoError + mcp_db" where
  "retry now1 now2 lease delay_seconds code db =
     bindE (locked_lease now1 lease db) (\<lambda>(row, job).
     if ia_effect row \<notin> {READ, PREPARE} \<or> ia_replay_mode row \<noteq> ''reusable''
     then Inr (put_job (terminal_job job now2 REMOTE_RESULT_UNKNOWN)
            (put_interaction (row\<lparr>ia_state := RowFailed, ia_updated_at := now2\<rparr>) db))
     else Inr (put_job (job\<lparr>jb_state := JobReady, jb_lease_owner := None, jb_lease_until := None,
              jb_next_attempt_at := Some (now2 + seconds delay_seconds),
              jb_safe_error_code := Some code, jb_updated_at := now2\<rparr>)
            (put_interaction (row\<lparr>ia_state := ResponseReady, ia_updated_at := now2\<rparr>) db)))"

definition renew ::
  "int \<Rightarrow> int \<Rightarrow> InteractionLease \<Rightarrow> int \<Rightarrow> mcp_db \<Rightarrow> RepoError + mcp_db" where
  "renew now1 now2 lease lease_seconds db =
     (if lease_seconds \<le> 0 then Inl BadLeaseBounds
      else bindE (locked_lease now1 lease db) (\<lambda>(row, job).
        Inr (put_job (job\<lparr>jb_lease_until := Some (min (now2 + seconds lease_seconds) (ia_expires_at row)),
                          jb_updated_at := now2\<rparr>) db)))"

section \<open>The table invariant\<close>

text \<open>
  The check constraints of the two tables on revisions, rounds, attempts, effects, replay modes, the stored
  output schema and leases, one job to a round, the foreign key of a job to the interaction of its tenant, and what
  the state of a round says about its job: a waiting round has none, every other round that
  did not expire has exactly one in the matching state, the jobs of earlier rounds are settled. A round whose
  tool may run only once is attempted at most once. Not part of it: the format of digests (they are what the
  hash of the platform returns), the columns that may not be blank, and the uniqueness of the idempotency key of a
  response within its tenant (a digest of interaction, revision and key, so distinct as far as the hash is).
\<close>

definition row_ok :: "repo_env \<Rightarrow> McpInteraction \<Rightarrow> bool" where
  "row_ok E r \<longleftrightarrow> 0 < ia_revision r \<and> ia_round_count r = ia_revision r \<and>
     (ia_round_count r \<le> env_max_rounds E) \<and> 0 \<le> ia_credential_generation r \<and>
     (ia_output_schema_digest r = None \<longleftrightarrow> ia_output_schema r = None) \<and>
     ia_effect r \<noteq> SIDE_EFFECT \<and> ia_replay_mode r \<in> replay_modes"

definition job_ok :: "McpInteractionResumeJob \<Rightarrow> bool" where
  "job_ok j \<longleftrightarrow> 0 < jb_revision j \<and> 0 \<le> jb_attempt j \<and>
     (if jb_state j = JobLeased
      then jb_lease_owner j \<noteq> None \<and> jb_lease_until j \<noteq> None \<and> 1 \<le> jb_attempt j
      else jb_lease_owner j = None \<and> jb_lease_until j = None)"

definition round_match :: "McpInteraction \<Rightarrow> McpInteractionResumeJob \<Rightarrow> bool" where
  "round_match r j \<longleftrightarrow>
     (if jb_revision j < ia_revision r then jb_state j \<in> {JobSucceeded, JobTerminalFailed}
      else case jb_state j of
             JobReady \<Rightarrow> ia_state r = ResponseReady
           | JobLeased \<Rightarrow> ia_state r = Resuming
           | JobSucceeded \<Rightarrow> ia_state r \<in> {RowCompleted, Declined, RowCancelled}
           | JobTerminalFailed \<Rightarrow> ia_state r \<in> {RowFailed, RowExpired})"

definition once_ok :: "McpInteraction \<Rightarrow> McpInteractionResumeJob \<Rightarrow> bool" where
  "once_ok r j \<longleftrightarrow> ia_replay_mode r \<noteq> ''reusable'' \<longrightarrow>
     jb_attempt j \<le> 1 \<and> (jb_state j = JobReady \<longrightarrow> jb_attempt j = 0)"

definition pair_ok :: "McpInteraction \<Rightarrow> McpInteractionResumeJob \<Rightarrow> bool" where
  "pair_ok r j \<longleftrightarrow> ia_id r = jb_interaction_id j \<and> ia_tenant_id r = jb_tenant_id j \<and>
     jb_revision j \<le> ia_revision r \<and> round_match r j \<and> once_ok r j"

definition has_its_job :: "McpInteractionResumeJob list \<Rightarrow> McpInteraction \<Rightarrow> bool" where
  "has_its_job js r \<longleftrightarrow>
     (ia_state r \<notin> {AwaitingInput, RowExpired} \<longrightarrow>
        (\<exists>j \<in> set js. jb_interaction_id j = ia_id r \<and> jb_revision j = ia_revision r)) \<and>
     (ia_state r = AwaitingInput \<longrightarrow>
        (\<forall>j \<in> set js. jb_interaction_id j = ia_id r \<longrightarrow> jb_revision j < ia_revision r))"

abbreviation round_of :: "McpInteractionResumeJob \<Rightarrow> string \<times> int" where
  "round_of j \<equiv> (jb_interaction_id j, jb_revision j)"

definition mcp_inv :: "repo_env \<Rightarrow> mcp_db \<Rightarrow> bool" where
  "mcp_inv E db \<longleftrightarrow>
     distinct (map ia_id (interactions db)) \<and> distinct (map jb_id (resume_jobs db)) \<and>
     distinct (map round_of (resume_jobs db)) \<and>
     (\<forall>r \<in> set (interactions db). row_ok E r \<and> has_its_job (resume_jobs db) r) \<and>
     (\<forall>j \<in> set (resume_jobs db). job_ok j \<and> (\<exists>r \<in> set (interactions db). pair_ok r j))"

lemma mcp_invD:
  assumes "mcp_inv E db"
  shows "distinct (map ia_id (interactions db))" "distinct (map jb_id (resume_jobs db))"
    "distinct (map round_of (resume_jobs db))"
    "r \<in> set (interactions db) \<Longrightarrow> row_ok E r"
    "r \<in> set (interactions db) \<Longrightarrow> has_its_job (resume_jobs db) r"
    "j \<in> set (resume_jobs db) \<Longrightarrow> job_ok j"
    "j \<in> set (resume_jobs db) \<Longrightarrow> \<exists>r \<in> set (interactions db). pair_ok r j"
  using assms by (auto simp: mcp_inv_def)

lemma mcp_inv_pair:
  assumes "mcp_inv E db" "r \<in> set (interactions db)" "j \<in> set (resume_jobs db)"
    "jb_interaction_id j = ia_id r"
  shows "pair_ok r j"
proof -
  obtain r' where r': "r' \<in> set (interactions db)" "pair_ok r' j"
    using mcp_invD(7) [OF assms(1,3)] by blast
  then have "r' = r"
    using assms(2,4) distinct_key_eq [OF mcp_invD(1) [OF assms(1)]] by (simp add: pair_ok_def)
  with r' show ?thesis by simp
qed

lemma locked_interaction_Some:
  "locked_interaction db i t = Some r \<Longrightarrow> r \<in> set (interactions db) \<and> ia_id r = i \<and> ia_tenant_id r = t"
  by (auto simp: locked_interaction_def dest: row_by_Some_mem split: option.splits if_splits)

text \<open>What a transaction does to a leased or ready round: it rewrites the row and its job. The
  row either stays in its round, with a job in the matching state, or moves to the next round
  and leaves a settled job behind.\<close>

definition round_moves :: "McpInteraction \<Rightarrow> McpInteraction \<Rightarrow> McpInteractionResumeJob \<Rightarrow> bool" where
  "round_moves r r' j' \<longleftrightarrow>
     (ia_revision r' = ia_revision r \<and> ia_state r' \<noteq> AwaitingInput \<and> round_match r' j') \<or>
     (ia_revision r' = ia_revision r + 1 \<and> ia_state r' = AwaitingInput \<and>
        jb_state j' \<in> {JobSucceeded, JobTerminalFailed})"

lemma mcp_inv_move:
  assumes inv: "mcp_inv E db"
    and r: "r \<in> set (interactions db)" and j: "j \<in> set (resume_jobs db)"
    and same: "jb_interaction_id j = ia_id r" "jb_revision j = ia_revision r"
    and r': "ia_id r' = ia_id r" "ia_tenant_id r' = ia_tenant_id r"
      "ia_replay_mode r' = ia_replay_mode r" "row_ok E r'"
    and j': "jb_id j' = jb_id j" "round_of j' = round_of j" "jb_tenant_id j' = jb_tenant_id j"
      "job_ok j'" "once_ok r' j'"
    and moves: "round_moves r r' j'"
  shows "mcp_inv E (put_job j' (put_interaction r' db))"
proof -
  let ?rs = "put_row ia_id r' (interactions db)" and ?js = "put_row jb_id j' (resume_jobs db)"
  note D = mcp_invD [OF inv]
  have own: "x = j" if "x \<in> set (resume_jobs db)" "jb_id x = jb_id j'" for x
    using distinct_key_eq [OF D(2)] that j j'(1) by metis
  have rounds: "map round_of ?js = map round_of (resume_jobs db)"
    by (rule map_put_row) (use own j'(2) in auto)
  have pairs: "pair_ok r j" using mcp_inv_pair [OF inv r j same(1)] .
  have pair': "pair_ok r' j'"
    using moves pairs r' j' same by (auto simp: pair_ok_def round_moves_def round_match_def)
  have other: "\<exists>s \<in> set ?rs. pair_ok s x" if x: "x \<in> set (resume_jobs db)" "jb_id x \<noteq> jb_id j'" for x
  proof -
    obtain s where s: "s \<in> set (interactions db)" "pair_ok s x" using D(7) [OF x(1)] by blast
    show ?thesis
    proof (cases "ia_id s = ia_id r'")
      case False
      with s show ?thesis using mem_put_row_other by metis
    next
      case True
      then have "s = r" using s(1) r r'(1) distinct_key_eq [OF D(1)] by metis
      have "round_of x \<noteq> round_of j"
        using distinct_key_eq [OF D(3) x(1) j] x(2) j'(1) by auto
      with s(2) \<open>s = r\<close> same have lt: "jb_revision x < ia_revision r"
        by (auto simp: pair_ok_def)
      have "ia_revision r \<le> ia_revision r'" using moves by (auto simp: round_moves_def)
      with lt s(2) \<open>s = r\<close> r' have "pair_ok r' x"
        by (auto simp: pair_ok_def round_match_def once_ok_def)
      then show ?thesis using mem_put_row [OF r, of ia_id r'] r'(1) by auto
    qed
  qed
  have jobs': "job_ok x \<and> (\<exists>s \<in> set ?rs. pair_ok s x)" if "x \<in> set ?js" for x
    using set_put_row [OF that] j'(4) pair' D(6) other mem_put_row [OF r, of ia_id r'] r'(1) by auto
  have rows': "row_ok E s \<and> has_its_job ?js s" if s: "s \<in> set ?rs" for s
  proof (cases "s = r'")
    case True
    have "has_its_job ?js r'"
      unfolding has_its_job_def
    proof (intro conjI impI ballI)
      assume "ia_state r' \<notin> {AwaitingInput, RowExpired}"
      then have "ia_revision r' = ia_revision r" using moves by (auto simp: round_moves_def)
      then show "\<exists>x \<in> set ?js. jb_interaction_id x = ia_id r' \<and> jb_revision x = ia_revision r'"
        using mem_put_row [OF j, of jb_id j'] j'(1,2) same r'(1) by auto
    next
      fix x assume st: "ia_state r' = AwaitingInput" and x: "x \<in> set ?js" "jb_interaction_id x = ia_id r'"
      have "ia_revision r' = ia_revision r + 1" using moves st by (auto simp: round_moves_def)
      moreover have "jb_revision x \<le> ia_revision r"
        using set_put_row [OF x(1)] x(2) same j'(2) r'(1) mcp_inv_pair [OF inv r] by (auto simp: pair_ok_def)
      ultimately show "jb_revision x < ia_revision r'" by simp
    qed
    with True r'(4) show ?thesis by simp
  next
    case False
    then have old: "s \<in> set (interactions db)" "ia_id s \<noteq> ia_id r'" using set_put_row [OF s] by auto
    have "has_its_job (resume_jobs db) s" using D(5) [OF old(1)] .
    moreover have "\<exists>y \<in> set ?js. round_of y = round_of x" if "x \<in> set (resume_jobs db)" for x
      using rounds that by (metis (mono_tags, lifting) image_iff list.set_map)
    moreover have "\<exists>y \<in> set (resume_jobs db). round_of y = round_of x" if "x \<in> set ?js" for x
      using rounds that by (metis (mono_tags, lifting) image_iff list.set_map)
    ultimately have "has_its_job ?js s" unfolding has_its_job_def by (metis (no_types, lifting) prod.inject)
    with D(4) [OF old(1)] show ?thesis by simp
  qed
  have "distinct (map ia_id ?rs)" "distinct (map jb_id ?js)" "distinct (map round_of ?js)"
    using D(1-3) rounds by simp_all
  with rows' jobs' show ?thesis by (simp add: mcp_inv_def put_job_def put_interaction_def)
qed

section \<open>Every transaction keeps the invariant\<close>

lemmas lift_simps = liftS_def liftC_def liftK_def

lemma encrypt_output_schema_None:
  "encrypt_output_schema E nonce t i n s = Inr e \<Longrightarrow> e = None \<longleftrightarrow> s = None"
  by (auto simp: encrypt_output_schema_def result_simps split: option.splits)

lemma row_ok_state [simp]:
  "row_ok E (r\<lparr>ia_state := st, ia_updated_at := t\<rparr>) = row_ok E r"
  by (simp add: row_ok_def)

lemma create_inv:
  assumes inv: "mcp_inv E db" and req: "request_valid request" and max: "0 < env_max_rounds E"
    and step: "create_interaction E nonce new_id now request reqs schema db = Inr (db', receipt)"
  shows "mcp_inv E db'"
proof -
  obtain row where fresh: "rows db new_id = None" and db': "db' = db\<lparr>interactions := interactions db @ [row]\<rparr>"
    and row: "ia_id row = new_id" "ia_state row = AwaitingInput" "row_ok E row"
    using step req max
    by (auto simp: create_interaction_def Let_def result_simps row_ok_def request_valid_def
        output_schema_digest_def dest!: encrypt_output_schema_None split: if_splits)
  note D = mcp_invD [OF inv]
  have "new_id \<notin> ia_id ` set (interactions db)" using fresh by (simp add: row_by_None_iff)
  moreover from this have "jb_interaction_id j \<noteq> new_id" if "j \<in> set (resume_jobs db)" for j
    using D(7) [OF that] by (force simp: pair_ok_def)
  ultimately show ?thesis
    using inv row by (auto simp: mcp_inv_def db' has_its_job_def)
qed

lemma advance_guard_Inr:
  assumes "advance_guard E now request schema db = Inr (row, job)"
  obtains fence where "rq_lease_fence request = Some fence" "jobs db (fence_job_id fence) = Some job"
    "row \<in> set (interactions db)" "job \<in> set (resume_jobs db)"
    "jb_interaction_id job = ia_id row" "jb_revision job = ia_revision row"
    "fence_holds job (fence_owner fence) (fence_attempt fence) now"
    "ia_state row = Resuming" "now < ia_expires_at row" "ia_round_count row < env_max_rounds E"
    "same_binding (env_platform E) row request schema" "ia_tenant_id row = rq_tenant_id request"
    "rq_interaction_id request = Some (ia_id row)" "rq_previous_revision request = Some (ia_revision row)"
proof -
  from assms obtain fence where f: "rq_lease_fence request = Some fence"
    by (auto simp: advance_guard_def split: option.splits)
  with assms obtain job' where j: "jobs db (fence_job_id fence) = Some job'"
    by (cases "jobs db (fence_job_id fence)") (simp_all add: advance_guard_def)
  with assms f obtain row' where
    r: "locked_interaction db (the (rq_interaction_id request)) (rq_tenant_id request) = Some row'"
    by (cases "locked_interaction db (the (rq_interaction_id request)) (rq_tenant_id request)")
      (simp_all add: advance_guard_def)
  have eqs: "row' = row" "job' = job" using assms f j r
    by (auto simp: advance_guard_def split: if_splits)
  have conds: "Some (jb_interaction_id job) = rq_interaction_id request"
    "Some (jb_revision job) = rq_previous_revision request"
    "fence_holds job (fence_owner fence) (fence_attempt fence) now"
    "ia_state row = Resuming" "Some (ia_revision row) = rq_previous_revision request"
    "now < ia_expires_at row" "ia_round_count row < env_max_rounds E"
    "same_binding (env_platform E) row request schema"
    using assms f j r eqs by (auto simp: advance_guard_def split: if_splits)
  have "rq_interaction_id request = Some (ia_id row)" "jb_interaction_id job = ia_id row"
    using conds(1) [symmetric] locked_interaction_Some [OF r] eqs by simp_all
  moreover have "jb_revision job = ia_revision row" using conds(2,5) by (metis option.inject)
  ultimately show ?thesis
    using that [OF f] conds j r eqs locked_interaction_Some [OF r] row_by_Some_mem [OF j] by simp
qed

lemma job_ok_settled:
  "job_ok j \<Longrightarrow> job_ok (succeed_job j now)" "job_ok j \<Longrightarrow> job_ok (terminal_job j now c)"
  by (auto simp: job_ok_def succeed_job_def terminal_job_def)

lemma once_ok_settled:
  "once_ok r j \<Longrightarrow> ia_replay_mode r' = ia_replay_mode r \<Longrightarrow> once_ok r' (succeed_job j now)"
  "once_ok r j \<Longrightarrow> ia_replay_mode r' = ia_replay_mode r \<Longrightarrow> once_ok r' (terminal_job j now c)"
  by (auto simp: once_ok_def succeed_job_def terminal_job_def)

lemma settled_frame [simp]:
  "jb_id (succeed_job j now) = jb_id j" "round_of (succeed_job j now) = round_of j"
  "jb_tenant_id (succeed_job j now) = jb_tenant_id j" "jb_state (succeed_job j now) = JobSucceeded"
  "jb_id (terminal_job j now c) = jb_id j" "round_of (terminal_job j now c) = round_of j"
  "jb_tenant_id (terminal_job j now c) = jb_tenant_id j"
  "jb_state (terminal_job j now c) = JobTerminalFailed"
  by (simp_all add: succeed_job_def terminal_job_def)

lemma advance_inv:
  assumes inv: "mcp_inv E db" and req: "request_valid request"
    and step: "advance_interaction E nonce now request reqs schema db = Inr (db', receipt)"
  shows "mcp_inv E db'"
proof -
  obtain row job where g: "advance_guard E now request schema db = Inr (row, job)"
    using step by (auto simp: advance_interaction_def bindE_eq_Inr)
  obtain row' where db': "db' = put_job (succeed_job job now) (put_interaction row' db)"
    and row': "ia_id row' = ia_id row" "ia_tenant_id row' = ia_tenant_id row"
      "ia_replay_mode row' = ia_replay_mode row" "ia_effect row' = ia_effect row"
      "ia_state row' = AwaitingInput" "ia_revision row' = ia_revision row + 1"
      "ia_round_count row' = ia_round_count row + 1"
      "ia_credential_generation row' = rq_credential_generation request"
      "ia_output_schema_digest row' = None \<longleftrightarrow> ia_output_schema row' = None"
    using step g
    by (auto simp: advance_interaction_def Let_def result_simps output_schema_digest_def
        dest!: encrypt_output_schema_None split: if_splits)
  from g show ?thesis
  proof (cases rule: advance_guard_Inr)
    case (1 fence)
    note D = mcp_invD [OF inv]
    have ok: "row_ok E row'"
      using D(4) [OF 1(3)] row' 1(10) req by (auto simp: row_ok_def request_valid_def)
    have "once_ok row job" using mcp_inv_pair [OF inv 1(3-5)] by (simp add: pair_ok_def)
    then show ?thesis unfolding db'
      by (intro mcp_inv_move [OF inv 1(3-6)])
        (use row' ok D(6) [OF 1(4)] in \<open>auto simp: round_moves_def job_ok_settled once_ok_settled\<close>)
  qed
qed

lemma pause_inv:
  assumes "mcp_inv E db" "request_valid request" "0 < env_max_rounds E"
    and "pause E nonce new_id now request db = Inr (db', receipt)"
  shows "mcp_inv E db'"
  using assms by (auto simp: pause_def result_simps split: if_splits
      intro: create_inv advance_inv)

lemma round_job_None: "round_job db i n = None \<longleftrightarrow> (\<forall>j \<in> set (resume_jobs db). round_of j \<noteq> (i, n))"
  by (auto simp: round_job_def find_None_iff)

lemma mcp_inv_put_row:
  assumes inv: "mcp_inv E db" and r: "r \<in> set (interactions db)"
    and r': "ia_id r' = ia_id r" "ia_tenant_id r' = ia_tenant_id r" "ia_replay_mode r' = ia_replay_mode r"
      "ia_revision r' = ia_revision r" "row_ok E r'"
    and js: "distinct (map jb_id js)" "distinct (map round_of js)"
      "set (resume_jobs db) \<subseteq> set js"
      "\<And>j. j \<in> set js \<Longrightarrow> j \<notin> set (resume_jobs db) \<Longrightarrow> job_ok j \<and> pair_ok r' j"
    and none: "\<And>j. j \<in> set (resume_jobs db) \<Longrightarrow> jb_interaction_id j = ia_id r \<Longrightarrow> jb_revision j < ia_revision r"
    and its: "has_its_job js r'"
  shows "mcp_inv E (put_interaction r' (db\<lparr>resume_jobs := js\<rparr>))"
proof -
  let ?rs = "put_row ia_id r' (interactions db)"
  note D = mcp_invD [OF inv]
  have in': "r' \<in> set ?rs" using mem_put_row [OF r, of ia_id r'] r'(1) by simp
  have jobs': "job_ok j \<and> (\<exists>s \<in> set ?rs. pair_ok s j)" if "j \<in> set js" for j
  proof (cases "j \<in> set (resume_jobs db)")
    case False
    with js(4) that in' show ?thesis by blast
  next
    case True
    obtain s where s: "s \<in> set (interactions db)" "pair_ok s j" using D(7) [OF True] by blast
    have "\<exists>s' \<in> set ?rs. pair_ok s' j"
    proof (cases "ia_id s = ia_id r'")
      case False
      with s show ?thesis using mem_put_row_other by metis
    next
      case id: True
      then have "s = r" using s(1) r r'(1) distinct_key_eq [OF D(1)] by metis
      with s(2) none [OF True] r' have "pair_ok r' j"
        by (auto simp: pair_ok_def round_match_def once_ok_def)
      with in' show ?thesis by blast
    qed
    with D(6) [OF True] show ?thesis by blast
  qed
  have rows': "row_ok E s \<and> has_its_job js s" if s: "s \<in> set ?rs" for s
  proof (cases "s = r'")
    case True
    with r'(5) its show ?thesis by simp
  next
    case False
    then have old: "s \<in> set (interactions db)" "ia_id s \<noteq> ia_id r'" using set_put_row [OF s] by auto
    have "jb_interaction_id j = ia_id s \<Longrightarrow> j \<in> set js \<Longrightarrow> j \<in> set (resume_jobs db)" for j
      using js(4) [of j] old(2) by (auto simp: pair_ok_def)
    with D(5) [OF old(1)] js(3) have "has_its_job js s" unfolding has_its_job_def by blast
    with D(4) [OF old(1)] show ?thesis by simp
  qed
  from D(1) js(1,2) rows' jobs' show ?thesis by (simp add: mcp_inv_def put_interaction_def)
qed

lemma record_response_inv:
  assumes inv: "mcp_inv E db" and r: "row \<in> set (interactions db)"
    and none: "round_job db (ia_id row) (ia_revision row) = None"
    and step: "record_response E nonce new_id now row digest resps db = Inr db'"
  shows "mcp_inv E db'"
proof -
  obtain job st where db': "db' = put_interaction (row\<lparr>ia_state := st, ia_updated_at := now\<rparr>)
      (db\<lparr>resume_jobs := resume_jobs db @ [job]\<rparr>)"
    and fresh: "jobs db new_id = None" and job: "jb_id job = new_id"
      "round_of job = (ia_id row, ia_revision row)" "jb_tenant_id job = ia_tenant_id row"
      "jb_attempt job = 0" "jb_lease_owner job = None" "jb_lease_until job = None"
    and match: "(st = ResponseReady \<and> jb_state job = JobReady) \<or>
      (st \<in> {Declined, RowCancelled} \<and> jb_state job = JobSucceeded)"
    using step
    by (auto simp: record_response_def response_terminal_state_def Let_def result_simps split: if_splits option.splits)
  note D = mcp_invD [OF inv]
  have lt: "jb_revision j < ia_revision row"
    if "j \<in> set (resume_jobs db)" "jb_interaction_id j = ia_id row" for j
    using mcp_inv_pair [OF inv r that] none that by (auto simp: round_job_None pair_ok_def order_less_le)
  have pos: "0 < ia_revision row" using D(4) [OF r] by (simp add: row_ok_def)
  show ?thesis unfolding db'
  proof (rule mcp_inv_put_row [OF inv r])
    show "row_ok E (row\<lparr>ia_state := st, ia_updated_at := now\<rparr>)"
      using D(4) [OF r] by (simp add: row_ok_def)
    show "distinct (map jb_id (resume_jobs db @ [job]))"
      using D(2) fresh job(1) by (auto simp: row_by_None_iff)
    show "distinct (map round_of (resume_jobs db @ [job]))"
      using D(3) none job(2) by (auto simp: round_job_None)
    show "has_its_job (resume_jobs db @ [job]) (row\<lparr>ia_state := st, ia_updated_at := now\<rparr>)"
      using match job(2) by (auto simp: has_its_job_def)
    show "job_ok j \<and> pair_ok (row\<lparr>ia_state := st, ia_updated_at := now\<rparr>) j"
      if "j \<in> set (resume_jobs db @ [job])" "j \<notin> set (resume_jobs db)" for j
      using that match job pos by (auto simp: job_ok_def pair_ok_def round_match_def once_ok_def)
  qed (use lt in auto)
qed

lemma submit_inv:
  assumes inv: "mcp_inv E db"
    and step: "submit_response E nonce new_id now actor i n key resps db = (res, db')"
  shows "mcp_inv E db'"
proof -
  have "mcp_inv E (put_interaction (row\<lparr>ia_state := RowExpired, ia_updated_at := now\<rparr>) db)"
    if r: "row \<in> set (interactions db)" and none: "round_job db (ia_id row) (ia_revision row) = None" for row
  proof -
    have lt: "jb_revision j < ia_revision row"
      if "j \<in> set (resume_jobs db)" "jb_interaction_id j = ia_id row" for j
      using mcp_inv_pair [OF inv r that] none that by (auto simp: round_job_None pair_ok_def order_less_le)
    have "mcp_inv E (put_interaction (row\<lparr>ia_state := RowExpired, ia_updated_at := now\<rparr>)
        (db\<lparr>resume_jobs := resume_jobs db\<rparr>))"
      by (rule mcp_inv_put_row [OF inv r])
        (use lt mcp_invD(2,3) [OF inv] mcp_invD(4) [OF inv r] in \<open>auto simp: has_its_job_def\<close>)
    then show ?thesis by simp
  qed
  with step inv record_response_inv [OF inv] show ?thesis
    by (auto simp: submit_response_def split: sum.splits option.splits if_splits
        dest!: locked_interaction_Some)
qed

lemma locked_lease_Inr:
  assumes "locked_lease now lease db = Inr (row, job)"
  shows "jobs db (ls_job_id lease) = Some job" "row \<in> set (interactions db)"
    "job \<in> set (resume_jobs db)" "jb_interaction_id job = ia_id row"
    "jb_revision job = ia_revision row" "fence_holds job (ls_owner lease) (ls_attempt lease) now"
    "ia_state row = Resuming" "now < ia_expires_at row"
proof -
  from assms obtain j where j: "jobs db (ls_job_id lease) = Some j"
    by (auto simp: locked_lease_def split: option.splits)
  with assms obtain r where r: "locked_interaction db (jb_interaction_id j) (jb_tenant_id j) = Some r"
    by (cases "locked_interaction db (jb_interaction_id j) (jb_tenant_id j)")
      (simp_all add: locked_lease_def)
  have eqs: "j = job" "r = row" using assms j r by (auto simp: locked_lease_def split: if_splits)
  show "jobs db (ls_job_id lease) = Some job" using j eqs by simp
  show "row \<in> set (interactions db)" "job \<in> set (resume_jobs db)" "jb_interaction_id job = ia_id row"
    using locked_interaction_Some [OF r] row_by_Some_mem [OF j] eqs by simp_all
  show "jb_revision job = ia_revision row" "fence_holds job (ls_owner lease) (ls_attempt lease) now"
    "ia_state row = Resuming" "now < ia_expires_at row"
    using assms j r eqs by (auto simp: locked_lease_def split: if_splits)
qed

text \<open>The four transactions of a lease holder rewrite the leased pair in the same way.\<close>

lemma holder_inv:
  assumes inv: "mcp_inv E db" and l: "locked_lease now lease db = Inr (row, job)"
    and row': "ia_id row' = ia_id row" "ia_tenant_id row' = ia_tenant_id row"
      "ia_replay_mode row' = ia_replay_mode row" "row_ok E row \<Longrightarrow> row_ok E row'"
      "ia_revision row' = ia_revision row" "ia_state row' \<noteq> AwaitingInput"
    and job': "jb_id job' = jb_id job" "round_of job' = round_of job" "jb_tenant_id job' = jb_tenant_id job"
      "job_ok job \<Longrightarrow> job_ok job'" "once_ok row job \<Longrightarrow> once_ok row' job'"
    and match: "round_match row' job'"
  shows "mcp_inv E (put_job job' (put_interaction row' db))"
proof -
  note L = locked_lease_Inr [OF l]
  have "pair_ok row job" using mcp_inv_pair [OF inv L(2,3,4)] .
  then show ?thesis
    by (intro mcp_inv_move [OF inv L(2,3,4,5)])
      (use row' job' match mcp_invD(4) [OF inv L(2)] mcp_invD(6) [OF inv L(3)]
        in \<open>simp_all add: round_moves_def pair_ok_def\<close>)
qed

lemma complete_inv:
  assumes inv: "mcp_inv E db" and step: "complete E nonce now1 now2 lease result db = Inr db'"
  shows "mcp_inv E db'"
proof -
  obtain row job e where l: "locked_lease now1 lease db = Inr (row, job)"
    and db': "db' = put_job (succeed_job job now2)
      (put_interaction (row\<lparr>ia_result := Some e, ia_state := RowCompleted, ia_updated_at := now2\<rparr>) db)"
    using step by (auto simp: complete_def bindE_eq_Inr)
  show ?thesis unfolding db'
    by (rule holder_inv [OF inv l])
      (auto simp: job_ok_settled once_ok_settled round_match_def locked_lease_Inr(5) [OF l] row_ok_def)
qed

lemma terminal_fail_inv:
  assumes inv: "mcp_inv E db" and step: "terminal_fail now1 now2 lease code db = Inr db'"
  shows "mcp_inv E db'"
proof -
  obtain row job where l: "locked_lease now1 lease db = Inr (row, job)"
    and db': "db' = put_job (terminal_job job now2 code)
      (put_interaction (row\<lparr>ia_state := RowFailed, ia_updated_at := now2\<rparr>) db)"
    using step by (auto simp: terminal_fail_def bindE_eq_Inr)
  show ?thesis unfolding db'
    by (rule holder_inv [OF inv l])
      (auto simp: job_ok_settled once_ok_settled round_match_def locked_lease_Inr(5) [OF l])
qed

lemma retry_inv:
  assumes inv: "mcp_inv E db" and step: "retry now1 now2 lease delay code db = Inr db'"
  shows "mcp_inv E db'"
proof -
  obtain row job where l: "locked_lease now1 lease db = Inr (row, job)"
    using step by (auto simp: retry_def bindE_eq_Inr)
  show ?thesis
  proof (cases "ia_effect row \<notin> {READ, PREPARE} \<or> ia_replay_mode row \<noteq> ''reusable''")
    case True
    then have db': "db' = put_job (terminal_job job now2 REMOTE_RESULT_UNKNOWN)
      (put_interaction (row\<lparr>ia_state := RowFailed, ia_updated_at := now2\<rparr>) db)"
      using step l by (simp add: retry_def)
    show ?thesis unfolding db'
      by (rule holder_inv [OF inv l])
        (auto simp: job_ok_settled once_ok_settled round_match_def locked_lease_Inr(5) [OF l])
  next
    case False
    then have db': "db' = put_job (job\<lparr>jb_state := JobReady, jb_lease_owner := None, jb_lease_until := None,
        jb_next_attempt_at := Some (now2 + seconds delay), jb_safe_error_code := Some code,
        jb_updated_at := now2\<rparr>)
      (put_interaction (row\<lparr>ia_state := ResponseReady, ia_updated_at := now2\<rparr>) db)"
      using step l by (auto simp: retry_def)
    show ?thesis unfolding db'
      by (rule holder_inv [OF inv l])
        (use False in \<open>auto simp: round_match_def locked_lease_Inr(5) [OF l] once_ok_def job_ok_def\<close>)
  qed
qed

lemma put_interaction_same:
  assumes "mcp_inv E db" "r \<in> set (interactions db)"
  shows "put_interaction r db = db"
proof -
  have "put_row ia_id r (interactions db) = interactions db"
    unfolding put_row_def
    by (rule map_idI) (use assms distinct_key_eq [OF mcp_invD(1) [OF assms(1)]] in auto)
  then show ?thesis by (simp add: put_interaction_def)
qed

lemma renew_inv:
  assumes inv: "mcp_inv E db" and step: "renew now1 now2 lease secs db = Inr db'"
  shows "mcp_inv E db'"
proof -
  obtain row job where l: "locked_lease now1 lease db = Inr (row, job)"
    and db': "db' = put_job (job\<lparr>jb_lease_until := Some (min (now2 + seconds secs) (ia_expires_at row)),
       jb_updated_at := now2\<rparr>) db"
    using step by (auto simp: renew_def bindE_eq_Inr split: if_splits)
  note L = locked_lease_Inr [OF l]
  have same: "put_job j db = put_job j (put_interaction row db)" for j
    using put_interaction_same [OF inv L(2)] by simp
  have "jb_state job = JobLeased" using L(6) by (simp add: fence_holds_def)
  then show ?thesis unfolding db' same
    by (intro holder_inv [OF inv l])
      (use L(5,7) in \<open>auto simp: round_match_def once_ok_def job_ok_def\<close>)
qed

lemma lease_one_inv:
  assumes inv: "mcp_inv E db" and j: "job \<in> set (resume_jobs db)"
    and st: "jb_state job \<in> {JobReady, JobLeased}"
    and step: "lease_one E owner secs now job db = Inr (db', lease)"
  shows "mcp_inv E db'"
proof -
  obtain row where r: "row \<in> set (interactions db)" and p: "pair_ok row job"
    using mcp_invD(7) [OF inv j] by blast
  have "rows db (ia_id row) = Some row" using row_by_distinct [OF mcp_invD(1) [OF inv] r] .
  then have look: "locked_interaction db (jb_interaction_id job) (jb_tenant_id job) = Some row"
    using p by (simp add: locked_interaction_def pair_ok_def)
  have rev: "jb_revision job = ia_revision row"
    using p st by (auto simp: pair_ok_def round_match_def split: if_splits)
  note ok = mcp_invD(6) [OF inv j] mcp_invD(4) [OF inv r]
  have once: "once_ok row job" using p by (simp add: pair_ok_def)
  have settle: "mcp_inv E (put_job (terminal_job job now c) (put_interaction (row\<lparr>ia_state := s, ia_updated_at := now\<rparr>) db))"
    if "s \<in> {RowFailed, RowExpired}" for c s
    by (rule mcp_inv_move [OF inv r j])
      (use that p rev ok once in \<open>auto simp: pair_ok_def round_moves_def round_match_def
        job_ok_settled once_ok_settled\<close>)
  have grant: "mcp_inv E (put_job (leased_job job owner secs now)
      (put_interaction (row\<lparr>ia_state := Resuming, ia_updated_at := now\<rparr>) db))"
    if "\<not> (jb_state job = JobLeased \<and> ia_replay_mode row \<noteq> ''reusable'')"
    by (rule mcp_inv_move [OF inv r j])
      (use that p rev ok once st in \<open>auto simp: pair_ok_def round_moves_def round_match_def
        job_ok_def once_ok_def leased_job_def\<close>)
  show ?thesis
    using step look rev settle grant
    by (auto simp: lease_one_def Let_def result_simps split: if_splits)
qed

lemma lease_one_jobs:
  assumes "lease_one E owner secs now job db = Inr (db', lease)"
  obtains job' where "jb_id job' = jb_id job" "resume_jobs db' = put_row jb_id job' (resume_jobs db)"
proof -
  have put: "resume_jobs (put_job j (put_interaction r db)) = put_row jb_id j (resume_jobs db)"
    "resume_jobs (put_job j db) = put_row jb_id j (resume_jobs db)" for j r
    by (simp_all add: put_job_def put_interaction_def)
  have key: "jb_id (terminal_job job now c) = jb_id job" "jb_id (leased_job job owner secs now) = jb_id job" for c
    by (simp_all add: terminal_job_def leased_job_def)
  from assms consider c where "resume_jobs db' = put_row jb_id (terminal_job job now c) (resume_jobs db)"
    | "resume_jobs db' = put_row jb_id (leased_job job owner secs now) (resume_jobs db)"
    by (auto simp: lease_one_def Let_def bindE_eq_Inr put split: option.splits if_splits)
  then show ?thesis using key that by metis
qed

lemma lease_one_others:
  assumes one: "lease_one E owner secs now job db = Inr (db', lease)"
    and "set js \<subseteq> set (resume_jobs db)" "jb_id job \<notin> jb_id ` set js"
  shows "set js \<subseteq> set (resume_jobs db')"
proof
  fix x assume x: "x \<in> set js"
  with assms(3) have "jb_id x \<noteq> jb_id job" by (metis imageI)
  with x assms(2) show "x \<in> set (resume_jobs db')"
    using mem_put_row_other lease_one_jobs [OF one] by (metis subset_iff)
qed

lemma lease_loop_inv:
  "mcp_inv E db \<Longrightarrow> set js \<subseteq> set (resume_jobs db) \<Longrightarrow> distinct (map jb_id js) \<Longrightarrow>
   \<forall>j \<in> set js. jb_state j \<in> {JobReady, JobLeased} \<Longrightarrow>
   lease_loop E owner secs clock n js db = Inr (db', leases) \<Longrightarrow> mcp_inv E db'"
proof (induction js arbitrary: db n leases)
  case Nil
  then show ?case by simp
next
  case (Cons j js)
  from Cons.prems(5) obtain db1 l1 ls where
    one: "lease_one E owner secs (clock n) j db = Inr (db1, l1)"
    and rest: "lease_loop E owner secs clock (Suc n) js db1 = Inr (db', ls)"
    by (auto simp: bindE_eq_Inr)
  have "mcp_inv E db1"
    using lease_one_inv [OF Cons.prems(1) _ _ one] Cons.prems(2,4) by simp
  moreover have "set js \<subseteq> set (resume_jobs db1)"
    using lease_one_others [OF one] Cons.prems(2,3) by auto
  ultimately show ?case using Cons.IH rest Cons.prems(3,4) by auto
qed

lemma candidates_ok:
  assumes "mcp_inv E db"
  shows "set (candidates t locked k db) \<subseteq> set (resume_jobs db)"
    "distinct (map jb_id (candidates t locked k db))"
    "\<forall>j \<in> set (candidates t locked k db). eligible t j"
proof -
  let ?all = "sort_key jb_created_at (filter (\<lambda>j. eligible t j \<and> \<not> locked (jb_id j)) (resume_jobs db))"
  have sub: "set (candidates t locked k db) \<subseteq> set ?all"
    unfolding candidates_def by (rule set_take_subset)
  then show "set (candidates t locked k db) \<subseteq> set (resume_jobs db)"
    "\<forall>j \<in> set (candidates t locked k db). eligible t j" by auto
  have "distinct (map jb_id (filter (\<lambda>j. eligible t j \<and> \<not> locked (jb_id j)) (resume_jobs db)))"
    using mcp_invD(2) [OF assms] by (simp add: distinct_map_filter)
  then have "distinct (map jb_id ?all)"
    by (simp add: distinct_map)
  then show "distinct (map jb_id (candidates t locked k db))"
    unfolding candidates_def take_map [symmetric] by (rule distinct_take)
qed

lemma eligible_state: "eligible t j \<Longrightarrow> jb_state j \<in> {JobReady, JobLeased}"
  by (auto simp: eligible_def)

lemma lease_ready_inv:
  assumes "mcp_inv E db" "lease_ready E clock locked owner secs limit db = Inr (db', leases)"
  shows "mcp_inv E db'"
  using assms lease_loop_inv [OF assms(1) candidates_ok(1,2) [OF assms(1)]]
    candidates_ok(3) [OF assms(1)] eligible_state
  by (fastforce simp: lease_ready_def split: if_splits)

section \<open>The store as a machine of transactions\<close>

text \<open>
  One committed transaction per step. A request is built, hence validated, before it is
  paused; the service commits a response that found its round expired (the row is marked)
  and rolls every other error back.
\<close>

datatype repo_op =
    OpPause "string \<Rightarrow> string" string int InteractionRequest
  | OpSubmit "string \<Rightarrow> string" string int Actor string int string pydict
  | OpLease "nat \<Rightarrow> int" "string \<Rightarrow> bool" string int int
  | OpComplete "string \<Rightarrow> string" int int InteractionLease json
  | OpFail int int InteractionLease InteractionErrorCode
  | OpRetry int int InteractionLease int InteractionErrorCode
  | OpRenew int int InteractionLease int

definition service_submit ::
  "repo_env \<Rightarrow> (string \<Rightarrow> string) \<Rightarrow> string \<Rightarrow> int \<Rightarrow> Actor \<Rightarrow> string \<Rightarrow> int \<Rightarrow> string \<Rightarrow> pydict
     \<Rightarrow> mcp_db \<Rightarrow> (RepoError + ResponseClaim) \<times> mcp_db" where
  "service_submit E nonce new_id now actor i n key responses db =
     (case submit_response E nonce new_id now actor i n key responses db of
        (Inr claim, db') \<Rightarrow> (Inr claim, db')
      | (Inl e, db') \<Rightarrow> if e = StateError EXPIRED then (Inl e, db') else (Inl e, db))"

fun repo_step :: "repo_env \<Rightarrow> mcp_db \<Rightarrow> repo_op \<Rightarrow> RepoError + mcp_db" where
  "repo_step E db (OpPause nonce new_id now request) =
     bindE (liftK (request_post_init (env_platform E) request)) (\<lambda>r.
     bindE (pause E nonce new_id now r db) (\<lambda>(db', _). Inr db'))"
| "repo_step E db (OpSubmit nonce new_id now actor i n key responses) =
     Inr (snd (service_submit E nonce new_id now actor i n key responses db))"
| "repo_step E db (OpLease clock locked owner secs limit) =
     bindE (lease_ready E clock locked owner secs limit db) (\<lambda>(db', _). Inr db')"
| "repo_step E db (OpComplete nonce now1 now2 lease result) =
     complete E nonce now1 now2 lease result db"
| "repo_step E db (OpFail now1 now2 lease code) = terminal_fail now1 now2 lease code db"
| "repo_step E db (OpRetry now1 now2 lease delay code) = retry now1 now2 lease delay code db"
| "repo_step E db (OpRenew now1 now2 lease secs) = renew now1 now2 lease secs db"

lemma request_post_init_valid:
  "request_post_init P r = Inr r' \<Longrightarrow> request_valid r'"
  by (auto simp: request_post_init_def request_valid_def round_binding_valid_def split: if_splits)

lemma service_submit_inv:
  "mcp_inv E db \<Longrightarrow> mcp_inv E (snd (service_submit E nonce new_id now actor i n key resps db))"
  by (auto simp: service_submit_def split: prod.splits sum.splits dest: submit_inv)

interpretation store: step_invariant "repo_step E" "\<lambda>db. mcp_inv E db \<and> 0 < env_max_rounds E" for E
proof unfold_locales
  fix db op db'
  assume "mcp_inv E db \<and> 0 < env_max_rounds E" and step: "repo_step E db op = Inr db'"
  then have inv: "mcp_inv E db" and max: "0 < env_max_rounds E" by auto
  show "mcp_inv E db' \<and> 0 < env_max_rounds E"
    using step max inv
    by (cases op)
      (auto simp: bindE_eq_Inr lift_simps split: sum.splits
        intro: pause_inv [OF inv request_post_init_valid max] lease_ready_inv complete_inv
          terminal_fail_inv retry_inv renew_inv service_submit_inv)
qed

definition empty_db :: mcp_db where
  "empty_db = \<lparr>interactions = [], resume_jobs = []\<rparr>"

lemma empty_inv [simp]: "mcp_inv E empty_db"
  by (simp add: mcp_inv_def empty_db_def)

end
