(* ===== verification/Mcp_Store.thy ===== *)
theory Mcp_Store
  imports Mcp_Interactions
begin

text \<open>
  What holds of the interaction store over whole histories of transactions
  (\<open>src/api/identity/mcp_interactions/repository.py\<close>). \<open>grows\<close> is the order in which the
  tables only ever move: no row disappears, the identity of a round is fixed, revisions and
  attempts do not go back, a lease once lost is not regained, and what is settled stays as it is.
\<close>

section \<open>The order of the store\<close>

definition row_settled :: "McpInteraction \<Rightarrow> bool" where
  "row_settled r \<longleftrightarrow> ia_state r \<in> {RowCompleted, Declined, RowCancelled, RowExpired, RowFailed}"

definition job_settled :: "McpInteractionResumeJob \<Rightarrow> bool" where
  "job_settled j \<longleftrightarrow> jb_state j \<in> {JobSucceeded, JobTerminalFailed}"

definition row_le :: "McpInteraction \<Rightarrow> McpInteraction \<Rightarrow> bool" where
  "row_le a b \<longleftrightarrow>
     ia_id b = ia_id a \<and> ia_tenant_id b = ia_tenant_id a \<and>
     ia_platform_user_id b = ia_platform_user_id a \<and>
     ia_external_identity_id b = ia_external_identity_id a \<and>
     ia_call_digest b = ia_call_digest a \<and> ia_effect b = ia_effect a \<and>
     ia_replay_mode b = ia_replay_mode a \<and> ia_revision a \<le> ia_revision b \<and>
     (row_settled a \<longrightarrow> b = a\<lparr>ia_updated_at := ia_updated_at b\<rparr>)"

definition job_le :: "McpInteractionResumeJob \<Rightarrow> McpInteractionResumeJob \<Rightarrow> bool" where
  "job_le a b \<longleftrightarrow>
     jb_id b = jb_id a \<and> round_of b = round_of a \<and> jb_tenant_id b = jb_tenant_id a \<and>
     jb_response_key b = jb_response_key a \<and> jb_input_response b = jb_input_response a \<and>
     (jb_attempt a < jb_attempt b \<or>
      jb_attempt a = jb_attempt b \<and> (jb_state a \<noteq> JobLeased \<longrightarrow> jb_state b \<noteq> JobLeased)) \<and>
     (job_settled a \<longrightarrow> b = a)"

definition grows :: "mcp_db \<Rightarrow> mcp_db \<Rightarrow> bool" where
  "grows db db' \<longleftrightarrow>
     (\<forall>a \<in> set (interactions db). \<exists>b \<in> set (interactions db'). row_le a b) \<and>
     (\<forall>a \<in> set (resume_jobs db). \<exists>b \<in> set (resume_jobs db'). job_le a b)"

lemma row_le_refl [simp]: "row_le a a"
  by (simp add: row_le_def)

lemma job_le_refl [simp]: "job_le a a"
  by (simp add: job_le_def)

lemma row_settled_touch [simp]: "row_settled (a\<lparr>ia_updated_at := t\<rparr>) = row_settled a"
  by (simp add: row_settled_def)

lemma row_le_settled: "row_le a b \<Longrightarrow> row_settled a \<Longrightarrow> row_settled b"
  unfolding row_le_def by (metis row_settled_touch)

lemma row_le_trans: "row_le a b \<Longrightarrow> row_le b c \<Longrightarrow> row_le a c"
proof -
  assume ab: "row_le a b" and bc: "row_le b c"
  have "c = a\<lparr>ia_updated_at := ia_updated_at c\<rparr>" if s: "row_settled a"
  proof -
    obtain t u where "b = a\<lparr>ia_updated_at := t\<rparr>" "c = b\<lparr>ia_updated_at := u\<rparr>"
      using ab bc s row_le_settled [OF ab s] unfolding row_le_def by blast
    then show ?thesis by simp
  qed
  with ab bc show ?thesis by (auto simp: row_le_def)
qed

lemma job_le_trans: "job_le a b \<Longrightarrow> job_le b c \<Longrightarrow> job_le a c"
  by (auto simp: job_le_def)

lemma grows_refl [simp]: "grows db db"
  by (auto simp: grows_def intro: row_le_refl job_le_refl)

lemma grows_trans: "grows a b \<Longrightarrow> grows b c \<Longrightarrow> grows a c"
  unfolding grows_def by (meson row_le_trans job_le_trans)

lemma grows_move:
  assumes inv: "mcp_inv E db" and r: "r \<in> set (interactions db)" and j: "j \<in> set (resume_jobs db)"
    and r': "row_le r r'" and j': "job_le j j'"
  shows "grows db (put_job j' (put_interaction r' db))"
proof -
  note D = mcp_invD [OF inv]
  have "\<exists>b \<in> set (put_row ia_id r' (interactions db)). row_le a b" if a: "a \<in> set (interactions db)" for a
  proof (cases "ia_id a = ia_id r'")
    case True
    then have "a = r" using r' a r distinct_key_eq [OF D(1)] by (metis row_le_def)
    then show ?thesis using r' mem_put_row [OF r, of ia_id r'] by (metis row_le_def)
  next
    case False
    then show ?thesis using mem_put_row_other [OF a] row_le_refl by metis
  qed
  moreover have "\<exists>b \<in> set (put_row jb_id j' (resume_jobs db)). job_le a b" if a: "a \<in> set (resume_jobs db)" for a
  proof (cases "jb_id a = jb_id j'")
    case True
    then have "a = j" using j' a j distinct_key_eq [OF D(2)] by (metis job_le_def)
    then show ?thesis using j' mem_put_row [OF j, of jb_id j'] by (metis job_le_def)
  next
    case False
    then show ?thesis using mem_put_row_other [OF a] job_le_refl by metis
  qed
  ultimately show ?thesis by (simp add: grows_def put_job_def put_interaction_def)
qed

lemma grows_more:
  assumes "\<And>a. a \<in> set (interactions db) \<Longrightarrow> \<exists>b \<in> set (interactions db'). row_le a b"
    and "set (resume_jobs db) \<subseteq> set (resume_jobs db')"
  shows "grows db db'"
  using assms job_le_refl unfolding grows_def by blast

lemma grows_supset:
  assumes "set (interactions db) \<subseteq> set (interactions db')" "set (resume_jobs db) \<subseteq> set (resume_jobs db')"
  shows "grows db db'"
  using assms row_le_refl job_le_refl unfolding grows_def by blast

lemma grows_put_interaction:
  assumes inv: "mcp_inv E db" and r: "r \<in> set (interactions db)" and r': "row_le r r'"
  shows "grows db (put_interaction r' (db\<lparr>resume_jobs := resume_jobs db @ js\<rparr>))"
proof (rule grows_more)
  fix a assume a: "a \<in> set (interactions db)"
  show "\<exists>b \<in> set (interactions (put_interaction r' (db\<lparr>resume_jobs := resume_jobs db @ js\<rparr>))). row_le a b"
  proof (cases "ia_id a = ia_id r'")
    case True
    then have "a = r" using r' a r distinct_key_eq [OF mcp_invD(1) [OF inv]] by (metis row_le_def)
    moreover have "r' \<in> set (put_row ia_id r' (interactions db))"
      using mem_put_row [OF r, of ia_id r'] r' by (simp add: row_le_def)
    ultimately show ?thesis using r' by (auto simp: put_interaction_def)
  next
    case False
    then have "a \<in> set (put_row ia_id r' (interactions db))" using mem_put_row_other [OF a] by metis
    then show ?thesis by (auto simp: put_interaction_def intro: bexI [of _ a])
  qed
qed (simp add: put_interaction_def)

section \<open>Every transaction moves the store forward\<close>

lemma pause_grows:
  assumes inv: "mcp_inv E db" and step: "pause E nonce new_id now request db = Inr (db', receipt)"
  shows "grows db db'"
proof -
  have "grows db db'" if "create_interaction E nonce new_id now request reqs schema db = Inr (db', receipt)"
    for reqs schema
    using that
    by (intro grows_supset) (auto simp: create_interaction_def Let_def result_simps split: if_splits)
  moreover have "grows db db'"
    if s: "advance_interaction E nonce now request reqs schema db = Inr (db', receipt)" for reqs schema
  proof -
    obtain row job where g: "advance_guard E now request schema db = Inr (row, job)"
      using s by (auto simp: advance_interaction_def bindE_eq_Inr)
    from g show ?thesis
    proof (cases rule: advance_guard_Inr)
      case (1 fence)
      have "job_le job (succeed_job job now)"
        using 1(7) by (simp add: job_le_def succeed_job_def job_settled_def fence_holds_def)
      moreover have "\<not> row_settled row" using 1(8) by (simp add: row_settled_def)
      ultimately show ?thesis
        using s g grows_move [OF inv 1(3,4)]
        by (auto simp: advance_interaction_def Let_def result_simps row_le_def split: if_splits)
    qed
  qed
  ultimately show ?thesis using step by (auto simp: pause_def result_simps split: if_splits)
qed

lemma submit_grows:
  assumes inv: "mcp_inv E db"
    and step: "submit_response E nonce new_id now actor i n key resps db = (res, db')"
  shows "grows db db'"
proof -
  have open_row: "row_le row (row\<lparr>ia_state := s, ia_updated_at := t\<rparr>)"
    if "row \<in> set (interactions db)" "round_job db (ia_id row) (ia_revision row) = None"
      "s = RowExpired \<or> ia_state row = AwaitingInput" for row s t
  proof -
    have "ia_state row \<in> {AwaitingInput, RowExpired}"
      using mcp_invD(5) [OF inv that(1)] that(2) by (auto simp: has_its_job_def round_job_None)
    with that(3) consider "\<not> row_settled row" | "ia_state row = s" by (auto simp: row_settled_def)
    then show ?thesis
    proof cases
      case 2
      then have "row\<lparr>ia_state := s\<rparr> = row" by (cases row) simp
      then show ?thesis by (simp add: row_le_def)
    qed (simp add: row_le_def)
  qed
  have expire: "grows db (put_interaction (row\<lparr>ia_state := RowExpired, ia_updated_at := now\<rparr>) db)"
    if "row \<in> set (interactions db)" "round_job db (ia_id row) (ia_revision row) = None" for row
    using grows_put_interaction [OF inv that(1) open_row [OF that], of RowExpired now "[]"] by simp
  have accept: "grows db db''"
    if "row \<in> set (interactions db)" "round_job db (ia_id row) (ia_revision row) = None"
      "ia_state row = AwaitingInput" "record_response E nonce new_id now row d resps db = Inr db''" for row d db''
    using that(4) grows_put_interaction [OF inv that(1) open_row [OF that(1,2)]] that(3)
    by (auto simp: record_response_def Let_def result_simps split: if_splits)
  show ?thesis
    using step expire accept
    by (auto simp: submit_response_def split: sum.splits option.splits if_splits
        dest!: locked_interaction_Some)
qed

lemma holder_grows:
  assumes inv: "mcp_inv E db" and l: "locked_lease now lease db = Inr (row, job)"
    and r': "ia_id row' = ia_id row" "ia_tenant_id row' = ia_tenant_id row"
      "ia_platform_user_id row' = ia_platform_user_id row"
      "ia_external_identity_id row' = ia_external_identity_id row"
      "ia_call_digest row' = ia_call_digest row" "ia_effect row' = ia_effect row"
      "ia_replay_mode row' = ia_replay_mode row" "ia_revision row' = ia_revision row"
    and j': "jb_id job' = jb_id job" "round_of job' = round_of job" "jb_tenant_id job' = jb_tenant_id job"
      "jb_response_key job' = jb_response_key job" "jb_input_response job' = jb_input_response job"
      "jb_attempt job' = jb_attempt job"
  shows "grows db (put_job job' (put_interaction row' db))"
proof (rule grows_move [OF inv])
  note L = locked_lease_Inr [OF l]
  show "row \<in> set (interactions db)" "job \<in> set (resume_jobs db)" using L by simp_all
  show "row_le row row'" using r' L(7) by (simp add: row_le_def row_settled_def)
  show "job_le job job'" using j' L(6) by (simp add: job_le_def job_settled_def fence_holds_def)
qed

lemma complete_grows:
  assumes "mcp_inv E db" "complete E nonce now1 now2 lease result db = Inr db'"
  shows "grows db db'"
  using assms by (auto simp: complete_def bindE_eq_Inr succeed_job_def intro!: holder_grows)

lemma terminal_fail_grows:
  assumes "mcp_inv E db" "terminal_fail now1 now2 lease code db = Inr db'"
  shows "grows db db'"
  using assms by (auto simp: terminal_fail_def bindE_eq_Inr terminal_job_def intro!: holder_grows)

lemma retry_grows:
  assumes "mcp_inv E db" "retry now1 now2 lease delay code db = Inr db'"
  shows "grows db db'"
  using assms
  by (auto simp: retry_def bindE_eq_Inr terminal_job_def intro!: holder_grows split: if_splits)

lemma renew_grows:
  assumes inv: "mcp_inv E db" and step: "renew now1 now2 lease secs db = Inr db'"
  shows "grows db db'"
proof -
  obtain row job where l: "locked_lease now1 lease db = Inr (row, job)"
    and db': "db' = put_job (job\<lparr>jb_lease_until := Some (min (now2 + seconds secs) (ia_expires_at row)),
       jb_updated_at := now2\<rparr>) (put_interaction row db)"
    using step put_interaction_same [OF inv] locked_lease_Inr(2)
    by (auto simp: renew_def bindE_eq_Inr split: if_splits)
  show ?thesis unfolding db' by (rule holder_grows [OF inv l]) simp_all
qed

lemma lease_one_grows:
  assumes inv: "mcp_inv E db" and j: "job \<in> set (resume_jobs db)"
    and st: "jb_state job \<in> {JobReady, JobLeased}"
    and step: "lease_one E owner secs now job db = Inr (db', lease)"
  shows "grows db db'"
proof -
  obtain row where r: "row \<in> set (interactions db)" and p: "pair_ok row job"
    using mcp_invD(7) [OF inv j] by blast
  have "rows db (ia_id row) = Some row" using row_by_distinct [OF mcp_invD(1) [OF inv] r] .
  then have look: "locked_interaction db (jb_interaction_id job) (jb_tenant_id job) = Some row"
    using p by (simp add: locked_interaction_def pair_ok_def)
  have rev: "jb_revision job = ia_revision row" and open_row: "\<not> row_settled row"
    using p st by (auto simp: pair_ok_def round_match_def row_settled_def split: if_splits)
  have row': "row_le row (row\<lparr>ia_state := s, ia_updated_at := now\<rparr>)" for s
    using open_row by (simp add: row_le_def)
  have "job_le job (terminal_job job now c)" "job_le job (leased_job job owner secs now)" for c
    using st by (auto simp: job_le_def job_settled_def terminal_job_def leased_job_def)
  note moves = this [THEN grows_move [OF inv r j row']]
  show ?thesis
    using step look rev moves by (auto simp: lease_one_def Let_def result_simps split: if_splits)
qed

lemma lease_loop_grows:
  "mcp_inv E db \<Longrightarrow> set js \<subseteq> set (resume_jobs db) \<Longrightarrow> distinct (map jb_id js) \<Longrightarrow>
   \<forall>j \<in> set js. jb_state j \<in> {JobReady, JobLeased} \<Longrightarrow>
   lease_loop E owner secs clock n js db = Inr (db', leases) \<Longrightarrow> grows db db'"
proof (induction js arbitrary: db n leases)
  case Nil
  then show ?case by simp
next
  case (Cons j js)
  from Cons.prems(5) obtain db1 l1 ls where
    one: "lease_one E owner secs (clock n) j db = Inr (db1, l1)"
    and rest: "lease_loop E owner secs clock (Suc n) js db1 = Inr (db', ls)"
    by (auto simp: bindE_eq_Inr)
  have "mcp_inv E db1" "grows db db1"
    using lease_one_inv [OF Cons.prems(1) _ _ one] lease_one_grows [OF Cons.prems(1) _ _ one]
      Cons.prems(2,4) by simp_all
  moreover have "set js \<subseteq> set (resume_jobs db1)"
    using lease_one_others [OF one] Cons.prems(2,3) by auto
  ultimately show ?case using Cons.IH rest Cons.prems(3,4) grows_trans by auto
qed

lemma lease_ready_grows:
  assumes "mcp_inv E db" "lease_ready E clock locked owner secs limit db = Inr (db', leases)"
  shows "grows db db'"
  using assms lease_loop_grows [OF assms(1) candidates_ok(1,2) [OF assms(1)]]
    candidates_ok(3) [OF assms(1)] eligible_state
  by (fastforce simp: lease_ready_def split: if_splits)

lemma service_submit_grows:
  "mcp_inv E db \<Longrightarrow> grows db (snd (service_submit E nonce new_id now actor i n key resps db))"
  by (auto simp: service_submit_def split: prod.splits sum.splits dest: submit_grows)

definition store_le :: "repo_env \<Rightarrow> mcp_db \<Rightarrow> mcp_db \<Rightarrow> bool" where
  "store_le E db db' \<longleftrightarrow>
     (mcp_inv E db \<and> 0 < env_max_rounds E \<longrightarrow> mcp_inv E db' \<and> 0 < env_max_rounds E \<and> grows db db')"

interpretation store_order: step_monotone "repo_step E" "store_le E" for E
proof unfold_locales
  fix db op db' assume step: "repo_step E db op = Inr db'"
  have "grows db db'" if inv: "mcp_inv E db"
    using step inv
    by (cases op)
      (auto simp: bindE_eq_Inr lift_simps split: sum.splits
        intro: pause_grows lease_ready_grows complete_grows
          terminal_fail_grows retry_grows renew_grows service_submit_grows)
  with store.step_inv [OF _ step] show "store_le E db db'" by (auto simp: store_le_def)
qed (auto simp: store_le_def intro: grows_trans)

text \<open>What a history of transactions leaves of a reachable store.\<close>

abbreviation history :: "repo_env \<Rightarrow> mcp_db \<Rightarrow> repo_op list \<Rightarrow> mcp_db" where
  "history E \<equiv> try_steps (repo_step E)"

lemma history_grows:
  assumes "mcp_inv E db" "0 < env_max_rounds E"
  shows "mcp_inv E (history E db ops)" "grows db (history E db ops)"
  using store_order.try_steps_le [of E db ops] assms by (simp_all add: store_le_def)

lemma history_job:
  assumes "mcp_inv E db" "0 < env_max_rounds E" "jobs db i = Some job"
  obtains job' where "jobs (history E db ops) i = Some job'" "job_le job job'"
proof -
  have job: "job \<in> set (resume_jobs db)" "jb_id job = i" using row_by_Some_mem [OF assms(3)] by auto
  obtain job' where j: "job' \<in> set (resume_jobs (history E db ops))" "job_le job job'"
    using history_grows(2) [OF assms(1,2), of ops] job unfolding grows_def by blast
  then have "jb_id job' = i" using job by (simp add: job_le_def)
  with j row_by_distinct [OF mcp_invD(2) [OF history_grows(1) [OF assms(1,2), of ops]]] that
  show ?thesis by blast
qed

lemma history_row:
  assumes "mcp_inv E db" "0 < env_max_rounds E" "rows db i = Some row"
  obtains row' where "rows (history E db ops) i = Some row'" "row_le row row'"
proof -
  have row: "row \<in> set (interactions db)" "ia_id row = i" using row_by_Some_mem [OF assms(3)] by auto
  obtain row' where r: "row' \<in> set (interactions (history E db ops))" "row_le row row'"
    using history_grows(2) [OF assms(1,2), of ops] row unfolding grows_def by blast
  then have "ia_id row' = i" using row by (simp add: row_le_def)
  with r row_by_distinct [OF mcp_invD(1) [OF history_grows(1) [OF assms(1,2), of ops]]] that
  show ?thesis by blast
qed

section \<open>Leases that were lost\<close>

text \<open>A holder's lease is lost once its job was leased again or is no longer leased.\<close>

definition lease_lost :: "InteractionLease \<Rightarrow> mcp_db \<Rightarrow> bool" where
  "lease_lost lease db \<longleftrightarrow>
     (case jobs db (ls_job_id lease) of
        None \<Rightarrow> False
      | Some job \<Rightarrow> ls_attempt lease < jb_attempt job \<or>
          ls_attempt lease = jb_attempt job \<and> jb_state job \<noteq> JobLeased)"

lemma lease_lost_stable:
  assumes "mcp_inv E db" "0 < env_max_rounds E" "lease_lost lease db"
  shows "lease_lost lease (history E db ops)"
proof -
  obtain job where job: "jobs db (ls_job_id lease) = Some job"
    using assms(3) by (auto simp: lease_lost_def split: option.splits)
  obtain job' where "jobs (history E db ops) (ls_job_id lease) = Some job'" "job_le job job'"
    by (rule history_job [OF assms(1,2) job])
  with job assms(3) show ?thesis by (auto simp: lease_lost_def job_le_def)
qed

lemma lease_lost_locked:
  assumes "lease_lost lease db"
  shows "locked_lease now lease db = Inl (StateError STATE_CONFLICT)"
  using assms
  by (auto simp: lease_lost_def locked_lease_def fence_holds_def split: option.splits)

lemma jobs_after_put:
  "jobs (put_job j (put_interaction r db)) i =
     (if i = jb_id j \<and> jobs db i \<noteq> None then Some j else jobs db i)"
  by (simp add: put_job_def put_interaction_def row_by_put_row)

lemma settled_lost:
  assumes "locked_lease now lease db = Inr (row, job)" "jb_id job' = jb_id job"
    "jb_attempt job' = jb_attempt job" "jb_state job' \<noteq> JobLeased"
  shows "lease_lost lease (put_job job' (put_interaction row' db))"
proof -
  note L = locked_lease_Inr [OF assms(1)]
  have "jb_id job = ls_job_id lease" using row_by_Some_mem [OF L(1)] by simp
  moreover have "jb_attempt job = ls_attempt lease" using L(6) by (simp add: fence_holds_def)
  ultimately show ?thesis using L(1) assms(2-4) by (simp add: lease_lost_def jobs_after_put)
qed

lemma settle_loses_lease:
  "complete E nonce now1 now2 lease v db = Inr db' \<Longrightarrow> lease_lost lease db'"
  "terminal_fail now1 now2 lease c db = Inr db' \<Longrightarrow> lease_lost lease db'"
  "retry now1 now2 lease delay c db = Inr db' \<Longrightarrow> lease_lost lease db'"
  by (auto simp: complete_def terminal_fail_def retry_def bindE_eq_Inr succeed_job_def terminal_job_def
      intro!: settled_lost split: if_splits)

section \<open>Leases that were granted\<close>

lemma liftK_eq_Inr [simp]: "liftK m = Inr x \<longleftrightarrow> m = Inr x"
  by (simp add: liftK_def split: sum.splits)

lemma make_lease_Inr:
  "make_lease i owner a resume = Inr l \<Longrightarrow> ls_job_id l = i \<and> ls_attempt l = a"
  by (auto simp: make_lease_def bindE_eq_Inr split: if_splits)

lemma leased_frame [simp]:
  "jb_id (leased_job job owner secs now) = jb_id job"
  "jb_attempt (leased_job job owner secs now) = jb_attempt job + 1"
  by (simp_all add: leased_job_def)

lemma lease_one_grant:
  assumes "lease_one E owner secs now job db = Inr (db', Some l)"
  shows "ls_job_id l = jb_id job" "ls_attempt l = jb_attempt job + 1"
    "\<exists>r. db' = put_job (leased_job job owner secs now) (put_interaction r db)"
proof -
  have "ls_job_id l = jb_id job \<and> ls_attempt l = jb_attempt job + 1 \<and>
    (\<exists>r. db' = put_job (leased_job job owner secs now) (put_interaction r db))"
    using assms
    by (auto simp: lease_one_def Let_def bindE_eq_Inr dest!: make_lease_Inr split: option.splits if_splits)
  then show "ls_job_id l = jb_id job" "ls_attempt l = jb_attempt job + 1"
    "\<exists>r. db' = put_job (leased_job job owner secs now) (put_interaction r db)" by blast+
qed

lemma lease_loop_others:
  "lease_loop E owner secs clock n js db = Inr (db', leases) \<Longrightarrow> i \<notin> jb_id ` set js \<Longrightarrow>
   jobs db' i = jobs db i \<and> i \<notin> ls_job_id ` set leases"
proof (induction js arbitrary: db n leases)
  case Nil
  then show ?case by simp
next
  case (Cons j js)
  from Cons.prems obtain db1 l1 ls where
    one: "lease_one E owner secs (clock n) j db = Inr (db1, l1)"
    and rest: "lease_loop E owner secs clock (Suc n) js db1 = Inr (db', ls)"
    and leases: "leases = (case l1 of None \<Rightarrow> ls | Some l \<Rightarrow> l # ls)"
    by (auto simp: bindE_eq_Inr)
  obtain j' where "jb_id j' = jb_id j" "resume_jobs db1 = put_row jb_id j' (resume_jobs db)"
    by (rule lease_one_jobs [OF one])
  with Cons.prems(2) have "jobs db1 i = jobs db i" by simp
  moreover have "ls_job_id l = jb_id j" if "l1 = Some l" for l
    using lease_one_grant(1) one that by blast
  ultimately show ?case
    using Cons.IH [OF rest] Cons.prems(2) leases by (auto split: option.splits)
qed

lemma lease_loop_grants:
  "mcp_inv E db \<Longrightarrow> set js \<subseteq> set (resume_jobs db) \<Longrightarrow> distinct (map jb_id js) \<Longrightarrow>
   \<forall>j \<in> set js. jb_state j \<in> {JobReady, JobLeased} \<Longrightarrow>
   lease_loop E owner secs clock n js db = Inr (db', leases) \<Longrightarrow> l \<in> set leases \<Longrightarrow>
   \<exists>job job'. jobs db (ls_job_id l) = Some job \<and> jobs db' (ls_job_id l) = Some job' \<and>
     ls_attempt l = jb_attempt job + 1 \<and> jb_attempt job' = ls_attempt l"
proof (induction js arbitrary: db n leases)
  case Nil
  then show ?case by simp
next
  case (Cons j js)
  from Cons.prems(5) obtain db1 l1 ls where
    one: "lease_one E owner secs (clock n) j db = Inr (db1, l1)"
    and rest: "lease_loop E owner secs clock (Suc n) js db1 = Inr (db', ls)"
    and leases: "leases = (case l1 of None \<Rightarrow> ls | Some x \<Rightarrow> x # ls)"
    by (auto simp: bindE_eq_Inr)
  have j: "jobs db (jb_id j) = Some j"
    using row_by_distinct [OF mcp_invD(2) [OF Cons.prems(1)]] Cons.prems(2) by simp
  have inv1: "mcp_inv E db1" using lease_one_inv [OF Cons.prems(1) _ _ one] Cons.prems(2,4) by simp
  have sub1: "set js \<subseteq> set (resume_jobs db1)"
    using lease_one_others [OF one] Cons.prems(2,3) by auto
  have out: "jb_id j \<notin> jb_id ` set js" using Cons.prems(3) by simp
  show ?case
  proof (cases "l \<in> set ls")
    case True
    obtain j' where j': "jb_id j' = jb_id j" "resume_jobs db1 = put_row jb_id j' (resume_jobs db)"
      by (rule lease_one_jobs [OF one])
    have "ls_job_id l \<noteq> jb_id j" using lease_loop_others [OF rest out] True by (metis imageI)
    then have "jobs db1 (ls_job_id l) = jobs db (ls_job_id l)" using j' by simp
    with Cons.IH [OF inv1 sub1 _ _ rest True] Cons.prems(3,4) show ?thesis by simp
  next
    case False
    then have l1: "l1 = Some l" using Cons.prems(6) leases by (auto split: option.splits)
    note g = lease_one_grant [OF one [unfolded l1]]
    have "jobs db' (jb_id j) = jobs db1 (jb_id j)" using lease_loop_others [OF rest out] by simp
    with g j show ?thesis by (auto simp: jobs_after_put)
  qed
qed

lemma lease_ready_grants:
  assumes inv: "mcp_inv E db" and step: "lease_ready E clock locked owner secs limit db = Inr (db', leases)"
    and l: "l \<in> set leases"
  obtains job job' where "jobs db (ls_job_id l) = Some job" "jobs db' (ls_job_id l) = Some job'"
    "ls_attempt l = jb_attempt job + 1" "jb_attempt job' = ls_attempt l"
proof -
  have "lease_loop E owner secs clock 1 (candidates (clock 0) locked (nat limit) db) db = Inr (db', leases)"
    using step by (auto simp: lease_ready_def split: if_splits)
  from lease_loop_grants [OF inv candidates_ok(1,2) [OF inv] _ this l] that show ?thesis
    using candidates_ok(3) [OF inv] eligible_state by blast
qed

section \<open>Properties of the store\<close>

text \<open>Property C3. Whatever transactions run, in whatever order and however many of them fail,
  the tables keep their constraints on revisions, attempts, replay modes and leases and on the uniqueness of
  rows and rounds (\<open>mcp_inv\<close> says which are left out), every job belongs to a round of an
  interaction of its tenant, a round has at most one job, and the state of the round says which
  state the job is in.\<close>

theorem store_history_invariant:
  assumes "0 < env_max_rounds E"
  shows "mcp_inv E (history E empty_db ops)"
  using history_grows(1) [of E empty_db] assms by simp

text \<open>Property C4. A tool whose call may not be replayed is sent at most once: in every history
  the resume job of a round that is not \<open>reusable\<close> is leased at most once, and is never offered
  again once it was.\<close>

theorem single_use_attempted_once:
  assumes "0 < env_max_rounds E"
    and "jobs (history E empty_db ops) i = Some job"
    and "rows (history E empty_db ops) (jb_interaction_id job) = Some row"
    and "ia_replay_mode row \<noteq> ''reusable''"
  shows "jb_attempt job \<le> 1 \<and> (jb_state job = JobReady \<longrightarrow> jb_attempt job = 0)"
proof -
  have inv: "mcp_inv E (history E empty_db ops)" using history_grows(1) [of E empty_db] assms(1) by simp
  have "pair_ok row job"
    using mcp_inv_pair [OF inv] row_by_Some_mem [OF assms(2)] row_by_Some_mem [OF assms(3)] by simp
  then show ?thesis using assms(4) by (simp add: pair_ok_def once_ok_def)
qed

text \<open>Property C5. A lease settles its job once. After the holder completed, failed or gave back the
  job, no history of further transactions makes the same lease valid again: every later attempt
  to complete, fail, retry or renew with it is refused and changes nothing.\<close>

theorem settled_lease_is_spent:
  assumes "mcp_inv E db" "0 < env_max_rounds E"
    and "complete E nonce t1 t2 lease v db = Inr db1 \<or> terminal_fail t1 t2 lease c db = Inr db1
      \<or> retry t1 t2 lease delay c db = Inr db1"
  shows "complete E nonce' u1 u2 lease w (history E db1 ops) = Inl (StateError STATE_CONFLICT) \<and>
    terminal_fail u1 u2 lease c' (history E db1 ops) = Inl (StateError STATE_CONFLICT) \<and>
    retry u1 u2 lease delay' c' (history E db1 ops) = Inl (StateError STATE_CONFLICT) \<and>
    (0 < secs \<longrightarrow> renew u1 u2 lease secs (history E db1 ops) = Inl (StateError STATE_CONFLICT))"
proof -
  from assms(3) have "mcp_inv E db1 \<and> lease_lost lease db1"
  proof (elim disjE)
    assume "complete E nonce t1 t2 lease v db = Inr db1"
    then show ?thesis using complete_inv [OF assms(1)] settle_loses_lease(1) by simp
  next
    assume "terminal_fail t1 t2 lease c db = Inr db1"
    then show ?thesis using terminal_fail_inv [OF assms(1)] settle_loses_lease(2) by simp
  next
    assume "retry t1 t2 lease delay c db = Inr db1"
    then show ?thesis using retry_inv [OF assms(1)] settle_loses_lease(3) by simp
  qed
  then have "lease_lost lease (history E db1 ops)" using lease_lost_stable assms(2) by simp
  from lease_lost_locked [OF this] show ?thesis
    by (simp add: complete_def terminal_fail_def retry_def renew_def)
qed

text \<open>Fencing. When a job that one worker once held is granted to a worker again, the new
  lease carries a higher attempt number and the old one is void for good.\<close>

lemma regrant_fences_old_lease:
  assumes "mcp_inv E db" "0 < env_max_rounds E"
    and "jobs db (ls_job_id old) = Some job" "ls_attempt old \<le> jb_attempt job"
    and "lease_ready E clock locked owner secs limit db = Inr (db1, leases)"
    and "new \<in> set leases" "ls_job_id new = ls_job_id old"
  shows "ls_attempt old < ls_attempt new \<and>
    locked_lease now old (history E db1 ops) = Inl (StateError STATE_CONFLICT)"
proof -
  obtain j j' where g: "jobs db (ls_job_id new) = Some j" "jobs db1 (ls_job_id new) = Some j'"
    "ls_attempt new = jb_attempt j + 1" "jb_attempt j' = ls_attempt new"
    by (rule lease_ready_grants [OF assms(1,5,6)])
  then have less: "ls_attempt old < ls_attempt new" using assms(3,4,7) by simp
  then have "lease_lost old db1" using g assms(7) by (simp add: lease_lost_def)
  moreover have "mcp_inv E db1" using lease_ready_inv [OF assms(1,5)] .
  ultimately have "lease_lost old (history E db1 ops)" using lease_lost_stable assms(2) by blast
  with less lease_lost_locked show ?thesis by blast
qed

text \<open>Property C7. What is settled is final: once an interaction is completed, declined, cancelled,
  expired or failed, every later history leaves its row, result included, as it is but for the
  time of its last update.\<close>

theorem settled_interaction_is_final:
  assumes "mcp_inv E db" "0 < env_max_rounds E" "rows db i = Some row" "row_settled row"
  shows "\<exists>t. rows (history E db ops) i = Some (row\<lparr>ia_updated_at := t\<rparr>)"
proof -
  obtain row' where "rows (history E db ops) i = Some row'" "row_le row row'"
    by (rule history_row [OF assms(1-3)])
  with assms(4) show ?thesis unfolding row_le_def by metis
qed

section \<open>A response and its round\<close>

lemma round_job_unique:
  assumes "mcp_inv E db" "j \<in> set (resume_jobs db)" "round_of j = (i, n)"
  shows "round_job db i n = Some j"
proof (cases "round_job db i n")
  case None
  then show ?thesis using assms by (auto simp: round_job_None)
next
  case (Some x)
  then have "x \<in> set (resume_jobs db)" "round_of x = round_of j"
    using assms(3) by (auto simp: round_job_def find_Some_iff)
  then show ?thesis using Some distinct_key_eq [OF mcp_invD(3) [OF assms(1)] _ assms(2)] by metis
qed

text \<open>The round was answered under this digest, by a person the row belongs to.\<close>

definition answered :: "Actor \<Rightarrow> string \<Rightarrow> int \<Rightarrow> string \<Rightarrow> mcp_db \<Rightarrow> bool" where
  "answered actor i n digest db \<longleftrightarrow>
     (\<exists>row \<in> set (interactions db). ia_id row = i \<and> ia_tenant_id row = ac_tenant_id actor \<and>
        ia_platform_user_id row = ac_platform_user_id actor \<and>
        ia_external_identity_id row = ac_external_identity_id actor) \<and>
     (\<exists>job \<in> set (resume_jobs db). round_of job = (i, n) \<and> jb_response_key job = digest)"

lemma answered_history:
  assumes "mcp_inv E db" "0 < env_max_rounds E" "answered actor i n digest db"
  shows "answered actor i n digest (history E db ops)"
proof -
  have g: "grows db (history E db ops)" by (rule history_grows(2) [OF assms(1,2)])
  obtain row job where r: "row \<in> set (interactions db)" "ia_id row = i" "ia_tenant_id row = ac_tenant_id actor"
      "ia_platform_user_id row = ac_platform_user_id actor"
      "ia_external_identity_id row = ac_external_identity_id actor"
    and j: "job \<in> set (resume_jobs db)" "round_of job = (i, n)" "jb_response_key job = digest"
    using assms(3) unfolding answered_def by blast
  obtain row' job' where "row' \<in> set (interactions (history E db ops))" "row_le row row'"
    "job' \<in> set (resume_jobs (history E db ops))" "job_le job job'"
    using g r(1) j(1) unfolding grows_def by blast
  with r j show ?thesis unfolding answered_def row_le_def job_le_def by metis
qed

lemma submit_answered:
  assumes inv: "mcp_inv E db" and ans: "answered actor i n digest db"
    and key: "idempotency_digest (env_platform E) (ac_tenant_id actor) i n key = Inr d"
  obtains row where "rows db i = Some row"
    "service_submit E nonce new_id now actor i n key resps db =
       ((if ia_revision row \<noteq> n then Inl (StateError REVISION_CONFLICT)
         else if d = digest
         then Inr \<lparr>cl_interaction_id = i, cl_revision = n, cl_status = CLAIM_DUPLICATE\<rparr>
         else Inl (StateError STATE_CONFLICT)), db)"
proof -
  obtain row job where r: "row \<in> set (interactions db)" "ia_id row = i" "ia_tenant_id row = ac_tenant_id actor"
      "ia_platform_user_id row = ac_platform_user_id actor"
      "ia_external_identity_id row = ac_external_identity_id actor"
    and j: "job \<in> set (resume_jobs db)" "round_of job = (i, n)" "jb_response_key job = digest"
    using ans unfolding answered_def by blast
  have look: "rows db i = Some row" using row_by_distinct [OF mcp_invD(1) [OF inv] r(1)] r(2) by simp
  moreover have "round_job db i n = Some job" by (rule round_job_unique [OF inv j(1,2)])
  ultimately have "service_submit E nonce new_id now actor i n key resps db =
       ((if ia_revision row \<noteq> n then Inl (StateError REVISION_CONFLICT)
         else if d = digest
         then Inr \<lparr>cl_interaction_id = i, cl_revision = n, cl_status = CLAIM_DUPLICATE\<rparr>
         else Inl (StateError STATE_CONFLICT)), db)"
    using key r j(3) by (auto simp: service_submit_def submit_response_def locked_interaction_def)
  with look show ?thesis by (rule that)
qed

lemma claim_answered:
  assumes inv: "mcp_inv E db"
    and step: "service_submit E nonce new_id now actor i n key resps db = (Inr claim, db')"
  obtains digest where "idempotency_digest (env_platform E) (ac_tenant_id actor) i n key = Inr digest"
    "answered actor i n digest db'"
proof -
  have sub: "submit_response E nonce new_id now actor i n key resps db = (Inr claim, db')"
    using step by (auto simp: service_submit_def split: prod.splits sum.splits if_splits)
  then obtain digest where d: "idempotency_digest (env_platform E) (ac_tenant_id actor) i n key = Inr digest"
    by (auto simp: submit_response_def split: sum.splits)
  with sub obtain row where row: "locked_interaction db i (ac_tenant_id actor) = Some row"
    by (cases "locked_interaction db i (ac_tenant_id actor)") (simp_all add: submit_response_def)
  note R = locked_interaction_Some [OF row]
  from sub d row have who: "ia_platform_user_id row = ac_platform_user_id actor"
    "ia_external_identity_id row = ac_external_identity_id actor" "ia_revision row = n"
    by (auto simp: submit_response_def split: if_splits)
  have "answered actor i n digest db'"
  proof (cases "round_job db i n")
    case (Some job)
    then have "db' = db" "jb_response_key job = digest" using sub d row who R
      by (auto simp: submit_response_def split: if_splits)
    moreover have "job \<in> set (resume_jobs db)" "round_of job = (i, n)"
      using Some by (auto simp: round_job_def find_Some_iff)
    ultimately show ?thesis using R who unfolding answered_def by blast
  next
    case None
    then have rec: "record_response E nonce new_id now row digest resps db = Inr db'"
      using sub d row who R by (auto simp: submit_response_def split: if_splits sum.splits)
    then obtain st job where db': "db' = put_interaction (row\<lparr>ia_state := st, ia_updated_at := now\<rparr>)
        (db\<lparr>resume_jobs := resume_jobs db @ [job]\<rparr>)"
      "round_of job = (ia_id row, ia_revision row)" "jb_response_key job = digest"
      by (auto simp: record_response_def Let_def result_simps split: if_splits)
    moreover have "row\<lparr>ia_state := st, ia_updated_at := now\<rparr> \<in> set (interactions db')"
      unfolding db'(1) put_interaction_def using R by (auto intro: mem_put_row)
    moreover have "job \<in> set (resume_jobs db')" unfolding db'(1) by (simp add: put_interaction_def)
    ultimately show ?thesis using R who unfolding answered_def
      by (intro conjI bexI [of _ "row\<lparr>ia_state := st, ia_updated_at := now\<rparr>"] bexI [of _ job]) simp_all
  qed
  with d that show ?thesis by blast
qed

text \<open>Property C6. A response is applied once. After a claim was answered (accepted or recognised), the same
  person sending the same key for the same round changes nothing, at any later time and
  whatever happened in between: it is recognised as a duplicate, or the round is over. Another
  key for the round is refused.\<close>

theorem response_applied_once:
  assumes "mcp_inv E db" "0 < env_max_rounds E"
    and "service_submit E nonce id1 t1 actor i n key resps db = (Inr claim, db1)"
    and "idempotency_digest (env_platform E) (ac_tenant_id actor) i n key' = Inr digest'"
  shows "\<exists>row digest. rows (history E db1 ops) i = Some row \<and>
    idempotency_digest (env_platform E) (ac_tenant_id actor) i n key = Inr digest \<and>
    service_submit E nonce' id2 t2 actor i n key' resps' (history E db1 ops) =
      ((if ia_revision row \<noteq> n then Inl (StateError REVISION_CONFLICT)
        else if digest' = digest
        then Inr \<lparr>cl_interaction_id = i, cl_revision = n, cl_status = CLAIM_DUPLICATE\<rparr>
        else Inl (StateError STATE_CONFLICT)), history E db1 ops)"
proof -
  obtain digest where d: "idempotency_digest (env_platform E) (ac_tenant_id actor) i n key = Inr digest"
    "answered actor i n digest db1" by (rule claim_answered [OF assms(1,3)])
  have inv1: "mcp_inv E db1" using service_submit_inv [OF assms(1)] assms(3) by (metis snd_conv)
  then have "answered actor i n digest (history E db1 ops)" "mcp_inv E (history E db1 ops)"
    using answered_history [OF _ assms(2) d(2)] history_grows(1) [OF _ assms(2)] by blast+
  then obtain row where "rows (history E db1 ops) i = Some row"
    "service_submit E nonce' id2 t2 actor i n key' resps' (history E db1 ops) =
      ((if ia_revision row \<noteq> n then Inl (StateError REVISION_CONFLICT)
        else if digest' = digest
        then Inr \<lparr>cl_interaction_id = i, cl_revision = n, cl_status = CLAIM_DUPLICATE\<rparr>
        else Inl (StateError STATE_CONFLICT)), history E db1 ops)"
    using submit_answered assms(4) by metis
  with d(1) show ?thesis by blast
qed

text \<open>Head-of-line blocking. A worker that asks for one job gets an error, and no
  job at all, for as long as the oldest eligible job is one whose stored payload no longer
  opens: the error leaves the tables as they were, so the next poll picks the same job again,
  whatever other jobs are ready.\<close>

lemma unreadable_job_blocks_polls:
  assumes "owner = py_strip owner" "owner \<noteq> []" "py_len owner \<le> 64" "0 < secs"
    and "candidates (clock 0) locked 1 db = [job]"
    and "locked_interaction db (jb_interaction_id job) (jb_tenant_id job) = Some row"
    and "ia_revision row = jb_revision job" "clock 1 < ia_expires_at row" "ia_effect row \<noteq> SIDE_EFFECT"
    and "jb_state job = JobReady \<or> ia_replay_mode row = ''reusable''"
    and "decrypt_mapping E row ''original_arguments'' (ia_original_arguments row) = Inl e"
  shows "try_step (repo_step E) db (OpLease clock locked owner secs 1) = db \<and>
    lease_ready E clock locked owner secs 1 db = Inl e"
proof -
  have "decrypt_mapping E (row\<lparr>ia_state := Resuming, ia_updated_at := t\<rparr>) p x = decrypt_mapping E row p x" for t p x
    by (simp add: decrypt_mapping_def)
  then have "to_resume E (row\<lparr>ia_state := Resuming, ia_updated_at := clock 1\<rparr>) j = Inl e" for j
    using assms(11) by (simp add: to_resume_def)
  then have "lease_one E owner secs (clock 1) job db = Inl e"
    using assms(6-10) by (auto simp: lease_one_def Let_def)
  then have "lease_ready E clock locked owner secs 1 db = Inl e"
    using assms(1-5) by (simp add: lease_ready_def)
  then show ?thesis by (simp add: try_step_def)
qed

section \<open>A concrete store\<close>

text \<open>
  A platform small enough to evaluate, one tool call that pauses, its answer, and the store
  after each step. The sealed texts are those the model computes.
\<close>

definition tiny_requests :: pydict where
  "tiny_requests = [(''q'', JDict [(''method'', JStr ''elicitation/create''),
     (''params'', JDict [(''requestedSchema'', JDict [(''type'', JStr ''object'')])])])]"

definition tiny_answer :: pydict where
  "tiny_answer = [(''q'', JDict [(''action'', JStr ''accept''), (''content'', JDict [])])]"

definition tiny_platform :: platform where
  "tiny_platform = demo_platform\<lparr>sha256 := (\<lambda>s. rev (take 3 (rev s))),
     aead_encrypt := (\<lambda>k n m a. CHR ''!'' # take 9 m), aead_decrypt := (\<lambda>k n c a. Some (tl c)),
     json_loads := (\<lambda>t. Some (if t = ''{}'' then JDict [] else if length t = 3 then JStr ''s''
       else if hd (drop 7 t) = CHR ''a'' then JDict tiny_answer else JDict tiny_requests))\<rparr>"

definition tiny_env :: repo_env where
  "tiny_env = \<lparr>env_platform = tiny_platform, env_cipher = demo_cipher, env_max_rounds = 3,
     env_max_payload_bytes = 1000\<rparr>"

definition tiny_request :: InteractionRequest where
  "tiny_request = \<lparr>rq_tenant_id = ''t'', rq_platform_user_id = ''u'', rq_external_identity_id = None,
     rq_identity_revision = None, rq_agent_id = ''a'', rq_agent_revision_id = ''r'', rq_mcp_server_id = ''m'',
     rq_resource_name = ''n'', rq_resource_uri = ''x'', rq_tool_name = ''f'', rq_original_arguments = [],
     rq_input_requests = tiny_requests, rq_output_schema = None, rq_request_state = ''s'',
     rq_effect = READ, rq_replay_mode = ''single_use'', rq_policy_revision = ''p'',
     rq_credential_generation = 0, rq_expires_at = Some \<lparr>instant = 100000000, utcoffset = Some 0\<rparr>,
     rq_interaction_id = None, rq_previous_revision = None, rq_lease_fence = None, rq_call_digest = []\<rparr>"

definition tiny_actor :: Actor where
  "tiny_actor = \<lparr>ac_tenant_id = ''t'', ac_platform_user_id = ''u'', ac_external_identity_id = None\<rparr>"

definition tiny_row :: "string \<Rightarrow> InteractionState \<Rightarrow> int \<Rightarrow> McpInteraction" where
  "tiny_row mode st t = \<lparr>ia_id = ''i'', ia_tenant_id = ''t'', ia_platform_user_id = ''u'',
     ia_external_identity_id = None, ia_identity_revision = None, ia_agent_id = ''a'',
     ia_agent_revision_id = ''r'', ia_mcp_server_id = ''m'', ia_resource_name = ''n'',
     ia_resource_uri = ''x'', ia_tool_name = ''f'', ia_call_digest = [CHR ''f'', CHR 0x22, CHR ''}''],
     ia_schema_digest = ''}}}'', ia_output_schema_digest = None, ia_output_schema = None,
     ia_original_arguments = \<lparr>ep_ciphertext = ''v1.bm5ubm5ubm5ubm5uIXt9'', ep_key_id = ''k1''\<rparr>,
     ia_input_requests = \<lparr>ep_ciphertext = ''v1.bm5ubm5ubm5ubm5uIXsicSI6eyJtZQ'', ep_key_id = ''k1''\<rparr>,
     ia_request_state = \<lparr>ep_ciphertext = ''v1.bm5ubm5ubm5ubm5uISJzIg'', ep_key_id = ''k1''\<rparr>,
     ia_policy_revision = ''p'', ia_credential_generation = 0, ia_effect = READ,
     ia_replay_mode = mode, ia_state = st, ia_revision = 1, ia_round_count = 1,
     ia_expires_at = 100000000, ia_result = None, ia_created_at = 1, ia_updated_at = t\<rparr>"

definition tiny_job :: McpInteractionResumeJob where
  "tiny_job = \<lparr>jb_id = ''j'', jb_interaction_id = ''i'', jb_tenant_id = ''t'', jb_revision = 1,
     jb_response_key = ''key'',
     jb_input_response = \<lparr>ep_ciphertext = ''v1.bm5ubm5ubm5ubm5uIXsicSI6eyJhYw'', ep_key_id = ''k1''\<rparr>,
     jb_state = JobReady, jb_lease_owner = None, jb_lease_until = None, jb_attempt = 0,
     jb_next_attempt_at = None, jb_safe_error_code = None, jb_created_at = 2, jb_updated_at = 2\<rparr>"

definition tiny_waiting :: mcp_db where
  "tiny_waiting = \<lparr>interactions = [tiny_row ''single_use'' AwaitingInput 1], resume_jobs = []\<rparr>"

definition tiny_ready :: "string \<Rightarrow> mcp_db" where
  "tiny_ready mode = \<lparr>interactions = [tiny_row mode ResponseReady 2], resume_jobs = [tiny_job]\<rparr>"

definition tiny_leased :: "string \<Rightarrow> mcp_db" where
  "tiny_leased mode = \<lparr>interactions = [tiny_row mode Resuming 3],
     resume_jobs = [leased_job tiny_job ''w'' 10 3]\<rparr>"

definition tiny_pause :: repo_op where
  "tiny_pause = OpPause (\<lambda>_. demo_nonce) ''i'' 1 tiny_request"

definition tiny_submit :: repo_op where
  "tiny_submit = OpSubmit (\<lambda>_. demo_nonce) ''j'' 2 tiny_actor ''i'' 1 ''key'' tiny_answer"

definition tiny_lease :: InteractionLease where
  "tiny_lease = \<lparr>ls_job_id = ''j'', ls_owner = ''w'', ls_attempt = 1, ls_resume =
     \<lparr>rs_interaction_id = ''i'', rs_revision = 1, rs_request = tiny_request,
      rs_input_responses = tiny_answer, rs_call_digest = []\<rparr>\<rparr>"

lemma tiny_paused: "repo_step tiny_env empty_db tiny_pause = Inr tiny_waiting"
  by code_simp

lemma tiny_submitted:
  "service_submit tiny_env (\<lambda>_. demo_nonce) ''j'' 2 tiny_actor ''i'' 1 ''key'' tiny_answer tiny_waiting =
     (Inr \<lparr>cl_interaction_id = ''i'', cl_revision = 1, cl_status = CLAIM_ACCEPTED\<rparr>, tiny_ready ''single_use'')"
  by code_simp

lemma tiny_max [simp]: "0 < env_max_rounds tiny_env"
  by (simp add: tiny_env_def)

lemma tiny_history:
  "history tiny_env empty_db [tiny_pause] = tiny_waiting"
  "history tiny_env empty_db [tiny_pause, tiny_submit] = tiny_ready ''single_use''"
  by (simp_all add: try_step_def tiny_paused tiny_submitted tiny_submit_def)

lemma tiny_inv: "mcp_inv tiny_env tiny_waiting" "mcp_inv tiny_env (tiny_ready ''single_use'')"
  using history_grows(1) [of tiny_env empty_db] tiny_history by (metis empty_inv tiny_max)+

lemma tiny_leased_inv: "m \<in> replay_modes \<Longrightarrow> mcp_inv tiny_env (tiny_leased m)"
  by (simp add: mcp_inv_def tiny_leased_def tiny_row_def tiny_job_def leased_job_def row_ok_def
      has_its_job_def job_ok_def pair_ok_def round_match_def once_ok_def tiny_env_def)

lemma tiny_leased_lock: "locked_lease 4 tiny_lease (tiny_leased m) =
    Inr (tiny_row m Resuming 3, leased_job tiny_job ''w'' 10 3)"
  by (simp add: locked_lease_def tiny_leased_def tiny_lease_def tiny_row_def tiny_job_def leased_job_def
      locked_interaction_def fence_holds_def seconds_def)

text \<open>The witnesses of the properties above.\<close>

theorem store_history_invariant_witness:
  "interactions (history tiny_env empty_db [tiny_pause, tiny_submit]) \<noteq> [] \<and>
   mcp_inv tiny_env (history tiny_env empty_db [tiny_pause, tiny_submit])"
  using store_history_invariant [OF tiny_max, of "[tiny_pause, tiny_submit]"] tiny_history(2)
  by (simp add: tiny_ready_def)

theorem single_use_attempted_once_witness:
  "\<exists>job. jobs (history tiny_env empty_db [tiny_pause, tiny_submit]) ''j'' = Some job \<and> jb_attempt job \<le> 1"
proof -
  have h: "jobs (history tiny_env empty_db [tiny_pause, tiny_submit]) ''j'' = Some tiny_job"
    "rows (history tiny_env empty_db [tiny_pause, tiny_submit]) (jb_interaction_id tiny_job)
       = Some (tiny_row ''single_use'' ResponseReady 2)"
    unfolding tiny_history(2) by (simp_all add: tiny_ready_def tiny_job_def tiny_row_def)
  have "ia_replay_mode (tiny_row ''single_use'' ResponseReady 2) \<noteq> ''reusable''" by (simp add: tiny_row_def)
  from single_use_attempted_once [OF tiny_max h this] h(1) show ?thesis by blast
qed

theorem settled_lease_is_spent_witness:
  "\<exists>db1. terminal_fail 4 5 tiny_lease REAUTHORIZATION_DENIED (tiny_leased ''single_use'') = Inr db1 \<and>
     terminal_fail 6 7 tiny_lease REAUTHORIZATION_DENIED db1 = Inl (StateError STATE_CONFLICT)"
proof -
  obtain db1 where f: "terminal_fail 4 5 tiny_lease REAUTHORIZATION_DENIED (tiny_leased ''single_use'') = Inr db1"
    by (simp add: terminal_fail_def tiny_leased_lock)
  have "''single_use'' \<in> replay_modes" by (simp add: replay_modes_def)
  from settled_lease_is_spent [OF tiny_leased_inv [OF this] tiny_max disjI2 [OF disjI1 [OF f]], of _ 6 7 _ "[]"]
  show ?thesis using f by simp
qed

lemma tiny_regrant:
  "\<exists>db1 new. lease_ready tiny_env (\<lambda>_. 20000000) (\<lambda>_. False) ''v'' 10 1 (tiny_leased ''reusable'')
     = Inr (db1, [new]) \<and> ls_job_id new = ''j''"
proof -
  have "case lease_ready tiny_env (\<lambda>_. 20000000) (\<lambda>_. False) ''v'' 10 1 (tiny_leased ''reusable'') of
      Inl _ \<Rightarrow> False | Inr (d, ls) \<Rightarrow> map ls_job_id ls = [''j'']"
    by code_simp
  then show ?thesis by (auto split: sum.splits)
qed

lemma regrant_fences_old_lease_example:
  "\<exists>db1 new. lease_ready tiny_env (\<lambda>_. 20000000) (\<lambda>_. False) ''v'' 10 1 (tiny_leased ''reusable'')
     = Inr (db1, [new]) \<and> ls_attempt tiny_lease < ls_attempt new \<and>
     locked_lease 20000001 tiny_lease (history tiny_env db1 []) = Inl (StateError STATE_CONFLICT)"
proof -
  obtain db1 new where g: "lease_ready tiny_env (\<lambda>_. 20000000) (\<lambda>_. False) ''v'' 10 1 (tiny_leased ''reusable'')
     = Inr (db1, [new])" "ls_job_id new = ''j''" using tiny_regrant by blast
  have "jobs (tiny_leased ''reusable'') (ls_job_id tiny_lease) = Some (leased_job tiny_job ''w'' 10 3)"
    by (simp add: tiny_leased_def tiny_lease_def tiny_job_def)
  from regrant_fences_old_lease [OF tiny_leased_inv tiny_max this _ g(1), of new 20000001 "[]"] g show ?thesis
    by (simp add: replay_modes_def tiny_lease_def tiny_job_def)
qed

theorem settled_interaction_is_final_witness:
  "\<exists>t. rows (history tiny_env \<lparr>interactions = [tiny_row ''reusable'' RowExpired 9], resume_jobs = []\<rparr> [tiny_pause]) ''i''
     = Some (tiny_row ''reusable'' RowExpired 9\<lparr>ia_updated_at := t\<rparr>)"
proof (rule settled_interaction_is_final [OF _ tiny_max])
  show "mcp_inv tiny_env \<lparr>interactions = [tiny_row ''reusable'' RowExpired 9], resume_jobs = []\<rparr>"
    by (simp add: mcp_inv_def tiny_row_def row_ok_def has_its_job_def tiny_env_def replay_modes_def)
qed (simp_all add: tiny_row_def row_settled_def)

theorem response_applied_once_witness:
  "service_submit tiny_env (\<lambda>_. demo_nonce) ''k'' 7 tiny_actor ''i'' 1 ''key'' [] (tiny_ready ''single_use'')
     = (Inr \<lparr>cl_interaction_id = ''i'', cl_revision = 1, cl_status = CLAIM_DUPLICATE\<rparr>, tiny_ready ''single_use'')"
proof -
  have "idempotency_digest (env_platform tiny_env) (ac_tenant_id tiny_actor) ''i'' 1 ''key'' = Inr ''key''"
    by code_simp
  from response_applied_once [OF tiny_inv(1) tiny_max tiny_submitted this, where ops = "[]" and ?resps' = "[]"
      and ?id2.0 = "''k''" and ?t2.0 = 7 and ?nonce' = "\<lambda>_. demo_nonce"] this
  show ?thesis by (auto simp: tiny_ready_def tiny_row_def)
qed

definition keyless_env :: repo_env where
  "keyless_env = tiny_env\<lparr>env_cipher := demo_cipher\<lparr>ring_keys := []\<rparr>\<rparr>"

lemma unreadable_job_blocks_polls_example:
  "lease_ready keyless_env (\<lambda>_. 3) (\<lambda>_. False) ''w'' 10 1 (tiny_ready ''reusable'')
     = Inl (CipherFailure KeyUnavailable)"
proof -
  let ?row = "tiny_row ''reusable'' ResponseReady 2"
  have w: "''w'' = py_strip ''w''" by code_simp
  have c: "candidates 3 (\<lambda>_. False) 1 (tiny_ready ''reusable'') = [tiny_job]"
    by (simp add: candidates_def tiny_ready_def eligible_def tiny_job_def)
  have l: "locked_interaction (tiny_ready ''reusable'') (jb_interaction_id tiny_job) (jb_tenant_id tiny_job) = Some ?row"
    by (simp add: tiny_ready_def tiny_job_def locked_interaction_def tiny_row_def)
  have d: "decrypt_mapping keyless_env ?row ''original_arguments'' (ia_original_arguments ?row)
      = Inl (CipherFailure KeyUnavailable)"
    by (simp add: decrypt_mapping_def decrypt_def keyless_env_def lift_simps)
  from unreadable_job_blocks_polls [where clock = "\<lambda>_. 3" and secs = 10, OF w _ _ _ c l _ _ _ _ d] show ?thesis
    by (simp add: tiny_row_def tiny_job_def py_len_def)
qed


end
