(* ===== verification/Mcp_Service.thy ===== *)
theory Mcp_Service
  imports Mcp_Store
begin

text \<open>
  The host of the interaction store and its recovery worker
  (\<open>src/api/identity/mcp_interactions/service.py\<close>): every repository call is one transaction
  that commits or rolls back, an execution that raises is settled by the kind of the exception,
  and a batch leases and executes one job after the other.

  The executor is a parameter: what it raises or returns, and what it did to the store meanwhile
  (a connector that pauses again advances the round itself). \<open>clock\<close> gives the wall clock at
  each read of a transaction.
\<close>

section \<open>Limits and outcomes\<close>

record InteractionServiceLimits =
  lim_lease_seconds :: int
  lim_batch_size :: int
  lim_max_rounds :: int
  lim_max_payload_bytes :: int
  lim_ttl_seconds :: int

definition limits_valid :: "InteractionServiceLimits \<Rightarrow> bool" where
  "limits_valid L \<longleftrightarrow> list_all (\<lambda>n. 0 < n)
     [lim_lease_seconds L, lim_batch_size L, lim_max_rounds L, lim_max_payload_bytes L, lim_ttl_seconds L]"

definition new_repository :: "platform \<Rightarrow> PayloadCipher \<Rightarrow> InteractionServiceLimits \<Rightarrow> repo_env" where
  "new_repository P c L = \<lparr>env_platform = P, env_cipher = c, env_max_rounds = lim_max_rounds L,
     env_max_payload_bytes = lim_max_payload_bytes L\<rparr>"

datatype exec_outcome =
    ExecReturned json
  | ExecPaused \<comment> \<open>\<open>MCPInteractionPaused\<close>\<close>
  | ExecLeaseLost
  | ExecStateError InteractionErrorCode
  | ExecTransport \<comment> \<open>\<open>TimeoutError\<close>, \<open>ConnectionError\<close>\<close>
  | ExecFailed \<comment> \<open>any other exception\<close>

definition execute_with_renewal :: "exec_outcome option \<Rightarrow> exec_outcome" where
  \<comment> \<open>\<open>Some\<close>: the execution is among the tasks done first; \<open>None\<close>: only the renewal ended\<close>
  "execute_with_renewal first = (case first of Some out \<Rightarrow> out | None \<Rightarrow> ExecLeaseLost)"

definition transact :: "RepoError + mcp_db \<Rightarrow> mcp_db \<Rightarrow> RepoError option \<times> mcp_db" where
  \<comment> \<open>\<open>_repository()\<close>: commit on success, roll back and raise on error\<close>
  "transact m db = (case m of Inl e \<Rightarrow> (Some e, db) | Inr db' \<Rightarrow> (None, db'))"

definition retry_delay :: "int \<Rightarrow> int" where
  "retry_delay revision = min 60 (2 ^ nat (min revision 5))"

definition execute_lease ::
  "repo_env \<Rightarrow> (string \<Rightarrow> string) \<Rightarrow> (nat \<Rightarrow> int) \<Rightarrow> InteractionLease \<Rightarrow> exec_outcome \<Rightarrow> mcp_db
     \<Rightarrow> RepoError option \<times> mcp_db" where
  "execute_lease E nonce clock lease out db =
     (case out of
        ExecPaused \<Rightarrow> (None, db)
      | ExecLeaseLost \<Rightarrow> (None, db)
      | ExecStateError code \<Rightarrow> transact (terminal_fail (clock 0) (clock 1) lease code db) db
      | ExecTransport \<Rightarrow> transact (retry (clock 0) (clock 1) lease
            (retry_delay (rs_revision (ls_resume lease))) REMOTE_RESULT_UNKNOWN db) db
      | ExecFailed \<Rightarrow> transact (terminal_fail (clock 0) (clock 1) lease REMOTE_RESULT_UNKNOWN db) db
      | ExecReturned result \<Rightarrow>
          (case complete E nonce (clock 0) (clock 1) lease result db of
             Inr db' \<Rightarrow> (None, db')
           | Inl (StateError code) \<Rightarrow>
               (case terminal_fail (clock 2) (clock 3) lease code db of
                  Inr db' \<Rightarrow> (None, db')
                | Inl (StateError _) \<Rightarrow> (None, db)
                | Inl e \<Rightarrow> (Some e, db))
           | Inl e \<Rightarrow> (Some e, db)))"

text \<open>What the surroundings of the worker contribute to the k-th job of a batch.\<close>

record batch_world =
  bw_clock :: "nat \<Rightarrow> nat \<Rightarrow> int"
  bw_settle_clock :: "nat \<Rightarrow> nat \<Rightarrow> int"
  bw_locked :: "nat \<Rightarrow> string \<Rightarrow> bool"
  bw_nonce :: "nat \<Rightarrow> string \<Rightarrow> string"
  bw_execute :: "nat \<Rightarrow> InteractionLease \<Rightarrow> mcp_db \<Rightarrow> exec_outcome option \<times> mcp_db"

fun run_batch ::
  "repo_env \<Rightarrow> batch_world \<Rightarrow> string \<Rightarrow> int \<Rightarrow> nat \<Rightarrow> nat \<Rightarrow> mcp_db \<Rightarrow> RepoError option \<times> nat \<times> mcp_db" where
  "run_batch E W owner secs 0 k db = (None, k, db)"
| "run_batch E W owner secs (Suc n) k db =
     (case lease_ready E (bw_clock W k) (bw_locked W k) owner secs 1 db of
        Inl e \<Rightarrow> (Some e, k, db)
      | Inr (db1, []) \<Rightarrow> (None, k, db1)
      | Inr (db1, lease # _) \<Rightarrow>
          (case bw_execute W k lease db1 of (first, db2) \<Rightarrow>
           (case execute_lease E (bw_nonce W k) (bw_settle_clock W k) lease (execute_with_renewal first) db2 of
              (Some e, db3) \<Rightarrow> (Some e, k, db3)
            | (None, db3) \<Rightarrow> run_batch E W owner secs n (Suc k) db3)))"

definition run_once ::
  "platform \<Rightarrow> PayloadCipher \<Rightarrow> InteractionServiceLimits \<Rightarrow> batch_world \<Rightarrow> string \<Rightarrow> mcp_db
     \<Rightarrow> RepoError option \<times> nat \<times> mcp_db" where
  "run_once P c L W owner db =
     run_batch (new_repository P c L) W owner (lim_lease_seconds L) (nat (lim_batch_size L)) 0 db"

definition worker_turn :: "RepoError option \<times> nat \<times> mcp_db \<Rightarrow> bool \<times> mcp_db" where
  \<comment> \<open>one turn of \<open>run_interaction_worker\<close>: whether it polls again at once, and the store\<close>
  "worker_turn r = (case r of (Some _, _, db) \<Rightarrow> (False, db) | (None, n, db) \<Rightarrow> (n \<noteq> 0, db))"

section \<open>Settling\<close>

lemma locked_lease_times:
  assumes "locked_lease t lease db = Inr (row, job)" "u \<le> t"
  shows "locked_lease u lease db = Inr (row, job)"
proof -
  note L = locked_lease_Inr [OF assms(1)]
  have "fence_holds job (ls_owner lease) (ls_attempt lease) u"
    using L(6) assms(2) by (auto simp: fence_holds_def split: option.splits)
  with assms show ?thesis by (auto simp: locked_lease_def split: option.splits if_splits)
qed

lemma lift_eq_Inl:
  "liftS m = Inl e \<longleftrightarrow> (\<exists>c. m = Inl c \<and> e = StateError c)"
  "liftC m' = Inl e \<longleftrightarrow> (\<exists>c. m' = Inl c \<and> e = CipherFailure c)"
  by (auto simp: lift_simps split: sum.splits)

text \<open>When the key ring can serve a round: its active key is in the ring, the columns of the row make
  a boundary, and a stored output schema opens.\<close>

definition keys_serve :: "repo_env \<Rightarrow> McpInteraction \<Rightarrow> bool" where
  "keys_serve E row \<longleftrightarrow> map_of (ring_keys (env_cipher E)) (ring_active (env_cipher E)) \<noteq> None \<and>
     \<not> blank (ia_tenant_id row) \<and> \<not> blank (ia_id row) \<and> 0 < ia_revision row \<and>
     (case ia_output_schema row of None \<Rightarrow> True | Some e \<Rightarrow>
        \<not> isl (decrypt (env_platform E) (env_cipher E) (ia_tenant_id row) (ia_id row) (ia_revision row)
          ''output_schema'' e))"

text \<open>When a returned value is a result of the tool: the stored output schema is the one that was
  promised, and the value is in bounds and valid for it.\<close>

definition result_fits :: "repo_env \<Rightarrow> McpInteraction \<Rightarrow> json \<Rightarrow> bool" where
  "result_fits E row v \<longleftrightarrow> (case decrypt_output_schema E row of Inl _ \<Rightarrow> False | Inr schema \<Rightarrow>
     \<not> isl (normalize_interaction_result (env_platform E) (env_max_payload_bytes E) schema v))"

text \<open>What is left of the leased pair after an execution that ended by \<open>out\<close>.\<close>

definition failed_with :: "InteractionErrorCode \<Rightarrow> McpInteraction \<Rightarrow> McpInteractionResumeJob \<Rightarrow> bool" where
  "failed_with c row job \<longleftrightarrow> ia_state row = RowFailed \<and> jb_state job = JobTerminalFailed \<and>
     jb_safe_error_code job = Some c"

definition settled_as ::
  "repo_env \<Rightarrow> (string \<Rightarrow> string) \<Rightarrow> McpInteraction \<Rightarrow> exec_outcome \<Rightarrow> McpInteraction \<Rightarrow> McpInteractionResumeJob \<Rightarrow> bool" where
  "settled_as E nonce row out row' job' =
     (case out of
        ExecReturned v \<Rightarrow>
          if result_fits E row v
          then ia_state row' = RowCompleted \<and> jb_state job' = JobSucceeded \<and>
            (case ia_result row' of None \<Rightarrow> False | Some e \<Rightarrow>
               encrypt (env_platform E) (env_cipher E) (nonce ''result'') (ia_tenant_id row) (ia_id row)
                 (ia_revision row) ''result'' v = Inr e)
          else failed_with PAYLOAD_INVALID row' job'
      | ExecStateError c \<Rightarrow> failed_with c row' job'
      | ExecTransport \<Rightarrow>
          if ia_effect row \<in> {READ, PREPARE} \<and> ia_replay_mode row = ''reusable''
          then ia_state row' = ResponseReady \<and> jb_state job' = JobReady
          else failed_with REMOTE_RESULT_UNKNOWN row' job'
      | ExecFailed \<Rightarrow> failed_with REMOTE_RESULT_UNKNOWN row' job'
      | _ \<Rightarrow> False)"

lemma decrypt_output_schema_Inl:
  "decrypt_output_schema E row = Inl e \<Longrightarrow>
     e = StateError PAYLOAD_INVALID \<or> (\<exists>c. e = CipherFailure c) \<and> \<not> keys_serve E row"
  by (auto simp: decrypt_output_schema_def decrypt_mapping_def lift_eq_Inl bindE_eq_Inl keys_serve_def
      split: option.splits if_splits json.splits)

lemma normalize_interaction_result_cases:
  "normalize_interaction_result P n schema v = Inl PAYLOAD_INVALID \<or>
     normalize_interaction_result P n schema v = Inr v \<and> dumps (frepr P) v \<noteq> None"
  by (auto simp: normalize_interaction_result_def normalize_output_schema_def bounded_def payload_size_def bindE_def guardE_def
      split: option.splits sum.splits)

lemma encrypt_serves:
  assumes "keys_serve E row" "dumps (frepr (env_platform E)) v \<noteq> None"
  shows "\<exists>e. encrypt (env_platform E) (env_cipher E) n (ia_tenant_id row) (ia_id row) (ia_revision row) ''result'' v = Inr e"
  using assms by (auto simp: encrypt_def aad_def keys_serve_def PURPOSES_def)

lemma complete_cases:
  assumes "locked_lease t lease db = Inr (row, job)"
  obtains e where "result_fits E row v"
      "encrypt (env_platform E) (env_cipher E) (nonce ''result'') (ia_tenant_id row) (ia_id row)
         (ia_revision row) ''result'' v = Inr e"
      "complete E nonce t u lease v db = Inr (put_job (succeed_job job u)
         (put_interaction (row\<lparr>ia_result := Some e, ia_state := RowCompleted, ia_updated_at := u\<rparr>) db))"
  | "\<not> result_fits E row v" "complete E nonce t u lease v db = Inl (StateError PAYLOAD_INVALID)"
  | c where "\<not> keys_serve E row" "complete E nonce t u lease v db = Inl (CipherFailure c)"
proof (cases "decrypt_output_schema E row")
  case (Inl e)
  then show ?thesis
    using decrypt_output_schema_Inl [OF Inl] that(2,3) assms by (auto simp: complete_def result_fits_def)
next
  case (Inr schema)
  show ?thesis
  proof (cases "normalize_interaction_result (env_platform E) (env_max_payload_bytes E) schema v = Inr v")
    case True
    then have d: "dumps (frepr (env_platform E)) v \<noteq> None" by (metis normalize_interaction_result_cases Inl_Inr_False)
    show ?thesis
    proof (cases "encrypt (env_platform E) (env_cipher E) (nonce ''result'') (ia_tenant_id row) (ia_id row)
         (ia_revision row) ''result'' v")
      case (Inl c)
      then have "\<not> keys_serve E row" by (metis encrypt_serves [OF _ d] Inl_Inr_False)
      then show ?thesis using Inl Inr True assms that(3) by (simp add: complete_def lift_simps repo_encrypt_def)
    next
      case (Inr e)
      then show ?thesis using True \<open>decrypt_output_schema E row = _\<close> assms that(1)
        by (simp add: complete_def lift_simps repo_encrypt_def result_fits_def)
    qed
  next
    case False
    then have "normalize_interaction_result (env_platform E) (env_max_payload_bytes E) schema v = Inl PAYLOAD_INVALID"
      using normalize_interaction_result_cases by metis
    then show ?thesis using Inr assms that(2) by (simp add: complete_def lift_simps result_fits_def)
  qed
qed

lemma terminal_fail_Inr:
  "locked_lease t lease db = Inr x \<Longrightarrow> \<exists>db'. terminal_fail t u lease c db = Inr db'"
  by (cases x) (simp add: terminal_fail_def)

lemma retry_Inr:
  "locked_lease t lease db = Inr x \<Longrightarrow> \<exists>db'. retry t u lease d c db = Inr db'"
  by (cases x) (simp add: retry_def)

lemma pair_after_put:
  assumes "locked_lease t lease db = Inr (row, job)" "ia_id row' = ia_id row" "jb_id job' = jb_id job"
  shows "rows (put_job job' (put_interaction row' db)) (ia_id row) = Some row'"
    "jobs (put_job job' (put_interaction row' db)) (jb_id job) = Some job'"
proof -
  note L = locked_lease_Inr [OF assms(1)]
  have "rows db (ia_id row) \<noteq> None"
    using L(2) by (auto simp: row_by_def find_None_iff)
  then show "rows (put_job job' (put_interaction row' db)) (ia_id row) = Some row'"
    using assms(2) by (simp add: put_job_def put_interaction_def row_by_put_row)
  have "jobs db (jb_id job) = Some job" using L(1) row_by_Some_mem by fastforce
  then show "jobs (put_job job' (put_interaction row' db)) (jb_id job) = Some job'"
    using assms(3) by (simp add: jobs_after_put)
qed

definition leaves_pair ::
  "repo_env \<Rightarrow> (string \<Rightarrow> string) \<Rightarrow> InteractionLease \<Rightarrow> McpInteraction \<Rightarrow> McpInteractionResumeJob \<Rightarrow> exec_outcome \<Rightarrow> mcp_db \<Rightarrow> bool" where
  "leaves_pair E nonce lease row job out db' \<longleftrightarrow> lease_lost lease db' \<and>
     (case (rows db' (ia_id row), jobs db' (jb_id job)) of
        (Some row', Some job') \<Rightarrow> settled_as E nonce row out row' job' | _ \<Rightarrow> False)"

lemma leaves_pair_put:
  assumes "locked_lease t lease db = Inr (row, job)" "ia_id row' = ia_id row" "jb_id job' = jb_id job"
    and "jb_attempt job' = jb_attempt job" "jb_state job' \<noteq> JobLeased" "settled_as E nonce row out row' job'"
  shows "leaves_pair E nonce lease row job out (put_job job' (put_interaction row' db))"
  using pair_after_put [OF assms(1-3)] settled_lost [OF assms(1,3-5)] assms(6) by (simp add: leaves_pair_def)

lemma terminal_fail_leaves:
  assumes "locked_lease t lease db = Inr (row, job)"
    and "\<And>row' job'. failed_with c row' job' \<Longrightarrow> settled_as E nonce row out row' job'"
  shows "\<exists>d. terminal_fail t u lease c db = Inr d \<and> leaves_pair E nonce lease row job out d"
  using assms by (auto simp: terminal_fail_def terminal_job_def failed_with_def intro!: leaves_pair_put)

lemma retry_leaves:
  assumes "locked_lease t lease db = Inr (row, job)"
  shows "\<exists>d. retry t u lease s REMOTE_RESULT_UNKNOWN db = Inr d \<and> leaves_pair E nonce lease row job ExecTransport d"
  using assms
  by (auto simp: retry_def terminal_job_def failed_with_def settled_as_def intro!: leaves_pair_put)

text \<open>Property C11. Every finished execution is settled by what it came to. While the lease holds at
  every read of the clock, there are three cases. A pause moved the round itself and a lost lease is
  another worker's: the tables stay as they are. Otherwise the lease is spent and the pair says how it
  ended: a result that fits the promised schema is stored sealed with the round completed, one that
  does not fails the round, a state error fails it with its code, a transport failure gives a
  reusable read or preparation back to the queue and fails anything else as unknown, as does every
  other exception. Only where the key ring cannot serve the round is the error of the cipher raised, and
  then the tables stay as they were.\<close>

theorem finished_execution_settles:
  assumes "locked_lease t lease db = Inr (row, job)" "\<forall>k < 4. clock k \<le> t"
    and "execute_lease E nonce clock lease out db = (err, db')"
  shows "if out \<in> {ExecPaused, ExecLeaseLost} then err = None \<and> db' = db
    else err = None \<and> leaves_pair E nonce lease row job out db' \<or>
      \<not> keys_serve E row \<and> (\<exists>c v. err = Some (CipherFailure c) \<and> out = ExecReturned v) \<and> db' = db"
proof -
  have l: "locked_lease (clock k) lease db = Inr (row, job)" if "k < 4" for k
    using locked_lease_times [OF assms(1)] assms(2) that by simp
  have l0: "locked_lease (clock 0) lease db = Inr (row, job)" and l2: "locked_lease (clock 2) lease db = Inr (row, job)"
    using l by simp_all
  show ?thesis
  proof (cases out)
    case (ExecReturned v)
    from l0 show ?thesis
    proof (cases rule: complete_cases [of _ _ _ _ _ E v nonce "clock 1"])
      case (1 e)
      have "leaves_pair E nonce lease row job out (put_job (succeed_job job (clock 1)) (put_interaction
          (row\<lparr>ia_result := Some e, ia_state := RowCompleted, ia_updated_at := clock 1\<rparr>) db))"
        by (rule leaves_pair_put [OF l0])
          (use 1 ExecReturned in \<open>simp_all add: settled_as_def succeed_job_def\<close>)
      with 1 ExecReturned assms(3) show ?thesis by (simp add: execute_lease_def)
    next
      case 2
      then have "settled_as E nonce row out r j" if "failed_with PAYLOAD_INVALID r j" for r j
        using that ExecReturned by (simp add: settled_as_def)
      from terminal_fail_leaves [OF l2 this] obtain d
        where "terminal_fail (clock 2) (clock 3) lease PAYLOAD_INVALID db = Inr d" "leaves_pair E nonce lease row job out d"
        by blast
      with 2 ExecReturned assms(3) show ?thesis by (simp add: execute_lease_def)
    next
      case (3 c)
      with ExecReturned assms(3) show ?thesis by (auto simp: execute_lease_def)
    qed
  next
    case (ExecStateError c)
    then have "settled_as E nonce row out r j" if "failed_with c r j" for r j
      using that by (simp add: settled_as_def)
    from terminal_fail_leaves [OF l0 this] obtain d
      where "terminal_fail (clock 0) (clock 1) lease c db = Inr d" "leaves_pair E nonce lease row job out d" by blast
    with ExecStateError assms(3) show ?thesis by (simp add: execute_lease_def transact_def)
  next
    case ExecTransport
    with retry_leaves [OF l0, of "clock 1" "retry_delay (rs_revision (ls_resume lease))" E nonce] assms(3)
    show ?thesis by (auto simp: execute_lease_def transact_def)
  next
    case ExecFailed
    then have "settled_as E nonce row out r j" if "failed_with REMOTE_RESULT_UNKNOWN r j" for r j
      using that by (simp add: settled_as_def)
    from terminal_fail_leaves [OF l0 this] obtain d
      where "terminal_fail (clock 0) (clock 1) lease REMOTE_RESULT_UNKNOWN db = Inr d"
        "leaves_pair E nonce lease row job out d" by blast
    with ExecFailed assms(3) show ?thesis by (simp add: execute_lease_def transact_def)
  qed (use assms(3) in \<open>simp_all add: execute_lease_def\<close>)
qed

section \<open>Retries\<close>

lemma retry_delay_bounds:
  assumes "0 < n"
  shows "2 \<le> retry_delay n \<and> retry_delay n \<le> 32"
proof -
  obtain k where k: "k = nat (min n 5)" "1 \<le> k" "k \<le> 5" using assms by (auto intro: that)
  have "(2::int) ^ 1 \<le> 2 ^ k" "(2::int) ^ k \<le> 2 ^ 5"
    by (rule power_increasing; use k in simp)+
  then show ?thesis by (simp add: retry_delay_def k(1) [symmetric])
qed

text \<open>Property C12. After a transport failure a replayable call is offered again after 2 to 32
  seconds, under the same attempt count and with the round back in \<open>response_ready\<close>; any other
  call is failed as unknown and never offered again. The delay is a function of the round, not of
  the number of attempts, and never reaches the cap of 60 seconds.\<close>

theorem transport_failure_retries_bounded:
  assumes "locked_lease t lease db = Inr (row, job)" "clock 0 \<le> t" "0 < rs_revision (ls_resume lease)"
    and "execute_lease E nonce clock lease ExecTransport db = (err, db')"
  shows "err = None \<and>
    (\<exists>d job'. 2 \<le> d \<and> d \<le> 32 \<and> d = retry_delay (rs_revision (ls_resume lease)) \<and>
       jobs db' (jb_id job) = Some job' \<and> jb_attempt job' = jb_attempt job \<and>
       (if ia_effect row \<in> {READ, PREPARE} \<and> ia_replay_mode row = ''reusable''
        then jb_state job' = JobReady \<and> jb_next_attempt_at job' = Some (clock 1 + seconds d)
        else jb_state job' = JobTerminalFailed \<and> jb_safe_error_code job' = Some REMOTE_RESULT_UNKNOWN))"
proof -
  let ?d = "retry_delay (rs_revision (ls_resume lease))"
  have l0: "locked_lease (clock 0) lease db = Inr (row, job)"
    by (rule locked_lease_times [OF assms(1,2)])
  have id: "jobs db (jb_id job) = Some job"
    using locked_lease_Inr(1) [OF l0] row_by_Some_mem by fastforce
  have "2 \<le> ?d" "?d \<le> 32" using retry_delay_bounds [OF assms(3)] by simp_all
  moreover obtain db1 where r: "retry (clock 0) (clock 1) lease ?d REMOTE_RESULT_UNKNOWN db = Inr db1"
    using retry_Inr [OF l0] by blast
  moreover have "err = None" "db' = db1" using assms(4) r by (simp_all add: execute_lease_def transact_def)
  moreover have "\<exists>job'. jobs db1 (jb_id job) = Some job' \<and> jb_attempt job' = jb_attempt job \<and>
       (if ia_effect row \<in> {READ, PREPARE} \<and> ia_replay_mode row = ''reusable''
        then jb_state job' = JobReady \<and> jb_next_attempt_at job' = Some (clock 1 + seconds ?d)
        else jb_state job' = JobTerminalFailed \<and> jb_safe_error_code job' = Some REMOTE_RESULT_UNKNOWN)"
    using r l0 id by (auto simp: retry_def jobs_after_put terminal_job_def split: if_splits)
  ultimately show ?thesis by blast
qed

section \<open>Batches\<close>

lemma execute_lease_inv:
  assumes inv: "mcp_inv E db" and step: "execute_lease E nonce clock lease out db = (err, db')"
  shows "mcp_inv E db'"
proof -
  have t: "mcp_inv E db'" if "transact m db = (err, db')" "\<And>d. m = Inr d \<Longrightarrow> mcp_inv E d" for m
    using that inv by (auto simp: transact_def split: sum.splits)
  show ?thesis
  proof (cases out)
    case (ExecReturned v)
    then show ?thesis
      using step inv complete_inv [OF inv] terminal_fail_inv [OF inv]
      by (auto simp: execute_lease_def split: sum.splits RepoError.splits)
  next
    case (ExecStateError c)
    then show ?thesis using t step terminal_fail_inv [OF inv] by (auto simp: execute_lease_def)
  next
    case ExecTransport
    then show ?thesis using t step retry_inv [OF inv] by (auto simp: execute_lease_def)
  next
    case ExecFailed
    then show ?thesis using t step terminal_fail_inv [OF inv] by (auto simp: execute_lease_def)
  qed (use step inv in \<open>simp_all add: execute_lease_def\<close>)
qed

lemma run_batch_inv:
  assumes keeps: "\<And>k lease d. mcp_inv E d \<Longrightarrow> mcp_inv E (snd (bw_execute W k lease d))"
  shows "mcp_inv E db \<Longrightarrow> run_batch E W owner secs n k db = (err, m, db') \<Longrightarrow>
    mcp_inv E db' \<and> k \<le> m \<and> m \<le> k + n"
proof (induction n arbitrary: k db)
  case 0
  then show ?case by simp
next
  case (Suc n)
  show ?case
  proof (cases "lease_ready E (bw_clock W k) (bw_locked W k) owner secs 1 db")
    case (Inl e)
    then show ?thesis using Suc.prems by simp
  next
    case (Inr r)
    obtain db1 ls where r: "r = (db1, ls)" by (cases r)
    have inv1: "mcp_inv E db1" using lease_ready_inv [OF Suc.prems(1)] Inr r by simp
    show ?thesis
    proof (cases ls)
      case Nil
      then show ?thesis using Suc.prems Inr r inv1 by simp
    next
      case (Cons lease rest)
      obtain first db2 where x: "bw_execute W k lease db1 = (first, db2)" by (cases "bw_execute W k lease db1")
      obtain err2 db3 where y: "execute_lease E (bw_nonce W k) (bw_settle_clock W k) lease
          (execute_with_renewal first) db2 = (err2, db3)" by fastforce
      have "mcp_inv E db3" using execute_lease_inv [OF _ y] keeps [OF inv1, of k lease] x by simp
      then show ?thesis
        using Suc.prems Suc.IH [of db3 "Suc k"] Inr r Cons x y by (cases err2) auto
    qed
  qed
qed

text \<open>A batch keeps the invariant of the store and processes at most \<open>batch_size\<close>
  jobs, whatever the executor does through the store's own transactions.\<close>

lemma batch_bounded_and_consistent:
  assumes "\<forall>k lease d. mcp_inv (new_repository P c L) d \<longrightarrow>
      mcp_inv (new_repository P c L) (snd (bw_execute W k lease d))"
    and "mcp_inv (new_repository P c L) db" "limits_valid L"
    and "run_once P c L W owner db = (err, n, db')"
  shows "mcp_inv (new_repository P c L) db' \<and> int n \<le> lim_batch_size L"
proof -
  have "mcp_inv (new_repository P c L) db' \<and> n \<le> nat (lim_batch_size L)"
    using run_batch_inv [OF _ assms(2) assms(4) [unfolded run_once_def]] assms(1) by simp
  then show ?thesis using assms(3) by (simp add: limits_valid_def le_nat_iff)
qed

section \<open>Witnesses\<close>

lemma tiny_serves: "keys_serve tiny_env (tiny_row m Resuming 3)"
proof -
  have "\<not> blank ''t''" "\<not> blank ''i''" by code_simp+
  then show ?thesis by (simp add: keys_serve_def tiny_env_def demo_cipher_def tiny_row_def)
qed

lemma tiny_fits: "result_fits tiny_env (tiny_row ''single_use'' Resuming 3) (JDict [])"
  by code_simp

theorem finished_execution_settles_witness:
  "\<exists>db' row' job'. execute_lease tiny_env (\<lambda>_. demo_nonce) (\<lambda>_. 4) tiny_lease (ExecReturned (JDict []))
       (tiny_leased ''single_use'') = (None, db') \<and>
     rows db' ''i'' = Some row' \<and> ia_state row' = RowCompleted \<and>
     jobs db' ''j'' = Some job' \<and> jb_state job' = JobSucceeded"
proof -
  obtain err db' where e: "execute_lease tiny_env (\<lambda>_. demo_nonce) (\<lambda>_. 4) tiny_lease (ExecReturned (JDict []))
      (tiny_leased ''single_use'') = (err, db')"
    by (cases "execute_lease tiny_env (\<lambda>_. demo_nonce) (\<lambda>_. 4) tiny_lease (ExecReturned (JDict []))
      (tiny_leased ''single_use'')")
  have "err = None \<and> leaves_pair tiny_env (\<lambda>_. demo_nonce) tiny_lease (tiny_row ''single_use'' Resuming 3)
      (leased_job tiny_job ''w'' 10 3) (ExecReturned (JDict [])) db'"
    using finished_execution_settles [OF tiny_leased_lock _ e] tiny_serves by auto
  with e tiny_fits show ?thesis
    by (auto simp: leaves_pair_def settled_as_def tiny_row_def tiny_job_def leased_job_def split: option.splits)
qed

theorem transport_failure_retries_bounded_example:
  "\<exists>db' job'. execute_lease tiny_env (\<lambda>_. demo_nonce) (\<lambda>_. 4) tiny_lease ExecTransport (tiny_leased ''reusable'')
     = (None, db') \<and> jobs db' ''j'' = Some job' \<and> jb_state job' = JobReady"
proof -
  obtain err db' where e: "execute_lease tiny_env (\<lambda>_. demo_nonce) (\<lambda>_. 4) tiny_lease ExecTransport
      (tiny_leased ''reusable'') = (err, db')" by fastforce
  from transport_failure_retries_bounded [OF tiny_leased_lock _ _ e] e show ?thesis
    by (auto simp: tiny_lease_def tiny_row_def tiny_job_def leased_job_def)
qed

definition tiny_limits :: InteractionServiceLimits where
  "tiny_limits = \<lparr>lim_lease_seconds = 10, lim_batch_size = 2, lim_max_rounds = 3,
     lim_max_payload_bytes = 1000, lim_ttl_seconds = 600\<rparr>"

definition idle_world :: batch_world where
  "idle_world = \<lparr>bw_clock = (\<lambda>_ _. 3), bw_settle_clock = (\<lambda>_ _. 4), bw_locked = (\<lambda>_ _. False),
     bw_nonce = (\<lambda>_ _. demo_nonce), bw_execute = (\<lambda>_ _ db. (Some ExecFailed, db))\<rparr>"

lemma batch_bounded_and_consistent_example:
  "case run_once tiny_platform demo_cipher tiny_limits idle_world ''w'' (tiny_ready ''single_use'') of
     (err, n, db') \<Rightarrow> mcp_inv tiny_env db' \<and> n \<le> 2"
proof -
  have env: "new_repository tiny_platform demo_cipher tiny_limits = tiny_env"
    by (simp add: new_repository_def tiny_limits_def tiny_env_def)
  obtain err n db' where "run_once tiny_platform demo_cipher tiny_limits idle_world ''w'' (tiny_ready ''single_use'')
      = (err, n, db')" by (metis prod_cases3)
  moreover have "limits_valid tiny_limits" "\<forall>k lease d. mcp_inv tiny_env d \<longrightarrow> mcp_inv tiny_env (snd (bw_execute idle_world k lease d))"
    by (simp_all add: idle_world_def limits_valid_def tiny_limits_def)
  moreover have "lim_batch_size tiny_limits = 2" by (simp add: tiny_limits_def)
  ultimately show ?thesis
    using batch_bounded_and_consistent [of tiny_platform demo_cipher tiny_limits idle_world] tiny_inv(2)
    by (simp add: env)
qed


end
