(* ===== verification/Tool_Gate.thy ===== *)
theory Tool_Gate
  imports Prelude
begin

text \<open>
  Serialisation of the tool calls of one run
  (\<open>src/api/identity/mcp_interactions/tool_gate.py\<close>). A call reserves a ticket, waits for the
  ticket before it, calls its delegate unless the run is paused, and completes its ticket. The
  calls are indexed by the order in which they reserved. A step is one atomic piece of the two
  entry points: the threads and tasks of a run interleave these steps freely.
\<close>

datatype call_outcome = Returned | Raised | PausedWith "string \<times> int"

datatype call_phase =
    Waiting \<comment> \<open>before \<open>previous\<close> is done\<close>
  | Running \<comment> \<open>inside the delegate\<close>
  | Finished call_outcome
  | Abandoned \<comment> \<open>cancelled while waiting; its ticket is completed by the callback on \<open>previous\<close>\<close>

record gate_call =
  phase :: call_phase
  ticket_done :: bool

record gate =
  calls :: "gate_call list"
  gate_paused :: "(string \<times> int) option"
  delegated :: "nat list" \<comment> \<open>the calls whose delegate was invoked, in that order\<close>

definition new_gate :: gate where
  "new_gate = \<lparr>calls = [], gate_paused = None, delegated = []\<rparr>"

definition previous_done :: "gate \<Rightarrow> nat \<Rightarrow> bool" where
  \<comment> \<open>the initial tail is a completed future\<close>
  "previous_done g i \<longleftrightarrow> i = 0 \<or> ticket_done (calls g ! (i - 1))"

definition reserve :: "gate \<Rightarrow> gate" where
  "reserve g = g\<lparr>calls := calls g @ [\<lparr>phase = Waiting, ticket_done = False\<rparr>]\<rparr>"

definition set_call :: "nat \<Rightarrow> call_phase \<Rightarrow> bool \<Rightarrow> gate \<Rightarrow> gate" where
  "set_call i ph d g = g\<lparr>calls := (calls g)[i := \<lparr>phase = ph, ticket_done = d\<rparr>]\<rparr>"

definition record_pause :: "string \<times> int \<Rightarrow> gate \<Rightarrow> gate" where
  "record_pause p g = (if gate_paused g = None then g\<lparr>gate_paused := Some p\<rparr> else g)"

definition in_phase :: "gate \<Rightarrow> nat \<Rightarrow> call_phase \<Rightarrow> bool" where
  "in_phase g i ph \<longleftrightarrow> i < length (calls g) \<and> phase (calls g ! i) = ph"

inductive gate_step :: "gate \<Rightarrow> gate \<Rightarrow> bool" where
  reserved: "gate_step g (reserve g)"
| refused: "in_phase g i Waiting \<Longrightarrow> previous_done g i \<Longrightarrow> gate_paused g = Some p \<Longrightarrow>
    gate_step g (set_call i (Finished (PausedWith p)) True g)"
| admitted: "in_phase g i Waiting \<Longrightarrow> previous_done g i \<Longrightarrow> gate_paused g = None \<Longrightarrow>
    gate_step g (set_call i Running False (g\<lparr>delegated := delegated g @ [i]\<rparr>))"
| returned: "in_phase g i Running \<Longrightarrow> out \<in> {Returned, Raised} \<Longrightarrow>
    gate_step g (set_call i (Finished out) True g)"
| paused: "in_phase g i Running \<Longrightarrow>
    gate_step g (set_call i (Finished (PausedWith p)) True (record_pause p g))"
| cancelled: "in_phase g i Waiting \<Longrightarrow> gate_step g (set_call i Abandoned False g)"
| released: "in_phase g i Abandoned \<Longrightarrow> previous_done g i \<Longrightarrow>
    gate_step g (set_call i Abandoned True g)"

inductive_cases gate_stepE: "gate_step g g'"

inductive gate_run :: "gate \<Rightarrow> gate \<Rightarrow> bool" where
  run_refl: "gate_run g g"
| run_step: "gate_run g h \<Longrightarrow> gate_step h k \<Longrightarrow> gate_run g k"

section \<open>Invariant\<close>

text \<open>
  Completed tickets form a prefix of the queue; a running call stands right behind it; the
  delegates were invoked in the order of the queue, each once, and only for calls at or before
  that place; a pause is recorded exactly when some delegate paused.
\<close>

definition done_prefix :: "gate \<Rightarrow> bool" where
  "done_prefix g \<longleftrightarrow> (\<forall>i < length (calls g). ticket_done (calls g ! i) \<longrightarrow> previous_done g i)"

definition call_ok :: "gate \<Rightarrow> nat \<Rightarrow> bool" where
  "call_ok g i \<longleftrightarrow>
     (case phase (calls g ! i) of
        Waiting \<Rightarrow> \<not> ticket_done (calls g ! i) \<and> i \<notin> set (delegated g)
      | Running \<Rightarrow> \<not> ticket_done (calls g ! i) \<and> previous_done g i \<and> i \<in> set (delegated g)
          \<and> gate_paused g = None
      | Finished out \<Rightarrow> ticket_done (calls g ! i) \<and>
          (case out of PausedWith p \<Rightarrow> gate_paused g \<noteq> None | _ \<Rightarrow> True)
      | Abandoned \<Rightarrow> i \<notin> set (delegated g))"

definition gate_inv :: "gate \<Rightarrow> bool" where
  "gate_inv g \<longleftrightarrow> done_prefix g \<and> (\<forall>i < length (calls g). call_ok g i) \<and>
     sorted_wrt (<) (delegated g) \<and>
     (\<forall>i \<in> set (delegated g). i < length (calls g) \<and> previous_done g i)"

lemma new_gate_inv: "gate_inv new_gate"
  by (simp add: gate_inv_def new_gate_def done_prefix_def)

lemma done_below:
  assumes "done_prefix g" "previous_done g i" "k < i" "i \<le> length (calls g)"
  shows "ticket_done (calls g ! k)"
  using assms(2-4)
proof (induction i)
  case 0
  then show ?case by simp
next
  case (Suc i)
  have t: "ticket_done (calls g ! i)" using Suc.prems(1) by (simp add: previous_done_def)
  show ?case
  proof (cases "k = i")
    case False
    have "previous_done g i" using t assms(1) Suc.prems(3) by (simp add: done_prefix_def)
    with Suc False show ?thesis by simp
  qed (use t in simp)
qed

lemma gate_invD:
  assumes "gate_inv g"
  shows "done_prefix g" "i < length (calls g) \<Longrightarrow> call_ok g i" "sorted_wrt (<) (delegated g)"
    "i \<in> set (delegated g) \<Longrightarrow> i < length (calls g)" "i \<in> set (delegated g) \<Longrightarrow> previous_done g i"
  using assms by (auto simp: gate_inv_def)

lemma running_unique:
  assumes "gate_inv g" "in_phase g i Running" "in_phase g k Running"
  shows "i = k"
proof -
  have *: "\<not> a < b" if "in_phase g a Running" "in_phase g b Running" for a b
  proof
    assume "a < b"
    have "call_ok g a" "call_ok g b" using that gate_invD(2) [OF assms(1)] by (auto simp: in_phase_def)
    then have "\<not> ticket_done (calls g ! a)" "previous_done g b"
      using that by (auto simp: call_ok_def in_phase_def)
    with done_below [OF gate_invD(1) [OF assms(1)] _ \<open>a < b\<close>] that show False
      by (auto simp: in_phase_def)
  qed
  with assms show ?thesis by (metis linorder_neqE_nat)
qed

lemma update_inv:
  assumes inv: "gate_inv g" and i: "i < length (calls g)"
    and calls: "calls g' = (calls g)[i := \<lparr>phase = ph, ticket_done = d\<rparr>]"
    and d: "ticket_done (calls g ! i) \<Longrightarrow> d" "d \<Longrightarrow> previous_done g i"
    and del: "delegated g' = delegated g \<or>
      delegated g' = delegated g @ [i] \<and> phase (calls g ! i) = Waiting \<and> previous_done g i"
    and paused: "gate_paused g' = gate_paused g \<or> in_phase g i Running \<and> gate_paused g' \<noteq> None"
    and ok: "call_ok g' i"
  shows "gate_inv g'"
proof -
  note D = gate_invD [OF inv]
  have len: "length (calls g') = length (calls g)" by (simp add: calls)
  have mono: "previous_done g k \<Longrightarrow> previous_done g' k" if "k < length (calls g)" for k
    using d(1) i that by (auto simp: previous_done_def calls nth_list_update)
  have same: "calls g' ! k = calls g ! k" if "k \<noteq> i" for k using that by (simp add: calls)
  have "done_prefix g'"
    unfolding done_prefix_def len
  proof (intro allI impI)
    fix k assume k: "k < length (calls g)" "ticket_done (calls g' ! k)"
    show "previous_done g' k"
      using k D(1) same [of k] d(2) i mono by (cases "k = i") (auto simp: done_prefix_def calls)
  qed
  moreover have "call_ok g' k" if k: "k < length (calls g')" for k
  proof (cases "k = i")
    case False
    have old: "call_ok g k" using D(2) k len by simp
    have "phase (calls g ! k) = Running \<Longrightarrow> gate_paused g' = gate_paused g"
      using paused running_unique [OF inv, of i k] False k len by (auto simp: in_phase_def)
    moreover have "gate_paused g \<noteq> None \<Longrightarrow> gate_paused g' \<noteq> None"
      using paused D(2) [OF i] by (auto simp: in_phase_def call_ok_def)
    moreover have "k \<in> set (delegated g') \<longleftrightarrow> k \<in> set (delegated g)" using del False by auto
    ultimately show ?thesis
      using old same [OF False] mono [of k] k len
      by (auto simp: call_ok_def split: call_phase.splits call_outcome.splits)
  qed (use ok in simp)
  moreover have "sorted_wrt (<) (delegated g')"
  proof (cases "delegated g' = delegated g")
    case False
    then have new: "delegated g' = delegated g @ [i]" "phase (calls g ! i) = Waiting" using del by auto
    have "k < i" if k: "k \<in> set (delegated g)" for k
    proof -
      have "\<not> ticket_done (calls g ! i)" "i \<notin> set (delegated g)"
        using D(2) [OF i] new(2) by (auto simp: call_ok_def)
      moreover have "ticket_done (calls g ! i)" if "i < k"
        using done_below [OF D(1) D(5) [OF k] that] D(4) [OF k] by simp
      ultimately show ?thesis using k by (metis linorder_neqE_nat)
    qed
    with new D(3) show ?thesis by (simp add: sorted_wrt_append)
  qed (use D(3) in simp)
  moreover have "k < length (calls g') \<and> previous_done g' k" if "k \<in> set (delegated g')" for k
    using that del D(4,5) [of k] mono [of k] mono [of i] i len by auto
  ultimately show ?thesis by (simp add: gate_inv_def)
qed

lemma reserve_inv:
  assumes "gate_inv g"
  shows "gate_inv (reserve g)"
proof -
  note D = gate_invD [OF assms]
  have nth: "calls (reserve g) ! k = calls g ! k" if "k < length (calls g)" for k
    using that by (simp add: reserve_def nth_append)
  have prev: "previous_done (reserve g) k = previous_done g k" if "k \<le> length (calls g)" for k
    using that nth [of "k - 1"] by (cases k) (auto simp: previous_done_def)
  have last: "calls (reserve g) ! length (calls g) = \<lparr>phase = Waiting, ticket_done = False\<rparr>"
    and len: "length (calls (reserve g)) = Suc (length (calls g))"
    and rest: "delegated (reserve g) = delegated g" "gate_paused (reserve g) = gate_paused g"
    by (simp_all add: reserve_def)
  have "call_ok (reserve g) k" if "k < Suc (length (calls g))" for k
  proof (cases "k = length (calls g)")
    case True
    then show ?thesis using D(4) [of k] by (auto simp: call_ok_def last rest)
  next
    case False
    then have "k < length (calls g)" using that by simp
    with D(2) [OF this] show ?thesis 
      by (auto simp: call_ok_def nth prev rest split: call_phase.splits call_outcome.splits)
  qed
  moreover have "done_prefix (reserve g)"
    using D(1) by (auto simp: done_prefix_def len less_Suc_eq nth prev last)
  ultimately show ?thesis using D(3,4,5) prev
    by (simp add: gate_inv_def len rest less_Suc_eq order_less_imp_le)
qed

lemma in_phase_ok:
  "gate_inv g \<Longrightarrow> in_phase g i ph \<Longrightarrow> call_ok g i \<and> i < length (calls g) \<and> phase (calls g ! i) = ph"
  by (auto simp: in_phase_def gate_invD)

lemma previous_done_self:
  "i < length (calls g) \<Longrightarrow> previous_done (set_call i ph d g) i = previous_done g i"
  by (cases i) (auto simp: previous_done_def set_call_def)

lemma set_call_frame [simp]:
  "calls (set_call i ph d g) = (calls g)[i := \<lparr>phase = ph, ticket_done = d\<rparr>]"
  "delegated (set_call i ph d g) = delegated g" "gate_paused (set_call i ph d g) = gate_paused g"
  by (simp_all add: set_call_def)

lemma previous_done_fields [simp]:
  "previous_done (g\<lparr>delegated := ds\<rparr>) i = previous_done g i"
  "previous_done (record_pause p g) i = previous_done g i"
  by (simp_all add: previous_done_def record_pause_def)

lemma gate_step_inv: "gate_step g g' \<Longrightarrow> gate_inv g \<Longrightarrow> gate_inv g'"
proof (induction rule: gate_step.induct)
  case (reserved g)
  then show ?case by (rule reserve_inv)
next
  case (refused g i p)
  note ok = in_phase_ok [OF refused.prems refused.hyps(1)]
  show ?case
    by (rule update_inv [OF refused.prems, where i = i and ph = "Finished (PausedWith p)" and d = True])
      (use ok refused.hyps in \<open>auto simp: call_ok_def previous_done_self\<close>)
next
  case (admitted g i)
  note ok = in_phase_ok [OF admitted.prems admitted.hyps(1)]
  show ?case
    by (rule update_inv [OF admitted.prems, where i = i and ph = "Running" and d = False])
      (use ok admitted.hyps in \<open>auto simp: call_ok_def previous_done_self\<close>)
next
  case (returned g i out)
  note ok = in_phase_ok [OF returned.prems returned.hyps(1)]
  show ?case
    by (rule update_inv [OF returned.prems, where i = i and ph = "Finished out" and d = True])
      (use ok returned.hyps in \<open>auto simp: call_ok_def previous_done_self\<close>)
next
  case (paused g i p)
  note ok = in_phase_ok [OF paused.prems paused.hyps(1)]
  show ?case
    by (rule update_inv [OF paused.prems, where i = i and ph = "Finished (PausedWith p)" and d = True])
      (use ok paused.hyps in \<open>auto simp: call_ok_def record_pause_def previous_done_self\<close>)
next
  case (cancelled g i)
  note ok = in_phase_ok [OF cancelled.prems cancelled.hyps(1)]
  show ?case
    by (rule update_inv [OF cancelled.prems, where i = i and ph = "Abandoned" and d = False])
      (use ok cancelled.hyps in \<open>auto simp: call_ok_def previous_done_self\<close>)
next
  case (released g i)
  note ok = in_phase_ok [OF released.prems released.hyps(1)]
  show ?case
    by (rule update_inv [OF released.prems, where i = i and ph = "Abandoned" and d = True])
      (use ok released.hyps in \<open>auto simp: call_ok_def previous_done_self\<close>)
qed

lemma gate_run_inv: "gate_run g g' \<Longrightarrow> gate_inv g \<Longrightarrow> gate_inv g'"
  by (induction rule: gate_run.induct) (auto intro: gate_step_inv)

section \<open>The closed gate\<close>

lemma nth_update_if: "xs[i := c] ! k = (if i = k \<and> k < length xs then c else xs ! k)"
  by (cases "i = k") (auto simp: list_update_beyond)

lemma closed_step:
  assumes "gate_step g g'" "gate_inv g" "gate_paused g = Some p"
  shows "gate_paused g' = Some p \<and> delegated g' = delegated g \<and>
    (\<forall>i < length (calls g). phase (calls g ! i) = Waiting \<longrightarrow>
       phase (calls g' ! i) \<in> {Waiting, Abandoned, Finished (PausedWith p)})"
  using assms
proof (cases rule: gate_step.cases)
  case reserved
  then show ?thesis using assms by (simp add: reserve_def nth_append)
next
  case (returned i out)
  then show ?thesis using in_phase_ok [OF assms(2) returned(2)] assms(3) by (auto simp: call_ok_def nth_update_if)
next
  case (paused i q)
  then show ?thesis using in_phase_ok [OF assms(2) paused(2)] assms(3) by (auto simp: call_ok_def nth_update_if)
qed (use assms in \<open>auto simp: nth_update_if\<close>)

text \<open>What can still happen to a call that was waiting when the run paused.\<close>

definition shut_out :: "string \<times> int \<Rightarrow> gate \<Rightarrow> nat \<Rightarrow> bool" where
  "shut_out p g i \<longleftrightarrow> i < length (calls g) \<and>
     phase (calls g ! i) \<in> {Waiting, Abandoned, Finished (PausedWith p)}"

lemma step_length: "gate_step g g' \<Longrightarrow> length (calls g) \<le> length (calls g')"
  by (induction rule: gate_step.induct) (simp_all add: reserve_def record_pause_def)

lemma shut_out_step:
  assumes "gate_step g g'" "gate_inv g" "gate_paused g = Some p" "shut_out p g i"
  shows "shut_out p g' i"
proof (cases "phase (calls g ! i) = Waiting")
  case True
  then show ?thesis
    using closed_step [OF assms(1-3)] assms(4) step_length [OF assms(1)] by (auto simp: shut_out_def)
next
  case False
  with assms(4) have ph: "phase (calls g ! i) \<in> {Abandoned, Finished (PausedWith p)}"
    and i: "i < length (calls g)" by (auto simp: shut_out_def)
  from assms(1) have "phase (calls g' ! i) = phase (calls g ! i)"
    by (cases rule: gate_step.cases)
      (use ph i in \<open>auto simp: reserve_def nth_append nth_update_if in_phase_def record_pause_def\<close>)
  with ph i step_length [OF assms(1)] show ?thesis by (auto simp: shut_out_def)
qed

lemma closed_run:
  "gate_run g g' \<Longrightarrow> gate_inv g \<Longrightarrow> gate_paused g = Some p \<Longrightarrow>
     gate_inv g' \<and> gate_paused g' = Some p \<and> delegated g' = delegated g \<and>
     (\<forall>i. shut_out p g i \<longrightarrow> shut_out p g' i)"
proof (induction rule: gate_run.induct)
  case (run_refl g)
  then show ?case by simp
next
  case (run_step g h k)
  then have IH: "gate_inv h" "gate_paused h = Some p" "delegated h = delegated g"
    "\<forall>i. shut_out p g i \<longrightarrow> shut_out p h i" by auto
  then show ?case
    using gate_step_inv [OF run_step.hyps(2)] closed_step [OF run_step.hyps(2)]
      shut_out_step [OF run_step.hyps(2)] by auto
qed

section \<open>Properties of the gate\<close>

text \<open>Property C13. Whatever the interleaving of the run's threads and tasks, the delegates are
  called one at a time and in the order in which the calls were made.\<close>

theorem gate_serialises_in_order:
  assumes "gate_run new_gate g"
  shows "sorted_wrt (<) (delegated g) \<and>
    (\<forall>i k. in_phase g i Running \<and> in_phase g k Running \<longrightarrow> i = k)"
  using running_unique gate_run_inv [OF assms new_gate_inv] gate_invD(3) by blast

lemma late_finish:
  assumes "gate_run g g'" "gate_inv g" "gate_paused g = Some p" "in_phase g' i (Finished out)"
  shows "in_phase g i (Finished out) \<or> out = PausedWith p"
  using assms
proof (induction arbitrary: out rule: gate_run.induct)
  case (run_step g h k)
  have h: "gate_inv h" "gate_paused h = Some p"
    using closed_run [OF run_step.hyps(1) run_step.prems(1,2)] by auto
  have "in_phase h i (Finished out) \<or> out = PausedWith p"
    using run_step.hyps(2)
  proof (cases rule: gate_step.cases)
    case reserved
    with run_step.prems(3) show ?thesis by (auto simp: in_phase_def reserve_def nth_append split: if_splits)
  next
    case (returned m o')
    with in_phase_ok [OF h(1) returned(2)] h(2) show ?thesis by (auto simp: call_ok_def)
  next
    case (paused m q)
    with in_phase_ok [OF h(1) paused(2)] h(2) show ?thesis by (auto simp: call_ok_def)
  qed (use run_step.prems(3) h(2) in \<open>auto simp: in_phase_def nth_update_if split: if_splits\<close>)
  with run_step.IH [OF run_step.prems(1,2)] show ?case by blast
qed simp

text \<open>Property C14. Once a delegate paused the run, no delegate runs or is called any more, whatever happens next, the pause stays
  recorded as it is, and every call that ends after it, waiting then or made later, ends with that same pause.\<close>

theorem gate_closes_at_first_pause:
  assumes "gate_run new_gate g" "gate_paused g = Some p" "gate_run g g'"
  shows "delegated g' = delegated g \<and> gate_paused g' = Some p \<and> (\<forall>i. \<not> in_phase g' i Running) \<and>
    (\<forall>i out. in_phase g' i (Finished out) \<longrightarrow> in_phase g i (Finished out) \<or> out = PausedWith p)"
proof -
  have inv: "gate_inv g" by (rule gate_run_inv [OF assms(1) new_gate_inv])
  note closed = closed_run [OF assms(3) inv assms(2)]
  have "\<not> in_phase g' i Running" for i
    using in_phase_ok [of g' i Running] closed by (auto simp: call_ok_def)
  with closed late_finish [OF assms(3) inv assms(2)] show ?thesis by blast
qed

text \<open>Pending work: a waiting call has two steps ahead of it, a running or an abandoned one has one.\<close>

definition call_debt :: "gate_call \<Rightarrow> nat" where
  "call_debt c = (if ticket_done c then 0 else if phase c = Waiting then 2 else 1)"

definition debt :: "gate \<Rightarrow> nat" where
  "debt g = sum_list (map call_debt (calls g))"

lemma debt_update:
  assumes "i < length (calls g)" "call_debt c < call_debt (calls g ! i)"
  shows "debt (g\<lparr>calls := (calls g)[i := c]\<rparr>) < debt g"
proof -
  have "sum_list (map call_debt (take i (calls g))) + call_debt c + sum_list (map call_debt (drop (Suc i) (calls g)))
      < sum_list (map call_debt (take i (calls g))) + call_debt (calls g ! i)
        + sum_list (map call_debt (drop (Suc i) (calls g)))" using assms(2) by simp
  also have "\<dots> = debt g"
    unfolding debt_def by (subst (4) id_take_nth_drop [OF assms(1)]) simp
  finally show ?thesis
    using assms(1) by (simp add: debt_def upd_conv_take_nth_drop)
qed

text \<open>The gate's own moves: steps that neither make nor cancel a call. A delegate ends in some way.\<close>

definition gate_move :: "gate \<Rightarrow> gate \<Rightarrow> bool" where
  "gate_move g g' \<longleftrightarrow> gate_step g g' \<and> g' \<noteq> g \<and> length (calls g') = length (calls g) \<and>
     (\<forall>i. in_phase g' i Abandoned \<longrightarrow> in_phase g i Abandoned)"

lemma moves_run: "gate_move\<^sup>*\<^sup>* g g' \<Longrightarrow> gate_run g g'"
  by (induction rule: rtranclp_induct) (auto simp: gate_move_def intro: gate_run.intros)

lemma gate_run_trans: "gate_run h k \<Longrightarrow> gate_run g h \<Longrightarrow> gate_run g k"
  by (induction rule: gate_run.induct) (auto intro: gate_run.intros)

lemma debt_set_call:
  assumes "i < length (calls g)" "call_debt \<lparr>phase = ph, ticket_done = d\<rparr> < call_debt (calls g ! i)" "calls h = calls g"
  shows "debt (set_call i ph d h) < debt g"
  using debt_update [OF assms(1,2)] assms(3) by (simp add: debt_def set_call_def)

lemma record_pause_calls [simp]: "calls (record_pause p g) = calls g"
  by (simp add: record_pause_def)

lemma open_call:
  assumes "gate_inv g" "in_phase g i ph" "ph = Waiting \<or> ph = Running"
  shows "i < length (calls g)" "\<not> ticket_done (calls g ! i)" "phase (calls g ! i) = ph"
  using in_phase_ok [OF assms(1,2)] assms(3) by (elim disjE; simp add: call_ok_def)+

lemma move_debt:
  assumes "gate_move g g'" "gate_inv g"
  shows "debt g' < debt g"
proof -
  have step: "gate_step g g'" and ne: "g' \<noteq> g" and len: "length (calls g') = length (calls g)"
    and new: "\<And>i. in_phase g' i Abandoned \<Longrightarrow> in_phase g i Abandoned"
    using assms(1) by (auto simp: gate_move_def)
  from step show ?thesis
  proof (cases rule: gate_step.cases)
    case reserved
    with len show ?thesis by (simp add: reserve_def)
  next
    case (cancelled i)
    with new [of i] show ?thesis by (auto simp: in_phase_def)
  next
    case (released i)
    have "\<not> ticket_done (calls g ! i)"
    proof
      assume "ticket_done (calls g ! i)"
      with released(2) have "calls g ! i = \<lparr>phase = Abandoned, ticket_done = True\<rparr>" by (simp add: in_phase_def)
      then have "(calls g)[i := \<lparr>phase = Abandoned, ticket_done = True\<rparr>] = calls g" by (metis list_update_id)
      then have "set_call i Abandoned True g = g" by (simp add: set_call_def)
      with ne released show False by simp
    qed
    with released show ?thesis by (auto intro!: debt_set_call simp: in_phase_def call_debt_def)
  next
    case (refused i p)
    with open_call [OF assms(2) refused(2)] show ?thesis by (auto intro!: debt_set_call simp: call_debt_def)
  next
    case (admitted i)
    with open_call [OF assms(2) admitted(2)] show ?thesis by (auto intro!: debt_set_call simp: call_debt_def)
  next
    case (returned i out)
    with open_call [OF assms(2) returned(2)] show ?thesis by (auto intro!: debt_set_call simp: call_debt_def)
  next
    case (paused i p)
    with open_call [OF assms(2) paused(2)] show ?thesis by (auto intro!: debt_set_call simp: call_debt_def)
  qed
qed

lemma open_ticket_moves:
  assumes inv: "gate_inv g" and "m < length (calls g)" "\<not> ticket_done (calls g ! m)"
  shows "\<exists>g'. gate_move g g'"
proof -
  obtain i where i: "i < length (calls g)" "\<not> ticket_done (calls g ! i)"
    and least: "\<And>k. k < i \<Longrightarrow> ticket_done (calls g ! k)"
    using assms(2,3) exists_least_iff [of "\<lambda>i. i < length (calls g) \<and> \<not> ticket_done (calls g ! i)"]
    by (metis order.strict_trans)
  then have prev: "previous_done g i" by (cases i) (simp_all add: previous_done_def)
  have ok: "call_ok g i" using gate_invD(2) [OF inv i(1)] .
  have move: "?thesis" if "gate_step g g'" "calls g' = (calls g)[i := c]" "c \<noteq> calls g ! i" "phase c = Abandoned \<Longrightarrow> phase (calls g ! i) = Abandoned" for g' c
  proof -
    have "calls g' ! i \<noteq> calls g ! i" using that(2,3) i(1) by simp
    then have "g' \<noteq> g" by auto
    with that show ?thesis by (auto simp: gate_move_def in_phase_def nth_update_if split: if_splits)
  qed
  have changed: "\<lparr>phase = ph, ticket_done = True\<rparr> \<noteq> calls g ! i" for ph
    using i(2) by (metis gate_call.select_convs(2))
  show ?thesis
  proof (cases "phase (calls g ! i)")
    case Waiting
    then have w: "in_phase g i Waiting" using i by (simp add: in_phase_def)
    show ?thesis
    proof (cases "gate_paused g")
      case None
      have "\<lparr>phase = Running, ticket_done = False\<rparr> \<noteq> calls g ! i" using Waiting by (metis call_phase.distinct(1) gate_call.select_convs(1))
      from move [OF gate_step.admitted [OF w prev None] _ this] show ?thesis by simp
    next
      case (Some p)
      from move [OF gate_step.refused [OF w prev Some] _ changed [of "Finished (PausedWith p)"]] show ?thesis by simp
    qed
  next
    case Running
    then have "in_phase g i Running" using i by (simp add: in_phase_def)
    from move [OF gate_step.returned [OF this, of Returned] _ changed [of "Finished Returned"]] show ?thesis by simp
  next
    case (Finished out)
    then show ?thesis using ok i by (simp add: call_ok_def)
  next
    case Abandoned
    then have "in_phase g i Abandoned" using i by (simp add: in_phase_def)
    from move [OF gate_step.released [OF this prev] _ changed [of Abandoned]] show ?thesis using Abandoned by simp
  qed
qed

text \<open>How a call can have ended: its delegate was called, or the run was paused.\<close>

definition accounted :: "gate \<Rightarrow> bool" where
  "accounted g \<longleftrightarrow> (\<forall>i out. in_phase g i (Finished out) \<longrightarrow>
     i \<in> set (delegated g) \<or> (\<exists>p. gate_paused g = Some p \<and> out = PausedWith p))"

lemma accounted_step:
  assumes "gate_step g g'" "gate_inv g" "accounted g"
  shows "accounted g'"
  using assms(1)
proof (cases rule: gate_step.cases)
  case reserved
  with assms(3) show ?thesis by (auto simp: accounted_def in_phase_def reserve_def nth_append split: if_splits)
next
  case (returned i out)
  with assms(3) in_phase_ok [OF assms(2) returned(2)] show ?thesis
    by (auto simp: accounted_def in_phase_def nth_update_if call_ok_def split: if_splits)
next
  case (paused i q)
  with assms(3) in_phase_ok [OF assms(2) paused(2)] show ?thesis
    by (auto simp: accounted_def in_phase_def nth_update_if call_ok_def record_pause_def split: if_splits)
qed (use assms(3) in \<open>auto simp: accounted_def in_phase_def nth_update_if split: if_splits\<close>)

lemma accounted_run: "gate_run g g' \<Longrightarrow> gate_inv g \<Longrightarrow> accounted g \<Longrightarrow> accounted g'"
  by (induction rule: gate_run.induct) (auto intro: accounted_step gate_run_inv)

lemma moves_length: "gate_move\<^sup>*\<^sup>* g g' \<Longrightarrow> length (calls g') = length (calls g)"
  by (induction rule: rtranclp_induct) (simp_all add: gate_move_def)

lemma moves_not_abandoned: "gate_move\<^sup>*\<^sup>* g g' \<Longrightarrow> in_phase g' i Abandoned \<Longrightarrow> in_phase g i Abandoned"
  by (induction rule: rtranclp_induct) (auto simp: gate_move_def)

lemma moves_bounded: "(gate_move ^^ n) g h \<Longrightarrow> gate_inv g \<Longrightarrow> n + debt h \<le> debt g \<and> gate_inv h"
proof (induction n arbitrary: h)
  case (Suc n)
  then obtain k where "(gate_move ^^ n) g k" "gate_move k h" by auto
  with Suc move_debt [of k h] gate_step_inv [of k h] show ?case by (fastforce simp: gate_move_def)
qed simp

text \<open>Property C15. The queue serves everybody. From every reachable state the gate can make only a bounded number of moves of
  its own (calls neither made nor cancelled, delegates ending in any way), and wherever these moves end, every ticket
  is complete and every call that was waiting has ended: its delegate was called, or it received the pause of the
  run. A call cancelled while it waits blocks nobody.\<close>

theorem gate_makes_progress:
  assumes "gate_run new_gate g"
  shows "(\<forall>n h. (gate_move ^^ n) g h \<longrightarrow> n \<le> debt g) \<and>
    (\<forall>g'. gate_move\<^sup>*\<^sup>* g g' \<and> (\<forall>h. \<not> gate_move g' h) \<longrightarrow>
       (\<forall>i < length (calls g). ticket_done (calls g' ! i) \<and> (in_phase g i Waiting \<longrightarrow>
          (\<exists>out. in_phase g' i (Finished out) \<and>
             (i \<in> set (delegated g') \<or> (\<exists>p. gate_paused g' = Some p \<and> out = PausedWith p))))))"
proof -
  have inv: "gate_inv g" using gate_run_inv [OF assms new_gate_inv] .
  have final: "ticket_done (calls g' ! i) \<and> (in_phase g i Waiting \<longrightarrow> (\<exists>out. in_phase g' i (Finished out) \<and>
      (i \<in> set (delegated g') \<or> (\<exists>p. gate_paused g' = Some p \<and> out = PausedWith p))))"
    if moves: "gate_move\<^sup>*\<^sup>* g g'" and stuck: "\<forall>h. \<not> gate_move g' h" and i: "i < length (calls g)" for g' i
  proof -
    have inv': "gate_inv g'" by (rule gate_run_inv [OF moves_run [OF moves] inv])
    have "gate_run new_gate g'" by (rule gate_run_trans [OF moves_run [OF moves] assms])
    then have acc: "accounted g'"
      by (rule accounted_run [OF _ new_gate_inv]) (simp add: accounted_def in_phase_def new_gate_def)
    have i': "i < length (calls g')" using moves_length [OF moves] i by simp
    have ticket: "ticket_done (calls g' ! i)"
      using open_ticket_moves [OF inv' i'] stuck by blast
    have "\<exists>out. in_phase g' i (Finished out)" if "in_phase g i Waiting"
      using gate_invD(2) [OF inv' i'] ticket moves_not_abandoned [OF moves, of i] that i'
      by (cases "phase (calls g' ! i)") (auto simp: call_ok_def in_phase_def)
    with ticket acc show ?thesis unfolding accounted_def by blast
  qed
  have "n \<le> debt g" if "(gate_move ^^ n) g h" for n h
    using moves_bounded [OF that inv] by simp
  with final show ?thesis by blast
qed

section \<open>A concrete run\<close>

text \<open>Two calls; the first delegate runs and pauses, the second call is refused.\<close>

definition two_calls :: gate where
  "two_calls = \<lparr>calls = [\<lparr>phase = Running, ticket_done = False\<rparr>, \<lparr>phase = Waiting, ticket_done = False\<rparr>],
     gate_paused = None, delegated = [0]\<rparr>"

definition first_paused :: gate where
  "first_paused = \<lparr>calls = [\<lparr>phase = Finished (PausedWith (''i'', 1)), ticket_done = True\<rparr>,
       \<lparr>phase = Waiting, ticket_done = False\<rparr>],
     gate_paused = Some (''i'', 1), delegated = [0]\<rparr>"

definition second_refused :: gate where
  "second_refused = set_call 1 (Finished (PausedWith (''i'', 1))) True first_paused"

lemma two_calls_reached: "gate_run new_gate two_calls"
proof -
  have "gate_run new_gate (reserve (reserve new_gate))"
    by (rule gate_run.run_step [OF gate_run.run_step [OF gate_run.run_refl gate_step.reserved] gate_step.reserved])
  moreover have "two_calls = set_call 0 Running False
      ((reserve (reserve new_gate))\<lparr>delegated := delegated (reserve (reserve new_gate)) @ [0]\<rparr>)"
    by (simp add: two_calls_def set_call_def reserve_def new_gate_def)
  moreover have "gate_step (reserve (reserve new_gate)) (set_call 0 Running False
      ((reserve (reserve new_gate))\<lparr>delegated := delegated (reserve (reserve new_gate)) @ [0]\<rparr>))"
    by (rule gate_step.admitted) (simp_all add: in_phase_def reserve_def new_gate_def previous_done_def)
  ultimately show ?thesis using gate_run.run_step by metis
qed

lemma first_paused_reached: "gate_run new_gate first_paused"
proof -
  have "gate_step two_calls (set_call 0 (Finished (PausedWith (''i'', 1))) True (record_pause (''i'', 1) two_calls))"
    by (rule gate_step.paused) (simp add: in_phase_def two_calls_def)
  moreover have "set_call 0 (Finished (PausedWith (''i'', 1))) True (record_pause (''i'', 1) two_calls) = first_paused"
    by (simp add: first_paused_def two_calls_def set_call_def record_pause_def)
  ultimately show ?thesis using two_calls_reached gate_run.run_step by metis
qed

lemma second_refused_reached: "gate_run first_paused second_refused"
  unfolding second_refused_def
  by (rule gate_run.run_step [OF gate_run.run_refl gate_step.refused])
    (simp_all add: in_phase_def first_paused_def previous_done_def)

theorem gate_serialises_in_order_witness:
  "delegated two_calls \<noteq> [] \<and> sorted_wrt (<) (delegated two_calls)"
  using gate_serialises_in_order [OF two_calls_reached] by (simp add: two_calls_def)

theorem gate_closes_at_first_pause_witness:
  "gate_paused second_refused = Some (''i'', 1) \<and> delegated second_refused = delegated first_paused \<and>
   in_phase second_refused 1 (Finished (PausedWith (''i'', 1)))"
  using gate_closes_at_first_pause [OF first_paused_reached _ second_refused_reached, of "(''i'', 1)"]
  by (simp add: first_paused_def second_refused_def in_phase_def)

lemma second_refused_move: "gate_move first_paused second_refused"
proof -
  have "gate_step first_paused second_refused"
    unfolding second_refused_def
    by (rule gate_step.refused) (simp_all add: in_phase_def first_paused_def previous_done_def)
  then show ?thesis
    by (auto simp: gate_move_def second_refused_def first_paused_def set_call_def in_phase_def nth_Cons split: nat.splits)
qed

lemma second_refused_final: "\<not> gate_move second_refused h"
  using move_debt [of second_refused h] gate_run_inv [OF gate_run_trans [OF second_refused_reached first_paused_reached] new_gate_inv]
  by (auto simp: debt_def second_refused_def first_paused_def call_debt_def)

theorem gate_makes_progress_witness:
  "gate_move first_paused second_refused \<and> in_phase first_paused 1 Waiting \<and> ticket_done (calls second_refused ! 1) \<and>
   (\<exists>out. in_phase second_refused 1 (Finished out))"
proof -
  have w: "in_phase first_paused 1 Waiting" "1 < length (calls first_paused)" by (simp_all add: in_phase_def first_paused_def)
  have "gate_move\<^sup>*\<^sup>* first_paused second_refused \<and> (\<forall>h. \<not> gate_move second_refused h)"
    using second_refused_move second_refused_final by blast
  with gate_makes_progress [OF first_paused_reached] w second_refused_move show ?thesis by blast
qed

end
