(* ===== verification/Canvas_Vars.thy ===== *)
theory Canvas_Vars
  imports Json
begin

text \<open>
  The variables of an agent canvas: the outputs of its components and the globals, read and
  written through references such as \<open>{retrieval_0@chunks.0.id}\<close> or \<open>{sys.query}\<close>
  (\<open>Graph\<close> of \<open>src/agent/canvas.py\<close>, the outputs of \<open>src/agent/component/base.py\<close> and
  \<open>src/common/variable_utils.py\<close>).

  A value is a JSON tree; a stream that a component hands out in place of its text is not a
  value here. Python's variables hold references, and a write by path changes the object in place:
  on trees a write replaces the value of one variable, which is what the code does as long as no other
  variable shares the changed object. \<open>Canvas_Store\<close> has the writes on shared objects and
  shows when the two agree. The texts Python reads as an integer index are those of ASCII digits.
\<close>

section \<open>Text\<close>

definition strip_char :: "char \<Rightarrow> string \<Rightarrow> string" where
  \<comment> \<open>\<open>s.strip(c)\<close> for a single character\<close>
  "strip_char c s = rev (dropWhile (\<lambda>x. x = c) (rev (dropWhile (\<lambda>x. x = c) s)))"

fun split_on :: "char \<Rightarrow> string \<Rightarrow> string list" where
  \<comment> \<open>\<open>s.split(c)\<close>\<close>
  "split_on c [] = [[]]"
| "split_on c (x # s) =
     (if x = c then [] # split_on c s
      else case split_on c s of [] \<Rightarrow> [[x]] | w # ws \<Rightarrow> (x # w) # ws)"

fun split_first :: "char \<Rightarrow> string \<Rightarrow> string \<times> string" where
  \<comment> \<open>\<open>s.split(c, 1)\<close>: the text before the first \<open>c\<close> and the text after it (empty when there is none)\<close>
  "split_first c [] = ([], [])"
| "split_first c (x # s) = (if x = c then ([], s) else (let (u, v) = split_first c s in (x # u, v)))"

definition is_digit :: "char \<Rightarrow> bool" where
  "is_digit c \<longleftrightarrow> 48 \<le> (of_char c :: nat) \<and> (of_char c :: nat) \<le> 57"

fun digits_val :: "nat \<Rightarrow> string \<Rightarrow> nat option" where
  \<comment> \<open>decimal digits, single underscores allowed between them\<close>
  "digits_val acc [] = None"
| "digits_val acc [c] = (if is_digit c then Some (10 * acc + (of_char c - 48)) else None)"
| "digits_val acc (c # d # s) =
     (if \<not> is_digit c then None
      else if d = CHR ''_'' then digits_val (10 * acc + (of_char c - 48)) s
      else digits_val (10 * acc + (of_char c - 48)) (d # s))"

definition py_int :: "string \<Rightarrow> int option" where
  \<comment> \<open>\<open>int(s)\<close>; \<open>None\<close> is the ValueError\<close>
  "py_int s =
     (case py_strip s of
        [] \<Rightarrow> None
      | c # r \<Rightarrow>
          if c = CHR ''-'' then map_option (\<lambda>n. - int n) (digits_val 0 r)
          else if c = CHR ''+'' then map_option int (digits_val 0 r)
          else map_option int (digits_val 0 (c # r)))"

definition py_index :: "'a list \<Rightarrow> int \<Rightarrow> 'a option" where
  \<comment> \<open>\<open>xs[i]\<close>; \<open>None\<close> is the IndexError\<close>
  "py_index xs i =
     (if 0 \<le> i \<and> i < int (length xs) then Some (xs ! nat i)
      else if i < 0 \<and> - int (length xs) \<le> i then Some (xs ! nat (int (length xs) + i))
      else None)"

section \<open>Components and their outputs\<close>

record out_entry =
  oe_value :: "json option"
  oe_ref :: "string option" \<comment> \<open>the \<open>ref\<close> key of an output that collects another one\<close>

record component =
  cp_name :: string \<comment> \<open>\<open>component_name\<close>, lower case\<close>
  cp_outputs :: "(string \<times> out_entry) list"
  cp_downstream :: "string list"
  cp_parent :: "string option"

record canvas =
  cv_globals :: pydict
  cv_components :: "(string \<times> component) list"

datatype var_error =
    MissingGlobal string \<comment> \<open>KeyError\<close>
  | MalformedReference \<comment> \<open>not exactly one \<open>@\<close>\<close>
  | MissingComponent string
  | NotADict \<comment> \<open>TypeError: item assignment into something that is no dict\<close>

definition cpn_output :: "component \<Rightarrow> string \<Rightarrow> json" where
  "cpn_output c var_nm =
     (if var_nm = [] then JDict (map (map_prod id (\<lambda>e. case oe_value e of None \<Rightarrow> JNull | Some v \<Rightarrow> v)) (cp_outputs c))
      else case map_of (cp_outputs c) var_nm of
             None \<Rightarrow> JStr []
           | Some e \<Rightarrow> (case oe_value e of None \<Rightarrow> JStr [] | Some v \<Rightarrow> v))"

definition set_output :: "string \<Rightarrow> json \<Rightarrow> component \<Rightarrow> component" where
  "set_output key v c =
     c\<lparr>cp_outputs := AList.update key
        (case map_of (cp_outputs c) key of
           None \<Rightarrow> \<lparr>oe_value = Some v, oe_ref = None\<rparr>
         | Some e \<Rightarrow> e\<lparr>oe_value := Some v\<rparr>) (cp_outputs c)\<rparr>"

definition cpn_error :: "component \<Rightarrow> json" where
  "cpn_error c = (case map_of (cp_outputs c) ''_ERROR'' of
     None \<Rightarrow> JNull | Some e \<Rightarrow> (case oe_value e of None \<Rightarrow> JNull | Some v \<Rightarrow> v))"

definition reset_outputs :: "component \<Rightarrow> component" where
  \<comment> \<open>\<open>reset(only_output=True)\<close>\<close>
  "reset_outputs c = c\<lparr>cp_outputs := map (map_prod id (oe_value_update (\<lambda>_. Some JNull))) (cp_outputs c)\<rparr>"

section \<open>Paths into a value\<close>

fun attribute :: "json \<Rightarrow> string \<Rightarrow> json" where
  \<comment> \<open>\<open>getattr(x, key, None)\<close> on a number; its methods are no values and read as missing\<close>
  "attribute (JInt n) key =
     (if key = ''real'' \<or> key = ''numerator'' then JInt n
      else if key = ''imag'' then JInt 0 else if key = ''denominator'' then JInt 1 else JNull)"
| "attribute (JBool b) key =
     (if key = ''real'' \<or> key = ''numerator'' then JInt (of_bool b)
      else if key = ''imag'' then JInt 0 else if key = ''denominator'' then JInt 1 else JNull)"
| "attribute (JFloat x) key =
     (if key = ''real'' then JFloat x else if key = ''imag'' then JFloat (Finite 0) else JNull)"
| "attribute _ key = JNull"

definition path_step :: "(string \<Rightarrow> json option) \<Rightarrow> json \<Rightarrow> string \<Rightarrow> json option" where
  \<comment> \<open>one turn of the loop; \<open>None\<close> is the early \<open>return None\<close>\<close>
  "path_step loads cur key =
     (if cur = JNull then None
      else case (case cur of JStr s \<Rightarrow> loads s | v \<Rightarrow> Some v) of
             None \<Rightarrow> None
           | Some (JDict d) \<Rightarrow> Some (dget d key)
           | Some (JList xs) \<Rightarrow> (case py_int key of None \<Rightarrow> None | Some i \<Rightarrow> py_index xs i)
           | Some v \<Rightarrow> Some (attribute v key))"

fun follow :: "(string \<Rightarrow> json option) \<Rightarrow> json \<Rightarrow> string list \<Rightarrow> json" where
  "follow loads cur [] = cur"
| "follow loads cur (key # keys) =
     (case path_step loads cur key of None \<Rightarrow> JNull | Some v \<Rightarrow> follow loads v keys)"

definition get_variable_param_value :: "(string \<Rightarrow> json option) \<Rightarrow> json \<Rightarrow> string \<Rightarrow> json" where
  "get_variable_param_value loads obj path =
     (if path = [] then obj else follow loads obj (split_on (CHR ''.'') path))"

fun set_at :: "json \<Rightarrow> string list \<Rightarrow> json \<Rightarrow> var_error + json" where
  "set_at (JDict d) [] v = Inr (JDict d)"
| "set_at (JDict d) [key] v = Inr (JDict (AList.update key v d))"
| "set_at (JDict d) (key # k # keys) v =
     bindE (set_at (case map_of d key of Some (JDict e) \<Rightarrow> JDict e | _ \<Rightarrow> JDict []) (k # keys) v)
       (\<lambda>sub. Inr (JDict (AList.update key sub d)))"
| "set_at _ keys v = Inl NotADict"

definition set_variable_param_value :: "json \<Rightarrow> string \<Rightarrow> json \<Rightarrow> var_error + json" where
  "set_variable_param_value obj path v =
     (if path = [] then Inr v else set_at obj (split_on (CHR ''.'') path) v)"

section \<open>References\<close>

datatype var_ref = GlobalVar string | OutputVar string string string | BadVar

definition strip_braces :: "string \<Rightarrow> string" where
  "strip_braces rf = strip_char (CHR ''}'') (strip_char (CHR ''{'') (strip_char (CHR '' '')
     (strip_char (CHR ''}'') (strip_char (CHR ''{'') rf))))"

definition parse_ref :: "string \<Rightarrow> var_ref" where
  "parse_ref rf =
     (let e = strip_braces rf in
      if CHR ''@'' \<notin> set e then GlobalVar e
      else case split_on (CHR ''@'') e of
             [cpn_id, var_nm] \<Rightarrow> (let (root_key, rest) = split_first (CHR ''.'') var_nm in OutputVar cpn_id root_key rest)
           | _ \<Rightarrow> BadVar)"

definition get_variable_value :: "(string \<Rightarrow> json option) \<Rightarrow> canvas \<Rightarrow> string \<Rightarrow> var_error + json" where
  "get_variable_value loads c rf =
     (case parse_ref rf of
        GlobalVar e \<Rightarrow> (case map_of (cv_globals c) e of None \<Rightarrow> Inl (MissingGlobal e) | Some v \<Rightarrow> Inr v)
      | BadVar \<Rightarrow> Inl MalformedReference
      | OutputVar cpn_id root_key rest \<Rightarrow>
          (case map_of (cv_components c) cpn_id of
             None \<Rightarrow> Inl (MissingComponent cpn_id)
           | Some cpn \<Rightarrow> Inr (if rest = [] then cpn_output cpn root_key
               else get_variable_param_value loads (cpn_output cpn root_key) rest)))"

definition put_component :: "string \<Rightarrow> component \<Rightarrow> canvas \<Rightarrow> canvas" where
  "put_component i cpn c = c\<lparr>cv_components := AList.update i cpn (cv_components c)\<rparr>"

definition set_variable_value :: "canvas \<Rightarrow> string \<Rightarrow> json \<Rightarrow> var_error + canvas" where
  "set_variable_value c rf v =
     (case parse_ref rf of
        GlobalVar e \<Rightarrow> Inr (c\<lparr>cv_globals := AList.update e v (cv_globals c)\<rparr>)
      | BadVar \<Rightarrow> Inl MalformedReference
      | OutputVar cpn_id root_key rest \<Rightarrow>
          (case map_of (cv_components c) cpn_id of
             None \<Rightarrow> Inl (MissingComponent cpn_id)
           | Some cpn \<Rightarrow>
               if rest = [] then Inr (put_component cpn_id (set_output root_key v cpn) c)
               else
                 let root_val = cpn_output cpn root_key in
                 bindE (set_variable_param_value (if truthy root_val then root_val else JDict []) rest v) (\<lambda>w.
                 Inr (put_component cpn_id (set_output root_key w cpn) c))))"

definition is_reff :: "canvas \<Rightarrow> string \<Rightarrow> bool" where
  "is_reff c rf =
     (let e = strip_char (CHR ''}'') (strip_char (CHR ''{'') rf) in
      if CHR ''@'' \<notin> set e then has_key (cv_globals c) e
      else case split_on (CHR ''@'') e of
             [cpn_id, _] \<Rightarrow> has_key (cv_components c) cpn_id
           | _ \<Rightarrow> False)"

section \<open>Reading what was written\<close>

lemma split_on_nonempty: "split_on c s \<noteq> []"
  by (induction s) (auto split: list.splits)

lemma output_set_output:
  "key \<noteq> [] \<Longrightarrow> cpn_output (set_output key v c) key = v"
  by (simp add: cpn_output_def set_output_def update_conv' split: option.splits)

lemma as_dict: "\<exists>e'. (case m of Some (JDict e) \<Rightarrow> JDict e | _ \<Rightarrow> JDict []) = JDict e'"
proof (cases m)
  case (Some v)
  then show ?thesis by (cases v) simp_all
qed simp

lemma set_at_dict: "\<exists>e. set_at (JDict d) keys v = Inr (JDict e)"
proof (induction keys arbitrary: d)
  case Nil
  show ?case by simp
next
  case (Cons key keys)
  show ?case
  proof (cases keys)
    case (Cons k ks)
    obtain sub where "(case map_of d key of Some (JDict e) \<Rightarrow> JDict e | _ \<Rightarrow> JDict []) = JDict sub"
      using as_dict by blast
    with Cons Cons.IH [of sub] show ?thesis by auto
  qed simp
qed

lemma follow_set_at:
  "set_at obj keys v = Inr w \<Longrightarrow> keys \<noteq> [] \<Longrightarrow> follow loads w keys = v"
proof (induction obj keys v arbitrary: w rule: set_at.induct)
  case (3 d key k keys v)
  then obtain sub where "set_at (case map_of d key of Some (JDict e) \<Rightarrow> JDict e | _ \<Rightarrow> JDict []) (k # keys) v = Inr sub"
    "w = JDict (AList.update key sub d)" by (auto simp: bindE_eq_Inr)
  with 3 show ?case by (simp add: path_step_def dget_def update_conv')
qed (auto simp: path_step_def dget_def update_conv')

text \<open>A reference can be written when it does not stand for all outputs of a component; two
  references are apart when writing the first leaves what the second reads.\<close>

definition writable :: "string \<Rightarrow> bool" where
  "writable rf = (case parse_ref rf of OutputVar _ root_key _ \<Rightarrow> root_key \<noteq> [] | _ \<Rightarrow> True)"

definition apart :: "string \<Rightarrow> string \<Rightarrow> bool" where
  "apart rf q =
     (case (parse_ref rf, parse_ref q) of
        (GlobalVar x, GlobalVar y) \<Rightarrow> x \<noteq> y
      | (OutputVar i r _, OutputVar j s _) \<Rightarrow> i \<noteq> j \<or> (r \<noteq> s \<and> s \<noteq> [])
      | _ \<Rightarrow> True)"

lemma set_output_other: "key \<noteq> k \<Longrightarrow> k \<noteq> [] \<Longrightarrow> cpn_output (set_output key v c) k = cpn_output c k"
  by (simp add: cpn_output_def set_output_def update_conv' split: option.splits)

lemma set_variable_component:
  assumes "set_variable_value c rf v = Inr c'" "parse_ref rf = OutputVar cpn_id root_key rest"
  obtains cpn w where "map_of (cv_components c) cpn_id = Some cpn"
    "c' = put_component cpn_id (set_output root_key w cpn) c"
    "if rest = [] then w = v else \<exists>obj. set_at obj (split_on (CHR ''.'') rest) v = Inr w"
proof -
  from assms obtain cpn where "map_of (cv_components c) cpn_id = Some cpn"
    by (auto simp: set_variable_value_def split: option.splits)
  with assms that show ?thesis
    by (auto simp: set_variable_value_def Let_def bindE_eq_Inr set_variable_param_value_def split: if_splits)
qed

lemma set_get:
  assumes "set_variable_value c rf v = Inr c'" "writable rf"
  shows "get_variable_value loads c' rf = Inr v"
proof (cases "parse_ref rf")
  case (GlobalVar e)
  then show ?thesis using assms(1) by (auto simp: set_variable_value_def get_variable_value_def update_conv')
next
  case BadVar
  then show ?thesis using assms(1) by (simp add: set_variable_value_def)
next
  case (OutputVar cpn_id root_key rest)
  then have root: "root_key \<noteq> []" using assms(2) by (simp add: writable_def)
  obtain cpn w where c': "c' = put_component cpn_id (set_output root_key w cpn) c"
    and w: "if rest = [] then w = v else \<exists>obj. set_at obj (split_on (CHR ''.'') rest) v = Inr w"
    using set_variable_component [OF assms(1) OutputVar] .
  have "cpn_output (set_output root_key w cpn) root_key = w" by (rule output_set_output [OF root])
  moreover have "rest \<noteq> [] \<Longrightarrow> get_variable_param_value loads w rest = v"
    using w follow_set_at [OF _ split_on_nonempty] by (auto simp: get_variable_param_value_def)
  ultimately show ?thesis
    using OutputVar w by (auto simp: get_variable_value_def c' put_component_def update_conv')
qed

lemma set_get_apart:
  assumes "set_variable_value c rf v = Inr c'" "apart rf q"
  shows "get_variable_value loads c' q = get_variable_value loads c q"
proof (cases "parse_ref rf")
  case (GlobalVar e)
  then show ?thesis
    using assms by (auto simp: set_variable_value_def get_variable_value_def update_conv' apart_def
        split: var_ref.splits)
next
  case BadVar
  then show ?thesis using assms(1) by (simp add: set_variable_value_def)
next
  case (OutputVar i r rest)
  obtain cpn w where "map_of (cv_components c) i = Some cpn" "c' = put_component i (set_output r w cpn) c"
    using set_variable_component [OF assms(1) OutputVar] .
  with OutputVar assms(2) show ?thesis
    by (auto simp: get_variable_value_def put_component_def update_conv' apart_def set_output_other
        split: var_ref.splits option.splits)
qed

text \<open>What the components that assign variables rely on, and what follows for them.\<close>

locale variable_store =
  fixes rd :: "'c \<Rightarrow> 'r \<Rightarrow> 'e + 'v"
    and wr :: "'c \<Rightarrow> 'r \<Rightarrow> 'v \<Rightarrow> 'e + 'c"
    and can_write :: "'r \<Rightarrow> bool"
    and separate :: "'r \<Rightarrow> 'r \<Rightarrow> bool"
  assumes read_back: "wr c r v = Inr c' \<Longrightarrow> can_write r \<Longrightarrow> rd c' r = Inr v"
    and read_other: "wr c r v = Inr c' \<Longrightarrow> separate r q \<Longrightarrow> rd c' q = rd c q"
begin

lemma writes_keep_others:
  "foldE (\<lambda>c (r, v). wr c r v) c ws = Inr c' \<Longrightarrow> list_all (\<lambda>(r, v). separate r q) ws \<Longrightarrow> rd c' q = rd c q"
proof (induction ws arbitrary: c)
  case (Cons a ws)
  obtain r v where a: "a = (r, v)" by (cases a)
  with Cons.prems obtain c1 where "wr c r v = Inr c1" "foldE (\<lambda>c (r, v). wr c r v) c1 ws = Inr c'"
    by (auto split: sum.splits)
  then show ?case using Cons.IH [of c1] Cons.prems(2) read_other [of c r v c1 q] a by simp
qed simp

lemma last_write_wins:
  assumes "foldE (\<lambda>c (r, v). wr c r v) c (us @ (r, v) # ws) = Inr c'"
    and "can_write r" "list_all (\<lambda>(q, _). separate q r) ws"
  shows "rd c' r = Inr v"
proof -
  from assms(1) obtain c1 where "foldE (\<lambda>c (r, v). wr c r v) c1 ((r, v) # ws) = Inr c'"
    by (auto simp: foldE_append bindE_eq_Inr)
  then obtain c2 where "wr c1 r v = Inr c2" "foldE (\<lambda>c (r, v). wr c r v) c2 ws = Inr c'"
    by (cases "wr c1 r v") auto
  with assms(2,3) writes_keep_others [of c2 ws c' r] read_back show ?thesis by simp
qed

end

interpretation vars: variable_store "get_variable_value loads" set_variable_value writable apart for loads
  by unfold_locales (rule set_get set_get_apart; assumption)+

text \<open>On trees: in a sequence of writes the last one to a variable decides, and a variable that is
  apart from all those written keeps its value.\<close>

lemma tree_writes:
  assumes "foldE (\<lambda>c (r, v). set_variable_value c r v) c (us @ (rf, v) # ws) = Inr c'"
    and "list_all (\<lambda>(q, _). apart q rf) ws"
  shows "(writable rf \<longrightarrow> get_variable_value loads c' rf = Inr v) \<and>
    (list_all (\<lambda>(r, _). apart r q) (us @ (rf, v) # ws) \<longrightarrow>
       get_variable_value loads c' q = get_variable_value loads c q)"
  using vars.last_write_wins [OF assms(1)] vars.writes_keep_others [OF assms(1)] assms(2) by blast

text \<open>Writing through a path succeeds whenever the component exists and the root holds
  nothing (a false value) or an object, however much of the path is missing; a root that holds a
  non-empty text, list, or a number is an error and nothing is written.\<close>

lemma variable_set_total:
  assumes "parse_ref rf = OutputVar cpn_id root_key rest" "map_of (cv_components c) cpn_id = Some cpn"
  shows "(\<exists>c'. set_variable_value c rf v = Inr c') \<longleftrightarrow>
    rest = [] \<or> \<not> truthy (cpn_output cpn root_key) \<or> is_dict (cpn_output cpn root_key)"
proof -
  have "(\<exists>w. set_at obj (split_on (CHR ''.'') rest) v = Inr w) \<longleftrightarrow> is_dict obj" for obj
    using split_on_nonempty [of "CHR ''.''" rest] set_at_dict [of _ "split_on (CHR ''.'') rest" v]
    by (cases obj) auto
  then show ?thesis
    using assms by (auto simp: set_variable_value_def Let_def bindE_eq_Inr set_variable_param_value_def)
qed

definition demo_component :: component where
  "demo_component = \<lparr>cp_name = ''code'', cp_outputs = [(''r'', \<lparr>oe_value = Some JNull, oe_ref = None\<rparr>)],
     cp_downstream = [], cp_parent = None\<rparr>"

definition demo_canvas :: canvas where
  "demo_canvas = \<lparr>cv_globals = [(''sys.query'', JStr ''q'')], cv_components = [(''c:0'', demo_component)]\<rparr>"

lemma variable_set_total_example:
  "\<exists>c'. set_variable_value demo_canvas ''{c:0@r.a.b}'' (JInt 7) = Inr c'"
proof -
  have p: "parse_ref ''{c:0@r.a.b}'' = OutputVar ''c:0'' ''r'' ''a.b''" by code_simp
  have m: "map_of (cv_components demo_canvas) ''c:0'' = Some demo_component" by (simp add: demo_canvas_def)
  have "\<not> truthy (cpn_output demo_component ''r'')" by (simp add: demo_component_def cpn_output_def)
  with variable_set_total [OF p m, of "JInt 7"] show ?thesis by blast
qed

end
