(* ===== verification/Canvas_Store.thy ===== *)
theory Canvas_Store
  imports Canvas_Vars
begin

text \<open>
  The variables of a canvas as Python keeps them: a variable holds a reference to an object, two
  variables may hold the same one, and a write through a path changes the object in place
  (\<open>Graph.set_variable_param_value\<close> of \<open>src/agent/canvas.py\<close>). The objects live in an explicit
  store; \<open>reads\<close> says which JSON tree a reference stands for. What \<open>Canvas_Vars\<close> computes on trees
  is related to this store: a write by path changes one object that was there before, what does not
  reach that object stands for the same tree as before, and the model on trees is exact where
  no second way leads to it.
\<close>

section \<open>The store\<close>

datatype hval = Atom json \<comment> \<open>no list and no dict\<close> | Ref nat

datatype hobj = HDict "(string \<times> hval) list" | HList "hval list"

type_synonym heap = "hobj list"

record hcanvas =
  hc_heap :: heap
  hc_globals :: "(string \<times> hval) list"
  hc_outputs :: "(string \<times> (string \<times> hval option) list) list" \<comment> \<open>per component, \<open>None\<close>: an output with no value\<close>

fun is_hdict :: "hobj \<Rightarrow> bool" where
  "is_hdict (HDict _) = True" | "is_hdict (HList _) = False"

definition htruthy :: "heap \<Rightarrow> hval \<Rightarrow> bool" where
  "htruthy h w = (case w of Atom j \<Rightarrow> truthy j | Ref a \<Rightarrow>
     (case h ! a of HDict d \<Rightarrow> d \<noteq> [] | HList xs \<Rightarrow> xs \<noteq> []))"

definition dict_under :: "heap \<Rightarrow> (string \<times> hval) list \<Rightarrow> string \<Rightarrow> nat option" where
  \<comment> \<open>\<open>cur[key]\<close> where \<open>key in cur and isinstance(cur[key], dict)\<close>\<close>
  "dict_under h d key = (case map_of d key of
     Some (Ref b) \<Rightarrow> if is_hdict (h ! b) then Some b else None | _ \<Rightarrow> None)"

definition new_dict_under :: "heap \<Rightarrow> nat \<Rightarrow> (string \<times> hval) list \<Rightarrow> string \<Rightarrow> heap" where
  \<comment> \<open>\<open>cur[key] = {}\<close>\<close>
  "new_dict_under h a d key = h[a := HDict (AList.update key (Ref (length h)) d)] @ [HDict []]"

fun hset_at :: "heap \<Rightarrow> nat \<Rightarrow> string list \<Rightarrow> hval \<Rightarrow> var_error + heap" where
  \<comment> \<open>the loop over \<open>keys[:-1]\<close> with \<open>cur\<close> at address \<open>a\<close>, and the assignment after it\<close>
  "hset_at h a [] v = Inr h"
| "hset_at h a [key] v =
     (case h ! a of HDict d \<Rightarrow> Inr (h[a := HDict (AList.update key v d)]) | HList _ \<Rightarrow> Inl NotADict)"
| "hset_at h a (key # k # keys) v =
     (case h ! a of
        HList _ \<Rightarrow> Inl NotADict
      | HDict d \<Rightarrow>
          (case dict_under h d key of
             Some b \<Rightarrow> hset_at h b (k # keys) v
           | None \<Rightarrow> hset_at (new_dict_under h a d key) (length h) (k # keys) v))"

definition houtput :: "heap \<Rightarrow> (string \<times> hval option) list \<Rightarrow> string \<Rightarrow> heap \<times> hval" where
  \<comment> \<open>\<open>output(var_nm)\<close>; with an empty name a new dict of all outputs\<close>
  "houtput h outs var_nm =
     (if var_nm = [] then
        (h @ [HDict (map (map_prod id (\<lambda>v. case v of None \<Rightarrow> Atom JNull | Some w \<Rightarrow> w)) outs)], Ref (length h))
      else (h, case map_of outs var_nm of Some (Some w) \<Rightarrow> w | _ \<Rightarrow> Atom (JStr [])))"

definition hset_output :: "string \<Rightarrow> string \<Rightarrow> hval \<Rightarrow> hcanvas \<Rightarrow> hcanvas" where
  "hset_output i key w c = c\<lparr>hc_outputs := (case map_of (hc_outputs c) i of None \<Rightarrow> hc_outputs c
     | Some outs \<Rightarrow> AList.update i (AList.update key (Some w) outs) (hc_outputs c))\<rparr>"

definition or_new_dict :: "heap \<times> hval \<Rightarrow> heap \<times> hval" where
  \<comment> \<open>\<open>if not root_val: root_val = {}\<close>\<close>
  "or_new_dict r = (case r of (h, w) \<Rightarrow> if htruthy h w then (h, w) else (h @ [HDict []], Ref (length h)))"

definition hset_variable_value :: "hcanvas \<Rightarrow> string \<Rightarrow> hval \<Rightarrow> var_error + hcanvas" where
  "hset_variable_value c rf v =
     (case parse_ref rf of
        GlobalVar e \<Rightarrow> Inr (c\<lparr>hc_globals := AList.update e v (hc_globals c)\<rparr>)
      | BadVar \<Rightarrow> Inl MalformedReference
      | OutputVar i root_key rest \<Rightarrow>
          (case map_of (hc_outputs c) i of
             None \<Rightarrow> Inl (MissingComponent i)
           | Some outs \<Rightarrow>
               if rest = [] then Inr (hset_output i root_key v c)
               else (case or_new_dict (houtput (hc_heap c) outs root_key) of
                 (h, Atom _) \<Rightarrow> Inl NotADict
               | (h, Ref a) \<Rightarrow>
                   bindE (hset_at h a (split_on (CHR ''.'') rest) v) (\<lambda>h'.
                   Inr ((hset_output i root_key (Ref a) c)\<lparr>hc_heap := h'\<rparr>)))))"

section \<open>The tree a value stands for\<close>

text \<open>\<open>reads h A w t\<close>: followed through objects at addresses in \<open>A\<close> only, \<open>w\<close> stands for the finite
  tree \<open>t\<close>. No object that contains itself is read.\<close>

abbreviation fields_rel :: "('a \<Rightarrow> 'b \<Rightarrow> bool) \<Rightarrow> (string \<times> 'a) list \<Rightarrow> (string \<times> 'b) list \<Rightarrow> bool" where
  "fields_rel R \<equiv> list_all2 (rel_prod (=) R)"

inductive reads :: "heap \<Rightarrow> nat set \<Rightarrow> hval \<Rightarrow> json \<Rightarrow> bool" for h A where
  atom: "\<not> is_dict j \<Longrightarrow> \<not> is_list j \<Longrightarrow> reads h A (Atom j) j"
| dict: "a \<in> A \<Longrightarrow> a < length h \<Longrightarrow> h ! a = HDict d \<Longrightarrow> distinct (map fst d) \<Longrightarrow>
    fields_rel (reads h A) d ts \<Longrightarrow> reads h A (Ref a) (JDict ts)"
| list: "a \<in> A \<Longrightarrow> a < length h \<Longrightarrow> h ! a = HList xs \<Longrightarrow>
    list_all2 (reads h A) xs ts \<Longrightarrow> reads h A (Ref a) (JList ts)"
  monos list.rel_mono prod.rel_mono

inductive_cases reads_AtomE: "reads h A (Atom j) t"
inductive_cases reads_RefE: "reads h A (Ref a) t"

lemma fields_rel_mono:
  "fields_rel R d ts \<Longrightarrow> (\<And>k x y. (k, x) \<in> set d \<Longrightarrow> (k, y) \<in> set ts \<Longrightarrow> R x y \<Longrightarrow> S x y) \<Longrightarrow> fields_rel S d ts"
  by (erule list.rel_mono_strong) (auto elim!: rel_prod.cases)

lemma fields_rel_map_of:
  "fields_rel R d ts \<Longrightarrow> rel_option R (map_of d k) (map_of ts k)"
  by (induction rule: list_all2_induct) auto

lemma fields_rel_keys: "fields_rel R d ts \<Longrightarrow> map fst ts = map fst d"
  by (induction rule: list_all2_induct) auto

lemma fields_rel_update:
  "fields_rel R d ts \<Longrightarrow> R x y \<Longrightarrow> fields_rel R (AList.update k x d) (AList.update k y ts)"
  by (induction rule: list_all2_induct) auto

lemma reads_fields_mono:
  assumes "reads h A w t" "\<And>a. a \<in> A \<Longrightarrow> a < length h \<Longrightarrow> a \<in> B \<and> a < length h' \<and> h' ! a = h ! a"
  shows "reads h' B w t"
  using assms(1)
proof (induction rule: reads.induct)
  case (atom j)
  then show ?case by (rule reads.atom)
next
  case (dict a d ts)
  have "fields_rel (reads h' B) d ts" by (rule fields_rel_mono [OF dict.IH]) simp
  with assms(2) [of a] dict.hyps show ?case by (auto intro: reads.dict)
next
  case (list a xs ts)
  have "list_all2 (reads h' B) xs ts" by (rule list.rel_mono_strong [OF list.IH]) simp
  with assms(2) [of a] list.hyps show ?case by (auto intro: reads.list)
qed

lemmas reads_frame = reads_fields_mono [of _ A _ _ A for A]

lemma reads_wider: "reads h A w t \<Longrightarrow> A \<subseteq> B \<Longrightarrow> reads h B w t"
  by (erule reads_fields_mono) auto

lemma reads_bounded: "reads h A w t \<Longrightarrow> reads h (A \<inter> {..<length h}) w t"
  by (erule reads_fields_mono) auto

lemma list_all2_functional:
  "list_all2 R xs ys \<Longrightarrow> list_all2 S xs zs \<Longrightarrow> (\<And>x y z. R x y \<Longrightarrow> S x z \<Longrightarrow> y = z) \<Longrightarrow> ys = zs"
  by (induction arbitrary: zs rule: list_all2_induct) (auto simp: list_all2_Cons1)

lemma reads_functional: "reads h A w t \<Longrightarrow> reads h B w t' \<Longrightarrow> t = t'"
proof (induction arbitrary: t' rule: reads.induct)
  case (atom j)
  then show ?case by (auto elim: reads_AtomE)
next
  case (dict a d ts)
  from dict.prems dict.hyps obtain ts' where "t' = JDict ts'" "fields_rel (reads h B) d ts'"
    by (auto elim: reads_RefE)
  with list_all2_functional [OF dict.IH] show ?case by (fastforce elim: rel_prod.cases)
next
  case (list a xs ts)
  from list.prems list.hyps obtain ts' where "t' = JList ts'" "list_all2 (reads h B) xs ts'"
    by (auto elim: reads_RefE)
  with list_all2_functional [OF list.IH] show ?case by fastforce
qed

lemma reads_dict:
  assumes "reads h A (Ref a) t" "h ! a = HDict d"
  obtains ts where "t = JDict ts" "fields_rel (reads h A) d ts" "a \<in> A" "a < length h" "distinct (map fst d)"
  using assms by (auto elim: reads_RefE)

text \<open>An object that is read does not contain itself.\<close>

lemma reads_avoids_or_meets:
  "reads h A w t \<Longrightarrow> reads h (A - {m}) w t \<or> (\<exists>s. reads h A (Ref m) s \<and> size s \<le> size t)"
proof (induction rule: reads.induct)
  case (atom j)
  then show ?case by (auto intro: reads.atom)
next
  case (dict a d ts)
  have self: "reads h A (Ref a) (JDict ts)"
    by (rule reads.dict [OF dict.hyps]) (rule fields_rel_mono [OF dict.IH], simp)
  show ?case
  proof (cases "a = m \<or> (\<exists>(k, t) \<in> set ts. \<exists>s. reads h A (Ref m) s \<and> size s \<le> size t)")
    case True
    then consider "a = m" | k t s where "(k, t) \<in> set ts" "reads h A (Ref m) s" "size s \<le> size t" by auto
    then show ?thesis
    proof cases
      case (2 k t s)
      then have "size t \<le> size (JDict ts)"
        using size_list_estimation' [of "(k, t)" ts "size t" "size_prod (\<lambda>_. 0) size"] by simp
      with 2 show ?thesis by (meson le_trans)
    qed (use self in blast)
  next
    case False
    then have "fields_rel (reads h (A - {m})) d ts"
      by (intro fields_rel_mono [OF dict.IH]) auto
    with False dict.hyps show ?thesis by (auto intro: reads.dict)
  qed
next
  case (list a xs ts)
  have self: "reads h A (Ref a) (JList ts)"
    by (rule reads.list [OF list.hyps]) (rule list.rel_mono_strong [OF list.IH], simp)
  show ?case
  proof (cases "a = m \<or> (\<exists>t \<in> set ts. \<exists>s. reads h A (Ref m) s \<and> size s \<le> size t)")
    case True
    then consider "a = m" | t s where "t \<in> set ts" "reads h A (Ref m) s" "size s \<le> size t" by auto
    then show ?thesis
    proof cases
      case (2 t s)
      then have "size t \<le> size (JList ts)" using size_list_estimation' [of t ts "size t" size] by simp
      with 2 show ?thesis by (meson le_trans)
    qed (use self in blast)
  next
    case False
    then have "list_all2 (reads h (A - {m})) xs ts"
      by (intro list.rel_mono_strong [OF list.IH]) auto
    with False list.hyps show ?thesis by (auto intro: reads.list)
  qed
qed

lemma reads_fields_avoid:
  assumes "reads h A (Ref a) t" "h ! a = HDict d"
  obtains ts where "t = JDict ts" "fields_rel (reads h (A - {a})) d ts" "a \<in> A" "a < length h" "distinct (map fst d)"
proof -
  obtain ts where t: "t = JDict ts" "fields_rel (reads h A) d ts" "a \<in> A" "a < length h" "distinct (map fst d)"
    using reads_dict [OF assms] .
  have "fields_rel (reads h (A - {a})) d ts"
  proof (rule fields_rel_mono [OF t(2)])
    fix k x y
    assume "(k, x) \<in> set d" "(k, y) \<in> set ts" "reads h A x y"
    from \<open>(k, y) \<in> set ts\<close> have "size y < size t"
      using size_list_estimation' [of "(k, y)" ts "size y" "size_prod (\<lambda>_. 0) size"] t(1) by simp
    then show "reads h (A - {a}) x y"
      using reads_avoids_or_meets [OF \<open>reads h A x y\<close>, of a] reads_functional [OF assms(1)] by fastforce
  qed
  with t that show ?thesis by blast
qed

section \<open>The object a write changes\<close>

fun target :: "heap \<Rightarrow> nat \<Rightarrow> string list \<Rightarrow> nat" where
  \<comment> \<open>the last dict on the way that is there already\<close>
  "target h a (key # k # keys) =
     (case h ! a of HList _ \<Rightarrow> a | HDict d \<Rightarrow>
       (case dict_under h d key of Some b \<Rightarrow> target h b (k # keys) | None \<Rightarrow> a))"
| "target h a keys = a"

lemma dict_under_Some:
  "dict_under h d key = Some b \<longleftrightarrow> map_of d key = Some (Ref b) \<and> is_hdict (h ! b)"
  by (auto simp: dict_under_def split: option.splits hval.splits)

lemma new_dict_under_nth [simp]:
  assumes "a < length h"
  shows "new_dict_under h a d key ! a = HDict (AList.update key (Ref (length h)) d)"
    "new_dict_under h a d key ! length h = HDict []" "length (new_dict_under h a d key) = Suc (length h)"
    "b < length h \<Longrightarrow> b \<noteq> a \<Longrightarrow> new_dict_under h a d key ! b = h ! b"
  using assms by (simp_all add: new_dict_under_def nth_append)

lemma target_new: "a < length h \<Longrightarrow> target (new_dict_under h a d key) (length h) keys = length h"
  by (cases "(new_dict_under h a d key, length h, keys)" rule: target.cases) (simp_all add: dict_under_def)

lemma dict_under_bound:
  assumes "reads h A (Ref a) t" "h ! a = HDict d" "dict_under h d key = Some b"
  obtains s where "reads h (A - {a}) (Ref b) s"
proof -
  obtain ts where "fields_rel (reads h (A - {a})) d ts" using reads_fields_avoid [OF assms(1,2)] .
  from fields_rel_map_of [OF this, of key] assms(3) that show ?thesis
    by (auto simp: dict_under_Some option_rel_Some1)
qed

lemma target_reached: "reads h A (Ref a) t \<Longrightarrow> target h a keys \<in> A \<and> target h a keys < length h"
proof (induction h a keys arbitrary: A t rule: target.induct)
  case (1 h a key k keys)
  have a: "a \<in> A" "a < length h" using "1.prems" by (auto elim: reads_RefE)
  show ?case
  proof (cases "h ! a")
    case (HDict d)
    show ?thesis
    proof (cases "dict_under h d key")
      case (Some b)
      obtain s where "reads h (A - {a}) (Ref b) s" using dict_under_bound [OF "1.prems" HDict Some] .
      from "1.IH" [OF HDict Some this] HDict Some show ?thesis by simp
    qed (use a HDict in simp)
  qed (use a in simp)
qed (auto elim: reads_RefE)

text \<open>A write allocates new objects and changes the target, nothing else.\<close>

lemma hset_at_changes:
  assumes "hset_at h a keys v = Inr h'" "reads h UNIV (Ref a) t"
  shows "length h \<le> length h' \<and> (\<forall>b < length h. b \<noteq> target h a keys \<longrightarrow> h' ! b = h ! b)"
  using assms
proof (induction h a keys v arbitrary: h' t rule: hset_at.induct)
  case (2 h a key v)
  then show ?case by (auto split: hobj.splits)
next
  case (3 h a key k keys v)
  obtain d where d: "h ! a = HDict d" using "3.prems" by (cases "h ! a") auto
  have a: "a < length h" using "3.prems"(2) by (auto elim: reads_RefE)
  show ?case
  proof (cases "dict_under h d key")
    case (Some b)
    obtain s where "reads h (UNIV - {a}) (Ref b) s" using dict_under_bound [OF "3.prems"(2) d Some] .
    then have "reads h UNIV (Ref b) s" by (rule reads_wider) simp
    with "3.IH"(2) [OF d Some] "3.prems"(1) d Some show ?thesis by simp
  next
    case None
    have "reads (new_dict_under h a d key) UNIV (Ref (length h)) (JDict [])"
      by (rule reads.dict) (use a in simp_all)
    from "3.IH"(1) [OF d None _ this] "3.prems"(1) d None a
    have "Suc (length h) \<le> length h' \<and> (\<forall>b < Suc (length h). b \<noteq> length h \<longrightarrow> h' ! b = new_dict_under h a d key ! b)"
      by (simp add: target_new)
    with d None a show ?thesis by simp
  qed
qed simp

lemma reads_spared:
  assumes "reads h (- {m}) w t" "length h \<le> length h'" "\<forall>b < length h. b \<noteq> m \<longrightarrow> h' ! b = h ! b"
  shows "reads h' (- {m}) w t" "reads h' UNIV w t"
proof -
  show "reads h' (- {m}) w t" by (rule reads_frame [OF assms(1)]) (use assms(2,3) in auto)
  then show "reads h' UNIV w t" by (rule reads_wider) simp
qed

lemma reads_in_new_dict:
  assumes "reads h (- {a}) w t" "a < length h"
  shows "reads (new_dict_under h a d key) (- {length h}) w t"
  by (rule reads_fields_mono [OF reads_bounded [OF assms(1)]]) (use assms(2) in auto)

lemma reads_updated:
  assumes "reads h UNIV (Ref a) t" "h ! a = HDict d" "h' ! a = HDict (AList.update key x d)"
    and "length h \<le> length h'" "\<forall>b < length h. b \<noteq> a \<longrightarrow> h' ! b = h ! b" "reads h' UNIV x s"
  shows "\<exists>ts. t = JDict ts \<and> reads h' UNIV (Ref a) (JDict (AList.update key s ts))"
proof -
  obtain ts where ts: "t = JDict ts" "fields_rel (reads h (UNIV - {a})) d ts" "a < length h" "distinct (map fst d)"
    using reads_fields_avoid [OF assms(1,2)] .
  have "fields_rel (reads h' UNIV) d ts"
    by (rule fields_rel_mono [OF ts(2)]) (use reads_spared(2) [OF _ assms(4,5)] in \<open>simp add: Compl_eq_Diff_UNIV\<close>)
  from fields_rel_update [OF this assms(6)] have "reads h' UNIV (Ref a) (JDict (AList.update key s ts))"
    using ts assms(3,4) by (intro reads.dict [where d = "AList.update key x d"]) (simp_all add: distinct_update)
  with ts(1) show ?thesis by blast
qed

text \<open>After a write everything that could be read can be read.\<close>

lemma target_readable:
  assumes "hset_at h a keys v = Inr h'" "keys \<noteq> []" "reads h UNIV (Ref a) t" "reads h (- {target h a keys}) v tv"
  shows "\<exists>s. reads h' UNIV (Ref (target h a keys)) s"
  using assms
proof (induction h a keys v arbitrary: h' t rule: hset_at.induct)
  case (2 h a key v)
  obtain d where d: "h ! a = HDict d" "h' = h[a := HDict (AList.update key v d)]"
    using "2.prems"(1) by (auto split: hobj.splits)
  have a: "a < length h" using "2.prems"(3) by (auto elim: reads_RefE)
  have "reads h' UNIV v tv" using reads_spared(2) [of h a v tv h'] "2.prems"(4) d(2) by simp
  with reads_updated [OF "2.prems"(3) d(1), of h' key v tv] a d(2) show ?case by auto
next
  case (3 h a key k keys v)
  obtain d where d: "h ! a = HDict d" using "3.prems" by (cases "h ! a") auto
  have a: "a < length h" using "3.prems"(3) by (auto elim: reads_RefE)
  show ?case
  proof (cases "dict_under h d key")
    case (Some b)
    obtain s where "reads h (UNIV - {a}) (Ref b) s" using dict_under_bound [OF "3.prems"(3) d Some] .
    then have "reads h UNIV (Ref b) s" by (rule reads_wider) simp
    with "3.IH"(2) [OF d Some] "3.prems"(1,4) d Some show ?thesis by simp
  next
    case None
    let ?h = "new_dict_under h a d key"
    have r: "reads ?h UNIV (Ref (length h)) (JDict [])" by (rule reads.dict) (use a in simp_all)
    have e: "hset_at ?h (length h) (k # keys) v = Inr h'" using "3.prems"(1) d None by simp
    have v: "reads ?h (- {length h}) v tv" using reads_in_new_dict "3.prems"(4) a d None by simp
    obtain s where s: "reads h' UNIV (Ref (length h)) s"
      using "3.IH"(1) [OF d None e _ r] v a by (auto simp: target_new)
    from hset_at_changes [OF e r] a have "length h \<le> length h'" "h' ! a = HDict (AList.update key (Ref (length h)) d)"
      "\<forall>b < length h. b \<noteq> a \<longrightarrow> h' ! b = h ! b" by (auto simp: target_new)
    from reads_updated [OF "3.prems"(3) d this(2,1,3) s] d None show ?thesis by auto
  qed
qed simp

lemma list_all2_some:
  "list_all2 R xs ys \<Longrightarrow> (\<And>x y. R x y \<Longrightarrow> \<exists>z. S x z) \<Longrightarrow> \<exists>zs. list_all2 S xs zs"
proof (induction rule: list_all2_induct)
  case (Cons x xs y ys)
  then obtain z zs where "S x z" "list_all2 S xs zs" by blast
  then have "list_all2 S (x # xs) (z # zs)" by simp
  then show ?case by blast
qed (auto intro: exI [of _ "[]"])

lemma fields_rel_some:
  assumes "fields_rel R d ts" "\<And>x y. R x y \<Longrightarrow> \<exists>z. S x z"
  shows "\<exists>zs. fields_rel S d zs"
proof (rule list_all2_some [OF assms(1)])
  fix p q
  assume "rel_prod (=) R p q"
  then obtain k x y where "p = (k, x)" "R x y" by (auto elim: rel_prod.cases)
  with assms(2) obtain z where "rel_prod (=) S p (k, z)" by force
  then show "\<exists>z. rel_prod (=) S p z" by blast
qed

lemma reads_after:
  assumes "reads h UNIV w t" "length h \<le> length h'" "\<forall>b < length h. b \<noteq> m \<longrightarrow> h' ! b = h ! b"
    and "reads h' UNIV (Ref m) s"
  shows "\<exists>t'. reads h' UNIV w t'"
  using assms(1)
proof (induction rule: reads.induct)
  case (atom j)
  then show ?case by (auto intro: reads.atom)
next
  case (dict a d ts)
  obtain ts' where "fields_rel (reads h' UNIV) d ts'"
    using fields_rel_some [OF dict.IH, of "reads h' UNIV"] by blast
  with dict.hyps assms(2,3) have "a \<noteq> m \<Longrightarrow> reads h' UNIV (Ref a) (JDict ts')" by (auto intro: reads.dict)
  with assms(4) show ?case by blast
next
  case (list a xs ts)
  obtain ts' where "list_all2 (reads h' UNIV) xs ts'"
    using list_all2_some [OF list.IH, of "reads h' UNIV"] by blast
  with list.hyps assms(2,3) have "a \<noteq> m \<Longrightarrow> reads h' UNIV (Ref a) (JList ts')" by (auto intro: reads.list)
  with assms(4) show ?case by blast
qed

lemma hset_at_readable:
  assumes "hset_at h a keys v = Inr h'" "keys \<noteq> []" "reads h UNIV (Ref a) t"
    "reads h (- {target h a keys}) v tv" "reads h UNIV w u"
  shows "\<exists>u'. reads h' UNIV w u'"
  using reads_after [OF assms(5)] hset_at_changes [OF assms(1,3)] target_readable [OF assms(1-4)] by blast

text \<open>Following the path afterwards leads to the value that was written.\<close>

lemma follow_dict:
  assumes "reads h' UNIV (Ref a) t" "h' ! a = HDict d" "map_of d key = Some x"
  shows "\<exists>s. reads h' UNIV x s \<and> follow loads t (key # keys) = follow loads s keys"
proof -
  obtain ts where ts: "t = JDict ts" "fields_rel (reads h' UNIV) d ts" using reads_dict [OF assms(1,2)] .
  then obtain s where "map_of ts key = Some s" "reads h' UNIV x s"
    using fields_rel_map_of [OF ts(2), of key] assms(3) by (auto simp: option_rel_Some1)
  with ts(1) show ?thesis by (auto simp: path_step_def dget_def)
qed

lemma hset_at_follow:
  assumes "hset_at h a keys v = Inr h'" "keys \<noteq> []" "reads h UNIV (Ref a) t"
    and "reads h' UNIV (Ref a) t'" "reads h' UNIV v tv"
  shows "follow loads t' keys = tv"
  using assms
proof (induction h a keys v arbitrary: h' t t' rule: hset_at.induct)
  case (2 h a key v)
  have a: "a < length h" using "2.prems"(3) by (auto elim: reads_RefE)
  with "2.prems"(1) obtain d where "h' ! a = HDict (AList.update key v d)" by (auto split: hobj.splits)
  from follow_dict [OF "2.prems"(4) this, of key v loads "[]"] reads_functional [OF "2.prems"(5)] show ?case
    by (auto simp: update_conv')
next
  case (3 h a key k keys v)
  obtain d where d: "h ! a = HDict d" using "3.prems" by (cases "h ! a") auto
  have a: "a < length h" using "3.prems"(3) by (auto elim: reads_RefE)
  show ?case
  proof (cases "dict_under h d key")
    case (Some b)
    obtain s where s: "reads h (UNIV - {a}) (Ref b) s" using dict_under_bound [OF "3.prems"(3) d Some] .
    then have sU: "reads h UNIV (Ref b) s" by (rule reads_wider) simp
    have e: "hset_at h b (k # keys) v = Inr h'" using "3.prems"(1) d Some by simp
    have "h' ! a = HDict d"
      using hset_at_changes [OF e sU] target_reached [OF s, of "k # keys"] a d by auto
    from follow_dict [OF "3.prems"(4) this, of key "Ref b" loads "k # keys"] Some obtain s'
      where "reads h' UNIV (Ref b) s'" "follow loads t' (key # k # keys) = follow loads s' (k # keys)"
      by (auto simp: dict_under_Some)
    with "3.IH"(2) [OF d Some e _ sU _ "3.prems"(5)] show ?thesis by simp
  next
    case None
    let ?h = "new_dict_under h a d key"
    have r: "reads ?h UNIV (Ref (length h)) (JDict [])" by (rule reads.dict) (use a in simp_all)
    have e: "hset_at ?h (length h) (k # keys) v = Inr h'" using "3.prems"(1) d None by simp
    have "h' ! a = HDict (AList.update key (Ref (length h)) d)"
      using hset_at_changes [OF e r] a by (simp add: target_new)
    from follow_dict [OF "3.prems"(4) this, of key "Ref (length h)" loads "k # keys"] obtain s'
      where "reads h' UNIV (Ref (length h)) s'" "follow loads t' (key # k # keys) = follow loads s' (k # keys)"
      by (auto simp: update_conv')
    with "3.IH"(1) [OF d None e _ r _ "3.prems"(5)] show ?thesis by simp
  qed
qed simp

section \<open>The model on trees\<close>

text \<open>No second way inside the root: at every dict on the path the other fields do not reach the
  target.\<close>

definition spares :: "heap \<Rightarrow> nat set \<Rightarrow> hval \<Rightarrow> bool" where
  "spares h A w \<longleftrightarrow> (\<exists>t. reads h A w t)"

fun single_way :: "heap \<Rightarrow> nat \<Rightarrow> nat \<Rightarrow> string list \<Rightarrow> bool" where
  "single_way h m a (key # k # keys) =
     (case h ! a of HList _ \<Rightarrow> True | HDict d \<Rightarrow>
       (case dict_under h d key of
          Some b \<Rightarrow> list_all (\<lambda>(k', w). k' \<noteq> key \<longrightarrow> spares h (- {m}) w) d \<and> single_way h m b (k # keys)
        | None \<Rightarrow> True))"
| "single_way h m a keys = True"

lemma fields_rel_put:
  assumes "fields_rel R d ts" "distinct (map fst d)" "map_of d key = Some x" "S x s"
    and "\<And>k' w t. (k', w) \<in> set d \<Longrightarrow> k' \<noteq> key \<Longrightarrow> R w t \<Longrightarrow> S w t"
  shows "fields_rel S d (AList.update key s ts)"
  using assms
proof (induction rule: list_all2_induct)
  case (Cons p d q ts)
  obtain k w t where pq: "p = (k, w)" "q = (k, t)" "R w t" using Cons.hyps(1) by (auto elim: rel_prod.cases)
  show ?case
  proof (cases "k = key")
    case True
    have "fields_rel S d ts"
      by (rule fields_rel_mono [OF Cons.hyps(2)])
        (use Cons.prems(1,4) True pq in \<open>force simp: image_iff\<close>)
    with Cons.prems(2,3) True pq show ?thesis by simp
  next
    case False
    then have "fields_rel S d (AList.update key s ts)"
      using Cons.IH Cons.prems pq by (auto simp: list.set_intros)
    with False Cons.prems(4) [of k w t] pq show ?thesis by simp
  qed
qed simp

lemma hset_at_refines:
  assumes "hset_at h a keys v = Inr h'" "keys \<noteq> []" "reads h UNIV (Ref a) t"
    and "reads h (- {target h a keys}) v tv" "single_way h (target h a keys) a keys"
  shows "\<exists>t'. set_at t keys tv = Inr t' \<and> reads h' UNIV (Ref a) t'"
  using assms
proof (induction h a keys v arbitrary: h' t rule: hset_at.induct)
  case (2 h a key v)
  obtain d where d: "h ! a = HDict d" "h' = h[a := HDict (AList.update key v d)]"
    using "2.prems"(1) by (auto split: hobj.splits)
  have a: "a < length h" using "2.prems"(3) by (auto elim: reads_RefE)
  have "reads h' UNIV v tv" using reads_spared(2) [of h a v tv h'] "2.prems"(4) d(2) by simp
  with reads_updated [OF "2.prems"(3) d(1), of h' key v tv] a d(2) show ?case by auto
next
  case (3 h a key k keys v)
  obtain d where d: "h ! a = HDict d" using "3.prems" by (cases "h ! a") auto
  obtain ts where ts: "t = JDict ts" "fields_rel (reads h UNIV) d ts" "a < length h" "distinct (map fst d)"
    using reads_dict [OF "3.prems"(3) d] .
  let ?old = "case map_of ts key of Some (JDict e) \<Rightarrow> JDict e | _ \<Rightarrow> JDict []"
  show ?case
  proof (cases "dict_under h d key")
    case (Some b)
    obtain s where s: "reads h (UNIV - {a}) (Ref b) s" using dict_under_bound [OF "3.prems"(3) d Some] .
    then have sU: "reads h UNIV (Ref b) s" by (rule reads_wider) simp
    have e: "hset_at h b (k # keys) v = Inr h'" and m: "target h a (key # k # keys) = target h b (k # keys)"
      using "3.prems"(1) d Some by simp_all
    have way: "single_way h (target h b (k # keys)) b (k # keys)"
      "\<And>k' w. (k', w) \<in> set d \<Longrightarrow> k' \<noteq> key \<Longrightarrow> spares h (- {target h b (k # keys)}) w"
      using "3.prems"(5) d Some m by (auto simp: list_all_iff)
    have "map_of d key = Some (Ref b)" "is_hdict (h ! b)" using Some by (simp_all add: dict_under_Some)
    moreover have "?old = s"
    proof -
      obtain e where "h ! b = HDict e" using calculation(2) by (cases "h ! b") auto
      with reads_dict [OF sU] obtain ss where "s = JDict ss" by metis
      moreover have "map_of ts key = Some s"
        using fields_rel_map_of [OF ts(2), of key] \<open>map_of d key = Some (Ref b)\<close> reads_functional [OF sU]
        by (auto simp: option_rel_Some1)
      ultimately show ?thesis by simp
    qed
    moreover obtain s' where s': "set_at s (k # keys) tv = Inr s'" "reads h' UNIV (Ref b) s'"
      using "3.IH"(2) [OF d Some e _ sU _ way(1)] "3.prems"(4) m by auto
    moreover note ch = hset_at_changes [OF e sU]
    have "fields_rel (reads h' UNIV) d (AList.update key s' ts)"
    proof (rule fields_rel_put [OF ts(2,4) \<open>map_of d key = Some (Ref b)\<close>])
      fix k' w u
      assume "(k', w) \<in> set d" "k' \<noteq> key" "reads h UNIV w u"
      then obtain u' where "reads h (- {target h b (k # keys)}) w u'" using way(2) by (auto simp: spares_def)
      with reads_functional [OF this \<open>reads h UNIV w u\<close>] ch show "reads h' UNIV w u"
        using reads_spared(2) by blast
    qed (rule s'(2))
    moreover have "h' ! a = HDict d" using ch target_reached [OF s, of "k # keys"] ts(3) d by auto
    ultimately show ?thesis using ts ch by (auto intro: reads.dict)
  next
    case None
    let ?h = "new_dict_under h a d key"
    have r: "reads ?h UNIV (Ref (length h)) (JDict [])" by (rule reads.dict) (use ts(3) in simp_all)
    have e: "hset_at ?h (length h) (k # keys) v = Inr h'" using "3.prems"(1) d None by simp
    have v: "reads ?h (- {length h}) v tv" using reads_in_new_dict "3.prems"(4) ts(3) d None by simp
    have "single_way ?h (length h) (length h) (k # keys)"
      using ts(3) by (cases keys) (simp_all add: dict_under_def)
    then obtain s' where s': "set_at (JDict []) (k # keys) tv = Inr s'" "reads h' UNIV (Ref (length h)) s'"
      using "3.IH"(1) [OF d None e _ r] v ts(3) by (auto simp: target_new)
    from hset_at_changes [OF e r] ts(3) have ch: "length h \<le> length h'" "h' ! a = HDict (AList.update key (Ref (length h)) d)"
      "\<forall>b < length h. b \<noteq> a \<longrightarrow> h' ! b = h ! b" by (auto simp: target_new)
    have "?old = JDict []"
      using fields_rel_map_of [OF ts(2), of key] None
      by (cases "map_of d key") (auto simp: option_rel_Some1 dict_under_def elim!: reads.cases
          split: json.splits hval.splits if_splits)
    with reads_updated [OF "3.prems"(3) d ch(2,1,3) s'(2)] s'(1) ts(1) show ?thesis by auto
  qed
qed simp

section \<open>Canvases\<close>

text \<open>The canvas of trees that a canvas of references stands for.\<close>

definition outs_view :: "heap \<Rightarrow> (string \<times> hval option) list \<Rightarrow> component \<Rightarrow> bool" where
  "outs_view h outs cp \<longleftrightarrow> distinct (map fst outs) \<and>
     fields_rel (\<lambda>ov e. rel_option (reads h UNIV) ov (oe_value e)) outs (cp_outputs cp)"

definition canvas_view :: "hcanvas \<Rightarrow> canvas \<Rightarrow> bool" where
  "canvas_view hc c \<longleftrightarrow> distinct (map fst (hc_globals hc)) \<and> distinct (map fst (hc_outputs hc)) \<and>
     fields_rel (reads (hc_heap hc) UNIV) (hc_globals hc) (cv_globals c) \<and>
     fields_rel (outs_view (hc_heap hc)) (hc_outputs hc) (cv_components c)"

text \<open>What a write leaves alone: every address but the target of the path.\<close>

definition write_target :: "hcanvas \<Rightarrow> string \<Rightarrow> (heap \<times> nat \<times> string list) option" where
  "write_target hc rf =
     (case parse_ref rf of
        OutputVar i root_key rest \<Rightarrow>
          if rest = [] then None
          else (case map_of (hc_outputs hc) i of None \<Rightarrow> None | Some outs \<Rightarrow>
            (case or_new_dict (houtput (hc_heap hc) outs root_key) of
               (h, Ref a) \<Rightarrow> Some (h, a, split_on (CHR ''.'') rest) | _ \<Rightarrow> None))
      | _ \<Rightarrow> None)"

definition untouched :: "hcanvas \<Rightarrow> string \<Rightarrow> nat set" where
  "untouched hc rf = (case write_target hc rf of None \<Rightarrow> UNIV | Some (h, a, keys) \<Rightarrow> - {target h a keys})"

definition roots :: "hcanvas \<Rightarrow> string \<Rightarrow> hval list" where
  "roots hc q =
     (case parse_ref q of
        GlobalVar e \<Rightarrow> (case map_of (hc_globals hc) e of None \<Rightarrow> [] | Some w \<Rightarrow> [w])
      | OutputVar i k _ \<Rightarrow> (case map_of (hc_outputs hc) i of None \<Rightarrow> [] | Some outs \<Rightarrow>
          [w. (k', Some w) \<leftarrow> outs, k = [] \<or> k' = k])
      | BadVar \<Rightarrow> [])"

definition spared :: "hcanvas \<Rightarrow> string \<Rightarrow> string \<Rightarrow> bool" where
  "spared hc rf q \<longleftrightarrow> list_all (spares (hc_heap hc) (untouched hc rf)) (roots hc q)"

definition unshared :: "hcanvas \<Rightarrow> string \<Rightarrow> bool" where
  "unshared hc rf \<longleftrightarrow>
     (case write_target hc rf of None \<Rightarrow> True | Some (h, a, keys) \<Rightarrow> single_way h (target h a keys) a keys) \<and>
     list_all (\<lambda>(e, w). spares (hc_heap hc) (untouched hc rf) w) (hc_globals hc) \<and>
     list_all (\<lambda>(i, outs). list_all (\<lambda>(k, ov).
       (case parse_ref rf of OutputVar i' k' _ \<Rightarrow> i = i' \<and> k = k' | _ \<Rightarrow> False) \<or>
       (case ov of None \<Rightarrow> True | Some w \<Rightarrow> spares (hc_heap hc) (untouched hc rf) w)) outs) (hc_outputs hc)"

lemma reads_truthy: "reads h A w t \<Longrightarrow> htruthy h w = truthy t"
  by (erule reads.cases) (auto simp: htruthy_def)

lemma outs_view_output:
  assumes "outs_view h outs cp" "k \<noteq> []"
  shows "reads h UNIV (snd (houtput h outs k)) (cpn_output cp k)"
proof -
  have "rel_option (\<lambda>ov e. rel_option (reads h UNIV) ov (oe_value e)) (map_of outs k) (map_of (cp_outputs cp) k)"
    using assms(1) fields_rel_map_of by (auto simp: outs_view_def)
  then show ?thesis
    using assms(2)
    by (cases "map_of outs k")
      (auto simp: houtput_def cpn_output_def option_rel_Some1 intro!: reads.atom split: option.splits)
qed

lemma or_new_dict_reads:
  assumes "reads h UNIV w t" "or_new_dict (h, w) = (h1, w1)"
  shows "reads h1 UNIV w1 (if truthy t then t else JDict [])" "\<And>A u s. reads h A u s \<Longrightarrow> reads h1 A u s"
proof -
  show "reads h1 A u s" if "reads h A u s" for A u s
    by (rule reads_frame [OF that]) (use assms(2) in \<open>auto simp: or_new_dict_def nth_append split: if_splits\<close>)
  show "reads h1 UNIV w1 (if truthy t then t else JDict [])"
    using assms reads_truthy [OF assms(1)] by (auto simp: or_new_dict_def split: if_splits intro: reads.dict)
qed

lemma canvas_view_component:
  assumes "canvas_view hc c" "map_of (hc_outputs hc) i = Some outs"
  obtains cp where "map_of (cv_components c) i = Some cp" "outs_view (hc_heap hc) outs cp"
  using assms fields_rel_map_of [of "outs_view (hc_heap hc)" "hc_outputs hc" "cv_components c" i]
  by (auto simp: canvas_view_def option_rel_Some1)

text \<open>A write to an output, by name or by path: the value of the output afterwards, what keeps its
  tree, and that everything stays readable.\<close>

lemma output_write:
  assumes view: "canvas_view hc c" and rf: "parse_ref rf = OutputVar i k rest" "k \<noteq> []"
    and step: "hset_variable_value hc rf v = Inr hc'" and v: "reads (hc_heap hc) (untouched hc rf) v tv"
  obtains outs cp root t' where "map_of (hc_outputs hc) i = Some outs" "map_of (cv_components c) i = Some cp"
    "outs_view (hc_heap hc) outs cp" "hc' = (hset_output i k root hc)\<lparr>hc_heap := hc_heap hc'\<rparr>"
    "reads (hc_heap hc') UNIV root t'" "\<And>loads. (if rest = [] then t' else get_variable_param_value loads t' rest) = tv"
    "\<And>w t. reads (hc_heap hc) (untouched hc rf) w t \<Longrightarrow> reads (hc_heap hc') UNIV w t"
    "\<And>w t. reads (hc_heap hc) UNIV w t \<Longrightarrow> \<exists>u. reads (hc_heap hc') UNIV w u"
    "unshared hc rf \<Longrightarrow> set_variable_value c rf tv = Inr (put_component i (set_output k t' cp) c)"
proof -
  obtain outs where outs: "map_of (hc_outputs hc) i = Some outs"
    using step rf by (auto simp: hset_variable_value_def split: option.splits)
  obtain cp where cp: "map_of (cv_components c) i = Some cp" "outs_view (hc_heap hc) outs cp"
    using canvas_view_component [OF view outs] .
  show ?thesis
  proof (cases "rest = []")
    case True
    then have "untouched hc rf = UNIV" "hc' = hset_output i k v hc"
      using step rf outs by (simp_all add: untouched_def write_target_def hset_variable_value_def)
    moreover from this have "hc_heap hc' = hc_heap hc" by (simp add: hset_output_def)
    ultimately show ?thesis
      using that [OF outs cp, of v tv] v True rf cp by (auto simp: set_variable_value_def)
  next
    case False
    let ?keys = "split_on (CHR ''.'') rest"
    let ?h = "hc_heap hc"
    obtain h1 w1 where o1: "or_new_dict (?h, snd (houtput ?h outs k)) = (h1, w1)" by force
    then have o: "or_new_dict (houtput ?h outs k) = (h1, w1)" using rf(2) by (simp add: houtput_def)
    then obtain a h' where a: "w1 = Ref a" "hset_at h1 a ?keys v = Inr h'"
      "hc' = (hset_output i k (Ref a) hc)\<lparr>hc_heap := h'\<rparr>"
      using step rf outs False by (auto simp: hset_variable_value_def bindE_eq_Inr split: hval.splits)
    let ?t = "if truthy (cpn_output cp k) then cpn_output cp k else JDict []"
    note r = or_new_dict_reads [OF outs_view_output [OF cp(2) rf(2)] o1, unfolded a(1)]
    have tgt: "write_target hc rf = Some (h1, a, ?keys)" and un: "untouched hc rf = - {target h1 a ?keys}"
      using rf False outs o a(1) by (simp_all add: write_target_def untouched_def)
    have v1: "reads h1 (- {target h1 a ?keys}) v tv" using r(2) v un by simp
    note ne = split_on_nonempty [of "CHR ''.''" rest]
    note ch = hset_at_changes [OF a(2) r(1)]
    have keep: "reads h' UNIV w t" if "reads ?h (untouched hc rf) w t" for w t
      using reads_spared(2) [OF r(2) [OF that [unfolded un]]] ch by blast
    have all: "\<exists>u. reads h' UNIV w u" if "reads ?h UNIV w t" for w t
      using hset_at_readable [OF a(2) ne r(1) v1 r(2) [OF that]] .
    obtain t0 where t0: "reads h' UNIV (Ref a) t0" using hset_at_readable [OF a(2) ne r(1) v1 r(1)] by blast
    have fol: "get_variable_param_value loads t0 rest = tv" for loads
      using hset_at_follow [OF a(2) ne r(1) t0 keep [OF v]] False by (simp add: get_variable_param_value_def)
    have sim: "set_variable_value c rf tv = Inr (put_component i (set_output k t0 cp) c)" if "unshared hc rf"
    proof -
      have "single_way h1 (target h1 a ?keys) a ?keys" using that tgt by (simp add: unshared_def)
      from hset_at_refines [OF a(2) ne r(1) v1 this] obtain u
        where "set_at ?t ?keys tv = Inr u" "reads h' UNIV (Ref a) u" by blast
      with reads_functional [OF t0] show ?thesis
        using rf cp(1) False by (auto simp: set_variable_value_def set_variable_param_value_def)
    qed
    show ?thesis
      using that [OF outs cp, of "Ref a" t0] t0 fol keep all sim False a(3) by simp
  qed
qed

lemma fields_rel_put_both:
  assumes "fields_rel R d ts" "distinct (map fst d)" "\<And>y. map_of ts key = y \<Longrightarrow> S x (f y)"
    and "\<And>k' w t. (k', w) \<in> set d \<Longrightarrow> k' \<noteq> key \<Longrightarrow> R w t \<Longrightarrow> S w t"
  shows "fields_rel S (AList.update key x d) (AList.update key (f (map_of ts key)) ts)"
  using assms
proof (induction rule: list_all2_induct)
  case (Cons p d q ts)
  obtain k w t where pq: "p = (k, w)" "q = (k, t)" "R w t" using Cons.hyps(1) by (auto elim: rel_prod.cases)
  show ?case
  proof (cases "k = key")
    case True
    have "fields_rel S d ts"
      by (rule fields_rel_mono [OF Cons.hyps(2)])
        (use Cons.prems(1,3) True pq in \<open>force simp: image_iff\<close>)
    with Cons.prems(2) True pq show ?thesis by simp
  next
    case False
    have "fields_rel S (AList.update key x d) (AList.update key (f (map_of ts key)) ts)"
      by (rule Cons.IH) (use Cons.prems False pq in \<open>auto simp: list.set_intros\<close>)
    with False Cons.prems(3) [of k w t] pq show ?thesis by simp
  qed
qed simp

lemma view_put:
  assumes view: "canvas_view hc c" and i: "map_of (hc_outputs hc) i = Some outs" "map_of (cv_components c) i = Some cp"
    and root: "reads h' UNIV rt t"
    and globals: "\<And>e w t. (e, w) \<in> set (hc_globals hc) \<Longrightarrow> reads (hc_heap hc) UNIV w t \<Longrightarrow> reads h' UNIV w t"
    and outputs: "\<And>j os s w t. (j, os) \<in> set (hc_outputs hc) \<Longrightarrow> (s, Some w) \<in> set os \<Longrightarrow> j \<noteq> i \<or> s \<noteq> k \<Longrightarrow>
      reads (hc_heap hc) UNIV w t \<Longrightarrow> reads h' UNIV w t"
  shows "canvas_view ((hset_output i k rt hc)\<lparr>hc_heap := h'\<rparr>) (put_component i (set_output k t cp) c)"
proof -
  note C = view [unfolded canvas_view_def]
  have "outs_view (hc_heap hc) outs cp" using canvas_view_component [OF view i(1)] i(2) by auto
  then have O: "distinct (map fst outs)"
    "fields_rel (\<lambda>ov e. rel_option (reads (hc_heap hc) UNIV) ov (oe_value e)) outs (cp_outputs cp)"
    by (simp_all add: outs_view_def)
  have entry: "rel_option (reads h' UNIV) ov (oe_value e)"
    if "rel_option (reads (hc_heap hc) UNIV) ov (oe_value e)" "(j, os) \<in> set (hc_outputs hc)" "(s, ov) \<in> set os" "j \<noteq> i \<or> s \<noteq> k"
    for ov e j os s
    using that outputs by (cases ov) (auto simp: option_rel_Some1)
  let ?e = "\<lambda>y. case y of None \<Rightarrow> \<lparr>oe_value = Some t, oe_ref = None\<rparr> | Some e \<Rightarrow> e\<lparr>oe_value := Some t\<rparr>"
  have "fields_rel (\<lambda>ov e. rel_option (reads h' UNIV) ov (oe_value e)) (AList.update k (Some rt) outs)
      (AList.update k (?e (map_of (cp_outputs cp) k)) (cp_outputs cp))"
    by (rule fields_rel_put_both [OF O(2,1), where f = ?e])
      (use root entry [OF _ map_of_SomeD [OF i(1)]] in \<open>auto split: option.split\<close>)
  then have "fields_rel (\<lambda>ov e. rel_option (reads h' UNIV) ov (oe_value e)) (AList.update k (Some rt) outs)
      (cp_outputs (set_output k t cp))" by (simp add: set_output_def)
  then have "outs_view h' (AList.update k (Some rt) outs) (set_output k t cp)"
    using O(1) by (simp add: outs_view_def distinct_update)
  moreover have "outs_view h' os cp'" if "outs_view (hc_heap hc) os cp'" "(j, os) \<in> set (hc_outputs hc)" "j \<noteq> i" for os cp' j
    using that entry [OF _ that(2)] by (auto simp: outs_view_def intro: fields_rel_mono)
  ultimately have "fields_rel (outs_view h') (AList.update i (AList.update k (Some rt) outs) (hc_outputs hc))
      (AList.update i (set_output k t cp) (cv_components c))"
    using C fields_rel_put_both [of "outs_view (hc_heap hc)" "hc_outputs hc" "cv_components c" i "outs_view h'"
        "AList.update k (Some rt) outs" "\<lambda>_. set_output k t cp"] by blast
  moreover have "fields_rel (reads h' UNIV) (hc_globals hc) (cv_globals c)"
    using C globals by (auto intro: fields_rel_mono)
  ultimately show ?thesis
    using C i(1) by (simp add: canvas_view_def hset_output_def put_component_def distinct_update)
qed

lemma view_transfer:
  assumes "canvas_view hc c" "\<And>w t. reads (hc_heap hc) UNIV w t \<Longrightarrow> \<exists>u. reads h' UNIV w u"
  shows "\<exists>c'. canvas_view (hc\<lparr>hc_heap := h'\<rparr>) c'"
proof -
  note C = assms(1) [unfolded canvas_view_def]
  have g: "\<exists>gs. fields_rel (reads h' UNIV) (hc_globals hc) gs"
    using fields_rel_some [of "reads (hc_heap hc) UNIV" "hc_globals hc" "cv_globals c" "reads h' UNIV"] C assms(2) by blast
  have e: "\<exists>e' :: out_entry. rel_option (reads h' UNIV) ov (oe_value e')" if "rel_option (reads (hc_heap hc) UNIV) ov (oe_value e)" for ov and e :: out_entry
  proof (cases ov)
    case (Some w)
    with that obtain t where "reads (hc_heap hc) UNIV w t" by (auto simp: option_rel_Some1)
    with assms(2) obtain u where "reads h' UNIV w u" by blast
    with Some have "rel_option (reads h' UNIV) ov (oe_value \<lparr>oe_value = Some u, oe_ref = None\<rparr>)" by simp
    then show ?thesis by blast
  qed (auto intro: exI [of _ "\<lparr>oe_value = None, oe_ref = None\<rparr>"])
  have o: "\<exists>cp'. outs_view h' outs cp'" if "outs_view (hc_heap hc) outs cp" for outs cp
  proof -
    have "\<exists>es. fields_rel (\<lambda>ov (e :: out_entry). rel_option (reads h' UNIV) ov (oe_value e)) outs es"
      using fields_rel_some [of "\<lambda>ov e. rel_option (reads (hc_heap hc) UNIV) ov (oe_value e)" outs "cp_outputs cp"
          "\<lambda>ov (e :: out_entry). rel_option (reads h' UNIV) ov (oe_value e)"] that e unfolding outs_view_def by blast
    then obtain es :: "(string \<times> out_entry) list" where "fields_rel (\<lambda>ov e. rel_option (reads h' UNIV) ov (oe_value e)) outs es" by blast
    with that show ?thesis by (intro exI [of _ "cp\<lparr>cp_outputs := es\<rparr>"]) (simp add: outs_view_def)
  qed
  have "\<exists>cs. fields_rel (outs_view h') (hc_outputs hc) cs"
    using fields_rel_some [of "outs_view (hc_heap hc)" "hc_outputs hc" "cv_components c" "outs_view h'"] C o by blast
  with g obtain gs cs where "fields_rel (reads h' UNIV) (hc_globals hc) gs" "fields_rel (outs_view h') (hc_outputs hc) cs"
    by blast
  with C show ?thesis by (intro exI [of _ "\<lparr>cv_globals = gs, cv_components = cs\<rparr>"]) (simp add: canvas_view_def)
qed

lemma fields_rel_same:
  "fields_rel R d es \<Longrightarrow> fields_rel S d fs \<Longrightarrow>
     (\<And>k x e f. (k, x) \<in> set d \<Longrightarrow> R x e \<Longrightarrow> S x f \<Longrightarrow> g e = g f) \<Longrightarrow> map (map_prod id g) es = map (map_prod id g) fs"
proof (induction arbitrary: fs rule: list_all2_induct)
  case (Cons p d q es)
  obtain k x e where pq: "p = (k, x)" "q = (k, e)" "R x e" using Cons.hyps(1) by (auto elim: rel_prod.cases)
  obtain f fs' where fs: "fs = (k, f) # fs'" "S x f" "fields_rel S d fs'"
    using Cons.prems(1) pq by (auto simp: list_all2_Cons1 elim: rel_prod.cases)
  have "map (map_prod id g) es = map (map_prod id g) fs'"
    by (rule Cons.IH [OF fs(3)]) (use Cons.prems(2) in auto)
  with Cons.prems(2) [of k x e f] pq fs show ?case by (simp add: id_def)
qed simp

lemma same_output:
  assumes "outs_view h outs cp" "outs_view h' outs' cp'"
    and "outs' = outs \<or> s \<noteq> [] \<and> map_of outs' s = map_of outs s"
    and "\<And>k w t t'. (k, Some w) \<in> set outs \<Longrightarrow> s = [] \<or> k = s \<Longrightarrow> reads h UNIV w t \<Longrightarrow> reads h' UNIV w t' \<Longrightarrow> t = t'"
  shows "cpn_output cp' s = cpn_output cp s"
proof (cases "s = []")
  case True
  have "fields_rel (\<lambda>ov e. rel_option (reads h UNIV) ov (oe_value e)) outs (cp_outputs cp)"
    "fields_rel (\<lambda>ov e. rel_option (reads h' UNIV) ov (oe_value e)) outs (cp_outputs cp')"
    using assms(1-3) True by (auto simp: outs_view_def)
  then have "map (map_prod id (\<lambda>e. case oe_value e of None \<Rightarrow> JNull | Some v \<Rightarrow> v)) (cp_outputs cp) =
      map (map_prod id (\<lambda>e. case oe_value e of None \<Rightarrow> JNull | Some v \<Rightarrow> v)) (cp_outputs cp')"
  proof (rule fields_rel_same)
    fix k ov and e f :: out_entry
    assume "(k, ov) \<in> set outs" "rel_option (reads h UNIV) ov (oe_value e)" "rel_option (reads h' UNIV) ov (oe_value f)"
    then show "(case oe_value e of None \<Rightarrow> JNull | Some v \<Rightarrow> v) = (case oe_value f of None \<Rightarrow> JNull | Some v \<Rightarrow> v)"
      using assms(4) True by (cases ov) (auto simp: option_rel_Some1)
  qed
  then show ?thesis using True by (simp add: cpn_output_def)
next
  case False
  have o: "houtput h' outs' s = (h', snd (houtput h outs s))" using assms(3) False by (auto simp: houtput_def)
  have r: "reads h UNIV (snd (houtput h outs s)) (cpn_output cp s)" "reads h' UNIV (snd (houtput h outs s)) (cpn_output cp' s)"
    using outs_view_output [OF assms(1) False] outs_view_output [OF assms(2) False] o by simp_all
  show ?thesis
  proof (cases "map_of outs s")
    case (Some ov)
    then have "(s, ov) \<in> set outs" by (rule map_of_SomeD)
    with Some r False show ?thesis
      by (cases ov) (auto simp: houtput_def elim!: reads_AtomE dest: assms(4))
  qed (use r False in \<open>auto simp: houtput_def elim!: reads_AtomE\<close>)
qed

lemma spared_reads:
  assumes "spared hc rf q" "w \<in> set (roots hc q)" "reads (hc_heap hc) UNIV w t"
  shows "reads (hc_heap hc) (untouched hc rf) w t"
  using assms reads_functional by (fastforce simp: spared_def list_all_iff spares_def)

lemma global_get:
  assumes "canvas_view hc c" "canvas_view hc' c'" "map_of (hc_globals hc') e = map_of (hc_globals hc) e"
    and "\<And>w t t'. map_of (hc_globals hc) e = Some w \<Longrightarrow> reads (hc_heap hc) UNIV w t \<Longrightarrow> reads (hc_heap hc') UNIV w t' \<Longrightarrow> t = t'"
  shows "map_of (cv_globals c') e = map_of (cv_globals c) e"
proof -
  have "rel_option (reads (hc_heap hc) UNIV) (map_of (hc_globals hc) e) (map_of (cv_globals c) e)"
    "rel_option (reads (hc_heap hc') UNIV) (map_of (hc_globals hc) e) (map_of (cv_globals c') e)"
    using assms(1-3) fields_rel_map_of [where k = e] by (fastforce simp: canvas_view_def)+
  then show ?thesis by (cases "map_of (hc_globals hc) e") (auto simp: option_rel_Some1 dest: assms(4))
qed

text \<open>What is read through a reference that a write is apart from, when what it holds is spared.\<close>

lemma get_spared:
  assumes view: "canvas_view hc c" "canvas_view hc' c'" and q: "spared hc rf q"
    and glob: "\<And>e. parse_ref q = GlobalVar e \<Longrightarrow> map_of (hc_globals hc') e = map_of (hc_globals hc) e"
    and out: "\<And>j s rest. parse_ref q = OutputVar j s rest \<Longrightarrow> map_of (hc_outputs hc') j = map_of (hc_outputs hc) j \<or>
      (\<exists>outs outs'. s \<noteq> [] \<and> map_of (hc_outputs hc) j = Some outs \<and> map_of (hc_outputs hc') j = Some outs' \<and>
         map_of outs' s = map_of outs s)"
    and keep: "\<And>w t. reads (hc_heap hc) (untouched hc rf) w t \<Longrightarrow> reads (hc_heap hc') UNIV w t"
  shows "get_variable_value loads c' q = get_variable_value loads c q"
proof -
  have same: "t = t'" if "w \<in> set (roots hc q)" "reads (hc_heap hc) UNIV w t" "reads (hc_heap hc') UNIV w t'" for w t t'
    using reads_functional [OF keep [OF spared_reads [OF q that(1,2)]] that(3)] .
  show ?thesis
  proof (cases "parse_ref q")
    case (GlobalVar e)
    have "map_of (cv_globals c') e = map_of (cv_globals c) e"
      by (rule global_get [OF view glob [OF GlobalVar]]) (rule same, simp_all add: roots_def GlobalVar)
    then show ?thesis by (simp add: get_variable_value_def GlobalVar)
  next
    case (OutputVar j s rest)
    show ?thesis
    proof (cases "map_of (hc_outputs hc) j")
      case None
      then have "map_of (hc_outputs hc') j = None" using out [OF OutputVar] by auto
      with None view have "map_of (cv_components c) j = None" "map_of (cv_components c') j = None"
        using fields_rel_map_of [where k = j] by (fastforce simp: canvas_view_def)+
      then show ?thesis by (simp add: get_variable_value_def OutputVar)
    next
      case (Some outs)
      with out [OF OutputVar] obtain outs' where o': "map_of (hc_outputs hc') j = Some outs'"
        "outs' = outs \<or> s \<noteq> [] \<and> map_of outs' s = map_of outs s" by auto
      obtain cp where cp: "map_of (cv_components c) j = Some cp" "outs_view (hc_heap hc) outs cp"
        using canvas_view_component [OF view(1) Some] .
      obtain cp' where cp': "map_of (cv_components c') j = Some cp'" "outs_view (hc_heap hc') outs' cp'"
        using canvas_view_component [OF view(2) o'(1)] .
      have "cpn_output cp' s = cpn_output cp s"
        by (rule same_output [OF cp(2) cp'(2) o'(2)], rule same)
          (auto simp: roots_def OutputVar Some split: option.splits)
      then show ?thesis by (simp add: get_variable_value_def OutputVar cp(1) cp'(1))
    qed
  qed (simp add: get_variable_value_def)
qed

lemma global_write:
  assumes view: "canvas_view hc c" and rf: "parse_ref rf = GlobalVar e"
    and step: "hset_variable_value hc rf v = Inr hc'" and v: "reads (hc_heap hc) (untouched hc rf) v tv"
  shows "hc_heap hc' = hc_heap hc" "untouched hc rf = UNIV" "hc_outputs hc' = hc_outputs hc"
    "hc_globals hc' = AList.update e v (hc_globals hc)"
    "canvas_view hc' (c\<lparr>cv_globals := AList.update e tv (cv_globals c)\<rparr>)"
proof -
  have hc': "hc' = hc\<lparr>hc_globals := AList.update e v (hc_globals hc)\<rparr>"
    using step rf by (simp add: hset_variable_value_def)
  show un: "untouched hc rf = UNIV" using rf by (simp add: untouched_def write_target_def)
  show "hc_heap hc' = hc_heap hc" "hc_outputs hc' = hc_outputs hc" "hc_globals hc' = AList.update e v (hc_globals hc)"
    using hc' by simp_all
  show "canvas_view hc' (c\<lparr>cv_globals := AList.update e tv (cv_globals c)\<rparr>)"
    using view v un fields_rel_update [of "reads (hc_heap hc) UNIV" "hc_globals hc" "cv_globals c" v tv e]
    by (simp add: canvas_view_def hc' distinct_update)
qed

lemma output_write_others:
  assumes "parse_ref rf = OutputVar i k rest" "apart rf q" "map_of (hc_outputs hc) i = Some outs"
    and "hc' = (hset_output i k rt hc)\<lparr>hc_heap := h'\<rparr>" "parse_ref q = OutputVar j s rest'"
  shows "map_of (hc_outputs hc') j = map_of (hc_outputs hc) j \<or>
    (\<exists>outs outs'. s \<noteq> [] \<and> map_of (hc_outputs hc) j = Some outs \<and> map_of (hc_outputs hc') j = Some outs' \<and>
       map_of outs' s = map_of outs s)"
  using assms by (auto simp: apart_def hset_output_def update_conv')

lemma unshared_keeps:
  assumes "unshared hc rf" "\<And>w t. reads (hc_heap hc) (untouched hc rf) w t \<Longrightarrow> reads h' UNIV w t"
  shows "(e, w) \<in> set (hc_globals hc) \<Longrightarrow> reads (hc_heap hc) UNIV w t \<Longrightarrow> reads h' UNIV w t"
    "parse_ref rf = OutputVar i k rest \<Longrightarrow> (j, os) \<in> set (hc_outputs hc) \<Longrightarrow> (s, Some w) \<in> set os \<Longrightarrow> j \<noteq> i \<or> s \<noteq> k \<Longrightarrow>
      reads (hc_heap hc) UNIV w t \<Longrightarrow> reads h' UNIV w t"
proof -
  have keep: "reads h' UNIV w t" if "spares (hc_heap hc) (untouched hc rf) w" "reads (hc_heap hc) UNIV w t" for w t
    using that assms(2) reads_functional by (fastforce simp: spares_def)
  show "(e, w) \<in> set (hc_globals hc) \<Longrightarrow> reads (hc_heap hc) UNIV w t \<Longrightarrow> reads h' UNIV w t"
    using assms(1) keep by (auto simp: unshared_def list_all_iff)
  assume "parse_ref rf = OutputVar i k rest" "(j, os) \<in> set (hc_outputs hc)" "(s, Some w) \<in> set os" "j \<noteq> i \<or> s \<noteq> k"
    "reads (hc_heap hc) UNIV w t"
  then show "reads h' UNIV w t" using assms(1) keep by (fastforce simp: unshared_def list_all_iff)
qed

text \<open>Property C16. Writing a variable of the canvas, by global name, by output, or by a path into an
  output, with sharing as Python has it. Let every variable stand for a finite tree, and let the new
  value not contain the object the path ends in (or it would contain itself). Then after the write
  every variable still stands for a tree; the written variable reads as the value, a missing part of the
  path being created; and every other variable that does not reach the one object the write changed
  reads as before. Where no other way leads to that object, the whole canvas is what the
  write computes on trees. (An output with an empty name stands for all outputs of a component and is
  not written.)\<close>

theorem variable_set_get:
  assumes "canvas_view hc c" "hset_variable_value hc rf v = Inr hc'" "writable rf"
    and "reads (hc_heap hc) (untouched hc rf) v tv"
  shows "(\<exists>c'. canvas_view hc' c') \<and>
    (\<forall>c'. canvas_view hc' c' \<longrightarrow> get_variable_value loads c' rf = Inr tv \<and>
       (\<forall>q. apart rf q \<and> spared hc rf q \<longrightarrow> get_variable_value loads c' q = get_variable_value loads c q)) \<and>
    (unshared hc rf \<longrightarrow> (\<exists>c'. set_variable_value c rf tv = Inr c' \<and> canvas_view hc' c'))"
proof (cases "parse_ref rf")
  case (GlobalVar e)
  note g = global_write [OF assms(1) GlobalVar assms(2,4)]
  have "get_variable_value loads c' rf = Inr tv" if "canvas_view hc' c'" for c'
  proof -
    have "map_of (cv_globals c') e = Some tv"
      using that fields_rel_map_of [of _ "hc_globals hc'" "cv_globals c'" e] assms(4) g(1,2,4) reads_functional
      by (fastforce simp: canvas_view_def update_conv' option_rel_Some1)
    then show ?thesis by (simp add: get_variable_value_def GlobalVar)
  qed
  moreover have "get_variable_value loads c' q = get_variable_value loads c q"
    if "canvas_view hc' c'" "apart rf q" "spared hc rf q" for c' q
    by (rule get_spared [OF assms(1) that(1,3)]) (use that(2) GlobalVar g in \<open>auto simp: apart_def update_conv'\<close>)
  moreover have "set_variable_value c rf tv = Inr (c\<lparr>cv_globals := AList.update e tv (cv_globals c)\<rparr>)"
    by (simp add: set_variable_value_def GlobalVar)
  ultimately show ?thesis using g(5) by blast
next
  case (OutputVar i k rest)
  then have k: "k \<noteq> []" using assms(3) by (simp add: writable_def)
  obtain outs cp rt t' where o: "map_of (hc_outputs hc) i = Some outs" "map_of (cv_components c) i = Some cp"
    and "outs_view (hc_heap hc) outs cp" and hc': "hc' = (hset_output i k rt hc)\<lparr>hc_heap := hc_heap hc'\<rparr>" and t': "reads (hc_heap hc') UNIV rt t'"
    and fol: "\<And>loads. (if rest = [] then t' else get_variable_param_value loads t' rest) = tv"
    and keep: "\<And>w t. reads (hc_heap hc) (untouched hc rf) w t \<Longrightarrow> reads (hc_heap hc') UNIV w t"
    and all: "\<And>w t. reads (hc_heap hc) UNIV w t \<Longrightarrow> \<exists>u. reads (hc_heap hc') UNIV w u"
    and sim: "unshared hc rf \<Longrightarrow> set_variable_value c rf tv = Inr (put_component i (set_output k t' cp) c)"
    by (rule output_write [OF assms(1) OutputVar k assms(2,4)]) (rule that)
  have "\<exists>c'. canvas_view hc' c'"
  proof -
    have "\<exists>c1. canvas_view (hc\<lparr>hc_heap := hc_heap hc'\<rparr>) c1" by (rule view_transfer [OF assms(1)]) (rule all)
    then obtain c1 where c1: "canvas_view (hc\<lparr>hc_heap := hc_heap hc'\<rparr>) c1" ..
    then obtain cp1 where "map_of (cv_components c1) i = Some cp1" using canvas_view_component o(1) by fastforce
    from view_put [OF c1 _ this t', of outs k] o(1) have "canvas_view hc' (put_component i (set_output k t' cp1) c1)"
      by (subst hc') (simp add: hset_output_def)
    then show ?thesis by blast
  qed
  moreover have "get_variable_value loads c' rf = Inr tv" if c': "canvas_view hc' c'" for c'
  proof -
    have o': "map_of (hc_outputs hc') i = Some (AList.update k (Some rt) outs)"
      by (subst hc') (simp add: hset_output_def o(1) update_conv')
    obtain cp' where cp': "map_of (cv_components c') i = Some cp'" "outs_view (hc_heap hc') (AList.update k (Some rt) outs) cp'"
      using canvas_view_component [OF c' o'] .
    have "cpn_output cp' k = t'"
      using outs_view_output [OF cp'(2) k] reads_functional [OF t'] k by (simp add: houtput_def update_conv')
    with fol cp'(1) show ?thesis by (auto simp: get_variable_value_def OutputVar)
  qed
  moreover have "get_variable_value loads c' q = get_variable_value loads c q"
    if "canvas_view hc' c'" "apart rf q" "spared hc rf q" for c' q
  proof (rule get_spared [OF assms(1) that(1,3)])
    show "map_of (hc_globals hc') e = map_of (hc_globals hc) e" for e by (subst hc') (simp add: hset_output_def)
  qed (use keep output_write_others [OF OutputVar that(2) o(1) hc'] in blast)+
  moreover have "canvas_view hc' (put_component i (set_output k t' cp) c)" if "unshared hc rf"
    by (subst hc', rule view_put [OF assms(1) o t'])
      (use unshared_keeps [OF that keep] OutputVar in blast)+
  ultimately show ?thesis using sim by blast
qed (use assms(2) in \<open>simp add: hset_variable_value_def\<close>)

text \<open>A canvas in which a global and an output hold the same dict. Writing a field of the output
  changes what the global reads; the model on trees would not.\<close>

definition shared_canvas :: hcanvas where
  "shared_canvas = \<lparr>hc_heap = [HDict [(''a'', Atom (JInt 1))]],
     hc_globals = [(''sys.query'', Atom (JStr ''q'')), (''env.x'', Ref 0)], hc_outputs = [(''c:0'', [(''r'', Some (Ref 0))])]\<rparr>"

definition shared_written :: hcanvas where
  "shared_written = shared_canvas\<lparr>hc_heap := [HDict [(''a'', Atom (JInt 7))]]\<rparr>"

definition shared_view :: "json \<Rightarrow> canvas" where
  "shared_view j = \<lparr>cv_globals = [(''sys.query'', JStr ''q''), (''env.x'', JDict [(''a'', j)])],
     cv_components = [(''c:0'', \<lparr>cp_name = ''code'', cp_outputs = [(''r'', \<lparr>oe_value = Some (JDict [(''a'', j)]), oe_ref = None\<rparr>)],
       cp_downstream = [], cp_parent = None\<rparr>)]\<rparr>"

lemma shared_refs:
  "parse_ref ''{c:0@r.a}'' = OutputVar ''c:0'' ''r'' ''a''" "parse_ref ''sys.query'' = GlobalVar ''sys.query''"
  "split_on (CHR ''.'') ''a'' = [''a'']"
  by code_simp+

lemma shared_dict: "h = [HDict [(''a'', Atom (JInt n))]] \<Longrightarrow> reads h UNIV (Ref 0) (JDict [(''a'', JInt n)])"
  by (rule reads.dict) (auto intro!: reads.atom)

lemma shared_canvas_view: "canvas_view shared_canvas (shared_view (JInt 1))" "canvas_view shared_written (shared_view (JInt 7))"
  using shared_dict by (auto simp: canvas_view_def outs_view_def shared_canvas_def shared_written_def shared_view_def intro!: reads.atom)

lemma shared_write: "hset_variable_value shared_canvas ''{c:0@r.a}'' (Atom (JInt 7)) = Inr shared_written"
  by (simp add: hset_variable_value_def shared_refs shared_canvas_def shared_written_def houtput_def or_new_dict_def
      htruthy_def hset_output_def)

theorem variable_set_get_witness:
  "\<exists>hc'. hset_variable_value shared_canvas ''{c:0@r.a}'' (Atom (JInt 7)) = Inr hc' \<and>
     canvas_view hc' (shared_view (JInt 7)) \<and>
     get_variable_value (\<lambda>_. None) (shared_view (JInt 7)) ''{c:0@r.a}'' = Inr (JInt 7) \<and>
     get_variable_value (\<lambda>_. None) (shared_view (JInt 7)) ''sys.query'' =
       get_variable_value (\<lambda>_. None) (shared_view (JInt 1)) ''sys.query''"
proof -
  have w: "writable ''{c:0@r.a}''" "apart ''{c:0@r.a}'' ''sys.query''" by (simp_all add: writable_def apart_def shared_refs)
  have v: "reads (hc_heap shared_canvas) (untouched shared_canvas ''{c:0@r.a}'') (Atom (JInt 7)) (JInt 7)"
    by (rule reads.atom) simp_all
  have "spared shared_canvas ''{c:0@r.a}'' ''sys.query''"
    by (auto simp: spared_def roots_def shared_refs shared_canvas_def spares_def intro!: exI reads.atom)
  with variable_set_get [OF shared_canvas_view(1) shared_write w(1) v, of "\<lambda>_. None"] w(2) shared_canvas_view(2) shared_write
  show ?thesis by blast
qed

lemma shared_variable_changes:
  "get_variable_value loads (shared_view (JInt 1)) ''env.x'' = Inr (JDict [(''a'', JInt 1)])"
  "get_variable_value loads (shared_view (JInt 7)) ''env.x'' = Inr (JDict [(''a'', JInt 7)])"
proof -
  have "parse_ref ''env.x'' = GlobalVar ''env.x''" by code_simp
  then show "get_variable_value loads (shared_view (JInt 1)) ''env.x'' = Inr (JDict [(''a'', JInt 1)])"
    "get_variable_value loads (shared_view (JInt 7)) ''env.x'' = Inr (JDict [(''a'', JInt 7)])"
    by (simp_all add: get_variable_value_def shared_view_def)
qed


end
