(* ===== verification/Canvas_Template.thy ===== *)
theory Canvas_Template
  imports Canvas_Vars
begin

text \<open>
  Texts with references in them (\<open>Graph.get_value_with_variable\<close> of \<open>src/agent/canvas.py\<close>) and
  the reset of a canvas (\<open>Canvas.reset\<close>).

  \<open>match_ref\<close> is the regular expression of the source at one position,
  \<open>\{* *\{(key)\} *\}*\<close>: greedy, with the only two ways it can backtrack written out. \<open>expand\<close> is
  the loop over \<open>finditer\<close>.
\<close>

section \<open>The pattern\<close>

definition ref_alnum :: "char \<Rightarrow> bool" where
  "ref_alnum c \<longleftrightarrow> (let n = (of_char c :: nat) in
     (48 \<le> n \<and> n \<le> 57) \<or> (65 \<le> n \<and> n \<le> 90) \<or> (97 \<le> n \<and> n \<le> 122))"

definition ref_cpn :: "char \<Rightarrow> bool" where
  "ref_cpn c \<longleftrightarrow> ref_alnum c \<or> c = CHR '':''"

definition ref_dotted :: "char \<Rightarrow> bool" where
  "ref_dotted c \<longleftrightarrow> ref_alnum c \<or> c = CHR ''_'' \<or> c = CHR ''.''"

definition ref_var :: "char \<Rightarrow> bool" where
  "ref_var c \<longleftrightarrow> ref_dotted c \<or> c = CHR ''-''"

definition closed_run :: "(char \<Rightarrow> bool) \<Rightarrow> string \<Rightarrow> (string \<times> string) option" where
  \<comment> \<open>one or more characters of a class, then a closing brace\<close>
  "closed_run p s =
     (case dropWhile p s of
        c # rest \<Rightarrow> if takeWhile p s \<noteq> [] \<and> c = CHR ''}'' then Some (takeWhile p s, rest) else None
      | [] \<Rightarrow> None)"

definition match_key :: "string \<Rightarrow> (string \<times> string) option" where
  "match_key s =
     (case dropWhile ref_cpn s of
        c # r \<Rightarrow>
          if c = CHR ''@'' \<and> takeWhile ref_cpn s \<noteq> []
          then map_option (map_prod (\<lambda>n. takeWhile ref_cpn s @ ''@'' @ n) id) (closed_run ref_var r)
          else if prefix ''sys.'' s
          then map_option (map_prod (\<lambda>n. ''sys.'' @ n) id) (closed_run ref_dotted (drop 4 s))
          else if prefix ''env.'' s
          then map_option (map_prod (\<lambda>n. ''env.'' @ n) id) (closed_run ref_dotted (drop 4 s))
          else None
      | [] \<Rightarrow> None)"

definition match_ref :: "string \<Rightarrow> (string \<times> string) option" where
  "match_ref s =
     (let s1 = dropWhile (\<lambda>c. c = CHR ''{'') s;
          found = (case dropWhile (\<lambda>c. c = CHR '' '') s1 of
                     c # s3 \<Rightarrow> if c = CHR ''{'' then match_key s3
                              else if s1 \<noteq> s then match_key s1 else None
                   | [] \<Rightarrow> None) in
      map_option (map_prod id (\<lambda>r. dropWhile (\<lambda>c. c = CHR ''}'') (dropWhile (\<lambda>c. c = CHR '' '') r))) found)"

lemma closed_run_Some:
  "closed_run p s = Some (n, r) \<longleftrightarrow>
     n \<noteq> [] \<and> s = n @ CHR ''}'' # r \<and> (\<forall>c \<in> set n. p c) \<and> \<not> p (CHR ''}'')"
proof
  assume a: "closed_run p s = Some (n, r)"
  then obtain c where d: "dropWhile p s = c # r" "c = CHR ''}''" "n = takeWhile p s" "n \<noteq> []"
    by (auto simp: closed_run_def split: list.splits if_splits)
  then have "s = n @ c # r" using takeWhile_dropWhile_id [of p s] by simp
  moreover have "\<not> p c" using d(1) hd_dropWhile [of p s] by simp
  ultimately show "n \<noteq> [] \<and> s = n @ CHR ''}'' # r \<and> (\<forall>c \<in> set n. p c) \<and> \<not> p (CHR ''}'')"
    using d by (auto dest: set_takeWhileD)
qed (auto simp: closed_run_def takeWhile_append dropWhile_append)

lemma ref_classes [simp]:
  "\<not> ref_var (CHR ''}'')" "\<not> ref_dotted (CHR ''}'')" "\<not> ref_cpn (CHR ''@'')" "\<not> ref_cpn (CHR ''{'')"
  "\<not> ref_cpn (CHR ''.'')" "\<not> ref_cpn (CHR '' '')"
  by (simp_all add: ref_var_def ref_dotted_def ref_cpn_def ref_alnum_def)

lemma match_key_shape:
  assumes "match_key s = Some (k, r)"
  shows "s = k @ CHR ''}'' # r" "match_key (k @ CHR ''}'' # r') = Some (k, r')"
    "k \<noteq> []" "hd k \<noteq> CHR ''{''" "hd k \<noteq> CHR '' ''"
proof -
  obtain c t where d: "dropWhile ref_cpn s = c # t"
    using assms by (auto simp: match_key_def split: list.splits)
  let ?w = "takeWhile ref_cpn s"
  have s: "s = ?w @ c # t" using d takeWhile_dropWhile_id [of ref_cpn s] by simp
  have w: "\<forall>x \<in> set ?w. ref_cpn x" by (auto dest: set_takeWhileD)
  have "(s = k @ CHR ''}'' # r \<and> match_key (k @ CHR ''}'' # r') = Some (k, r')) \<and>
    k \<noteq> [] \<and> hd k \<noteq> CHR ''{'' \<and> hd k \<noteq> CHR '' ''"
  proof (cases "c = CHR ''@'' \<and> ?w \<noteq> []")
    case True
    then obtain n where n: "closed_run ref_var t = Some (n, r)" "k = ?w @ ''@'' @ n"
      using assms d by (auto simp: match_key_def)
    then have t: "t = n @ CHR ''}'' # r" "closed_run ref_var (n @ CHR ''}'' # r') = Some (n, r')"
      by (auto simp: closed_run_Some)
    have "takeWhile ref_cpn (?w @ CHR ''@'' # n @ CHR ''}'' # r') = ?w"
      "dropWhile ref_cpn (?w @ CHR ''@'' # n @ CHR ''}'' # r') = CHR ''@'' # n @ CHR ''}'' # r'"
      using w by (simp_all add: takeWhile_append dropWhile_append)
    then have "match_key (k @ CHR ''}'' # r') = Some (k, r')"
      using True t n by (simp add: match_key_def)
    moreover have "ref_cpn (hd ?w)" using w True by (cases ?w) auto
    then have "hd k \<noteq> CHR ''{''" "hd k \<noteq> CHR '' ''" using True n(2) by auto
    ultimately show ?thesis using s t True n(2) by auto
  next
    case False
    then obtain pre n where pre: "pre = ''sys.'' \<or> pre = ''env.''" "prefix pre s"
      "closed_run ref_dotted (drop 4 s) = Some (n, r)" "k = pre @ n"
      using assms d by (auto simp: match_key_def split: if_splits)
    then obtain q where q: "s = pre @ q" "drop 4 s = q" by (auto simp: prefix_def)
    then have t: "q = n @ CHR ''}'' # r" "closed_run ref_dotted (n @ CHR ''}'' # r') = Some (n, r')"
      using pre(3) by (auto simp: closed_run_Some)
    have "match_key (k @ CHR ''}'' # r') = Some (k, r')"
      using pre(1,4) t(2) by (auto simp: match_key_def ref_cpn_def ref_alnum_def)
    with pre q t show ?thesis by auto
  qed
  then show "s = k @ CHR ''}'' # r" "match_key (k @ CHR ''}'' # r') = Some (k, r')"
    "k \<noteq> []" "hd k \<noteq> CHR ''{''" "hd k \<noteq> CHR '' ''" by blast+
qed

lemma match_ref_shorter: "match_ref s = Some (k, r) \<Longrightarrow> length r < length s"
proof -
  assume a: "match_ref s = Some (k, r)"
  let ?s1 = "dropWhile (\<lambda>c. c = CHR ''{'') s"
  let ?cut = "\<lambda>t. dropWhile (\<lambda>c. c = CHR ''}'') (dropWhile (\<lambda>c. c = CHR '' '') t)"
  have le: "length (dropWhile p t) \<le> length t" for p :: "char \<Rightarrow> bool" and t by (rule length_dropWhile_le)
  obtain s3 r0 where m: "match_key s3 = Some (k, r0)" "r = ?cut r0"
    "s3 = ?s1 \<or> (\<exists>c. dropWhile (\<lambda>c. c = CHR '' '') ?s1 = c # s3)"
    using a by (auto simp: match_ref_def Let_def split: list.splits if_splits)
  have "length s3 \<le> length ?s1"
    using m(3) le [of "\<lambda>c. c = CHR '' ''" ?s1] by auto
  moreover have "length r0 < length s3" using match_key_shape(1) [OF m(1)] by simp
  moreover have "length r \<le> length r0" using m(2) le order_trans by blast
  ultimately show ?thesis using le [of "\<lambda>c. c = CHR ''{''" s] by linarith
qed

section \<open>Substitution\<close>

function expand :: "(string \<Rightarrow> 'e + string) \<Rightarrow> string \<Rightarrow> 'e + string" where
  "expand look s =
     (case match_ref s of
        Some (key, rest) \<Rightarrow> bindE (look key) (\<lambda>rep. bindE (expand look rest) (\<lambda>out. Inr (rep @ out)))
      | None \<Rightarrow> (case s of [] \<Rightarrow> Inr [] | c # t \<Rightarrow> bindE (expand look t) (\<lambda>out. Inr (c # out))))"
  by pat_completeness auto
termination
  by (relation "measure (\<lambda>(look, s). length s)") (auto dest: match_ref_shorter)

declare expand.simps [simp del]

primrec dumps_plain :: "(rat \<Rightarrow> string) \<Rightarrow> json \<Rightarrow> string" where
  \<comment> \<open>\<open>json.dumps(v, ensure_ascii=False)\<close>: order of keys kept, separators with a space\<close>
  "dumps_plain fr JNull = ''null''"
| "dumps_plain fr (JBool b) = (if b then ''true'' else ''false'')"
| "dumps_plain fr (JInt i) = int_str i"
| "dumps_plain fr (JFloat x) = (case x of Finite q \<Rightarrow> fr q | PosInf \<Rightarrow> ''Infinity'' | NegInf \<Rightarrow> ''-Infinity'' | NaN \<Rightarrow> ''NaN'')"
| "dumps_plain fr (JStr s) = quote_str s"
| "dumps_plain fr (JList xs) = ''['' @ join '', '' (map (dumps_plain fr) xs) @ '']''"
| "dumps_plain fr (JDict d) = ''{'' @ join '', '' (map (\<lambda>(k, t). quote_str k @ '': '' @ t)
     (map (map_prod id (dumps_plain fr)) d)) @ ''}''"

definition replacement :: "platform \<Rightarrow> json \<Rightarrow> string" where
  "replacement P v = (case v of JNull \<Rightarrow> [] | JStr s \<Rightarrow> s | _ \<Rightarrow> dumps_plain (frepr P) v)"

definition get_value_with_variable :: "platform \<Rightarrow> canvas \<Rightarrow> string \<Rightarrow> var_error + string" where
  "get_value_with_variable P c s =
     expand (\<lambda>key. bindE (get_variable_value (json_loads P) c key) (\<lambda>v. Inr (replacement P v))) s"

lemma match_ref_open:
  assumes "match_key (k @ CHR ''}'' # r0) = Some (k, r0)"
  shows "match_ref (replicate n (CHR '' '') @ CHR ''{'' # k @ CHR ''}'' # r) =
    Some (k, dropWhile (\<lambda>c. c = CHR ''}'') (dropWhile (\<lambda>c. c = CHR '' '') r))"
proof -
  note K = match_key_shape [OF assms]
  have key: "match_key (k @ CHR ''}'' # r) = Some (k, r)" by (rule K(2))
  obtain x k' where k: "k = x # k'" "x \<noteq> CHR ''{''" "x \<noteq> CHR '' ''" using K(3-5) by (cases k) auto
  show ?thesis
  proof (cases n)
    case 0
    then show ?thesis using key k by (simp add: match_ref_def Let_def)
  next
    case (Suc m)
    have "dropWhile (\<lambda>c. c = CHR '' '') (replicate m (CHR '' '') @ CHR ''{'' # k @ CHR ''}'' # r) = CHR ''{'' # k @ CHR ''}'' # r"
      by (subst dropWhile_append2) auto
    then show ?thesis using Suc key by (simp add: match_ref_def Let_def)
  qed
qed

lemma match_ref_plain:
  assumes "c \<noteq> CHR ''{''" "CHR ''{'' \<notin> set pre" "last (c # pre) \<noteq> CHR '' ''"
  shows "match_ref (c # pre @ t) = None"
proof -
  let ?sp = "\<lambda>c. c = CHR '' ''"
  obtain y where y: "y \<in> set (c # pre)" "\<not> ?sp y" using assms(3) last_in_set [of "c # pre"] by blast
  then have "dropWhile ?sp (c # pre) \<noteq> []" unfolding dropWhile_eq_Nil_conv by blast
  then obtain x u where d: "dropWhile ?sp (c # pre) = x # u" by (meson list.exhaust)
  then have "x \<in> set (c # pre)" using set_dropWhileD [of x ?sp "c # pre"] by simp
  then have "x \<noteq> CHR ''{''" using assms by auto
  moreover have "dropWhile ?sp ((c # pre) @ t) = x # u @ t"
    using dropWhile_append1 [OF y(1), of ?sp t] y(2) d by simp
  ultimately show ?thesis using assms(1) by (simp add: match_ref_def Let_def)
qed

lemma expand_plain_prefix:
  assumes "CHR ''{'' \<notin> set pre" "pre = [] \<or> last pre \<noteq> CHR '' ''"
  shows "expand look (pre @ t) = bindE (expand look t) (\<lambda>out. Inr (pre @ out))"
  using assms
proof (induction pre)
  case Nil
  then show ?case by (cases "expand look t") simp_all
next
  case (Cons c pre)
  have "match_ref (c # pre @ t) = None" using match_ref_plain [of c pre t] Cons.prems by auto
  moreover have "expand look (pre @ t) = bindE (expand look t) (\<lambda>out. Inr (pre @ out))"
    using Cons by (auto split: if_splits)
  ultimately show ?case by (subst expand.simps) (simp add: bindE_assoc)
qed

text \<open>A reference in braces is replaced by its value, the text before it is kept and
  the text after it is expanded in turn; but the spaces on both sides of the reference disappear
  with it, however many there are.\<close>

lemma template_reference_replaced:
  assumes "CHR ''{'' \<notin> set pre" "pre = [] \<or> last pre \<noteq> CHR '' ''"
    and "post = [] \<or> hd post \<notin> {CHR '' '', CHR ''}''}"
    and "match_key (key @ ''}'') = Some (key, [])"
    and "get_variable_value (json_loads P) c key = Inr v"
    and "get_value_with_variable P c post = Inr out"
  shows "get_value_with_variable P c
      (pre @ replicate n (CHR '' '') @ ''{'' @ key @ ''}'' @ replicate m (CHR '' '') @ post)
    = Inr (pre @ replacement P v @ out)"
proof -
  let ?look = "\<lambda>key. bindE (get_variable_value (json_loads P) c key) (\<lambda>v. Inr (replacement P v))"
  let ?rest = "replicate n (CHR '' '') @ CHR ''{'' # key @ CHR ''}'' # replicate m (CHR '' '') @ post"
  have "dropWhile (\<lambda>c. c = CHR ''}'') (dropWhile (\<lambda>c. c = CHR '' '') (replicate m (CHR '' '') @ post)) = post"
    using assms(3) by (subst dropWhile_append2) (cases post; auto)+
  then have "match_ref ?rest = Some (key, post)" using match_ref_open [of key "[]"] assms(4) by simp
  then have "expand ?look ?rest = Inr (replacement P v @ out)"
    using assms(5,6) by (subst expand.simps) (simp add: get_value_with_variable_def)
  then show ?thesis using expand_plain_prefix [OF assms(1,2), of ?look ?rest]
    by (simp add: get_value_with_variable_def)
qed

lemma template_reference_replaced_example:
  "get_value_with_variable demo_platform demo_canvas ''say {sys.query} now'' = Inr ''sayqnow''"
proof -
  have "get_variable_value (json_loads demo_platform) demo_canvas ''sys.query'' = Inr (JStr ''q'')"
    by code_simp
  moreover have "get_value_with_variable demo_platform demo_canvas ''now'' = Inr ''now''" by code_simp
  moreover have "match_key (''sys.query'' @ ''}'') = Some (''sys.query'', [])" by code_simp
  ultimately show ?thesis
    using template_reference_replaced [of "''say''" "''now''" "''sys.query''" demo_platform demo_canvas
        "JStr ''q''" "''now''" 1 1]
    by (simp add: replacement_def)
qed


end
