(* ===== verification/Canvas_Run.thy ===== *)
theory Canvas_Run
  imports Canvas_Template
begin

text \<open>
  The scheduler of an agent canvas (\<open>Canvas.run\<close> of \<open>src/agent/canvas.py\<close>) and the reset of its
  globals (\<open>Canvas.reset\<close>).

  The path lists the components in the order they are scheduled. A batch is the part of the path
  not executed yet; components whose inputs come from components that are not on the path before
  them are taken off it; after a batch every component schedules its successors. What the
  components do is a parameter: \<open>needs\<close> gives the components a component reads from, \<open>seen\<close> what the
  scheduler observes of a component after a batch. A canvas may loop for ever, so the loop takes
  a number of batches; running out of it is an outcome of its own.
\<close>

section \<open>Reset\<close>

definition sys_zero :: "json \<Rightarrow> json" where
  \<comment> \<open>a Boolean is an \<open>int\<close> in Python\<close>
  "sys_zero v = (case v of JStr _ \<Rightarrow> JStr [] | JInt _ \<Rightarrow> JInt 0 | JBool _ \<Rightarrow> JInt 0 | JFloat _ \<Rightarrow> JInt 0
     | JList _ \<Rightarrow> JList [] | JDict _ \<Rightarrow> JDict [] | JNull \<Rightarrow> JNull)"

definition env_value :: "pydict \<Rightarrow> json" where
  "env_value variable =
     (let t = dget_or variable ''type'' (JStr []) in
      if dget variable ''value'' \<noteq> JNull then dget variable ''value''
      else if t = JStr ''number'' then JInt 0
      else if t = JStr ''boolean'' then JBool False
      else if t = JStr ''object'' then JDict []
      else case t of JStr s \<Rightarrow> if prefix ''array'' s then JList [] else JStr [] | _ \<Rightarrow> JStr [])"

definition variable_keys :: "pydict \<Rightarrow> (string \<times> pydict) list \<Rightarrow> string list" where
  "variable_keys globals variables =
     remdups (map (drop 4) (filter (prefix ''env.'') (map fst globals)) @ map fst variables)"

definition reset_globals :: "(string \<times> pydict) list \<Rightarrow> pydict \<Rightarrow> pydict" where
  "reset_globals variables globals =
     (let zeroed = map (\<lambda>(k, v). (k, if prefix ''sys.'' k then sys_zero v else v)) globals;
          g = AList.update ''sys.chat_template_kwargs'' JNull zeroed in
      foldl (\<lambda>g k. AList.update (''env.'' @ k)
          (env_value (case map_of variables k of None \<Rightarrow> [] | Some d \<Rightarrow> d)) g)
        g (variable_keys g variables))"

lemma foldl_update_map_of:
  "inj f \<Longrightarrow> map_of (foldl (\<lambda>g k. AList.update (f k) (h k) g) g ks) x =
     (if x \<in> f ` set ks then Some (h (inv f x)) else map_of g x)"
  by (induction ks arbitrary: g) (auto simp: update_conv')

lemma map_of_zeroed:
  "map_of (map (\<lambda>(k, v). (k, if p k then z v else v)) g) x =
     map_option (\<lambda>v. if p x then z v else v) (map_of g x)"
  by (induction g) auto

lemma variable_keys_mem:
  "k \<in> (@) ''env.'' ` set (variable_keys g variables) \<longleftrightarrow>
     prefix ''env.'' k \<and> (has_key g k \<or> has_key variables (drop 4 k))"
proof -
  have vk: "set (variable_keys g variables) =
      {drop 4 x | x. prefix ''env.'' x \<and> has_key g x} \<union> {y. has_key variables y}"
    by (auto simp: variable_keys_def has_key_def)
  have e: "prefix ''env.'' x \<Longrightarrow> ''env.'' @ drop 4 x = x" for x by (auto simp: prefix_def)
  show ?thesis
  proof
    assume "k \<in> (@) ''env.'' ` set (variable_keys g variables)"
    then obtain y where y: "k = ''env.'' @ y" "y \<in> set (variable_keys g variables)" by blast
    then have k: "prefix ''env.'' k" "drop 4 k = y" by simp_all
    from y(2) consider x where "y = drop 4 x" "prefix ''env.'' x" "has_key g x" | "has_key variables y"
      unfolding vk by blast
    then show "prefix ''env.'' k \<and> (has_key g k \<or> has_key variables (drop 4 k))"
      using k y(1) e by cases auto
  next
    assume a: "prefix ''env.'' k \<and> (has_key g k \<or> has_key variables (drop 4 k))"
    then have "drop 4 k \<in> set (variable_keys g variables)" unfolding vk by blast
    then show "k \<in> (@) ''env.'' ` set (variable_keys g variables)" using e a by (metis image_eqI)
  qed
qed

text \<open>A reset gives every system variable the empty value of its type, every
  environment variable its declared value or the empty value of its declared type, declared or
  left over from an earlier run, and leaves the other globals as they are.\<close>

lemma reset_globals_values:
  "map_of (reset_globals variables globals) k =
     (if prefix ''env.'' k \<and> (has_key globals k \<or> has_key variables (drop 4 k))
      then Some (env_value (case map_of variables (drop 4 k) of None \<Rightarrow> [] | Some d \<Rightarrow> d))
      else if k = ''sys.chat_template_kwargs'' then Some JNull
      else map_option (if prefix ''sys.'' k then sys_zero else id) (map_of globals k))"
proof -
  let ?g = "AList.update ''sys.chat_template_kwargs'' JNull
    (map (\<lambda>(k, v). (k, if prefix ''sys.'' k then sys_zero v else v)) globals)"
  let ?h = "\<lambda>k. env_value (case map_of variables k of None \<Rightarrow> [] | Some d \<Rightarrow> d)"
  have g: "map_of ?g k = (if k = ''sys.chat_template_kwargs'' then Some JNull
      else map_option (if prefix ''sys.'' k then sys_zero else id) (map_of globals k))"
    by (auto simp: update_conv' map_of_zeroed option.map_comp comp_def option.map_id [unfolded id_def] id_def)
  have keys: "prefix ''env.'' k \<Longrightarrow> has_key ?g k \<longleftrightarrow> has_key globals k"
    unfolding has_key_iff g by auto
  have inj: "inj ((@) ''env.'')" by (simp add: inj_def)
  have h: "inv ((@) ''env.'') k = drop 4 k" if "prefix ''env.'' k"
    using that inv_f_f [OF inj, of "drop 4 k"] by (auto simp: prefix_def)
  have val: "map_of (reset_globals variables globals) k =
      (if k \<in> (@) ''env.'' ` set (variable_keys ?g variables) then Some (?h (inv ((@) ''env.'') k)) else map_of ?g k)"
    unfolding reset_globals_def Let_def by (rule foldl_update_map_of [OF inj, where h = ?h])
  show ?thesis
  proof (cases "prefix ''env.'' k \<and> (has_key globals k \<or> has_key variables (drop 4 k))")
    case True
    then have "k \<in> (@) ''env.'' ` set (variable_keys ?g variables)" using variable_keys_mem keys by blast
    then have "map_of (reset_globals variables globals) k = Some (?h (drop 4 k))" using val h True by presburger
    then show ?thesis unfolding if_P [OF True] .
  next
    case False
    then have "k \<notin> (@) ''env.'' ` set (variable_keys ?g variables)" using variable_keys_mem keys by blast
    then have "map_of (reset_globals variables globals) k = map_of ?g k" using val by presburger
    then show ?thesis unfolding if_not_P [OF False] g .
  qed
qed

section \<open>The path\<close>

text \<open>An iteration without a start puts \<open>None\<close> on the path; here it is the empty id, which names no
  component.\<close>

datatype run_error = UnknownComponent string | NoParent string

record observed =
  ob_failed :: bool \<comment> \<open>the component has an error\<close>
  ob_handler :: "(string list \<times> json) option" \<comment> \<open>\<open>exception_handler()\<close>: goto, default value\<close>
  ob_next :: "string list" \<comment> \<open>its output \<open>_next\<close>\<close>
  ob_end :: bool \<comment> \<open>\<open>end()\<close> of an iteration or loop item\<close>

definition cpn_of :: "canvas \<Rightarrow> string \<Rightarrow> run_error + component" where
  "cpn_of c i = (case map_of (cv_components c) i of None \<Rightarrow> Inl (UnknownComponent i) | Some x \<Rightarrow> Inr x)"

definition name_of :: "canvas \<Rightarrow> string \<Rightarrow> string" where
  "name_of c i = (case map_of (cv_components c) i of None \<Rightarrow> [] | Some x \<Rightarrow> cp_name x)"

definition get_start :: "canvas \<Rightarrow> string \<Rightarrow> string option" where
  \<comment> \<open>of an iteration the first \<open>iterationitem\<close> in it, of a loop the first \<open>loopitem\<close>\<close>
  "get_start c i =
     map_option fst (find (\<lambda>(cid, x). cp_name x = name_of c i @ ''item'' \<and> cp_parent x = Some i) (cv_components c))"

definition fillup_id :: "string \<Rightarrow> bool" where
  "fillup_id i \<longleftrightarrow> occurs_in ''userfillup'' (ascii_lower i)"

definition append_path :: "string \<Rightarrow> string list \<Rightarrow> string list" where
  "append_path i path = (if path \<noteq> [] \<and> last path = i then path else path @ [i])"

definition extend_path :: "string list \<Rightarrow> string list \<Rightarrow> string list" where
  "extend_path is path = foldl (\<lambda>p i. append_path i p) path is"

fun admit :: "(string \<Rightarrow> string list) \<Rightarrow> canvas \<Rightarrow> string list \<Rightarrow> string list \<Rightarrow> string list" where
  \<comment> \<open>\<open>_run_batch\<close>: the components of the batch that stay on the path, which is \<open>before\<close> it\<close>
  "admit needs c before [] = []"
| "admit needs c before (i # batch) =
     (if name_of c i \<in> {''begin'', ''userfillup''} \<or> fillup_id (hd (before @ [i]))
         \<or> list_all (\<lambda>n. n = [] \<or> n \<in> set before) (needs i)
      then i # admit needs c (before @ [i]) batch
      else admit needs c before batch)"

definition successors :: "canvas \<Rightarrow> observed \<Rightarrow> string \<Rightarrow> component \<Rightarrow> run_error + string list" where
  \<comment> \<open>the chain of conditions at the end of the post-processing of one component\<close>
  "successors c ob i x =
     (let parent_downstream = (case cp_parent x of
            None \<Rightarrow> Inl (NoParent i)
          | Some p \<Rightarrow> bindE (cpn_of c p) (\<lambda>y. Inr (cp_downstream y)));
          start_of = (\<lambda>j. Inr [case get_start c j of None \<Rightarrow> [] | Some s \<Rightarrow> s]) in
      if cp_name x \<in> {''iterationitem'', ''loopitem''} \<and> ob_end ob then parent_downstream
      else if cp_name x \<in> {''categorize'', ''switch''} then Inr (ob_next ob)
      else if cp_name x \<in> {''iteration'', ''loop''} then start_of i
      else if cp_name x = ''exitloop'' \<and> cp_parent x = None then Inl (NoParent i)
      else if cp_name x = ''exitloop'' \<and> name_of c (the (cp_parent x)) = ''loop'' then parent_downstream
      else if cp_downstream x = [] \<and> cp_parent x \<noteq> None then start_of (the (cp_parent x))
      else Inr (cp_downstream x))"

definition post_process ::
  "canvas \<Rightarrow> (string \<Rightarrow> observed) \<Rightarrow> string list \<times> bool \<Rightarrow> string \<Rightarrow> run_error + (string list \<times> bool)" where
  \<comment> \<open>path and whether the run has an error, before and after\<close>
  "post_process c seen st i =
     (let (path, failed) = st; ob = seen i in
      bindE (cpn_of c i) (\<lambda>x.
      bindE (successors c ob i x) (\<lambda>next.
      if ob_failed ob
      then (case ob_handler ob of
              Some (g # gs, _) \<Rightarrow> Inr (path @ g # gs, failed)
            | Some ([], d) \<Rightarrow> Inr (extend_path next path, failed \<or> \<not> truthy d)
            | None \<Rightarrow> Inr (extend_path next path, True))
      else Inr (extend_path next path, failed))))"

datatype run_outcome = RunFinished | RunFailed | RunAwaitsUser | RunOutOfFuel

definition start_path :: "string list \<Rightarrow> string list" where
  "start_path path = (if path = [] \<or> \<not> fillup_id (last path) then path @ [''begin''] else path)"

definition pending_path :: "canvas \<Rightarrow> string list \<Rightarrow> string list" where
  "pending_path c pending =
     filter (\<lambda>i. name_of c i = ''userfillup'') pending @ filter (\<lambda>i. name_of c i \<noteq> ''userfillup'') pending"

fun run_batches ::
  "(string \<Rightarrow> string list) \<Rightarrow> (nat \<Rightarrow> string \<Rightarrow> observed) \<Rightarrow> canvas \<Rightarrow> nat \<Rightarrow> nat \<Rightarrow> string list \<Rightarrow> string list
     \<Rightarrow> run_error + (run_outcome \<times> string list \<times> string list)" where
  \<comment> \<open>\<open>done\<close> is the executed part of the path, \<open>batch\<close> the rest; the result adds the executed part\<close>
  "run_batches needs seen c 0 n done batch = Inr (RunOutOfFuel, done, done @ batch)"
| "run_batches needs seen c (Suc fuel) n done batch =
     (let now = admit needs c done batch in
      bindE (foldE (post_process c (seen n)) (done @ now, False) now) (\<lambda>(path, failed).
      let pending = drop (length (done @ now)) path in
      if failed then Inr (RunFailed, done @ now, done)
      else bindE (mapE (cpn_of c) pending) (\<lambda>_.
      if list_ex (\<lambda>i. name_of c i = ''userfillup'') pending
      then Inr (RunAwaitsUser, done @ now, pending_path c pending)
      else if pending = [] then Inr (RunFinished, done @ now, path)
      else run_batches needs seen c fuel (Suc n) (done @ now) pending)))"

definition run_path ::
  "(string \<Rightarrow> string list) \<Rightarrow> (nat \<Rightarrow> string \<Rightarrow> observed) \<Rightarrow> canvas \<Rightarrow> nat \<Rightarrow> string list
     \<Rightarrow> run_error + (run_outcome \<times> string list \<times> string list)" where
  \<comment> \<open>outcome, executed path, path the canvas is left with\<close>
  "run_path needs seen c fuel path =
     run_batches needs seen c fuel 0 (butlast (start_path path)) [last (start_path path)]"

section \<open>What may be on the path\<close>

lemma append_path_ext: "\<exists>t. append_path i p = p @ t \<and> set t \<subseteq> {i}"
  by (auto simp: append_path_def)

lemma extend_path_ext: "\<exists>t. extend_path is p = p @ t \<and> set t \<subseteq> set is"
proof (induction "is" arbitrary: p)
  case Nil
  then show ?case by (simp add: extend_path_def)
next
  case (Cons i js)
  obtain t where "append_path i p = p @ t" "set t \<subseteq> {i}" using append_path_ext by blast
  moreover obtain u where "extend_path js (append_path i p) = append_path i p @ u" "set u \<subseteq> set js"
    using Cons by blast
  ultimately show ?case by (auto simp: extend_path_def)
qed

text \<open>A component is followed only by a successor of it, by a target of its error handler, or by
  another successor of a component before it.\<close>

definition leads_to :: "canvas \<Rightarrow> (nat \<Rightarrow> string \<Rightarrow> observed) \<Rightarrow> string \<Rightarrow> string \<Rightarrow> bool" where
  "leads_to c seen i k \<longleftrightarrow> (\<exists>n x. map_of (cv_components c) i = Some x \<and>
     ((\<exists>next. successors c (seen n i) i x = Inr next \<and> k \<in> set next) \<or>
      (ob_failed (seen n i) \<and> (\<exists>g d. ob_handler (seen n i) = Some (g, d) \<and> k \<in> set g))))"

lemma post_process_ext:
  assumes "post_process c (seen n) (path, f) i = Inr (path', f')"
  shows "\<exists>t. path' = path @ t \<and> (\<forall>k \<in> set t. leads_to c seen i k)"
proof -
  obtain x nxt where x: "map_of (cv_components c) i = Some x" "successors c (seen n i) i x = Inr nxt"
    using assms by (auto simp: post_process_def cpn_of_def bindE_eq_Inr Let_def split: option.splits)
  have ext: "\<exists>t. extend_path nxt path = path @ t \<and> (\<forall>k \<in> set t. leads_to c seen i k)"
    using extend_path_ext [of nxt path] x unfolding leads_to_def by blast
  show ?thesis
  proof (cases "\<exists>g gs d. ob_failed (seen n i) \<and> ob_handler (seen n i) = Some (g # gs, d)")
    case True
    then obtain g gs d where h: "ob_failed (seen n i)" "ob_handler (seen n i) = Some (g # gs, d)" by blast
    then have "path' = path @ g # gs" using assms x by (simp add: post_process_def cpn_of_def)
    moreover have "leads_to c seen i k" if "k \<in> set (g # gs)" for k
      using h x that unfolding leads_to_def by blast
    ultimately show ?thesis by blast
  next
    case False
    then have "path' = extend_path nxt path"
      using assms x by (auto simp: post_process_def cpn_of_def Let_def split: if_splits option.splits prod.splits list.splits)
    with ext show ?thesis by simp
  qed
qed

lemma post_fold_ext:
  "foldE (post_process c (seen n)) (path, f) is = Inr (path', f') \<Longrightarrow>
     \<exists>t. path' = path @ t \<and> (\<forall>k \<in> set t. \<exists>i \<in> set is. leads_to c seen i k)"
proof (induction "is" arbitrary: path f)
  case Nil
  then show ?case by simp
next
  case (Cons i js)
  then obtain p1 f1 where one: "post_process c (seen n) (path, f) i = Inr (p1, f1)"
    and rest: "foldE (post_process c (seen n)) (p1, f1) js = Inr (path', f')"
    by (auto split: sum.splits)
  from post_process_ext [where seen = seen and n = n, OF one] Cons.IH [OF rest] show ?case by fastforce
qed

lemma admit_subset: "set (admit needs c before batch) \<subseteq> set batch"
  by (induction needs c before batch rule: admit.induct) auto

lemma admit_length: "length (admit needs c before batch) \<le> length batch"
  by (induction needs c before batch rule: admit.induct) auto

text \<open>The components that the one at a place of the path reads from are on the path before it.\<close>

definition inputs_ready :: "(string \<Rightarrow> string list) \<Rightarrow> canvas \<Rightarrow> string list \<Rightarrow> nat \<Rightarrow> bool" where
  "inputs_ready needs c path k \<longleftrightarrow> name_of c (path ! k) \<in> {''begin'', ''userfillup''} \<or>
     fillup_id (hd path) \<or> (\<forall>n \<in> set (needs (path ! k)). n = [] \<or> n \<in> set (take k path))"

lemma admit_ready:
  "length before \<le> k \<Longrightarrow> k < length (before @ admit needs c before batch) \<Longrightarrow>
     inputs_ready needs c (before @ admit needs c before batch) k"
proof (induction needs c before batch rule: admit.induct)
  case (2 needs c before i batch)
  let ?ok = "name_of c i \<in> {''begin'', ''userfillup''} \<or> fillup_id (hd (before @ [i])) \<or>
    list_all (\<lambda>n. n = [] \<or> n \<in> set before) (needs i)"
  show ?case
  proof (cases ?ok)
    case False
    then have "admit needs c before (i # batch) = admit needs c before batch" by (simp only: admit.simps if_False)
    with 2(2) [OF False] 2(3,4) show ?thesis by (simp del: admit.simps)
  next
    case True
    let ?rest = "admit needs c (before @ [i]) batch"
    have adm: "admit needs c before (i # batch) = i # ?rest" using True by (simp only: admit.simps if_True)
    show ?thesis
    proof (cases "k = length before")
      case k: True
      have "hd (before @ i # ?rest) = hd (before @ [i])" by (cases before) simp_all
      then show ?thesis unfolding adm inputs_ready_def using True k
        by (auto simp: list_all_iff)
    next
      case False
      then have "length (before @ [i]) \<le> k" "k < length ((before @ [i]) @ ?rest)" using 2(3,4) adm by simp_all
      from 2(1) [OF True this] show ?thesis unfolding adm by simp
    qed
  qed
qed simp

lemma inputs_ready_append:
  "k < length path \<Longrightarrow> inputs_ready needs c (path @ t) k = inputs_ready needs c path k"
  by (cases path) (simp_all add: inputs_ready_def nth_append nth_Cons split: nat.splits)

lemma run_batches_step:
  assumes "run_batches needs seen c (Suc fuel) n done batch = Inr (out, executed, left)"
  obtains pending where "\<forall>k \<in> set pending. \<exists>i \<in> set (admit needs c done batch). leads_to c seen i k"
    "executed = done @ admit needs c done batch \<or>
     run_batches needs seen c fuel (Suc n) (done @ admit needs c done batch) pending = Inr (out, executed, left)"
proof -
  let ?now = "admit needs c done batch"
  obtain path failed where f: "foldE (post_process c (seen n)) (done @ ?now, False) ?now = Inr (path, failed)"
    using assms by (auto simp: Let_def bindE_eq_Inr)
  obtain t where t: "path = (done @ ?now) @ t" "\<forall>k \<in> set t. \<exists>i \<in> set ?now. leads_to c seen i k"
    using post_fold_ext [where seen = seen and n = n, OF f] by blast
  then have "executed = done @ ?now \<or>
     run_batches needs seen c fuel (Suc n) (done @ ?now) t = Inr (out, executed, left)"
    using assms f by (auto simp: Let_def bindE_eq_Inr split: if_splits)
  with t(2) that show ?thesis by blast
qed

lemma run_batches_ready:
  "run_batches needs seen c fuel n done batch = Inr (out, executed, left) \<Longrightarrow>
   (\<forall>k. lo \<le> k \<and> k < length done \<longrightarrow> inputs_ready needs c done k) \<Longrightarrow> lo \<le> length done \<Longrightarrow>
   lo \<le> k \<Longrightarrow> k < length executed \<Longrightarrow> inputs_ready needs c executed k"
proof (induction fuel arbitrary: n "done" batch)
  case 0
  then show ?case by simp
next
  case (Suc fuel)
  let ?now = "admit needs c done batch"
  have ready: "inputs_ready needs c (done @ ?now) j" if "lo \<le> j" "j < length (done @ ?now)" for j
  proof (cases "j < length done")
    case True
    then show ?thesis using Suc.prems(2) that inputs_ready_append by blast
  next
    case False
    then show ?thesis using admit_ready [of "done" j] that by simp
  qed
  obtain pending where "executed = done @ ?now \<or>
     run_batches needs seen c fuel (Suc n) (done @ ?now) pending = Inr (out, executed, left)"
    by (rule run_batches_step [OF Suc.prems(1)])
  then show ?case
  proof
    assume "executed = done @ ?now"
    then show ?thesis using ready Suc.prems by simp
  next
    assume r: "run_batches needs seen c fuel (Suc n) (done @ ?now) pending = Inr (out, executed, left)"
    from Suc.IH [OF r] ready Suc.prems show ?thesis by simp
  qed
qed

lemma run_batches_edges:
  "run_batches needs seen c fuel n done batch = Inr (out, executed, left) \<Longrightarrow>
   (\<forall>k. lo \<le> k \<and> k < length done \<longrightarrow> (\<exists>j < k. leads_to c seen (done ! j) (done ! k))) \<Longrightarrow>
   (if lo \<le> length done then \<forall>b \<in> set batch. \<exists>i \<in> set done. leads_to c seen i b
    else Suc (length done) = lo \<and> length batch \<le> 1) \<Longrightarrow>
   lo \<le> k \<Longrightarrow> k < length executed \<Longrightarrow> \<exists>j < k. leads_to c seen (executed ! j) (executed ! k)"
proof (induction fuel arbitrary: n "done" batch)
  case 0
  then show ?case by simp
next
  case (Suc fuel)
  let ?now = "admit needs c done batch"
  have len: "length ?now \<le> length batch" by (rule admit_length)
  have edge: "\<exists>i < j. leads_to c seen ((done @ ?now) ! i) ((done @ ?now) ! j)"
    if j: "lo \<le> j" "j < length (done @ ?now)" for j
  proof (cases "j < length done")
    case True
    then show ?thesis using Suc.prems(2) j by (fastforce simp: nth_append)
  next
    case False
    have "lo \<le> length done"
      using Suc.prems(3) j len False by (auto split: if_splits)
    moreover have "(done @ ?now) ! j \<in> set batch"
      using False j subsetD [OF admit_subset nth_mem, of "j - length done" needs c "done" batch]
      by (simp add: nth_append)
    ultimately obtain i where "i \<in> set done" "leads_to c seen i ((done @ ?now) ! j)"
      using Suc.prems(3) by auto
    then obtain m where "m < length done" "leads_to c seen ((done @ ?now) ! m) ((done @ ?now) ! j)"
      by (auto simp: in_set_conv_nth nth_append)
    with False show ?thesis by (intro exI [of _ m]) simp
  qed
  obtain pending where p: "\<forall>k \<in> set pending. \<exists>i \<in> set ?now. leads_to c seen i k"
    and r: "executed = done @ ?now \<or>
     run_batches needs seen c fuel (Suc n) (done @ ?now) pending = Inr (out, executed, left)"
    by (rule run_batches_step [OF Suc.prems(1)])
  from r show ?case
  proof
    assume "executed = done @ ?now"
    then show ?thesis using edge Suc.prems by simp
  next
    assume r: "run_batches needs seen c fuel (Suc n) (done @ ?now) pending = Inr (out, executed, left)"
    have "if lo \<le> length (done @ ?now) then \<forall>b \<in> set pending. \<exists>i \<in> set (done @ ?now). leads_to c seen i b
        else Suc (length (done @ ?now)) = lo \<and> length pending \<le> 1"
      using p Suc.prems(3) len by (cases ?now) (auto split: if_splits)
    from Suc.IH [OF r _ this] edge Suc.prems(4,5) show ?thesis by simp
  qed
qed

section \<open>Properties of the scheduler\<close>

lemma start_path_split: "start_path path = butlast (start_path path) @ [last (start_path path)]"
  by (simp add: start_path_def)

section \<open>When a batch reads and runs\<close>

text \<open>The batches of a run, and what happens in one: \<open>_run_batch\<close> takes the input of each of its
  components while it goes over the path, without giving up control, and only then lets the tasks it
  created run, concurrently. A place of the path stands for the component there. A start component and a
  form take the inputs of the request.\<close>

fun batches_run ::
  "(string \<Rightarrow> string list) \<Rightarrow> (nat \<Rightarrow> string \<Rightarrow> observed) \<Rightarrow> canvas \<Rightarrow> nat \<Rightarrow> nat \<Rightarrow> string list \<Rightarrow> string list
     \<Rightarrow> string list list" where
  \<comment> \<open>the batches that \<open>run_batches\<close> executes\<close>
  "batches_run needs seen c 0 n done batch = []"
| "batches_run needs seen c (Suc fuel) n done batch =
     (let now = admit needs c done batch in
      now # (case foldE (post_process c (seen n)) (done @ now, False) now of
        Inl _ \<Rightarrow> []
      | Inr (path, failed) \<Rightarrow>
          let pending = drop (length (done @ now)) path in
          if failed \<or> list_ex (\<lambda>i. name_of c i = ''userfillup'') pending \<or> pending = [] then []
          else batches_run needs seen c fuel (Suc n) (done @ now) pending))"

definition path_batches ::
  "(string \<Rightarrow> string list) \<Rightarrow> (nat \<Rightarrow> string \<Rightarrow> observed) \<Rightarrow> canvas \<Rightarrow> nat \<Rightarrow> string list \<Rightarrow> string list list" where
  "path_batches needs seen c fuel path =
     batches_run needs seen c fuel 0 (butlast (start_path path)) [last (start_path path)]"

datatype run_event = ReadInput nat | Started nat | Finished nat

definition before :: "'a list \<Rightarrow> 'a \<Rightarrow> 'a \<Rightarrow> bool" where
  "before xs x y \<longleftrightarrow> (\<exists>us vs ws. xs = us @ x # vs @ y # ws)"

definition takes_input :: "canvas \<Rightarrow> string \<Rightarrow> bool" where
  "takes_input c i \<longleftrightarrow> name_of c i \<notin> {''begin'', ''userfillup''}"

definition batch_trace :: "canvas \<Rightarrow> nat \<Rightarrow> string list \<Rightarrow> run_event list \<Rightarrow> bool" where
  \<comment> \<open>the batch \<open>b\<close> at the places from \<open>lo\<close> on: the inputs, then any interleaving of the tasks\<close>
  "batch_trace c lo b tr \<longleftrightarrow> (\<exists>es. tr = map ReadInput (filter (\<lambda>p. takes_input c (b ! (p - lo))) [lo..<lo + length b]) @ es \<and>
     distinct es \<and> set es = Started ` {lo..<lo + length b} \<union> Finished ` {lo..<lo + length b} \<and>
     (\<forall>p \<in> {lo..<lo + length b}. before es (Started p) (Finished p)))"

inductive run_trace :: "canvas \<Rightarrow> nat \<Rightarrow> string list list \<Rightarrow> run_event list \<Rightarrow> bool" for c where
  run_over: "run_trace c lo [] []"
| next_batch: "batch_trace c lo b t \<Longrightarrow> run_trace c (lo + length b) bs tr \<Longrightarrow> run_trace c lo (b # bs) (t @ tr)"

fun batch_at :: "string list list \<Rightarrow> nat \<Rightarrow> nat" where
  \<comment> \<open>the number of the batch of the k-th executed component\<close>
  "batch_at [] k = 0"
| "batch_at (b # bs) k = (if k < length b then 0 else Suc (batch_at bs (k - length b)))"

lemma before_append:
  "x \<in> set xs \<Longrightarrow> y \<in> set ys \<Longrightarrow> before (xs @ ys) x y" "before ys x y \<Longrightarrow> before (xs @ ys) x y"
  "before xs x y \<Longrightarrow> before (xs @ ys) x y"
proof -
  assume "x \<in> set xs" "y \<in> set ys"
  then obtain a b c d where "xs = a @ x # b" "ys = c @ y # d" by (meson split_list)
  then have "xs @ ys = a @ x # (b @ c) @ y # d" by simp
  then show "before (xs @ ys) x y" unfolding before_def by blast
next
  assume "before ys x y"
  then obtain a b d where "ys = a @ x # b @ y # d" unfolding before_def by blast
  then have "xs @ ys = (xs @ a) @ x # b @ y # d" by simp
  then show "before (xs @ ys) x y" unfolding before_def by blast
next
  assume "before xs x y"
  then obtain a b d where "xs = a @ x # b @ y # d" unfolding before_def by blast
  then have "xs @ ys = a @ x # b @ y # (d @ ys)" by simp
  then show "before (xs @ ys) x y" unfolding before_def by blast
qed

lemma batch_trace_events:
  assumes "batch_trace c lo b tr" "lo \<le> p" "p < lo + length b"
  shows "Finished p \<in> set tr" "takes_input c (b ! (p - lo)) \<Longrightarrow> ReadInput p \<in> set tr"
    "takes_input c (b ! (p - lo)) \<Longrightarrow> lo \<le> q \<Longrightarrow> q < lo + length b \<Longrightarrow> before tr (ReadInput p) (Started q)"
  using assms by (auto simp: batch_trace_def intro: before_append(1))

lemma run_trace_reads:
  "run_trace c lo bs tr \<Longrightarrow> lo \<le> p \<Longrightarrow> p < lo + length (concat bs) \<Longrightarrow> takes_input c (concat bs ! (p - lo)) \<Longrightarrow>
     ReadInput p \<in> set tr"
proof (induction rule: run_trace.induct)
  case (next_batch lo b t bs tr)
  show ?case
  proof (cases "p < lo + length b")
    case True
    then have "p - lo < length b" using next_batch.prems by simp
    with True show ?thesis using batch_trace_events(2) [OF next_batch.hyps(1)] next_batch.prems by (simp add: nth_append)
  next
    case False
    then have "\<not> p - lo < length b" "p - (lo + length b) = p - lo - length b" by simp_all
    with False show ?thesis using next_batch by (simp add: nth_append)
  qed
qed simp

lemma run_trace_order:
  "run_trace c lo bs tr \<Longrightarrow> lo \<le> q \<Longrightarrow> q < p \<Longrightarrow> p < lo + length (concat bs) \<Longrightarrow> takes_input c (concat bs ! (p - lo)) \<Longrightarrow>
     (if batch_at bs (q - lo) = batch_at bs (p - lo) then before tr (ReadInput p) (Started q)
      else before tr (Finished q) (ReadInput p))"
proof (induction rule: run_trace.induct)
  case (next_batch lo b t bs tr)
  consider "p < lo + length b" | "q < lo + length b" "lo + length b \<le> p" | "lo + length b \<le> q" by linarith
  then show ?case
  proof cases
    case 1
    then have "p - lo < length b" using next_batch.prems by simp
    with 1 have "before t (ReadInput p) (Started q)"
      using batch_trace_events(3) [OF next_batch.hyps(1), of p q] next_batch.prems by (simp add: nth_append)
    then have "before (t @ tr) (ReadInput p) (Started q)" by (rule before_append(3))
    then show ?thesis using 1 next_batch.prems by auto
  next
    case 2
    then have "\<not> p - lo < length b" "p - (lo + length b) = p - lo - length b" by simp_all
    then have "ReadInput p \<in> set tr"
      using run_trace_reads [OF next_batch.hyps(2), of p] 2 next_batch.prems by (simp add: nth_append)
    moreover have "Finished q \<in> set t"
      using batch_trace_events(1) [OF next_batch.hyps(1), of q] 2 next_batch.prems by auto
    ultimately show ?thesis using 2 next_batch.prems by (auto intro: before_append(1))
  next
    case 3
    then show ?thesis using next_batch by (auto simp: nth_append intro: before_append(2))
  qed
qed simp

lemma run_batches_concat:
  "run_batches needs seen c fuel n done batch = Inr (out, executed, left) \<Longrightarrow>
     executed = done @ concat (batches_run needs seen c fuel n done batch)"
proof (induction fuel arbitrary: n "done" batch)
  case (Suc fuel)
  let ?now = "admit needs c done batch"
  obtain path failed where f: "foldE (post_process c (seen n)) (done @ ?now, False) ?now = Inr (path, failed)"
    using Suc.prems by (auto simp: Let_def bindE_eq_Inr)
  with Suc.prems Suc.IH [of "Suc n" "done @ ?now" "drop (length (done @ ?now)) path"] show ?case
    by (auto simp: Let_def bindE_eq_Inr split: if_splits)
qed simp

text \<open>Property C17. What is finished when a component reads its inputs. A component on the path that is no
  start or form, in a run that did not begin with a form, has each component it reads from on the path
  before it. If that one was executed in an earlier batch (or in an earlier run), it has finished when the
  inputs are read, in every interleaving. If it is in the same batch, it has not even started then: the
  scheduler accepts it because it is earlier on the path, and reads what its outputs were before.\<close>

theorem executed_after_its_inputs:
  assumes "run_path needs seen c fuel path = Inr (out, executed, left)"
    and "run_trace c lo (path_batches needs seen c fuel path) tr" "lo = length (butlast (start_path path))"
    and "lo \<le> k" "k < length executed" "takes_input c (executed ! k)" "\<not> fillup_id (hd executed)"
    and "m \<in> set (needs (executed ! k))" "m \<noteq> []"
  shows "\<exists>q < k. executed ! q = m \<and>
    (q < lo \<or>
     (if batch_at (path_batches needs seen c fuel path) (q - lo) = batch_at (path_batches needs seen c fuel path) (k - lo)
      then before tr (ReadInput k) (Started q) else before tr (Finished q) (ReadInput k)))"
proof -
  have "inputs_ready needs c executed k"
    by (rule run_batches_ready [OF assms(1) [unfolded run_path_def], where lo = lo]) (use assms(3-5) in auto)
  then have "m \<in> set (take k executed)" using assms(6-9) by (auto simp: inputs_ready_def takes_input_def)
  then obtain q where q: "q < k" "executed ! q = m" using assms(5) by (auto simp: in_set_conv_nth)
  have ex: "executed = butlast (start_path path) @ concat (path_batches needs seen c fuel path)"
    using run_batches_concat assms(1) by (simp add: run_path_def path_batches_def)
  have "takes_input c (concat (path_batches needs seen c fuel path) ! (k - lo))"
    using assms(3,4,6) ex by (simp add: nth_append)
  moreover have "k < lo + length (concat (path_batches needs seen c fuel path))" using ex assms(3,5) by simp
  ultimately have "lo \<le> q \<Longrightarrow> if batch_at (path_batches needs seen c fuel path) (q - lo) =
        batch_at (path_batches needs seen c fuel path) (k - lo)
      then before tr (ReadInput k) (Started q) else before tr (Finished q) (ReadInput k)"
    using run_trace_order [OF assms(2) _ q(1)] by blast
  with q show ?thesis by (intro exI [of _ q]) linarith
qed

text \<open>The run follows the graph: every component executed after the entry point is a
  successor of a component executed earlier, by the routing of that component (its edges, the
  branch a switch chose, the body or the exit of an iteration) or by its error handler. Nothing
  else is ever executed.\<close>

lemma executed_along_edges:
  assumes "run_path needs seen c fuel path = Inr (out, executed, left)"
    and "length (start_path path) \<le> k" "k < length executed"
  shows "\<exists>j < k. leads_to c seen (executed ! j) (executed ! k)"
proof (rule run_batches_edges)
  show "run_batches needs seen c fuel 0 (butlast (start_path path)) [last (start_path path)]
    = Inr (out, executed, left)" using assms(1) by (simp add: run_path_def)
  have "start_path path \<noteq> []" by (simp add: start_path_def)
  then show "if length (start_path path) \<le> length (butlast (start_path path))
    then \<forall>b \<in> set [last (start_path path)]. \<exists>i \<in> set (butlast (start_path path)). leads_to c seen i b
    else Suc (length (butlast (start_path path))) = length (start_path path) \<and> length [last (start_path path)] \<le> 1"
    by (cases "start_path path") auto
qed (use assms in auto)

text \<open>A run that stops for user input keeps exactly the pending components on the
  path, the forms first. The next run, however, begins with one component only: the last form
  when nothing but forms is pending, and otherwise \<open>begin\<close>; the other pending components are on
  the path as if they had been executed.\<close>

lemma resume_starts_with_one_component:
  assumes "list_ex (\<lambda>i. name_of c i = ''userfillup'') pending"
    and "\<forall>i \<in> set pending. fillup_id i \<longleftrightarrow> name_of c i = ''userfillup''"
  shows "mset (pending_path c pending) = mset pending \<and>
    run_path needs seen c fuel (pending_path c pending) =
      (if list_all (\<lambda>i. name_of c i = ''userfillup'') pending
       then run_batches needs seen c fuel 0 (butlast pending) [last pending]
       else run_batches needs seen c fuel 0 (pending_path c pending) [''begin''])"
proof -
  let ?u = "\<lambda>i. name_of c i = ''userfillup''"
  have "mset (pending_path c pending) = mset pending"
    by (simp add: pending_path_def)
  moreover have "run_path needs seen c fuel (pending_path c pending) =
      run_batches needs seen c fuel 0 (butlast pending) [last pending]" if all: "list_all ?u pending"
  proof -
    have "filter ?u pending = pending" "filter (\<lambda>i. \<not> ?u i) pending = []"
      using all by (auto simp: list_all_iff filter_empty_conv)
    then have "pending_path c pending = pending" by (simp add: pending_path_def)
    moreover have "pending \<noteq> []" using assms(1) by auto
    then have "fillup_id (last pending)" using all assms(2) by (auto simp: list_all_iff)
    ultimately show ?thesis using \<open>pending \<noteq> []\<close> by (simp add: run_path_def start_path_def)
  qed
  moreover have "run_path needs seen c fuel (pending_path c pending) =
      run_batches needs seen c fuel 0 (pending_path c pending) [''begin'']" if some: "\<not> list_all ?u pending"
  proof -
    have ne: "filter (\<lambda>i. \<not> ?u i) pending \<noteq> []" using some by (auto simp: list_all_iff filter_empty_conv)
    then have "last (pending_path c pending) \<in> set (filter (\<lambda>i. \<not> ?u i) pending)"
      unfolding pending_path_def by (metis last_appendR last_in_set)
    then have "\<not> fillup_id (last (pending_path c pending))" using assms(2) by auto
    then show ?thesis by (simp add: run_path_def start_path_def)
  qed
  ultimately show ?thesis by simp
qed

section \<open>A concrete canvas\<close>

definition node :: "string \<Rightarrow> string list \<Rightarrow> component" where
  "node nm ds = \<lparr>cp_name = nm, cp_outputs = [], cp_downstream = ds, cp_parent = None\<rparr>"

definition demo_graph :: canvas where
  "demo_graph = \<lparr>cv_globals = [], cv_components =
     [(''begin'', node ''begin'' [''a'']), (''a'', node ''code'' [''b'']), (''b'', node ''message'' [])]\<rparr>"

definition demo_needs :: "string \<Rightarrow> string list" where
  "demo_needs i = (if i = ''b'' then [''a''] else [])"

definition quiet :: "nat \<Rightarrow> string \<Rightarrow> observed" where
  "quiet n i = \<lparr>ob_failed = False, ob_handler = None, ob_next = [], ob_end = False\<rparr>"

lemma demo_graph_runs:
  "run_path demo_needs quiet demo_graph 5 [] = Inr (RunFinished, [''begin'', ''a'', ''b''], [''begin'', ''a'', ''b''])"
  by code_simp

definition demo_trace :: "run_event list" where
  "demo_trace = [Started 0, Finished 0, ReadInput 1, Started 1, Finished 1, ReadInput 2, Started 2, Finished 2]"

lemma demo_batches: "path_batches demo_needs quiet demo_graph 5 [] = [[''begin''], [''a''], [''b'']]"
  by code_simp

lemma single_trace:
  "before [Started p, Finished p] (Started p) (Finished p)"
  unfolding before_def by (intro exI [of _ "[]"]) simp

lemma demo_run_trace: "run_trace demo_graph 0 [[''begin''], [''a''], [''b'']] demo_trace"
proof -
  have b: "batch_trace demo_graph 0 [''begin''] [Started 0, Finished 0]"
    "batch_trace demo_graph 1 [''a''] [ReadInput 1, Started 1, Finished 1]"
    "batch_trace demo_graph 2 [''b''] [ReadInput 2, Started 2, Finished 2]"
    using single_trace
    by (auto simp: batch_trace_def takes_input_def name_of_def demo_graph_def node_def atLeastLessThanSuc numeral_3_eq_3 numeral_2_eq_2)
  have "run_trace demo_graph 2 [[''b'']] [ReadInput 2, Started 2, Finished 2]"
    using next_batch [OF b(3) run_over] by simp
  with next_batch [OF b(2)] have "run_trace demo_graph 1 [[''a''], [''b'']]
      ([ReadInput 1, Started 1, Finished 1] @ [ReadInput 2, Started 2, Finished 2])" by (simp add: numeral_2_eq_2)
  with next_batch [OF b(1)] show ?thesis by (simp add: demo_trace_def)
qed

theorem executed_after_its_inputs_witness:
  "\<exists>q < 2. [''begin'', ''a'', ''b''] ! q = ''a'' \<and> before demo_trace (Finished q) (ReadInput 2)"
proof -
  have st: "0 = length (butlast (start_path []))" by code_simp
  have h: "takes_input demo_graph ([''begin'', ''a'', ''b''] ! 2)" "\<not> fillup_id (hd [''begin'', ''a'', ''b''])"
    "''a'' \<in> set (demo_needs ([''begin'', ''a'', ''b''] ! 2))" by code_simp+
  obtain q where "q < 2" "[''begin'', ''a'', ''b''] ! q = ''a''"
    "if batch_at [[''begin''], [''a''], [''b'']] q = batch_at [[''begin''], [''a''], [''b'']] 2
     then before demo_trace (ReadInput 2) (Started q) else before demo_trace (Finished q) (ReadInput 2)"
    using executed_after_its_inputs [OF demo_graph_runs _ st _ _ h(1,2,3)] demo_run_trace
    by (auto simp: demo_batches)
  then show ?thesis by (auto simp: less_Suc_eq numeral_2_eq_2)
qed

text \<open>Two components of one batch, the second reading from the first.\<close>

definition fork_graph :: canvas where
  "fork_graph = \<lparr>cv_globals = [], cv_components =
     [(''begin'', node ''begin'' [''a'', ''b'']), (''a'', node ''code'' []), (''b'', node ''message'' [])]\<rparr>"

lemma same_batch_reads_first:
  assumes "run_trace fork_graph 0 (path_batches demo_needs quiet fork_graph 5 []) tr"
  shows "demo_needs ''b'' = [''a''] \<and> before tr (ReadInput 2) (Started 1)"
proof -
  have "path_batches demo_needs quiet fork_graph 5 [] = [[''begin''], [''a'', ''b'']]" by code_simp
  moreover have "takes_input fork_graph ''b''" by code_simp
  ultimately show ?thesis using run_trace_order [OF assms, of 1 2] by (simp add: demo_needs_def)
qed

lemma executed_along_edges_example:
  "\<exists>j < 2. leads_to demo_graph quiet ([''begin'', ''a'', ''b''] ! j) ''b''"
proof -
  have "length (start_path []) \<le> 2" by code_simp
  from executed_along_edges [OF demo_graph_runs this] show ?thesis by simp
qed

definition form_graph :: canvas where
  "form_graph = \<lparr>cv_globals = [], cv_components =
     [(''UserFillUp:A'', node ''userfillup'' []), (''UserFillUp:B'', node ''userfillup'' [])]\<rparr>"

lemma resume_starts_with_one_component_example:
  "run_path (\<lambda>_. []) quiet form_graph 5 (pending_path form_graph [''UserFillUp:A'', ''UserFillUp:B'']) =
     run_batches (\<lambda>_. []) quiet form_graph 5 0 [''UserFillUp:A''] [''UserFillUp:B'']"
proof -
  have "list_ex (\<lambda>i. name_of form_graph i = ''userfillup'') [''UserFillUp:A'', ''UserFillUp:B'']"
    "\<forall>i \<in> set [''UserFillUp:A'', ''UserFillUp:B'']. fillup_id i \<longleftrightarrow> name_of form_graph i = ''userfillup''"
    "list_all (\<lambda>i. name_of form_graph i = ''userfillup'') [''UserFillUp:A'', ''UserFillUp:B'']"
    by code_simp+
  with resume_starts_with_one_component [OF this(1,2)] show ?thesis by simp
qed


end
