(* ===== verification/Agent_Loops.thy ===== *)
theory Agent_Loops
  imports Canvas_Run
begin

text \<open>
  Iterations and loops of a canvas: \<open>src/agent/component/iterationitem.py\<close>,
  \<open>loop.py\<close> and \<open>loopitem.py\<close>. An item component is invoked once before each pass through the
  body; the scheduler asks it after each invocation whether the iteration is over.

  Python's comparisons are written out for JSON values: Booleans, integers and floats compare by
  number, and an ordering of values of other kinds is a TypeError.
\<close>

section \<open>Comparisons\<close>

fun num_val :: "json \<Rightarrow> pyfloat option" where
  "num_val (JBool b) = Some (Finite (of_bool b))"
| "num_val (JInt n) = Some (Finite (of_int n))"
| "num_val (JFloat x) = Some x"
| "num_val _ = None"

fun num_eq :: "pyfloat \<Rightarrow> pyfloat \<Rightarrow> bool" where
  "num_eq NaN _ = False"
| "num_eq _ NaN = False"
| "num_eq x y = (x = y)"

fun num_less :: "pyfloat \<Rightarrow> pyfloat \<Rightarrow> bool" where
  "num_less NaN _ = False"
| "num_less _ NaN = False"
| "num_less PosInf _ = False"
| "num_less _ NegInf = False"
| "num_less NegInf _ = True"
| "num_less _ PosInf = True"
| "num_less (Finite a) (Finite b) = (a < b)"

definition num_same :: "json \<Rightarrow> json \<Rightarrow> bool" where
  "num_same v w = (case (num_val v, num_val w) of (Some x, Some y) \<Rightarrow> num_eq x y | _ \<Rightarrow> False)"

primrec py_eq :: "json \<Rightarrow> json \<Rightarrow> bool" where
  \<comment> \<open>\<open>==\<close> on JSON values\<close>
  "py_eq JNull w = (w = JNull)"
| "py_eq (JBool b) w = num_same (JBool b) w"
| "py_eq (JInt n) w = num_same (JInt n) w"
| "py_eq (JFloat x) w = num_same (JFloat x) w"
| "py_eq (JStr s) w = (w = JStr s)"
| "py_eq (JList xs) w = (case w of JList ys \<Rightarrow> list_all2 (\<lambda>same y. same y) (map py_eq xs) ys | _ \<Rightarrow> False)"
| "py_eq (JDict d) w = (case w of
     JDict e \<Rightarrow> length d = length e \<and>
       list_all (\<lambda>(k, same). case map_of e k of None \<Rightarrow> False | Some u \<Rightarrow> same u) (map (map_prod id py_eq) d)
   | _ \<Rightarrow> False)"

section \<open>IterationItem\<close>

datatype item_error =
    ItemVariable var_error
  | ItemsNotArray
  | ItemIndexError \<comment> \<open>IndexError\<close>
  | CollationError \<comment> \<open>a malformed \<open>ref\<close>, or a collected output that is no list\<close>
  | ConditionIncomplete
  | InvalidInputMode
  | InvalidOperator
  | TypeMismatch \<comment> \<open>TypeError of a comparison\<close>
  | InvalidLogicalOperator

definition collate_output :: "component \<Rightarrow> string \<Rightarrow> component \<Rightarrow> string \<Rightarrow> item_error + component" where
  \<comment> \<open>one output \<open>k\<close> of the parent \<open>p\<close>, for the child \<open>cid\<close>\<close>
  "collate_output obj cid p k =
     (case map_of (cp_outputs p) k of
        None \<Rightarrow> Inr p
      | Some e \<Rightarrow> (case oe_ref e of
          None \<Rightarrow> Inr p
        | Some r \<Rightarrow> (case split_on (CHR ''@'') r of
            [cid', var] \<Rightarrow>
              if cid' \<noteq> cid then Inr p
              else (let res = cpn_output p k in
                case (if truthy res then res else JList []) of
                  JList xs \<Rightarrow> Inr (set_output k (JList (xs @ [cpn_output obj var])) p)
                | _ \<Rightarrow> Inl CollationError)
          | _ \<Rightarrow> Inl CollationError)))"

definition collate_child :: "string \<Rightarrow> canvas \<Rightarrow> string \<Rightarrow> item_error + canvas" where
  "collate_child pid c cid =
     (case (map_of (cv_components c) cid, map_of (cv_components c) pid) of
        (Some obj, Some p) \<Rightarrow>
          if cp_parent obj \<noteq> Some pid
             \<or> cp_name p \<in> {''categorize'', ''message'', ''switch'', ''userfillup'', ''iterationitem''}
          then Inr c
          else bindE (foldE (collate_output obj cid) p (map fst (cp_outputs p))) (\<lambda>p'. Inr (put_component pid p' c))
      | _ \<Rightarrow> Inr c)"

definition output_collation :: "string \<Rightarrow> canvas \<Rightarrow> item_error + canvas" where
  "output_collation pid c = foldE (collate_child pid) c (map fst (cv_components c))"

definition set_outputs :: "string \<Rightarrow> (string \<times> json) list \<Rightarrow> canvas \<Rightarrow> canvas" where
  "set_outputs i kvs c =
     (case map_of (cv_components c) i of None \<Rightarrow> c
      | Some x \<Rightarrow> put_component i (foldl (\<lambda>x (k, v). set_output k v x) x kvs) c)"

definition canceled_output :: "string \<Rightarrow> canvas \<Rightarrow> canvas" where
  "canceled_output i = set_outputs i [(''_ERROR'', JStr ''Task has been canceled'')]"

definition iteration_item_invoke ::
  "(string \<Rightarrow> json option) \<Rightarrow> (nat \<Rightarrow> bool) \<Rightarrow> string \<Rightarrow> string \<Rightarrow> string \<Rightarrow> int \<Rightarrow> canvas
     \<Rightarrow> item_error option \<times> int \<times> canvas" where
  \<comment> \<open>the exception raised, if any, the new \<open>_idx\<close> and the canvas; \<open>cancel k\<close> is the k-th check\<close>
  "iteration_item_invoke loads cancel items_ref pid self idx c =
     (if cancel 0 then (None, idx, canceled_output self c)
      else case get_variable_value loads c items_ref of
        Inl e \<Rightarrow> (Some (ItemVariable e), idx, c)
      | Inr (JList arr) \<Rightarrow>
          if idx > 0 \<and> cancel 1 then (None, idx, canceled_output self c)
          else (case (if idx > 0 then output_collation pid c else Inr c) of
            Inl e \<Rightarrow> (Some e, idx, c)
          | Inr c1 \<Rightarrow>
              if idx \<ge> int (length arr) then (None, -1, c1)
              else if cancel 2 then (None, idx, canceled_output self c1)
              else (case py_index arr idx of
                None \<Rightarrow> (Some ItemIndexError, idx, c1)
              | Some current_item \<Rightarrow>
                  (None, idx + 1, set_outputs self
                    [(''item'', current_item), (''result'', current_item), (''index'', JInt idx)] c1)))
      | Inr _ \<Rightarrow> (Some ItemsNotArray, -1, c))"

definition iteration_item_end :: "int \<Rightarrow> bool" where
  "iteration_item_end idx \<longleftrightarrow> idx = -1"

text \<open>The index before the k-th invocation, when the canvas is \<open>cs k\<close> at that time.\<close>

fun item_index ::
  "(string \<Rightarrow> json option) \<Rightarrow> (nat \<Rightarrow> bool) \<Rightarrow> string \<Rightarrow> string \<Rightarrow> string \<Rightarrow> (nat \<Rightarrow> canvas) \<Rightarrow> int \<Rightarrow> nat \<Rightarrow> int" where
  "item_index loads cancel items_ref pid self cs start 0 = start"
| "item_index loads cancel items_ref pid self cs start (Suc k) =
     fst (snd (iteration_item_invoke loads cancel items_ref pid self
       (item_index loads cancel items_ref pid self cs start k) (cs k)))"

lemma put_component_keys:
  "map_of (cv_components c) i \<noteq> None \<Longrightarrow> map_of (cv_components (put_component j x c)) i \<noteq> None"
  by (simp add: put_component_def update_conv')

lemma collate_child_keys:
  "collate_child pid c cid = Inr c' \<Longrightarrow> map_of (cv_components c) i \<noteq> None \<Longrightarrow> map_of (cv_components c') i \<noteq> None"
  by (auto simp: collate_child_def bindE_eq_Inr put_component_def update_conv' split: option.splits if_splits)

lemma collation_keys:
  assumes "output_collation pid c = Inr c'" "map_of (cv_components c) i \<noteq> None"
  shows "map_of (cv_components c') i \<noteq> None"
proof -
  have "foldE (collate_child pid) c cids = Inr c' \<Longrightarrow> map_of (cv_components c) i \<noteq> None \<Longrightarrow>
    map_of (cv_components c') i \<noteq> None" for cids
  proof (induction cids arbitrary: c)
    case (Cons cid cids)
    then obtain c1 where "collate_child pid c cid = Inr c1" "foldE (collate_child pid) c1 cids = Inr c'"
      by (auto split: sum.splits)
    with Cons collate_child_keys show ?case by blast
  qed simp
  with assms show ?thesis unfolding output_collation_def by blast
qed

lemma set_outputs_read:
  assumes "map_of (cv_components c) i \<noteq> None"
  shows "\<exists>x. map_of (cv_components (set_outputs i
      [(''item'', v), (''result'', v), (''index'', n)] c)) i = Some x \<and>
    cpn_output x ''item'' = v \<and> cpn_output x ''index'' = n"
proof -
  have other: "k \<noteq> k' \<Longrightarrow> k' \<noteq> [] \<Longrightarrow> cpn_output (set_output k w x) k' = cpn_output x k'" for k k' w x
    by (simp add: cpn_output_def set_output_def update_conv')
  show ?thesis
    using assms by (auto simp: set_outputs_def put_component_def update_conv' output_set_output other)
qed

lemma item_invoke_emits:
  assumes "get_variable_value loads c items_ref = Inr (JList arr)" "\<forall>k. \<not> cancel k"
    and "map_of (cv_components c) self \<noteq> None"
    and "idx > 0 \<Longrightarrow> \<exists>c1. output_collation pid c = Inr c1"
    and "idx < int (length arr)" "py_index arr idx = Some v"
  shows "\<exists>c' x. iteration_item_invoke loads cancel items_ref pid self idx c = (None, idx + 1, c') \<and>
    map_of (cv_components c') self = Some x \<and> cpn_output x ''item'' = v \<and> cpn_output x ''index'' = JInt idx"
proof -
  obtain c1 where c1: "(if idx > 0 then output_collation pid c else Inr c) = Inr c1"
    "map_of (cv_components c1) self \<noteq> None"
    using assms(3,4) collation_keys by (cases "idx > 0") auto
  have "iteration_item_invoke loads cancel items_ref pid self idx c =
      (None, idx + 1, set_outputs self [(''item'', v), (''result'', v), (''index'', JInt idx)] c1)"
    using assms c1(1) by (simp add: iteration_item_invoke_def)
  with set_outputs_read [OF c1(2), of v "JInt idx"] show ?thesis by blast
qed

lemma item_invoke_ends:
  assumes "get_variable_value loads c items_ref = Inr (JList arr)" "\<forall>k. \<not> cancel k"
    and "idx > 0 \<Longrightarrow> \<exists>c1. output_collation pid c = Inr c1" "idx \<ge> int (length arr)"
  shows "\<exists>c'. iteration_item_invoke loads cancel items_ref pid self idx c = (None, -1, c')"
proof -
  obtain c1 where c1: "(if idx > 0 then output_collation pid c else Inr c) = Inr c1"
    using assms(3) by (cases "idx > 0") auto
  show ?thesis using assms c1 by (simp add: iteration_item_invoke_def)
qed

text \<open>A first iteration visits every item once and in order: the k-th invocation
  publishes the k-th element of the array under its index, and the invocation after the last
  element ends the iteration. The body may change the canvas in between in any way that keeps
  the array and leaves the collected outputs collectable.\<close>

lemma iteration_visits_each_item:
  assumes "\<forall>k. get_variable_value loads (cs k) items_ref = Inr (JList arr)" "\<forall>k. \<not> cancel k"
    and "\<forall>k. map_of (cv_components (cs k)) self \<noteq> None" "\<forall>k. \<exists>c1. output_collation pid (cs k) = Inr c1"
  shows "(\<forall>k < length arr. item_index loads cancel items_ref pid self cs 0 k = int k \<and>
      (\<exists>c' x. iteration_item_invoke loads cancel items_ref pid self (int k) (cs k) = (None, int k + 1, c') \<and>
        map_of (cv_components c') self = Some x \<and> cpn_output x ''item'' = arr ! k \<and>
        cpn_output x ''index'' = JInt (int k))) \<and>
    iteration_item_end (item_index loads cancel items_ref pid self cs 0 (Suc (length arr)))"
proof -
  let ?idx = "item_index loads cancel items_ref pid self cs 0"
  have emit: "\<exists>c' x. iteration_item_invoke loads cancel items_ref pid self (int k) (cs k) = (None, int k + 1, c') \<and>
        map_of (cv_components c') self = Some x \<and> cpn_output x ''item'' = arr ! k \<and>
        cpn_output x ''index'' = JInt (int k)" if k: "k < length arr" for k
  proof -
    have "py_index arr (int k) = Some (arr ! k)" using k by (simp add: py_index_def)
    from item_invoke_emits [OF _ _ _ _ _ this, of loads "cs k" items_ref cancel self pid] assms k
    show ?thesis by simp
  qed
  have idx: "?idx k = int k" if "k \<le> length arr" for k
    using that
  proof (induction k)
    case (Suc k)
    then obtain c' where "iteration_item_invoke loads cancel items_ref pid self (int k) (cs k) = (None, int k + 1, c')"
      using emit [of k] by auto
    with Suc show ?case by simp
  qed simp
  obtain c' where "iteration_item_invoke loads cancel items_ref pid self (int (length arr)) (cs (length arr)) = (None, -1, c')"
    using item_invoke_ends [of loads "cs (length arr)" items_ref arr cancel "int (length arr)" pid self] assms by auto
  then have "iteration_item_end (?idx (Suc (length arr)))" using idx [of "length arr"] by (simp add: iteration_item_end_def)
  with emit idx show ?thesis by simp
qed

text \<open>An iteration that is entered again (one nested in another iteration or in a
  loop, say) starts from the index its end left behind, -1: it first publishes the last element,
  under index -1, and only then visits the array from its beginning. On an empty array the second
  entry raises an IndexError.\<close>

lemma iteration_reentry_repeats_last_item:
  assumes "get_variable_value loads c items_ref = Inr (JList arr)" "\<forall>k. \<not> cancel k"
    and "map_of (cv_components c) self \<noteq> None" "iteration_item_end idx"
  shows "if arr = []
    then iteration_item_invoke loads cancel items_ref pid self idx c = (Some ItemIndexError, idx, c)
    else \<exists>c' x. iteration_item_invoke loads cancel items_ref pid self idx c = (None, 0, c') \<and>
      map_of (cv_components c') self = Some x \<and> cpn_output x ''item'' = last arr \<and>
      cpn_output x ''index'' = JInt (-1)"
proof (cases "arr = []")
  case True
  then show ?thesis
    using assms by (simp add: iteration_item_invoke_def iteration_item_end_def py_index_def)
next
  case False
  have idx: "idx = -1" using assms(4) by (simp add: iteration_item_end_def)
  have "nat (int (length arr) - 1) = length arr - 1" by simp
  then have "py_index arr idx = Some (last arr)" using False
    by (simp add: idx py_index_def last_conv_nth Suc_leI)
  from item_invoke_emits [OF assms(1,2,3) _ _ this, of pid] False idx show ?thesis by simp
qed

section \<open>Loop and LoopItem\<close>

definition op_ne :: string where "op_ne = [CHR 0xE2, CHR 0x89, CHR 0xA0]"

definition op_ge :: string where "op_ge = [CHR 0xE2, CHR 0x89, CHR 0xA5]"

definition op_le :: string where "op_le = [CHR 0xE2, CHR 0x89, CHR 0xA4]"

definition str_op :: "(string \<Rightarrow> bool) \<Rightarrow> json \<Rightarrow> item_error + bool" where
  "str_op f v = (case v of JStr s \<Rightarrow> Inr (f s) | _ \<Rightarrow> Inl TypeMismatch)"

definition num_op :: "(pyfloat \<Rightarrow> bool) \<Rightarrow> json \<Rightarrow> item_error + bool" where
  "num_op f v = (case num_val v of Some x \<Rightarrow> Inr (f x) | None \<Rightarrow> Inl TypeMismatch)"

definition num_le :: "pyfloat \<Rightarrow> pyfloat \<Rightarrow> bool" where
  "num_le x y \<longleftrightarrow> num_less x y \<or> num_eq x y"

definition evaluate_number :: "pyfloat \<Rightarrow> string \<Rightarrow> json \<Rightarrow> item_error + bool" where
  "evaluate_number x operator v =
     (if operator = ''='' then Inr (case num_val v of Some y \<Rightarrow> num_eq x y | None \<Rightarrow> False)
      else if operator = op_ne then Inr (case num_val v of Some y \<Rightarrow> \<not> num_eq x y | None \<Rightarrow> True)
      else if operator = ''>'' then num_op (\<lambda>y. num_less y x) v
      else if operator = ''<'' then num_op (\<lambda>y. num_less x y) v
      else if operator = op_ge then num_op (\<lambda>y. num_le y x) v
      else if operator = op_le then num_op (\<lambda>y. num_le x y) v
      else if operator = ''empty'' then Inr False
      else if operator = ''not empty'' then Inr True
      else Inl InvalidOperator)"

definition evaluate_condition :: "json \<Rightarrow> string \<Rightarrow> json \<Rightarrow> item_error + bool" where
  "evaluate_condition var operator v =
     (case var of
        JStr s \<Rightarrow>
          if operator = ''contains'' then str_op (\<lambda>t. occurs_in t s) v
          else if operator = ''not contains'' then str_op (\<lambda>t. \<not> occurs_in t s) v
          else if operator = ''start with'' then str_op (\<lambda>t. prefix t s) v
          else if operator = ''end with'' then str_op (\<lambda>t. suffix t s) v
          else if operator = ''is'' then Inr (py_eq var v)
          else if operator = ''is not'' then Inr (\<not> py_eq var v)
          else if operator = ''empty'' then Inr (s = [])
          else if operator = ''not empty'' then Inr (s \<noteq> [])
          else Inl InvalidOperator
      | JBool b \<Rightarrow>
          if operator = ''is'' then Inr (v = JBool b)
          else if operator = ''is not'' then Inr (v \<noteq> JBool b)
          else if operator = ''empty'' then Inr False
          else if operator = ''not empty'' then Inr True
          else Inl InvalidOperator
      | JInt n \<Rightarrow> evaluate_number (Finite (of_int n)) operator v
      | JFloat x \<Rightarrow> evaluate_number x operator v
      | JDict d \<Rightarrow>
          if operator = ''empty'' then Inr (d = [])
          else if operator = ''not empty'' then Inr (d \<noteq> [])
          else Inl InvalidOperator
      | JList xs \<Rightarrow>
          if operator = ''contains'' then Inr (list_ex (\<lambda>x. py_eq x v) xs)
          else if operator = ''not contains'' then Inr (\<not> list_ex (\<lambda>x. py_eq x v) xs)
          else if operator = ''is'' then Inr (py_eq var v)
          else if operator = ''is not'' then Inr (\<not> py_eq var v)
          else if operator = ''empty'' then Inr (xs = [])
          else if operator = ''not empty'' then Inr (xs \<noteq> [])
          else Inl InvalidOperator
      | JNull \<Rightarrow> Inr (operator = ''empty''))"

record LoopParam =
  lp_variables :: "json list"
  lp_conditions :: "pydict list"
  lp_maximum_loop_count :: int
  lp_logical_operator :: "string option"

definition text_of :: "json \<Rightarrow> item_error + string" where
  "text_of v = (case v of JStr s \<Rightarrow> Inr s | _ \<Rightarrow> Inl TypeMismatch)"

definition read_variable :: "(string \<Rightarrow> json option) \<Rightarrow> canvas \<Rightarrow> json \<Rightarrow> item_error + json" where
  "read_variable loads c ref = bindE (text_of ref) (\<lambda>s.
     case get_variable_value loads c s of Inl e \<Rightarrow> Inl (ItemVariable e) | Inr v \<Rightarrow> Inr v)"

definition loop_condition :: "(string \<Rightarrow> json option) \<Rightarrow> canvas \<Rightarrow> pydict \<Rightarrow> item_error + bool" where
  "loop_condition loads c item =
     (if \<not> truthy (dget item ''variable'') \<or> \<not> truthy (dget item ''operator'') then Inl ConditionIncomplete
      else bindE (read_variable loads c (dget item ''variable'')) (\<lambda>var.
      let mode = dget_or item ''input_mode'' (JStr ''constant'') in
      bindE (if mode = JStr ''variable'' then read_variable loads c (dget_or item ''value'' (JStr []))
             else if mode = JStr ''constant'' then Inr (dget_or item ''value'' (JStr []))
             else Inl InvalidInputMode) (\<lambda>v.
      case dget item ''operator'' of
        JStr operator \<Rightarrow> evaluate_condition var operator v
      | _ \<Rightarrow> if var = JNull then Inr False else Inl InvalidOperator)))"

definition loop_item_invoke :: "bool \<Rightarrow> LoopParam \<Rightarrow> int \<Rightarrow> int" where
  "loop_item_invoke canceled p idx =
     (if canceled then idx else if idx \<ge> lp_maximum_loop_count p then -1 else idx + 1)"

definition loop_item_end ::
  "(string \<Rightarrow> json option) \<Rightarrow> LoopParam \<Rightarrow> canvas \<Rightarrow> int \<Rightarrow> (item_error + bool) \<times> int" where
  \<comment> \<open>the answer or the exception, and the new \<open>_idx\<close>\<close>
  "loop_item_end loads p c idx =
     (if idx = -1 then (Inr True, idx)
      else case mapE (loop_condition loads c) (lp_conditions p) of
        Inl e \<Rightarrow> (Inl e, idx)
      | Inr conditions \<Rightarrow>
          (let logic = (case lp_logical_operator p of None \<Rightarrow> ''and'' | Some s \<Rightarrow> s) in
           if logic \<noteq> ''and'' \<and> logic \<noteq> ''or'' then (Inl InvalidLogicalOperator, idx)
           else if (if logic = ''and'' then list_all id conditions else list_ex id conditions) then (Inr True, -1)
           else (Inr False, idx)))"

definition loop_turn ::
  "(string \<Rightarrow> json option) \<Rightarrow> LoopParam \<Rightarrow> canvas \<Rightarrow> int \<Rightarrow> (item_error + bool) \<times> int" where
  \<comment> \<open>what the scheduler does with a loop item: invoke it, then ask whether the loop is over\<close>
  "loop_turn loads p c idx = loop_item_end loads p c (loop_item_invoke False p idx)"

text \<open>All the turns of a loop item in a run, one after the other, over every entry into its loop: \<open>cs k\<close> is the
  canvas at the k-th turn. The item is created with \<open>_idx\<close> 0; nothing sets it back when the
  loop is entered again, so the first turn of a later entry starts from what the last one left.\<close>

fun loop_index :: "(string \<Rightarrow> json option) \<Rightarrow> LoopParam \<Rightarrow> (nat \<Rightarrow> canvas) \<Rightarrow> nat \<Rightarrow> int" where
  "loop_index loads p cs 0 = 0"
| "loop_index loads p cs (Suc k) = snd (loop_turn loads p (cs k) (loop_index loads p cs k))"

definition loop_answer :: "(string \<Rightarrow> json option) \<Rightarrow> LoopParam \<Rightarrow> (nat \<Rightarrow> canvas) \<Rightarrow> nat \<Rightarrow> item_error + bool" where
  "loop_answer loads p cs k = fst (loop_turn loads p (cs k) (loop_index loads p cs k))"

lemma loop_turn_pass:
  assumes "fst (loop_turn loads p c i) = Inr False"
  shows "i < lp_maximum_loop_count p \<and> snd (loop_turn loads p c i) = i + 1"
proof -
  have lt: "i < lp_maximum_loop_count p"
    using assms by (rule contrapos_pp) (simp add: loop_turn_def loop_item_invoke_def loop_item_end_def)
  moreover have "snd (loop_turn loads p c i) = i + 1"
    using assms lt by (auto simp: loop_turn_def loop_item_invoke_def loop_item_end_def Let_def
        split: sum.splits if_splits)
  ultimately show ?thesis ..
qed

lemma loop_turn_range:
  assumes "-1 \<le> i" "i \<le> max 0 (lp_maximum_loop_count p)"
  shows "-1 \<le> snd (loop_turn loads p c i) \<and> snd (loop_turn loads p c i) \<le> max 0 (lp_maximum_loop_count p)"
    "0 \<le> i \<Longrightarrow> fst (loop_turn loads p c i) \<noteq> Inr True \<Longrightarrow> 0 \<le> snd (loop_turn loads p c i)"
  using assms by (auto simp: loop_turn_def loop_item_invoke_def loop_item_end_def Let_def split: sum.splits if_splits)

lemma loop_index_range:
  "-1 \<le> loop_index loads p cs s \<and> loop_index loads p cs s \<le> max 0 (lp_maximum_loop_count p)"
  by (induction s) (simp_all add: loop_turn_range)

lemma loop_index_first_entry:
  "\<forall>j < s. loop_answer loads p cs j \<noteq> Inr True \<Longrightarrow> 0 \<le> loop_index loads p cs s"
proof (induction s)
  case (Suc s)
  then show ?case
    using loop_turn_range(2) [of "loop_index loads p cs s" p loads "cs s"] loop_index_range
    by (simp add: loop_answer_def)
qed simp

lemma loop_index_passes:
  "\<forall>j < k. loop_answer loads p cs (s + j) = Inr False \<Longrightarrow> loop_index loads p cs (s + k) = loop_index loads p cs s + int k"
proof (induction k)
  case (Suc k)
  then have "fst (loop_turn loads p (cs (s + k)) (loop_index loads p cs (s + k))) = Inr False"
    by (auto simp: loop_answer_def)
  from loop_turn_pass [OF this] Suc show ?case by simp
qed simp

text \<open>Property C18. How many passes a loop makes. Whatever the conditions say and whatever the body does to
  the canvas, at any point of a run: \<open>k\<close> passes in a row, with no end in between, bring the index from where
  they started to \<open>k\<close> more, and never above \<open>maximum_loop_count\<close>. So a loop makes at most \<open>maximum_loop_count\<close> passes
  when it is entered first, and at most one more when it is entered again, since its end left the
  index at -1.\<close>

theorem loop_passes_bounded:
  assumes "0 \<le> lp_maximum_loop_count p" "\<forall>j < k. loop_answer loads p cs (s + j) = Inr False"
  shows "-1 \<le> loop_index loads p cs s \<and> loop_index loads p cs (s + k) = loop_index loads p cs s + int k \<and>
    loop_index loads p cs s + int k \<le> lp_maximum_loop_count p \<and>
    int k \<le> lp_maximum_loop_count p + 1 \<and>
    ((\<forall>j < s. loop_answer loads p cs j \<noteq> Inr True) \<longrightarrow> int k \<le> lp_maximum_loop_count p)"
  using loop_index_passes [OF assms(2)] loop_index_range [of loads p cs s] loop_index_range [of loads p cs "s + k"]
    loop_index_first_entry [of s loads p cs] assms(1) by auto

text \<open>The extra pass is made: after an end, a loop whose conditions do not hold is given
  \<open>maximum_loop_count + 1\<close> passes before the count ends it.\<close>

lemma loop_reentry_one_more:
  assumes "\<And>c i. i \<noteq> -1 \<Longrightarrow> loop_item_end loads p c i = (Inr False, i)" "loop_index loads p cs s = -1"
    and "0 \<le> lp_maximum_loop_count p"
  shows "int j \<le> lp_maximum_loop_count p \<Longrightarrow> loop_answer loads p cs (s + j) = Inr False \<and> loop_index loads p cs (s + j) = int j - 1"
proof (induction j)
  case 0
  then show ?case using assms by (simp add: loop_answer_def loop_turn_def loop_item_invoke_def)
next
  case (Suc j)
  then have "loop_index loads p cs (s + Suc j) = int j"
    using assms(1) [of "int j"] by (simp add: loop_turn_def loop_item_invoke_def)
  then show ?case using Suc.prems assms(1) [of "int j + 1"]
    by (simp add: loop_answer_def loop_turn_def loop_item_invoke_def)
qed

text \<open>A loop without a termination condition never runs its body: the conjunction of
  no conditions holds, so the first check ends the loop, whatever \<open>maximum_loop_count\<close> allows.\<close>

lemma loop_without_condition_is_skipped:
  assumes "lp_conditions p = []" "lp_logical_operator p \<in> {None, Some ''and''}" "0 < lp_maximum_loop_count p"
  shows "loop_turn loads p c 0 = (Inr True, -1)"
  using assms by (auto simp: loop_turn_def loop_item_invoke_def loop_item_end_def)

section \<open>Loop variables\<close>

definition missing_required :: "json \<Rightarrow> bool" where
  "missing_required v = (case v of JStr s \<Rightarrow> s = [] | _ \<Rightarrow> True)"

definition incomplete_loop_variable :: "json \<Rightarrow> bool" where
  "incomplete_loop_variable item =
     (case item of
        JDict d \<Rightarrow>
          list_ex (\<lambda>f. missing_required (dget d f)) [''variable'', ''input_mode'', ''type'']
          \<or> (if dget d ''input_mode'' = JStr ''variable'' then missing_required (dget d ''value'')
              else if dget d ''input_mode'' = JStr ''constant'' then dget d ''value'' = JNull
              else True)
      | _ \<Rightarrow> True)"

definition loop_variable :: "(string \<Rightarrow> json option) \<Rightarrow> string \<Rightarrow> canvas \<Rightarrow> json \<Rightarrow> item_error + canvas" where
  \<comment> \<open>one turn of the loop in \<open>Loop._invoke\<close>; the type defaults are unreachable behind the check\<close>
  "loop_variable loads self c item =
     (if incomplete_loop_variable item then Inl ConditionIncomplete
      else case item of
        JDict d \<Rightarrow>
          bindE (text_of (dget d ''variable'')) (\<lambda>name.
          bindE (if dget d ''input_mode'' = JStr ''variable'' then read_variable loads c (dget d ''value'')
                 else Inr (dget d ''value'')) (\<lambda>v.
          Inr (set_outputs self [(name, v)] c)))
      | _ \<Rightarrow> Inl ConditionIncomplete)"

definition loop_invoke ::
  "(string \<Rightarrow> json option) \<Rightarrow> bool \<Rightarrow> string \<Rightarrow> LoopParam \<Rightarrow> canvas \<Rightarrow> item_error option \<times> canvas" where
  \<comment> \<open>outputs set before an exception stay set\<close>
  "loop_invoke loads canceled self p c =
     (if canceled then (None, canceled_output self c)
      else foldl (\<lambda>(err, c) item. case err of
             Some e \<Rightarrow> (Some e, c)
           | None \<Rightarrow> (case loop_variable loads self c item of Inl e \<Rightarrow> (Some e, c) | Inr c' \<Rightarrow> (None, c')))
         (None, c) (lp_variables p))"

section \<open>Witnesses\<close>

definition nested_canvas :: canvas where
  "nested_canvas = \<lparr>cv_globals = [(''env.xs'', JList [JInt 5, JInt 6])], cv_components =
     [(''I'', node ''iteration'' []), (''II'', (node ''iterationitem'' [])\<lparr>cp_parent := Some ''I''\<rparr>)]\<rparr>"

lemma nested_canvas_facts:
  "get_variable_value (\<lambda>_. None) nested_canvas ''env.xs'' = Inr (JList [JInt 5, JInt 6])"
  "map_of (cv_components nested_canvas) ''II'' \<noteq> None"
  "\<exists>c1. output_collation ''I'' nested_canvas = Inr c1"
proof -
  show "get_variable_value (\<lambda>_. None) nested_canvas ''env.xs'' = Inr (JList [JInt 5, JInt 6])" by code_simp
  show "map_of (cv_components nested_canvas) ''II'' \<noteq> None" by (simp add: nested_canvas_def)
  show "\<exists>c1. output_collation ''I'' nested_canvas = Inr c1"
    by (simp add: output_collation_def nested_canvas_def collate_child_def node_def put_component_def)
qed

lemma iteration_visits_each_item_example:
  "iteration_item_end (item_index (\<lambda>_. None) (\<lambda>_. False) ''env.xs'' ''I'' ''II'' (\<lambda>_. nested_canvas) 0 3)"
  using iteration_visits_each_item [of "\<lambda>_. None" "\<lambda>_. nested_canvas" "''env.xs''" "[JInt 5, JInt 6]"
      "\<lambda>_. False" "''II''" "''I''"] nested_canvas_facts
  by (simp add: numeral_3_eq_3 numeral_2_eq_2 del: item_index.simps)

lemma iteration_reentry_repeats_last_item_example:
  "\<exists>c' x. iteration_item_invoke (\<lambda>_. None) (\<lambda>_. False) ''env.xs'' ''I'' ''II'' (-1) nested_canvas = (None, 0, c') \<and>
     map_of (cv_components c') ''II'' = Some x \<and> cpn_output x ''item'' = JInt 6"
  using iteration_reentry_repeats_last_item [OF nested_canvas_facts(1) _ nested_canvas_facts(2),
      of "\<lambda>_. False" "-1" "''I''"]
  by (auto simp: iteration_item_end_def)

definition plain_loop :: LoopParam where
  "plain_loop = \<lparr>lp_variables = [], lp_conditions = [], lp_maximum_loop_count = 3, lp_logical_operator = None\<rparr>"

definition query_loop :: LoopParam where
  "query_loop = plain_loop\<lparr>lp_conditions :=
     [[(''variable'', JStr ''env.xs''), (''operator'', JStr ''empty'')]]\<rparr>"

lemma query_loop_turns:
  "map (loop_answer (\<lambda>_. None) query_loop (\<lambda>_. nested_canvas)) [0, 1, 2, 3, 4, 5, 6, 7, 8] =
     [Inr False, Inr False, Inr False, Inr True, Inr False, Inr False, Inr False, Inr False, Inr True]"
  by code_simp

theorem loop_passes_bounded_witness:
  "loop_index (\<lambda>_. None) query_loop (\<lambda>_. nested_canvas) (4 + 4) =
     loop_index (\<lambda>_. None) query_loop (\<lambda>_. nested_canvas) 4 + 4 \<and> lp_maximum_loop_count query_loop = 3"
proof -
  have m: "lp_maximum_loop_count query_loop = 3" by (simp add: query_loop_def plain_loop_def)
  have "\<forall>j < 4. loop_answer (\<lambda>_. None) query_loop (\<lambda>_. nested_canvas) (4 + j) = Inr False"
    using query_loop_turns by (simp add: less_Suc_eq numeral_eq_Suc)
  with loop_passes_bounded [of query_loop 4 "\<lambda>_. None" "\<lambda>_. nested_canvas" 4] m show ?thesis by simp
qed

lemma loop_without_condition_is_skipped_example:
  "loop_turn (\<lambda>_. None) plain_loop nested_canvas 0 = (Inr True, -1)"
  by (rule loop_without_condition_is_skipped) (simp_all add: plain_loop_def)


end
