(* ===== verification/Agent_Lists.thy ===== *)
theory Agent_Lists
  imports Agent_Loops
begin

text \<open>
  The list component of a canvas (\<open>src/agent/component/list_operations.py\<close>), and what it shares
  with the other components that work on values.

  \<open>pylib\<close> holds what these components take from Python's numbers and texts and what depends on Unicode
  tables or on binary64 arithmetic: \<open>repr\<close> of a text, \<open>str.lower\<close>, \<open>float(x)\<close>, and the arithmetic
  operators where a float is involved, and \<open>sorted\<close>, whose comparisons may raise. Arithmetic on integers
  is exact and written out.
\<close>

record pylib =
  str_repr :: "string \<Rightarrow> string"
  float_repr :: "rat \<Rightarrow> string"
  str_lower :: "string \<Rightarrow> string"
  to_float :: "json \<Rightarrow> pyfloat option" \<comment> \<open>\<open>None\<close>: it raises\<close>
  float_op :: "char \<Rightarrow> json \<Rightarrow> json \<Rightarrow> json option" \<comment> \<open>\<open>None\<close>: OverflowError\<close>
  py_sorted :: "bool \<Rightarrow> bool \<Rightarrow> json list \<Rightarrow> json list option"
    \<comment> \<open>\<open>sorted\<close>, on the hashable keys when the first argument holds, reversed when the second does; \<open>None\<close>: TypeError\<close>

definition plain_lib :: pylib where
  \<comment> \<open>a concrete instance for witnesses\<close>
  "plain_lib = \<lparr>str_repr = (\<lambda>s. [CHR 0x27] @ s @ [CHR 0x27]), float_repr = (\<lambda>_. ''0.0''), str_lower = ascii_lower,
     to_float = num_val, float_op = (\<lambda>_ _ _. None), py_sorted = (\<lambda>_ _ xs. Some xs)\<rparr>"

primrec py_repr :: "pylib \<Rightarrow> json \<Rightarrow> string" where
  "py_repr L JNull = ''None''"
| "py_repr L (JBool b) = (if b then ''True'' else ''False'')"
| "py_repr L (JInt i) = int_str i"
| "py_repr L (JFloat x) = (case x of Finite q \<Rightarrow> float_repr L q | PosInf \<Rightarrow> ''inf'' | NegInf \<Rightarrow> ''-inf'' | NaN \<Rightarrow> ''nan'')"
| "py_repr L (JStr s) = str_repr L s"
| "py_repr L (JList xs) = ''['' @ join '', '' (map (py_repr L) xs) @ '']''"
| "py_repr L (JDict d) = ''{'' @ join '', '' (map (\<lambda>(k, t). str_repr L k @ '': '' @ t) (map (map_prod id (py_repr L)) d)) @ ''}''"

definition py_str :: "pylib \<Rightarrow> json \<Rightarrow> string" where
  "py_str L v = (case v of JStr s \<Rightarrow> s | _ \<Rightarrow> py_repr L v)"

definition norm :: "pylib \<Rightarrow> json \<Rightarrow> string" where
  "norm L v = (if v = JNull then [] else py_str L v)"

datatype cpn_error =
    NotAnArray | StrictRange string int | UnsupportedOperation | OperandError \<comment> \<open>AttributeError, TypeError, ValueError\<close>
  | UnsupportedOperator | VariableIncomplete | VariableFailure var_error | ArithmeticFailure

definition lift_var :: "var_error + 'a \<Rightarrow> cpn_error + 'a" where
  "lift_var m = (case m of Inl e \<Rightarrow> Inl (VariableFailure e) | Inr x \<Rightarrow> Inr x)"

lemma lift_var_simps [simp]:
  "lift_var (Inr x) = Inr x" "lift_var (Inl e) = Inl (VariableFailure e)" "lift_var m = Inr x \<longleftrightarrow> m = Inr x"
  by (auto simp: lift_var_def split: sum.splits)

section \<open>ListOperations\<close>

record ListOperationsParam =
  lo_operations :: json
  lo_version :: int
  lo_n :: json
  lo_strict :: json
  lo_sort_method :: json
  lo_operator :: string
  lo_value :: json

definition list_operation :: "pylib \<Rightarrow> ListOperationsParam \<Rightarrow> cpn_error + string" where
  \<comment> \<open>\<open>check\<close>: the operation that is stored\<close>
  "list_operation L p =
     (if lo_version p \<notin> {1, 2} then Inl UnsupportedOperation
      else
        let raw = py_strip (if lo_operations p = JNull then [] else py_str L (lo_operations p));
            top = (if str_lower L raw = ''topn'' then (if lo_version p = 1 then ''topN'' else ''head'') else raw);
            operation = (if lo_version p = 2 \<and> top = [] then ''nth'' else top) in
        if operation \<in> {if lo_version p = 1 then ''topN'' else ''nth'', ''head'', ''tail'', ''filter'', ''sort'', ''drop_duplicates''}
        then Inr operation else Inl UnsupportedOperation)"

definition coerce_n :: "json \<Rightarrow> int" where
  \<comment> \<open>\<open>int(n)\<close>, 0 when it raises\<close>
  "coerce_n v =
     (case v of
        JInt n \<Rightarrow> n
      | JBool b \<Rightarrow> of_bool b
      | JFloat (Finite q) \<Rightarrow> (if 0 \<le> q then floor q else ceiling q)
      | JStr s \<Rightarrow> (case py_int s of None \<Rightarrow> 0 | Some n \<Rightarrow> n)
      | _ \<Rightarrow> 0)"

definition is_strict :: "pylib \<Rightarrow> ListOperationsParam \<Rightarrow> bool" where
  "is_strict L p \<longleftrightarrow> lo_version p \<noteq> 1 \<and>
     (case lo_strict p of JStr s \<Rightarrow> str_lower L (py_strip s) \<in> {''1'', ''true'', ''yes'', ''on''} | v \<Rightarrow> truthy v)"

definition list_nth :: "bool \<Rightarrow> int \<Rightarrow> json list \<Rightarrow> cpn_error + json list" where
  "list_nth strict n xs =
     (if n \<noteq> 0 \<and> \<bar>n\<bar> \<le> int (length xs)
      then (case py_index xs (if n > 0 then n - 1 else n) of Some v \<Rightarrow> Inr [v] | None \<Rightarrow> Inr [])
      else if strict then Inl (StrictRange ''nth'' n) else Inr [])"

definition list_head :: "bool \<Rightarrow> int \<Rightarrow> json list \<Rightarrow> cpn_error + json list" where
  "list_head strict n xs =
     (if strict \<and> \<not> (1 \<le> n \<and> n \<le> int (length xs)) then Inl (StrictRange ''head'' n)
      else Inr (if n \<ge> 1 then take (nat n) xs else []))"

definition list_tail :: "bool \<Rightarrow> int \<Rightarrow> json list \<Rightarrow> cpn_error + json list" where
  "list_tail strict n xs =
     (if strict \<and> \<not> (1 \<le> n \<and> n \<le> int (length xs)) then Inl (StrictRange ''tail'' n)
      else Inr (if n \<ge> 1 then drop (length xs - nat n) xs else []))"

definition legacy_nth :: "bool \<Rightarrow> int \<Rightarrow> json list \<Rightarrow> cpn_error + json list" where
  "legacy_nth from_end n xs =
     (if 1 \<le> n \<and> n \<le> int (length xs)
      then (case py_index xs (if from_end then - n else n - 1) of Some v \<Rightarrow> Inr [v] | None \<Rightarrow> Inr [])
      else Inr [])"

definition eval_text :: "string \<Rightarrow> string \<Rightarrow> json \<Rightarrow> cpn_error + bool" where
  \<comment> \<open>\<open>_eval\<close>: the left operand is a text\<close>
  "eval_text v operator value =
     (let with_text = (\<lambda>f. case value of JStr t \<Rightarrow> Inr (f t) | _ \<Rightarrow> Inl OperandError) in
      if operator = ''='' then Inr (JStr v = value)
      else if operator = op_ne then Inr (JStr v \<noteq> value)
      else if operator = ''contains'' then with_text (\<lambda>t. occurs_in t v)
      else if operator = ''start with'' then with_text (\<lambda>t. prefix t v)
      else if operator = ''end with'' then with_text (\<lambda>t. suffix t v)
      else Inr False)"

fun filterE :: "('a \<Rightarrow> 'e + bool) \<Rightarrow> 'a list \<Rightarrow> 'e + 'a list" where
  "filterE f [] = Inr []"
| "filterE f (x # xs) = bindE (f x) (\<lambda>b. bindE (filterE f xs) (\<lambda>ys. Inr (if b then x # ys else ys)))"

datatype hkey = HNull | HNum pyfloat | HStr string | HTup "hkey list"

primrec hashable :: "json \<Rightarrow> hkey" where
  \<comment> \<open>a dict becomes the tuple of its items sorted by key, a list the tuple of its elements\<close>
  "hashable JNull = HNull"
| "hashable (JBool b) = HNum (Finite (of_bool b))"
| "hashable (JInt n) = HNum (Finite (of_int n))"
| "hashable (JFloat x) = HNum x"
| "hashable (JStr s) = HStr s"
| "hashable (JList xs) = HTup (map hashable xs)"
| "hashable (JDict d) = HTup (map (\<lambda>(k, h). HTup [HStr k, h]) (sort_key fst (map (map_prod id hashable) d)))"

primrec hkey_eq :: "hkey \<Rightarrow> hkey \<Rightarrow> bool" where
  "hkey_eq HNull k = (k = HNull)"
| "hkey_eq (HNum x) k = (case k of HNum y \<Rightarrow> num_eq x y | _ \<Rightarrow> False)"
| "hkey_eq (HStr s) k = (k = HStr s)"
| "hkey_eq (HTup hs) k = (case k of HTup ks \<Rightarrow> list_all2 (\<lambda>same y. same y) (map hkey_eq hs) ks | _ \<Rightarrow> False)"

fun drop_duplicates :: "json list \<Rightarrow> json list \<Rightarrow> json list" where
  \<comment> \<open>the first argument holds the kept items, whose keys are \<open>seen\<close>\<close>
  "drop_duplicates outs [] = outs"
| "drop_duplicates outs (x # xs) =
     (if list_ex (\<lambda>y. hkey_eq (hashable x) (hashable y)) outs then drop_duplicates outs xs
      else drop_duplicates (outs @ [x]) xs)"

definition list_sort :: "pylib \<Rightarrow> json \<Rightarrow> json list \<Rightarrow> cpn_error + json list" where
  \<comment> \<open>a missing or empty method is \<open>asc\<close>\<close>
  "list_sort L sort_method xs =
     (case xs of
        [] \<Rightarrow> Inr []
      | first # _ \<Rightarrow>
          (case py_sorted L (is_dict first) (sort_method = JStr ''desc'') xs of
             None \<Rightarrow> Inl OperandError | Some ys \<Rightarrow> Inr ys))"

definition list_operate :: "pylib \<Rightarrow> ListOperationsParam \<Rightarrow> string \<Rightarrow> json list \<Rightarrow> cpn_error + json list" where
  "list_operate L p operation xs =
     (let n = coerce_n (lo_n p); strict = is_strict L p in
      if operation = ''topN'' then list_head strict n xs
      else if operation = ''nth'' then list_nth strict n xs
      else if operation = ''head''
      then (if lo_version p = 1 then legacy_nth False n xs else list_head strict n xs)
      else if operation = ''tail''
      then (if lo_version p = 1 then legacy_nth True n xs else list_tail strict n xs)
      else if operation = ''filter'' then filterE (\<lambda>x. eval_text (norm L x) (lo_operator p) (lo_value p)) xs
      else if operation = ''sort'' then list_sort L (lo_sort_method p) xs
      else if operation = ''drop_duplicates'' then Inr (drop_duplicates [] xs)
      else Inr [])"

definition list_outputs :: "json list \<Rightarrow> (string \<times> json) list" where
  "list_outputs outs = [(''result'', JList outs),
     (''first'', if outs = [] then JNull else hd outs), (''last'', if outs = [] then JNull else last outs)]"

definition list_inputs :: "json \<Rightarrow> cpn_error + json list" where
  "list_inputs v = (case v of JNull \<Rightarrow> Inr [] | JList xs \<Rightarrow> Inr xs | _ \<Rightarrow> Inl NotAnArray)"

definition clear_error :: "string \<Rightarrow> canvas \<Rightarrow> canvas" where
  "clear_error self c =
     (case map_of (cv_components c) self of None \<Rightarrow> c
      | Some x \<Rightarrow> put_component self (x\<lparr>cp_outputs := AList.delete ''_ERROR'' (cp_outputs x)\<rparr>) c)"

definition list_invoke ::
  "pylib \<Rightarrow> (string \<Rightarrow> json option) \<Rightarrow> ListOperationsParam \<Rightarrow> string \<Rightarrow> string \<Rightarrow> string \<Rightarrow> canvas \<Rightarrow> cpn_error option \<times> canvas" where
  \<comment> \<open>\<open>_invoke\<close>: the exception, if any, and the canvas it leaves\<close>
  "list_invoke L loads p operation query self c =
     (let c0 = clear_error self (set_outputs self (list_outputs []) c) in
      case get_variable_value loads c0 query of
        Inl e \<Rightarrow> (Some (VariableFailure e), c0)
      | Inr v \<Rightarrow>
          (case bindE (list_inputs v) (list_operate L p operation) of
             Inl e \<Rightarrow> (Some e, c0)
           | Inr outs \<Rightarrow> (None, set_outputs self (list_outputs outs) c0)))"

text \<open>The positional operations agree with each other on every position of the list:
  the n-th item is the last of the first n, the n-th from the end is the first of the last n,
  and the first n followed by all but n from the end is the list itself. In strict mode a number
  outside the list is an error for each of them; otherwise a number that is too large gives the
  whole list from head and tail and no item from the others.\<close>

lemma list_positions_agree:
  assumes "1 \<le> n" "n \<le> int (length xs)" "int (length xs) < m"
  shows "(\<exists>h t. list_head strict n xs = Inr h \<and> list_tail strict n xs = Inr t \<and>
      list_nth strict n xs = Inr [last h] \<and> list_nth strict (- n) xs = Inr [hd t] \<and>
      legacy_nth False n xs = Inr [last h] \<and> legacy_nth True n xs = Inr [hd t] \<and>
      (n < int (length xs) \<longrightarrow> list_tail strict (int (length xs) - n) xs = Inr (drop (nat n) xs) \<and> h @ drop (nat n) xs = xs)) \<and>
    list_head True m xs = Inl (StrictRange ''head'' m) \<and> list_tail True m xs = Inl (StrictRange ''tail'' m) \<and>
    list_nth True m xs = Inl (StrictRange ''nth'' m) \<and> list_nth True (- m) xs = Inl (StrictRange ''nth'' (- m)) \<and>
    list_head False m xs = Inr xs \<and> list_tail False m xs = Inr xs \<and> list_nth False m xs = Inr [] \<and>
    list_nth False (- m) xs = Inr [] \<and> legacy_nth from_end m xs = Inr []"
proof -
  define k where "k = nat n"
  have k: "n = int k" "1 \<le> k" "k \<le> length xs" using assms by (auto simp: k_def)
  have "take k xs \<noteq> []" using k by auto
  then have "last (take k xs) = xs ! (k - 1)" using k by (simp add: last_conv_nth)
  moreover have "hd (drop (length xs - k) xs) = xs ! (length xs - k)" using k by (simp add: hd_drop_conv_nth)
  moreover have "nat (int k - 1) = k - 1" "nat (int (length xs) - int k) = length xs - k"
    "0 \<le> int k - 1" "int k - 1 < int (length xs)" "- int (length xs) \<le> - int k" "- int k < 0"
    "length xs - (length xs - k) = k" using k by auto
  ultimately show ?thesis
    using k assms(3) by (auto simp: list_head_def list_tail_def list_nth_def legacy_nth_def py_index_def)
qed

lemma list_positions_agree_example:
  "list_nth True 2 [JInt 5, JInt 6, JInt 7] = Inr [JInt 6] \<and> list_head False 4 [JInt 5, JInt 6, JInt 7] = Inr [JInt 5, JInt 6, JInt 7]"
  using list_positions_agree [of 2 "[JInt 5, JInt 6, JInt 7]" 4 True True]
  by (auto simp: list_head_def)

lemma drop_duplicates_outs:
  "\<exists>ys. drop_duplicates outs xs = outs @ ys \<and> subseq ys xs"
proof (induction xs arbitrary: outs)
  case (Cons x xs)
  show ?case
  proof (cases "list_ex (\<lambda>y. hkey_eq (hashable x) (hashable y)) outs")
    case True
    with Cons [of outs] show ?thesis by (auto intro: subseq_Cons')
  next
    case False
    with Cons [of "outs @ [x]"] show ?thesis by auto
  qed
qed simp

lemma drop_duplicates_distinct:
  "sorted_wrt (\<lambda>x y. \<not> hkey_eq (hashable y) (hashable x)) outs \<Longrightarrow>
   sorted_wrt (\<lambda>x y. \<not> hkey_eq (hashable y) (hashable x)) (drop_duplicates outs xs)"
  by (induction outs xs rule: drop_duplicates.induct) (auto simp: sorted_wrt_append list_ex_iff)

lemma drop_duplicates_covers:
  "x \<in> set xs \<Longrightarrow> x \<in> set (drop_duplicates outs xs) \<or>
     (\<exists>y \<in> set (drop_duplicates outs xs). hkey_eq (hashable x) (hashable y))"
proof (induction xs arbitrary: outs)
  case (Cons z xs)
  have keep: "set outs' \<subseteq> set (drop_duplicates outs' xs)" for outs'
    using drop_duplicates_outs [of outs' xs] by auto
  show ?case
  proof (cases "x \<in> set xs")
    case True
    with Cons.IH show ?thesis by auto
  next
    case False
    then have "x = z" using Cons.prems by simp
    then show ?thesis using keep [of outs] keep [of "outs @ [z]"] by (auto simp: list_ex_iff)
  qed
qed simp

text \<open>Dropping duplicates keeps a subsequence of the list (order and first
  occurrences), keeps no item whose key equals that of an earlier kept one, and drops an item
  only when one with its key is kept.\<close>

lemma drop_duplicates_correct:
  "subseq (drop_duplicates [] xs) xs \<and>
   sorted_wrt (\<lambda>x y. \<not> hkey_eq (hashable y) (hashable x)) (drop_duplicates [] xs) \<and>
   list_all (\<lambda>x. list_ex (\<lambda>y. y = x \<or> hkey_eq (hashable x) (hashable y)) (drop_duplicates [] xs)) xs"
  using drop_duplicates_outs [of "[]" xs] drop_duplicates_distinct [of "[]" xs] drop_duplicates_covers [of _ xs "[]"]
  by (auto simp: list_all_iff list_ex_iff)

text \<open>An object and the list of its items have the same key, so one of them is dropped.\<close>

lemma hashable_conflates: "hashable (JDict [(k, v)]) = hashable (JList [JList [JStr k, v]])"
  by simp

end
