(* ===== verification/Agent_Switch.thy ===== *)
theory Agent_Switch
  imports Agent_Lists
begin

text \<open>
  The branching component of a canvas, \<open>src/agent/component/switch.py\<close>: the first condition that is
  satisfied decides where the run continues. The record of the inputs that are shown while
  debugging (\<open>set_input_value\<close>) is not part of the state.
\<close>

record switch_item =
  si_cpn_id :: string
  si_operator :: string
  si_value :: json \<comment> \<open>the empty text when missing\<close>

record switch_cond =
  sc_logical_operator :: string
  sc_items :: "switch_item list"
  sc_to :: "string list"

record SwitchParam =
  sw_conditions :: "switch_cond list"
  sw_end_cpn_ids :: "string list"

definition switch_check :: "SwitchParam \<Rightarrow> bool" where
  "switch_check p \<longleftrightarrow> sw_conditions p \<noteq> [] \<and> list_all (\<lambda>cond. sc_to cond \<noteq> []) (sw_conditions p) \<and> sw_end_cpn_ids p \<noteq> []"

definition lower_texts :: "pylib \<Rightarrow> (string \<Rightarrow> string \<Rightarrow> bool) \<Rightarrow> json \<Rightarrow> json \<Rightarrow> cpn_error + bool" where
  \<comment> \<open>both operands as lower case texts; \<open>lower\<close> of anything else is an AttributeError\<close>
  "lower_texts L f input v =
     (case (input, v) of (JStr s, JStr t) \<Rightarrow> Inr (f (str_lower L s) (str_lower L t)) | _ \<Rightarrow> Inl OperandError)"

datatype order_op = Gt | Lt | Ge | Le

fun num_cmp :: "order_op \<Rightarrow> pyfloat \<Rightarrow> pyfloat \<Rightarrow> bool" where
  "num_cmp Gt x y = num_less y x"
| "num_cmp Lt x y = num_less x y"
| "num_cmp Ge x y = num_le y x"
| "num_cmp Le x y = num_le x y"

fun nat_cmp :: "order_op \<Rightarrow> nat \<Rightarrow> nat \<Rightarrow> bool" where
  "nat_cmp Gt m n = (m > n)" | "nat_cmp Lt m n = (m < n)" | "nat_cmp Ge m n = (m \<ge> n)" | "nat_cmp Le m n = (m \<le> n)"

fun str_cmp :: "order_op \<Rightarrow> string \<Rightarrow> string \<Rightarrow> bool" where
  "str_cmp r (c # s) (d # t) = (if c = d then str_cmp r s t else nat_cmp r (of_char c) (of_char d))"
| "str_cmp r s t = nat_cmp r (length s) (length t)"

fun list_cmp :: "order_op \<Rightarrow> (json \<Rightarrow> bool) list \<Rightarrow> (json \<Rightarrow> cpn_error + bool) list \<Rightarrow> json list \<Rightarrow> cpn_error + bool" where
  \<comment> \<open>the first elements that are not equal decide\<close>
  "list_cmp r (e # es) (f # fs) (y # ys) = (if e y then list_cmp r es fs ys else f y)"
| "list_cmp r es fs ys = Inr (nat_cmp r (length es) (length ys))"

primrec py_cmp :: "order_op \<Rightarrow> json \<Rightarrow> json \<Rightarrow> cpn_error + bool" where
  \<comment> \<open>\<open>>\<close>, \<open><\<close>, \<open>>=\<close> and \<open><=\<close> on JSON values; \<open>Inl\<close> is the TypeError\<close>
  "py_cmp r JNull w = Inl OperandError"
| "py_cmp r (JBool b) w = (case num_val w of Some y \<Rightarrow> Inr (num_cmp r (Finite (of_bool b)) y) | None \<Rightarrow> Inl OperandError)"
| "py_cmp r (JInt n) w = (case num_val w of Some y \<Rightarrow> Inr (num_cmp r (Finite (of_int n)) y) | None \<Rightarrow> Inl OperandError)"
| "py_cmp r (JFloat x) w = (case num_val w of Some y \<Rightarrow> Inr (num_cmp r x y) | None \<Rightarrow> Inl OperandError)"
| "py_cmp r (JStr s) w = (case w of JStr t \<Rightarrow> Inr (str_cmp r s t) | _ \<Rightarrow> Inl OperandError)"
| "py_cmp r (JList xs) w =
     (case w of JList ys \<Rightarrow> list_cmp r (map py_eq xs) (map (py_cmp r) xs) ys | _ \<Rightarrow> Inl OperandError)"
| "py_cmp r (JDict d) w = Inl OperandError"

definition order_switch :: "pylib \<Rightarrow> order_op \<Rightarrow> json \<Rightarrow> json \<Rightarrow> cpn_error + bool" where
  \<comment> \<open>as floats, and as they are when one of them is no float\<close>
  "order_switch L r input v =
     (case (to_float L input, to_float L v) of (Some x, Some y) \<Rightarrow> Inr (num_cmp r x y) | _ \<Rightarrow> py_cmp r input v)"

definition process_operator :: "pylib \<Rightarrow> json \<Rightarrow> string \<Rightarrow> json \<Rightarrow> cpn_error + bool" where
  "process_operator L input operator v =
     (if operator = ''contains'' then lower_texts L (\<lambda>s t. occurs_in t s) input v
      else if operator = ''not contains'' then lower_texts L (\<lambda>s t. \<not> occurs_in t s) input v
      else if operator = ''start with'' then lower_texts L (\<lambda>s t. prefix t s) input v
      else if operator = ''end with'' then lower_texts L (\<lambda>s t. suffix t s) input v
      else if operator = ''empty'' then Inr (\<not> truthy input)
      else if operator = ''not empty'' then Inr (truthy input)
      else if operator = ''='' then Inr (py_eq input v)
      else if operator = op_ne then Inr (\<not> py_eq input v)
      else if operator = ''>'' then order_switch L Gt input v
      else if operator = ''<'' then order_switch L Lt input v
      else if operator = op_ge then order_switch L Ge input v
      else if operator = op_le then order_switch L Le input v
      else Inl UnsupportedOperator)"

definition switch_operatee :: "pylib \<Rightarrow> json \<Rightarrow> json \<Rightarrow> cpn_error + json" where
  \<comment> \<open>\<open>float(operatee)\<close> when the variable is a number; \<open>Inl\<close> is what it raises\<close>
  "switch_operatee L cpn_v v =
     (if num_val cpn_v \<noteq> None
      then (case to_float L v of None \<Rightarrow> Inl OperandError | Some x \<Rightarrow> Inr (JFloat x)) else Inr v)"

definition item_holds :: "pylib \<Rightarrow> (string \<Rightarrow> json option) \<Rightarrow> canvas \<Rightarrow> switch_item \<Rightarrow> cpn_error + bool" where
  "item_holds L loads c i =
     bindE (lift_var (get_variable_value loads c (si_cpn_id i))) (\<lambda>cpn_v.
     bindE (switch_operatee L cpn_v (si_value i)) (process_operator L cpn_v (si_operator i)))"

datatype cond_result = Canceled | Taken | Fell "bool list"

fun switch_items ::
  "(switch_item \<Rightarrow> cpn_error + bool) \<Rightarrow> (nat \<Rightarrow> bool) \<Rightarrow> string \<Rightarrow> nat \<Rightarrow> bool list \<Rightarrow> switch_item list
     \<Rightarrow> cpn_error + (cond_result \<times> nat)" where
  \<comment> \<open>the loop over \<open>cond["items"]\<close>; \<open>cancel k\<close> is the answer of the k-th cancellation check\<close>
  "switch_items holds cancel logical k res [] = Inr (Fell res, k)"
| "switch_items holds cancel logical k res (i # is) =
     (if cancel k then Inr (Canceled, Suc k)
      else if si_cpn_id i = [] then switch_items holds cancel logical (Suc k) res is
      else bindE (holds i) (\<lambda>b.
        if logical \<noteq> ''and'' \<and> True \<in> set (res @ [b]) then Inr (Taken, Suc k)
        else switch_items holds cancel logical (Suc k) (res @ [b]) is))"

fun switch_conds ::
  "(switch_item \<Rightarrow> cpn_error + bool) \<Rightarrow> (nat \<Rightarrow> bool) \<Rightarrow> string list \<Rightarrow> nat \<Rightarrow> switch_cond list \<Rightarrow> cpn_error + string list option" where
  \<comment> \<open>the components to go on with; \<open>None\<close> when canceled\<close>
  "switch_conds holds cancel end_ids k [] = Inr (Some end_ids)"
| "switch_conds holds cancel end_ids k (cond # conds) =
     (if cancel k then Inr None
      else bindE (switch_items holds cancel (sc_logical_operator cond) (Suc k) [] (sc_items cond)) (\<lambda>(r, k').
        case r of
          Canceled \<Rightarrow> Inr None
        | Taken \<Rightarrow> Inr (Some (sc_to cond))
        | Fell res \<Rightarrow>
            if res \<noteq> [] \<and> list_all id res then Inr (Some (sc_to cond)) else switch_conds holds cancel end_ids k' conds))"

definition switch_invoke ::
  "pylib \<Rightarrow> (string \<Rightarrow> json option) \<Rightarrow> (nat \<Rightarrow> bool) \<Rightarrow> (string \<Rightarrow> string) \<Rightarrow> SwitchParam \<Rightarrow> string \<Rightarrow> canvas \<Rightarrow> cpn_error option \<times> canvas" where
  \<comment> \<open>\<open>get_component_name\<close> is the display name of a component in the graph\<close>
  "switch_invoke L loads cancel get_component_name p self c =
     (if cancel 0 then (None, canceled_output self c)
      else case switch_conds (item_holds L loads c) cancel (sw_end_cpn_ids p) 1 (sw_conditions p) of
        Inl e \<Rightarrow> (Some e, c)
      | Inr None \<Rightarrow> (None, canceled_output self c)
      | Inr (Some ids) \<Rightarrow>
          (None, set_outputs self [(''next'', JList (map (JStr \<circ> get_component_name) ids)), (''_next'', JList (map JStr ids))] c))"

section \<open>The first satisfied condition\<close>

text \<open>The declarative reading of a condition, given what each of its items says.\<close>

definition satisfied :: "(switch_item \<Rightarrow> bool) \<Rightarrow> switch_cond \<Rightarrow> bool" where
  "satisfied h cond =
     (let active = filter (\<lambda>i. si_cpn_id i \<noteq> []) (sc_items cond) in
      if sc_logical_operator cond = ''and'' then active \<noteq> [] \<and> list_all h active else list_ex h active)"

lemma switch_items_result:
  assumes "\<And>i. i \<in> set is \<Longrightarrow> si_cpn_id i \<noteq> [] \<Longrightarrow> holds i = Inr (h i)" "\<forall>k. \<not> cancel k"
    and "logical \<noteq> ''and'' \<Longrightarrow> True \<notin> set res"
  shows "\<exists>k'. switch_items holds cancel logical k res is =
    Inr (if logical \<noteq> ''and'' \<and> list_ex h (filter (\<lambda>i. si_cpn_id i \<noteq> []) is) then Taken
         else Fell (res @ map h (filter (\<lambda>i. si_cpn_id i \<noteq> []) is)), k')"
  using assms
proof (induction "is" arbitrary: k res)
  case (Cons i "is")
  have holds: "si_cpn_id i \<noteq> [] \<Longrightarrow> holds i = Inr (h i)" and "\<not> cancel k" using Cons.prems by auto
  moreover have "logical \<noteq> ''and'' \<Longrightarrow> \<not> h i \<Longrightarrow> True \<notin> set (res @ [h i])" using Cons.prems(3) by auto
  moreover note Cons.IH [OF _ Cons.prems(2), of "res @ [h i]" "Suc k"] Cons.IH [OF _ Cons.prems(2,3), of "Suc k"]
  ultimately show ?case using Cons.prems(1,3) by (auto simp: bindE_def)
qed simp

lemma switch_conds_result:
  assumes "\<And>cond i. cond \<in> set conds \<Longrightarrow> i \<in> set (sc_items cond) \<Longrightarrow> si_cpn_id i \<noteq> [] \<Longrightarrow> holds i = Inr (h i)"
    and "\<forall>k. \<not> cancel k"
  shows "switch_conds holds cancel end_ids k conds =
    Inr (Some (case find (satisfied h) conds of Some cond \<Rightarrow> sc_to cond | None \<Rightarrow> end_ids))"
  using assms
proof (induction conds arbitrary: k)
  case (Cons cond conds)
  let ?active = "filter (\<lambda>i. si_cpn_id i \<noteq> []) (sc_items cond)"
  have "\<exists>k'. switch_items holds cancel (sc_logical_operator cond) (Suc k) [] (sc_items cond) =
    Inr (if sc_logical_operator cond \<noteq> ''and'' \<and> list_ex h ?active then Taken else Fell ([] @ map h ?active), k')"
    using Cons.prems by (intro switch_items_result) auto
  then obtain k' where run: "switch_items holds cancel (sc_logical_operator cond) (Suc k) [] (sc_items cond) =
    Inr (if sc_logical_operator cond \<noteq> ''and'' \<and> list_ex h ?active then Taken else Fell (map h ?active), k')" by auto
  have "list_all id (map h ?active) = list_all h ?active" by (simp add: list_all_iff)
  moreover have "?active \<noteq> [] \<and> list_all h ?active \<Longrightarrow> list_ex h ?active" by (cases ?active) auto
  moreover have "switch_conds holds cancel end_ids k' conds =
    Inr (Some (case find (satisfied h) conds of Some cond \<Rightarrow> sc_to cond | None \<Rightarrow> end_ids))"
    by (rule Cons.IH) (use Cons.prems in auto)
  moreover have "satisfied h cond = (if sc_logical_operator cond = ''and'' then ?active \<noteq> [] \<and> list_all h ?active
      else list_ex h ?active)" by (simp add: satisfied_def Let_def)
  moreover have "\<not> cancel k" using Cons.prems(2) by simp
  ultimately show ?case
    using run by auto
qed simp

text \<open>Property C19. A switch whose conditions can be evaluated goes on with the components of its
  first satisfied condition and with the ELSE components when there is none; it always goes on
  with at least one. A condition without an item that names a variable is never satisfied.\<close>

theorem switch_takes_first_satisfied:
  assumes "switch_check p" "map_of (cv_components c) self = Some x" "\<forall>k. \<not> cancel k"
    and "\<And>cond i. cond \<in> set (sw_conditions p) \<Longrightarrow> i \<in> set (sc_items cond) \<Longrightarrow> si_cpn_id i \<noteq> [] \<Longrightarrow>
      item_holds L loads c i = Inr (h i)"
  shows "\<exists>c' y ids. switch_invoke L loads cancel nm p self c = (None, c') \<and>
    map_of (cv_components c') self = Some y \<and> cpn_output y ''_next'' = JList (map JStr ids) \<and> ids \<noteq> [] \<and>
    ids = (case find (satisfied h) (sw_conditions p) of Some cond \<Rightarrow> sc_to cond | None \<Rightarrow> sw_end_cpn_ids p)"
proof -
  let ?ids = "case find (satisfied h) (sw_conditions p) of Some cond \<Rightarrow> sc_to cond | None \<Rightarrow> sw_end_cpn_ids p"
  have "switch_conds (item_holds L loads c) cancel (sw_end_cpn_ids p) 1 (sw_conditions p) = Inr (Some ?ids)"
    by (rule switch_conds_result) (use assms in auto)
  moreover have "?ids \<noteq> []"
    using assms(1) by (auto simp: switch_check_def list_all_iff find_Some_iff split: option.splits)
  ultimately show ?thesis
    using assms(2,3) by (auto simp: switch_invoke_def set_outputs_def put_component_def update_conv' output_set_output)
qed

definition demo_switch :: SwitchParam where
  "demo_switch = \<lparr>sw_conditions =
     [\<lparr>sc_logical_operator = ''and'', sc_items = [], sc_to = [''a:0'']\<rparr>,
      \<lparr>sc_logical_operator = ''or'', sc_items =
        [\<lparr>si_cpn_id = ''sys.query'', si_operator = ''contains'', si_value = JStr ''Q''\<rparr>], sc_to = [''b:0'']\<rparr>],
     sw_end_cpn_ids = [''z:0'']\<rparr>"

theorem switch_takes_first_satisfied_witness:
  "\<exists>c' y. switch_invoke plain_lib (\<lambda>_. None) (\<lambda>_. False) (\<lambda>i. i) demo_switch ''c:0'' demo_canvas = (None, c') \<and>
    map_of (cv_components c') ''c:0'' = Some y \<and> cpn_output y ''_next'' = JList [JStr ''b:0'']"
proof -
  have x: "map_of (cv_components demo_canvas) ''c:0'' = Some demo_component" by (simp add: demo_canvas_def)
  have p: "parse_ref ''sys.query'' = GlobalVar ''sys.query''" by code_simp
  have l: "ascii_lower ''Q'' = ''q''" "ascii_lower ''q'' = ''q''" by code_simp+
  have "item_holds plain_lib (\<lambda>_. None) demo_canvas \<lparr>si_cpn_id = ''sys.query'', si_operator = ''contains'', si_value = JStr ''Q''\<rparr> = Inr True"
    by (simp add: item_holds_def p get_variable_value_def demo_canvas_def switch_operatee_def process_operator_def
        lower_texts_def plain_lib_def l)
  then have items: "\<And>cond i. cond \<in> set (sw_conditions demo_switch) \<Longrightarrow> i \<in> set (sc_items cond) \<Longrightarrow> si_cpn_id i \<noteq> [] \<Longrightarrow>
      item_holds plain_lib (\<lambda>_. None) demo_canvas i = Inr True"
    by (auto simp: demo_switch_def)
  have "switch_check demo_switch" by (simp add: switch_check_def demo_switch_def)
  from switch_takes_first_satisfied [where h = "\<lambda>_. True" and cancel = "\<lambda>_. False" and nm = "\<lambda>i. i", OF this x _ items]
  show ?thesis by (simp add: demo_switch_def satisfied_def)
qed

text \<open>A switch cannot ask whether a number is empty: the comparison value of these
  operators is the empty text, it is converted to a float because the variable is a number, and
  the conversion raises. The branch is then decided by no condition at all.\<close>

lemma switch_number_empty_raises:
  assumes "to_float L (JStr []) = None"
    and "get_variable_value loads c rf = Inr v" "num_val v \<noteq> None" "rf \<noteq> []"
    and "sw_conditions p = \<lparr>sc_logical_operator = logical,
      sc_items = [\<lparr>si_cpn_id = rf, si_operator = ''not empty'', si_value = JStr []\<rparr>], sc_to = ids\<rparr> # conds"
    and "\<forall>k. \<not> cancel k"
  shows "switch_invoke L loads cancel nm p self c = (Some OperandError, c)"
  using assms by (simp add: switch_invoke_def item_holds_def switch_operatee_def bindE_def)

lemma switch_number_empty_example:
  "switch_invoke plain_lib (\<lambda>_. None) (\<lambda>_. False) (\<lambda>i. i)
     \<lparr>sw_conditions = [\<lparr>sc_logical_operator = ''and'',
        sc_items = [\<lparr>si_cpn_id = ''env.n'', si_operator = ''not empty'', si_value = JStr []\<rparr>], sc_to = [''a:0'']\<rparr>],
      sw_end_cpn_ids = [''z:0'']\<rparr> ''c:0'' \<lparr>cv_globals = [(''env.n'', JInt 3)], cv_components = []\<rparr>
   = (Some OperandError, \<lparr>cv_globals = [(''env.n'', JInt 3)], cv_components = []\<rparr>)"
proof -
  have "parse_ref ''env.n'' = GlobalVar ''env.n''" by code_simp
  then have "get_variable_value (\<lambda>_. None) \<lparr>cv_globals = [(''env.n'', JInt 3)], cv_components = []\<rparr> ''env.n'' = Inr (JInt 3)"
    by (simp add: get_variable_value_def)
  from switch_number_empty_raises [OF _ this] show ?thesis by (simp add: plain_lib_def)
qed

end
