(* ===== verification/Agent_Assign.thy ===== *)
theory Agent_Assign
  imports Agent_Lists Canvas_Template
begin

text \<open>
  The components of a canvas that write and collect variables:
  \<open>src/agent/component/variable_assigner.py\<close> and \<open>src/agent/component/variable_aggregator.py\<close>.

  Values are trees: a list that two variables share in Python (after \<open>overwrite\<close>) is two lists here,
  so what \<open>append\<close> does to the other variable is outside the model.
\<close>

section \<open>VariableAssigner\<close>

fun same_type :: "json \<Rightarrow> json \<Rightarrow> bool" where
  \<comment> \<open>\<open>isinstance(v, type(w))\<close>: a bool is an int\<close>
  "same_type JNull JNull = True"
| "same_type (JBool _) (JBool _) = True"
| "same_type (JBool _) (JInt _) = True"
| "same_type (JInt _) (JInt _) = True"
| "same_type (JFloat _) (JFloat _) = True"
| "same_type (JStr _) (JStr _) = True"
| "same_type (JList _) (JList _) = True"
| "same_type (JDict _) (JDict _) = True"
| "same_type _ _ = False"

fun is_number :: "json \<Rightarrow> bool" where
  "is_number (JInt _) = True" | "is_number (JFloat _) = True" | "is_number _ = False"

definition variable_of :: "platform \<Rightarrow> canvas \<Rightarrow> json \<Rightarrow> cpn_error + json" where
  \<comment> \<open>\<open>get_variable_value\<close> of a parameter; an AttributeError when it is no text\<close>
  "variable_of P c v = (case v of
     JStr s \<Rightarrow> lift_var (get_variable_value (json_loads P) c s)
   | _ \<Rightarrow> Inl OperandError)"

definition template_of :: "platform \<Rightarrow> canvas \<Rightarrow> json \<Rightarrow> cpn_error + json" where
  "template_of P c v = (case v of
     JStr s \<Rightarrow> bindE (lift_var (get_value_with_variable P c s)) (\<lambda>w. Inr (JStr w))
   | _ \<Rightarrow> Inl OperandError)"

fun assign_clear :: "json \<Rightarrow> json" where
  "assign_clear (JList _) = JList []"
| "assign_clear (JStr _) = JStr []"
| "assign_clear (JDict _) = JDict []"
| "assign_clear (JBool _) = JBool False"
| "assign_clear (JInt _) = JInt 0"
| "assign_clear (JFloat _) = JFloat (Finite 0)"
| "assign_clear JNull = JNull"

definition assign_set :: "platform \<Rightarrow> canvas \<Rightarrow> json \<Rightarrow> json \<Rightarrow> cpn_error + json" where
  "assign_set P c v parameter =
     (if v = JNull \<or> is_str v then template_of P c parameter else Inr parameter)"

definition not_list :: json where "not_list = JStr ''ERROR:VARIABLE_NOT_LIST''"
definition not_element_type :: json where "not_element_type = JStr ''ERROR:PARAMETER_NOT_LIST_ELEMENT_TYPE''"
definition not_number :: json where "not_number = JStr ''ERROR:VARIABLE_NOT_NUMBER or PARAMETER_NOT_NUMBER''"

definition assign_append :: "json \<Rightarrow> json \<Rightarrow> json" where
  "assign_append v par =
     (case (if v = JNull then JList [] else v) of
        JList xs \<Rightarrow> if xs \<noteq> [] \<and> \<not> same_type par (hd xs) then not_element_type else JList (xs @ [par])
      | _ \<Rightarrow> not_list)"

definition assign_extend :: "json \<Rightarrow> json \<Rightarrow> json" where
  "assign_extend v par =
     (case (if v = JNull then JList [] else v) of
        JList xs \<Rightarrow>
          (case par of
             JList ys \<Rightarrow> if xs \<noteq> [] \<and> ys \<noteq> [] \<and> \<not> same_type (hd ys) (hd xs) then not_element_type else JList (xs @ ys)
           | _ \<Rightarrow> JStr ''ERROR:PARAMETER_NOT_LIST'')
      | _ \<Rightarrow> not_list)"

definition assign_remove_first :: "json \<Rightarrow> json" where
  "assign_remove_first v = (case v of JList xs \<Rightarrow> JList (tl xs) | _ \<Rightarrow> not_list)"

definition assign_remove_last :: "json \<Rightarrow> json" where
  "assign_remove_last v = (case v of JList xs \<Rightarrow> JList (butlast xs) | _ \<Rightarrow> not_list)"

definition arith :: "pylib \<Rightarrow> char \<Rightarrow> json \<Rightarrow> json \<Rightarrow> cpn_error + json" where
  "arith L f v par =
     (if \<not> (is_number v \<and> is_number par) then Inr not_number
      else if f = CHR ''/'' \<and> \<not> truthy par then Inr (JStr ''ERROR:DIVIDE_BY_ZERO'')
      else case (f = CHR ''/'', v, par) of
             (False, JInt m, JInt n) \<Rightarrow>
               Inr (JInt (if f = CHR ''+'' then m + n else if f = CHR ''-'' then m - n else m * n))
           | _ \<Rightarrow> (case float_op L f v par of None \<Rightarrow> Inl ArithmeticFailure | Some w \<Rightarrow> Inr w))"

definition operate :: "platform \<Rightarrow> pylib \<Rightarrow> canvas \<Rightarrow> json \<Rightarrow> string \<Rightarrow> json \<Rightarrow> cpn_error + json" where
  "operate P L c v operator parameter =
     (if operator = ''overwrite'' then variable_of P c parameter
      else if operator = ''clear'' then Inr (assign_clear v)
      else if operator = ''set'' then assign_set P c v parameter
      else if operator = ''append'' then bindE (variable_of P c parameter) (\<lambda>par. Inr (assign_append v par))
      else if operator = ''extend'' then bindE (variable_of P c parameter) (\<lambda>par. Inr (assign_extend v par))
      else if operator = ''remove_first'' then Inr (assign_remove_first v)
      else if operator = ''remove_last'' then Inr (assign_remove_last v)
      else if operator = ''+='' then arith L (CHR ''+'') v parameter
      else if operator = ''-='' then arith L (CHR ''-'') v parameter
      else if operator = ''*='' then arith L (CHR ''*'') v parameter
      else if operator = ''/='' then arith L (CHR ''/'') v parameter
      else Inr JNull)"

definition assign_item :: "platform \<Rightarrow> pylib \<Rightarrow> canvas \<Rightarrow> json \<Rightarrow> cpn_error + canvas" where
  "assign_item P L c item =
     (case item of
        JDict d \<Rightarrow>
          (case (dget d ''variable'', dget d ''operator'') of
             (JStr rf, JStr operator) \<Rightarrow>
               if rf = [] \<or> operator = [] then Inl VariableIncomplete
               else if operator \<notin> {''clear'', ''remove_first'', ''remove_last''} \<and> dget d ''parameter'' = JNull
               then Inl VariableIncomplete
               else bindE (variable_of P c (JStr rf)) (\<lambda>v.
                    bindE (operate P L c v operator (dget d ''parameter'')) (\<lambda>w.
                    lift_var (set_variable_value c rf w)))
           | _ \<Rightarrow> Inl VariableIncomplete)
      | _ \<Rightarrow> Inl VariableIncomplete)"

fun assign_items :: "platform \<Rightarrow> pylib \<Rightarrow> canvas \<Rightarrow> json list \<Rightarrow> cpn_error option \<times> canvas" where
  \<comment> \<open>the exception, if any, and the canvas it leaves: earlier assignments stay\<close>
  "assign_items P L c [] = (None, c)"
| "assign_items P L c (item # items) =
     (case assign_item P L c item of Inl e \<Rightarrow> (Some e, c) | Inr c' \<Rightarrow> assign_items P L c' items)"

definition assigner_invoke :: "platform \<Rightarrow> pylib \<Rightarrow> json \<Rightarrow> canvas \<Rightarrow> cpn_error option \<times> canvas" where
  "assigner_invoke P L variables c = (case variables of JList items \<Rightarrow> assign_items P L c items | _ \<Rightarrow> (None, c))"

section \<open>VariableAggregator\<close>

record aggregator_group =
  ag_group_name :: string
  ag_variables :: "string list" \<comment> \<open>the \<open>value\<close> of each selector\<close>

definition aggregator_check :: "aggregator_group list \<Rightarrow> bool" where
  "aggregator_check groups \<longleftrightarrow> groups \<noteq> [] \<and> list_all (\<lambda>g. ag_group_name g \<noteq> [] \<and> ag_variables g \<noteq> []) groups"

fun first_available :: "(string \<Rightarrow> json option) \<Rightarrow> canvas \<Rightarrow> string list \<Rightarrow> cpn_error + json option" where
  "first_available loads c [] = Inr None"
| "first_available loads c (rf # rfs) =
     (case get_variable_value loads c rf of
        Inl e \<Rightarrow> Inl (VariableFailure e)
      | Inr v \<Rightarrow> if truthy v then Inr (Some v) else first_available loads c rfs)"

fun aggregate :: "(string \<Rightarrow> json option) \<Rightarrow> string \<Rightarrow> canvas \<Rightarrow> aggregator_group list \<Rightarrow> cpn_error option \<times> canvas" where
  "aggregate loads self c [] = (None, c)"
| "aggregate loads self c (g # gs) =
     (case first_available loads c (ag_variables g) of
        Inl e \<Rightarrow> (Some e, c)
      | Inr None \<Rightarrow> aggregate loads self c gs
      | Inr (Some v) \<Rightarrow> aggregate loads self (set_outputs self [(ag_group_name g, v)] c) gs)"

section \<open>Assignments\<close>

lemma assign_items_snoc:
  "assign_items P L c (us @ [item]) = (None, c') \<longleftrightarrow>
     (\<exists>c1. assign_items P L c us = (None, c1) \<and> assign_item P L c1 item = Inr c')"
  by (induction us arbitrary: c) (auto split: sum.splits)

lemma assign_item_Inr:
  assumes "assign_item P L c item = Inr c'"
  obtains d rf operator v w where "item = JDict d" "dget d ''variable'' = JStr rf" "dget d ''operator'' = JStr operator"
    "get_variable_value (json_loads P) c rf = Inr v" "operate P L c v operator (dget d ''parameter'') = Inr w"
    "set_variable_value c rf w = Inr c'"
proof -
  from assms obtain d where d: "item = JDict d" by (cases item) (auto simp: assign_item_def)
  with assms obtain rf where rf: "dget d ''variable'' = JStr rf"
    by (cases "dget d ''variable''") (auto simp: assign_item_def)
  with assms d obtain operator where "dget d ''operator'' = JStr operator"
    by (cases "dget d ''operator''") (auto simp: assign_item_def)
  with assms d rf that show ?thesis
    by (auto simp: assign_item_def variable_of_def bindE_eq_Inr split: if_splits)
qed

lemma assign_items_keep:
  assumes "assign_items P L c items = (None, c')"
    and "\<And>d rf. JDict d \<in> set items \<Longrightarrow> dget d ''variable'' = JStr rf \<Longrightarrow> apart rf q"
  shows "get_variable_value loads c' q = get_variable_value loads c q"
  using assms
proof (induction items arbitrary: c)
  case (Cons item items)
  from Cons.prems(1) obtain c1 where one: "assign_item P L c item = Inr c1" and rest: "assign_items P L c1 items = (None, c')"
    by (auto split: sum.splits)
  obtain d rf w where "item = JDict d" "dget d ''variable'' = JStr rf" "set_variable_value c rf w = Inr c1"
    using assign_item_Inr [OF one] by metis
  moreover from this have "apart rf q" by (intro Cons.prems(2)) auto
  ultimately have "get_variable_value loads c1 q = get_variable_value loads c q"
    using vars.read_other by blast
  moreover have "get_variable_value loads c' q = get_variable_value loads c1 q"
    by (rule Cons.IH [OF rest]) (auto intro: Cons.prems(2))
  ultimately show ?case by simp
qed simp

text \<open>When an assigner ends without an error, the variable of its last assignment holds
  what its operator makes of the value the variable had after the assignments before, and every
  variable that is apart from all assigned ones is unchanged.\<close>

lemma assigner_effect:
  assumes "assigner_invoke P L (JList (us @ [JDict d])) c = (None, c')" "dget d ''variable'' = JStr rf" "writable rf"
    and "\<And>e r. JDict e \<in> set (us @ [JDict d]) \<Longrightarrow> dget e ''variable'' = JStr r \<Longrightarrow> apart r q"
  shows "(\<exists>c1 operator v w. assigner_invoke P L (JList us) c = (None, c1) \<and> dget d ''operator'' = JStr operator \<and>
      get_variable_value (json_loads P) c1 rf = Inr v \<and> operate P L c1 v operator (dget d ''parameter'') = Inr w \<and>
      get_variable_value (json_loads P) c' rf = Inr w) \<and>
    get_variable_value (json_loads P) c' q = get_variable_value (json_loads P) c q"
proof
  have run: "assign_items P L c (us @ [JDict d]) = (None, c')" using assms(1) by (simp add: assigner_invoke_def)
  then obtain c1 where c1: "assign_items P L c us = (None, c1)" "assign_item P L c1 (JDict d) = Inr c'"
    by (auto simp: assign_items_snoc)
  from assign_item_Inr [OF c1(2)] obtain operator v w where "dget d ''operator'' = JStr operator"
    "get_variable_value (json_loads P) c1 rf = Inr v" "operate P L c1 v operator (dget d ''parameter'') = Inr w"
    and set: "set_variable_value c1 rf w = Inr c'"
    using assms(2) by (metis json.inject(4,6))
  with c1 vars.read_back [OF set assms(3), of "json_loads P"]
  show "\<exists>c1 operator v w. assigner_invoke P L (JList us) c = (None, c1) \<and> dget d ''operator'' = JStr operator \<and>
      get_variable_value (json_loads P) c1 rf = Inr v \<and> operate P L c1 v operator (dget d ''parameter'') = Inr w \<and>
      get_variable_value (json_loads P) c' rf = Inr w" by (auto simp: assigner_invoke_def)
  show "get_variable_value (json_loads P) c' q = get_variable_value (json_loads P) c q"
    by (rule assign_items_keep [OF run assms(4)])
qed

definition counter_canvas :: canvas where
  "counter_canvas = \<lparr>cv_globals = [(''env.n'', JInt 3), (''env.xs'', JList [JInt 1])], cv_components = []\<rparr>"

lemma assigner_effect_example:
  "\<exists>c'. assigner_invoke demo_platform plain_lib (JList ([] @ [JDict [(''variable'', JStr ''env.n''), (''operator'', JStr ''+=''), (''parameter'', JInt 4)]]))
       counter_canvas = (None, c') \<and>
     get_variable_value (json_loads demo_platform) c' ''env.n'' = Inr (JInt 7) \<and>
     get_variable_value (json_loads demo_platform) c' ''env.xs'' = Inr (JList [JInt 1])"
proof -
  let ?d = "[(''variable'', JStr ''env.n''), (''operator'', JStr ''+=''), (''parameter'', JInt 4)]"
  have p: "parse_ref ''env.n'' = GlobalVar ''env.n''" "parse_ref ''env.xs'' = GlobalVar ''env.xs''" by code_simp+
  have d: "dget ?d ''variable'' = JStr ''env.n''" "dget ?d ''operator'' = JStr ''+=''" "dget ?d ''parameter'' = JInt 4"
    by (simp_all add: dget_def)
  have "\<exists>c'. assigner_invoke demo_platform plain_lib (JList ([] @ [JDict ?d])) counter_canvas = (None, c')"
    by (simp add: assigner_invoke_def assign_item_def d variable_of_def get_variable_value_def set_variable_value_def p
        counter_canvas_def operate_def arith_def)
  then obtain c' where c': "assigner_invoke demo_platform plain_lib (JList ([] @ [JDict ?d])) counter_canvas = (None, c')" ..
  have "writable ''env.n''" by (simp add: writable_def p)
  have far: "apart r ''env.xs''" if "JDict e \<in> set ([] @ [JDict ?d])" "dget e ''variable'' = JStr r" for e r
    using that d(1) by (auto simp: apart_def p)
  have n: "get_variable_value (json_loads demo_platform) counter_canvas ''env.n'' = Inr (JInt 3)"
    "get_variable_value (json_loads demo_platform) counter_canvas ''env.xs'' = Inr (JList [JInt 1])"
    by (simp_all add: get_variable_value_def p counter_canvas_def)
  from assigner_effect [OF c' d(1) \<open>writable ''env.n''\<close> far] n c' d(2,3) show ?thesis
    by (auto simp: assigner_invoke_def operate_def arith_def)
qed

fun json_kind :: "json \<Rightarrow> nat" where
  "json_kind JNull = 0" | "json_kind (JBool _) = 1" | "json_kind (JInt _) = 1" | "json_kind (JFloat _) = 2"
| "json_kind (JStr _) = 3" | "json_kind (JList _) = 4" | "json_kind (JDict _) = 5"

definition uniform :: "json list \<Rightarrow> bool" where
  "uniform xs = list_all (\<lambda>x. json_kind x = json_kind (hd xs)) xs"

lemma same_type_kind: "same_type v w \<Longrightarrow> json_kind v = json_kind w"
  by (cases "(v, w)" rule: same_type.cases) auto

lemma uniform_append:
  "uniform xs \<Longrightarrow> uniform ys \<Longrightarrow> (xs = [] \<or> ys = [] \<or> json_kind (hd ys) = json_kind (hd xs)) \<Longrightarrow> uniform (xs @ ys)"
  by (cases xs; cases ys) (auto simp: uniform_def list_all_iff)

lemma uniform_subset: "uniform xs \<Longrightarrow> set ys \<subseteq> set xs \<Longrightarrow> uniform ys"
  by (cases ys) (auto simp: uniform_def list_all_iff subset_iff)

lemma assign_append_list:
  "assign_append (JList xs) par = JList ys \<longleftrightarrow> (xs = [] \<or> same_type par (hd xs)) \<and> ys = xs @ [par]"
  by (auto simp: assign_append_def not_element_type_def)

lemma assign_extend_list:
  "assign_extend (JList xs) par = JList ys \<longleftrightarrow>
     (\<exists>zs. par = JList zs \<and> (xs = [] \<or> zs = [] \<or> same_type (hd zs) (hd xs)) \<and> ys = xs @ zs)"
  by (cases par) (auto simp: assign_extend_def not_element_type_def)

lemma set_ends: "set (tl xs) \<subseteq> set xs" "set (butlast xs) \<subseteq> set xs"
  by (cases xs) (auto dest: in_set_butlastD)

text \<open>What the list operators do to a uniform list (all elements of one type, a bool counting as an int):
  \<open>append\<close> keeps it uniform, and so does removing at either end. \<open>extend\<close> looks at the first element of the
  added list only, so the result is uniform exactly if the added list is.\<close>

lemma append_keeps_uniform:
  assumes "assign_append (JList xs) v = JList ys" "uniform xs"
  shows "uniform ys" "assign_remove_last (JList ys) = JList xs"
proof -
  have ys: "xs = [] \<or> same_type v (hd xs)" "ys = xs @ [v]" using assms(1) by (auto simp: assign_append_list)
  show "uniform ys"
    using uniform_append [of xs "[v]"] assms(2) ys same_type_kind by (auto simp: uniform_def [of "[v]"])
  show "assign_remove_last (JList ys) = JList xs" by (simp add: ys(2) assign_remove_last_def)
qed

lemma removal_keeps_uniform:
  "assign_remove_first (JList xs) = JList ys \<Longrightarrow> uniform xs \<Longrightarrow> uniform ys"
  "assign_remove_last (JList xs) = JList ys \<Longrightarrow> uniform xs \<Longrightarrow> uniform ys"
  using set_ends [of xs] uniform_subset [of xs] by (auto simp: assign_remove_first_def assign_remove_last_def)

lemma extend_uniform_iff:
  assumes "assign_extend (JList xs) (JList zs) = JList ys" "uniform xs"
  shows "uniform ys \<longleftrightarrow> uniform zs"
proof
  have ys: "xs = [] \<or> zs = [] \<or> same_type (hd zs) (hd xs)" "ys = xs @ zs"
    using assms(1) by (auto simp: assign_extend_list)
  show "uniform ys \<Longrightarrow> uniform zs" using uniform_subset [of ys zs] ys(2) by simp
  show "uniform zs \<Longrightarrow> uniform ys" using uniform_append [OF assms(2)] ys same_type_kind by blast
qed

lemma extend_mixes_types:
  "assign_extend (JList [JInt 1]) (JList [JInt 2, JStr ''x'']) = JList [JInt 1, JInt 2, JStr ''x'']"
  by (simp add: assign_extend_def)

text \<open>An aggregator hands out the first true value of each group, in the order of its selectors.\<close>

lemma first_available_find:
  assumes "\<And>rf. rf \<in> set rfs \<Longrightarrow> get_variable_value loads c rf = Inr (h rf)"
  shows "first_available loads c rfs = Inr (map_option h (find (\<lambda>rf. truthy (h rf)) rfs))"
  using assms by (induction rfs) auto

end
