(* ===== verification/Principal.thy ===== *)
theory Principal
  imports Json
begin

text \<open>
  The platform's principal: the identity every run and every delegated tool call carries
  (\<open>src/api/identity/principal.py\<close>, the records it reads from \<open>src/api/identity/contracts.py\<close>, and
  \<open>src/api/identity/run_context.py\<close>).

  A dataclass whose \<open>__post_init__\<close> may raise is a record together with a function from a candidate
  record to the error or the record itself. Which Unicode texts are printable (\<open>str.isprintable\<close>) is
  the argument \<open>printable\<close>.
\<close>

section \<open>Evidence\<close>

datatype AuthenticationSource = WEB_SESSION | SDK_API_TOKEN | ENTERPRISE_IDENTITY

datatype IdentityAssurance = AUTHENTICATED | DIRECTORY_VERIFIED | ENTERPRISE_VERIFIED

datatype PrincipalErrorCode =
    PE_INPUT_INVALID | PE_AUTHENTICATION_INVALID | PE_TENANT_REQUIRED | PE_MEMBERSHIP_INACTIVE
  | PE_IDENTITY_INACTIVE | PE_ASSURANCE_INVALID | PE_CONTEXT_MISSING | PE_CONTEXT_CONFLICT

definition valid_text :: "nat \<Rightarrow> string \<Rightarrow> bool" where
  "valid_text max_length v \<longleftrightarrow> \<not> blank v \<and> py_len v \<le> max_length"

definition valid_provider_text :: "(string \<Rightarrow> bool) \<Rightarrow> nat \<Rightarrow> string \<Rightarrow> bool" where
  "valid_provider_text printable max_length v \<longleftrightarrow>
     v \<noteq> [] \<and> py_len v \<le> max_length \<and> v = py_strip v \<and> printable v"

definition aware :: "datetime \<Rightarrow> bool" where
  "aware t \<longleftrightarrow> utcoffset t \<noteq> None"

definition same_time :: "datetime \<Rightarrow> datetime \<Rightarrow> bool" where
  \<comment> \<open>\<open>==\<close> on aware timestamps\<close>
  "same_time s t \<longleftrightarrow> instant s = instant t"

definition require_aware_time :: "datetime option \<Rightarrow> PrincipalErrorCode + datetime" where
  "require_aware_time v = (case v of
     Some t \<Rightarrow> if aware t then Inr t else Inl PE_ASSURANCE_INVALID | None \<Rightarrow> Inl PE_ASSURANCE_INVALID)"

definition opt_all :: "('a \<Rightarrow> bool) \<Rightarrow> 'a option \<Rightarrow> bool" where
  "opt_all p v = (case v of None \<Rightarrow> True | Some x \<Rightarrow> p x)"

definition opt_ex :: "('a \<Rightarrow> bool) \<Rightarrow> 'a option \<Rightarrow> bool" where
  "opt_ex p v = (case v of None \<Rightarrow> False | Some x \<Rightarrow> p x)"

lemma opt_simps [simp]:
  "opt_all p None" "opt_all p (Some x) \<longleftrightarrow> p x" "\<not> opt_ex p None" "opt_ex p (Some x) \<longleftrightarrow> p x"
  by (auto simp: opt_all_def opt_ex_def)

record AuthenticationContext =
  ac_source :: AuthenticationSource
  ac_assurance :: IdentityAssurance
  ac_validated_at :: datetime
  ac_authenticated_at :: "datetime option"
  ac_assurance_verified_at :: "datetime option"
  ac_provider :: "string option"
  ac_external_identity_id :: "string option"

definition AuthenticationContext_init :: "AuthenticationContext \<Rightarrow> PrincipalErrorCode + AuthenticationContext" where
  "AuthenticationContext_init a =
     (let evidence_ok = opt_all (\<lambda>t. aware t \<and> instant t \<le> instant (ac_validated_at a)) in
      if \<not> aware (ac_validated_at a) then Inl PE_AUTHENTICATION_INVALID
      else if \<not> evidence_ok (ac_authenticated_at a) \<or> \<not> evidence_ok (ac_assurance_verified_at a)
      then Inl PE_AUTHENTICATION_INVALID
      else if ac_source a \<in> {WEB_SESSION, SDK_API_TOKEN}
      then (if ac_assurance a \<noteq> AUTHENTICATED \<or> ac_provider a \<noteq> None \<or> ac_external_identity_id a \<noteq> None
               \<or> ac_assurance_verified_at a \<noteq> None
            then Inl PE_ASSURANCE_INVALID else Inr a)
      else if ac_assurance a \<notin> {DIRECTORY_VERIFIED, ENTERPRISE_VERIFIED}
              \<or> \<not> opt_ex (valid_text 64) (ac_provider a) \<or> \<not> opt_ex (valid_text 32) (ac_external_identity_id a)
              \<or> ac_assurance_verified_at a = None
      then Inl PE_ASSURANCE_INVALID else Inr a)"

record EnterpriseSubject =
  es_subject_type :: string
  es_subject :: string
  es_issuer :: string
  es_issuer_tenant :: string
  es_verified_at :: datetime

definition enterprise_subject_types :: "string set" where
  "enterprise_subject_types = {''employee_no'', ''talent_id'', ''workcode''}"

definition EnterpriseSubject_init :: "EnterpriseSubject \<Rightarrow> PrincipalErrorCode + EnterpriseSubject" where
  "EnterpriseSubject_init e =
     (if \<not> valid_text 64 (es_subject_type e) \<or> es_subject_type e \<notin> enterprise_subject_types
         \<or> \<not> valid_text 255 (es_subject e) \<or> \<not> valid_text 128 (es_issuer e)
         \<or> \<not> valid_text 255 (es_issuer_tenant e) \<or> \<not> aware (es_verified_at e)
      then Inl PE_INPUT_INVALID else Inr e)"

record AuthenticatedActor =
  aa_platform_user_id :: string
  aa_display_name :: string

definition AuthenticatedActor_init :: "AuthenticatedActor \<Rightarrow> PrincipalErrorCode + AuthenticatedActor" where
  "AuthenticatedActor_init a =
     (if \<not> valid_text 32 (aa_platform_user_id a) \<or> (aa_display_name a \<noteq> [] \<and> \<not> valid_text 512 (aa_display_name a))
      then Inl PE_INPUT_INVALID else Inr a)"

record TenantMembershipEvidence =
  tm_platform_user_id :: string
  tm_tenant_id :: string

definition TenantMembershipEvidence_init :: "TenantMembershipEvidence \<Rightarrow> PrincipalErrorCode + TenantMembershipEvidence" where
  "TenantMembershipEvidence_init m =
     (if \<not> valid_text 32 (tm_platform_user_id m) then Inl PE_INPUT_INVALID
      else if \<not> valid_text 32 (tm_tenant_id m) then Inl PE_TENANT_REQUIRED else Inr m)"

record VerifiedEnterpriseSubjectEvidence =
  ve_platform_user_id :: string
  ve_tenant_id :: string
  ve_enterprise_subject :: EnterpriseSubject

definition VerifiedEnterpriseSubjectEvidence_init ::
  "VerifiedEnterpriseSubjectEvidence \<Rightarrow> PrincipalErrorCode + VerifiedEnterpriseSubjectEvidence" where
  "VerifiedEnterpriseSubjectEvidence_init v =
     (if \<not> valid_text 32 (ve_platform_user_id v) \<or> \<not> valid_text 32 (ve_tenant_id v) then Inl PE_INPUT_INVALID else Inr v)"

record VerifiedProviderIdentity =
  vp_platform_user_id :: string
  vp_tenant_id :: string
  vp_provider :: string
  vp_provider_tenant :: string
  vp_provider_account_id :: string
  vp_subject_type :: string
  vp_subject :: string
  vp_verified_at :: datetime

definition VerifiedProviderIdentity_init ::
  "(string \<Rightarrow> bool) \<Rightarrow> VerifiedProviderIdentity \<Rightarrow> PrincipalErrorCode + VerifiedProviderIdentity" where
  "VerifiedProviderIdentity_init printable v =
     (let ok = valid_provider_text printable in
      if \<not> ok 32 (vp_platform_user_id v) \<or> \<not> ok 32 (vp_tenant_id v) \<or> \<not> ok 64 (vp_provider v)
         \<or> \<not> ok 255 (vp_provider_tenant v) \<or> \<not> ok 32 (vp_provider_account_id v) \<or> \<not> ok 64 (vp_subject_type v)
         \<or> \<not> ok 255 (vp_subject v) \<or> \<not> aware (vp_verified_at v)
      then Inl PE_INPUT_INVALID else Inr v)"

section \<open>Principal\<close>

record Principal =
  pp_platform_user_id :: string
  pp_tenant_id :: string
  pp_authentication :: AuthenticationContext
  pp_identity_revision :: "int option"
  pp_provider_identity :: "VerifiedProviderIdentity option"
  pp_enterprise_subject :: "EnterpriseSubject option"
  pp_display_name :: string

definition Principal_validate :: "Principal \<Rightarrow> PrincipalErrorCode + unit" where
  "Principal_validate p =
     bindE (AuthenticatedActor_init \<lparr>aa_platform_user_id = pp_platform_user_id p, aa_display_name = pp_display_name p\<rparr>) (\<lambda>_.
     bindE (guardE (valid_text 32 (pp_tenant_id p)) PE_TENANT_REQUIRED) (\<lambda>_.
     bindE (guardE (if ac_source (pp_authentication p) = ENTERPRISE_IDENTITY
                    then opt_ex (\<lambda>r. r > 0) (pp_identity_revision p)
                    else pp_identity_revision p = None) PE_ASSURANCE_INVALID) (\<lambda>_.
     bindE (guardE (opt_all (\<lambda>v. ac_source (pp_authentication p) = ENTERPRISE_IDENTITY
                \<and> vp_platform_user_id v = pp_platform_user_id p \<and> vp_tenant_id v = pp_tenant_id p
                \<and> ac_provider (pp_authentication p) = Some (vp_provider v)
                \<and> instant (vp_verified_at v) \<le> instant (ac_validated_at (pp_authentication p)))
              (pp_provider_identity p)) PE_CONTEXT_CONFLICT) (\<lambda>_.
     guardE (pp_enterprise_subject p \<noteq> None \<longleftrightarrow> ac_assurance (pp_authentication p) = ENTERPRISE_VERIFIED)
       PE_ASSURANCE_INVALID))))"

definition new_principal :: "Principal \<Rightarrow> PrincipalErrorCode + Principal" where
  "new_principal p = bindE (Principal_validate p) (\<lambda>_. Inr p)"

definition assemble_principal ::
  "AuthenticatedActor \<Rightarrow> TenantMembershipEvidence \<Rightarrow> AuthenticationContext \<Rightarrow> int option
     \<Rightarrow> VerifiedProviderIdentity option \<Rightarrow> VerifiedEnterpriseSubjectEvidence option \<Rightarrow> PrincipalErrorCode + Principal" where
  "assemble_principal actor membership authentication identity_revision provider_identity evidence =
     bindE (guardE (aa_platform_user_id actor = tm_platform_user_id membership) PE_CONTEXT_CONFLICT) (\<lambda>_.
     bindE (guardE (opt_all (\<lambda>v. vp_platform_user_id v = aa_platform_user_id actor
                \<and> vp_tenant_id v = tm_tenant_id membership \<and> ac_provider authentication = Some (vp_provider v))
              provider_identity) PE_CONTEXT_CONFLICT) (\<lambda>_.
     bindE (case evidence of
              Some e \<Rightarrow>
                if ve_platform_user_id e \<noteq> aa_platform_user_id actor \<or> ve_tenant_id e \<noteq> tm_tenant_id membership
                then Inl PE_CONTEXT_CONFLICT
                else if ac_assurance authentication \<noteq> ENTERPRISE_VERIFIED
                        \<or> \<not> opt_ex (\<lambda>t. same_time t (es_verified_at (ve_enterprise_subject e))) (ac_assurance_verified_at authentication)
                then Inl PE_ASSURANCE_INVALID
                else Inr (Some (ve_enterprise_subject e))
            | None \<Rightarrow> if ac_assurance authentication = ENTERPRISE_VERIFIED then Inl PE_ASSURANCE_INVALID else Inr None)
       (\<lambda>enterprise_subject.
     new_principal \<lparr>pp_platform_user_id = aa_platform_user_id actor, pp_tenant_id = tm_tenant_id membership,
       pp_authentication = authentication, pp_identity_revision = identity_revision,
       pp_provider_identity = provider_identity, pp_enterprise_subject = enterprise_subject,
       pp_display_name = aa_display_name actor\<rparr>)))"

definition build_principal_from_authenticated_actor ::
  "AuthenticatedActor \<Rightarrow> TenantMembershipEvidence \<Rightarrow> AuthenticationContext \<Rightarrow> PrincipalErrorCode + Principal" where
  "build_principal_from_authenticated_actor actor membership authentication =
     (if ac_source authentication \<notin> {WEB_SESSION, SDK_API_TOKEN} \<or> ac_assurance authentication \<noteq> AUTHENTICATED
      then Inl PE_AUTHENTICATION_INVALID
      else assemble_principal actor membership authentication None None None)"

section \<open>From a resolved identity\<close>

datatype IdentityResolutionStatus = RESOLVED | MISSING | INACTIVE | CONFLICT

record ExternalIdentityRecord =
  ei_id :: string
  ei_tenant_id :: string
  ei_user_id :: string
  ei_provider :: string
  ei_provider_tenant_key :: string
  ei_subject_type :: string
  ei_subject_value :: string
  ei_state :: string
  ei_verified_at :: "datetime option"
  ei_last_seen_at :: "datetime option"
  ei_identity_revision :: int
  ei_attributes :: "(string \<times> string option) list"

record UserMembershipRecord =
  um_user_id :: string
  um_tenant_id :: string
  um_role :: string

record IdentityResolutionResult =
  ir_status :: IdentityResolutionStatus
  ir_error_code :: "string option"
  ir_identity :: "ExternalIdentityRecord option"
  ir_membership :: "UserMembershipRecord option"
  ir_provisioning_action :: "string option"
  ir_provisioning_policy_revision :: "int option"
  ir_provider_verification_required :: bool

definition provider_identity_matches :: "ExternalIdentityRecord \<Rightarrow> datetime \<Rightarrow> VerifiedProviderIdentity \<Rightarrow> bool" where
  "provider_identity_matches i verified_at v \<longleftrightarrow>
     vp_platform_user_id v = ei_user_id i \<and> vp_tenant_id v = ei_tenant_id i \<and> vp_provider v = ei_provider i
     \<and> vp_provider_tenant v = ei_provider_tenant_key i \<and> vp_subject_type v = ei_subject_type i
     \<and> vp_subject v = ei_subject_value i \<and> same_time (vp_verified_at v) verified_at"

definition display_name_of :: "(string \<times> string option) list \<Rightarrow> string" where
  "display_name_of attributes =
     (case find (\<lambda>(k, v). k = ''display_name'' \<and> v \<noteq> None) attributes of Some (k, Some v) \<Rightarrow> v | _ \<Rightarrow> [])"

definition build_principal_from_resolved_identity ::
  "IdentityResolutionResult \<Rightarrow> AuthenticationContext \<Rightarrow> VerifiedEnterpriseSubjectEvidence option
     \<Rightarrow> VerifiedProviderIdentity option \<Rightarrow> PrincipalErrorCode + Principal" where
  "build_principal_from_resolved_identity r a evidence provider_identity =
     (if ir_status r \<noteq> RESOLVED then Inl PE_IDENTITY_INACTIVE
      else if ir_error_code r \<noteq> None \<or> ir_provisioning_action r \<noteq> None \<or> ir_provisioning_policy_revision r \<noteq> None
              \<or> ir_provider_verification_required r
      then Inl PE_CONTEXT_CONFLICT
      else case (ir_identity r, ir_membership r) of
        (Some i, Some m) \<Rightarrow>
          if ei_state i \<noteq> ''active'' then Inl PE_IDENTITY_INACTIVE
          else bindE (require_aware_time (ei_verified_at i)) (\<lambda>verified_at.
            if instant verified_at > instant (ac_validated_at a) then Inl PE_ASSURANCE_INVALID
            else if ei_user_id i \<noteq> um_user_id m \<or> ei_tenant_id i \<noteq> um_tenant_id m then Inl PE_CONTEXT_CONFLICT
            else if um_role m \<notin> {''owner'', ''admin'', ''normal''} then Inl PE_MEMBERSHIP_INACTIVE
            else if ac_source a \<noteq> ENTERPRISE_IDENTITY \<or> ac_provider a \<noteq> Some (ei_provider i)
                    \<or> ac_external_identity_id a \<noteq> Some (ei_id i)
            then Inl PE_AUTHENTICATION_INVALID
            else if ac_assurance a = DIRECTORY_VERIFIED
                    \<and> \<not> opt_ex (\<lambda>t. same_time t verified_at) (ac_assurance_verified_at a)
            then Inl PE_ASSURANCE_INVALID
            else if \<not> opt_all (provider_identity_matches i verified_at) provider_identity then Inl PE_CONTEXT_CONFLICT
            else
              bindE (AuthenticatedActor_init \<lparr>aa_platform_user_id = ei_user_id i, aa_display_name = display_name_of (ei_attributes i)\<rparr>) (\<lambda>actor.
              bindE (TenantMembershipEvidence_init \<lparr>tm_platform_user_id = um_user_id m, tm_tenant_id = um_tenant_id m\<rparr>) (\<lambda>membership.
              assemble_principal actor membership a (Some (ei_identity_revision i)) provider_identity evidence)))
      | _ \<Rightarrow> Inl PE_CONTEXT_MISSING)"

section \<open>Run context\<close>

record DraftExecutionTarget =
  dt_agent_id :: string
  dt_snapshot_digest :: string

datatype run_context_error = DraftInvalid | TargetsCombined | ContextInconsistent | TargetIncomplete | TargetInvalid

definition hex_char :: "char \<Rightarrow> bool" where
  "hex_char c \<longleftrightarrow> c \<in> set ''0123456789abcdef''"

definition DraftExecutionTarget_init :: "DraftExecutionTarget \<Rightarrow> run_context_error + DraftExecutionTarget" where
  "DraftExecutionTarget_init d =
     (if blank (dt_agent_id d) \<or> py_len (dt_snapshot_digest d) \<noteq> 64 \<or> \<not> list_all hex_char (dt_snapshot_digest d)
      then Inl DraftInvalid else Inr d)"

record RunContext =
  rc_tenant_id :: string
  rc_principal :: "Principal option"
  rc_agent_id :: "string option"
  rc_agent_revision_id :: "string option"
  rc_draft_target :: "DraftExecutionTarget option"
  rc_mcp_read_only :: bool

definition RunContext_init :: "RunContext \<Rightarrow> run_context_error + RunContext" where
  "RunContext_init c =
     (if rc_draft_target c \<noteq> None \<and> rc_agent_id c \<noteq> None then Inl TargetsCombined
      else if rc_tenant_id c = [] \<or> \<not> opt_all (\<lambda>p. pp_tenant_id p = rc_tenant_id c) (rc_principal c) then Inl ContextInconsistent
      else if (rc_agent_id c = None) \<noteq> (rc_agent_revision_id c = None) then Inl TargetIncomplete
      else if opt_ex blank (rc_agent_id c) \<or> (rc_agent_id c \<noteq> None \<and> \<not> opt_ex (\<lambda>r. \<not> blank r) (rc_agent_revision_id c))
      then Inl TargetInvalid else Inr c)"

section \<open>What a principal proves\<close>

lemma init_simps [result_simps]:
  "AuthenticatedActor_init a = Inr a' \<longleftrightarrow> a' = a \<and> valid_text 32 (aa_platform_user_id a)
     \<and> (aa_display_name a = [] \<or> valid_text 512 (aa_display_name a))"
  "TenantMembershipEvidence_init m = Inr m' \<longleftrightarrow> m' = m \<and> valid_text 32 (tm_platform_user_id m) \<and> valid_text 32 (tm_tenant_id m)"
  "require_aware_time v = Inr t \<longleftrightarrow> v = Some t \<and> aware t"
  "new_principal p = Inr p' \<longleftrightarrow> p' = p \<and> Principal_validate p = Inr ()"
  by (auto simp: AuthenticatedActor_init_def TenantMembershipEvidence_init_def require_aware_time_def new_principal_def
      bindE_eq_Inr split: option.splits)

text \<open>The consistency that \<open>_validate\<close> establishes.\<close>

definition principal_ok :: "Principal \<Rightarrow> bool" where
  "principal_ok p \<longleftrightarrow>
     valid_text 32 (pp_platform_user_id p) \<and> valid_text 32 (pp_tenant_id p) \<and>
     (ac_source (pp_authentication p) = ENTERPRISE_IDENTITY \<longleftrightarrow> pp_identity_revision p \<noteq> None) \<and>
     (pp_enterprise_subject p \<noteq> None \<longleftrightarrow> ac_assurance (pp_authentication p) = ENTERPRISE_VERIFIED) \<and>
     opt_all (\<lambda>v. ac_source (pp_authentication p) = ENTERPRISE_IDENTITY \<and> vp_platform_user_id v = pp_platform_user_id p \<and>
       vp_tenant_id v = pp_tenant_id p \<and> ac_provider (pp_authentication p) = Some (vp_provider v)) (pp_provider_identity p)"

lemma validated_principal_ok: "Principal_validate p = Inr () \<Longrightarrow> principal_ok p"
  by (cases "pp_provider_identity p"; cases "pp_identity_revision p")
    (auto simp: Principal_validate_def principal_ok_def bindE_eq_Inr result_simps split: if_splits)

lemma assembled_principal:
  assumes "assemble_principal actor membership a revision pid ev = Inr p"
  shows "principal_ok p" "pp_platform_user_id p = aa_platform_user_id actor" "pp_tenant_id p = tm_tenant_id membership"
    "aa_platform_user_id actor = tm_platform_user_id membership"
    "pp_authentication p = a" "pp_identity_revision p = revision" "pp_provider_identity p = pid"
    "pp_enterprise_subject p = map_option ve_enterprise_subject ev"
    "opt_all (\<lambda>e. ve_platform_user_id e = pp_platform_user_id p \<and> ve_tenant_id e = pp_tenant_id p) ev"
  using assms
  by (auto simp: assemble_principal_def bindE_eq_Inr result_simps dest!: validated_principal_ok split: option.splits if_splits)

lemma resolved_principal:
  assumes "build_principal_from_resolved_identity r a ev pid = Inr p"
  shows "\<exists>i m t. ir_status r = RESOLVED \<and> ir_identity r = Some i \<and> ir_membership r = Some m \<and>
    ei_state i = ''active'' \<and> um_role m \<in> {''owner'', ''admin'', ''normal''} \<and> ei_verified_at i = Some t \<and>
    pp_platform_user_id p = ei_user_id i \<and> ei_user_id i = um_user_id m \<and>
    pp_tenant_id p = ei_tenant_id i \<and> ei_tenant_id i = um_tenant_id m \<and>
    pp_authentication p = a \<and> pp_identity_revision p = Some (ei_identity_revision i) \<and> ac_external_identity_id a = Some (ei_id i) \<and> ac_provider a = Some (ei_provider i) \<and>
    opt_all (provider_identity_matches i t) (pp_provider_identity p) \<and>
    pp_enterprise_subject p = map_option ve_enterprise_subject ev \<and>
    opt_all (\<lambda>e. ve_platform_user_id e = pp_platform_user_id p \<and> ve_tenant_id e = pp_tenant_id p) ev \<and> principal_ok p"
proof -
  obtain i m where im: "ir_identity r = Some i" "ir_membership r = Some m" and resolved: "ir_status r = RESOLVED"
    using assms by (auto simp: build_principal_from_resolved_identity_def split: if_splits option.splits)
  let ?actor = "\<lparr>aa_platform_user_id = ei_user_id i, aa_display_name = display_name_of (ei_attributes i)\<rparr>"
  let ?membership = "\<lparr>tm_platform_user_id = um_user_id m, tm_tenant_id = um_tenant_id m\<rparr>"
  from im assms obtain t where t: "ei_verified_at i = Some t" "ei_state i = ''active''"
    "ei_user_id i = um_user_id m" "ei_tenant_id i = um_tenant_id m" "um_role m \<in> {''owner'', ''admin'', ''normal''}"
    "ac_provider a = Some (ei_provider i)" "ac_external_identity_id a = Some (ei_id i)"
    "opt_all (provider_identity_matches i t) pid"
    and built: "assemble_principal ?actor ?membership a (Some (ei_identity_revision i)) pid ev = Inr p"
    by (auto simp: build_principal_from_resolved_identity_def bindE_eq_Inr result_simps split: if_splits)
  show ?thesis
    using im t resolved assembled_principal [OF built] by auto
qed

text \<open>Property C23. A principal built from a resolved identity belongs to the user and the tenant of an
  active identity whose membership is live, keeps the authentication it was built with, which names
  that identity, carries a provider identity only if it is the one of that identity, and an
  enterprise subject only from evidence for the same user and tenant; it has an enterprise subject
  exactly when its assurance says so.\<close>

theorem resolved_principal_sound:
  assumes "build_principal_from_resolved_identity r a ev pid = Inr p"
  shows "\<exists>i m t. ir_status r = RESOLVED \<and> ir_identity r = Some i \<and> ir_membership r = Some m \<and>
    ei_state i = ''active'' \<and> um_role m \<in> {''owner'', ''admin'', ''normal''} \<and> ei_verified_at i = Some t \<and>
    pp_platform_user_id p = ei_user_id i \<and> ei_user_id i = um_user_id m \<and>
    pp_tenant_id p = ei_tenant_id i \<and> ei_tenant_id i = um_tenant_id m \<and>
    pp_authentication p = a \<and> ac_external_identity_id a = Some (ei_id i) \<and> ac_provider a = Some (ei_provider i) \<and>
    opt_all (provider_identity_matches i t) (pp_provider_identity p) \<and>
    pp_enterprise_subject p = map_option ve_enterprise_subject ev \<and>
    opt_all (\<lambda>e. ve_platform_user_id e = pp_platform_user_id p \<and> ve_tenant_id e = pp_tenant_id p) ev \<and> principal_ok p"
  using resolved_principal [OF assms] by blast

text \<open>A principal of a web session or an API token has no directory evidence at all.\<close>

lemma actor_principal_plain:
  assumes "build_principal_from_authenticated_actor actor membership a = Inr p"
  shows "principal_ok p \<and> pp_provider_identity p = None \<and> pp_enterprise_subject p = None \<and> pp_identity_revision p = None \<and>
    ac_assurance (pp_authentication p) = AUTHENTICATED \<and> pp_platform_user_id p = tm_platform_user_id membership"
  using assms assembled_principal [of actor membership a None None None p]
  by (auto simp: build_principal_from_authenticated_actor_def split: if_splits)

definition demo_time :: datetime where "demo_time = \<lparr>instant = 5, utcoffset = Some 0\<rparr>"

definition demo_authentication :: AuthenticationContext where
  "demo_authentication = \<lparr>ac_source = ENTERPRISE_IDENTITY, ac_assurance = DIRECTORY_VERIFIED, ac_validated_at = demo_time,
     ac_authenticated_at = None, ac_assurance_verified_at = Some demo_time, ac_provider = Some ''lark'', ac_external_identity_id = Some ''x1''\<rparr>"

definition demo_identity :: ExternalIdentityRecord where
  "demo_identity = \<lparr>ei_id = ''x1'', ei_tenant_id = ''t1'', ei_user_id = ''u1'', ei_provider = ''lark'', ei_provider_tenant_key = ''k'',
     ei_subject_type = ''open_id'', ei_subject_value = ''s'', ei_state = ''active'', ei_verified_at = Some demo_time, ei_last_seen_at = None,
     ei_identity_revision = 1, ei_attributes = []\<rparr>"

definition demo_resolution :: IdentityResolutionResult where
  "demo_resolution = \<lparr>ir_status = RESOLVED, ir_error_code = None, ir_identity = Some demo_identity,
     ir_membership = Some \<lparr>um_user_id = ''u1'', um_tenant_id = ''t1'', um_role = ''normal''\<rparr>,
     ir_provisioning_action = None, ir_provisioning_policy_revision = None, ir_provider_verification_required = False\<rparr>"

definition demo_principal :: Principal where
  "demo_principal = \<lparr>pp_platform_user_id = ''u1'', pp_tenant_id = ''t1'', pp_authentication = demo_authentication,
     pp_identity_revision = Some 1, pp_provider_identity = None, pp_enterprise_subject = None, pp_display_name = []\<rparr>"

lemma demo_principal_built: "build_principal_from_resolved_identity demo_resolution demo_authentication None None = Inr demo_principal"
  by code_simp

theorem resolved_principal_sound_witness:
  "\<exists>i m. ir_identity demo_resolution = Some i \<and> ir_membership demo_resolution = Some m \<and> ei_state i = ''active'' \<and> principal_ok demo_principal"
  using resolved_principal_sound [OF demo_principal_built] by blast


end
