(* ===== verification/Url.thy ===== *)
theory Url
  imports Base64
begin

text \<open>
  Python's \<open>urllib.parse.urlsplit\<close> on ASCII text, as far as the identity code reads its result, and the
  two checks of an https URI built on it (\<open>_canonical_https_uri\<close> of
  \<open>src/api/identity/mcp_issuer/contracts.py\<close> and \<open>src/api/identity/mcp_delegation/policy.py\<close>).

  The validation of a host in square brackets as an IP literal is the argument \<open>bracket_ok\<close>; it gets
  the whole network location.
\<close>

record url =
  url_scheme :: string
  url_netloc :: string
  url_path :: string
  url_query :: string
  url_fragment :: string

definition part_before :: "char \<Rightarrow> string \<Rightarrow> string" where
  "part_before c s = takeWhile (\<lambda>x. x \<noteq> c) s"

definition part_after :: "char \<Rightarrow> string \<Rightarrow> string" where
  \<comment> \<open>the text after the first \<open>c\<close>, empty when there is none\<close>
  "part_after c s = drop 1 (dropWhile (\<lambda>x. x \<noteq> c) s)"

definition after_last :: "char \<Rightarrow> string \<Rightarrow> string" where
  \<comment> \<open>\<open>s.rpartition(c)[2]\<close>\<close>
  "after_last c s = rev (takeWhile (\<lambda>x. x \<noteq> c) (rev s))"

definition ascii_alpha :: "char \<Rightarrow> bool" where
  "ascii_alpha c \<longleftrightarrow> (let n = (of_char c :: nat) in (65 \<le> n \<and> n \<le> 90) \<or> (97 \<le> n \<and> n \<le> 122))"

definition ascii_digit :: "char \<Rightarrow> bool" where
  "ascii_digit c \<longleftrightarrow> (let n = (of_char c :: nat) in 48 \<le> n \<and> n \<le> 57)"

definition scheme_char :: "char \<Rightarrow> bool" where
  "scheme_char c \<longleftrightarrow> ascii_alpha c \<or> ascii_digit c \<or> c \<in> set ''+-.''"

definition urlsplit :: "(string \<Rightarrow> bool) \<Rightarrow> string \<Rightarrow> url option" where
  \<comment> \<open>\<open>None\<close> is a ValueError\<close>
  "urlsplit bracket_ok raw =
     (let url = filter (\<lambda>c. c \<notin> {CHR 0x09, CHR 0x0A, CHR 0x0D}) (dropWhile (\<lambda>c. (of_char c :: nat) \<le> 32) raw);
          head = part_before (CHR '':'') url;
          has_scheme = (CHR '':'' \<in> set url \<and> head \<noteq> [] \<and> ascii_alpha (hd head) \<and> list_all scheme_char head);
          scheme = (if has_scheme then ascii_lower head else []);
          rest = (if has_scheme then part_after (CHR '':'') url else url);
          has_netloc = prefix ''//'' rest;
          netloc = (if has_netloc then takeWhile (\<lambda>c. c \<notin> set ''/?#'') (drop 2 rest) else []);
          rest2 = (if has_netloc then dropWhile (\<lambda>c. c \<notin> set ''/?#'') (drop 2 rest) else rest);
          opens = CHR ''['' \<in> set netloc;
          closes = CHR '']'' \<in> set netloc in
      if opens \<noteq> closes \<or> (opens \<and> \<not> bracket_ok netloc) then None
      else Some \<lparr>url_scheme = scheme, url_netloc = netloc,
             url_path = part_before (CHR ''?'') (part_before (CHR ''#'') rest2),
             url_query = part_after (CHR ''?'') (part_before (CHR ''#'') rest2),
             url_fragment = part_after (CHR ''#'') rest2\<rparr>)"

definition has_userinfo :: "url \<Rightarrow> bool" where
  \<comment> \<open>\<open>username\<close> is not \<open>None\<close>\<close>
  "has_userinfo u \<longleftrightarrow> CHR ''@'' \<in> set (url_netloc u)"

definition url_hostname :: "url \<Rightarrow> string" where
  \<comment> \<open>the empty text stands for \<open>None\<close>\<close>
  "url_hostname u =
     (let hostinfo = after_last (CHR ''@'') (url_netloc u) in
      if CHR ''['' \<in> set hostinfo then part_before (CHR '']'') (part_after (CHR ''['') hostinfo)
      else part_before (CHR '':'') hostinfo)"

definition url_port_text :: "url \<Rightarrow> string option" where
  "url_port_text u =
     (let hostinfo = after_last (CHR ''@'') (url_netloc u);
          tail = (if CHR ''['' \<in> set hostinfo then part_after (CHR '']'') (part_after (CHR ''['') hostinfo) else hostinfo) in
      if part_after (CHR '':'') tail \<noteq> [] then Some (part_after (CHR '':'') tail) else None)"

fun decimal :: "nat \<Rightarrow> string \<Rightarrow> nat" where
  "decimal acc [] = acc"
| "decimal acc (c # s) = decimal (10 * acc + (of_char c - 48)) s"

definition url_port_ok :: "url \<Rightarrow> bool" where
  \<comment> \<open>reading \<open>port\<close> does not raise\<close>
  "url_port_ok u =
     (case url_port_text u of
        None \<Rightarrow> True
      | Some p \<Rightarrow> list_all ascii_digit p \<and> decimal 0 p \<le> 65535)"

definition is_https_uri :: "(string \<Rightarrow> bool) \<Rightarrow> string \<Rightarrow> bool option" where
  \<comment> \<open>the checks common to both functions; \<open>None\<close>: \<open>urlsplit\<close> raises\<close>
  "is_https_uri bracket_ok v =
     map_option (\<lambda>u. url_scheme u = ''https'' \<and> url_netloc u \<noteq> [] \<and> url_hostname u \<noteq> []
         \<and> \<not> has_userinfo u \<and> url_query u = [] \<and> url_fragment u = [] \<and> url_port_ok u)
       (urlsplit bracket_ok v)"

lemma takeWhile_no: "c \<notin> set (takeWhile (\<lambda>x. x \<noteq> c) s)"
  by (induction s) auto

text \<open>An accepted URI names a host and hides no credentials in front of it: what follows the scheme
  and the slashes up to the path is the host and a port.\<close>

lemma https_uri_plain_host:
  assumes "urlsplit bracket_ok v = Some u" "is_https_uri bracket_ok v = Some True"
  shows "CHR ''@'' \<notin> set (url_netloc u) \<and> url_hostname u \<noteq> [] \<and> after_last (CHR ''@'') (url_netloc u) = url_netloc u"
proof -
  have "CHR ''@'' \<notin> set (url_netloc u)" "url_hostname u \<noteq> []" using assms by (auto simp: is_https_uri_def has_userinfo_def)
  moreover from this have "takeWhile (\<lambda>x. x \<noteq> CHR ''@'') (rev (url_netloc u)) = rev (url_netloc u)"
    by (auto simp: takeWhile_eq_all_conv)
  ultimately show ?thesis by (simp only: after_last_def rev_rev_ident simp_thms)
qed

lemma https_examples:
  "is_https_uri (\<lambda>_. True) ''https://h:8/t'' = Some True"
  "is_https_uri (\<lambda>_. True) ''https://u@h/'' = Some False"
  by (simp_all add: is_https_uri_def urlsplit_def part_before_def part_after_def after_last_def ascii_alpha_def ascii_digit_def
      scheme_char_def ascii_lower_def has_userinfo_def url_hostname_def url_port_text_def url_port_ok_def Let_def)

end
