(* ===== verification/Mcp_Issuer.thy ===== *)
theory Mcp_Issuer
  imports Principal Url
begin

text \<open>
  The issuer of the access tokens for delegated tool calls (\<open>src/api/identity/mcp_issuer\<close>):
  contracts and the order of refusals (\<open>contracts.py\<close>), the token itself (\<open>service.py\<close>), and the
  rotation of the signing keys (\<open>keys.py\<close>).

  The ES256 operation of the key provider is an argument; it may fail. A frozenset of texts is a
  finite set. Times in claims are whole seconds.
\<close>

section \<open>Contracts\<close>

definition MAX_TOKEN_BYTES :: nat where "MAX_TOKEN_BYTES = 4096"
definition MAX_TOKEN_TTL_SECONDS :: int where "MAX_TOKEN_TTL_SECONDS = 300"
definition ENTERPRISE_ACR :: string where "ENTERPRISE_ACR = ''urn:multirag:assurance:enterprise-verified''"

datatype IssuanceErrorCode =
    SUBJECT_NOT_PLATFORM_PRINCIPAL | REQUESTED_SCOPE_NOT_REGISTERED | REQUESTED_SCOPE_NOT_GRANTED
  | REQUESTED_CLAIM_NOT_ALLOWED | TENANT_NOT_SERVER_BOUND | ASSURANCE_NOT_VERIFIED | RESOURCE_NOT_REGISTERED
  | REQUEST_INVALID | AUTH_TIME_INVALID | JTI_INVALID | TOKEN_TOO_LARGE | SIGNING_FAILED

definition graphic :: "char \<Rightarrow> bool" where
  "graphic c \<longleftrightarrow> 33 \<le> (of_char c :: nat) \<and> (of_char c :: nat) \<le> 126"

definition nonempty_text :: "nat \<Rightarrow> string \<Rightarrow> bool" where
  "nonempty_text max_length v \<longleftrightarrow> 1 \<le> length v \<and> length v \<le> max_length \<and> list_all graphic v"

definition scope_set :: "bool \<Rightarrow> string set \<Rightarrow> bool" where
  "scope_set allow_empty v \<longleftrightarrow> (v \<noteq> {} \<or> allow_empty) \<and>
     (\<forall>x \<in> v. nonempty_text 128 x \<and> CHR '' '' \<notin> set x \<and> CHR 0x22 \<notin> set x \<and> CHR 0x5C \<notin> set x)"

definition canonical_https_uri :: "(string \<Rightarrow> bool) \<Rightarrow> string \<Rightarrow> bool" where
  \<comment> \<open>a ValueError of \<open>urlsplit\<close> is the ValueError of the profile that is being checked\<close>
  "canonical_https_uri bracket_ok v \<longleftrightarrow>
     v \<noteq> [] \<and> v = py_strip v \<and> is_ascii v \<and> length v \<le> 4096 \<and> is_https_uri bracket_ok v = Some True"

record EnterpriseSubjectRequirement =
  er_subject_type :: string
  er_issuer :: string
  er_issuer_tenant :: string

definition EnterpriseSubjectRequirement_valid :: "EnterpriseSubjectRequirement \<Rightarrow> bool" where
  "EnterpriseSubjectRequirement_valid r \<longleftrightarrow> er_subject_type r \<in> enterprise_subject_types
     \<and> valid_text 255 (er_issuer r) \<and> valid_text 255 (er_issuer_tenant r)"

record McpResourceProfile =
  rp_name :: string
  rp_audience :: string
  rp_registered_scopes :: "string set"
  rp_allow_provider_identity :: bool
  rp_enterprise_subject_requirement :: "EnterpriseSubjectRequirement option"

definition McpResourceProfile_valid :: "(string \<Rightarrow> bool) \<Rightarrow> McpResourceProfile \<Rightarrow> bool" where
  "McpResourceProfile_valid bracket_ok r \<longleftrightarrow>
     nonempty_text 64 (rp_name r) \<and> canonical_https_uri bracket_ok (rp_audience r) \<and> scope_set False (rp_registered_scopes r)"

definition allowed_requested_claims :: "McpResourceProfile \<Rightarrow> string set" where
  "allowed_requested_claims r =
     (if rp_allow_provider_identity r then {''provider_identity''} else {})
     \<union> (if rp_enterprise_subject_requirement r \<noteq> None then {''enterprise_subject''} else {})"

record McpIssuerProfile =
  ip_issuer :: string
  ip_client_id :: string
  ip_ttl_seconds :: int
  ip_jwks_cache_ttl_seconds :: int
  ip_resources :: "McpResourceProfile list"

definition McpIssuerProfile_valid :: "(string \<Rightarrow> bool) \<Rightarrow> McpIssuerProfile \<Rightarrow> bool" where
  "McpIssuerProfile_valid bracket_ok p \<longleftrightarrow>
     canonical_https_uri bracket_ok (ip_issuer p) \<and> nonempty_text 128 (ip_client_id p)
     \<and> 1 \<le> ip_ttl_seconds p \<and> ip_ttl_seconds p \<le> MAX_TOKEN_TTL_SECONDS \<and> 0 < ip_jwks_cache_ttl_seconds p
     \<and> ip_resources p \<noteq> [] \<and> list_all (McpResourceProfile_valid bracket_ok) (ip_resources p)
     \<and> distinct (map rp_name (ip_resources p)) \<and> distinct (map rp_audience (ip_resources p))"

definition profile_resource :: "McpIssuerProfile \<Rightarrow> string \<Rightarrow> McpResourceProfile option" where
  "profile_resource p name = find (\<lambda>r. rp_name r = name) (ip_resources p)"

record McpAccessTokenRequest =
  tr_principal :: Principal
  tr_agent_id :: string
  tr_resource_name :: string
  tr_requested_scopes :: "string set"
  tr_requested_claims :: "string set"

definition McpAccessTokenRequest_init :: "McpAccessTokenRequest \<Rightarrow> IssuanceErrorCode + McpAccessTokenRequest" where
  "McpAccessTokenRequest_init q =
     (if \<not> nonempty_text 128 (tr_agent_id q) \<or> \<not> nonempty_text 64 (tr_resource_name q)
         \<or> \<not> scope_set False (tr_requested_scopes q) \<or> (\<exists>claim \<in> tr_requested_claims q. \<not> nonempty_text 64 claim)
      then Inl REQUEST_INVALID else Inr q)"

definition McpAccessGrant_init :: "string set \<Rightarrow> IssuanceErrorCode + string set" where
  "McpAccessGrant_init allowed_scopes = (if scope_set True allowed_scopes then Inr allowed_scopes else Inl REQUEST_INVALID)"

record IssuancePolicyFacts =
  pf_subject_is_platform_principal :: bool
  pf_tenant_is_server_bound :: bool
  pf_registered_scopes :: "string set"
  pf_allowed_scopes :: "string set"
  pf_requested_scopes :: "string set"
  pf_requested_claims :: "string set"
  pf_requires_assurance :: bool
  pf_assurance_verified :: bool
  pf_allowed_requested_claims :: "string set"

definition evaluate_issuance_policy :: "IssuancePolicyFacts \<Rightarrow> IssuanceErrorCode option" where
  \<comment> \<open>\<open>None\<close>: allowed\<close>
  "evaluate_issuance_policy f =
     (if \<not> pf_subject_is_platform_principal f then Some SUBJECT_NOT_PLATFORM_PRINCIPAL
      else if \<not> pf_requested_scopes f \<subseteq> pf_registered_scopes f then Some REQUESTED_SCOPE_NOT_REGISTERED
      else if \<not> pf_requested_scopes f \<subseteq> pf_allowed_scopes f then Some REQUESTED_SCOPE_NOT_GRANTED
      else if \<not> pf_requested_claims f \<subseteq> pf_allowed_requested_claims f then Some REQUESTED_CLAIM_NOT_ALLOWED
      else if \<not> pf_tenant_is_server_bound f then Some TENANT_NOT_SERVER_BOUND
      else if pf_requires_assurance f \<and> \<not> pf_assurance_verified f then Some ASSURANCE_NOT_VERIFIED
      else None)"

section \<open>The token\<close>

definition b64url :: "string \<Rightarrow> string" where
  "b64url s = rstrip_pad (b64encode s)"

definition whole_seconds :: "int \<Rightarrow> int" where
  \<comment> \<open>\<open>int(t.timestamp())\<close> truncates towards zero\<close>
  "whole_seconds t = (if 0 \<le> t then t div 1000000 else - ((- t) div 1000000))"

definition valid_jti :: "string \<Rightarrow> bool" where
  "valid_jti v \<longleftrightarrow> v = py_strip v \<and> is_ascii v \<and> 16 \<le> length v \<and> length v \<le> 128
     \<and> \<not> list_ex (\<lambda>c. [of_char c] \<in> set ws_codes) v"

record signer =
  sg_active_kid :: string
  sg_sign :: "string \<Rightarrow> string option" \<comment> \<open>\<open>None\<close>: SigningKeyError\<close>

record IssuedMcpAccessToken =
  it_compact :: string
  it_expires_at :: int \<comment> \<open>seconds\<close>
  it_scopes :: "string set"
  it_kid :: string

definition issuance_facts :: "McpResourceProfile \<Rightarrow> McpAccessTokenRequest \<Rightarrow> string set \<Rightarrow> IssuancePolicyFacts" where
  "issuance_facts r q allowed_scopes =
     (let p = tr_principal q;
          enterprise_ok = (ac_assurance (pp_authentication p) = ENTERPRISE_VERIFIED \<and> pp_enterprise_subject p \<noteq> None);
          provider_ok = (ac_assurance (pp_authentication p) \<in> {DIRECTORY_VERIFIED, ENTERPRISE_VERIFIED} \<and> pp_provider_identity p \<noteq> None) in
      \<lparr>pf_subject_is_platform_principal = True, pf_tenant_is_server_bound = True,
       pf_registered_scopes = rp_registered_scopes r, pf_allowed_scopes = allowed_scopes,
       pf_requested_scopes = tr_requested_scopes q, pf_requested_claims = tr_requested_claims q,
       pf_requires_assurance = (tr_requested_claims q \<noteq> {}),
       pf_assurance_verified = ((''enterprise_subject'' \<in> tr_requested_claims q \<longrightarrow> enterprise_ok)
          \<and> (''provider_identity'' \<in> tr_requested_claims q \<longrightarrow> provider_ok)),
       pf_allowed_requested_claims = allowed_requested_claims r\<rparr>)"

definition base_claims :: "McpIssuerProfile \<Rightarrow> McpResourceProfile \<Rightarrow> McpAccessTokenRequest \<Rightarrow> int \<Rightarrow> string \<Rightarrow> pydict" where
  "base_claims P r q iat jti =
     [(''agent_id'', JStr (tr_agent_id q)), (''aud'', JStr (rp_audience r)), (''client_id'', JStr (ip_client_id P)),
      (''exp'', JInt (iat + ip_ttl_seconds P)), (''iat'', JInt iat), (''iss'', JStr (ip_issuer P)), (''jti'', JStr jti),
      (''nbf'', JInt iat), (''scope'', JStr (join '' '' (sorted_list_of_set (tr_requested_scopes q)))),
      (''sub'', JStr (pp_platform_user_id (tr_principal q))), (''tenant_id'', JStr (pp_tenant_id (tr_principal q))),
      (''token_use'', JStr ''mcp_access'')]"

definition auth_time_claim :: "Principal \<Rightarrow> int \<Rightarrow> IssuanceErrorCode + pydict" where
  "auth_time_claim p iat =
     (case ac_authenticated_at (pp_authentication p) of
        None \<Rightarrow> Inr []
      | Some t \<Rightarrow> if whole_seconds (instant t) > iat then Inl AUTH_TIME_INVALID
                  else Inr [(''auth_time'', JInt (whole_seconds (instant t)))])"

definition subject_meets :: "EnterpriseSubject \<Rightarrow> EnterpriseSubjectRequirement \<Rightarrow> bool" where
  "subject_meets s r \<longleftrightarrow> es_subject_type s = er_subject_type r \<and> es_issuer s = er_issuer r \<and> es_issuer_tenant s = er_issuer_tenant r"

definition enterprise_claim :: "McpResourceProfile \<Rightarrow> McpAccessTokenRequest \<Rightarrow> IssuanceErrorCode + pydict" where
  "enterprise_claim r q =
     (if ''enterprise_subject'' \<notin> tr_requested_claims q then Inr []
      else case (pp_enterprise_subject (tr_principal q), rp_enterprise_subject_requirement r) of
        (Some s, Some req) \<Rightarrow>
          if subject_meets s req
          then Inr [(''enterprise_subject'', JDict [(''issuer'', JStr (es_issuer s)), (''subject'', JStr (es_subject s)),
                 (''tenant'', JStr (es_issuer_tenant s)), (''type'', JStr (es_subject_type s))])]
          else Inl ASSURANCE_NOT_VERIFIED
      | _ \<Rightarrow> Inl ASSURANCE_NOT_VERIFIED)"

definition provider_claim :: "McpResourceProfile \<Rightarrow> McpAccessTokenRequest \<Rightarrow> IssuanceErrorCode + pydict" where
  "provider_claim r q =
     (if ''provider_identity'' \<notin> tr_requested_claims q then Inr []
      else case pp_provider_identity (tr_principal q) of
        Some v \<Rightarrow>
          if rp_allow_provider_identity r
          then Inr [(''provider_identity'', JDict [(''provider'', JStr (vp_provider v)), (''provider_tenant'', JStr (vp_provider_tenant v)),
                 (''subject'', JStr (vp_subject v)), (''subject_type'', JStr (vp_subject_type v))])]
          else Inl ASSURANCE_NOT_VERIFIED
      | None \<Rightarrow> Inl ASSURANCE_NOT_VERIFIED)"

definition token_claims ::
  "McpIssuerProfile \<Rightarrow> McpResourceProfile \<Rightarrow> McpAccessTokenRequest \<Rightarrow> int \<Rightarrow> string \<Rightarrow> IssuanceErrorCode + pydict" where
  "token_claims P r q iat jti =
     bindE (auth_time_claim (tr_principal q) iat) (\<lambda>auth_time.
     bindE (enterprise_claim r q) (\<lambda>enterprise.
     bindE (provider_claim r q) (\<lambda>provider.
     Inr (base_claims P r q iat jti @ auth_time
       @ (if ac_assurance (pp_authentication (tr_principal q)) = ENTERPRISE_VERIFIED then [(''acr'', JStr ENTERPRISE_ACR)] else [])
       @ enterprise @ provider))))"

definition sign_token :: "(rat \<Rightarrow> string) \<Rightarrow> signer \<Rightarrow> pydict \<Rightarrow> IssuanceErrorCode + string" where
  "sign_token fr S claims =
     (let header = JDict [(''alg'', JStr ''ES256''), (''kid'', JStr (sg_active_kid S)), (''typ'', JStr ''at+jwt'')];
          signing_input = b64url (print_json fr header) @ ''.'' @ b64url (print_json fr (JDict claims)) in
      case sg_sign S signing_input of
        None \<Rightarrow> Inl SIGNING_FAILED
      | Some signature \<Rightarrow>
          if length signature \<noteq> 64 then Inl SIGNING_FAILED
          else let compact = signing_input @ ''.'' @ b64url signature in
            if length compact > MAX_TOKEN_BYTES then Inl TOKEN_TOO_LARGE else Inr compact)"

definition issue ::
  "(rat \<Rightarrow> string) \<Rightarrow> McpIssuerProfile \<Rightarrow> signer \<Rightarrow> datetime \<Rightarrow> string \<Rightarrow> McpAccessTokenRequest \<Rightarrow> string set
     \<Rightarrow> IssuanceErrorCode + IssuedMcpAccessToken" where
  \<comment> \<open>\<open>now\<close> and \<open>jti\<close> are what the clock and the factory return\<close>
  "issue fr P S now jti q allowed_scopes =
     (case profile_resource P (tr_resource_name q) of
        None \<Rightarrow> Inl RESOURCE_NOT_REGISTERED
      | Some r \<Rightarrow>
          (case evaluate_issuance_policy (issuance_facts r q allowed_scopes) of
             Some code \<Rightarrow> Inl code
           | None \<Rightarrow>
               if \<not> aware now then Inl REQUEST_INVALID
               else if \<not> valid_jti jti then Inl JTI_INVALID
               else let iat = whole_seconds (instant now) in
                 bindE (token_claims P r q iat jti) (\<lambda>claims.
                 bindE (sign_token fr S claims) (\<lambda>compact.
                 Inr \<lparr>it_compact = compact, it_expires_at = iat + ip_ttl_seconds P,
                      it_scopes = tr_requested_scopes q, it_kid = sg_active_kid S\<rparr>))))"

definition resource_audience :: "McpIssuerProfile \<Rightarrow> string \<Rightarrow> string option" where
  "resource_audience P name = map_option rp_audience (profile_resource P name)"

section \<open>Rotation of the signing keys\<close>

record SigningKeySnapshot =
  ks_active_kid :: string
  ks_key_ids :: "string list"

definition SigningKeySnapshot_valid :: "SigningKeySnapshot \<Rightarrow> bool" where
  "SigningKeySnapshot_valid s \<longleftrightarrow> ks_key_ids s \<noteq> [] \<and> length (ks_key_ids s) \<le> 32 \<and> distinct (ks_key_ids s)
     \<and> ks_active_kid s \<in> set (ks_key_ids s)"

datatype SigningKeyErrorCode = ROTATION_TIME_INVALID | NEXT_KEY_NOT_PREPUBLISHED | ACTIVE_KEY_NOT_RETAINED | RETIRED_KEY_REMOVED_EARLY

record rotation_guard =
  rg_snapshot :: SigningKeySnapshot
  rg_retention :: int \<comment> \<open>microseconds\<close>
  rg_deadlines :: "(string \<times> int) list"

definition new_guard :: "SigningKeySnapshot \<Rightarrow> int \<Rightarrow> SigningKeyErrorCode + rotation_guard" where
  "new_guard s retention_seconds =
     (if retention_seconds \<le> 0 then Inl ROTATION_TIME_INVALID
      else Inr \<lparr>rg_snapshot = s, rg_retention = retention_seconds * 1000000, rg_deadlines = []\<rparr>)"

definition rotate :: "rotation_guard \<Rightarrow> datetime \<times> SigningKeySnapshot \<Rightarrow> SigningKeyErrorCode + rotation_guard" where
  "rotate g step =
     (let (now, successor) = step; current = rg_snapshot g; t = instant now in
      if \<not> aware now then Inl ROTATION_TIME_INVALID
      else if ks_active_kid successor \<noteq> ks_active_kid current \<and> ks_active_kid successor \<notin> set (ks_key_ids current)
      then Inl NEXT_KEY_NOT_PREPUBLISHED
      else if ks_active_kid successor \<noteq> ks_active_kid current \<and> ks_active_kid current \<notin> set (ks_key_ids successor)
      then Inl ACTIVE_KEY_NOT_RETAINED
      else
        let deadlines = (if ks_active_kid successor \<noteq> ks_active_kid current
                         then AList.update (ks_active_kid current) (t + rg_retention g) (rg_deadlines g)
                         else rg_deadlines g) in
        if list_ex (\<lambda>(k, d). k \<notin> set (ks_key_ids successor) \<and> t < d) deadlines then Inl RETIRED_KEY_REMOVED_EARLY
        else Inr (g\<lparr>rg_snapshot := successor, rg_deadlines := filter (\<lambda>(k, d). t < d) deadlines\<rparr>))"

section \<open>What a token says\<close>

lemma issue_Inr:
  assumes "issue fr P S now jti q allowed = Inr tok"
  obtains r claims where "profile_resource P (tr_resource_name q) = Some r"
    "evaluate_issuance_policy (issuance_facts r q allowed) = None" "aware now" "valid_jti jti"
    "token_claims P r q (whole_seconds (instant now)) jti = Inr claims" "sign_token fr S claims = Inr (it_compact tok)"
    "it_expires_at tok = whole_seconds (instant now) + ip_ttl_seconds P" "it_scopes tok = tr_requested_scopes q"
    "it_kid tok = sg_active_kid S"
proof -
  from assms obtain r where r: "profile_resource P (tr_resource_name q) = Some r"
    by (auto simp: issue_def split: option.splits)
  with assms have "evaluate_issuance_policy (issuance_facts r q allowed) = None"
    by (auto simp: issue_def split: option.splits)
  with assms r that show ?thesis
    by (auto simp: issue_def Let_def bindE_eq_Inr split: if_splits)
qed

lemma token_claims_Inr:
  assumes "token_claims P r q iat jti = Inr claims"
  shows "\<exists>extra. claims = base_claims P r q iat jti @ extra \<and>
    fst ` set extra \<subseteq> {''auth_time'', ''acr'', ''enterprise_subject'', ''provider_identity''} \<and>
    (''acr'' \<in> fst ` set extra \<longleftrightarrow> ac_assurance (pp_authentication (tr_principal q)) = ENTERPRISE_VERIFIED) \<and>
    (''enterprise_subject'' \<in> fst ` set extra \<longrightarrow> (\<exists>s req. pp_enterprise_subject (tr_principal q) = Some s \<and>
       rp_enterprise_subject_requirement r = Some req \<and> subject_meets s req)) \<and>
    (''provider_identity'' \<in> fst ` set extra \<longrightarrow> rp_allow_provider_identity r \<and> pp_provider_identity (tr_principal q) \<noteq> None)"
  using assms
  by (auto simp: token_claims_def bindE_eq_Inr auth_time_claim_def enterprise_claim_def provider_claim_def
      split: option.splits if_splits)

lemma sign_token_Inr:
  assumes "sign_token fr S claims = Inr tx"
  shows "length tx \<le> MAX_TOKEN_BYTES \<and>
    (\<exists>header signature. length signature = 64 \<and>
       tx = b64url header @ ''.'' @ b64url (print_json fr (JDict claims)) @ ''.'' @ b64url signature)"
  using assms by (auto simp: sign_token_def Let_def split: option.splits if_splits)

text \<open>Property C22. A token is issued only for a registered resource and for scopes that are both
  registered there and granted; it names the principal's user and tenant, the resource's audience
  and exactly the requested scopes, is valid from now on for at most 300 seconds and has at most
  4096 bytes. It says that the enterprise identity is verified exactly when the principal's
  assurance says so, and carries an enterprise subject only if it meets the requirement of the
  resource.\<close>

theorem issued_token_bound:
  assumes "issue fr P S now jti q allowed = Inr tok" "McpIssuerProfile_valid bracket_ok P"
  shows "\<exists>r claims header signature. r \<in> set (ip_resources P) \<and> rp_name r = tr_resource_name q \<and>
    tr_requested_scopes q \<subseteq> rp_registered_scopes r \<inter> allowed \<and> it_scopes tok = tr_requested_scopes q \<and>
    it_compact tok = b64url header @ ''.'' @ b64url (print_json fr (JDict claims)) @ ''.'' @ b64url signature \<and>
    length (it_compact tok) \<le> 4096 \<and>
    map_of claims ''sub'' = Some (JStr (pp_platform_user_id (tr_principal q))) \<and>
    map_of claims ''tenant_id'' = Some (JStr (pp_tenant_id (tr_principal q))) \<and>
    map_of claims ''aud'' = Some (JStr (rp_audience r)) \<and>
    map_of claims ''scope'' = Some (JStr (join '' '' (sorted_list_of_set (tr_requested_scopes q)))) \<and>
    map_of claims ''iat'' = Some (JInt (whole_seconds (instant now))) \<and>
    map_of claims ''exp'' = Some (JInt (it_expires_at tok)) \<and>
    whole_seconds (instant now) < it_expires_at tok \<and> it_expires_at tok \<le> whole_seconds (instant now) + 300 \<and>
    (has_key claims ''acr'' \<longleftrightarrow> ac_assurance (pp_authentication (tr_principal q)) = ENTERPRISE_VERIFIED) \<and>
    (has_key claims ''enterprise_subject'' \<longrightarrow> (\<exists>s req. pp_enterprise_subject (tr_principal q) = Some s \<and>
       rp_enterprise_subject_requirement r = Some req \<and> subject_meets s req))"
proof -
  obtain r claims where r: "profile_resource P (tr_resource_name q) = Some r"
    and pol: "evaluate_issuance_policy (issuance_facts r q allowed) = None"
    and claims: "token_claims P r q (whole_seconds (instant now)) jti = Inr claims"
    and signed: "sign_token fr S claims = Inr (it_compact tok)"
    and tok: "it_expires_at tok = whole_seconds (instant now) + ip_ttl_seconds P" "it_scopes tok = tr_requested_scopes q"
    using issue_Inr [OF assms(1)] by metis
  have scopes: "tr_requested_scopes q \<subseteq> rp_registered_scopes r \<inter> allowed"
    using pol by (auto simp: evaluate_issuance_policy_def issuance_facts_def Let_def split: if_splits)
  have res: "r \<in> set (ip_resources P)" "rp_name r = tr_resource_name q"
    using r by (auto simp: profile_resource_def find_Some_iff)
  have ttl: "1 \<le> ip_ttl_seconds P" "ip_ttl_seconds P \<le> 300"
    using assms(2) by (simp_all add: McpIssuerProfile_valid_def MAX_TOKEN_TTL_SECONDS_def)
  from token_claims_Inr [OF claims] obtain extra where extra:
    "claims = base_claims P r q (whole_seconds (instant now)) jti @ extra"
    "''acr'' \<in> fst ` set extra \<longleftrightarrow> ac_assurance (pp_authentication (tr_principal q)) = ENTERPRISE_VERIFIED"
    "''enterprise_subject'' \<in> fst ` set extra \<longrightarrow> (\<exists>s req. pp_enterprise_subject (tr_principal q) = Some s \<and>
       rp_enterprise_subject_requirement r = Some req \<and> subject_meets s req)" by blast
  have base: "fst ` set (base_claims P r q iat j) =
      {''agent_id'', ''aud'', ''client_id'', ''exp'', ''iat'', ''iss'', ''jti'', ''nbf'', ''scope'', ''sub'', ''tenant_id'', ''token_use''}" for iat j
    by (auto simp: base_claims_def)
  from sign_token_Inr [OF signed] obtain header signature where
    "it_compact tok = b64url header @ ''.'' @ b64url (print_json fr (JDict claims)) @ ''.'' @ b64url signature"
    "length (it_compact tok) \<le> 4096" by (auto simp: MAX_TOKEN_BYTES_def)
  moreover have "map_of claims ''sub'' = Some (JStr (pp_platform_user_id (tr_principal q)))"
    "map_of claims ''tenant_id'' = Some (JStr (pp_tenant_id (tr_principal q)))"
    "map_of claims ''aud'' = Some (JStr (rp_audience r))"
    "map_of claims ''scope'' = Some (JStr (join '' '' (sorted_list_of_set (tr_requested_scopes q))))"
    "map_of claims ''iat'' = Some (JInt (whole_seconds (instant now)))"
    "map_of claims ''exp'' = Some (JInt (it_expires_at tok))"
    by (simp_all add: extra(1) base_claims_def tok)
  moreover have "has_key claims ''acr'' \<longleftrightarrow> ac_assurance (pp_authentication (tr_principal q)) = ENTERPRISE_VERIFIED"
    "has_key claims ''enterprise_subject'' \<longrightarrow> (\<exists>s req. pp_enterprise_subject (tr_principal q) = Some s \<and>
       rp_enterprise_subject_requirement r = Some req \<and> subject_meets s req)"
    using extra(2,3) by (simp_all add: has_key_def extra(1) base image_Un)
  ultimately show ?thesis using res scopes tok ttl by (intro exI [of _ r] exI [of _ claims] exI conjI) (assumption | simp)+
qed

section \<open>A retired key stays published\<close>

definition rotations :: "rotation_guard \<Rightarrow> (datetime \<times> SigningKeySnapshot) list \<Rightarrow> SigningKeyErrorCode + rotation_guard" where
  "rotations g steps = foldE rotate g steps"

text \<open>A key is guarded until a time when some deadline at or after that time is recorded for it.\<close>

definition guarded :: "rotation_guard \<Rightarrow> string \<Rightarrow> int \<Rightarrow> bool" where
  "guarded g k until \<longleftrightarrow> (\<exists>d. (k, d) \<in> set (rg_deadlines g) \<and> until \<le> d) \<or> k = ks_active_kid (rg_snapshot g)"

lemma in_update: "(k, d) \<in> set al \<Longrightarrow> k \<noteq> k' \<Longrightarrow> (k, d) \<in> set (AList.update k' v al)"
  by (induction al) auto

lemma update_in: "(k, v) \<in> set (AList.update k v al)"
  by (induction al) auto

lemma rotate_Inr:
  assumes "rotate g (now, s) = Inr g'"
  shows "rg_snapshot g' = s" "rg_retention g' = rg_retention g"
    "ks_active_kid s \<noteq> ks_active_kid (rg_snapshot g) \<Longrightarrow> ks_active_kid (rg_snapshot g) \<in> set (ks_key_ids s)"
    "rg_deadlines g' = filter (\<lambda>(k, d). instant now < d)
       (if ks_active_kid s \<noteq> ks_active_kid (rg_snapshot g)
        then AList.update (ks_active_kid (rg_snapshot g)) (instant now + rg_retention g) (rg_deadlines g) else rg_deadlines g)"
    "(k, d) \<in> set (if ks_active_kid s \<noteq> ks_active_kid (rg_snapshot g)
        then AList.update (ks_active_kid (rg_snapshot g)) (instant now + rg_retention g) (rg_deadlines g) else rg_deadlines g) \<Longrightarrow>
       instant now < d \<Longrightarrow> k \<in> set (ks_key_ids s)"
  using assms by (auto simp: rotate_def Let_def list_ex_iff split: if_splits)

lemma rotate_guarded:
  assumes "rotate g (now, s) = Inr g'" "guarded g k until" "instant now < until" "until \<le> instant now + rg_retention g"
    "SigningKeySnapshot_valid s"
  shows "k \<in> set (ks_key_ids s) \<and> guarded g' k until"
proof (cases "k = ks_active_kid s")
  case True
  with assms(5) rotate_Inr(1) [OF assms(1)] show ?thesis by (simp add: SigningKeySnapshot_valid_def guarded_def)
next
  case False
  let ?ds = "if ks_active_kid s \<noteq> ks_active_kid (rg_snapshot g)
        then AList.update (ks_active_kid (rg_snapshot g)) (instant now + rg_retention g) (rg_deadlines g) else rg_deadlines g"
  have "\<exists>d. (k, d) \<in> set ?ds \<and> until \<le> d"
  proof (cases "k = ks_active_kid (rg_snapshot g)")
    case True
    with False have "(k, instant now + rg_retention g) \<in> set ?ds" by (simp add: update_in)
    with assms(4) show ?thesis by blast
  next
    case other: False
    then obtain d where "(k, d) \<in> set (rg_deadlines g)" "until \<le> d" using assms(2) by (auto simp: guarded_def)
    moreover from this other have "(k, d) \<in> set ?ds" by (simp add: in_update)
    ultimately show ?thesis by blast
  qed
  then obtain d where d: "(k, d) \<in> set ?ds" "until \<le> d" by blast
  then have "k \<in> set (ks_key_ids s)" using rotate_Inr(5) [OF assms(1)] assms(3) by force
  moreover have "(k, d) \<in> set (rg_deadlines g')" using d assms(3) rotate_Inr(4) [OF assms(1)] by simp
  ultimately show ?thesis using d(2) by (auto simp: guarded_def)
qed

lemma rotations_guarded:
  assumes "rotations g steps = Inr g'" "guarded g k until" "k \<in> set (ks_key_ids (rg_snapshot g))"
    "list_all (\<lambda>(now, s). instant now < until \<and> until \<le> instant now + rg_retention g \<and> SigningKeySnapshot_valid s) steps"
  shows "k \<in> set (ks_key_ids (rg_snapshot g'))"
  using assms
proof (induction steps arbitrary: g)
  case (Cons a steps)
  obtain now s where a: "a = (now, s)" by (cases a)
  with Cons.prems obtain g1 where g1: "rotate g (now, s) = Inr g1" "rotations g1 steps = Inr g'"
    by (auto simp: rotations_def split: sum.splits)
  have "k \<in> set (ks_key_ids s) \<and> guarded g1 k until"
    using rotate_guarded [OF g1(1) Cons.prems(2)] Cons.prems(4) a by simp
  then show ?case using Cons.IH [OF g1(2)] Cons.prems(4) rotate_Inr(1,2) [OF g1(1)] a by simp
qed (simp add: rotations_def)

text \<open>A key that was active stays published for the retention period after any moment it
  could have signed a token: if it is active before a rotation, it is still among the published keys
  after every later rotation that happens within the retention period, whatever the order in which
  keys are activated, so a token that lives no longer than that can always be verified.\<close>

lemma retired_key_stays_published:
  assumes "rotations g ((now, s) # steps) = Inr g'" "SigningKeySnapshot_valid (rg_snapshot g)" "0 < rg_retention g"
    and "list_all (\<lambda>(t, s'). instant now \<le> instant t \<and> instant t < instant now + rg_retention g \<and> SigningKeySnapshot_valid s') ((now, s) # steps)"
  shows "ks_active_kid (rg_snapshot g) \<in> set (ks_key_ids (rg_snapshot g'))"
proof (rule rotations_guarded [OF assms(1)])
  show "guarded g (ks_active_kid (rg_snapshot g)) (instant now + rg_retention g)" by (simp add: guarded_def)
  show "ks_active_kid (rg_snapshot g) \<in> set (ks_key_ids (rg_snapshot g))"
    using assms(2) by (simp add: SigningKeySnapshot_valid_def)
qed (use assms(4) in \<open>auto simp: list_all_iff\<close>)

definition demo_keys :: "string \<Rightarrow> SigningKeySnapshot" where
  "demo_keys k = \<lparr>ks_active_kid = k, ks_key_ids = [''a'', ''b'']\<rparr>"

lemma retired_key_stays_published_example:
  "\<exists>g'. rotations \<lparr>rg_snapshot = demo_keys ''a'', rg_retention = 10, rg_deadlines = []\<rparr>
     [(\<lparr>instant = 1, utcoffset = Some 0\<rparr>, demo_keys ''b''), (\<lparr>instant = 5, utcoffset = Some 0\<rparr>, demo_keys ''b'')] = Inr g' \<and>
     ''a'' \<in> set (ks_key_ids (rg_snapshot g'))"
proof -
  let ?g = "\<lparr>rg_snapshot = demo_keys ''a'', rg_retention = 10, rg_deadlines = []\<rparr>"
  let ?steps = "[(\<lparr>instant = 1, utcoffset = Some 0\<rparr>, demo_keys ''b''), (\<lparr>instant = 5, utcoffset = Some 0\<rparr>, demo_keys ''b'')]"
  have "\<exists>g'. rotations ?g ?steps = Inr g'" by (simp add: rotations_def rotate_def demo_keys_def aware_def)
  then obtain g' where g': "rotations ?g ?steps = Inr g'" ..
  from retired_key_stays_published [OF g'] g' show ?thesis
    by (simp add: demo_keys_def SigningKeySnapshot_valid_def)
qed

section \<open>Size of a token\<close>

lemma length_escape: "length (escape_char c) \<le> 6"
  by (simp add: escape_char_def Let_def)

lemma length_quote: "length (quote_str s) \<le> 6 * length s + 2"
proof -
  have "length (concat (map escape_char s)) \<le> 6 * length s"
    by (induction s) (use length_escape in \<open>auto intro: add_mono\<close>)
  then show ?thesis by (simp add: quote_str_def)
qed

lemma length_join: "length (join sep xs) \<le> sum_list (map length xs) + length sep * length xs"
  by (induction sep xs rule: join.induct) auto

lemma length_b64url: "3 * length (b64url s) \<le> 4 * length s + 12"
proof -
  have "length (rstrip_pad t) \<le> length t" for t
    using length_dropWhile_le [of _ "rev t"] by (simp add: rstrip_pad_def)
  moreover have "3 * length (b64encode s) \<le> 4 * length s + 12"
  proof (induction s rule: b64encode.induct)
    case (4 a b c bs)
    from "4.IH" [OF refl refl refl] show ?case by (simp add: Let_def)
  qed (auto simp: Let_def)
  ultimately show ?thesis unfolding b64url_def by (meson le_trans mult_le_mono2)
qed

lemma length_print_dict:
  "length (print_json fr (JDict d)) \<le> 2 + sum_list (map (\<lambda>(k, v). 6 * length k + length (print_json fr v) + 4) d)"
proof -
  let ?item = "\<lambda>(k, t). quote_str k @ '':'' @ t"
  let ?sorted = "sort_key fst (map (map_prod id (print_json fr)) d)"
  have perm: "sum_list (map f ?sorted) = sum_list (map f (map (map_prod id (print_json fr)) d))" for f :: "_ \<Rightarrow> nat"
    by (simp flip: sum_mset_sum_list add: multiset.map_comp)
  have len: "length ?sorted = length d" by simp
  have "length (print_json fr (JDict d)) \<le> 2 + (sum_list (map length (map ?item ?sorted)) + length d)"
    using length_join [of "'',''" "map ?item ?sorted"] by (simp add: len)
  also have "sum_list (map length (map ?item ?sorted)) = sum_list (map (\<lambda>kv. length (?item (map_prod id (print_json fr) kv))) d)"
    using perm [of "length \<circ> ?item"] by (simp add: comp_def)
  also have "2 + (\<dots> + length d) = 2 + sum_list (map (\<lambda>kv. length (?item (map_prod id (print_json fr) kv)) + 1) d)"
    by (induction d) auto
  also have "\<dots> \<le> 2 + sum_list (map (\<lambda>(k, v). 6 * length k + length (print_json fr v) + 4) d)"
    using length_quote by (intro add_left_mono sum_list_mono) (auto intro: le_trans [OF add_right_mono])
  finally show ?thesis .
qed

definition demo_resource :: McpResourceProfile where
  "demo_resource = \<lparr>rp_name = ''r'', rp_audience = ''https://h/'', rp_registered_scopes = {''s'', ''w''},
     rp_allow_provider_identity = False, rp_enterprise_subject_requirement = None\<rparr>"

definition demo_profile :: McpIssuerProfile where
  "demo_profile = \<lparr>ip_issuer = ''https://h/'', ip_client_id = ''c'', ip_ttl_seconds = 300, ip_jwks_cache_ttl_seconds = 60,
     ip_resources = [demo_resource]\<rparr>"

definition demo_signer :: signer where
  "demo_signer = \<lparr>sg_active_kid = ''k'', sg_sign = (\<lambda>_. Some (replicate 64 (CHR ''x'')))\<rparr>"

definition demo_request :: McpAccessTokenRequest where
  "demo_request = \<lparr>tr_principal = demo_principal, tr_agent_id = ''a'', tr_resource_name = ''r'',
     tr_requested_scopes = {''s''}, tr_requested_claims = {}\<rparr>"

lemma demo_profile_valid: "McpIssuerProfile_valid (\<lambda>_. True) demo_profile"
proof -
  have "is_https_uri (\<lambda>_. True) ''https://h/'' = Some True"
    by (simp add: is_https_uri_def urlsplit_def part_before_def part_after_def after_last_def ascii_alpha_def ascii_digit_def
      scheme_char_def ascii_lower_def has_userinfo_def url_hostname_def url_port_text_def url_port_ok_def Let_def)
  moreover have "py_strip ''https://h/'' = ''https://h/''" by code_simp
  ultimately show ?thesis
    by (simp add: McpIssuerProfile_valid_def demo_profile_def demo_resource_def McpResourceProfile_valid_def canonical_https_uri_def
        is_ascii_def nonempty_text_def graphic_def scope_set_def MAX_TOKEN_TTL_SECONDS_def)
qed

lemma demo_issue: "\<exists>tok. issue fr demo_profile demo_signer \<lparr>instant = 0, utcoffset = Some 0\<rparr> (replicate 16 (CHR ''j'')) demo_request {''s''} = Inr tok"
proof -
  have jti: "valid_jti (replicate 16 (CHR ''j''))"
  proof -
    have "py_strip (replicate 16 (CHR ''j'')) = replicate 16 (CHR ''j'')" by code_simp
    then show ?thesis by (simp add: valid_jti_def is_ascii_def ws_codes_def list_ex_iff list_all_iff)
  qed
  define header where "header = [(''alg'', JStr ''ES256''), (''kid'', JStr ''k''), (''typ'', JStr ''at+jwt'')]"
  define claims where "claims = base_claims demo_profile demo_resource demo_request 0 (replicate 16 (CHR ''j''))"
  have n: "length (int_str 0) = 1" "length (int_str 300) = 3" by (simp_all add: int_str_def nat_str.simps)
  have "length (print_json fr (JDict header)) \<le> 300"
    using length_print_dict [of fr header] length_quote [of "''ES256''"] length_quote [of "''k''"] length_quote [of "''at+jwt''"]
    by (simp add: header_def)
  then have h: "length (b64url (print_json fr (JDict header))) \<le> 404"
    using length_b64url [of "print_json fr (JDict header)"] by linarith
  have "length (print_json fr (JDict claims)) \<le> 2000"
    using length_print_dict [of fr claims] length_quote [of "''a''"] length_quote [of "''https://h/''"] length_quote [of "''c''"]
      length_quote [of "replicate 16 (CHR ''j'')"] length_quote [of "''s''"] length_quote [of "''u1''"] length_quote [of "''t1''"]
      length_quote [of "''mcp_access''"] n
    by (simp add: claims_def base_claims_def demo_profile_def demo_resource_def demo_request_def demo_principal_def)
  then have c: "length (b64url (print_json fr (JDict claims))) \<le> 2672"
    using length_b64url [of "print_json fr (JDict claims)"] by linarith
  have s: "length (b64url (replicate 64 (CHR ''x''))) \<le> 90"
    using length_b64url [of "replicate 64 (CHR ''x'')"] by simp
  have "\<exists>tx. sign_token fr demo_signer claims = Inr tx"
    using h c s by (simp add: sign_token_def demo_signer_def header_def Let_def MAX_TOKEN_BYTES_def)
  moreover have "token_claims demo_profile demo_resource demo_request 0 (replicate 16 (CHR ''j'')) = Inr claims"
    by (simp add: token_claims_def auth_time_claim_def enterprise_claim_def provider_claim_def demo_request_def demo_principal_def
        demo_authentication_def claims_def)
  moreover have "profile_resource demo_profile ''r'' = Some demo_resource"
    by (simp add: profile_resource_def demo_profile_def demo_resource_def)
  moreover have "evaluate_issuance_policy (issuance_facts demo_resource demo_request {''s''}) = None"
    by (simp add: evaluate_issuance_policy_def issuance_facts_def demo_resource_def demo_request_def Let_def)
  moreover have "tr_resource_name demo_request = ''r''" by (simp add: demo_request_def)
  ultimately show ?thesis using jti by (auto simp: issue_def aware_def whole_seconds_def)
qed

theorem issued_token_bound_witness:
  "\<exists>tok. issue (\<lambda>_. []) demo_profile demo_signer \<lparr>instant = 0, utcoffset = Some 0\<rparr> (replicate 16 (CHR ''j'')) demo_request {''s''} = Inr tok \<and>
     it_scopes tok = {''s''} \<and> length (it_compact tok) \<le> 4096"
proof -
  obtain tok where tok: "issue (\<lambda>_. []) demo_profile demo_signer \<lparr>instant = 0, utcoffset = Some 0\<rparr> (replicate 16 (CHR ''j'')) demo_request {''s''} = Inr tok"
    using demo_issue by blast
  from issued_token_bound [OF tok demo_profile_valid] tok show ?thesis by (auto simp: demo_request_def)
qed


end
