(* ===== verification/Delegation_Policy.thy ===== *)
theory Delegation_Policy
  imports Mcp_Issuer "HOL-Library.Product_Lexorder"
begin

text \<open>
  The published policy of delegated tool calls and its loaders
  (\<open>src/api/identity/mcp_delegation/contracts.py\<close> and \<open>policy.py\<close>): which tools exist and what they
  require, which servers are bound to which resource, and which user may use which scopes through
  which agent.

  A snapshot file is given by what the loader observes of it. A loader refuses with \<open>SnapshotInvalid\<close>;
  \<open>LoaderCrash\<close> is an exception of Python itself that the loader does not catch (an unhashable operand
  of a set membership test, a ValueError of \<open>urlsplit\<close>). A dict with unique keys is an association list.
\<close>

section \<open>Contracts\<close>

record DelegatedServerBinding =
  sb_mcp_server_id :: string
  sb_resource_name :: string
  sb_audience :: string

record DelegationGrant =
  dg_tenant_id :: string
  dg_platform_user_id :: string
  dg_agent_id :: string
  dg_agent_revision_id :: string
  dg_resource_name :: string
  dg_allowed_scopes :: "string set"

record DevelopmentGrant =
  vg_tenant_id :: string
  vg_platform_user_id :: string
  vg_agent_id :: string
  vg_resource_name :: string
  vg_allowed_scopes :: "string set"
  vg_allowed_tools :: "string set"

record ProviderIdentityCoordinate =
  pc_provider :: string
  pc_provider_tenant :: string
  pc_subject_type :: string

record DelegatedToolPolicy =
  tp_canonical_tool_name :: string
  tp_required_scopes :: "string set"
  tp_effect :: string
  tp_replay_mode :: string
  tp_enterprise_subject :: "EnterpriseSubjectRequirement option"
  tp_accepted_acr_values :: "string set"
  tp_required_amr :: "string set"
  tp_provider_identity :: "ProviderIdentityCoordinate list option"

record ToolPolicySnapshot =
  ts_policy_revision :: string
  ts_scope_registry :: "string set"
  ts_tools :: "(string \<times> DelegatedToolPolicy) list"

type_synonym grant_key = "string \<times> string \<times> string \<times> string \<times> string"
type_synonym development_grant_key = "string \<times> string \<times> string \<times> string"

record GrantPolicySnapshot =
  gs_grant_revision :: string
  gs_policy_revision :: string
  gs_credential_generation :: int
  gs_bindings :: "(string \<times> DelegatedServerBinding) list"
  gs_grants :: "(grant_key \<times> DelegationGrant) list"
  gs_development_grants :: "(development_grant_key \<times> DevelopmentGrant) list"

section \<open>Reading a snapshot\<close>

datatype policy_error = SnapshotInvalid | LoaderCrash

record snapshot_file =
  sf_absolute :: bool
  sf_symlink :: bool
  sf_opens :: bool
  sf_regular :: bool
  sf_size :: int
  sf_posix :: bool
  sf_mode :: nat
  sf_raw :: "string option" \<comment> \<open>\<open>None\<close>: reading fails\<close>

definition MAX_SNAPSHOT_BYTES :: nat where "MAX_SNAPSHOT_BYTES = 1048576"

definition group_or_other_writable :: "nat \<Rightarrow> bool" where
  \<comment> \<open>\<open>mode & 0o022\<close>\<close>
  "group_or_other_writable m \<longleftrightarrow> m div 16 mod 2 = 1 \<or> m div 2 mod 2 = 1"

definition load_document :: "platform \<Rightarrow> snapshot_file \<Rightarrow> policy_error + pydict" where
  "load_document P f =
     (if \<not> sf_absolute f \<or> sf_symlink f \<or> \<not> sf_opens f then Inl SnapshotInvalid
      else if \<not> sf_regular f \<or> sf_size f \<le> 0 \<or> sf_size f > int MAX_SNAPSHOT_BYTES
              \<or> (sf_posix f \<and> group_or_other_writable (sf_mode f))
      then Inl SnapshotInvalid
      else case map_option (take (MAX_SNAPSHOT_BYTES + 1)) (sf_raw f) of
             None \<Rightarrow> Inl SnapshotInvalid
           | Some raw \<Rightarrow>
               if raw = [] \<or> length raw > MAX_SNAPSHOT_BYTES then Inl SnapshotInvalid
               else (case json_loads P raw of Some (JDict d) \<Rightarrow> Inr d | _ \<Rightarrow> Inl SnapshotInvalid))"

definition canonical_revision :: "platform \<Rightarrow> pydict \<Rightarrow> string \<Rightarrow> policy_error + string" where
  "canonical_revision P document revision_field =
     (case dget document revision_field of
        JStr revision \<Rightarrow>
          if py_len revision \<noteq> 64 \<or> \<not> list_all hex_char revision then Inl SnapshotInvalid
          else (case dumps (frepr P) (JDict (filter (\<lambda>(k, v). k \<noteq> revision_field) document)) of
                  None \<Rightarrow> Inl SnapshotInvalid
                | Some canonical \<Rightarrow> if sha256 P canonical = revision then Inr revision else Inl SnapshotInvalid)
      | _ \<Rightarrow> Inl SnapshotInvalid)"

definition text_field :: "nat \<Rightarrow> json \<Rightarrow> policy_error + string" where
  "text_field max_length v =
     (case v of
        JStr s \<Rightarrow> if s = [] \<or> s \<noteq> py_strip s \<or> py_len s > max_length \<or> \<not> is_ascii s then Inl SnapshotInvalid else Inr s
      | _ \<Rightarrow> Inl SnapshotInvalid)"

definition scope_list :: "bool \<Rightarrow> json \<Rightarrow> policy_error + string set" where
  "scope_list allow_empty v =
     (case v of
        JList xs \<Rightarrow>
          if xs = [] \<and> \<not> allow_empty then Inl SnapshotInvalid
          else bindE (mapE (text_field 128) xs) (\<lambda>scopes.
            if \<not> distinct scopes \<or> list_ex (\<lambda>s. CHR '' '' \<in> set s \<or> CHR 0x22 \<in> set s \<or> CHR 0x5C \<in> set s) scopes
            then Inl SnapshotInvalid else Inr (set scopes))
      | _ \<Rightarrow> Inl SnapshotInvalid)"

definition https_field :: "(string \<Rightarrow> bool) \<Rightarrow> json \<Rightarrow> policy_error + string" where
  "https_field bracket_ok v =
     bindE (text_field 4096 v) (\<lambda>uri.
     case is_https_uri bracket_ok uri of
       None \<Rightarrow> Inl LoaderCrash | Some ok \<Rightarrow> if ok then Inr uri else Inl SnapshotInvalid)"

definition dict_with :: "string set \<Rightarrow> json \<Rightarrow> policy_error + pydict" where
  "dict_with ks v = (case v of JDict d \<Rightarrow> if fst ` set d = ks then Inr d else Inl SnapshotInvalid | _ \<Rightarrow> Inl SnapshotInvalid)"

definition list_upto :: "bool \<Rightarrow> nat \<Rightarrow> json \<Rightarrow> policy_error + json list" where
  "list_upto allow_empty n v =
     (case v of JList xs \<Rightarrow> if (xs = [] \<and> \<not> allow_empty) \<or> length xs > n then Inl SnapshotInvalid else Inr xs | _ \<Rightarrow> Inl SnapshotInvalid)"

definition one_of :: "string set \<Rightarrow> json \<Rightarrow> policy_error + string" where
  \<comment> \<open>\<open>v in {...}\<close> on a set of texts: a list or a dict cannot be hashed\<close>
  "one_of options v =
     (case v of JStr s \<Rightarrow> if s \<in> options then Inr s else Inl SnapshotInvalid
      | JList _ \<Rightarrow> Inl LoaderCrash | JDict _ \<Rightarrow> Inl LoaderCrash | _ \<Rightarrow> Inl SnapshotInvalid)"

section \<open>Tool policy\<close>

record services =
  sv_scopes :: "(string \<times> string set) list"
  sv_namespaces :: "string set"
  sv_registry :: "string set"

definition add_service :: "services \<Rightarrow> json \<Rightarrow> policy_error + services" where
  "add_service s raw =
     bindE (dict_with {''id'', ''namespace'', ''scopes''} raw) (\<lambda>d.
     bindE (text_field 128 (dget d ''id'')) (\<lambda>service_id.
     bindE (text_field 128 (dget d ''namespace'')) (\<lambda>namespace.
     bindE (scope_list False (dget d ''scopes'')) (\<lambda>scopes.
     if has_key (sv_scopes s) service_id \<or> namespace \<in> sv_namespaces s then Inl SnapshotInvalid
     else Inr \<lparr>sv_scopes = sv_scopes s @ [(service_id, scopes)], sv_namespaces = insert namespace (sv_namespaces s),
               sv_registry = sv_registry s \<union> scopes\<rparr>))))"

definition enterprise_requirement :: "json \<Rightarrow> policy_error + EnterpriseSubjectRequirement option" where
  "enterprise_requirement v =
     (if v = JNull then Inr None
      else bindE (dict_with {''issuer'', ''tenant'', ''type''} v) (\<lambda>d.
        bindE (text_field 64 (dget d ''type'')) (\<lambda>subject_type.
        bindE (text_field 128 (dget d ''issuer'')) (\<lambda>issuer.
        bindE (text_field 255 (dget d ''tenant'')) (\<lambda>tenant.
        Inr (Some \<lparr>er_subject_type = subject_type, er_issuer = issuer, er_issuer_tenant = tenant\<rparr>))))))"

definition coordinate :: "json \<Rightarrow> policy_error + ProviderIdentityCoordinate" where
  "coordinate v =
     bindE (dict_with {''provider'', ''provider_tenant'', ''subject_type''} v) (\<lambda>d.
     bindE (text_field 64 (dget d ''provider'')) (\<lambda>provider.
     bindE (text_field 255 (dget d ''provider_tenant'')) (\<lambda>provider_tenant.
     bindE (text_field 64 (dget d ''subject_type'')) (\<lambda>subject_type.
     Inr \<lparr>pc_provider = provider, pc_provider_tenant = provider_tenant, pc_subject_type = subject_type\<rparr>))))"

definition coordinate_key :: "ProviderIdentityCoordinate \<Rightarrow> string \<times> string \<times> string" where
  \<comment> \<open>the order of the dataclass\<close>
  "coordinate_key c = (pc_provider c, pc_provider_tenant c, pc_subject_type c)"

definition provider_requirement :: "json \<Rightarrow> policy_error + ProviderIdentityCoordinate list option" where
  "provider_requirement v =
     (if v = JNull then Inr None
      else bindE (dict_with {''any_of''} v) (\<lambda>d.
        bindE (list_upto False 8 (dget d ''any_of'')) (\<lambda>raw.
        bindE (mapE coordinate raw) (\<lambda>alternatives.
        if \<not> sorted (map coordinate_key alternatives) \<or> \<not> distinct alternatives then Inl SnapshotInvalid
        else Inr (Some alternatives)))))"

definition external_requirement :: "json \<Rightarrow> policy_error + unit" where
  "external_requirement v =
     bindE (dict_with {''kind'', ''policy_id''} v) (\<lambda>d.
     bindE (text_field 64 (dget d ''kind'')) (\<lambda>_.
     bindE (text_field 255 (dget d ''policy_id'')) (\<lambda>_. Inr ())))"

definition tool_fields :: "bool \<Rightarrow> string set" where
  "tool_fields with_provider_identity =
     {''accepted_acr_values'', ''effect'', ''enterprise_subject'', ''external_requirements'', ''name'', ''replay_mode'',
      ''required_amr'', ''required_scopes'', ''service_id''} \<union> (if with_provider_identity then {''provider_identity''} else {})"

definition admit_tool ::
  "(string \<times> string set) list \<Rightarrow> (string \<times> DelegatedToolPolicy) list \<Rightarrow> string \<Rightarrow> json \<Rightarrow> json \<Rightarrow> DelegatedToolPolicy
     \<Rightarrow> policy_error + (string \<times> DelegatedToolPolicy) list" where
  \<comment> \<open>the last condition of the loop: the effect and replay mode of \<open>p\<close> are those read from the document\<close>
  "admit_tool service_scopes tools service_id raw_effect raw_replay_mode p =
     (if has_key tools (tp_canonical_tool_name p) then Inl SnapshotInvalid
      else case map_of service_scopes service_id of
        None \<Rightarrow> Inl SnapshotInvalid
      | Some scopes \<Rightarrow>
          if \<not> tp_required_scopes p \<subseteq> scopes then Inl SnapshotInvalid
          else
            bindE (one_of {''read'', ''prepare'', ''side_effect''} raw_effect) (\<lambda>effect.
            bindE (one_of {''reusable'', ''single_use''} raw_replay_mode) (\<lambda>replay_mode.
            if effect = ''side_effect'' \<and> replay_mode \<noteq> ''single_use'' then Inl SnapshotInvalid
            else Inr (tools @ [(tp_canonical_tool_name p, p\<lparr>tp_effect := effect, tp_replay_mode := replay_mode\<rparr>)]))))"

definition add_tool ::
  "bool \<Rightarrow> (string \<times> string set) list \<Rightarrow> (string \<times> DelegatedToolPolicy) list \<Rightarrow> json
     \<Rightarrow> policy_error + (string \<times> DelegatedToolPolicy) list" where
  "add_tool format3 service_scopes tools raw =
     bindE (dict_with (tool_fields format3) raw) (\<lambda>d.
     bindE (text_field 255 (dget d ''name'')) (\<lambda>name.
     bindE (text_field 128 (dget d ''service_id'')) (\<lambda>service_id.
     bindE (scope_list False (dget d ''required_scopes'')) (\<lambda>required_scopes.
     bindE (scope_list True (dget d ''accepted_acr_values'')) (\<lambda>accepted_acr_values.
     bindE (scope_list True (dget d ''required_amr'')) (\<lambda>required_amr.
     bindE (enterprise_requirement (dget d ''enterprise_subject'')) (\<lambda>enterprise_subject.
     bindE (if format3 then provider_requirement (dget d ''provider_identity'') else Inr None) (\<lambda>provider_identity.
     bindE (list_upto True 128 (dget d ''external_requirements'')) (\<lambda>external.
     bindE (mapE external_requirement external) (\<lambda>_.
     admit_tool service_scopes tools service_id (dget d ''effect'') (dget d ''replay_mode'')
       \<lparr>tp_canonical_tool_name = name, tp_required_scopes = required_scopes, tp_effect = [], tp_replay_mode = [],
        tp_enterprise_subject = enterprise_subject, tp_accepted_acr_values = accepted_acr_values,
        tp_required_amr = required_amr, tp_provider_identity = provider_identity\<rparr>))))))))))"

definition format_number :: "json \<Rightarrow> policy_error + rat" where
  \<comment> \<open>a number that \<open>in {2, 3}\<close> compares by value; a bool is one, a list or dict cannot be hashed\<close>
  "format_number v =
     (case v of JInt n \<Rightarrow> Inr (of_int n) | JBool b \<Rightarrow> Inr (of_bool b) | JFloat (Finite q) \<Rightarrow> Inr q
      | JList _ \<Rightarrow> Inl LoaderCrash | JDict _ \<Rightarrow> Inl LoaderCrash | _ \<Rightarrow> Inl SnapshotInvalid)"

definition load_tool_policy_snapshot :: "platform \<Rightarrow> snapshot_file \<Rightarrow> policy_error + ToolPolicySnapshot" where
  "load_tool_policy_snapshot P f =
     bindE (load_document P f) (\<lambda>doc.
     if fst ` set doc \<noteq> {''policy_revision'', ''profile'', ''services'', ''snapshot_format'', ''tools''} then Inl SnapshotInvalid
     else bindE (format_number (dget doc ''snapshot_format'')) (\<lambda>fmt.
     if fmt \<notin> {2, 3} \<or> dget doc ''profile'' \<noteq> JStr ''secure'' then Inl SnapshotInvalid
     else bindE (canonical_revision P doc ''policy_revision'') (\<lambda>policy_revision.
     bindE (list_upto False 128 (dget doc ''services'')) (\<lambda>raw_services.
     bindE (foldE add_service \<lparr>sv_scopes = [], sv_namespaces = {}, sv_registry = {}\<rparr> raw_services) (\<lambda>services.
     bindE (list_upto False 4096 (dget doc ''tools'')) (\<lambda>raw_tools.
     bindE (foldE (add_tool (fmt = 3) (sv_scopes services)) [] raw_tools) (\<lambda>tools.
     Inr \<lparr>ts_policy_revision = policy_revision, ts_scope_registry = sv_registry services, ts_tools = tools\<rparr>)))))))"

section \<open>Grant policy\<close>

definition add_binding ::
  "(string \<Rightarrow> bool) \<Rightarrow> (string \<times> DelegatedServerBinding) list \<Rightarrow> json \<Rightarrow> policy_error + (string \<times> DelegatedServerBinding) list" where
  "add_binding bracket_ok bindings raw =
     bindE (dict_with {''audience'', ''mcp_server_id'', ''resource_name''} raw) (\<lambda>d.
     bindE (text_field 255 (dget d ''mcp_server_id'')) (\<lambda>server_id.
     bindE (text_field 64 (dget d ''resource_name'')) (\<lambda>resource_name.
     bindE (https_field bracket_ok (dget d ''audience'')) (\<lambda>audience.
     if has_key bindings server_id \<or> list_ex (\<lambda>(_, b). sb_resource_name b = resource_name) bindings
        \<or> list_ex (\<lambda>(_, b). sb_audience b = audience) bindings
     then Inl SnapshotInvalid
     else Inr (bindings @ [(server_id, \<lparr>sb_mcp_server_id = server_id, sb_resource_name = resource_name, sb_audience = audience\<rparr>)])))))"

definition grant_fields :: "string set" where
  "grant_fields = {''agent_id'', ''agent_revision_id'', ''allowed_scopes'', ''platform_user_id'', ''resource_name'', ''tenant_id''}"

definition add_grant ::
  "string set \<Rightarrow> string set \<Rightarrow> (grant_key \<times> DelegationGrant) list \<Rightarrow> json \<Rightarrow> policy_error + (grant_key \<times> DelegationGrant) list" where
  "add_grant resources registry grants raw =
     bindE (dict_with grant_fields raw) (\<lambda>d.
     bindE (text_field 255 (dget d ''tenant_id'')) (\<lambda>tenant_id.
     bindE (text_field 255 (dget d ''platform_user_id'')) (\<lambda>user_id.
     bindE (text_field 255 (dget d ''agent_id'')) (\<lambda>agent_id.
     bindE (text_field 255 (dget d ''agent_revision_id'')) (\<lambda>agent_revision_id.
     bindE (text_field 64 (dget d ''resource_name'')) (\<lambda>resource_name.
     bindE (scope_list False (dget d ''allowed_scopes'')) (\<lambda>allowed_scopes.
     let key = (tenant_id, user_id, agent_id, agent_revision_id, resource_name) in
     if resource_name \<notin> resources \<or> \<not> allowed_scopes \<subseteq> registry \<or> has_key grants key then Inl SnapshotInvalid
     else Inr (grants @ [(key, \<lparr>dg_tenant_id = tenant_id, dg_platform_user_id = user_id, dg_agent_id = agent_id,
            dg_agent_revision_id = agent_revision_id, dg_resource_name = resource_name, dg_allowed_scopes = allowed_scopes\<rparr>)]))))))))"

definition development_tool_ok :: "ToolPolicySnapshot \<Rightarrow> string set \<Rightarrow> string \<Rightarrow> bool" where
  "development_tool_ok T allowed_scopes tool_name =
     (case map_of (ts_tools T) tool_name of
        None \<Rightarrow> False
      | Some policy \<Rightarrow> tp_effect policy = ''read'' \<and> tp_replay_mode policy = ''reusable'' \<and> tp_required_scopes policy \<subseteq> allowed_scopes)"

definition add_development_grant ::
  "string set \<Rightarrow> ToolPolicySnapshot \<Rightarrow> (development_grant_key \<times> DevelopmentGrant) list \<Rightarrow> json
     \<Rightarrow> policy_error + (development_grant_key \<times> DevelopmentGrant) list" where
  "add_development_grant resources T grants raw =
     bindE (dict_with {''tenant_id'', ''platform_user_id'', ''agent_id'', ''resource_name'', ''allowed_scopes'', ''allowed_tools''} raw) (\<lambda>d.
     bindE (text_field 255 (dget d ''tenant_id'')) (\<lambda>tenant_id.
     bindE (text_field 255 (dget d ''platform_user_id'')) (\<lambda>user_id.
     bindE (text_field 255 (dget d ''agent_id'')) (\<lambda>agent_id.
     bindE (text_field 64 (dget d ''resource_name'')) (\<lambda>resource_name.
     bindE (scope_list False (dget d ''allowed_scopes'')) (\<lambda>allowed_scopes.
     bindE (scope_list False (dget d ''allowed_tools'')) (\<lambda>allowed_tools.
     let key = (tenant_id, user_id, agent_id, resource_name) in
     if resource_name \<notin> resources \<or> \<not> allowed_scopes \<subseteq> ts_scope_registry T \<or> has_key grants key then Inl SnapshotInvalid
     else if \<not> (\<forall>tool \<in> allowed_tools. development_tool_ok T allowed_scopes tool) then Inl SnapshotInvalid
     else Inr (grants @ [(key, \<lparr>vg_tenant_id = tenant_id, vg_platform_user_id = user_id, vg_agent_id = agent_id,
            vg_resource_name = resource_name, vg_allowed_scopes = allowed_scopes, vg_allowed_tools = allowed_tools\<rparr>)]))))))))"

definition load_grant_policy_snapshot ::
  "platform \<Rightarrow> (string \<Rightarrow> bool) \<Rightarrow> snapshot_file \<Rightarrow> ToolPolicySnapshot \<Rightarrow> policy_error + GrantPolicySnapshot" where
  "load_grant_policy_snapshot P bracket_ok f T =
     bindE (load_document P f) (\<lambda>doc.
     let fmt = dget doc ''snapshot_format'' in
     if (fmt \<noteq> JInt 1 \<and> fmt \<noteq> JInt 2)
        \<or> fst ` set doc \<noteq> {''bindings'', ''credential_generation'', ''grant_revision'', ''grants'', ''policy_revision'', ''snapshot_format''}
             \<union> (if fmt = JInt 2 then {''development_grants''} else {})
        \<or> dget doc ''policy_revision'' \<noteq> JStr (ts_policy_revision T)
     then Inl SnapshotInvalid
     else case dget doc ''credential_generation'' of
       JInt generation \<Rightarrow>
         if \<not> (1 \<le> generation \<and> generation \<le> 2 ^ 63 - 1) then Inl SnapshotInvalid
         else
           bindE (canonical_revision P doc ''grant_revision'') (\<lambda>grant_revision.
           bindE (list_upto False 1024 (dget doc ''bindings'')) (\<lambda>raw_bindings.
           bindE (foldE (add_binding bracket_ok) [] raw_bindings) (\<lambda>bindings.
           let resources = set (map (sb_resource_name \<circ> snd) bindings) in
           bindE (list_upto (fmt = JInt 2) 100000 (dget doc ''grants'')) (\<lambda>raw_grants.
           bindE (foldE (add_grant resources (ts_scope_registry T)) [] raw_grants) (\<lambda>grants.
           bindE (list_upto True 100000 (dget_or doc ''development_grants'' (JList []))) (\<lambda>raw_development.
           if length raw_development + length raw_grants > 100000 \<or> (raw_development = [] \<and> raw_grants = []) then Inl SnapshotInvalid
           else
             bindE (foldE (add_development_grant resources T) [] raw_development) (\<lambda>development.
             Inr \<lparr>gs_grant_revision = grant_revision, gs_policy_revision = ts_policy_revision T, gs_credential_generation = generation,
                  gs_bindings = bindings, gs_grants = grants, gs_development_grants = development\<rparr>)))))))
     | _ \<Rightarrow> Inl SnapshotInvalid)"

section \<open>What an accepted snapshot guarantees\<close>

lemma scope_list_Inr:
  assumes "scope_list allow_empty v = Inr S"
  shows "finite S" "\<not> allow_empty \<Longrightarrow> S \<noteq> {}" "s \<in> S \<Longrightarrow> CHR '' '' \<notin> set s"
proof -
  from assms obtain xs scopes where v: "v = JList xs" "mapE (text_field 128) xs = Inr scopes" "S = set scopes"
    "\<not> allow_empty \<longrightarrow> xs \<noteq> []" "\<not> list_ex (\<lambda>s. CHR '' '' \<in> set s \<or> CHR 0x22 \<in> set s \<or> CHR 0x5C \<in> set s) scopes"
    by (cases v) (auto simp: scope_list_def bindE_eq_Inr split: if_splits)
  then show "finite S" "\<not> allow_empty \<Longrightarrow> S \<noteq> {}" "s \<in> S \<Longrightarrow> CHR '' '' \<notin> set s"
    using mapE_length [OF v(2)] by (auto simp: list_ex_iff)
qed

lemma one_of_Inr: "one_of options v = Inr s \<Longrightarrow> s \<in> options"
  by (auto simp: one_of_def split: json.splits if_splits)

definition services_ok :: "services \<Rightarrow> bool" where
  "services_ok s \<longleftrightarrow> distinct (map fst (sv_scopes s)) \<and> sv_registry s = \<Union> (snd ` set (sv_scopes s))"

definition tool_ok :: "(string \<times> string set) list \<Rightarrow> string \<times> DelegatedToolPolicy \<Rightarrow> bool" where
  "tool_ok service_scopes t \<longleftrightarrow>
     tp_canonical_tool_name (snd t) = fst t \<and> tp_required_scopes (snd t) \<noteq> {} \<and>
     (\<exists>scopes \<in> snd ` set service_scopes. tp_required_scopes (snd t) \<subseteq> scopes) \<and>
     tp_effect (snd t) \<in> {''read'', ''prepare'', ''side_effect''} \<and> tp_replay_mode (snd t) \<in> {''reusable'', ''single_use''} \<and>
     (tp_effect (snd t) = ''side_effect'' \<longrightarrow> tp_replay_mode (snd t) = ''single_use'')"

definition tools_ok :: "(string \<times> string set) list \<Rightarrow> (string \<times> DelegatedToolPolicy) list \<Rightarrow> bool" where
  "tools_ok service_scopes tools \<longleftrightarrow> distinct (map fst tools) \<and> list_all (tool_ok service_scopes) tools"

lemma tool_ok_registry:
  "services_ok s \<Longrightarrow> tool_ok (sv_scopes s) t \<Longrightarrow> tp_required_scopes (snd t) \<subseteq> sv_registry s"
  by (fastforce simp: services_ok_def tool_ok_def)

lemma add_service_ok:
  assumes "services_ok s" "add_service s raw = Inr s'"
  shows "services_ok s'"
proof -
  from assms(2) obtain service_id scopes where "\<not> has_key (sv_scopes s) service_id"
    "sv_scopes s' = sv_scopes s @ [(service_id, scopes)]" "sv_registry s' = sv_registry s \<union> scopes"
    by (auto simp: add_service_def bindE_eq_Inr split: if_splits)
  with assms(1) show ?thesis by (simp add: services_ok_def has_key_def Un_commute)
qed

lemma admit_tool_Inr:
  assumes "admit_tool sc tools service_id e r p = Inr tools'"
  shows "\<exists>q. tools' = tools @ [(tp_canonical_tool_name p, q)] \<and> \<not> has_key tools (tp_canonical_tool_name p) \<and>
    tp_required_scopes q = tp_required_scopes p \<and> tp_canonical_tool_name q = tp_canonical_tool_name p \<and>
    (tp_required_scopes p \<noteq> {} \<longrightarrow> tool_ok sc (tp_canonical_tool_name p, q))"
proof -
  from assms obtain scopes where scopes: "map_of sc service_id = Some scopes" "tp_required_scopes p \<subseteq> scopes"
    "\<not> has_key tools (tp_canonical_tool_name p)"
    by (auto simp: admit_tool_def split: if_splits option.splits)
  with assms obtain effect replay_mode where
    "one_of {''read'', ''prepare'', ''side_effect''} e = Inr effect" "one_of {''reusable'', ''single_use''} r = Inr replay_mode"
    and new: "(if effect = ''side_effect'' \<and> replay_mode \<noteq> ''single_use'' then Inl SnapshotInvalid
       else Inr (tools @ [(tp_canonical_tool_name p, p\<lparr>tp_effect := effect, tp_replay_mode := replay_mode\<rparr>)])) = Inr tools'"
    by (auto simp: admit_tool_def bindE_eq_Inr)
  then have "effect \<in> {''read'', ''prepare'', ''side_effect''}" "replay_mode \<in> {''reusable'', ''single_use''}"
    using one_of_Inr by blast+
  moreover have "effect = ''side_effect'' \<longrightarrow> replay_mode = ''single_use''"
    "tools' = tools @ [(tp_canonical_tool_name p, p\<lparr>tp_effect := effect, tp_replay_mode := replay_mode\<rparr>)]"
    using new by (auto split: if_splits)
  moreover have "scopes \<in> snd ` set sc" using map_of_SomeD [OF scopes(1)] by force
  ultimately show ?thesis using scopes by (auto simp: tool_ok_def)
qed

lemma add_tool_ok:
  assumes "tools_ok sc tools" "add_tool fmt sc tools raw = Inr tools'"
  shows "tools_ok sc tools'"
proof -
  from assms(2) obtain service_id e r p v where "admit_tool sc tools service_id e r p = Inr tools'"
    "scope_list False v = Inr (tp_required_scopes p)"
    unfolding add_tool_def bindE_eq_Inr by (elim exE conjE) (rule that, assumption, simp)
  then show ?thesis
    using assms(1) admit_tool_Inr [of sc tools service_id e r p tools'] scope_list_Inr(2) [of False v "tp_required_scopes p"]
    by (auto simp: tools_ok_def has_key_def)
qed

interpretation services: step_invariant add_service services_ok
  by unfold_locales (rule add_service_ok)

interpretation tools: step_invariant "add_tool fmt sc" "tools_ok sc" for fmt sc
  by unfold_locales (rule add_tool_ok)

definition bindings_ok :: "(string \<times> DelegatedServerBinding) list \<Rightarrow> bool" where
  "bindings_ok bs \<longleftrightarrow> distinct (map fst bs) \<and> distinct (map (sb_resource_name \<circ> snd) bs) \<and> distinct (map (sb_audience \<circ> snd) bs) \<and>
     list_all (\<lambda>(i, b). sb_mcp_server_id b = i) bs"

definition grants_ok :: "string set \<Rightarrow> string set \<Rightarrow> (grant_key \<times> DelegationGrant) list \<Rightarrow> bool" where
  "grants_ok resources registry gs \<longleftrightarrow> distinct (map fst gs) \<and>
     list_all (\<lambda>(k, g). k = (dg_tenant_id g, dg_platform_user_id g, dg_agent_id g, dg_agent_revision_id g, dg_resource_name g) \<and>
       dg_resource_name g \<in> resources \<and> dg_allowed_scopes g \<subseteq> registry) gs"

definition development_grants_ok ::
  "string set \<Rightarrow> ToolPolicySnapshot \<Rightarrow> (development_grant_key \<times> DevelopmentGrant) list \<Rightarrow> bool" where
  "development_grants_ok resources T gs \<longleftrightarrow> distinct (map fst gs) \<and>
     list_all (\<lambda>(k, g). k = (vg_tenant_id g, vg_platform_user_id g, vg_agent_id g, vg_resource_name g) \<and>
       vg_resource_name g \<in> resources \<and> vg_allowed_scopes g \<subseteq> ts_scope_registry T \<and>
       (\<forall>tool \<in> vg_allowed_tools g. development_tool_ok T (vg_allowed_scopes g) tool)) gs"

lemma add_binding_ok:
  assumes "bindings_ok bs" "add_binding bracket_ok bs raw = Inr bs'"
  shows "bindings_ok bs'"
proof -
  from assms(2) obtain b where "bs' = bs @ [(sb_mcp_server_id b, b)]" "\<not> has_key bs (sb_mcp_server_id b)"
    "\<not> list_ex (\<lambda>(_, b'). sb_resource_name b' = sb_resource_name b) bs" "\<not> list_ex (\<lambda>(_, b'). sb_audience b' = sb_audience b) bs"
    unfolding add_binding_def bindE_eq_Inr by (elim exE conjE) (rule that, auto split: if_splits)
  with assms(1) show ?thesis by (force simp: bindings_ok_def has_key_def list_ex_iff)
qed

lemma add_grant_ok:
  assumes "grants_ok rs reg gs" "add_grant rs reg gs raw = Inr gs'"
  shows "grants_ok rs reg gs'"
proof -
  from assms(2) obtain k g where "gs' = gs @ [(k, g)]" "\<not> has_key gs k" "dg_resource_name g \<in> rs" "dg_allowed_scopes g \<subseteq> reg"
    "k = (dg_tenant_id g, dg_platform_user_id g, dg_agent_id g, dg_agent_revision_id g, dg_resource_name g)"
    unfolding add_grant_def bindE_eq_Inr Let_def by (elim exE conjE) (rule that, auto split: if_splits)
  with assms(1) show ?thesis by (auto simp: grants_ok_def has_key_def)
qed

lemma add_development_grant_ok:
  assumes "development_grants_ok rs T gs" "add_development_grant rs T gs raw = Inr gs'"
  shows "development_grants_ok rs T gs'"
proof -
  from assms(2) obtain k g where "gs' = gs @ [(k, g)]" "\<not> has_key gs k" "vg_resource_name g \<in> rs"
    "vg_allowed_scopes g \<subseteq> ts_scope_registry T" "\<forall>tool \<in> vg_allowed_tools g. development_tool_ok T (vg_allowed_scopes g) tool"
    "k = (vg_tenant_id g, vg_platform_user_id g, vg_agent_id g, vg_resource_name g)"
    unfolding add_development_grant_def bindE_eq_Inr Let_def by (elim exE conjE) (rule that, auto split: if_splits)
  with assms(1) show ?thesis by (auto simp: development_grants_ok_def has_key_def)
qed

interpretation bindings: step_invariant "add_binding bracket_ok" bindings_ok for bracket_ok
  by unfold_locales (rule add_binding_ok)

interpretation grants: step_invariant "add_grant rs reg" "grants_ok rs reg" for rs reg
  by unfold_locales (rule add_grant_ok)

interpretation development_grants: step_invariant "add_development_grant rs T" "development_grants_ok rs T" for rs T
  by unfold_locales (rule add_development_grant_ok)

text \<open>In an accepted tool policy every tool has a unique name and requires at least one
  scope, only scopes of one declared service and so of the registry; its effect and replay mode
  are known ones, and a tool with side effects is never replayable. The revision is the digest of
  the rest of the document.\<close>

lemma tool_snapshot_sound:
  assumes "load_tool_policy_snapshot P f = Inr T"
  shows "distinct (map fst (ts_tools T)) \<and>
    list_all (\<lambda>(name, p). tp_canonical_tool_name p = name \<and> tp_required_scopes p \<noteq> {} \<and> tp_required_scopes p \<subseteq> ts_scope_registry T \<and>
      tp_effect p \<in> {''read'', ''prepare'', ''side_effect''} \<and> tp_replay_mode p \<in> {''reusable'', ''single_use''} \<and>
      (tp_effect p = ''side_effect'' \<longrightarrow> tp_replay_mode p = ''single_use'')) (ts_tools T) \<and>
    (\<exists>doc canonical. load_document P f = Inr doc \<and> sha256 P canonical = ts_policy_revision T \<and>
      dumps (frepr P) (JDict (filter (\<lambda>(k, v). k \<noteq> ''policy_revision'') doc)) = Some canonical)"
proof -
  from assms obtain doc fmt raw_services services raw_tools where
    doc: "load_document P f = Inr doc" and revision: "canonical_revision P doc ''policy_revision'' = Inr (ts_policy_revision T)"
    and services: "foldE add_service \<lparr>sv_scopes = [], sv_namespaces = {}, sv_registry = {}\<rparr> raw_services = Inr services"
    and tools: "foldE (add_tool fmt (sv_scopes services)) [] raw_tools = Inr (ts_tools T)"
    and registry: "ts_scope_registry T = sv_registry services"
    unfolding load_tool_policy_snapshot_def bindE_eq_Inr by (auto split: if_splits simp: bindE_eq_Inr)
  have "services_ok services" by (rule services.run_inv [OF _ services]) (simp add: services_ok_def)
  then have sub: "tool_ok (sv_scopes services) t \<Longrightarrow> tp_required_scopes (snd t) \<subseteq> ts_scope_registry T" for t
    unfolding registry by (rule tool_ok_registry)
  have ok: "tools_ok (sv_scopes services) (ts_tools T)" by (rule tools.run_inv [OF _ tools]) (simp add: tools_ok_def)
  have "list_all (\<lambda>(name, p). tp_canonical_tool_name p = name \<and> tp_required_scopes p \<noteq> {} \<and> tp_required_scopes p \<subseteq> ts_scope_registry T \<and>
      tp_effect p \<in> {''read'', ''prepare'', ''side_effect''} \<and> tp_replay_mode p \<in> {''reusable'', ''single_use''} \<and>
      (tp_effect p = ''side_effect'' \<longrightarrow> tp_replay_mode p = ''single_use'')) (ts_tools T)"
  proof (rule list.pred_mono_strong)
    show "list_all (tool_ok (sv_scopes services)) (ts_tools T)" using ok by (simp add: tools_ok_def)
    fix t assume "tool_ok (sv_scopes services) t"
    then show "case t of (name, p) \<Rightarrow> tp_canonical_tool_name p = name \<and> tp_required_scopes p \<noteq> {} \<and>
      tp_required_scopes p \<subseteq> ts_scope_registry T \<and>
      tp_effect p \<in> {''read'', ''prepare'', ''side_effect''} \<and> tp_replay_mode p \<in> {''reusable'', ''single_use''} \<and>
      (tp_effect p = ''side_effect'' \<longrightarrow> tp_replay_mode p = ''single_use'')"
      using sub [of t] unfolding tool_ok_def split_def by blast
  qed
  moreover have "distinct (map fst (ts_tools T))" using ok by (simp add: tools_ok_def)
  moreover have "\<exists>canonical. sha256 P canonical = ts_policy_revision T \<and>
      dumps (frepr P) (JDict (filter (\<lambda>(k, v). k \<noteq> ''policy_revision'') doc)) = Some canonical"
    using revision by (auto simp: canonical_revision_def split: json.splits if_splits option.splits)
  ultimately show ?thesis using doc by blast
qed

text \<open>In an accepted grant policy servers, resources and audiences are bound one to one;
  a grant is stored under its own tenant, user, agent, revision and resource, names a bound
  resource and allows only registered scopes; a development grant moreover allows only tools that
  read, can be replayed and need no more than its scopes. The policy is the one of the tools and the
  credential generation fits a signed 64 bit column.\<close>

lemma grant_snapshot_sound:
  assumes "load_grant_policy_snapshot P bracket_ok f T = Inr G"
  shows "bindings_ok (gs_bindings G) \<and>
    grants_ok (set (map (sb_resource_name \<circ> snd) (gs_bindings G))) (ts_scope_registry T) (gs_grants G) \<and>
    development_grants_ok (set (map (sb_resource_name \<circ> snd) (gs_bindings G))) T (gs_development_grants G) \<and>
    gs_policy_revision G = ts_policy_revision T \<and> 1 \<le> gs_credential_generation G \<and> gs_credential_generation G < 2 ^ 63"
proof -
  from assms obtain doc where doc: "load_document P f = Inr doc"
    by (auto simp: load_grant_policy_snapshot_def bindE_eq_Inr)
  then obtain generation where generation: "dget doc ''credential_generation'' = JInt generation"
    using assms by (cases "dget doc ''credential_generation''") (auto simp: load_grant_policy_snapshot_def Let_def split: if_splits)
  from doc generation assms obtain raw_bindings raw_grants raw_development where
    b: "foldE (add_binding bracket_ok) [] raw_bindings = Inr (gs_bindings G)"
    and g: "foldE (add_grant (set (map (sb_resource_name \<circ> snd) (gs_bindings G))) (ts_scope_registry T)) [] raw_grants = Inr (gs_grants G)"
    and d: "foldE (add_development_grant (set (map (sb_resource_name \<circ> snd) (gs_bindings G))) T) [] raw_development = Inr (gs_development_grants G)"
    and rest: "gs_policy_revision G = ts_policy_revision T" "1 \<le> gs_credential_generation G" "gs_credential_generation G \<le> 2 ^ 63 - 1"
    by (auto simp: load_grant_policy_snapshot_def Let_def bindE_eq_Inr split: if_splits)
  have "bindings_ok (gs_bindings G)" by (rule bindings.run_inv [OF _ b]) (simp add: bindings_ok_def)
  moreover have "grants_ok (set (map (sb_resource_name \<circ> snd) (gs_bindings G))) (ts_scope_registry T) (gs_grants G)"
    by (rule grants.run_inv [OF _ g]) (simp add: grants_ok_def)
  moreover have "development_grants_ok (set (map (sb_resource_name \<circ> snd) (gs_bindings G))) T (gs_development_grants G)"
    by (rule development_grants.run_inv [OF _ d]) (simp add: development_grants_ok_def)
  ultimately show ?thesis using rest by simp
qed

section \<open>A small policy\<close>

definition demo_digest :: string where "demo_digest = replicate 64 (CHR ''a'')"

definition snapshot_platform :: "pydict \<Rightarrow> platform" where
  \<comment> \<open>a platform on which every document has the same digest\<close>
  "snapshot_platform doc = demo_platform\<lparr>sha256 := (\<lambda>_. demo_digest), json_loads := (\<lambda>_. Some (JDict doc))\<rparr>"

definition demo_file :: snapshot_file where
  "demo_file = \<lparr>sf_absolute = True, sf_symlink = False, sf_opens = True, sf_regular = True, sf_size = 1, sf_posix = True,
     sf_mode = 0, sf_raw = Some ''x''\<rparr>"

definition demo_tool_document :: pydict where
  "demo_tool_document = [(''policy_revision'', JStr demo_digest), (''profile'', JStr ''secure''), (''snapshot_format'', JInt 2),
     (''services'', JList [JDict [(''id'', JStr ''i''), (''namespace'', JStr ''n''), (''scopes'', JList [JStr ''s''])]]),
     (''tools'', JList [JDict [(''accepted_acr_values'', JList []), (''effect'', JStr ''read''), (''enterprise_subject'', JNull),
        (''external_requirements'', JList []), (''name'', JStr ''t''), (''replay_mode'', JStr ''reusable''), (''required_amr'', JList []),
        (''required_scopes'', JList [JStr ''s'']), (''service_id'', JStr ''i'')]])]"

definition demo_tool :: DelegatedToolPolicy where
  "demo_tool = \<lparr>tp_canonical_tool_name = ''t'', tp_required_scopes = {''s''}, tp_effect = ''read'', tp_replay_mode = ''reusable'',
     tp_enterprise_subject = None, tp_accepted_acr_values = {}, tp_required_amr = {}, tp_provider_identity = None\<rparr>"

definition demo_tools :: ToolPolicySnapshot where
  "demo_tools = \<lparr>ts_policy_revision = demo_digest, ts_scope_registry = {''s''}, ts_tools = [(''t'', demo_tool)]\<rparr>"

definition demo_grant_document :: pydict where
  "demo_grant_document = [(''grant_revision'', JStr demo_digest), (''policy_revision'', JStr demo_digest), (''snapshot_format'', JInt 2),
     (''credential_generation'', JInt 1),
     (''bindings'', JList [JDict [(''audience'', JStr ''https://h/''), (''mcp_server_id'', JStr ''m''), (''resource_name'', JStr ''r'')]]),
     (''grants'', JList [JDict [(''tenant_id'', JStr ''t1''), (''platform_user_id'', JStr ''u1''), (''agent_id'', JStr ''a''),
        (''agent_revision_id'', JStr ''v''), (''resource_name'', JStr ''r''), (''allowed_scopes'', JList [JStr ''s''])]]),
     (''development_grants'', JList [])]"

definition demo_binding :: DelegatedServerBinding where
  "demo_binding = \<lparr>sb_mcp_server_id = ''m'', sb_resource_name = ''r'', sb_audience = ''https://h/''\<rparr>"

definition demo_grants :: GrantPolicySnapshot where
  "demo_grants = \<lparr>gs_grant_revision = demo_digest, gs_policy_revision = demo_digest, gs_credential_generation = 1,
     gs_bindings = [(''m'', demo_binding)],
     gs_grants = [((''t1'', ''u1'', ''a'', ''v'', ''r''), \<lparr>dg_tenant_id = ''t1'', dg_platform_user_id = ''u1'', dg_agent_id = ''a'',
        dg_agent_revision_id = ''v'', dg_resource_name = ''r'', dg_allowed_scopes = {''s''}\<rparr>)], gs_development_grants = []\<rparr>"

lemma demo_document: "load_document (snapshot_platform d) demo_file = Inr d"
  by (simp add: load_document_def demo_file_def snapshot_platform_def demo_platform_def MAX_SNAPSHOT_BYTES_def group_or_other_writable_def)

lemma demo_strip: "py_strip ''s'' = ''s''" "py_strip ''i'' = ''i''" "py_strip ''n'' = ''n''" "py_strip ''t'' = ''t''" "py_strip ''m'' = ''m''"
  "py_strip ''r'' = ''r''" "py_strip ''a'' = ''a''" "py_strip ''v'' = ''v''" "py_strip ''t1'' = ''t1''" "py_strip ''u1'' = ''u1''"
  "py_strip ''https://h/'' = ''https://h/''"
  by code_simp+

lemma demo_revision:
  "finite_json (JDict (filter (\<lambda>(k, v). k \<noteq> fld) d)) \<Longrightarrow> dget d fld = JStr demo_digest \<Longrightarrow>
   canonical_revision (snapshot_platform d) d fld = Inr demo_digest"
  by (simp add: canonical_revision_def dumps_def snapshot_platform_def demo_platform_def demo_digest_def py_len_def is_cont_def hex_char_def list_all_iff)

lemma demo_text: "py_strip s = s \<Longrightarrow> s \<noteq> [] \<Longrightarrow> is_ascii s \<Longrightarrow> length s \<le> n \<Longrightarrow> text_field n (JStr s) = Inr s"
proof -
  assume "length s \<le> n"
  then have "py_len s \<le> n" unfolding py_len_def by (rule le_trans [OF length_filter_le])
  moreover assume "py_strip s = s" "s \<noteq> []" "is_ascii s"
  ultimately show ?thesis by (simp add: text_field_def)
qed

lemma demo_tools_loaded: "load_tool_policy_snapshot (snapshot_platform demo_tool_document) demo_file = Inr demo_tools"
proof -
  have d: "dget demo_tool_document ''policy_revision'' = JStr demo_digest" "dget demo_tool_document ''profile'' = JStr ''secure''"
    "dget demo_tool_document ''snapshot_format'' = JInt 2"
    "fst ` set demo_tool_document = {''policy_revision'', ''profile'', ''services'', ''snapshot_format'', ''tools''}"
    by (auto simp: demo_tool_document_def dget_def)
  have r: "canonical_revision (snapshot_platform demo_tool_document) demo_tool_document ''policy_revision'' = Inr demo_digest"
    by (rule demo_revision) (simp_all add: demo_tool_document_def dget_def)
  show ?thesis
    by (simp add: load_tool_policy_snapshot_def demo_document d r format_number_def)
      (simp add: demo_tool_document_def dget_def list_upto_def add_service_def dict_with_def demo_text demo_strip is_ascii_def
        scope_list_def has_key_def add_tool_def tool_fields_def enterprise_requirement_def admit_tool_def one_of_def demo_tools_def demo_tool_def insert_commute)
qed

lemma demo_https: "https_field (\<lambda>_. True) (JStr ''https://h/'') = Inr ''https://h/''"
proof -
  have "text_field 4096 (JStr ''https://h/'') = Inr ''https://h/''" by (rule demo_text) (simp_all add: demo_strip is_ascii_def)
  moreover have "is_https_uri (\<lambda>_. True) ''https://h/'' = Some True"
    by (simp add: is_https_uri_def urlsplit_def part_before_def part_after_def after_last_def ascii_alpha_def ascii_digit_def
      scheme_char_def ascii_lower_def has_userinfo_def url_hostname_def url_port_text_def url_port_ok_def Let_def)
  ultimately show ?thesis by (simp add: https_field_def)
qed

lemma demo_grants_loaded: "load_grant_policy_snapshot (snapshot_platform demo_grant_document) (\<lambda>_. True) demo_file demo_tools = Inr demo_grants"
proof -
  have d: "dget demo_grant_document ''policy_revision'' = JStr demo_digest" "dget demo_grant_document ''snapshot_format'' = JInt 2"
    "dget demo_grant_document ''credential_generation'' = JInt 1" "ts_policy_revision demo_tools = demo_digest"
    "ts_scope_registry demo_tools = {''s''}"
    "fst ` set demo_grant_document = {''bindings'', ''credential_generation'', ''grant_revision'', ''grants'', ''policy_revision'', ''snapshot_format''}
       \<union> {''development_grants''}"
    by (auto simp: demo_grant_document_def demo_tools_def dget_def)
  have r: "canonical_revision (snapshot_platform demo_grant_document) demo_grant_document ''grant_revision'' = Inr demo_digest"
    by (rule demo_revision) (simp_all add: demo_grant_document_def dget_def)
  show ?thesis
    by (simp add: load_grant_policy_snapshot_def demo_document d r Let_def)
      (simp add: demo_grant_document_def dget_def dget_or_def list_upto_def add_binding_def dict_with_def demo_text demo_strip is_ascii_def
        d(4) demo_https scope_list_def has_key_def add_grant_def grant_fields_def demo_grants_def demo_binding_def insert_commute Let_def)
qed

lemma tool_snapshot_sound_example:
  "load_tool_policy_snapshot (snapshot_platform demo_tool_document) demo_file = Inr demo_tools \<and>
   tp_required_scopes demo_tool \<subseteq> ts_scope_registry demo_tools"
  using tool_snapshot_sound [OF demo_tools_loaded] demo_tools_loaded by (simp add: demo_tools_def)

lemma grant_snapshot_sound_example:
  "load_grant_policy_snapshot (snapshot_platform demo_grant_document) (\<lambda>_. True) demo_file demo_tools = Inr demo_grants \<and>
   bindings_ok (gs_bindings demo_grants)"
  using grant_snapshot_sound [OF demo_grants_loaded] demo_grants_loaded by simp

end
