(* ===== verification/Delegation.thy ===== *)
theory Delegation
  imports Delegation_Policy
begin

text \<open>
  The evaluation of grants for delegated tool calls and the issuance of their credentials
  (\<open>src/api/identity/mcp_delegation/service.py\<close>): binding of a run to a server, authorisation with its
  cache of decisions, and the credential of one call.

  The state of a service is its cache. The lock around it makes each authorisation one step. The
  token issuer is an interface (\<open>token_issuer\<close>) that the issuer of \<open>Mcp_Issuer\<close> implements.
\<close>

section \<open>The service\<close>

datatype DelegationErrorCode =
    SNAPSHOT_INVALID | CONTEXT_REQUIRED | SERVER_NOT_BOUND | SERVER_TENANT_MISMATCH | SERVER_AUDIENCE_MISMATCH
  | TRANSPORT_NOT_SUPPORTED | STATIC_AUTH_CONFLICT | GRANT_NOT_FOUND | TOOL_POLICY_NOT_FOUND | SCOPE_DENIED
  | ASSURANCE_DENIED | DEVELOPMENT_TOOL_DENIED | DEVELOPMENT_INTERACTION_DENIED | TOKEN_ISSUANCE_FAILED

datatype some_grant = Published DelegationGrant | Development DevelopmentGrant

fun grant_scopes :: "some_grant \<Rightarrow> string set" where
  "grant_scopes (Published g) = dg_allowed_scopes g"
| "grant_scopes (Development g) = vg_allowed_scopes g"

record AuthorizationDecision =
  de_policy :: DelegatedToolPolicy
  de_grant :: some_grant

record McpDelegationService =
  ms_tool_policy :: ToolPolicySnapshot
  ms_grant_policy :: GrantPolicySnapshot

definition new_service :: "ToolPolicySnapshot \<Rightarrow> GrantPolicySnapshot \<Rightarrow> DelegationErrorCode + McpDelegationService" where
  "new_service T G = (if gs_policy_revision G \<noteq> ts_policy_revision T then Inl SNAPSHOT_INVALID
     else Inr \<lparr>ms_tool_policy = T, ms_grant_policy = G\<rparr>)"

definition coordinate_meets :: "VerifiedProviderIdentity \<Rightarrow> ProviderIdentityCoordinate \<Rightarrow> bool" where
  "coordinate_meets v c \<longleftrightarrow> vp_provider v = pc_provider c \<and> vp_provider_tenant v = pc_provider_tenant c \<and> vp_subject_type v = pc_subject_type c"

definition verify_assurance :: "Principal \<Rightarrow> DelegatedToolPolicy \<Rightarrow> DelegationErrorCode + unit" where
  "verify_assurance p policy =
     bindE (guardE (tp_required_amr policy = {}) ASSURANCE_DENIED) (\<lambda>_.
     bindE (guardE (tp_accepted_acr_values policy = {} \<or>
        (ac_assurance (pp_authentication p) = ENTERPRISE_VERIFIED \<and> ENTERPRISE_ACR \<in> tp_accepted_acr_values policy)) ASSURANCE_DENIED) (\<lambda>_.
     bindE (guardE (opt_all (\<lambda>req. opt_ex (\<lambda>s. subject_meets s req) (pp_enterprise_subject p)) (tp_enterprise_subject policy)) ASSURANCE_DENIED) (\<lambda>_.
     guardE (opt_all (\<lambda>alternatives. opt_ex (\<lambda>v. list_ex (coordinate_meets v) alternatives) (pp_provider_identity p)) (tp_provider_identity policy))
       ASSURANCE_DENIED)))"

definition authorize_uncached ::
  "McpDelegationService \<Rightarrow> string \<Rightarrow> string \<Rightarrow> string \<Rightarrow> string \<Rightarrow> string \<Rightarrow> string \<Rightarrow> string
     \<Rightarrow> DelegationErrorCode + AuthorizationDecision" where
  "authorize_uncached M tenant_id user_id agent_id agent_revision_id server_id resource_name tool =
     (if \<not> opt_ex (\<lambda>b. sb_resource_name b = resource_name) (map_of (gs_bindings (ms_grant_policy M)) server_id) then Inl SERVER_NOT_BOUND
      else case map_of (ts_tools (ms_tool_policy M)) tool of
        None \<Rightarrow> Inl TOOL_POLICY_NOT_FOUND
      | Some policy \<Rightarrow>
          (case map_of (gs_grants (ms_grant_policy M)) (tenant_id, user_id, agent_id, agent_revision_id, resource_name) of
             None \<Rightarrow> Inl GRANT_NOT_FOUND
           | Some g \<Rightarrow>
               if \<not> tp_required_scopes policy \<subseteq> dg_allowed_scopes g then Inl SCOPE_DENIED
               else Inr \<lparr>de_policy = policy, de_grant = Published g\<rparr>))"

record cache_key =
  ck_tenant_id :: string
  ck_platform_user_id :: string
  ck_agent_id :: string
  ck_agent_revision_id :: string
  ck_mcp_server_id :: string
  ck_resource_name :: string
  ck_tool :: string
  ck_required_scopes :: "string list"
  ck_policy_revision :: string
  ck_grant_revision :: string
  ck_credential_generation :: int

type_synonym decision_cache = "(cache_key \<times> AuthorizationDecision) list"

definition MAX_CACHE :: nat where "MAX_CACHE = 4096"

definition cache_key_of ::
  "McpDelegationService \<Rightarrow> Principal \<Rightarrow> string \<Rightarrow> string \<Rightarrow> DelegatedServerBinding \<Rightarrow> string \<Rightarrow> DelegatedToolPolicy \<Rightarrow> cache_key" where
  "cache_key_of M p agent_id agent_revision_id b tool policy =
     \<lparr>ck_tenant_id = pp_tenant_id p, ck_platform_user_id = pp_platform_user_id p, ck_agent_id = agent_id,
      ck_agent_revision_id = agent_revision_id, ck_mcp_server_id = sb_mcp_server_id b, ck_resource_name = sb_resource_name b,
      ck_tool = tool, ck_required_scopes = sorted_list_of_set (tp_required_scopes policy),
      ck_policy_revision = ts_policy_revision (ms_tool_policy M), ck_grant_revision = gs_grant_revision (ms_grant_policy M),
      ck_credential_generation = gs_credential_generation (ms_grant_policy M)\<rparr>"

definition cache_put :: "cache_key \<Rightarrow> AuthorizationDecision \<Rightarrow> decision_cache \<Rightarrow> decision_cache" where
  \<comment> \<open>the oldest entry leaves a full cache\<close>
  "cache_put k d cache = (if length cache \<ge> MAX_CACHE then tl cache else cache) @ [(k, d)]"

definition authorize ::
  "McpDelegationService \<Rightarrow> decision_cache \<Rightarrow> Principal \<Rightarrow> string \<Rightarrow> string \<Rightarrow> DelegatedServerBinding \<Rightarrow> string
     \<Rightarrow> (DelegationErrorCode + AuthorizationDecision) \<times> decision_cache" where
  "authorize M cache p agent_id agent_revision_id b tool =
     (case map_of (ts_tools (ms_tool_policy M)) tool of
        None \<Rightarrow> (Inl TOOL_POLICY_NOT_FOUND, cache)
      | Some policy \<Rightarrow>
          let key = cache_key_of M p agent_id agent_revision_id b tool policy in
          case map_of cache key of
            Some d \<Rightarrow> (bindE (verify_assurance p (de_policy d)) (\<lambda>_. Inr d), cache)
          | None \<Rightarrow>
              (case authorize_uncached M (pp_tenant_id p) (pp_platform_user_id p) agent_id agent_revision_id
                      (sb_mcp_server_id b) (sb_resource_name b) tool of
                 Inl e \<Rightarrow> (Inl e, cache)
               | Inr d \<Rightarrow> (bindE (verify_assurance p (de_policy d)) (\<lambda>_. Inr d), cache_put key d cache)))"

definition authorize_development ::
  "McpDelegationService \<Rightarrow> Principal \<Rightarrow> DraftExecutionTarget \<Rightarrow> DelegatedServerBinding \<Rightarrow> string \<Rightarrow> DelegationErrorCode + AuthorizationDecision" where
  "authorize_development M p target b tool =
     (if map_of (gs_bindings (ms_grant_policy M)) (sb_mcp_server_id b) \<noteq> Some b then Inl SERVER_NOT_BOUND
      else case map_of (gs_development_grants (ms_grant_policy M)) (pp_tenant_id p, pp_platform_user_id p, dt_agent_id target, sb_resource_name b) of
        None \<Rightarrow> Inl GRANT_NOT_FOUND
      | Some g \<Rightarrow>
          (case map_of (ts_tools (ms_tool_policy M)) tool of
             None \<Rightarrow> Inl TOOL_POLICY_NOT_FOUND
           | Some policy \<Rightarrow>
               if tool \<notin> vg_allowed_tools g \<or> tp_effect policy \<noteq> ''read'' \<or> tp_replay_mode policy \<noteq> ''reusable'' then Inl DEVELOPMENT_TOOL_DENIED
               else if \<not> tp_required_scopes policy \<subseteq> vg_allowed_scopes g then Inl SCOPE_DENIED
               else bindE (verify_assurance p policy) (\<lambda>_. Inr \<lparr>de_policy = policy, de_grant = Development g\<rparr>)))"

section \<open>Binding a run to a server\<close>

definition STREAMABLE_HTTP :: string where "STREAMABLE_HTTP = ''streamable-http''"

record MCPServer =
  sr_id :: string
  sr_tenant_id :: string
  sr_server_type :: string
  sr_headers :: json
  sr_url :: string

record BoundMcpCredentialProvider =
  bp_binding :: DelegatedServerBinding
  bp_principal :: Principal
  bp_agent_id :: string
  bp_agent_revision_id :: "string option"
  bp_draft_target :: "DraftExecutionTarget option"
  bp_read_only :: bool

definition static_auth :: "platform \<Rightarrow> json \<Rightarrow> bool" where
  "static_auth P headers =
     (case (if truthy headers then headers else JDict []) of
        JDict d \<Rightarrow> list_ex (\<lambda>(k, _). casefold P k = ''authorization'') d | _ \<Rightarrow> True)"

definition run_grant_known :: "McpDelegationService \<Rightarrow> RunContext \<Rightarrow> Principal \<Rightarrow> DelegatedServerBinding \<Rightarrow> string \<Rightarrow> bool" where
  "run_grant_known M c p b agent_id =
     (if rc_draft_target c \<noteq> None
      then has_key (gs_development_grants (ms_grant_policy M)) (rc_tenant_id c, pp_platform_user_id p, agent_id, sb_resource_name b)
      else has_key (gs_grants (ms_grant_policy M)) (rc_tenant_id c, pp_platform_user_id p, agent_id,
             (case rc_agent_revision_id c of None \<Rightarrow> [] | Some r \<Rightarrow> r), sb_resource_name b))"

definition bind_server ::
  "platform \<Rightarrow> (string \<Rightarrow> string option) \<Rightarrow> McpDelegationService \<Rightarrow> MCPServer \<Rightarrow> RunContext option
     \<Rightarrow> DelegationErrorCode + BoundMcpCredentialProvider option" where
  \<comment> \<open>\<open>bind\<close>; \<open>audience\<close> is the issuer's \<open>resource_audience\<close>\<close>
  "bind_server P audience M server run_context =
     (case map_of (gs_bindings (ms_grant_policy M)) (sr_id server) of
        None \<Rightarrow> Inr None
      | Some b \<Rightarrow>
          (case run_context of
             None \<Rightarrow> Inl CONTEXT_REQUIRED
           | Some c \<Rightarrow>
               (case (rc_principal c, (case rc_draft_target c of Some t \<Rightarrow> Some (dt_agent_id t) | None \<Rightarrow> rc_agent_id c)) of
                  (Some p, Some agent_id) \<Rightarrow>
                    if rc_draft_target c = None \<and> rc_agent_revision_id c = None then Inl CONTEXT_REQUIRED
                    else if sr_tenant_id server \<noteq> rc_tenant_id c then Inl SERVER_TENANT_MISMATCH
                    else if sr_server_type server \<noteq> STREAMABLE_HTTP then Inl TRANSPORT_NOT_SUPPORTED
                    else if static_auth P (sr_headers server) then Inl STATIC_AUTH_CONFLICT
                    else if audience (sb_resource_name b) \<noteq> Some (sb_audience b) \<or> py_strip (sr_url server) \<noteq> sb_audience b
                    then Inl SERVER_AUDIENCE_MISMATCH
                    else if \<not> run_grant_known M c p b agent_id then Inl GRANT_NOT_FOUND
                    else Inr (Some \<lparr>bp_binding = b, bp_principal = p, bp_agent_id = agent_id,
                           bp_agent_revision_id = rc_agent_revision_id c, bp_draft_target = rc_draft_target c,
                           bp_read_only = rc_mcp_read_only c\<rparr>)
                | _ \<Rightarrow> Inl CONTEXT_REQUIRED)))"

section \<open>Credentials\<close>

definition provider_authorize ::
  "McpDelegationService \<Rightarrow> decision_cache \<Rightarrow> BoundMcpCredentialProvider \<Rightarrow> string
     \<Rightarrow> (DelegationErrorCode + AuthorizationDecision) \<times> decision_cache" where
  "provider_authorize M cache bp tool =
     (case bp_draft_target bp of
        Some target \<Rightarrow> (authorize_development M (bp_principal bp) target (bp_binding bp) tool, cache)
      | None \<Rightarrow>
          (case bp_agent_revision_id bp of
             None \<Rightarrow> (Inl CONTEXT_REQUIRED, cache)
           | Some revision_id \<Rightarrow>
               (let (r, cache') = authorize M cache (bp_principal bp) (bp_agent_id bp) revision_id (bp_binding bp) tool in
                (bindE r (\<lambda>d. if bp_read_only bp \<and> (tp_effect (de_policy d) \<noteq> ''read'' \<or> tp_replay_mode (de_policy d) \<noteq> ''reusable'')
                   then Inl DEVELOPMENT_TOOL_DENIED else Inr d), cache'))))"

definition is_authorized :: "McpDelegationService \<Rightarrow> decision_cache \<Rightarrow> BoundMcpCredentialProvider \<Rightarrow> string \<Rightarrow> bool \<times> decision_cache" where
  "is_authorized M cache bp tool = (let (r, cache') = provider_authorize M cache bp tool in (\<exists>d. r = Inr d, cache'))"

definition supports_interactions :: "BoundMcpCredentialProvider \<Rightarrow> bool" where
  "supports_interactions bp \<longleftrightarrow> bp_draft_target bp = None \<and> \<not> bp_read_only bp"

record MCPRequestCredential =
  mc_bearer :: string
  mc_resource_name :: string
  mc_canonical_tool_name :: string
  mc_policy_revision :: string
  mc_credential_generation :: int
  mc_effect :: string
  mc_replay_mode :: string

definition token_request :: "BoundMcpCredentialProvider \<Rightarrow> DelegatedToolPolicy \<Rightarrow> McpAccessTokenRequest" where
  "token_request bp policy =
     \<lparr>tr_principal = bp_principal bp, tr_agent_id = bp_agent_id bp, tr_resource_name = sb_resource_name (bp_binding bp),
      tr_requested_scopes = tp_required_scopes policy,
      tr_requested_claims = (if tp_enterprise_subject policy \<noteq> None then {''enterprise_subject''} else {})
        \<union> (if tp_provider_identity policy \<noteq> None then {''provider_identity''} else {})\<rparr>"

definition credential_for ::
  "(McpAccessTokenRequest \<Rightarrow> string set \<Rightarrow> IssuanceErrorCode + IssuedMcpAccessToken) \<Rightarrow> McpDelegationService \<Rightarrow> decision_cache
     \<Rightarrow> BoundMcpCredentialProvider \<Rightarrow> string \<Rightarrow> (DelegationErrorCode + MCPRequestCredential) \<times> decision_cache" where
  "credential_for issue_token M cache bp tool =
     (let (r, cache') = provider_authorize M cache bp tool in
      (bindE r (\<lambda>d.
         case bindE (McpAccessTokenRequest_init (token_request bp (de_policy d))) (\<lambda>q.
              bindE (McpAccessGrant_init (grant_scopes (de_grant d))) (issue_token q)) of
           Inl _ \<Rightarrow> Inl TOKEN_ISSUANCE_FAILED
         | Inr tok \<Rightarrow> Inr \<lparr>mc_bearer = it_compact tok, mc_resource_name = sb_resource_name (bp_binding bp),
               mc_canonical_tool_name = tool, mc_policy_revision = ts_policy_revision (ms_tool_policy M),
               mc_credential_generation = gs_credential_generation (ms_grant_policy M),
               mc_effect = tp_effect (de_policy d), mc_replay_mode = tp_replay_mode (de_policy d)\<rparr>), cache'))"

record McpInteractionAuthorization =
  in_effect :: string
  in_replay_mode :: string
  in_policy_revision :: string
  in_credential_generation :: int

definition interaction_authorization ::
  "McpDelegationService \<Rightarrow> decision_cache \<Rightarrow> BoundMcpCredentialProvider \<Rightarrow> string
     \<Rightarrow> (DelegationErrorCode + McpInteractionAuthorization) \<times> decision_cache" where
  "interaction_authorization M cache bp tool =
     (if \<not> supports_interactions bp then (Inl DEVELOPMENT_INTERACTION_DENIED, cache)
      else let (r, cache') = provider_authorize M cache bp tool in
        (bindE r (\<lambda>d. Inr \<lparr>in_effect = tp_effect (de_policy d), in_replay_mode = tp_replay_mode (de_policy d),
           in_policy_revision = ts_policy_revision (ms_tool_policy M),
           in_credential_generation = gs_credential_generation (ms_grant_policy M)\<rparr>), cache'))"

section \<open>The cache is transparent\<close>

text \<open>A key names every argument of the decision it stores.\<close>

definition cache_ok :: "McpDelegationService \<Rightarrow> decision_cache \<Rightarrow> bool" where
  "cache_ok M cache \<longleftrightarrow> length cache \<le> MAX_CACHE \<and>
     list_all (\<lambda>(k, d). authorize_uncached M (ck_tenant_id k) (ck_platform_user_id k) (ck_agent_id k) (ck_agent_revision_id k)
       (ck_mcp_server_id k) (ck_resource_name k) (ck_tool k) = Inr d) cache"

record authorization_request =
  ar_principal :: Principal
  ar_agent_id :: string
  ar_agent_revision_id :: string
  ar_binding :: DelegatedServerBinding
  ar_tool :: string

definition authorize_fresh :: "McpDelegationService \<Rightarrow> authorization_request \<Rightarrow> DelegationErrorCode + AuthorizationDecision" where
  \<comment> \<open>the reference: no cache\<close>
  "authorize_fresh M q =
     (if map_of (ts_tools (ms_tool_policy M)) (ar_tool q) = None then Inl TOOL_POLICY_NOT_FOUND
      else bindE (authorize_uncached M (pp_tenant_id (ar_principal q)) (pp_platform_user_id (ar_principal q)) (ar_agent_id q)
             (ar_agent_revision_id q) (sb_mcp_server_id (ar_binding q)) (sb_resource_name (ar_binding q)) (ar_tool q)) (\<lambda>d.
           bindE (verify_assurance (ar_principal q) (de_policy d)) (\<lambda>_. Inr d)))"

fun authorize_all ::
  "McpDelegationService \<Rightarrow> decision_cache \<Rightarrow> authorization_request list
     \<Rightarrow> (DelegationErrorCode + AuthorizationDecision) list \<times> decision_cache" where
  "authorize_all M cache [] = ([], cache)"
| "authorize_all M cache (q # qs) =
     (let (r, cache1) = authorize M cache (ar_principal q) (ar_agent_id q) (ar_agent_revision_id q) (ar_binding q) (ar_tool q);
          (rs, cache2) = authorize_all M cache1 qs in (r # rs, cache2))"

lemma cache_ok_empty [simp]: "cache_ok M []"
  by (simp add: cache_ok_def)

lemma cache_put_ok:
  assumes "cache_ok M cache" "authorize_uncached M (ck_tenant_id k) (ck_platform_user_id k) (ck_agent_id k) (ck_agent_revision_id k)
       (ck_mcp_server_id k) (ck_resource_name k) (ck_tool k) = Inr d"
  shows "cache_ok M (cache_put k d cache)"
proof -
  have "0 < MAX_CACHE" by (simp add: MAX_CACHE_def)
  with assms show ?thesis
    by (auto simp: cache_ok_def cache_put_def list_all_iff dest: list.set_sel(2) [rotated])
qed

lemma authorize_transparent:
  assumes "cache_ok M cache"
  shows "fst (authorize M cache p a r b tool) = authorize_fresh M \<lparr>ar_principal = p, ar_agent_id = a, ar_agent_revision_id = r, ar_binding = b, ar_tool = tool\<rparr>
    \<and> cache_ok M (snd (authorize M cache p a r b tool))"
proof (cases "map_of (ts_tools (ms_tool_policy M)) tool")
  case None
  with assms show ?thesis by (simp add: authorize_def authorize_fresh_def)
next
  case (Some policy)
  let ?key = "cache_key_of M p a r b tool policy"
  let ?decision = "authorize_uncached M (pp_tenant_id p) (pp_platform_user_id p) a r (sb_mcp_server_id b) (sb_resource_name b) tool"
  show ?thesis
  proof (cases "map_of cache ?key")
    case (Some d)
    then have "?decision = Inr d"
      using assms map_of_SomeD [OF Some] by (auto simp: cache_ok_def list_all_iff cache_key_of_def)
    with assms Some \<open>map_of _ tool = _\<close> show ?thesis by (simp add: authorize_def authorize_fresh_def Let_def)
  next
    case None
    show ?thesis
    proof (cases ?decision)
      case (Inl e)
      with assms None \<open>map_of _ tool = _\<close> show ?thesis by (simp add: authorize_def authorize_fresh_def Let_def)
    next
      case (Inr d)
      then have "cache_ok M (cache_put ?key d cache)"
        by (intro cache_put_ok [OF assms]) (simp add: cache_key_of_def)
      with Inr None \<open>map_of _ tool = _\<close> show ?thesis by (simp add: authorize_def authorize_fresh_def Let_def)
    qed
  qed
qed

lemma authorize_all_transparent:
  "cache_ok M cache \<Longrightarrow> fst (authorize_all M cache qs) = map (authorize_fresh M) qs \<and> cache_ok M (snd (authorize_all M cache qs))"
proof (induction qs arbitrary: cache)
  case (Cons q qs)
  let ?step = "authorize M cache (ar_principal q) (ar_agent_id q) (ar_agent_revision_id q) (ar_binding q) (ar_tool q)"
  have "fst ?step = authorize_fresh M q \<and> cache_ok M (snd ?step)"
    using authorize_transparent [OF Cons.prems, of "ar_principal q" "ar_agent_id q" "ar_agent_revision_id q" "ar_binding q" "ar_tool q"]
    by (cases q) simp
  with Cons.IH [of "snd ?step"] show ?case by (simp add: split_def Let_def)
qed simp

text \<open>Property C21. Caching changes no answer: a service that answers any sequence of authorisations from
  its cache of decisions gives each request the answer that a fresh evaluation of the policy, with the
  assurance of that very request, would give; the cache never holds more than 4096 decisions.\<close>

theorem authorization_cache_transparent:
  "fst (authorize_all M [] qs) = map (authorize_fresh M) qs \<and> length (snd (authorize_all M [] qs)) \<le> 4096"
  using authorize_all_transparent [of M "[]" qs] by (simp add: cache_ok_def MAX_CACHE_def)

section \<open>What a credential allows\<close>

lemma authorize_fresh_Inr:
  assumes "authorize_fresh M q = Inr d"
  shows "\<exists>g. map_of (ts_tools (ms_tool_policy M)) (ar_tool q) = Some (de_policy d) \<and> de_grant d = Published g \<and>
    map_of (gs_grants (ms_grant_policy M)) (pp_tenant_id (ar_principal q), pp_platform_user_id (ar_principal q), ar_agent_id q,
      ar_agent_revision_id q, sb_resource_name (ar_binding q)) = Some g \<and> tp_required_scopes (de_policy d) \<subseteq> dg_allowed_scopes g \<and>
    verify_assurance (ar_principal q) (de_policy d) = Inr ()"
  using assms
  by (auto simp: authorize_fresh_def authorize_uncached_def bindE_eq_Inr split: if_splits option.splits)

lemma authorize_development_Inr:
  assumes "authorize_development M p t b tool = Inr d"
  shows "\<exists>g. map_of (ts_tools (ms_tool_policy M)) tool = Some (de_policy d) \<and> de_grant d = Development g \<and>
    map_of (gs_development_grants (ms_grant_policy M)) (pp_tenant_id p, pp_platform_user_id p, dt_agent_id t, sb_resource_name b) = Some g \<and>
    tool \<in> vg_allowed_tools g \<and> tp_effect (de_policy d) = ''read'' \<and> tp_replay_mode (de_policy d) = ''reusable'' \<and>
    tp_required_scopes (de_policy d) \<subseteq> vg_allowed_scopes g \<and> verify_assurance p (de_policy d) = Inr ()"
  using assms by (auto simp: authorize_development_def bindE_eq_Inr split: if_splits option.splits)

text \<open>What a run is bound to grants, whatever the state of the cache.\<close>

definition authority :: "McpDelegationService \<Rightarrow> BoundMcpCredentialProvider \<Rightarrow> string \<Rightarrow> DelegatedToolPolicy \<Rightarrow> bool" where
  "authority M bp tool policy \<longleftrightarrow>
     map_of (ts_tools (ms_tool_policy M)) tool = Some policy \<and> verify_assurance (bp_principal bp) policy = Inr () \<and>
     (let p = bp_principal bp; resource = sb_resource_name (bp_binding bp) in
      case bp_draft_target bp of
        Some t \<Rightarrow> opt_ex (\<lambda>g. tool \<in> vg_allowed_tools g \<and> tp_required_scopes policy \<subseteq> vg_allowed_scopes g)
          (map_of (gs_development_grants (ms_grant_policy M)) (pp_tenant_id p, pp_platform_user_id p, dt_agent_id t, resource))
      | None \<Rightarrow> opt_ex (\<lambda>revision. opt_ex (\<lambda>g. tp_required_scopes policy \<subseteq> dg_allowed_scopes g)
          (map_of (gs_grants (ms_grant_policy M)) (pp_tenant_id p, pp_platform_user_id p, bp_agent_id bp, revision, resource)))
          (bp_agent_revision_id bp)) \<and>
     (bp_draft_target bp \<noteq> None \<or> bp_read_only bp \<longrightarrow> tp_effect policy = ''read'' \<and> tp_replay_mode policy = ''reusable'')"

lemma provider_authorize_authority:
  assumes "cache_ok M cache" "provider_authorize M cache bp tool = (Inr d, cache')"
  shows "authority M bp tool (de_policy d) \<and> tp_required_scopes (de_policy d) \<subseteq> grant_scopes (de_grant d)"
proof (cases "bp_draft_target bp")
  case (Some t)
  with assms(2) have "authorize_development M (bp_principal bp) t (bp_binding bp) tool = Inr d"
    by (simp add: provider_authorize_def)
  from authorize_development_Inr [OF this] Some show ?thesis by (auto simp: authority_def Let_def)
next
  case None
  with assms(2) obtain revision where revision: "bp_agent_revision_id bp = Some revision"
    by (auto simp: provider_authorize_def split: option.splits)
  define q where "q = \<lparr>ar_principal = bp_principal bp, ar_agent_id = bp_agent_id bp, ar_agent_revision_id = revision,
     ar_binding = bp_binding bp, ar_tool = tool\<rparr>"
  have "authorize_fresh M q = Inr d" "bp_read_only bp \<longrightarrow> tp_effect (de_policy d) = ''read'' \<and> tp_replay_mode (de_policy d) = ''reusable''"
    using assms(2) authorize_transparent [OF assms(1), of "bp_principal bp" "bp_agent_id bp" revision "bp_binding bp" tool]
    by (auto simp: provider_authorize_def None revision q_def split_def Let_def bindE_eq_Inr split: if_splits)
  with authorize_fresh_Inr [of M q d] None revision show ?thesis by (auto simp: authority_def Let_def q_def)
qed

text \<open>The interface of the issuer: what \<open>_TokenIssuer\<close> promises to its client.\<close>

locale token_issuer =
  fixes issue_token :: "McpAccessTokenRequest \<Rightarrow> string set \<Rightarrow> IssuanceErrorCode + IssuedMcpAccessToken"
    and audience :: "string \<Rightarrow> string option"
  assumes issued_scopes: "issue_token q allowed = Inr tok \<Longrightarrow> it_scopes tok = tr_requested_scopes q \<and> tr_requested_scopes q \<subseteq> allowed"
    and issued_resource: "issue_token q allowed = Inr tok \<Longrightarrow> audience (tr_resource_name q) \<noteq> None"
begin

lemma credential_authority:
  assumes "cache_ok M cache" "credential_for issue_token M cache bp tool = (Inr cred, cache')"
  obtains policy tok allowed where "authority M bp tool policy" "issue_token (token_request bp policy) allowed = Inr tok"
    "it_scopes tok = tp_required_scopes policy" "mc_bearer cred = it_compact tok" "mc_effect cred = tp_effect policy"
    "mc_replay_mode cred = tp_replay_mode policy" "mc_canonical_tool_name cred = tool"
    "mc_resource_name cred = sb_resource_name (bp_binding bp)" "audience (mc_resource_name cred) \<noteq> None"
proof -
  obtain r cache1 where r: "provider_authorize M cache bp tool = (r, cache1)" by fastforce
  with assms(2) obtain d where d: "r = Inr d" by (cases r) (auto simp: credential_for_def)
  from assms(2) r d obtain tok where tok: "issue_token (token_request bp (de_policy d)) (grant_scopes (de_grant d)) = Inr tok"
    and cred: "mc_bearer cred = it_compact tok" "mc_effect cred = tp_effect (de_policy d)" "mc_replay_mode cred = tp_replay_mode (de_policy d)"
      "mc_canonical_tool_name cred = tool" "mc_resource_name cred = sb_resource_name (bp_binding bp)"
    by (auto simp: credential_for_def bindE_eq_Inr McpAccessTokenRequest_init_def McpAccessGrant_init_def split: sum.splits if_splits)
  moreover have "authority M bp tool (de_policy d)" using provider_authorize_authority assms(1) r d by blast
  moreover have "it_scopes tok = tp_required_scopes (de_policy d)" using issued_scopes [OF tok] by (simp add: token_request_def)
  moreover have "audience (mc_resource_name cred) \<noteq> None" using issued_resource [OF tok] cred by (simp add: token_request_def)
  ultimately show ?thesis using that by blast
qed

end

interpretation platform_issuer: token_issuer "issue fr P S now jti" "resource_audience P" for fr P S now jti
proof
  fix q allowed tok assume "issue fr P S now jti q allowed = Inr tok"
  then obtain r where r: "profile_resource P (tr_resource_name q) = Some r" "it_scopes tok = tr_requested_scopes q"
    "evaluate_issuance_policy (issuance_facts r q allowed) = None"
    by (rule issue_Inr)
  then show "it_scopes tok = tr_requested_scopes q \<and> tr_requested_scopes q \<subseteq> allowed" "resource_audience P (tr_resource_name q) \<noteq> None"
    by (auto simp: evaluate_issuance_policy_def issuance_facts_def Let_def resource_audience_def split: if_splits)
qed

lemma bind_server_Inr:
  assumes "bind_server P audience M server (Some c) = Inr (Some bp)"
  shows "map_of (gs_bindings (ms_grant_policy M)) (sr_id server) = Some (bp_binding bp) \<and> rc_principal c = Some (bp_principal bp) \<and>
    sr_tenant_id server = rc_tenant_id c \<and> sr_server_type server = STREAMABLE_HTTP \<and> \<not> static_auth P (sr_headers server) \<and>
    audience (sb_resource_name (bp_binding bp)) = Some (sb_audience (bp_binding bp)) \<and> py_strip (sr_url server) = sb_audience (bp_binding bp) \<and>
    bp_draft_target bp = rc_draft_target c \<and> bp_read_only bp = rc_mcp_read_only c \<and> bp_agent_revision_id bp = rc_agent_revision_id c \<and>
    (rc_draft_target c = None \<longrightarrow> rc_agent_id c = Some (bp_agent_id bp))"
  using assms by (auto simp: bind_server_def split: option.splits if_splits)

lemma opt_ex_iff: "opt_ex Q x \<longleftrightarrow> (\<exists>y. x = Some y \<and> Q y)"
  by (cases x) auto

lemma RunContext_tenant: "RunContext_init c = Inr c \<Longrightarrow> rc_principal c = Some p \<Longrightarrow> pp_tenant_id p = rc_tenant_id c"
  by (auto simp: RunContext_init_def split: if_splits)

text \<open>Property C20. A credential for a tool call goes out only to the server that the policy binds, over the
  supported transport, at the audience the issuer knows and in the run's own tenant; the tool is a
  declared one and the token carries exactly the scopes it requires. A draft run uses a development grant
  of its user for its agent that names the tool; any other run uses the grant of its user for
  exactly this agent revision, and no run borrows the grant of the other kind. A draft or read-only
  run only ever gets tools that read and can be replayed.\<close>

theorem credential_needs_grant:
  assumes "RunContext_init c = Inr c" "bind_server Pl (resource_audience prof) M server (Some c) = Inr (Some bp)"
    "cache = snd (authorize_all M [] qs)"
    "credential_for (issue fr prof S now jti) M cache bp tool = (Inr cred, cache')"
  shows "\<exists>p b policy tok. rc_principal c = Some p \<and> map_of (gs_bindings (ms_grant_policy M)) (sr_id server) = Some b \<and>
    sr_tenant_id server = rc_tenant_id c \<and> sr_server_type server = STREAMABLE_HTTP \<and> py_strip (sr_url server) = sb_audience b \<and>
    resource_audience prof (sb_resource_name b) = Some (sb_audience b) \<and>
    map_of (ts_tools (ms_tool_policy M)) tool = Some policy \<and> it_scopes tok = tp_required_scopes policy \<and>
    mc_bearer cred = it_compact tok \<and> mc_effect cred = tp_effect policy \<and>
    (\<exists>allowed. issue fr prof S now jti (token_request bp policy) allowed = Inr tok) \<and>
    (case rc_draft_target c of
       Some t \<Rightarrow> \<exists>g. map_of (gs_development_grants (ms_grant_policy M)) (rc_tenant_id c, pp_platform_user_id p, dt_agent_id t, sb_resource_name b) = Some g \<and>
         tool \<in> vg_allowed_tools g \<and> it_scopes tok \<subseteq> vg_allowed_scopes g
     | None \<Rightarrow> \<exists>a r g. rc_agent_id c = Some a \<and> rc_agent_revision_id c = Some r \<and>
         map_of (gs_grants (ms_grant_policy M)) (rc_tenant_id c, pp_platform_user_id p, a, r, sb_resource_name b) = Some g \<and>
         it_scopes tok \<subseteq> dg_allowed_scopes g) \<and>
    (rc_draft_target c \<noteq> None \<or> rc_mcp_read_only c \<longrightarrow> mc_effect cred = ''read'' \<and> mc_replay_mode cred = ''reusable'')"
proof -
  have ok: "cache_ok M cache" using authorize_all_transparent [of M "[]" qs] assms(3) by simp
  obtain policy tok allowed where a: "authority M bp tool policy" and t: "issue fr prof S now jti (token_request bp policy) allowed = Inr tok"
    and scopes: "it_scopes tok = tp_required_scopes policy"
    and cred: "mc_bearer cred = it_compact tok" "mc_effect cred = tp_effect policy" "mc_replay_mode cred = tp_replay_mode policy"
    by (rule platform_issuer.credential_authority [OF ok assms(4)])
  note b = bind_server_Inr [OF assms(2)]
  then have tenant: "pp_tenant_id (bp_principal bp) = rc_tenant_id c" using RunContext_tenant [OF assms(1)] by blast
  show ?thesis
  proof (intro exI conjI)
    show "case rc_draft_target c of
        Some t \<Rightarrow> \<exists>g. map_of (gs_development_grants (ms_grant_policy M))
          (rc_tenant_id c, pp_platform_user_id (bp_principal bp), dt_agent_id t, sb_resource_name (bp_binding bp)) = Some g \<and>
          tool \<in> vg_allowed_tools g \<and> it_scopes tok \<subseteq> vg_allowed_scopes g
      | None \<Rightarrow> \<exists>a r g. rc_agent_id c = Some a \<and> rc_agent_revision_id c = Some r \<and>
          map_of (gs_grants (ms_grant_policy M)) (rc_tenant_id c, pp_platform_user_id (bp_principal bp), a, r, sb_resource_name (bp_binding bp)) = Some g \<and>
          it_scopes tok \<subseteq> dg_allowed_scopes g"
      using a b by (auto simp: authority_def Let_def scopes tenant opt_ex_iff split: option.splits)
    show "rc_draft_target c \<noteq> None \<or> rc_mcp_read_only c \<longrightarrow> mc_effect cred = ''read'' \<and> mc_replay_mode cred = ''reusable''"
      using a b by (auto simp: authority_def cred)
  qed (use a b t scopes cred in \<open>auto simp: authority_def\<close>)
qed

definition demo_service :: McpDelegationService where
  "demo_service = \<lparr>ms_tool_policy = demo_tools, ms_grant_policy = demo_grants\<rparr>"

definition demo_run :: RunContext where
  "demo_run = \<lparr>rc_tenant_id = ''t1'', rc_principal = Some demo_principal, rc_agent_id = Some ''a'', rc_agent_revision_id = Some ''v'',
     rc_draft_target = None, rc_mcp_read_only = False\<rparr>"

definition demo_server :: MCPServer where
  "demo_server = \<lparr>sr_id = ''m'', sr_tenant_id = ''t1'', sr_server_type = STREAMABLE_HTTP, sr_headers = JNull, sr_url = ''https://h/''\<rparr>"

definition demo_provider :: BoundMcpCredentialProvider where
  "demo_provider = \<lparr>bp_binding = demo_binding, bp_principal = demo_principal, bp_agent_id = ''a'', bp_agent_revision_id = Some ''v'',
     bp_draft_target = None, bp_read_only = False\<rparr>"

lemmas demo_defs = demo_service_def demo_run_def demo_server_def demo_provider_def demo_tools_def demo_tool_def demo_grants_def demo_binding_def

lemma demo_bind: "bind_server demo_platform (resource_audience demo_profile) demo_service demo_server (Some demo_run) = Inr (Some demo_provider)"
  by (simp add: bind_server_def demo_defs static_auth_def resource_audience_def profile_resource_def demo_profile_def demo_resource_def
      demo_strip run_grant_known_def has_key_def demo_principal_def)

lemma demo_credential:
  "\<exists>cred cache'. credential_for (issue fr demo_profile demo_signer \<lparr>instant = 0, utcoffset = Some 0\<rparr> (replicate 16 (CHR ''j'')))
     demo_service [] demo_provider ''t'' = (Inr cred, cache')"
proof -
  have q: "token_request demo_provider demo_tool = demo_request"
    by (simp add: token_request_def demo_defs demo_request_def)
  have init: "McpAccessTokenRequest_init demo_request = Inr demo_request" "McpAccessGrant_init {''s''} = Inr {''s''}"
    by (simp_all add: McpAccessTokenRequest_init_def McpAccessGrant_init_def demo_request_def nonempty_text_def graphic_def scope_set_def)
  obtain tok where tok: "issue fr demo_profile demo_signer \<lparr>instant = 0, utcoffset = Some 0\<rparr> (replicate 16 (CHR ''j'')) demo_request {''s''} = Inr tok"
    using demo_issue by blast
  obtain g cache' where "provider_authorize demo_service [] demo_provider ''t'' = (Inr \<lparr>de_policy = demo_tool, de_grant = g\<rparr>, cache')"
    "grant_scopes g = {''s''}"
    by (simp add: provider_authorize_def authorize_def authorize_uncached_def verify_assurance_def Let_def demo_defs demo_principal_def)
  then show ?thesis by (simp add: credential_for_def q init tok)
qed

theorem credential_needs_grant_witness:
  "\<exists>cred cache'. credential_for (issue (\<lambda>_. []) demo_profile demo_signer \<lparr>instant = 0, utcoffset = Some 0\<rparr> (replicate 16 (CHR ''j'')))
     demo_service [] demo_provider ''t'' = (Inr cred, cache') \<and> mc_effect cred = ''read''"
proof -
  obtain cred cache' where c: "credential_for (issue (\<lambda>_. []) demo_profile demo_signer \<lparr>instant = 0, utcoffset = Some 0\<rparr> (replicate 16 (CHR ''j'')))
     demo_service [] demo_provider ''t'' = (Inr cred, cache')"
    using demo_credential by blast
  have "RunContext_init demo_run = Inr demo_run"
  proof -
    have "\<not> blank ''a''" "\<not> blank ''v''" by (simp_all add: blank_def demo_strip)
    then show ?thesis by (simp add: RunContext_init_def demo_run_def demo_principal_def)
  qed
  from credential_needs_grant [OF this demo_bind _ c, of "[]"] c show ?thesis
    by (auto simp: demo_service_def demo_tools_def demo_tool_def)
qed

end
