(* ===== verification/Mcp_Reauth.thy ===== *)
theory Mcp_Reauth
  imports Delegation Mcp_Service
begin

text \<open>
  The executor of the recovery worker (\<open>src/api/identity/mcp_interactions/runtime.py\<close>): before a stored
  tool call is resumed, identity, membership, user, server and policy are read again and a fresh
  credential provider is bound.

  A table is a list of rows; a query that selects one row takes the first match, a lookup by primary key
  is the row with this key. The active delegation service and its cache are arguments. The result is
  the session that resumes the call; the call itself is the executor parameter of \<open>Mcp_Service\<close>.
\<close>

section \<open>The tables that are read\<close>

record UserTenant =
  ut_user_id :: string
  ut_tenant_id :: string
  ut_role :: string
  ut_status :: "string option"

record User =
  us_id :: string
  us_is_active :: bool
  us_status :: "string option"

record EnterpriseSubjectLink =
  el_tenant_id :: string
  el_user_id :: string
  el_subject_type :: string
  el_subject_value :: string
  el_issuer :: string
  el_issuer_tenant :: string
  el_state :: string
  el_verified_at :: "datetime option"

record McpInteractionPresentation =
  mp_interaction_id :: string
  mp_tenant_id :: string
  mp_revision :: int
  mp_provider :: string
  mp_provider_account_id :: string
  mp_binding_id :: string
  mp_binding_generation :: int

record IdentityProviderAccount =
  pa_id :: string
  pa_tenant_id :: string
  pa_provider :: string
  pa_provider_tenant_key :: string
  pa_identity_health_state :: string

record ChannelBinding =
  cb_id :: string
  cb_channel_id :: string
  cb_enabled :: bool
  cb_generation :: int

record ChatChannel =
  cc_id :: string
  cc_tenant_id :: string
  cc_channel :: string
  cc_status :: int

record IdentityProviderChannelLink =
  ln_channel_id :: string
  ln_provider_account_id :: string
  ln_tenant_id :: string
  ln_provider :: string

record authority_db =
  ad_identities :: "ExternalIdentityRecord list"
  ad_memberships :: "UserTenant list"
  ad_users :: "User list"
  ad_servers :: "MCPServer list"
  ad_subjects :: "EnterpriseSubjectLink list"
  ad_presentations :: "McpInteractionPresentation list"
  ad_accounts :: "IdentityProviderAccount list"
  ad_bindings :: "ChannelBinding list"
  ad_channels :: "ChatChannel list"
  ad_links :: "IdentityProviderChannelLink list"

section \<open>Reading the live authority\<close>

datatype reauth_error =
    Denied \<comment> \<open>\<open>InteractionStateError(REAUTHORIZATION_DENIED)\<close>\<close>
  | PrincipalError PrincipalErrorCode
  | DelegationError DelegationErrorCode
  | ContextError run_context_error

type_synonym provider_row =
  "McpInteractionPresentation \<times> IdentityProviderAccount \<times> ChannelBinding \<times> ChatChannel \<times> IdentityProviderChannelLink"

definition provider_rows :: "authority_db \<Rightarrow> InteractionResume \<Rightarrow> ExternalIdentityRecord \<Rightarrow> provider_row list" where
  \<comment> \<open>the joins, then the conditions of the query\<close>
  "provider_rows db resume i =
     [(p, a, b, c, l).
        p \<leftarrow> ad_presentations db,
        a \<leftarrow> ad_accounts db, pa_id a = mp_provider_account_id p \<and> pa_tenant_id a = mp_tenant_id p \<and> pa_provider a = mp_provider p,
        b \<leftarrow> ad_bindings db, cb_id b = mp_binding_id p,
        c \<leftarrow> ad_channels db, cc_id c = cb_channel_id b,
        l \<leftarrow> ad_links db, ln_channel_id l = cc_id c \<and> ln_provider_account_id l = pa_id a,
        Some (mp_interaction_id p) = rq_interaction_id (rs_request resume) \<and> mp_tenant_id p = rq_tenant_id (rs_request resume) \<and>
        mp_revision p = rs_revision resume \<and> mp_provider p = ei_provider i \<and>
        pa_provider_tenant_key a = ei_provider_tenant_key i \<and> pa_identity_health_state a = ''healthy'' \<and>
        cb_enabled b \<and> cb_generation b = mp_binding_generation p \<and>
        cc_tenant_id c = rq_tenant_id (rs_request resume) \<and> cc_channel c = ei_provider i \<and> cc_status c = 1 \<and>
        ln_tenant_id l = rq_tenant_id (rs_request resume) \<and> ln_provider l = ei_provider i]"

definition load_live_provider_identity ::
  "(string \<Rightarrow> bool) \<Rightarrow> authority_db \<Rightarrow> InteractionResume \<Rightarrow> ExternalIdentityRecord \<Rightarrow> reauth_error + VerifiedProviderIdentity" where
  "load_live_provider_identity printable db resume i =
     (let r = rs_request resume in
      case (take 2 (provider_rows db resume i), ei_verified_at i) of
        ([(p, a, b, c, l)], Some verified_at) \<Rightarrow>
          if mp_provider_account_id p \<noteq> pa_id a \<or> mp_binding_id p \<noteq> cb_id b \<or> mp_binding_generation p \<noteq> cb_generation b
             \<or> cb_channel_id b \<noteq> cc_id c \<or> ln_channel_id l \<noteq> cc_id c \<or> ln_provider_account_id l \<noteq> pa_id a
             \<or> pa_tenant_id a \<noteq> rq_tenant_id r \<or> pa_provider a \<noteq> ei_provider i
             \<or> pa_provider_tenant_key a \<noteq> ei_provider_tenant_key i \<or> pa_identity_health_state a \<noteq> ''healthy''
          then Inl Denied
          else map_sum PrincipalError id (VerifiedProviderIdentity_init printable
            \<lparr>vp_platform_user_id = rq_platform_user_id r, vp_tenant_id = rq_tenant_id r, vp_provider = ei_provider i,
             vp_provider_tenant = ei_provider_tenant_key i, vp_provider_account_id = pa_id a, vp_subject_type = ei_subject_type i,
             vp_subject = ei_subject_value i, vp_verified_at = verified_at\<rparr>)
      | _ \<Rightarrow> Inl Denied)"

definition live_identity :: "authority_db \<Rightarrow> InteractionRequest \<Rightarrow> string \<Rightarrow> ExternalIdentityRecord option" where
  "live_identity db r identity_id = find (\<lambda>i. ei_id i = identity_id \<and> ei_tenant_id i = rq_tenant_id r
     \<and> ei_user_id i = rq_platform_user_id r \<and> ei_state i = ''active'') (ad_identities db)"

definition live_membership :: "authority_db \<Rightarrow> InteractionRequest \<Rightarrow> UserTenant option" where
  "live_membership db r = find (\<lambda>m. ut_tenant_id m = rq_tenant_id r \<and> ut_user_id m = rq_platform_user_id r
     \<and> ut_status m = Some ''1'') (ad_memberships db)"

definition live_subject :: "authority_db \<Rightarrow> InteractionRequest \<Rightarrow> EnterpriseSubjectRequirement \<Rightarrow> EnterpriseSubjectLink option" where
  "live_subject db r req = find (\<lambda>l. el_tenant_id l = rq_tenant_id r \<and> el_user_id l = rq_platform_user_id r
     \<and> el_subject_type l = er_subject_type req \<and> el_issuer l = er_issuer req \<and> el_issuer_tenant l = er_issuer_tenant req
     \<and> el_state l = ''active'') (ad_subjects db)"

definition required_subject ::
  "authority_db \<Rightarrow> InteractionRequest \<Rightarrow> DelegatedToolPolicy option \<Rightarrow> reauth_error + (EnterpriseSubjectLink \<times> datetime) option" where
  \<comment> \<open>the link with its time of verification\<close>
  "required_subject db r policy =
     (case Option.bind policy tp_enterprise_subject of
        None \<Rightarrow> Inr None
      | Some req \<Rightarrow>
          (case live_subject db r req of
             None \<Rightarrow> Inl Denied
           | Some l \<Rightarrow> (case el_verified_at l of None \<Rightarrow> Inl Denied | Some t \<Rightarrow> Inr (Some (l, t)))))"

definition subject_evidence ::
  "InteractionRequest \<Rightarrow> (EnterpriseSubjectLink \<times> datetime) option \<Rightarrow> PrincipalErrorCode + VerifiedEnterpriseSubjectEvidence option" where
  "subject_evidence r subject =
     (case subject of
        None \<Rightarrow> Inr None
      | Some (l, t) \<Rightarrow>
          bindE (EnterpriseSubject_init \<lparr>es_subject_type = el_subject_type l, es_subject = el_subject_value l, es_issuer = el_issuer l,
                   es_issuer_tenant = el_issuer_tenant l, es_verified_at = t\<rparr>) (\<lambda>e.
          bindE (VerifiedEnterpriseSubjectEvidence_init \<lparr>ve_platform_user_id = rq_platform_user_id r, ve_tenant_id = rq_tenant_id r,
                   ve_enterprise_subject = e\<rparr>) (\<lambda>v. Inr (Some v))))"

definition live_resolution :: "ExternalIdentityRecord \<Rightarrow> UserTenant \<Rightarrow> IdentityResolutionResult" where
  "live_resolution i m =
     \<lparr>ir_status = RESOLVED, ir_error_code = None, ir_identity = Some (i\<lparr>ei_attributes := sort_key fst (ei_attributes i)\<rparr>),
      ir_membership = Some \<lparr>um_user_id = ut_user_id m, um_tenant_id = ut_tenant_id m, um_role = ut_role m\<rparr>,
      ir_provisioning_action = None, ir_provisioning_policy_revision = None, ir_provider_verification_required = False\<rparr>"

definition load_live_authority ::
  "(string \<Rightarrow> bool) \<Rightarrow> McpDelegationService \<Rightarrow> authority_db option \<Rightarrow> datetime \<Rightarrow> InteractionResume
     \<Rightarrow> reauth_error + Principal \<times> MCPServer" where
  \<comment> \<open>the database is \<open>None\<close> when no session factory is configured\<close>
  "load_live_authority printable M database now resume =
     (let r = rs_request resume in
      case (database, rq_external_identity_id r) of
        (Some db, Some identity_id) \<Rightarrow>
          (case (live_identity db r identity_id, live_membership db r, find (\<lambda>u. us_id u = rq_platform_user_id r) (ad_users db),
                 find (\<lambda>s. sr_id s = rq_mcp_server_id r) (ad_servers db)) of
             (Some i, Some m, Some u, Some server) \<Rightarrow>
               (case ei_verified_at i of
                  None \<Rightarrow> Inl Denied
                | Some identity_verified_at \<Rightarrow>
                    if \<not> us_is_active u \<or> us_status u \<noteq> Some ''1'' \<or> sr_tenant_id server \<noteq> rq_tenant_id r \<or> sr_url server \<noteq> rq_resource_uri r
                    then Inl Denied
                    else
                      let policy = map_of (ts_tools (ms_tool_policy M)) (rq_tool_name r) in
                      bindE (required_subject db r policy) (\<lambda>subject.
                      bindE (if Option.bind policy tp_provider_identity = None then Inr None
                             else bindE (load_live_provider_identity printable db resume i) (\<lambda>v. Inr (Some v))) (\<lambda>provider_identity.
                      bindE (map_sum PrincipalError id (AuthenticationContext_init
                        \<lparr>ac_source = ENTERPRISE_IDENTITY, ac_assurance = (if subject \<noteq> None then ENTERPRISE_VERIFIED else DIRECTORY_VERIFIED),
                         ac_validated_at = now, ac_authenticated_at = None,
                         ac_assurance_verified_at = Some (case subject of Some (_, t) \<Rightarrow> t | None \<Rightarrow> identity_verified_at),
                         ac_provider = Some (ei_provider i), ac_external_identity_id = Some (ei_id i)\<rparr>)) (\<lambda>authentication.
                      bindE (map_sum PrincipalError id (subject_evidence r subject)) (\<lambda>evidence.
                      bindE (map_sum PrincipalError id (build_principal_from_resolved_identity (live_resolution i m) authentication
                        evidence provider_identity)) (\<lambda>principal.
                      Inr (principal, server)))))))
           | _ \<Rightarrow> Inl Denied)
      | _ \<Rightarrow> Inl Denied)"

section \<open>Resuming a call\<close>

fun effect_value :: "InteractionEffect \<Rightarrow> string" where
  "effect_value READ = ''read''"
| "effect_value PREPARE = ''prepare''"
| "effect_value SIDE_EFFECT = ''side_effect''"

record tool_call_session =
  \<comment> \<open>the arguments of \<open>MCPToolCallSession\<close>\<close>
  ss_server :: MCPServer
  ss_call_context :: RunContext
  ss_credential_provider :: BoundMcpCredentialProvider
  ss_legacy_interaction_tools :: "string set"
  ss_tool_output_schemas :: "(string \<times> pydict) list option"

definition run_context_of :: "InteractionRequest \<Rightarrow> Principal \<Rightarrow> RunContext" where
  "run_context_of r p = \<lparr>rc_tenant_id = rq_tenant_id r, rc_principal = Some p, rc_agent_id = Some (rq_agent_id r),
     rc_agent_revision_id = Some (rq_agent_revision_id r), rc_draft_target = None, rc_mcp_read_only = False\<rparr>"

definition resolve_mcp_credential_provider ::
  "platform \<Rightarrow> (string \<Rightarrow> string option) \<Rightarrow> McpDelegationService option \<Rightarrow> MCPServer \<Rightarrow> RunContext option
     \<Rightarrow> DelegationErrorCode + BoundMcpCredentialProvider option" where
  "resolve_mcp_credential_provider P audience active server c =
     (case active of None \<Rightarrow> Inr None | Some M \<Rightarrow> bind_server P audience M server c)"

definition new_session :: "InteractionRequest \<Rightarrow> MCPServer \<Rightarrow> RunContext \<Rightarrow> BoundMcpCredentialProvider \<Rightarrow> tool_call_session" where
  "new_session r server c bp =
     \<lparr>ss_server = server, ss_call_context = c, ss_credential_provider = bp,
      ss_legacy_interaction_tools = (if prefix ''legacy.'' (rq_request_state r) then {rq_tool_name r} else {}),
      ss_tool_output_schemas = map_option (\<lambda>s. [(rq_tool_name r, s)]) (rq_output_schema r)\<rparr>"

definition reauthorize ::
  "platform \<Rightarrow> (string \<Rightarrow> bool) \<Rightarrow> (string \<Rightarrow> string option) \<Rightarrow> McpDelegationService \<Rightarrow> bool \<Rightarrow> authority_db option \<Rightarrow> datetime
     \<Rightarrow> decision_cache \<Rightarrow> InteractionResume \<Rightarrow> (reauth_error + tool_call_session) \<times> decision_cache" where
  \<comment> \<open>\<open>execute\<close> up to the remote call; \<open>M\<close> is the delegation service, \<open>active\<close> says that it is published\<close>
  "reauthorize P printable audience M active database now cache resume =
     (let r = rs_request resume in
      case bindE (load_live_authority printable M database now resume) (\<lambda>(principal, server).
           bindE (map_sum ContextError id (RunContext_init (run_context_of r principal))) (\<lambda>c.
           bindE (map_sum DelegationError id (resolve_mcp_credential_provider P audience (if active then Some M else None) server (Some c))) (\<lambda>bp.
           case bp of None \<Rightarrow> Inl Denied | Some bp \<Rightarrow> Inr (server, c, bp)))) of
        Inl e \<Rightarrow> (Inl e, cache)
      | Inr (server, c, bp) \<Rightarrow>
          (let (allowed, cache1) = is_authorized M cache bp (rq_tool_name r) in
           if \<not> allowed then (Inl Denied, cache1)
           else
             let (current, cache2) = interaction_authorization M cache1 bp (rq_tool_name r) in
             (bindE (map_sum DelegationError id current) (\<lambda>a.
                if in_effect a \<notin> {''read'', ''prepare''} \<or> in_effect a \<noteq> effect_value (rq_effect r) \<or> in_replay_mode a \<noteq> rq_replay_mode r
                then Inl Denied else Inr (new_session r server c bp)), cache2)))"

section \<open>What a resumed call is entitled to\<close>

lemma map_sum_eq_Inr [simp]: "map_sum f id m = Inr y \<longleftrightarrow> m = Inr y"
  by (cases m) auto

lemma find_SomeD: "find Q xs = Some x \<Longrightarrow> x \<in> set xs \<and> Q x"
  by (metis find_Some_iff nth_mem)

text \<open>The rows on which a resumption rests.\<close>

definition authority_rows :: "authority_db \<Rightarrow> InteractionRequest \<Rightarrow> ExternalIdentityRecord \<Rightarrow> UserTenant \<Rightarrow> User \<Rightarrow> MCPServer \<Rightarrow> bool" where
  "authority_rows db r i m u server \<longleftrightarrow>
     i \<in> set (ad_identities db) \<and> rq_external_identity_id r = Some (ei_id i) \<and> ei_state i = ''active'' \<and> ei_verified_at i \<noteq> None \<and>
     ei_tenant_id i = rq_tenant_id r \<and> ei_user_id i = rq_platform_user_id r \<and>
     m \<in> set (ad_memberships db) \<and> ut_tenant_id m = rq_tenant_id r \<and> ut_user_id m = rq_platform_user_id r \<and> ut_status m = Some ''1'' \<and>
     u \<in> set (ad_users db) \<and> us_id u = rq_platform_user_id r \<and> us_is_active u \<and> us_status u = Some ''1'' \<and>
     server \<in> set (ad_servers db) \<and> sr_id server = rq_mcp_server_id r \<and> sr_tenant_id server = rq_tenant_id r \<and>
     sr_url server = rq_resource_uri r"

lemma live_rows:
  "live_identity db r x = Some i \<Longrightarrow> i \<in> set (ad_identities db) \<and> ei_id i = x \<and> ei_tenant_id i = rq_tenant_id r \<and>
     ei_user_id i = rq_platform_user_id r \<and> ei_state i = ''active''"
  "live_membership db r = Some m \<Longrightarrow> m \<in> set (ad_memberships db) \<and> ut_tenant_id m = rq_tenant_id r \<and>
     ut_user_id m = rq_platform_user_id r \<and> ut_status m = Some ''1''"
  "live_subject db r req = Some l \<Longrightarrow> l \<in> set (ad_subjects db) \<and> el_tenant_id l = rq_tenant_id r \<and> el_user_id l = rq_platform_user_id r \<and>
     el_subject_type l = er_subject_type req \<and> el_issuer l = er_issuer req \<and> el_issuer_tenant l = er_issuer_tenant req \<and> el_state l = ''active''"
  by (auto simp: live_identity_def live_membership_def live_subject_def dest!: find_SomeD)

lemma load_live_authority_Inr:
  assumes "load_live_authority printable M database now resume = Inr (p, server)"
  shows "\<exists>db i m u subject evidence. database = Some db \<and> authority_rows db (rs_request resume) i m u server \<and>
    required_subject db (rs_request resume) (map_of (ts_tools (ms_tool_policy M)) (rq_tool_name (rs_request resume))) = Inr subject \<and>
    subject_evidence (rs_request resume) subject = Inr evidence \<and>
    pp_platform_user_id p = rq_platform_user_id (rs_request resume) \<and> pp_tenant_id p = rq_tenant_id (rs_request resume) \<and>
    pp_identity_revision p = Some (ei_identity_revision i) \<and> ut_role m \<in> {''owner'', ''admin'', ''normal''} \<and>
    pp_enterprise_subject p = map_option ve_enterprise_subject evidence"
proof -
  let ?r = "rs_request resume"
  from assms obtain db x where db: "database = Some db" "rq_external_identity_id ?r = Some x"
    by (auto simp: load_live_authority_def Let_def split: option.splits)
  from assms db obtain i m u where rows: "live_identity db ?r x = Some i" "live_membership db ?r = Some m"
    "find (\<lambda>u. us_id u = rq_platform_user_id ?r) (ad_users db) = Some u" "find (\<lambda>s. sr_id s = rq_mcp_server_id ?r) (ad_servers db) = Some server"
    by (auto simp: load_live_authority_def Let_def bindE_eq_Inr split: option.splits if_splits)
  from assms db rows obtain t where t: "ei_verified_at i = Some t"
    by (auto simp: load_live_authority_def Let_def split: option.splits)
  with assms db rows obtain subject pid a evidence where
    checks: "us_is_active u" "us_status u = Some ''1''" "sr_tenant_id server = rq_tenant_id ?r" "sr_url server = rq_resource_uri ?r"
    and s: "required_subject db ?r (map_of (ts_tools (ms_tool_policy M)) (rq_tool_name ?r)) = Inr subject" "subject_evidence ?r subject = Inr evidence"
    and built: "build_principal_from_resolved_identity (live_resolution i m) a evidence pid = Inr p"
    by (auto simp: load_live_authority_def Let_def bindE_eq_Inr split: if_splits)
  have rows: "authority_rows db ?r i m u server"
    unfolding authority_rows_def
    using live_rows(1) [OF rows(1)] live_rows(2) [OF rows(2)] find_SomeD [OF rows(3)] find_SomeD [OF rows(4)] checks db t by simp
  have "pp_platform_user_id p = ei_user_id i \<and> pp_tenant_id p = ei_tenant_id i \<and> pp_identity_revision p = Some (ei_identity_revision i) \<and>
      ut_role m \<in> {''owner'', ''admin'', ''normal''} \<and> pp_enterprise_subject p = map_option ve_enterprise_subject evidence"
    using resolved_principal [OF built] by (auto simp: live_resolution_def)
  moreover have "ei_user_id i = rq_platform_user_id ?r" "ei_tenant_id i = rq_tenant_id ?r"
    using rows by (simp_all add: authority_rows_def)
  ultimately show ?thesis using db(1) s rows by (intro exI conjI) (assumption | simp)+
qed

lemma required_subject_Inr:
  assumes "required_subject db r (Some policy) = Inr subject" "subject_evidence r subject = Inr evidence"
    "tp_enterprise_subject policy = Some req" "pp_enterprise_subject p = map_option ve_enterprise_subject evidence"
  shows "\<exists>l e. l \<in> set (ad_subjects db) \<and> el_tenant_id l = rq_tenant_id r \<and> el_user_id l = rq_platform_user_id r \<and> el_state l = ''active'' \<and>
    pp_enterprise_subject p = Some e \<and> es_subject e = el_subject_value l \<and> subject_meets e req"
proof -
  from assms(1,3) obtain l t where l: "live_subject db r req = Some l" "subject = Some (l, t)"
    by (auto simp: required_subject_def split: option.splits)
  with assms(2,4) have "\<exists>e. pp_enterprise_subject p = Some e \<and> es_subject e = el_subject_value l \<and> es_subject_type e = el_subject_type l \<and>
      es_issuer e = el_issuer l \<and> es_issuer_tenant e = el_issuer_tenant l"
    by (auto simp: subject_evidence_def bindE_eq_Inr EnterpriseSubject_init_def VerifiedEnterpriseSubjectEvidence_init_def split: if_splits)
  with live_rows(3) [OF l(1)] show ?thesis by (auto simp: subject_meets_def)
qed

lemma provider_authorize_ok:
  "cache_ok M cache \<Longrightarrow> provider_authorize M cache bp tool = (res, cache') \<Longrightarrow> cache_ok M cache'"
  using authorize_transparent [of M cache "bp_principal bp" "bp_agent_id bp" _ "bp_binding bp" tool]
  by (auto simp: provider_authorize_def Let_def split_def split: option.splits)

lemma reauthorize_Inr:
  assumes "reauthorize P printable audience M active database now cache resume = (Inr s, cache')"
  obtains p bp cache1 a where "load_live_authority printable M database now resume = Inr (p, ss_server s)"
    "ss_call_context s = run_context_of (rs_request resume) p" "active"
    "RunContext_init (run_context_of (rs_request resume) p) = Inr (run_context_of (rs_request resume) p)"
    "bind_server P audience M (ss_server s) (Some (ss_call_context s)) = Inr (Some bp)" "ss_credential_provider s = bp"
    "cache1 = snd (is_authorized M cache bp (rq_tool_name (rs_request resume)))"
    "interaction_authorization M cache1 bp (rq_tool_name (rs_request resume)) = (Inr a, cache')"
    "in_effect a \<in> {''read'', ''prepare''}" "in_effect a = effect_value (rq_effect (rs_request resume))"
    "in_replay_mode a = rq_replay_mode (rs_request resume)"
proof -
  let ?r = "rs_request resume"
  obtain p server where live: "load_live_authority printable M database now resume = Inr (p, server)"
    using assms by (cases "load_live_authority printable M database now resume") (auto simp: reauthorize_def Let_def)
  obtain c where c: "RunContext_init (run_context_of ?r p) = Inr c"
    using assms live by (cases "RunContext_init (run_context_of ?r p)") (auto simp: reauthorize_def Let_def)
  have c': "c = run_context_of ?r p" using c by (auto simp: RunContext_init_def split: if_splits)
  let ?bound = "resolve_mcp_credential_provider P audience (if active then Some M else None) server (Some c)"
  obtain bp where bp: "?bound = Inr (Some bp)"
  proof (cases ?bound)
    case (Inr b)
    with assms live c that show ?thesis by (cases b) (auto simp: reauthorize_def Let_def)
  qed (use assms live c in \<open>auto simp: reauthorize_def Let_def\<close>)
  then have "active" "bind_server P audience M server (Some c) = Inr (Some bp)"
    by (auto simp: resolve_mcp_credential_provider_def split: if_splits)
  moreover obtain allowed cache1 where a1: "is_authorized M cache bp (rq_tool_name ?r) = (allowed, cache1)" by fastforce
  moreover obtain current cache2 where a2: "interaction_authorization M cache1 bp (rq_tool_name ?r) = (current, cache2)" by fastforce
  ultimately show ?thesis
    using assms live c bp that [of p bp cache1] unfolding c'
    by (auto simp: reauthorize_def Let_def bindE_eq_Inr new_session_def split: if_splits)
qed

text \<open>Property C24. A stored tool call is resumed only on live authority: its external identity is active
  and verified, the user's membership of the tenant and the user are active, and the server still exists
  in the tenant at the address of the call. The principal is this user in this tenant with the current
  revision of the identity; the current policy still knows the tool, with the effect and the
  replay mode the call was paused with and never with a side effect, and a current grant of this user for
  this agent revision covers its scopes. A business identity that the tool requires is read again and
  is active.\<close>

theorem resume_needs_live_authority:
  assumes "reauthorize P printable audience M active database now (snd (authorize_all M [] qs)) resume = (Inr s, cache')"
  shows "\<exists>db i m u p policy g. database = Some db \<and> authority_rows db (rs_request resume) i m u (ss_server s) \<and>
    rc_principal (ss_call_context s) = Some p \<and> pp_platform_user_id p = rq_platform_user_id (rs_request resume) \<and>
    pp_tenant_id p = rq_tenant_id (rs_request resume) \<and> pp_identity_revision p = Some (ei_identity_revision i) \<and>
    map_of (ts_tools (ms_tool_policy M)) (rq_tool_name (rs_request resume)) = Some policy \<and>
    tp_effect policy \<in> {''read'', ''prepare''} \<and> tp_effect policy = effect_value (rq_effect (rs_request resume)) \<and>
    tp_replay_mode policy = rq_replay_mode (rs_request resume) \<and>
    map_of (gs_grants (ms_grant_policy M)) (rq_tenant_id (rs_request resume), rq_platform_user_id (rs_request resume),
      rq_agent_id (rs_request resume), rq_agent_revision_id (rs_request resume),
      sb_resource_name (bp_binding (ss_credential_provider s))) = Some g \<and> tp_required_scopes policy \<subseteq> dg_allowed_scopes g \<and>
    (\<forall>req. tp_enterprise_subject policy = Some req \<longrightarrow>
      (\<exists>l e. l \<in> set (ad_subjects db) \<and> el_tenant_id l = rq_tenant_id (rs_request resume) \<and>
        el_user_id l = rq_platform_user_id (rs_request resume) \<and> el_state l = ''active'' \<and>
        pp_enterprise_subject p = Some e \<and> es_subject e = el_subject_value l \<and> subject_meets e req))"
proof -
  let ?r = "rs_request resume" and ?cache = "snd (authorize_all M [] qs)" and ?server = "ss_server s"
  obtain p bp cache1 a where live: "load_live_authority printable M database now resume = Inr (p, ?server)"
    and c: "ss_call_context s = run_context_of ?r p"
    and bound: "bind_server P audience M ?server (Some (ss_call_context s)) = Inr (Some bp)" and bp: "ss_credential_provider s = bp"
    and cache1: "cache1 = snd (is_authorized M ?cache bp (rq_tool_name ?r))"
    and current: "interaction_authorization M cache1 bp (rq_tool_name ?r) = (Inr a, cache')"
    and same: "in_effect a \<in> {''read'', ''prepare''}" "in_effect a = effect_value (rq_effect ?r)" "in_replay_mode a = rq_replay_mode ?r"
    using reauthorize_Inr [OF assms] by metis
  obtain db i m u subject evidence where db: "database = Some db" "authority_rows db ?r i m u ?server"
    and subject: "required_subject db ?r (map_of (ts_tools (ms_tool_policy M)) (rq_tool_name ?r)) = Inr subject" "subject_evidence ?r subject = Inr evidence"
    and p: "pp_platform_user_id p = rq_platform_user_id ?r" "pp_tenant_id p = rq_tenant_id ?r" "pp_identity_revision p = Some (ei_identity_revision i)"
      "pp_enterprise_subject p = map_option ve_enterprise_subject evidence"
    using load_live_authority_Inr [OF live] by metis
  have "cache_ok M ?cache" using authorize_all_transparent [of M "[]" qs] by simp
  then have ok: "cache_ok M cache1"
    using provider_authorize_ok unfolding cache1 is_authorized_def by (auto simp: Let_def split: prod.splits)
  from current obtain d cache2 where d: "provider_authorize M cache1 bp (rq_tool_name ?r) = (Inr d, cache2)"
    "in_effect a = tp_effect (de_policy d)" "in_replay_mode a = tp_replay_mode (de_policy d)"
    by (auto simp: interaction_authorization_def Let_def bindE_eq_Inr split: if_splits prod.splits)
  note b = bind_server_Inr [OF bound]
  have "authority M bp (rq_tool_name ?r) (de_policy d)" using provider_authorize_authority [OF ok d(1)] ..
  then have policy: "map_of (ts_tools (ms_tool_policy M)) (rq_tool_name ?r) = Some (de_policy d)"
    and "\<exists>g. map_of (gs_grants (ms_grant_policy M)) (rq_tenant_id ?r, rq_platform_user_id ?r, rq_agent_id ?r, rq_agent_revision_id ?r,
       sb_resource_name (bp_binding bp)) = Some g \<and> tp_required_scopes (de_policy d) \<subseteq> dg_allowed_scopes g"
    using b p(1,2) by (auto simp: authority_def Let_def c run_context_of_def opt_ex_iff)
  then obtain g where g: "map_of (gs_grants (ms_grant_policy M)) (rq_tenant_id ?r, rq_platform_user_id ?r, rq_agent_id ?r, rq_agent_revision_id ?r,
       sb_resource_name (bp_binding bp)) = Some g" "tp_required_scopes (de_policy d) \<subseteq> dg_allowed_scopes g"
    by blast
  have "\<forall>req. tp_enterprise_subject (de_policy d) = Some req \<longrightarrow>
      (\<exists>l e. l \<in> set (ad_subjects db) \<and> el_tenant_id l = rq_tenant_id ?r \<and> el_user_id l = rq_platform_user_id ?r \<and> el_state l = ''active'' \<and>
        pp_enterprise_subject p = Some e \<and> es_subject e = el_subject_value l \<and> subject_meets e req)"
    using required_subject_Inr subject p(4) unfolding policy by blast
  with db p g policy d same c show ?thesis
    by (intro exI [of _ db] exI [of _ i] exI [of _ m] exI [of _ u] exI [of _ p] exI [of _ "de_policy d"] exI [of _ g])
      (simp add: run_context_of_def bp)
qed

definition demo_call :: InteractionRequest where
  "demo_call = \<lparr>rq_tenant_id = ''t1'', rq_platform_user_id = ''u1'', rq_external_identity_id = Some ''x1'', rq_identity_revision = Some 1,
     rq_agent_id = ''a'', rq_agent_revision_id = ''v'', rq_mcp_server_id = ''m'', rq_resource_name = ''r'', rq_resource_uri = ''https://h/'',
     rq_tool_name = ''t'', rq_original_arguments = [], rq_input_requests = [], rq_output_schema = None, rq_request_state = ''q'',
     rq_effect = READ, rq_replay_mode = ''reusable'', rq_policy_revision = ''p'', rq_credential_generation = 1, rq_expires_at = None,
     rq_interaction_id = Some ''i'', rq_previous_revision = None, rq_lease_fence = None, rq_call_digest = ''d''\<rparr>"

definition demo_resume :: InteractionResume where
  "demo_resume = \<lparr>rs_interaction_id = ''i'', rs_revision = 1, rs_request = demo_call, rs_input_responses = [], rs_call_digest = ''d''\<rparr>"

definition demo_authority :: authority_db where
  "demo_authority = \<lparr>ad_identities = [demo_identity],
     ad_memberships = [\<lparr>ut_user_id = ''u1'', ut_tenant_id = ''t1'', ut_role = ''normal'', ut_status = Some ''1''\<rparr>],
     ad_users = [\<lparr>us_id = ''u1'', us_is_active = True, us_status = Some ''1''\<rparr>], ad_servers = [demo_server],
     ad_subjects = [], ad_presentations = [], ad_accounts = [], ad_bindings = [], ad_channels = [], ad_links = []\<rparr>"

lemma demo_live: "load_live_authority (\<lambda>_. True) demo_service (Some demo_authority) demo_time demo_resume = Inr (demo_principal, demo_server)"
  by code_simp

lemma demo_authorized:
  assumes "cache_ok demo_service cache"
  obtains d cache' where "provider_authorize demo_service cache demo_provider ''t'' = (Inr d, cache')" "de_policy d = demo_tool" "cache_ok demo_service cache'"
proof -
  obtain res cache' where res: "authorize demo_service cache demo_principal ''a'' ''v'' demo_binding ''t'' = (res, cache')" by fastforce
  have "authorize_fresh demo_service \<lparr>ar_principal = demo_principal, ar_agent_id = ''a'', ar_agent_revision_id = ''v'', ar_binding = demo_binding, ar_tool = ''t''\<rparr>
      = Inr \<lparr>de_policy = demo_tool, de_grant = Published (snd (hd (gs_grants demo_grants)))\<rparr>"
    by (simp add: authorize_fresh_def authorize_uncached_def verify_assurance_def demo_defs demo_principal_def)
  with authorize_transparent [OF assms, of demo_principal "''a''" "''v''" demo_binding "''t''"] res that show ?thesis
    by (simp add: provider_authorize_def demo_provider_def)
qed

lemma demo_reauthorized:
  "\<exists>s cache'. reauthorize demo_platform (\<lambda>_. True) (resource_audience demo_profile) demo_service True (Some demo_authority) demo_time [] demo_resume = (Inr s, cache')"
proof -
  have c: "run_context_of demo_call demo_principal = demo_run"
    by (simp add: run_context_of_def demo_call_def demo_run_def)
  have "\<not> blank ''a''" "\<not> blank ''v''" by (simp_all add: blank_def demo_strip)
  then have init: "RunContext_init demo_run = Inr demo_run" by (simp add: RunContext_init_def demo_run_def demo_principal_def)
  obtain d1 cache1 where a1: "provider_authorize demo_service [] demo_provider ''t'' = (Inr d1, cache1)" "cache_ok demo_service cache1"
    by (rule demo_authorized [of "[]"]) simp_all
  obtain d2 cache2 where a2: "provider_authorize demo_service cache1 demo_provider ''t'' = (Inr d2, cache2)" "de_policy d2 = demo_tool"
    by (rule demo_authorized [OF a1(2)])
  have f: "rq_tool_name demo_call = ''t''" "rq_effect demo_call = READ" "rq_replay_mode demo_call = ''reusable''"
    "supports_interactions demo_provider" "tp_effect demo_tool = ''read''" "tp_replay_mode demo_tool = ''reusable''" "rs_request demo_resume = demo_call"
    by (simp_all add: demo_call_def supports_interactions_def demo_provider_def demo_tool_def demo_resume_def)
  show ?thesis
    by (simp add: reauthorize_def Let_def demo_live c init resolve_mcp_credential_provider_def demo_bind is_authorized_def
        interaction_authorization_def a1 a2 f)
qed

theorem resume_needs_live_authority_witness:
  "\<exists>s cache'. reauthorize demo_platform (\<lambda>_. True) (resource_audience demo_profile) demo_service True (Some demo_authority) demo_time []
     demo_resume = (Inr s, cache') \<and> (\<exists>i m u. authority_rows demo_authority demo_call i m u (ss_server s))"
proof -
  obtain s cache' where s: "reauthorize demo_platform (\<lambda>_. True) (resource_audience demo_profile) demo_service True (Some demo_authority) demo_time []
     demo_resume = (Inr s, cache')"
    using demo_reauthorized by blast
  then have "reauthorize demo_platform (\<lambda>_. True) (resource_audience demo_profile) demo_service True (Some demo_authority) demo_time
     (snd (authorize_all demo_service [] [])) demo_resume = (Inr s, cache')" by simp
  from resume_needs_live_authority [OF this] s show ?thesis by (auto simp: demo_resume_def)
qed

end
