(* ===== verification/Directory_Events.thy ===== *)
theory Directory_Events
  imports Principal
begin

text \<open>
  Directory events of an identity provider and the transaction that applies one
  (\<open>src/api/identity/directory_events.py\<close> and \<open>src/api/identity/directory_event_repository.py\<close>).

  A row of a table is a record with the columns the transaction reads or writes; a table is the list of its
  rows. A transaction locks what it reads and is atomic: it gives the new tables and its result, or an error
  and no change. Timestamps are instants in microseconds; the text of an instant, \<open>str.isprintable\<close> and the hash
  are arguments. Each call takes the fresh receipt id and the time of the database.
\<close>

section \<open>Events\<close>

datatype DirectoryEventType = USER_CREATED | USER_UPDATED | USER_DELETED | SCOPE_UPDATED

datatype DirectoryStatus = DIR_ACTIVE | DIR_INACTIVE | DIR_UNKNOWN

datatype DirectoryEventOutcome = APPLIED | STALE | DUPLICATE | NO_LINK | FAILED

datatype DirectoryEventErrorCode =
    DE_INVALID | DE_BINDING_NOT_FOUND | DE_BINDING_DISABLED | DE_AUTHORITY_INVALID | DE_REPLAY_CONFLICT
  | DE_RECEIPT_FAILED | DE_RECEIPT_PROCESSING | DE_IDENTITY_CONFLICT | DE_REPOSITORY_UNAVAILABLE

datatype ProviderIdentifierKind = OPEN_ID | USER_ID | UNION_ID

primrec event_type_value :: "DirectoryEventType \<Rightarrow> string" where
  "event_type_value USER_CREATED = ''contact.user.created_v3''"
| "event_type_value USER_UPDATED = ''contact.user.updated_v3''"
| "event_type_value USER_DELETED = ''contact.user.deleted_v3''"
| "event_type_value SCOPE_UPDATED = ''contact.scope.updated_v3''"

primrec status_value :: "DirectoryStatus \<Rightarrow> string" where
  "status_value DIR_ACTIVE = ''active''"
| "status_value DIR_INACTIVE = ''inactive''"
| "status_value DIR_UNKNOWN = ''unknown''"

primrec kind_value :: "ProviderIdentifierKind \<Rightarrow> string" where
  "kind_value OPEN_ID = ''open_id''"
| "kind_value USER_ID = ''user_id''"
| "kind_value UNION_ID = ''union_id''"

primrec error_value :: "DirectoryEventErrorCode \<Rightarrow> string" where
  "error_value DE_INVALID = ''IDENTITY_DIRECTORY_EVENT_INVALID''"
| "error_value DE_BINDING_NOT_FOUND = ''IDENTITY_DIRECTORY_BINDING_NOT_FOUND''"
| "error_value DE_BINDING_DISABLED = ''IDENTITY_DIRECTORY_BINDING_DISABLED''"
| "error_value DE_AUTHORITY_INVALID = ''IDENTITY_DIRECTORY_AUTHORITY_INVALID''"
| "error_value DE_REPLAY_CONFLICT = ''IDENTITY_DIRECTORY_REPLAY_CONFLICT''"
| "error_value DE_RECEIPT_FAILED = ''IDENTITY_DIRECTORY_RECEIPT_FAILED''"
| "error_value DE_RECEIPT_PROCESSING = ''IDENTITY_DIRECTORY_RECEIPT_PROCESSING''"
| "error_value DE_IDENTITY_CONFLICT = ''IDENTITY_DIRECTORY_IDENTITY_CONFLICT''"
| "error_value DE_REPOSITORY_UNAVAILABLE = ''IDENTITY_DIRECTORY_REPOSITORY_UNAVAILABLE''"

definition error_codes :: "DirectoryEventErrorCode list" where
  "error_codes = [DE_INVALID, DE_BINDING_NOT_FOUND, DE_BINDING_DISABLED, DE_AUTHORITY_INVALID, DE_REPLAY_CONFLICT,
     DE_RECEIPT_FAILED, DE_RECEIPT_PROCESSING, DE_IDENTITY_CONFLICT, DE_REPOSITORY_UNAVAILABLE]"

record DirectoryEventIdentifier =
  di_kind :: ProviderIdentifierKind
  di_value :: string

record DirectoryEventCommand =
  dc_binding_id :: string
  dc_binding_generation :: int
  dc_event_type :: DirectoryEventType
  dc_event_id :: string
  dc_event_at :: datetime
  dc_observed_app_id :: string
  dc_observed_tenant_key :: string
  dc_identifiers :: "DirectoryEventIdentifier list"
  dc_directory_status :: "DirectoryStatus option"

record dir_lib =
  dl_printable :: "string \<Rightarrow> bool"
  dl_stamp :: "int \<Rightarrow> string" \<comment> \<open>an instant in UTC, with microseconds and a final \<open>Z\<close>\<close>
  dl_platform :: platform

definition identifier_ok :: "dir_lib \<Rightarrow> DirectoryEventIdentifier \<Rightarrow> bool" where
  "identifier_ok L d \<longleftrightarrow> valid_provider_text (dl_printable L) 255 (di_value d)"

definition event_id_char :: "char \<Rightarrow> bool" where
  "event_id_char c \<longleftrightarrow> (let n = (of_char c :: nat) in
     48 \<le> n \<and> n \<le> 57 \<or> 65 \<le> n \<and> n \<le> 90 \<or> 97 \<le> n \<and> n \<le> 122 \<or> c \<in> {CHR ''.'', CHR ''_'', CHR '':'', CHR ''-''})"

definition command_ok :: "dir_lib \<Rightarrow> DirectoryEventCommand \<Rightarrow> bool" where
  "command_ok L c \<longleftrightarrow>
     (let is_scope = (dc_event_type c = SCOPE_UPDATED); kinds = map di_kind (dc_identifiers c) in
      valid_provider_text (dl_printable L) 32 (dc_binding_id c) \<and>
      valid_provider_text (dl_printable L) 255 (dc_observed_app_id c) \<and>
      valid_provider_text (dl_printable L) 255 (dc_observed_tenant_key c) \<and>
      dc_event_id c \<noteq> [] \<and> length (dc_event_id c) \<le> 255 \<and> list_all event_id_char (dc_event_id c) \<and>
      1 \<le> dc_binding_generation c \<and> aware (dc_event_at c) \<and>
      distinct kinds \<and> length kinds \<le> 3 \<and>
      is_scope = (dc_identifiers c = [] \<and> dc_directory_status c = None) \<and>
      (\<not> is_scope \<longrightarrow> dc_identifiers c \<noteq> [] \<and> dc_directory_status c \<noteq> None))"

definition identifier_json :: "DirectoryEventIdentifier \<Rightarrow> json" where
  "identifier_json d = JDict [(''kind'', JStr (kind_value (di_kind d))), (''value'', JStr (di_value d))]"

definition event_payload :: "dir_lib \<Rightarrow> DirectoryEventCommand \<Rightarrow> json" where
  "event_payload L c =
     JDict [(''event_at'', JStr (dl_stamp L (instant (dc_event_at c)))), (''event_id'', JStr (dc_event_id c)),
       (''event_type'', JStr (event_type_value (dc_event_type c))), (''observed_app_id'', JStr (dc_observed_app_id c)),
       (''observed_tenant_key'', JStr (dc_observed_tenant_key c)),
       (''subject'', if dc_event_type c = SCOPE_UPDATED then JNull
          else JDict [(''directory_status'', case dc_directory_status c of None \<Rightarrow> JNull | Some s \<Rightarrow> JStr (status_value s)),
            (''identifiers'', JList (map identifier_json (sort_key (\<lambda>d. kind_value (di_kind d)) (dc_identifiers c))))]),
       (''version'', JInt 1)]"

definition canonical_directory_event_hash :: "dir_lib \<Rightarrow> DirectoryEventCommand \<Rightarrow> string" where
  "canonical_directory_event_hash L c = sha256 (dl_platform L) (print_json (frepr (dl_platform L)) (event_payload L c))"

section \<open>Tables\<close>

datatype identity_state = LINK_PENDING | LINK_ACTIVE | LINK_INACTIVE | LINK_REVOKED | LINK_CONFLICT

datatype receipt_state = RECEIPT_PROCESSING | RECEIPT_SUCCEEDED | RECEIPT_FAILED

record channel_row =
  ch_id :: string
  ch_tenant_id :: string
  ch_channel :: string
  ch_status :: int

record binding_row =
  bi_id :: string
  bi_channel_id :: string
  bi_enabled :: bool
  bi_generation :: int

record provider_tenant_row =
  pt_tenant_id :: string
  pt_provider :: string
  pt_provider_tenant_key :: string

record account_row =
  ac_id :: string
  ac_tenant_id :: string
  ac_provider :: string
  ac_provider_tenant_key :: string
  ac_provider_account_key :: string
  ac_identity_revision :: int
  ac_identity_health_state :: string
  ac_identity_health_error_code :: "string option"
  ac_last_directory_event_at :: "int option"
  ac_last_scope_change_at :: "int option"

record link_row =
  lk_tenant_id :: string
  lk_provider :: string
  lk_channel_id :: string
  lk_provider_account_id :: string

record alias_row =
  al_tenant_id :: string
  al_provider :: string
  al_provider_tenant_key :: string
  al_provider_account_key :: string
  al_alias_type :: string
  al_alias_value :: string
  al_external_identity_id :: string

record identity_row =
  ei_id :: string
  ei_tenant_id :: string
  ei_user_id :: string
  ei_provider :: string
  ei_provider_tenant_key :: string
  ei_subject_type :: string
  ei_subject_value :: string
  ei_state :: identity_state
  ei_identity_revision :: int
  ei_verified_at :: "int option"
  ei_last_seen_at :: "int option"

type_synonym receipt_key = "string \<times> string \<times> string \<times> string \<times> string \<times> string"

record receipt_row =
  rc_id :: string
  rc_key :: receipt_key \<comment> \<open>tenant, provider, provider tenant and account, event type and id\<close>
  rc_event_hash :: string
  rc_processing_state :: receipt_state
  rc_event_at :: int
  rc_processed_at :: "int option"
  rc_error_code :: "string option"
  rc_external_identity_id :: "string option"

record dir_store =
  ds_channels :: "channel_row list"
  ds_tenants :: "string list" \<comment> \<open>the valid ones\<close>
  ds_bindings :: "binding_row list"
  ds_provider_tenants :: "provider_tenant_row list"
  ds_accounts :: "account_row list"
  ds_links :: "link_row list"
  ds_aliases :: "alias_row list"
  ds_identities :: "identity_row list"
  ds_receipts :: "receipt_row list"

record ProviderContext =
  pc_tenant_id :: string
  pc_provider :: string
  pc_provider_tenant_key :: string
  pc_provider_account_id :: string
  pc_provider_account_key :: string
  pc_provider_account_revision :: int
  pc_provider_account_last_scope_change_at :: "int option"

record DirectoryEventProcessingResult =
  dr_outcome :: DirectoryEventOutcome
  dr_context :: "ProviderContext option"
  dr_revision_bumped :: bool
  dr_error_code :: "DirectoryEventErrorCode option"

definition result_ok :: "DirectoryEventProcessingResult \<Rightarrow> bool" where
  "result_ok r \<longleftrightarrow>
     (dr_outcome r = FAILED) = (dr_error_code r \<noteq> None) \<and>
     (dr_revision_bumped r \<longrightarrow> dr_context r \<noteq> None) \<and>
     (dr_outcome r \<noteq> NO_LINK \<longrightarrow> dr_context r \<noteq> None)"

definition provider_context :: "account_row \<Rightarrow> int \<Rightarrow> int option \<Rightarrow> ProviderContext" where
  "provider_context a revision last_scope_change_at =
     \<lparr>pc_tenant_id = ac_tenant_id a, pc_provider = ac_provider a, pc_provider_tenant_key = ac_provider_tenant_key a,
      pc_provider_account_id = ac_id a, pc_provider_account_key = ac_provider_account_key a,
      pc_provider_account_revision = revision, pc_provider_account_last_scope_change_at = last_scope_change_at\<rparr>"

section \<open>Authority\<close>

definition lock_binding :: "dir_store \<Rightarrow> DirectoryEventCommand \<Rightarrow> channel_row \<Rightarrow> DirectoryEventErrorCode + unit" where
  "lock_binding s c ch =
     (case filter (\<lambda>b. bi_id b = dc_binding_id c \<and> bi_channel_id b = ch_id ch) (ds_bindings s) of
        [b] \<Rightarrow> guardE (bi_enabled b \<and> bi_generation b = dc_binding_generation c) DE_BINDING_DISABLED
      | _ \<Rightarrow> Inl DE_BINDING_NOT_FOUND)"

definition account_links :: "dir_store \<Rightarrow> channel_row \<Rightarrow> (account_row \<times> link_row) list" where
  "account_links s ch =
     filter (\<lambda>(a, l). lk_provider_account_id l = ac_id a \<and> lk_tenant_id l = ac_tenant_id a \<and> lk_provider l = ac_provider a \<and>
                     lk_channel_id l = ch_id ch)
       (List.product (ds_accounts s) (ds_links s))"

definition authority_valid :: "dir_store \<Rightarrow> DirectoryEventCommand \<Rightarrow> channel_row \<Rightarrow> account_row \<Rightarrow> link_row \<Rightarrow> bool" where
  "authority_valid s c ch a l \<longleftrightarrow>
     (case find (\<lambda>t. pt_provider_tenant_key t = ac_provider_tenant_key a)
         (filter (\<lambda>t. pt_tenant_id t = ch_tenant_id ch \<and> pt_provider t = ch_channel ch) (ds_provider_tenants s)) of
        None \<Rightarrow> False
      | Some t \<Rightarrow> pt_tenant_id t = ch_tenant_id ch \<and> pt_provider_tenant_key t = dc_observed_tenant_key c) \<and>
     ac_tenant_id a = ch_tenant_id ch \<and> ac_provider a = ch_channel ch \<and>
     ac_provider_tenant_key a = dc_observed_tenant_key c \<and> ac_provider_account_key a = dc_observed_app_id c \<and>
     lk_tenant_id l = ch_tenant_id ch \<and> lk_provider l = ch_channel ch \<and> lk_channel_id l = ch_id ch \<and>
     lk_provider_account_id l = ac_id a \<and> 1 \<le> ac_identity_revision a \<and> ac_identity_health_state a \<noteq> ''disabled''"

definition lock_authority ::
  "dir_store \<Rightarrow> DirectoryEventCommand \<Rightarrow> string \<Rightarrow> DirectoryEventErrorCode + account_row option" where
  "lock_authority s c channel_id =
     (case filter (\<lambda>ch. ch_id ch = channel_id) (ds_channels s) of
        [ch] \<Rightarrow>
          bindE (guardE (ch_status ch = 1 \<and> ch_channel ch = ''feishu'') DE_AUTHORITY_INVALID) (\<lambda>_.
          bindE (guardE (ch_tenant_id ch \<in> set (ds_tenants s)) DE_AUTHORITY_INVALID) (\<lambda>_.
          case account_links s ch of
            [] \<Rightarrow>
              bindE (guardE (\<not> (\<exists>l\<in>set (ds_links s). lk_channel_id l = ch_id ch)) DE_AUTHORITY_INVALID) (\<lambda>_.
              bindE (lock_binding s c ch) (\<lambda>_. Inr None))
          | [(a, l)] \<Rightarrow>
              bindE (lock_binding s c ch) (\<lambda>_.
              bindE (guardE (authority_valid s c ch a l) DE_AUTHORITY_INVALID) (\<lambda>_. Inr (Some a)))
          | _ \<Rightarrow> Inl DE_AUTHORITY_INVALID))
      | _ \<Rightarrow> Inl DE_BINDING_NOT_FOUND)"

section \<open>Receipts\<close>

definition receipt_key_of :: "DirectoryEventCommand \<Rightarrow> account_row \<Rightarrow> receipt_key" where
  "receipt_key_of c a = (ac_tenant_id a, ac_provider a, ac_provider_tenant_key a, ac_provider_account_key a,
     event_type_value (dc_event_type c), dc_event_id c)"

definition new_receipt :: "DirectoryEventCommand \<Rightarrow> account_row \<Rightarrow> string \<Rightarrow> string \<Rightarrow> receipt_row" where
  "new_receipt c a event_hash receipt_id =
     \<lparr>rc_id = receipt_id, rc_key = receipt_key_of c a, rc_event_hash = event_hash, rc_processing_state = RECEIPT_PROCESSING,
      rc_event_at = instant (dc_event_at c), rc_processed_at = None, rc_error_code = None, rc_external_identity_id = None\<rparr>"

definition claim_receipt ::
  "dir_store \<Rightarrow> DirectoryEventCommand \<Rightarrow> account_row \<Rightarrow> string \<Rightarrow> string
     \<Rightarrow> DirectoryEventErrorCode + (dir_store \<times> receipt_row \<times> bool)" where
  \<comment> \<open>the insert does nothing on a conflict of the event key; a conflict of the primary key is a database error\<close>
  "claim_receipt s c a event_hash receipt_id =
     (case row_by rc_key (receipt_key_of c a) (ds_receipts s) of
        Some r \<Rightarrow> Inr (s, r, False)
      | None \<Rightarrow>
          bindE (guardE (receipt_id \<notin> rc_id ` set (ds_receipts s)) DE_REPOSITORY_UNAVAILABLE) (\<lambda>_.
          let r = new_receipt c a event_hash receipt_id
          in Inr (s\<lparr>ds_receipts := ds_receipts s @ [r]\<rparr>, r, True)))"

definition error_of_value :: "string \<Rightarrow> DirectoryEventErrorCode option" where
  "error_of_value v = find (\<lambda>e. error_value e = v) error_codes"

definition current_context :: "account_row \<Rightarrow> ProviderContext" where
  "current_context a = provider_context a (ac_identity_revision a) (ac_last_scope_change_at a)"

definition event_result ::
  "DirectoryEventOutcome \<Rightarrow> ProviderContext \<Rightarrow> bool \<Rightarrow> DirectoryEventErrorCode option \<Rightarrow> DirectoryEventProcessingResult" where
  "event_result outcome ctx bumped code =
     \<lparr>dr_outcome = outcome, dr_context = Some ctx, dr_revision_bumped = bumped, dr_error_code = code\<rparr>"

definition existing_receipt_result :: "receipt_row \<Rightarrow> string \<Rightarrow> account_row \<Rightarrow> DirectoryEventProcessingResult" where
  "existing_receipt_result r event_hash a =
     (if rc_event_hash r \<noteq> event_hash then event_result FAILED (current_context a) False (Some DE_REPLAY_CONFLICT)
      else case rc_processing_state r of
        RECEIPT_SUCCEEDED \<Rightarrow> event_result DUPLICATE (current_context a) False None
      | RECEIPT_FAILED \<Rightarrow> event_result FAILED (current_context a) False
          (Some (case error_of_value (case rc_error_code r of None \<Rightarrow> [] | Some v \<Rightarrow> v) of
                   None \<Rightarrow> DE_RECEIPT_FAILED | Some e \<Rightarrow> e))
      | RECEIPT_PROCESSING \<Rightarrow> event_result FAILED (current_context a) False (Some DE_RECEIPT_PROCESSING))"

definition finish_receipt :: "dir_store \<Rightarrow> receipt_row \<Rightarrow> receipt_state \<Rightarrow> int \<Rightarrow> DirectoryEventErrorCode option \<Rightarrow> dir_store" where
  "finish_receipt s r st processed_at code =
     s\<lparr>ds_receipts := put_row rc_id
         (r\<lparr>rc_processing_state := st, rc_processed_at := Some processed_at, rc_error_code := map_option error_value code\<rparr>)
         (ds_receipts s)\<rparr>"

section \<open>The identity an event is about\<close>

definition event_aliases :: "dir_store \<Rightarrow> DirectoryEventCommand \<Rightarrow> account_row \<Rightarrow> alias_row list" where
  "event_aliases s c a =
     filter (\<lambda>l. al_tenant_id l = ac_tenant_id a \<and> al_provider l = ac_provider a \<and>
         al_provider_tenant_key l = ac_provider_tenant_key a \<and> al_provider_account_key l = ac_provider_account_key a \<and>
         list_ex (\<lambda>d. al_alias_type l = kind_value (di_kind d) \<and> al_alias_value l = di_value d)
           (filter (\<lambda>d. di_kind d \<in> {OPEN_ID, UNION_ID}) (dc_identifiers c)))
       (ds_aliases s)"

definition event_user_id :: "DirectoryEventCommand \<Rightarrow> string option" where
  "event_user_id c = map_option di_value (find (\<lambda>d. di_kind d = USER_ID) (dc_identifiers c))"

definition event_identities :: "dir_store \<Rightarrow> account_row \<Rightarrow> string list \<Rightarrow> string option \<Rightarrow> identity_row list" where
  "event_identities s a ids user_id =
     sort_key ei_id (filter (\<lambda>e. ei_tenant_id e = ac_tenant_id a \<and> ei_provider e = ac_provider a \<and>
         ei_provider_tenant_key e = ac_provider_tenant_key a \<and>
         (ei_id e \<in> set ids \<or>
          (case user_id of None \<Rightarrow> False | Some u \<Rightarrow> ei_subject_type e = kind_value USER_ID \<and> ei_subject_value e = u)))
       (ds_identities s))"

definition lock_external_identity :: "dir_store \<Rightarrow> DirectoryEventCommand \<Rightarrow> account_row \<Rightarrow> identity_row option \<times> bool" where
  "lock_external_identity s c a =
     (let alias_ids = map al_external_identity_id (event_aliases s c a); user_id = event_user_id c in
      if alias_ids = [] \<and> user_id = None then (None, False)
      else
        let found = event_identities s a alias_ids user_id;
            candidate_ids = remdups (alias_ids @ map ei_id found) in
        if length candidate_ids > 1 then (None, True)
        else if candidate_ids = [] then (None, False)
        else case find (\<lambda>e. ei_id e \<in> set candidate_ids) found of
            None \<Rightarrow> (None, True)
          | Some e \<Rightarrow> if (case user_id of None \<Rightarrow> False | Some u \<Rightarrow> ei_subject_value e \<noteq> u) then (None, True) else (Some e, False))"

definition latest_identity_event_at :: "dir_store \<Rightarrow> identity_row \<Rightarrow> int option" where
  "latest_identity_event_at s e =
     (let times = map rc_event_at (filter (\<lambda>r. fst (rc_key r) = ei_tenant_id e \<and> rc_external_identity_id r = Some (ei_id e) \<and>
            rc_processing_state r = RECEIPT_SUCCEEDED) (ds_receipts s));
          markers = List.map_filter id [ei_verified_at e, ei_last_seen_at e] @ times
      in if markers = [] then None else Some (Max (set markers)))"

section \<open>Applying an event\<close>

definition tightened_state :: "DirectoryEventCommand \<Rightarrow> identity_state \<Rightarrow> identity_state option" where
  "tightened_state c st =
     (if dc_event_type c = USER_DELETED
      then if st \<notin> {LINK_REVOKED, LINK_CONFLICT} then Some LINK_REVOKED else None
      else if dc_event_type c = USER_UPDATED \<and> dc_directory_status c = Some DIR_INACTIVE \<and>
              st \<notin> {LINK_INACTIVE, LINK_REVOKED, LINK_CONFLICT} then Some LINK_INACTIVE
      else None)"

definition update_where :: "('r \<Rightarrow> bool) \<Rightarrow> ('r \<Rightarrow> 'r) \<Rightarrow> 'r list \<Rightarrow> DirectoryEventErrorCode + 'r list" where
  \<comment> \<open>an update that returns no row is a conflict\<close>
  "update_where cond f rows =
     bindE (guardE (list_ex cond rows) DE_REPOSITORY_UNAVAILABLE) (\<lambda>_. Inr (map (\<lambda>r. if cond r then f r else r) rows))"

definition tighten_identity :: "dir_store \<Rightarrow> identity_row \<Rightarrow> DirectoryEventCommand \<Rightarrow> DirectoryEventErrorCode + dir_store" where
  "tighten_identity s e c =
     (case tightened_state c (ei_state e) of
        None \<Rightarrow> Inr s
      | Some st \<Rightarrow>
          bindE (update_where (\<lambda>x. ei_id x = ei_id e \<and> ei_identity_revision x = ei_identity_revision e \<and> ei_state x = ei_state e)
              (\<lambda>x. x\<lparr>ei_state := st, ei_identity_revision := ei_identity_revision x + 1\<rparr>) (ds_identities s))
            (\<lambda>rows. Inr (s\<lparr>ds_identities := rows\<rparr>)))"

definition cas_bump_account ::
  "dir_store \<Rightarrow> account_row \<Rightarrow> DirectoryEventCommand \<Rightarrow> DirectoryEventErrorCode + (dir_store \<times> int \<times> int option)" where
  "cas_bump_account s a c =
     (let ev = instant (dc_event_at c);
          last_directory_event_at = (case ac_last_directory_event_at a of None \<Rightarrow> ev | Some t \<Rightarrow> max ev t);
          last_scope_change_at =
            (if dc_event_type c = SCOPE_UPDATED
             then Some (case ac_last_scope_change_at a of None \<Rightarrow> ev | Some t \<Rightarrow> max t ev)
             else ac_last_scope_change_at a)
      in bindE (update_where (\<lambda>x. ac_id x = ac_id a \<and> ac_identity_revision x = ac_identity_revision a)
             (\<lambda>x. x\<lparr>ac_identity_revision := ac_identity_revision x + 1,
                    ac_last_directory_event_at := Some last_directory_event_at,
                    ac_last_scope_change_at := last_scope_change_at\<rparr>) (ds_accounts s))
           (\<lambda>rows. Inr (s\<lparr>ds_accounts := rows\<rparr>, ac_identity_revision a + 1, last_scope_change_at)))"

text \<open>A claimed event: the end of \<open>_process_locked\<close> after the receipt is claimed.\<close>

definition conclude_event ::
  "dir_store \<Rightarrow> DirectoryEventCommand \<Rightarrow> account_row \<Rightarrow> receipt_row \<Rightarrow> int \<Rightarrow> receipt_state \<Rightarrow> DirectoryEventOutcome
     \<Rightarrow> DirectoryEventErrorCode option \<Rightarrow> DirectoryEventErrorCode + (dir_store \<times> DirectoryEventProcessingResult)" where
  "conclude_event s c a r now st outcome code =
     bindE (cas_bump_account s a c) (\<lambda>(s1, new_revision, last_scope_change_at).
     Inr (finish_receipt s1 r st now code,
          event_result outcome (provider_context a new_revision last_scope_change_at) True code))"

definition stale_scope :: "DirectoryEventCommand \<Rightarrow> account_row \<Rightarrow> bool" where
  "stale_scope c a \<longleftrightarrow> dc_event_type c = SCOPE_UPDATED \<and>
     (case ac_last_scope_change_at a of None \<Rightarrow> False | Some t \<Rightarrow> instant (dc_event_at c) < t)"

definition stale_for :: "dir_store \<Rightarrow> DirectoryEventCommand \<Rightarrow> identity_row \<Rightarrow> bool" where
  "stale_for s c e \<longleftrightarrow> (case latest_identity_event_at s e of None \<Rightarrow> False | Some t \<Rightarrow> instant (dc_event_at c) < t)"

definition apply_event ::
  "dir_store \<Rightarrow> DirectoryEventCommand \<Rightarrow> account_row \<Rightarrow> receipt_row \<Rightarrow> int
     \<Rightarrow> DirectoryEventErrorCode + (dir_store \<times> DirectoryEventProcessingResult)" where
  "apply_event s c a r now =
     (if stale_scope c a
      then Inr (finish_receipt s r RECEIPT_SUCCEEDED now None, event_result STALE (current_context a) False None)
      else case lock_external_identity s c a of (found, identity_conflict) \<Rightarrow>
        if identity_conflict then conclude_event s c a r now RECEIPT_FAILED FAILED (Some DE_IDENTITY_CONFLICT)
        else case found of
          None \<Rightarrow> conclude_event s c a r now RECEIPT_SUCCEEDED APPLIED None
        | Some e \<Rightarrow>
            (let r1 = r\<lparr>rc_external_identity_id := Some (ei_id e)\<rparr> in
             if stale_for s c e
             then Inr (finish_receipt s r1 RECEIPT_SUCCEEDED now None, event_result STALE (current_context a) False None)
             else bindE (tighten_identity s e c) (\<lambda>s0. conclude_event s0 c a r1 now RECEIPT_SUCCEEDED APPLIED None)))"

definition process_locked ::
  "dir_lib \<Rightarrow> dir_store \<Rightarrow> DirectoryEventCommand \<Rightarrow> string \<Rightarrow> string \<Rightarrow> int
     \<Rightarrow> DirectoryEventErrorCode + (dir_store \<times> DirectoryEventProcessingResult)" where
  "process_locked L s c channel_id receipt_id now =
     bindE (lock_authority s c channel_id) (\<lambda>account.
     case account of
       None \<Rightarrow> Inr (s, \<lparr>dr_outcome = NO_LINK, dr_context = None, dr_revision_bumped = False, dr_error_code = None\<rparr>)
     | Some a \<Rightarrow>
         bindE (guardE (instant (dc_event_at c) \<le> now + 300000000) DE_INVALID) (\<lambda>_.
         let event_hash = canonical_directory_event_hash L c in
         bindE (claim_receipt s c a event_hash receipt_id) (\<lambda>(s1, r, claimed).
         if \<not> claimed then Inr (s1, existing_receipt_result r event_hash a)
         else apply_event s1 c a r now)))"

definition find_channel_id :: "dir_store \<Rightarrow> string \<Rightarrow> string option" where
  "find_channel_id s binding_id = map_option bi_channel_id (row_by bi_id binding_id (ds_bindings s))"

record dir_call =
  dk_command :: DirectoryEventCommand
  dk_receipt_id :: string
  dk_now :: int

definition process ::
  "dir_lib \<Rightarrow> dir_store \<Rightarrow> dir_call \<Rightarrow> DirectoryEventErrorCode + (dir_store \<times> DirectoryEventProcessingResult)" where
  "process L s k =
     (case find_channel_id s (dc_binding_id (dk_command k)) of
        None \<Rightarrow> Inl DE_BINDING_NOT_FOUND
      | Some channel_id \<Rightarrow> process_locked L s (dk_command k) channel_id (dk_receipt_id k) (dk_now k))"

definition dir_step :: "dir_lib \<Rightarrow> dir_store \<Rightarrow> dir_call \<Rightarrow> DirectoryEventErrorCode + dir_store" where
  "dir_step L s k = bindE (process L s k) (\<lambda>(s', _). Inr s')"

section \<open>What an event changes\<close>

definition receipt_finished :: "receipt_row \<Rightarrow> bool" where
  \<comment> \<open>the check constraint of the table, without the state \<open>processing\<close>\<close>
  "receipt_finished r \<longleftrightarrow> rc_processed_at r \<noteq> None \<and>
     (rc_processing_state r = RECEIPT_SUCCEEDED \<and> rc_error_code r = None \<or>
      rc_processing_state r = RECEIPT_FAILED \<and> rc_error_code r \<noteq> None)"

definition dir_wf :: "dir_store \<Rightarrow> bool" where
  "dir_wf s \<longleftrightarrow> distinct (map ac_id (ds_accounts s)) \<and> distinct (map ei_id (ds_identities s)) \<and>
     distinct (map rc_id (ds_receipts s)) \<and> distinct (map rc_key (ds_receipts s)) \<and> list_all receipt_finished (ds_receipts s)"

fun later :: "int option \<Rightarrow> int option \<Rightarrow> bool" where
  "later None _ = True"
| "later (Some t) None = False"
| "later (Some t) (Some u) = (t \<le> u)"

fun tightness :: "identity_state \<Rightarrow> nat" where
  "tightness LINK_INACTIVE = 1"
| "tightness LINK_REVOKED = 2"
| "tightness LINK_CONFLICT = 2"
| "tightness _ = 0"

definition account_le :: "account_row \<Rightarrow> account_row \<Rightarrow> bool" where
  "account_le a b \<longleftrightarrow>
     b = a\<lparr>ac_identity_revision := ac_identity_revision b, ac_last_directory_event_at := ac_last_directory_event_at b,
           ac_last_scope_change_at := ac_last_scope_change_at b\<rparr> \<and>
     ac_identity_revision a \<le> ac_identity_revision b \<and> later (ac_last_directory_event_at a) (ac_last_directory_event_at b) \<and>
     later (ac_last_scope_change_at a) (ac_last_scope_change_at b)"

definition identity_le :: "identity_row \<Rightarrow> identity_row \<Rightarrow> bool" where
  "identity_le e f \<longleftrightarrow>
     f = e\<lparr>ei_state := ei_state f, ei_identity_revision := ei_identity_revision f\<rparr> \<and>
     (f = e \<or> ei_identity_revision e < ei_identity_revision f \<and> tightness (ei_state e) < tightness (ei_state f))"

definition store_le :: "dir_store \<Rightarrow> dir_store \<Rightarrow> bool" where
  "store_le s t \<longleftrightarrow>
     t = s\<lparr>ds_accounts := ds_accounts t, ds_identities := ds_identities t, ds_receipts := ds_receipts t\<rparr> \<and>
     list_all2 account_le (ds_accounts s) (ds_accounts t) \<and> list_all2 identity_le (ds_identities s) (ds_identities t) \<and>
     prefix (ds_receipts s) (ds_receipts t)"

lemma later_refl [simp]: "later t t"
  by (cases t) simp_all

lemma later_trans: "later t u \<Longrightarrow> later u v \<Longrightarrow> later t v"
  by (cases t; cases u; cases v) simp_all

lemma account_le_refl [simp]: "account_le a a"
  by (simp add: account_le_def)

lemma account_le_trans:
  assumes "account_le a b" "account_le b c"
  shows "account_le a c"
  using assms unfolding account_le_def by (cases a; cases b; cases c) (auto intro: later_trans)

lemma identity_le_refl [simp]: "identity_le e e"
  by (simp add: identity_le_def)

lemma identity_le_trans:
  assumes "identity_le e f" "identity_le f g"
  shows "identity_le e g"
proof -
  have "g = f\<lparr>ei_state := ei_state g, ei_identity_revision := ei_identity_revision g\<rparr>"
    "f = e\<lparr>ei_state := ei_state f, ei_identity_revision := ei_identity_revision f\<rparr>"
    using assms by (simp_all add: identity_le_def)
  then have "g = e\<lparr>ei_state := ei_state g, ei_identity_revision := ei_identity_revision g\<rparr>"
    by (cases e; cases f; cases g) simp
  with assms show ?thesis
    unfolding identity_le_def by (metis order_less_trans)
qed

lemma store_le_refl [simp]: "store_le s s"
  by (simp add: store_le_def list_all2_refl)

lemma store_le_trans: "store_le s t \<Longrightarrow> store_le t u \<Longrightarrow> store_le s u"
  unfolding store_le_def
  by (cases s; cases t; cases u) (auto intro: list_all2_trans account_le_trans identity_le_trans prefix_order.trans)

lemma update_where_eq_Inr [result_simps]:
  "update_where cond f rows = Inr rows' \<longleftrightarrow> list_ex cond rows \<and> rows' = map (\<lambda>r. if cond r then f r else r) rows"
  by (auto simp: update_where_def result_simps)

lemma tightened_state_tightens: "tightened_state c st = Some st' \<Longrightarrow> tightness st < tightness st'"
  by (cases st) (auto simp: tightened_state_def split: if_splits)

definition bumped_account :: "account_row \<Rightarrow> DirectoryEventCommand \<Rightarrow> account_row" where
  "bumped_account a c =
     (let ev = instant (dc_event_at c) in
      a\<lparr>ac_identity_revision := ac_identity_revision a + 1,
        ac_last_directory_event_at := Some (case ac_last_directory_event_at a of None \<Rightarrow> ev | Some t \<Rightarrow> max ev t),
        ac_last_scope_change_at :=
          (if dc_event_type c = SCOPE_UPDATED
           then Some (case ac_last_scope_change_at a of None \<Rightarrow> ev | Some t \<Rightarrow> max t ev)
           else ac_last_scope_change_at a)\<rparr>)"

definition tightened_identity :: "identity_row \<Rightarrow> DirectoryEventCommand \<Rightarrow> identity_row" where
  "tightened_identity e c =
     (case tightened_state c (ei_state e) of None \<Rightarrow> e
      | Some st \<Rightarrow> e\<lparr>ei_state := st, ei_identity_revision := ei_identity_revision e + 1\<rparr>)"

lemma update_where_row:
  assumes "distinct (map key rows)" "x \<in> set rows" "\<And>y. cond y \<Longrightarrow> key y = key x" "cond x" "key (f x) = key x"
  shows "update_where cond f rows = Inr (put_row key (f x) rows)"
proof -
  have "(if cond y then f y else y) = (if key y = key (f x) then f x else y)" if "y \<in> set rows" for y
  proof (cases "key y = key x")
    case True
    then have "y = x"
      using distinct_key_eq [OF assms(1) that assms(2)] by blast
    with assms(4,5) show ?thesis by simp
  next
    case False
    with assms(3) [of y] assms(5) show ?thesis by auto
  qed
  moreover have "list_ex cond rows"
    using assms(2,4) by (auto simp: list_ex_iff)
  ultimately show ?thesis
    by (simp add: update_where_def put_row_def)
qed

lemma put_row_same: "distinct (map key rows) \<Longrightarrow> x \<in> set rows \<Longrightarrow> put_row key x rows = rows"
  by (auto simp: put_row_def intro!: map_idI dest: distinct_key_eq)

lemma cas_bump_account_eq:
  assumes "distinct (map ac_id (ds_accounts s))" "a \<in> set (ds_accounts s)"
  shows "cas_bump_account s a c =
    Inr (s\<lparr>ds_accounts := put_row ac_id (bumped_account a c) (ds_accounts s)\<rparr>,
         ac_identity_revision (bumped_account a c), ac_last_scope_change_at (bumped_account a c))"
  unfolding cas_bump_account_def Let_def
  by (subst update_where_row [where key = ac_id and x = a]) (use assms in \<open>auto simp: bumped_account_def Let_def\<close>)

lemma tighten_identity_eq:
  assumes "distinct (map ei_id (ds_identities s))" "e \<in> set (ds_identities s)"
  shows "tighten_identity s e c = Inr (s\<lparr>ds_identities := put_row ei_id (tightened_identity e c) (ds_identities s)\<rparr>)"
proof (cases "tightened_state c (ei_state e)")
  case None
  with assms show ?thesis by (simp add: tighten_identity_def tightened_identity_def put_row_same)
next
  case (Some st)
  show ?thesis
    unfolding tighten_identity_def Some option.case
    by (subst update_where_row [where key = ei_id and x = e]) (use assms Some in \<open>auto simp: tightened_identity_def\<close>)
qed

lemma lock_external_identity_mem:
  assumes "lock_external_identity s c a = (Some e, conflict)"
  shows "e \<in> set (ds_identities s)" "\<not> conflict"
proof -
  let ?found = "event_identities s a (map al_external_identity_id (event_aliases s c a)) (event_user_id c)"
  have "(\<exists>P. find P ?found = Some e) \<and> \<not> conflict"
    using assms unfolding lock_external_identity_def Let_def by (auto split: if_splits option.splits)
  then have "e \<in> set ?found" and "\<not> conflict"
    by (metis find_Some_iff nth_mem)+
  then show "e \<in> set (ds_identities s)" "\<not> conflict"
    by (simp_all add: event_identities_def)
qed

lemma account_links_mem: "account_links s ch = (a, l) # rest \<Longrightarrow> a \<in> set (ds_accounts s)"
  by (drule arg_cong [where f = set]) (auto simp: account_links_def)

lemma lock_authority_mem: "lock_authority s c ch = Inr (Some a) \<Longrightarrow> a \<in> set (ds_accounts s)"
  by (auto simp: lock_authority_def result_simps split: list.splits dest: account_links_mem)

text \<open>The possible effects of a claimed event whose receipt row \<open>r\<close> has just been added behind the receipts \<open>rs\<close>.\<close>

definition finished_as :: "receipt_row \<Rightarrow> receipt_state \<Rightarrow> DirectoryEventErrorCode option \<Rightarrow> receipt_row \<Rightarrow> bool" where
  "finished_as r st code r' \<longleftrightarrow> rc_id r' = rc_id r \<and> rc_key r' = rc_key r \<and> rc_event_hash r' = rc_event_hash r \<and>
     rc_event_at r' = rc_event_at r \<and> rc_processing_state r' = st \<and> rc_error_code r' = map_option error_value code \<and>
     rc_processed_at r' \<noteq> None"

inductive event_effect ::
  "dir_store \<Rightarrow> receipt_row list \<Rightarrow> receipt_row \<Rightarrow> DirectoryEventCommand \<Rightarrow> account_row \<Rightarrow> dir_store
     \<Rightarrow> DirectoryEventProcessingResult \<Rightarrow> bool"
  for s rs r c a where
  stale: "finished_as r RECEIPT_SUCCEEDED None r' \<Longrightarrow>
     event_effect s rs r c a (s\<lparr>ds_receipts := rs @ [r']\<rparr>) (event_result STALE (current_context a) False None)"
| conflict: "finished_as r RECEIPT_FAILED (Some DE_IDENTITY_CONFLICT) r' \<Longrightarrow>
     event_effect s rs r c a
       (s\<lparr>ds_accounts := put_row ac_id (bumped_account a c) (ds_accounts s), ds_receipts := rs @ [r']\<rparr>)
       (event_result FAILED (current_context (bumped_account a c)) True (Some DE_IDENTITY_CONFLICT))"
| unlinked: "finished_as r RECEIPT_SUCCEEDED None r' \<Longrightarrow>
     event_effect s rs r c a
       (s\<lparr>ds_accounts := put_row ac_id (bumped_account a c) (ds_accounts s), ds_receipts := rs @ [r']\<rparr>)
       (event_result APPLIED (current_context (bumped_account a c)) True None)"
| linked: "finished_as r RECEIPT_SUCCEEDED None r' \<Longrightarrow> rc_external_identity_id r' = Some (ei_id e) \<Longrightarrow>
     e \<in> set (ds_identities s) \<Longrightarrow> \<not> stale_for s c e \<Longrightarrow>
     event_effect s rs r c a
       (s\<lparr>ds_identities := put_row ei_id (tightened_identity e c) (ds_identities s),
          ds_accounts := put_row ac_id (bumped_account a c) (ds_accounts s), ds_receipts := rs @ [r']\<rparr>)
       (event_result APPLIED (current_context (bumped_account a c)) True None)"

lemma provider_context_bumped:
  "provider_context a (ac_identity_revision (bumped_account a c)) (ac_last_scope_change_at (bumped_account a c)) =
   current_context (bumped_account a c)"
  by (simp add: provider_context_def current_context_def bumped_account_def Let_def)

lemma finish_receipt_last:
  assumes "ds_receipts s = rs @ [r]" "rc_id r0 = rc_id r" "rc_id r \<notin> rc_id ` set rs"
  shows "finish_receipt s r0 st now code = s\<lparr>ds_receipts := rs @
     [r0\<lparr>rc_processing_state := st, rc_processed_at := Some now, rc_error_code := map_option error_value code\<rparr>]\<rparr>"
proof -
  have "map (\<lambda>x. if rc_id x = rc_id r then f x else x) rs = rs" for f
    using assms(3) by (intro map_idI) (metis image_eqI)
  with assms show ?thesis
    by (simp add: finish_receipt_def put_row_def)
qed

lemma conclude_event_eq:
  assumes "distinct (map ac_id (ds_accounts s))" "a \<in> set (ds_accounts s)"
    and "ds_receipts s = rs @ [r]" "rc_id r0 = rc_id r" "rc_id r \<notin> rc_id ` set rs"
  shows "conclude_event s c a r0 now st outcome code =
    Inr (s\<lparr>ds_accounts := put_row ac_id (bumped_account a c) (ds_accounts s), ds_receipts := rs @
       [r0\<lparr>rc_processing_state := st, rc_processed_at := Some now, rc_error_code := map_option error_value code\<rparr>]\<rparr>,
     event_result outcome (current_context (bumped_account a c)) True code)"
  using assms
  by (simp add: conclude_event_def cas_bump_account_eq provider_context_bumped finish_receipt_last [where rs = rs and r = r])

lemma apply_event_effect:
  assumes wf: "distinct (map ac_id (ds_accounts s))" "distinct (map ei_id (ds_identities s))"
    and a: "a \<in> set (ds_accounts s)"
    and r: "ds_receipts s = rs @ [r]" "rc_id r \<notin> rc_id ` set rs"
  shows "\<exists>s' res. apply_event s c a r now = Inr (s', res) \<and> event_effect s rs r c a s' res"
proof (cases "stale_scope c a")
  case True
  with r show ?thesis
    by (auto simp: apply_event_def finish_receipt_last [where rs = rs and r = r] finished_as_def intro!: stale)
next
  case fresh: False
  obtain found conflict where lock: "lock_external_identity s c a = (found, conflict)" by fastforce
  note eq = apply_event_def fresh lock conclude_event_eq [OF wf(1) a r(1) _ r(2)] finished_as_def
  show ?thesis
  proof (cases found)
    case None
    then show ?thesis
      by (cases conflict) (auto simp: eq intro!: event_effect.conflict unlinked)
  next
    case (Some e)
    note e = lock_external_identity_mem [OF lock [unfolded Some]]
    note conclude = conclude_event_eq [where rs = rs and r = r]
    show ?thesis
    proof (cases "stale_for s c e")
      case True
      with e Some r show ?thesis
        by (auto simp: eq finish_receipt_last [where rs = rs and r = r] intro!: stale)
    next
      case False
      with e Some wf a r show ?thesis
        by (auto simp: eq tighten_identity_eq conclude intro!: linked)
    qed
  qed
qed

text \<open>A call that succeeds finds no link, finds a receipt and changes nothing, or has one of these effects.\<close>

definition process_replays ::
  "dir_lib \<Rightarrow> dir_store \<Rightarrow> DirectoryEventCommand \<Rightarrow> account_row \<Rightarrow> dir_store \<Rightarrow> DirectoryEventProcessingResult \<Rightarrow> bool" where
  "process_replays L s c a s' res \<longleftrightarrow> s' = s \<and>
     (\<exists>r\<in>set (ds_receipts s). rc_key r = receipt_key_of c a \<and>
        res = existing_receipt_result r (canonical_directory_event_hash L c) a)"

definition process_applies ::
  "dir_lib \<Rightarrow> dir_store \<Rightarrow> DirectoryEventCommand \<Rightarrow> account_row \<Rightarrow> string \<Rightarrow> dir_store
     \<Rightarrow> DirectoryEventProcessingResult \<Rightarrow> bool" where
  "process_applies L s c a receipt_id s' res \<longleftrightarrow>
     (let r = new_receipt c a (canonical_directory_event_hash L c) receipt_id in
      receipt_key_of c a \<notin> rc_key ` set (ds_receipts s) \<and> receipt_id \<notin> rc_id ` set (ds_receipts s) \<and>
      event_effect (s\<lparr>ds_receipts := ds_receipts s @ [r]\<rparr>) (ds_receipts s) r c a s' res)"

lemma process_cases:
  assumes "dir_wf s" "process L s k = Inr (s', res)"
  obtains (no_link) "s' = s" "dr_outcome res = NO_LINK" "dr_context res = None" "\<not> dr_revision_bumped res" "dr_error_code res = None"
  | (replay) ch a where "find_channel_id s (dc_binding_id (dk_command k)) = Some ch" "lock_authority s (dk_command k) ch = Inr (Some a)"
      "instant (dc_event_at (dk_command k)) \<le> dk_now k + 300000000" "process_replays L s (dk_command k) a s' res"
  | (effect) ch a where "find_channel_id s (dc_binding_id (dk_command k)) = Some ch" "lock_authority s (dk_command k) ch = Inr (Some a)"
      "instant (dc_event_at (dk_command k)) \<le> dk_now k + 300000000"
      "process_applies L s (dk_command k) a (dk_receipt_id k) s' res"
proof -
  let ?c = "dk_command k" and ?h = "canonical_directory_event_hash L (dk_command k)"
  obtain ch where ch: "find_channel_id s (dc_binding_id ?c) = Some ch"
    and locked: "process_locked L s ?c ch (dk_receipt_id k) (dk_now k) = Inr (s', res)"
    using assms(2) by (auto simp: process_def split: option.splits)
  then obtain account where auth: "lock_authority s ?c ch = Inr account"
    by (auto simp: process_locked_def result_simps)
  show thesis
  proof (cases account)
    case None
    with locked auth show thesis
      by (intro no_link) (auto simp: process_locked_def)
  next
    case (Some a)
    note auth = auth [unfolded Some]
    note a = lock_authority_mem [OF auth]
    have time: "instant (dc_event_at ?c) \<le> dk_now k + 300000000"
      using locked by (auto simp: process_locked_def auth result_simps)
    show thesis
    proof (cases "row_by rc_key (receipt_key_of ?c a) (ds_receipts s)")
      case (Some r)
      with locked time have "s' = s" "res = existing_receipt_result r ?h a"
        by (auto simp: process_locked_def auth claim_receipt_def)
      with row_by_Some_mem [OF Some] show thesis
        by (intro replay [OF ch auth time]) (auto simp: process_replays_def)
    next
      case None
      let ?r = "new_receipt ?c a ?h (dk_receipt_id k)"
      let ?s = "s\<lparr>ds_receipts := ds_receipts s @ [?r]\<rparr>"
      have fresh: "dk_receipt_id k \<notin> rc_id ` set (ds_receipts s)"
        and applied: "apply_event ?s ?c a ?r (dk_now k) = Inr (s', res)"
        using locked time None by (auto simp: process_locked_def auth claim_receipt_def Let_def result_simps)
      moreover have "\<exists>s' res. apply_event ?s ?c a ?r (dk_now k) = Inr (s', res) \<and> event_effect ?s (ds_receipts s) ?r ?c a s' res"
        using assms(1) a fresh by (intro apply_event_effect) (auto simp: dir_wf_def new_receipt_def)
      ultimately show thesis
        using None by (intro effect [OF ch auth time]) (auto simp: process_applies_def Let_def row_by_None_iff)
    qed
  qed
qed

lemma account_le_bumped: "account_le a (bumped_account a c)"
  by (simp add: account_le_def bumped_account_def Let_def split: option.split)

lemma identity_le_tightened: "identity_le e (tightened_identity e c)"
  by (auto simp: identity_le_def tightened_identity_def dest: tightened_state_tightens split: option.split)

lemma list_all2_put_row:
  assumes "distinct (map key rows)" "x \<in> set rows" "key y = key x" "R x y" "\<And>z. R z z"
  shows "list_all2 R rows (put_row key y rows)"
proof -
  have "R z (if key z = key y then y else z)" if "z \<in> set rows" for z
    using assms distinct_key_eq [OF assms(1) that assms(2)] by auto
  then show ?thesis
    by (simp add: put_row_def list_all2_map2 list.rel_refl_strong)
qed

lemma bumped_account_id [simp]: "ac_id (bumped_account a c) = ac_id a"
  by (simp add: bumped_account_def Let_def)

lemma tightened_identity_id [simp]: "ei_id (tightened_identity e c) = ei_id e"
  by (simp add: tightened_identity_def split: option.split)

lemma event_effect_keeps:
  assumes "event_effect (s\<lparr>ds_receipts := ds_receipts s @ [r]\<rparr>) (ds_receipts s) r c a s' res"
    and wf: "dir_wf s" and a: "a \<in> set (ds_accounts s)"
    and r: "rc_key r \<notin> rc_key ` set (ds_receipts s)" "rc_id r \<notin> rc_id ` set (ds_receipts s)"
  shows "dir_wf s' \<and> store_le s s'"
proof -
  have ids: "distinct (map ac_id (ds_accounts s))" "distinct (map ei_id (ds_identities s))"
    using wf by (simp_all add: dir_wf_def)
  have acc: "list_all2 account_le (ds_accounts s) (put_row ac_id (bumped_account a c) (ds_accounts s))"
    by (rule list_all2_put_row [OF ids(1) a]) (simp_all add: account_le_bumped)
  have ide: "list_all2 identity_le (ds_identities s) (put_row ei_id (tightened_identity e c) (ds_identities s))"
    if "e \<in> set (ds_identities s)" for e
    by (rule list_all2_put_row [OF ids(2) that]) (simp_all add: identity_le_tightened)
  note facts = dir_wf_def store_le_def receipt_finished_def finished_as_def list_all2_refl
  show ?thesis
    using assms(1)
  proof cases
    case stale
    with wf r show ?thesis by (auto simp: facts)
  next
    case conflict
    with wf r acc show ?thesis by (auto simp: facts)
  next
    case unlinked
    with wf r acc show ?thesis by (auto simp: facts)
  next
    case (linked r' e)
    with wf r acc ide [of e] show ?thesis by (auto simp: facts)
  qed
qed

lemma process_keeps:
  assumes "dir_wf s" "process L s k = Inr (s', res)"
  shows "dir_wf s' \<and> store_le s s'"
  using assms
proof (cases rule: process_cases)
  case no_link
  with assms show ?thesis by simp
next
  case replay
  with assms show ?thesis by (simp add: process_replays_def)
next
  case (effect ch a)
  then show ?thesis
    using event_effect_keeps [OF _ assms(1) lock_authority_mem [OF effect(2)]]
    by (auto simp: process_applies_def Let_def new_receipt_def)
qed

interpretation dir: step_invariant "dir_step L" dir_wf
  by unfold_locales (auto simp: dir_step_def result_simps dest: process_keeps)

interpretation dir_order: step_monotone "dir_step L" "\<lambda>s t. dir_wf s \<longrightarrow> dir_wf t \<and> store_le s t"
  by unfold_locales (auto simp: dir_step_def result_simps dest: process_keeps intro: store_le_trans)

section \<open>Histories of events\<close>

lemma account_leD:
  assumes "account_le a b"
  shows "ac_id b = ac_id a" "ac_tenant_id b = ac_tenant_id a" "ac_provider b = ac_provider a"
    "ac_provider_tenant_key b = ac_provider_tenant_key a" "ac_provider_account_key b = ac_provider_account_key a"
    "ac_identity_health_state b = ac_identity_health_state a" "ac_identity_revision a \<le> ac_identity_revision b"
  using assms by (cases a; cases b; simp add: account_le_def)+

lemma store_leD:
  assumes "store_le s t"
  shows "ds_channels t = ds_channels s" "ds_tenants t = ds_tenants s" "ds_bindings t = ds_bindings s"
    "ds_provider_tenants t = ds_provider_tenants s" "ds_links t = ds_links s"
    "list_all2 account_le (ds_accounts s) (ds_accounts t)" "set (ds_receipts s) \<subseteq> set (ds_receipts t)"
  using assms by (cases s; cases t; force simp: store_le_def dest: set_mono_prefix)+

lemma list_all2_filter:
  assumes "list_all2 R xs ys" "\<And>x y. R x y \<Longrightarrow> P x = Q y"
  shows "list_all2 R (filter P xs) (filter Q ys)"
  using assms by (induction rule: list_all2_induct) auto

lemma list_all2_product:
  assumes "list_all2 R xs ys"
  shows "list_all2 (rel_prod R (=)) (List.product xs zs) (List.product ys zs)"
  using assms by (induction rule: list_all2_induct)
    (auto intro!: list_all2_appendI simp: list_all2_map1 list_all2_map2 list_all2_refl)

lemma account_links_le:
  assumes "store_le s t"
  shows "list_all2 (rel_prod account_le (=)) (account_links s ch) (account_links t ch)"
  unfolding account_links_def store_leD(5) [OF assms]
  by (rule list_all2_filter [OF list_all2_product [OF store_leD(6) [OF assms]]]) (auto simp: account_leD)

lemma lock_authority_le:
  assumes le: "store_le s t" and lock: "lock_authority s c ch = Inr (Some a)"
  shows "\<exists>b. lock_authority t c ch = Inr (Some b) \<and> account_le a b"
proof -
  obtain x l where x: "filter (\<lambda>x. ch_id x = ch) (ds_channels s) = [x]" "ch_status x = 1" "ch_channel x = ''feishu''"
      "ch_tenant_id x \<in> set (ds_tenants s)" "account_links s x = [(a, l)]" "lock_binding s c x = Inr ()"
      "authority_valid s c x a l"
    using lock by (auto simp: lock_authority_def result_simps split: list.splits)
  from account_links_le [OF le, of x] obtain b where b: "account_links t x = [(b, l)]" "account_le a b"
    by (auto simp: x(5) list_all2_Cons1)
  have "lock_binding t c x = Inr ()"
    using x(6) by (simp add: lock_binding_def store_leD [OF le])
  moreover have "authority_valid t c x b l"
    using x(7) account_leD(7) [OF b(2)] unfolding authority_valid_def store_leD [OF le] account_leD(1-6) [OF b(2)]
    by (auto simp del: split_paired_Ex)
  ultimately show ?thesis
    using b x by (simp add: lock_authority_def store_leD [OF le])
qed

lemma error_of_value_inverse [simp]: "error_of_value (error_value e) = Some e"
  by (cases e) (simp_all add: error_of_value_def error_codes_def)

definition replay_answer :: "DirectoryEventProcessingResult \<Rightarrow> DirectoryEventProcessingResult \<Rightarrow> bool" where
  \<comment> \<open>the answer to a repeated event, after the first answer\<close>
  "replay_answer res res' \<longleftrightarrow> \<not> dr_revision_bumped res' \<and> dr_error_code res' = dr_error_code res \<and>
     dr_outcome res' = (if dr_outcome res = FAILED then FAILED else DUPLICATE)"

lemma receipt_after_process:
  assumes "dir_wf s" "process L s k = Inr (s1, res)" "dr_context res \<noteq> None"
  obtains ch a r where "find_channel_id s (dc_binding_id (dk_command k)) = Some ch"
    "lock_authority s (dk_command k) ch = Inr (Some a)" "instant (dc_event_at (dk_command k)) \<le> dk_now k + 300000000"
    "r \<in> set (ds_receipts s1)" "rc_key r = receipt_key_of (dk_command k) a"
    "\<And>b. replay_answer res (existing_receipt_result r (canonical_directory_event_hash L (dk_command k)) b)"
  using assms(1,2)
proof (cases rule: process_cases)
  case no_link
  with assms(3) show thesis by simp
next
  case (replay ch a)
  then obtain r where r: "r \<in> set (ds_receipts s)" "rc_key r = receipt_key_of (dk_command k) a" "s1 = s"
      "res = existing_receipt_result r (canonical_directory_event_hash L (dk_command k)) a"
    by (auto simp: process_replays_def)
  then have "replay_answer res (existing_receipt_result r (canonical_directory_event_hash L (dk_command k)) b)" for b
    by (auto simp: replay_answer_def existing_receipt_result_def event_result_def split: receipt_state.split)
  with replay r that show thesis by blast
next
  case (effect ch a)
  let ?h = "canonical_directory_event_hash L (dk_command k)"
  have "\<exists>r\<in>set (ds_receipts s1). rc_key r = receipt_key_of (dk_command k) a \<and>
      (\<forall>b. replay_answer res (existing_receipt_result r ?h b))"
    using effect(4) unfolding process_applies_def Let_def
    by (auto elim!: event_effect.cases simp: finished_as_def new_receipt_def replay_answer_def existing_receipt_result_def
        event_result_def simp del: error_value.simps)
  with effect that show thesis by blast
qed

lemma process_existing:
  assumes "find_channel_id t (dc_binding_id (dk_command k)) = Some ch" "lock_authority t (dk_command k) ch = Inr (Some b)"
    and "instant (dc_event_at (dk_command k)) \<le> dk_now k + 300000000" "dir_wf t"
    and "r \<in> set (ds_receipts t)" "rc_key r = receipt_key_of (dk_command k) b"
  shows "process L t k = Inr (t, existing_receipt_result r (canonical_directory_event_hash L (dk_command k)) b)"
proof -
  have "row_by rc_key (receipt_key_of (dk_command k) b) (ds_receipts t) = Some r"
    using assms by (metis dir_wf_def row_by_distinct)
  with assms show ?thesis
    by (simp add: process_def process_locked_def claim_receipt_def)
qed

lemma replay_after_history:
  assumes "dir_wf s" "process L s k = Inr (s1, res)" "dr_context res \<noteq> None"
    and t: "dir_wf t" "store_le s1 t" and k': "dk_command k' = dk_command k" "dk_now k \<le> dk_now k'"
  shows "\<exists>res'. process L t k' = Inr (t, res') \<and> replay_answer res res'"
proof -
  obtain ch a r where first: "find_channel_id s (dc_binding_id (dk_command k)) = Some ch"
      "lock_authority s (dk_command k) ch = Inr (Some a)" "instant (dc_event_at (dk_command k)) \<le> dk_now k + 300000000"
    and r: "r \<in> set (ds_receipts s1)" "rc_key r = receipt_key_of (dk_command k) a"
      "\<And>b. replay_answer res (existing_receipt_result r (canonical_directory_event_hash L (dk_command k)) b)"
    by (rule receipt_after_process [OF assms(1-3)]) blast
  have le: "store_le s t"
    using process_keeps [OF assms(1,2)] t(2) by (blast intro: store_le_trans)
  obtain b where b: "lock_authority t (dk_command k) ch = Inr (Some b)" "account_le a b"
    using lock_authority_le [OF le first(2)] by blast
  have "process L t k' = Inr (t, existing_receipt_result r (canonical_directory_event_hash L (dk_command k')) b)"
  proof (rule process_existing)
    show "find_channel_id t (dc_binding_id (dk_command k')) = Some ch"
      using first(1) by (simp add: find_channel_id_def store_leD [OF le] k')
    show "r \<in> set (ds_receipts t)"
      using r(1) store_leD(7) [OF t(2)] by blast
    show "rc_key r = receipt_key_of (dk_command k') b"
      using r(2) by (simp add: receipt_key_of_def account_leD [OF b(2)] k')
  qed (use b first t k' in auto)
  with r(3) show ?thesis by (auto simp: k')
qed

text \<open>The hash does not depend on the order of the identifiers.\<close>

lemma sort_key_perm:
  assumes "mset xs = mset ys" "distinct (map f xs)"
  shows "sort_key f xs = sort_key f ys"
proof (rule map_sorted_distinct_set_unique [where f = f])
  have ys: "distinct (map f ys)"
    using assms by (metis mset_eq_imp_distinct_iff mset_map)
  show "distinct (map f (sort_key f xs))" "distinct (map f (sort_key f ys))"
    using assms ys by (metis mset_eq_imp_distinct_iff mset_map mset_sort)+
  show "inj_on f (set (sort_key f xs) \<union> set (sort_key f ys))"
    using assms mset_eq_setD [OF assms(1)] by (simp add: distinct_map)
qed (use mset_eq_setD [OF assms(1)] in simp_all)

lemma kind_value_inject [simp]: "kind_value x = kind_value y \<longleftrightarrow> x = y"
  by (cases x; cases y) simp_all

lemma hash_ignores_identifier_order:
  assumes "command_ok L c" "mset ds = mset (dc_identifiers c)"
  shows "canonical_directory_event_hash L (c\<lparr>dc_identifiers := ds\<rparr>) = canonical_directory_event_hash L c"
proof -
  have "distinct (map (\<lambda>d. kind_value (di_kind d)) (dc_identifiers c))"
    using assms(1) by (auto simp: command_ok_def Let_def distinct_map inj_on_def)
  then have "sort_key (\<lambda>d. kind_value (di_kind d)) ds = sort_key (\<lambda>d. kind_value (di_kind d)) (dc_identifiers c)"
    using assms(2) by (metis sort_key_perm)
  then show ?thesis
    by (simp add: canonical_directory_event_hash_def event_payload_def)
qed

lemma put_row_mem:
  assumes "distinct (map key rows)" "x \<in> set rows" "key y = key x"
  shows "row_by key (key x) (put_row key y rows) = Some y"
  using assms by (simp add: row_by_put_row row_by_distinct)

text \<open>The answer reports the account row as it is after the event.\<close>

definition reports_account :: "dir_store \<Rightarrow> dir_store \<Rightarrow> DirectoryEventProcessingResult \<Rightarrow> bool" where
  "reports_account s s' res \<longleftrightarrow>
     (case dr_context res of
        None \<Rightarrow> s' = s
      | Some ctx \<Rightarrow>
          (case (row_by ac_id (pc_provider_account_id ctx) (ds_accounts s), row_by ac_id (pc_provider_account_id ctx) (ds_accounts s')) of
             (Some a, Some b) \<Rightarrow>
               ctx = current_context b \<and> ac_identity_revision b = ac_identity_revision a + (if dr_revision_bumped res then 1 else 0) \<and>
               ds_accounts s' = put_row ac_id b (ds_accounts s)
           | _ \<Rightarrow> False))"

lemma reports_unchanged:
  assumes "dir_wf s" "a \<in> set (ds_accounts s)" "ds_accounts s' = ds_accounts s"
  shows "reports_account s s' (event_result out (current_context a) False code)"
  using assms
  by (simp add: reports_account_def event_result_def current_context_def provider_context_def dir_wf_def row_by_distinct put_row_same)

lemma reports_bumped:
  assumes "dir_wf s" "a \<in> set (ds_accounts s)" "ds_accounts s' = put_row ac_id (bumped_account a c) (ds_accounts s)"
  shows "reports_account s s' (event_result out (current_context (bumped_account a c)) True code)"
proof -
  have "row_by ac_id (ac_id a) (ds_accounts s) = Some a"
    "row_by ac_id (ac_id a) (ds_accounts s') = Some (bumped_account a c)"
    using assms by (simp_all add: dir_wf_def row_by_distinct put_row_mem)
  moreover have "pc_provider_account_id (current_context (bumped_account a c)) = ac_id a"
    by (simp add: current_context_def provider_context_def)
  moreover have "ac_identity_revision (bumped_account a c) = ac_identity_revision a + 1"
    by (simp add: bumped_account_def Let_def)
  ultimately show ?thesis
    using assms(3) by (simp add: reports_account_def event_result_def)
qed

lemma process_reports:
  assumes "dir_wf s" "process L s k = Inr (s', res)"
  shows "result_ok res \<and> reports_account s s' res"
  using assms
proof (cases rule: process_cases)
  case no_link
  then show ?thesis by (simp add: result_ok_def reports_account_def)
next
  case (replay ch a)
  note a = lock_authority_mem [OF replay(2)]
  from replay obtain r where "s' = s" "res = existing_receipt_result r (canonical_directory_event_hash L (dk_command k)) a"
    by (auto simp: process_replays_def)
  with reports_unchanged [OF assms(1) a] show ?thesis
    by (auto simp: existing_receipt_result_def result_ok_def event_result_def [abs_def] split: receipt_state.split)
next
  case (effect ch a)
  note a = lock_authority_mem [OF effect(2)]
  have "event_effect (s\<lparr>ds_receipts := ds_receipts s @ [r]\<rparr>) (ds_receipts s) r c a s' res \<Longrightarrow>
      result_ok res \<and> reports_account s s' res" for r c
    by (erule event_effect.cases)
      (simp_all add: reports_unchanged [OF assms(1) a] reports_bumped [OF assms(1) a], simp_all add: result_ok_def event_result_def)
  with effect show ?thesis
    by (auto simp: process_applies_def Let_def)
qed

text \<open>Only an event at least as recent as every event applied to an identity changes it, and its receipt names the identity.\<close>

lemma stale_for_new_receipt:
  "rc_processing_state r = RECEIPT_PROCESSING \<Longrightarrow> stale_for (s\<lparr>ds_receipts := ds_receipts s @ [r]\<rparr>) c e = stale_for s c e"
  by (simp add: stale_for_def latest_identity_event_at_def)

lemma identity_change_is_fresh:
  assumes "dir_wf s" "process L s k = Inr (s', res)" "e \<in> set (ds_identities s)" "e \<notin> set (ds_identities s')"
  shows "\<not> stale_for s (dk_command k) e \<and> (\<exists>r\<in>set (ds_receipts s'). rc_processing_state r = RECEIPT_SUCCEEDED \<and>
    rc_external_identity_id r = Some (ei_id e) \<and> rc_event_at r = instant (dc_event_at (dk_command k)))"
  using assms(1,2)
proof (cases rule: process_cases)
  case no_link
  with assms show ?thesis by simp
next
  case replay
  with assms show ?thesis by (simp add: process_replays_def)
next
  case (effect ch a)
  let ?r = "new_receipt (dk_command k) a (canonical_directory_event_hash L (dk_command k)) (dk_receipt_id k)"
  have new: "rc_processing_state ?r = RECEIPT_PROCESSING" "rc_event_at ?r = instant (dc_event_at (dk_command k))"
    by (simp_all add: new_receipt_def)
  have "event_effect (s\<lparr>ds_receipts := ds_receipts s @ [?r]\<rparr>) (ds_receipts s) ?r (dk_command k) a s' res"
    using effect(4) by (simp add: process_applies_def Let_def)
  then show ?thesis
  proof cases
    case (linked r' f)
    then have f: "f \<in> set (ds_identities s)"
      and s': "ds_identities s' = put_row ei_id (tightened_identity f (dk_command k)) (ds_identities s)"
      by simp_all
    with assms(3,4) have "ei_id e = ei_id f"
      by (metis mem_put_row_other tightened_identity_id)
    then have "e = f"
      using assms(1,3) f by (metis dir_wf_def distinct_key_eq)
    with linked show ?thesis
      by (auto simp: finished_as_def new stale_for_new_receipt [OF new(1)])
  qed (use assms in simp_all)
qed

section \<open>Properties\<close>

definition demo_dir_lib :: dir_lib where
  "demo_dir_lib = \<lparr>dl_printable = (\<lambda>_. True), dl_stamp = (\<lambda>_. ''t''), dl_platform = demo_platform\<lparr>sha256 := (\<lambda>_. ''h'')\<rparr>\<rparr>"

definition demo_account :: account_row where
  "demo_account = \<lparr>ac_id = ''a'', ac_tenant_id = ''t'', ac_provider = ''feishu'', ac_provider_tenant_key = ''k'',
     ac_provider_account_key = ''app'', ac_identity_revision = 1, ac_identity_health_state = ''healthy'',
     ac_identity_health_error_code = None, ac_last_directory_event_at = None, ac_last_scope_change_at = None\<rparr>"

definition demo_link :: identity_row where
  "demo_link = \<lparr>ei_id = ''e'', ei_tenant_id = ''t'', ei_user_id = ''p'', ei_provider = ''feishu'', ei_provider_tenant_key = ''k'',
     ei_subject_type = ''user_id'', ei_subject_value = ''u'', ei_state = LINK_ACTIVE, ei_identity_revision = 1,
     ei_verified_at = Some 3, ei_last_seen_at = None\<rparr>"

definition demo_dir_store :: dir_store where
  "demo_dir_store =
     \<lparr>ds_channels = [\<lparr>ch_id = ''c'', ch_tenant_id = ''t'', ch_channel = ''feishu'', ch_status = 1\<rparr>], ds_tenants = [''t''],
      ds_bindings = [\<lparr>bi_id = ''b'', bi_channel_id = ''c'', bi_enabled = True, bi_generation = 1\<rparr>],
      ds_provider_tenants = [\<lparr>pt_tenant_id = ''t'', pt_provider = ''feishu'', pt_provider_tenant_key = ''k''\<rparr>],
      ds_accounts = [demo_account],
      ds_links = [\<lparr>lk_tenant_id = ''t'', lk_provider = ''feishu'', lk_channel_id = ''c'', lk_provider_account_id = ''a''\<rparr>],
      ds_aliases = [], ds_identities = [demo_link], ds_receipts = []\<rparr>"

definition demo_deletion :: "int \<Rightarrow> dir_call" where
  "demo_deletion now =
     \<lparr>dk_command = \<lparr>dc_binding_id = ''b'', dc_binding_generation = 1, dc_event_type = USER_DELETED, dc_event_id = ''d'',
        dc_event_at = \<lparr>instant = 5, utcoffset = Some 0\<rparr>, dc_observed_app_id = ''app'', dc_observed_tenant_key = ''k'',
        dc_identifiers = [\<lparr>di_kind = USER_ID, di_value = ''u''\<rparr>], dc_directory_status = Some DIR_INACTIVE\<rparr>,
      dk_receipt_id = ''r'', dk_now = now\<rparr>"

definition demo_deleted :: dir_store where
  "demo_deleted = demo_dir_store\<lparr>ds_identities := [demo_link\<lparr>ei_state := LINK_REVOKED, ei_identity_revision := 2\<rparr>],
     ds_accounts := [demo_account\<lparr>ac_identity_revision := 2, ac_last_directory_event_at := Some 5\<rparr>],
     ds_receipts := [\<lparr>rc_id = ''r'', rc_key = (''t'', ''feishu'', ''k'', ''app'', ''contact.user.deleted_v3'', ''d''), rc_event_hash = ''h'',
        rc_processing_state = RECEIPT_SUCCEEDED, rc_event_at = 5, rc_processed_at = Some 6, rc_error_code = None,
        rc_external_identity_id = Some ''e''\<rparr>]\<rparr>"

lemma demo_wf: "dir_wf demo_dir_store"
  by (simp add: dir_wf_def demo_dir_store_def)

lemma demo_deletion_applied:
  "process demo_dir_lib demo_dir_store (demo_deletion 6) =
     Inr (demo_deleted, event_result APPLIED (current_context (hd (ds_accounts demo_deleted))) True None)"
proof -
  have "canonical_directory_event_hash demo_dir_lib c = ''h''" for c
    by (simp add: canonical_directory_event_hash_def demo_dir_lib_def)
  then show ?thesis
    by (simp add: process_def find_channel_id_def demo_dir_store_def demo_deletion_def process_locked_def lock_authority_def
        account_links_def lock_binding_def authority_valid_def demo_account_def claim_receipt_def new_receipt_def receipt_key_of_def
        apply_event_def stale_scope_def lock_external_identity_def event_aliases_def event_user_id_def event_identities_def
        demo_link_def stale_for_def latest_identity_event_at_def List.map_filter_def tighten_identity_def tightened_state_def
        update_where_def conclude_event_def cas_bump_account_def finish_receipt_def put_row_def demo_deleted_def
        current_context_def provider_context_def Let_def)
qed

text \<open>Over every history of directory events, accepted or refused, the tables stay well formed (unique ids and event
  keys, no receipt left in processing, the check constraint of the receipts); committed receipts are never changed, only
  added; an identity keeps its row or gets a tighter state (pending or active, then inactive, then revoked or conflict) with
  a higher revision; the revision and both time marks of an account never go back; the other columns and tables stay.\<close>

lemma directory_history_tightens:
  assumes "dir_wf s"
  shows "dir_wf (try_steps (dir_step L) s ks) \<and> store_le s (try_steps (dir_step L) s ks)"
  using assms dir_order.try_steps_le [of s L ks] by blast

lemma demo_deletion_step: "try_steps (dir_step demo_dir_lib) demo_dir_store [demo_deletion 6] = demo_deleted"
  by (simp add: try_step_def dir_step_def demo_deletion_applied)

lemma directory_history_tightens_example:
  "dir_wf demo_dir_store \<and> dir_wf demo_deleted \<and> store_le demo_dir_store demo_deleted \<and>
   map ei_state (ds_identities demo_deleted) = [LINK_REVOKED]"
  using directory_history_tightens [OF demo_wf, of demo_dir_lib "[demo_deletion 6]"] demo_wf
  unfolding demo_deletion_step by (simp add: demo_deleted_def)

text \<open>Property C27. An event is applied once: when a call has answered for a linked account, a later call with the same command
  succeeds after any history of other events, changes no table, does not move the account's revision, and answers
  \<open>duplicate\<close>, or \<open>failed\<close> with the first error code when the first answer was a failure.\<close>

theorem directory_event_applied_once:
  assumes "dir_wf s" "process L s k = Inr (s1, res)" "dr_context res \<noteq> None"
    and "dk_command k' = dk_command k" "dk_now k \<le> dk_now k'" "t = try_steps (dir_step L) s1 ks"
  shows "\<exists>res'. process L t k' = Inr (t, res') \<and> replay_answer res res'"
proof -
  have wf: "dir_wf s1"
    using process_keeps [OF assms(1,2)] by blast
  then have "dir_wf t \<and> store_le s1 t"
    using dir_order.try_steps_le [of s1 L ks] assms(6) by blast
  with replay_after_history [OF assms(1-3) _ _ assms(4,5)] show ?thesis by blast
qed

theorem directory_event_applied_once_witness:
  "\<exists>res'. process demo_dir_lib demo_deleted (demo_deletion 9) = Inr (demo_deleted, res') \<and> dr_outcome res' = DUPLICATE"
proof -
  have "\<exists>res'. process demo_dir_lib demo_deleted (demo_deletion 9) = Inr (demo_deleted, res') \<and>
      replay_answer (event_result APPLIED (current_context (hd (ds_accounts demo_deleted))) True None) res'"
    by (rule directory_event_applied_once [OF demo_wf demo_deletion_applied, where ks = "[]"])
      (simp_all add: event_result_def demo_deletion_def)
  then show ?thesis by (auto simp: replay_answer_def event_result_def)
qed


end
