(* ===== verification/Reconciliation.thy ===== *)
theory Reconciliation
  imports Directory_Events
begin

text \<open>
  Reconciliation of linked identities with the directory of their provider: the checkpoints and targets of
  \<open>src/api/identity/reconciliation/repository.py\<close> and its transactions.

  A checkpoint row holds the lease, the cursor and the counters of one provider account; a target row holds
  what is known of one identity. A worker claims a checkpoint, asks the provider outside of any
  transaction, and applies the observation under the fence of its lease. Each transaction is one step; it takes
  the readings of the database clock and the fresh id it uses. The tables of accounts and identities are
  those of the directory events.
\<close>

section \<open>Rows and values\<close>

datatype ReconciliationProviderStatus =
  RP_RESOLVED | RP_INACTIVE | RP_NOT_FOUND | RP_NOT_IN_SCOPE | RP_UNAVAILABLE | RP_CONFLICT | RP_INVALID

datatype ReconciliationErrorCode =
    RE_REPOSITORY_UNAVAILABLE | RE_LEASE_CONFLICT | RE_FENCE_CONFLICT | RE_PROVIDER_UNAVAILABLE
  | RE_PROVIDER_RESULT_INVALID | RE_PROVIDER_CONFLICT | RE_TIGHTEN_CIRCUIT_OPEN

primrec recon_code :: "ReconciliationErrorCode \<Rightarrow> string" where
  "recon_code RE_REPOSITORY_UNAVAILABLE = ''IDENTITY_RECONCILIATION_REPOSITORY_UNAVAILABLE''"
| "recon_code RE_LEASE_CONFLICT = ''IDENTITY_RECONCILIATION_LEASE_CONFLICT''"
| "recon_code RE_FENCE_CONFLICT = ''IDENTITY_RECONCILIATION_FENCE_CONFLICT''"
| "recon_code RE_PROVIDER_UNAVAILABLE = ''IDENTITY_RECONCILIATION_PROVIDER_UNAVAILABLE''"
| "recon_code RE_PROVIDER_RESULT_INVALID = ''IDENTITY_RECONCILIATION_PROVIDER_RESULT_INVALID''"
| "recon_code RE_PROVIDER_CONFLICT = ''IDENTITY_RECONCILIATION_PROVIDER_CONFLICT''"
| "recon_code RE_TIGHTEN_CIRCUIT_OPEN = ''IDENTITY_RECONCILIATION_TIGHTEN_CIRCUIT_OPEN''"

declare recon_code.simps [simp del]

datatype recon_error = RX_VALUE \<comment> \<open>\<open>ValueError\<close>\<close> | RX_REPOSITORY ReconciliationErrorCode

datatype ReconciliationApplyOutcome =
  AO_APPLIED | AO_CONFIRMATION_PENDING | AO_RETRY_SCHEDULED | AO_TARGET_REJECTED | AO_CIRCUIT_OPEN | AO_FENCE_REJECTED

datatype target_state = TG_PENDING | TG_COMPLETED | TG_FAILED

record checkpoint_row =
  cp_id :: string
  cp_provider_account_id :: string
  cp_tenant_id :: string
  cp_provider :: string
  cp_cursor_identity_id :: "string option"
  cp_cycle_started_at :: "int option"
  cp_last_completed_at :: "int option"
  cp_last_success_at :: "int option"
  cp_next_run_at :: int
  cp_lease_owner :: "string option"
  cp_lease_until :: "int option"
  cp_lease_attempt :: int
  cp_processed_count :: int
  cp_tightened_count :: int
  cp_error_count :: int
  cp_consecutive_failures :: int
  cp_safe_error_code :: "string option"

record target_row =
  tg_id :: string
  tg_checkpoint_id :: string
  tg_provider_account_id :: string
  tg_tenant_id :: string
  tg_provider :: string
  tg_provider_tenant_key :: string
  tg_external_identity_id :: string
  tg_account_revision :: int
  tg_account_scope_change_at :: "int option"
  tg_identity_revision :: int
  tg_state :: target_state
  tg_next_attempt_at :: int
  tg_last_outcome :: "ReconciliationProviderStatus option"
  tg_not_found_count :: int
  tg_first_not_found_at :: "int option"
  tg_last_not_found_at :: "int option"
  tg_last_observed_at :: "int option"
  tg_verified_at :: "int option"
  tg_proof_account_revision :: "int option"
  tg_proof_scope_change_at :: "int option"
  tg_proof_identity_revision :: "int option"
  tg_last_success_at :: "int option"
  tg_last_activity_at :: "int option"
  tg_safe_error_code :: "string option"

record user_row =
  us_id :: string
  us_status :: string
  us_is_active :: bool
  us_is_anonymous :: bool

record membership_row =
  ms_user_id :: string
  ms_tenant_id :: string
  ms_role :: string
  ms_status :: string

record recon_store =
  rs_dir :: dir_store
  rs_tenants :: "string list" \<comment> \<open>all tenants; the valid ones are those of the directory store\<close>
  rs_users :: "user_row list"
  rs_memberships :: "membership_row list"
  rs_checkpoints :: "checkpoint_row list"
  rs_targets :: "target_row list"

record ReconciliationObservation =
  ob_status :: ReconciliationProviderStatus
  ob_observed_at :: datetime
  ob_verified_at :: "datetime option"
  ob_safe_error_code :: "string option"

record ReconciliationLease =
  rl_checkpoint_id :: string
  rl_target_id :: string
  rl_owner :: string
  rl_attempt :: int
  rl_context :: ProviderContext
  rl_external_identity_id :: string
  rl_subject_value :: string
  rl_identity_revision :: int
  rl_consecutive_failures :: int
  rl_lease_until :: int

record ReconciliationApplyResult =
  ra_outcome :: ReconciliationApplyOutcome
  ra_identity_changed :: bool
  ra_account_revision :: int
  ra_next_attempt_at :: "int option"
  ra_safe_error_code :: "string option"

definition safe_code_char :: "char \<Rightarrow> bool" where
  "safe_code_char c \<longleftrightarrow> (let n = (of_char c :: nat) in 48 \<le> n \<and> n \<le> 57 \<or> 65 \<le> n \<and> n \<le> 90 \<or> c = CHR ''_'')"

definition safe_code :: "string \<Rightarrow> bool" where
  \<comment> \<open>\<open>^[A-Z][A-Z0-9_]{2,63}$\<close>, full match\<close>
  "safe_code v \<longleftrightarrow> (case v of [] \<Rightarrow> False
     | c # rest \<Rightarrow> 65 \<le> (of_char c :: nat) \<and> (of_char c :: nat) \<le> 90 \<and> list_all safe_code_char rest \<and>
         2 \<le> length rest \<and> length rest \<le> 63)"

definition observation_ok :: "ReconciliationObservation \<Rightarrow> bool" where
  "observation_ok ob \<longleftrightarrow>
     aware (ob_observed_at ob) \<and>
     (case ob_verified_at ob of
        None \<Rightarrow> ob_status ob \<noteq> RP_RESOLVED
      | Some t \<Rightarrow> ob_status ob = RP_RESOLVED \<and> aware t \<and> instant t \<le> instant (ob_observed_at ob)) \<and>
     (case ob_safe_error_code ob of
        None \<Rightarrow> ob_status ob \<notin> {RP_UNAVAILABLE, RP_INVALID}
      | Some code \<Rightarrow> ob_status ob \<in> {RP_UNAVAILABLE, RP_INVALID} \<and> safe_code code)"

definition lease_ok :: "ReconciliationLease \<Rightarrow> bool" where
  "lease_ok l \<longleftrightarrow> 1 \<le> rl_attempt l \<and> 1 \<le> rl_identity_revision l \<and> 0 \<le> rl_consecutive_failures l \<and>
     list_all (\<lambda>v. v \<noteq> [] \<and> v = py_strip v)
       [rl_checkpoint_id l, rl_target_id l, rl_owner l, rl_external_identity_id l, rl_subject_value l]"

definition us :: "int \<Rightarrow> int" where
  "us seconds = seconds * 1000000"

definition timedelta_us :: "rat \<Rightarrow> int" where
  \<comment> \<open>\<open>timedelta(seconds=x)\<close> for a float: microseconds, ties to even\<close>
  "timedelta_us x =
     (let q = x * 1000000; f = \<lfloor>q\<rfloor>; d = q - of_int f in
      if d < 1 / 2 then f else if 1 / 2 < d then f + 1 else if even f then f else f + 1)"

section \<open>Helpers on checkpoints\<close>

definition clear_lease :: "checkpoint_row \<Rightarrow> checkpoint_row" where
  "clear_lease cp = cp\<lparr>cp_lease_owner := None, cp_lease_until := None\<rparr>"

definition advance_checkpoint_next_run :: "int \<Rightarrow> checkpoint_row \<Rightarrow> checkpoint_row" where
  "advance_checkpoint_next_run candidate cp = (if candidate > cp_next_run_at cp then cp\<lparr>cp_next_run_at := candidate\<rparr> else cp)"

definition max_cursor :: "string option \<Rightarrow> string \<Rightarrow> string" where
  "max_cursor cursor candidate = (case cursor of None \<Rightarrow> candidate | Some v \<Rightarrow> if candidate > v then candidate else v)"

definition set_account_health :: "account_row \<Rightarrow> string \<Rightarrow> account_row" where
  "set_account_health a desired =
     (if ac_identity_health_state a = desired then a
      else a\<lparr>ac_identity_health_state := desired, ac_identity_health_error_code := None,
             ac_identity_revision := ac_identity_revision a + 1\<rparr>)"

definition negative_is_current :: "identity_row \<Rightarrow> int \<Rightarrow> bool" where
  "negative_is_current e observed_at \<longleftrightarrow> (case ei_verified_at e of None \<Rightarrow> True | Some t \<Rightarrow> t \<le> observed_at)"

definition complete_cycle ::
  "account_row \<Rightarrow> checkpoint_row \<Rightarrow> int \<Rightarrow> int \<Rightarrow> int option \<Rightarrow> bool \<Rightarrow> account_row \<times> checkpoint_row" where
  \<comment> \<open>every caller keeps the counters\<close>
  "complete_cycle a cp now cycle_interval_seconds pending_attempt_at allow_health_recovery =
     (let recovered = allow_health_recovery \<and> 0 < cp_processed_count cp \<and> cp_error_count cp = 0 \<and> cp_consecutive_failures cp = 0;
          cycle_due_at = now + us cycle_interval_seconds;
          next_cycle_at = (case pending_attempt_at of None \<Rightarrow> cycle_due_at | Some t \<Rightarrow> min cycle_due_at t)
      in (if recovered then set_account_health a ''healthy'' else a,
          clear_lease (advance_checkpoint_next_run next_cycle_at
            (cp\<lparr>cp_cycle_started_at := None, cp_cursor_identity_id := None, cp_last_completed_at := Some now\<rparr>))))"

definition finish_target ::
  "checkpoint_row \<Rightarrow> target_row \<Rightarrow> string \<Rightarrow> int \<Rightarrow> bool \<Rightarrow> string option \<Rightarrow> checkpoint_row \<times> target_row" where
  "finish_target cp tg identity_id now failed code =
     (clear_lease (advance_checkpoint_next_run now
        (cp\<lparr>cp_cursor_identity_id := Some (max_cursor (cp_cursor_identity_id cp) identity_id),
            cp_processed_count := cp_processed_count cp + 1\<rparr>)),
      tg\<lparr>tg_state := (if failed then TG_FAILED else TG_COMPLETED), tg_next_attempt_at := now, tg_safe_error_code := code\<rparr>)"

definition advance_past_pending_target :: "checkpoint_row \<Rightarrow> string \<Rightarrow> int \<Rightarrow> checkpoint_row" where
  "advance_past_pending_target cp identity_id now =
     clear_lease (advance_checkpoint_next_run now
       (cp\<lparr>cp_cursor_identity_id := Some (max_cursor (cp_cursor_identity_id cp) identity_id),
           cp_processed_count := cp_processed_count cp + 1\<rparr>))"

definition reject_checkpoint :: "checkpoint_row \<Rightarrow> int \<Rightarrow> checkpoint_row" where
  "reject_checkpoint cp now =
     clear_lease (advance_checkpoint_next_run now
       (cp\<lparr>cp_error_count := cp_error_count cp + 1, cp_safe_error_code := Some (recon_code RE_FENCE_CONFLICT),
           cp_cycle_started_at := None, cp_cursor_identity_id := None\<rparr>))"

definition reject_target :: "target_row \<Rightarrow> int \<Rightarrow> target_row" where
  "reject_target tg now =
     tg\<lparr>tg_state := TG_FAILED, tg_next_attempt_at := now, tg_safe_error_code := Some (recon_code RE_FENCE_CONFLICT)\<rparr>"

section \<open>Applying an observation\<close>

record work =
  wk_account :: account_row
  wk_checkpoint :: checkpoint_row
  wk_target :: target_row
  wk_identity :: identity_row

record apply_limits =
  al_unavailable_delay :: int
  al_not_found_confirmation :: int
  al_cycle_interval :: int
  al_degrade_after_failures :: int
  al_max_tighten_per_cycle :: int

definition apply_result :: "ReconciliationApplyOutcome \<Rightarrow> bool \<Rightarrow> work \<Rightarrow> int option \<Rightarrow> string option \<Rightarrow> ReconciliationApplyResult" where
  "apply_result outcome changed w next_at code =
     \<lparr>ra_outcome = outcome, ra_identity_changed = changed, ra_account_revision = ac_identity_revision (wk_account w),
      ra_next_attempt_at = next_at, ra_safe_error_code = code\<rparr>"

definition degrade_when :: "bool \<Rightarrow> account_row \<Rightarrow> account_row" where
  "degrade_when b a = (if b then set_account_health a ''degraded'' else a)"

definition record_failure :: "work \<Rightarrow> string \<Rightarrow> int \<Rightarrow> work" where
  "record_failure w code degrade_after_failures =
     (let cp = (wk_checkpoint w)\<lparr>cp_error_count := cp_error_count (wk_checkpoint w) + 1,
            cp_consecutive_failures := cp_consecutive_failures (wk_checkpoint w) + 1, cp_safe_error_code := Some code\<rparr>;
          a = degrade_when (cp_consecutive_failures cp \<ge> degrade_after_failures) (wk_account w)
      in w\<lparr>wk_account := a, wk_checkpoint := cp,
           wk_target := (wk_target w)\<lparr>tg_safe_error_code := Some code, tg_account_revision := ac_identity_revision a\<rparr>\<rparr>)"

definition record_success :: "work \<Rightarrow> work" where
  "record_success w =
     w\<lparr>wk_checkpoint := (wk_checkpoint w)\<lparr>cp_consecutive_failures := 0, cp_safe_error_code := None\<rparr>,
       wk_target := (wk_target w)\<lparr>tg_safe_error_code := None, tg_account_revision := ac_identity_revision (wk_account w)\<rparr>\<rparr>"

definition finish_work :: "work \<Rightarrow> int \<Rightarrow> bool \<Rightarrow> string option \<Rightarrow> work" where
  "finish_work w now failed code =
     (let (cp, tg) = finish_target (wk_checkpoint w) (wk_target w) (ei_id (wk_identity w)) now failed code
      in w\<lparr>wk_checkpoint := cp, wk_target := tg\<rparr>)"

definition code_or :: "string option \<Rightarrow> ReconciliationErrorCode \<Rightarrow> string" where
  \<comment> \<open>\<open>code or fallback\<close>\<close>
  "code_or code fallback = (case code of Some v \<Rightarrow> if v = [] then recon_code fallback else v | None \<Rightarrow> recon_code fallback)"

definition apply_unavailable :: "work \<Rightarrow> string \<Rightarrow> int \<Rightarrow> apply_limits \<Rightarrow> work \<times> ReconciliationApplyResult" where
  "apply_unavailable w code now limits =
     (let w1 = record_failure w code (al_degrade_after_failures limits);
          retry_at = max (cp_next_run_at (wk_checkpoint w1)) (now + us (al_unavailable_delay limits));
          w2 = w1\<lparr>wk_target := (wk_target w1)\<lparr>tg_state := TG_PENDING, tg_next_attempt_at := retry_at\<rparr>,
                  wk_checkpoint := clear_lease (advance_checkpoint_next_run retry_at (wk_checkpoint w1))\<rparr>
      in (w2, apply_result AO_RETRY_SCHEDULED False w2 (Some retry_at) (Some code)))"

definition apply_invalid :: "work \<Rightarrow> string \<Rightarrow> int \<Rightarrow> apply_limits \<Rightarrow> work \<times> ReconciliationApplyResult" where
  "apply_invalid w code now limits =
     (let w1 = finish_work (record_failure w code (al_degrade_after_failures limits)) now True (Some code);
          retry_at = max (cp_next_run_at (wk_checkpoint w1)) (now + us (al_unavailable_delay limits));
          w2 = w1\<lparr>wk_checkpoint := advance_checkpoint_next_run retry_at (wk_checkpoint w1)\<rparr>
      in (w2, apply_result AO_TARGET_REJECTED False w2 (Some retry_at) (Some code)))"

definition await_confirmation :: "work \<Rightarrow> int \<Rightarrow> int \<Rightarrow> work \<times> ReconciliationApplyResult" where
  "await_confirmation w confirm_at now =
     (let retry_at = max (cp_next_run_at (wk_checkpoint w)) confirm_at;
          w1 = w\<lparr>wk_target := (wk_target w)\<lparr>tg_state := TG_PENDING, tg_next_attempt_at := retry_at\<rparr>,
                 wk_checkpoint := advance_past_pending_target (wk_checkpoint w) (ei_id (wk_identity w)) now\<rparr>
      in (w1, apply_result AO_CONFIRMATION_PENDING False w1 (Some retry_at) None))"

definition open_circuit :: "work \<Rightarrow> int \<Rightarrow> apply_limits \<Rightarrow> work \<times> ReconciliationApplyResult" where
  "open_circuit w now limits =
     (let code = recon_code RE_TIGHTEN_CIRCUIT_OPEN; cp0 = wk_checkpoint w;
          cp = cp0\<lparr>cp_error_count := cp_error_count cp0 + 1, cp_processed_count := cp_processed_count cp0 + 1,
                   cp_consecutive_failures := cp_consecutive_failures cp0 + 1, cp_safe_error_code := Some code\<rparr>;
          a = set_account_health (wk_account w) ''degraded'';
          tg = (wk_target w)\<lparr>tg_state := TG_FAILED, tg_safe_error_code := Some code, tg_next_attempt_at := now,
                 tg_account_revision := ac_identity_revision a\<rparr>;
          (a1, cp1) = complete_cycle a cp now (al_cycle_interval limits) None True;
          w1 = w\<lparr>wk_account := a1, wk_checkpoint := cp1, wk_target := tg\<rparr>
      in (w1, apply_result AO_CIRCUIT_OPEN False w1 (Some (cp_next_run_at cp1)) (Some code)))"

definition apply_resolved :: "work \<Rightarrow> int \<Rightarrow> work \<times> bool" where
  "apply_resolved w proof_at =
     (let tg = wk_target w; e = wk_identity w; a = wk_account w;
          updates_target_proof = (case tg_verified_at tg of None \<Rightarrow> True | Some t \<Rightarrow> t \<le> proof_at);
          changed = (case ei_verified_at e of None \<Rightarrow> True | Some t \<Rightarrow> t < proof_at);
          e1 = (if changed then e\<lparr>ei_verified_at := Some proof_at, ei_identity_revision := ei_identity_revision e + 1\<rparr> else e);
          tg1 = (if updates_target_proof
                 then tg\<lparr>tg_verified_at := Some proof_at, tg_proof_account_revision := Some (ac_identity_revision a),
                         tg_proof_scope_change_at := ac_last_scope_change_at a, tg_proof_identity_revision := Some (ei_identity_revision e1)\<rparr>
                 else tg)
      in (w\<lparr>wk_identity := e1,
            wk_target := tg1\<lparr>tg_not_found_count := 0, tg_first_not_found_at := None, tg_last_not_found_at := None\<rparr>\<rparr>, changed))"

definition tighten_to :: "identity_state \<Rightarrow> work \<Rightarrow> work" where
  "tighten_to st w =
     w\<lparr>wk_identity := (wk_identity w)\<lparr>ei_state := st, ei_identity_revision := ei_identity_revision (wk_identity w) + 1\<rparr>,
       wk_checkpoint := (wk_checkpoint w)\<lparr>cp_tightened_count := cp_tightened_count (wk_checkpoint w) + 1\<rparr>\<rparr>"

definition apply_negative :: "work \<Rightarrow> int \<Rightarrow> work \<times> bool" where
  "apply_negative w now = (if negative_is_current (wk_identity w) now then (tighten_to LINK_INACTIVE w, True) else (w, False))"

definition apply_conflict :: "work \<Rightarrow> int \<Rightarrow> work" where
  "apply_conflict w degrade_after_failures =
     (let w1 = tighten_to LINK_CONFLICT w; code = recon_code RE_PROVIDER_CONFLICT; cp = wk_checkpoint w1;
          cp1 = cp\<lparr>cp_error_count := cp_error_count cp + 1, cp_consecutive_failures := cp_consecutive_failures cp + 1,
                   cp_safe_error_code := Some code\<rparr>
      in w1\<lparr>wk_checkpoint := cp1, wk_target := (wk_target w1)\<lparr>tg_safe_error_code := Some code\<rparr>,
            wk_account := degrade_when (cp_consecutive_failures cp1 \<ge> degrade_after_failures) (wk_account w1)\<rparr>)"

definition settle :: "work \<Rightarrow> int \<Rightarrow> bool \<Rightarrow> bool \<Rightarrow> string option \<Rightarrow> work \<times> ReconciliationApplyResult" where
  "settle w now changed failed code =
     (let w1 = finish_work (w\<lparr>wk_target := (wk_target w)\<lparr>tg_identity_revision := ei_identity_revision (wk_identity w),
                 tg_account_revision := ac_identity_revision (wk_account w)\<rparr>\<rparr>) now failed code
      in (w1, apply_result AO_APPLIED changed w1 (Some (cp_next_run_at (wk_checkpoint w1))) code))"

text \<open>The end of \<open>_apply_observation\<close>: statuses that settle the target, unless the circuit opens.\<close>

definition apply_settling ::
  "work \<Rightarrow> ReconciliationObservation \<Rightarrow> int \<Rightarrow> apply_limits \<Rightarrow> recon_error + (work \<times> ReconciliationApplyResult)" where
  "apply_settling w ob now limits =
     (let status = ob_status ob;
          would_tighten = status \<in> {RP_INACTIVE, RP_CONFLICT} \<or> status = RP_NOT_FOUND \<and> negative_is_current (wk_identity w) now in
      if would_tighten \<and> al_max_tighten_per_cycle limits \<le> cp_tightened_count (wk_checkpoint w) then Inr (open_circuit w now limits)
      else case status of
        RP_RESOLVED \<Rightarrow>
          (case ob_verified_at ob of
             None \<Rightarrow> Inl (RX_REPOSITORY RE_PROVIDER_RESULT_INVALID)
           | Some t \<Rightarrow> (let (w1, changed) = apply_resolved (record_success w) (instant t) in Inr (settle w1 now changed False None)))
      | RP_CONFLICT \<Rightarrow>
          Inr (settle (apply_conflict w (al_degrade_after_failures limits)) now True True (Some (recon_code RE_PROVIDER_CONFLICT)))
      | RP_INACTIVE \<Rightarrow> (let (w1, changed) = apply_negative (record_success w) now in Inr (settle w1 now changed False None))
      | RP_NOT_FOUND \<Rightarrow> (let (w1, changed) = apply_negative (record_success w) now in Inr (settle w1 now changed False None))
      | _ \<Rightarrow> Inr (settle (record_success w) now False False None))"

definition apply_not_found ::
  "work \<Rightarrow> ReconciliationObservation \<Rightarrow> int \<Rightarrow> apply_limits \<Rightarrow> recon_error + (work \<times> ReconciliationApplyResult)" where
  \<comment> \<open>a missing user is confirmed by a second lookup after the window\<close>
  "apply_not_found w ob now limits =
     (let window = us (al_not_found_confirmation limits); tg = wk_target w in
      if tg_not_found_count tg = 0 then
        let w1 = record_success w in
        Inr (await_confirmation (w1\<lparr>wk_target := (wk_target w1)\<lparr>tg_not_found_count := 1, tg_first_not_found_at := Some now,
               tg_last_not_found_at := Some now\<rparr>\<rparr>) (now + window) now)
      else if (case tg_last_not_found_at tg of None \<Rightarrow> True | Some t \<Rightarrow> now < t + window) then
        Inr (await_confirmation (record_success w) ((case tg_last_not_found_at tg of None \<Rightarrow> now | Some t \<Rightarrow> t) + window) now)
      else
        apply_settling (w\<lparr>wk_target := tg\<lparr>tg_not_found_count := tg_not_found_count tg + 1, tg_last_not_found_at := Some now\<rparr>\<rparr>)
          ob now limits)"

definition note_lookup :: "work \<Rightarrow> ReconciliationProviderStatus \<Rightarrow> int \<Rightarrow> work" where
  "note_lookup w status now =
     w\<lparr>wk_target := (wk_target w)\<lparr>tg_last_observed_at := Some now, tg_last_outcome := Some status\<rparr>\<rparr>"

definition note_answer :: "work \<Rightarrow> int \<Rightarrow> work" where
  "note_answer w now = w\<lparr>wk_target := (wk_target w)\<lparr>tg_last_success_at := Some now\<rparr>,
     wk_checkpoint := (wk_checkpoint w)\<lparr>cp_last_success_at := Some now\<rparr>\<rparr>"

definition apply_observation ::
  "work \<Rightarrow> ReconciliationObservation \<Rightarrow> int \<Rightarrow> apply_limits \<Rightarrow> recon_error + (work \<times> ReconciliationApplyResult)" where
  "apply_observation w ob now limits =
     (let w1 = note_lookup w (ob_status ob) now in
      case ob_status ob of
        RP_UNAVAILABLE \<Rightarrow> Inr (apply_unavailable w1 (code_or (ob_safe_error_code ob) RE_PROVIDER_UNAVAILABLE) now limits)
      | RP_INVALID \<Rightarrow> Inr (apply_invalid w1 (code_or (ob_safe_error_code ob) RE_PROVIDER_RESULT_INVALID) now limits)
      | RP_NOT_FOUND \<Rightarrow> apply_not_found (note_answer w1 now) ob now limits
      | _ \<Rightarrow> apply_settling (note_answer w1 now) ob now limits)"

section \<open>Transactions\<close>

definition put_account :: "account_row \<Rightarrow> recon_store \<Rightarrow> recon_store" where
  "put_account a s = s\<lparr>rs_dir := (rs_dir s)\<lparr>ds_accounts := put_row ac_id a (ds_accounts (rs_dir s))\<rparr>\<rparr>"

definition put_identity :: "identity_row \<Rightarrow> recon_store \<Rightarrow> recon_store" where
  "put_identity e s = s\<lparr>rs_dir := (rs_dir s)\<lparr>ds_identities := put_row ei_id e (ds_identities (rs_dir s))\<rparr>\<rparr>"

definition put_checkpoint :: "checkpoint_row \<Rightarrow> recon_store \<Rightarrow> recon_store" where
  "put_checkpoint cp s = s\<lparr>rs_checkpoints := put_row cp_id cp (rs_checkpoints s)\<rparr>"

definition put_target :: "target_row \<Rightarrow> recon_store \<Rightarrow> recon_store" where
  "put_target tg s = s\<lparr>rs_targets := put_row tg_id tg (rs_targets s)\<rparr>"

definition put_work :: "work \<Rightarrow> recon_store \<Rightarrow> recon_store" where
  "put_work w s = put_account (wk_account w) (put_checkpoint (wk_checkpoint w) (put_target (wk_target w) (put_identity (wk_identity w) s)))"

definition new_checkpoint :: "account_row \<Rightarrow> string \<Rightarrow> int \<Rightarrow> checkpoint_row" where
  "new_checkpoint a fresh due_at =
     \<lparr>cp_id = fresh, cp_provider_account_id = ac_id a, cp_tenant_id = ac_tenant_id a, cp_provider = ac_provider a,
      cp_cursor_identity_id = None, cp_cycle_started_at = None, cp_last_completed_at = None, cp_last_success_at = None,
      cp_next_run_at = due_at, cp_lease_owner = None, cp_lease_until = None, cp_lease_attempt = 0, cp_processed_count = 0,
      cp_tightened_count = 0, cp_error_count = 0, cp_consecutive_failures = 0, cp_safe_error_code = None\<rparr>"

definition reconcilable :: "account_row \<Rightarrow> bool" where
  "reconcilable a \<longleftrightarrow> ac_identity_health_state a \<in> {''healthy'', ''degraded''}"

definition seed_one :: "int \<Rightarrow> checkpoint_row list \<times> int \<Rightarrow> account_row \<times> string \<Rightarrow> recon_error + (checkpoint_row list \<times> int)" where
  "seed_one due_at acc x =
     (case (acc, x) of ((cps, inserted), (a, fresh)) \<Rightarrow>
        if ac_id a \<in> cp_provider_account_id ` set cps then Inr (cps, inserted)
        else bindE (guardE (fresh \<notin> cp_id ` set cps) (RX_REPOSITORY RE_REPOSITORY_UNAVAILABLE)) (\<lambda>_.
             Inr (cps @ [new_checkpoint a fresh due_at], inserted + 1)))"

definition seed_checkpoints :: "recon_store \<Rightarrow> datetime \<Rightarrow> (nat \<Rightarrow> string) \<Rightarrow> recon_error + (recon_store \<times> int)" where
  "seed_checkpoints s due_at fresh =
     bindE (guardE (aware due_at) RX_VALUE) (\<lambda>_.
     let accounts = sort_key ac_id (filter (\<lambda>a. ac_tenant_id a \<in> set (ds_tenants (rs_dir s)) \<and> reconcilable a) (ds_accounts (rs_dir s))) in
     bindE (foldE (seed_one (instant due_at)) (rs_checkpoints s, 0) (zip accounts (map fresh [0..<length accounts]))) (\<lambda>(cps, inserted).
     Inr (s\<lparr>rs_checkpoints := cps\<rparr>, inserted)))"

record claim_args =
  ca_owner :: string
  ca_lease_seconds :: int
  ca_probe_interval :: rat
  ca_active_since :: int
  ca_cycle_interval :: int

definition belongs_to_account :: "identity_row \<Rightarrow> account_row \<Rightarrow> bool" where
  "belongs_to_account e a \<longleftrightarrow> ei_tenant_id e = ac_tenant_id a \<and> ei_provider e = ac_provider a \<and>
     ei_provider_tenant_key e = ac_provider_tenant_key a"

definition has_account_alias :: "recon_store \<Rightarrow> identity_row \<Rightarrow> account_row \<Rightarrow> bool" where
  "has_account_alias s e a \<longleftrightarrow>
     list_ex (\<lambda>l. al_external_identity_id l = ei_id e \<and> al_tenant_id l = ac_tenant_id a \<and> al_provider l = ac_provider a \<and>
        al_provider_tenant_key l = ac_provider_tenant_key a \<and> al_provider_account_key l = ac_provider_account_key a)
       (ds_aliases (rs_dir s))"

definition has_active_membership :: "recon_store \<Rightarrow> identity_row \<Rightarrow> bool" where
  "has_active_membership s e \<longleftrightarrow>
     list_ex (\<lambda>u. us_id u = ei_user_id e \<and> us_status u = ''1'' \<and> us_is_active u \<and> \<not> us_is_anonymous u \<and>
        list_ex (\<lambda>m. ms_user_id m = us_id u \<and> ms_tenant_id m = ei_tenant_id e \<and> ms_status m = ''1'' \<and>
                     ms_role m \<in> {''owner'', ''admin'', ''normal''}) (rs_memberships s))
       (rs_users s)"

definition start_cycle :: "checkpoint_row \<Rightarrow> int \<Rightarrow> checkpoint_row" where
  "start_cycle cp now =
     (if cp_cycle_started_at cp = None
      then cp\<lparr>cp_cycle_started_at := Some now, cp_cursor_identity_id := None, cp_processed_count := 0, cp_tightened_count := 0,
              cp_error_count := 0, cp_safe_error_code := None\<rparr>
      else cp)"

definition due_target :: "recon_store \<Rightarrow> string \<Rightarrow> int \<Rightarrow> target_row option" where
  "due_target s checkpoint_id now =
     (case sort_key tg_next_attempt_at (sort_key tg_id
         (filter (\<lambda>t. tg_checkpoint_id t = checkpoint_id \<and> tg_state t = TG_PENDING \<and> tg_next_attempt_at t \<le> now) (rs_targets s))) of
        [] \<Rightarrow> None | t # _ \<Rightarrow> Some t)"

definition next_pending_attempt_at :: "recon_store \<Rightarrow> string \<Rightarrow> int option" where
  "next_pending_attempt_at s checkpoint_id =
     (case map tg_next_attempt_at (filter (\<lambda>t. tg_checkpoint_id t = checkpoint_id \<and> tg_state t = TG_PENDING) (rs_targets s)) of
        [] \<Rightarrow> None | t # ts \<Rightarrow> Some (foldl min t ts))"

definition scannable :: "recon_store \<Rightarrow> account_row \<Rightarrow> checkpoint_row \<Rightarrow> int \<Rightarrow> identity_row \<Rightarrow> bool" where
  "scannable s a cp active_since e \<longleftrightarrow>
     belongs_to_account e a \<and> ei_subject_type e = ''user_id'' \<and> ei_state e = LINK_ACTIVE \<and>
     (case ei_last_seen_at e of None \<Rightarrow> False | Some t \<Rightarrow> active_since \<le> t) \<and>
     (case cp_cursor_identity_id cp of None \<Rightarrow> True | Some v \<Rightarrow> v < ei_id e) \<and>
     has_account_alias s e a \<and> has_active_membership s e \<and>
     \<not> list_ex (\<lambda>t. tg_provider_account_id t = ac_id a \<and> tg_external_identity_id t = ei_id e \<and> tg_state t = TG_PENDING) (rs_targets s)"

definition next_identity :: "recon_store \<Rightarrow> account_row \<Rightarrow> checkpoint_row \<Rightarrow> int \<Rightarrow> identity_row option" where
  "next_identity s a cp active_since =
     (case sort_key ei_id (filter (scannable s a cp active_since) (ds_identities (rs_dir s))) of [] \<Rightarrow> None | e # _ \<Rightarrow> Some e)"

definition new_target :: "account_row \<Rightarrow> checkpoint_row \<Rightarrow> identity_row \<Rightarrow> string \<Rightarrow> int \<Rightarrow> target_row" where
  "new_target a cp e fresh now =
     \<lparr>tg_id = fresh, tg_checkpoint_id = cp_id cp, tg_provider_account_id = ac_id a, tg_tenant_id = ac_tenant_id a,
      tg_provider = ac_provider a, tg_provider_tenant_key = ac_provider_tenant_key a, tg_external_identity_id = ei_id e,
      tg_account_revision = ac_identity_revision a, tg_account_scope_change_at = ac_last_scope_change_at a,
      tg_identity_revision = ei_identity_revision e, tg_state = TG_PENDING, tg_next_attempt_at = now, tg_last_outcome = None,
      tg_not_found_count = 0, tg_first_not_found_at = None, tg_last_not_found_at = None, tg_last_observed_at = None,
      tg_verified_at = None, tg_proof_account_revision = None, tg_proof_scope_change_at = None, tg_proof_identity_revision = None,
      tg_last_success_at = None, tg_last_activity_at = ei_last_seen_at e, tg_safe_error_code = None\<rparr>"

definition reopen_target :: "target_row \<Rightarrow> identity_row \<Rightarrow> int \<Rightarrow> target_row" where
  "reopen_target tg e now =
     tg\<lparr>tg_state := TG_PENDING, tg_next_attempt_at := now, tg_last_outcome := None, tg_not_found_count := 0,
        tg_first_not_found_at := None, tg_last_not_found_at := None, tg_last_observed_at := None, tg_safe_error_code := None,
        tg_last_activity_at := ei_last_seen_at e\<rparr>"

definition refence_target :: "target_row \<Rightarrow> account_row \<Rightarrow> identity_row \<Rightarrow> target_row" where
  "refence_target tg a e =
     (if tg_account_revision tg \<noteq> ac_identity_revision a \<or> tg_account_scope_change_at tg \<noteq> ac_last_scope_change_at a \<or>
         tg_identity_revision tg \<noteq> ei_identity_revision e
      then tg\<lparr>tg_not_found_count := 0, tg_first_not_found_at := None, tg_last_not_found_at := None, tg_last_observed_at := None\<rparr>
      else tg)"

definition context_of :: "account_row \<Rightarrow> ProviderContext" where
  "context_of a = provider_context a (ac_identity_revision a) (ac_last_scope_change_at a)"

definition issue_lease ::
  "recon_store \<Rightarrow> account_row \<Rightarrow> checkpoint_row \<Rightarrow> target_row \<Rightarrow> identity_row \<Rightarrow> claim_args \<Rightarrow> int
     \<Rightarrow> recon_error + (recon_store \<times> ReconciliationLease option)" where
  "issue_lease s a cp tg e args lease_now =
     (let tg1 = tg\<lparr>tg_account_revision := ac_identity_revision a, tg_account_scope_change_at := ac_last_scope_change_at a,
                   tg_identity_revision := ei_identity_revision e, tg_next_attempt_at := lease_now\<rparr>;
          lease_until = lease_now + us (ca_lease_seconds args);
          cp1 = advance_checkpoint_next_run (lease_now + timedelta_us (ca_probe_interval args))
            (cp\<lparr>cp_lease_owner := Some (ca_owner args), cp_lease_attempt := cp_lease_attempt cp + 1, cp_lease_until := Some lease_until\<rparr>);
          lease = \<lparr>rl_checkpoint_id = cp_id cp, rl_target_id = tg_id tg, rl_owner = ca_owner args, rl_attempt = cp_lease_attempt cp1,
            rl_context = context_of a, rl_external_identity_id = ei_id e, rl_subject_value = ei_subject_value e,
            rl_identity_revision = ei_identity_revision e, rl_consecutive_failures = cp_consecutive_failures cp1,
            rl_lease_until = lease_until\<rparr>
      in bindE (guardE (lease_ok lease) RX_VALUE) (\<lambda>_. Inr (put_checkpoint cp1 (put_target tg1 s), Some lease)))"

definition target_usable :: "recon_store \<Rightarrow> account_row \<Rightarrow> identity_row \<Rightarrow> bool" where
  "target_usable s a e \<longleftrightarrow> belongs_to_account e a \<and> has_account_alias s e a \<and> has_active_membership s e \<and>
     ei_state e = LINK_ACTIVE \<and> ei_subject_type e = ''user_id''"

definition fail_due_target :: "recon_store \<Rightarrow> checkpoint_row \<Rightarrow> target_row \<Rightarrow> identity_row option \<Rightarrow> int \<Rightarrow> recon_store" where
  "fail_due_target s cp tg found now =
     (let cp1 = (case found of None \<Rightarrow> cp | Some e \<Rightarrow> cp\<lparr>cp_cursor_identity_id := Some (ei_id e)\<rparr>) in
      put_checkpoint (clear_lease (advance_checkpoint_next_run now (cp1\<lparr>cp_error_count := cp_error_count cp1 + 1\<rparr>)))
        (put_target (tg\<lparr>tg_state := TG_FAILED, tg_safe_error_code := Some (recon_code RE_FENCE_CONFLICT)\<rparr>) s))"

definition retire_due_target :: "recon_store \<Rightarrow> checkpoint_row \<Rightarrow> target_row \<Rightarrow> identity_row \<Rightarrow> int \<Rightarrow> recon_store" where
  "retire_due_target s cp tg e now =
     put_checkpoint (clear_lease (advance_checkpoint_next_run now
        (cp\<lparr>cp_cursor_identity_id := Some (max_cursor (cp_cursor_identity_id cp) (ei_id e))\<rparr>)))
       (put_target (tg\<lparr>tg_state := TG_COMPLETED, tg_next_attempt_at := now, tg_safe_error_code := None\<rparr>) s)"

definition claim_due ::
  "recon_store \<Rightarrow> account_row \<Rightarrow> checkpoint_row \<Rightarrow> target_row \<Rightarrow> claim_args \<Rightarrow> int \<Rightarrow> int
     \<Rightarrow> recon_error + (recon_store \<times> ReconciliationLease option)" where
  "claim_due s a cp tg args now lease_now =
     (case row_by ei_id (tg_external_identity_id tg) (ds_identities (rs_dir s)) of
        None \<Rightarrow> Inr (fail_due_target s cp tg None now, None)
      | Some e \<Rightarrow>
          if (case ei_last_seen_at e of None \<Rightarrow> True | Some t \<Rightarrow> t < ca_active_since args)
          then Inr (retire_due_target s cp tg e now, None)
          else if \<not> target_usable s a e then Inr (fail_due_target s cp tg (Some e) now, None)
          else issue_lease s a cp (refence_target tg a e) e args lease_now)"

definition claim_scan ::
  "recon_store \<Rightarrow> account_row \<Rightarrow> checkpoint_row \<Rightarrow> claim_args \<Rightarrow> string \<Rightarrow> int \<Rightarrow> int
     \<Rightarrow> recon_error + (recon_store \<times> ReconciliationLease option)" where
  "claim_scan s a cp args fresh now lease_now =
     (case next_identity s a cp (ca_active_since args) of
        None \<Rightarrow>
          (let (a1, cp1) = complete_cycle a cp now (ca_cycle_interval args) (next_pending_attempt_at s (cp_id cp)) True
           in Inr (put_account a1 (put_checkpoint cp1 s), None))
      | Some e \<Rightarrow>
          (case find (\<lambda>t. tg_provider_account_id t = ac_id a \<and> tg_external_identity_id t = ei_id e) (rs_targets s) of
             Some tg \<Rightarrow> issue_lease s a cp (reopen_target tg e now) e args lease_now
           | None \<Rightarrow>
               bindE (guardE (fresh \<notin> tg_id ` set (rs_targets s)) (RX_REPOSITORY RE_REPOSITORY_UNAVAILABLE)) (\<lambda>_.
               let tg = new_target a cp e fresh now
               in issue_lease (s\<lparr>rs_targets := rs_targets s @ [tg]\<rparr>) a cp tg e args lease_now)))"

definition end_cycle :: "recon_store \<Rightarrow> account_row \<Rightarrow> checkpoint_row \<Rightarrow> claim_args \<Rightarrow> int \<Rightarrow> recon_store" where
  "end_cycle s a cp args now =
     (let (a1, cp1) = complete_cycle a cp now (ca_cycle_interval args) None False in put_account a1 (put_checkpoint cp1 s))"

definition claimable_at :: "checkpoint_row \<Rightarrow> int \<Rightarrow> bool" where
  "claimable_at cp now \<longleftrightarrow>
     (cp_lease_owner cp = None \<or> (case cp_lease_until cp of None \<Rightarrow> False | Some t \<Rightarrow> t \<le> now)) \<and> cp_next_run_at cp \<le> now"

text \<open>
  One claim transaction on a checkpoint. \<open>skipped\<close> says that another transaction holds one of its rows, which
  are locked with \<open>SKIP LOCKED\<close>.
\<close>

definition claim_checkpoint ::
  "recon_store \<Rightarrow> claim_args \<Rightarrow> string \<Rightarrow> bool \<Rightarrow> string \<Rightarrow> int \<Rightarrow> int \<Rightarrow> recon_error + (recon_store \<times> ReconciliationLease option)" where
  "claim_checkpoint s args checkpoint_id skipped fresh now lease_now =
     (case row_by cp_id checkpoint_id (rs_checkpoints s) of
        None \<Rightarrow> Inr (s, None)
      | Some cp \<Rightarrow>
          if skipped \<or> cp_tenant_id cp \<notin> set (rs_tenants s) then Inr (s, None)
          else case row_by ac_id (cp_provider_account_id cp) (ds_accounts (rs_dir s)) of
            None \<Rightarrow> Inr (s, None)
          | Some a \<Rightarrow>
              if cp_tenant_id cp \<notin> set (ds_tenants (rs_dir s)) then Inr (end_cycle s a cp args now, None)
              else if \<not> claimable_at cp now then Inr (s, None)
              else if \<not> reconcilable a then Inr (end_cycle s a cp args now, None)
              else
                let cp1 = start_cycle cp now in
                case due_target s checkpoint_id now of
                  Some tg \<Rightarrow> claim_due s a cp1 tg args now lease_now
                | None \<Rightarrow> claim_scan s a cp1 args fresh now lease_now)"

definition claim_args_ok :: "claim_args \<Rightarrow> bool" where
  "claim_args_ok args \<longleftrightarrow>
     ca_owner args \<noteq> [] \<and> ca_owner args = py_strip (ca_owner args) \<and> py_len (ca_owner args) \<le> 64 \<and> 0 < ca_lease_seconds args \<and>
     1 / 10 \<le> ca_probe_interval args \<and> ca_probe_interval args \<le> 60 \<and> 0 < ca_cycle_interval args"

definition candidate_checkpoint_ids :: "recon_store \<Rightarrow> int \<Rightarrow> string list" where
  "candidate_checkpoint_ids s now =
     map cp_id (take 256 (sort_key cp_next_run_at (sort_key cp_id (filter (\<lambda>cp.
       (case row_by ac_id (cp_provider_account_id cp) (ds_accounts (rs_dir s)) of
          None \<Rightarrow> False
        | Some a \<Rightarrow>
            ac_tenant_id a \<in> set (rs_tenants s) \<and>
            (if ac_tenant_id a \<in> set (ds_tenants (rs_dir s)) then claimable_at cp now
             else cp_cycle_started_at cp \<noteq> None \<or> cp_lease_owner cp \<noteq> None))) (rs_checkpoints s)))))"

text \<open>What one visit of a checkpoint sees of the world: its locks, the fresh id and two readings of the clock.\<close>

record visit =
  vi_skipped :: bool
  vi_fresh :: string
  vi_now :: int
  vi_lease_now :: int

primrec claim_loop ::
  "claim_args \<Rightarrow> (string \<Rightarrow> visit) \<Rightarrow> recon_store \<Rightarrow> string list \<Rightarrow> recon_store \<times> (recon_error + ReconciliationLease option)" where
  "claim_loop args visits s [] = (s, Inr None)"
| "claim_loop args visits s (i # ids) =
     (case claim_checkpoint s args i (vi_skipped (visits i)) (vi_fresh (visits i)) (vi_now (visits i)) (vi_lease_now (visits i)) of
        Inl e \<Rightarrow> (s, Inl e)
      | Inr (s1, Some lease) \<Rightarrow> (s1, Inr (Some lease))
      | Inr (s1, None) \<Rightarrow> claim_loop args visits s1 ids)"

definition claim_next ::
  "recon_store \<Rightarrow> claim_args \<Rightarrow> int \<Rightarrow> (string \<Rightarrow> visit) \<Rightarrow> recon_store \<times> (recon_error + ReconciliationLease option)" where
  "claim_next s args now visits =
     (if \<not> claim_args_ok args then (s, Inl RX_VALUE) else claim_loop args visits s (candidate_checkpoint_ids s now))"

definition lease_matches :: "checkpoint_row \<Rightarrow> ReconciliationLease \<Rightarrow> int \<Rightarrow> bool" where
  "lease_matches cp l now \<longleftrightarrow> cp_lease_owner cp = Some (rl_owner l) \<and> cp_lease_attempt cp = rl_attempt l \<and>
     (case cp_lease_until cp of None \<Rightarrow> False | Some t \<Rightarrow> t = rl_lease_until l \<and> now < t)"

definition account_fence_matches :: "account_row \<Rightarrow> ProviderContext \<Rightarrow> bool" where
  "account_fence_matches a ctx \<longleftrightarrow> ac_id a = pc_provider_account_id ctx \<and> ac_tenant_id a = pc_tenant_id ctx \<and>
     ac_provider a = pc_provider ctx \<and> ac_provider_tenant_key a = pc_provider_tenant_key ctx \<and>
     ac_provider_account_key a = pc_provider_account_key ctx \<and> ac_identity_revision a = pc_provider_account_revision ctx \<and>
     ac_last_scope_change_at a = pc_provider_account_last_scope_change_at ctx"

definition target_fence_matches :: "target_row \<Rightarrow> ReconciliationLease \<Rightarrow> bool" where
  "target_fence_matches tg l \<longleftrightarrow> tg_id tg = rl_target_id l \<and> tg_state tg = TG_PENDING \<and>
     tg_external_identity_id tg = rl_external_identity_id l \<and>
     tg_account_revision tg = pc_provider_account_revision (rl_context l) \<and>
     tg_account_scope_change_at tg = pc_provider_account_last_scope_change_at (rl_context l) \<and>
     tg_identity_revision tg = rl_identity_revision l"

definition identity_fence_matches :: "identity_row \<Rightarrow> ReconciliationLease \<Rightarrow> bool" where
  "identity_fence_matches e l \<longleftrightarrow> ei_identity_revision e = rl_identity_revision l \<and> ei_state e = LINK_ACTIVE \<and>
     ei_subject_type e = ''user_id'' \<and> ei_subject_value e = rl_subject_value l"

definition fence_result :: "int \<Rightarrow> ReconciliationApplyResult" where
  "fence_result account_revision = \<lparr>ra_outcome = AO_FENCE_REJECTED, ra_identity_changed = False,
     ra_account_revision = account_revision, ra_next_attempt_at = None, ra_safe_error_code = Some (recon_code RE_FENCE_CONFLICT)\<rparr>"

definition effective_observation :: "ReconciliationObservation \<Rightarrow> int \<Rightarrow> ReconciliationObservation" where
  \<comment> \<open>an observation from the future is invalid\<close>
  "effective_observation ob now =
     (if instant (ob_observed_at ob) > now + 300000000
      then \<lparr>ob_status = RP_INVALID, ob_observed_at = \<lparr>instant = min (instant (ob_observed_at ob)) now, utcoffset = Some 0\<rparr>,
            ob_verified_at = None, ob_safe_error_code = Some (recon_code RE_PROVIDER_RESULT_INVALID)\<rparr>
      else ob)"

definition find_identity :: "recon_store \<Rightarrow> account_row \<Rightarrow> string \<Rightarrow> identity_row option" where
  "find_identity s a identity_id = find (\<lambda>e. ei_id e = identity_id \<and> belongs_to_account e a) (ds_identities (rs_dir s))"

definition find_target :: "recon_store \<Rightarrow> checkpoint_row \<Rightarrow> string \<Rightarrow> target_row option" where
  "find_target s cp target_id = find (\<lambda>t. tg_id t = target_id \<and> tg_checkpoint_id t = cp_id cp) (rs_targets s)"

definition reject_fence :: "recon_store \<Rightarrow> checkpoint_row \<Rightarrow> target_row option \<Rightarrow> int \<Rightarrow> recon_store" where
  "reject_fence s cp found now =
     put_checkpoint (reject_checkpoint cp now) (case found of None \<Rightarrow> s | Some tg \<Rightarrow> put_target (reject_target tg now) s)"

definition apply_fenced ::
  "recon_store \<Rightarrow> account_row \<Rightarrow> checkpoint_row \<Rightarrow> ReconciliationLease \<Rightarrow> ReconciliationObservation \<Rightarrow> apply_limits \<Rightarrow> int
     \<Rightarrow> recon_error + (recon_store \<times> ReconciliationApplyResult)" where
  \<comment> \<open>the lease is valid, the tenant too, and \<open>cp\<close> is the checkpoint with its next run advanced\<close>
  "apply_fenced s a cp l ob limits now =
     (let fence = fence_result (ac_identity_revision a); found = find_target s cp (rl_target_id l) in
      case (find_identity s a (rl_external_identity_id l), found) of
        (Some e, Some tg) \<Rightarrow>
          if \<not> account_fence_matches a (rl_context l) \<or> \<not> target_fence_matches tg l
          then Inr (reject_fence s cp (Some tg) now, fence)
          else if \<not> identity_fence_matches e l
          then (let (cp1, tg1) = finish_target cp tg (ei_id e) now True (Some (recon_code RE_FENCE_CONFLICT))
                in Inr (put_checkpoint cp1 (put_target tg1 s), fence))
          else
            bindE (apply_observation \<lparr>wk_account = a, wk_checkpoint = cp, wk_target = tg, wk_identity = e\<rparr>
                     (effective_observation ob now) now limits)
              (\<lambda>(w, res). Inr (put_work w s, res))
      | _ \<Rightarrow> Inr (reject_fence s cp found now, fence))"

definition apply_args_ok :: "apply_limits \<Rightarrow> rat \<Rightarrow> bool" where
  "apply_args_ok limits probe \<longleftrightarrow> 1 / 10 \<le> probe \<and> probe \<le> 60 \<and> 0 < al_unavailable_delay limits \<and>
     0 < al_not_found_confirmation limits \<and> 0 < al_cycle_interval limits \<and> 0 < al_degrade_after_failures limits \<and>
     0 < al_max_tighten_per_cycle limits"

definition apply_lease ::
  "recon_store \<Rightarrow> ReconciliationLease \<Rightarrow> ReconciliationObservation \<Rightarrow> apply_limits \<Rightarrow> rat \<Rightarrow> int
     \<Rightarrow> recon_error + (recon_store \<times> ReconciliationApplyResult)" where
  "apply_lease s l ob limits probe now =
     bindE (guardE (apply_args_ok limits probe) RX_VALUE) (\<lambda>_.
     let missing = Inr (s, fence_result (pc_provider_account_revision (rl_context l))) in
     case row_by cp_id (rl_checkpoint_id l) (rs_checkpoints s) of
       None \<Rightarrow> missing
     | Some cp \<Rightarrow>
         (case row_by ac_id (cp_provider_account_id cp) (ds_accounts (rs_dir s)) of
            None \<Rightarrow> missing
          | Some a \<Rightarrow>
              if cp_tenant_id cp \<notin> set (rs_tenants s) then missing
              else if \<not> lease_matches cp l now then Inr (s, fence_result (ac_identity_revision a))
              else
                let cp1 = advance_checkpoint_next_run (now + timedelta_us probe) cp in
                if cp_tenant_id cp \<notin> set (ds_tenants (rs_dir s))
                then (let (a1, cp2) = complete_cycle a cp1 now (al_cycle_interval limits) None False
                      in Inr (put_account a1 (put_checkpoint cp2 s), fence_result (ac_identity_revision a1)))
                else apply_fenced s a cp1 l ob limits now))"

section \<open>Steps\<close>

datatype recon_op =
    Op_Seed datetime "nat \<Rightarrow> string"
  | Op_Claim claim_args string visit
  | Op_Apply ReconciliationLease ReconciliationObservation apply_limits rat int
  | Op_Directory dir_call

primrec recon_step :: "dir_lib \<Rightarrow> recon_store \<Rightarrow> recon_op \<Rightarrow> recon_error + recon_store" where
  "recon_step L s (Op_Seed due fresh) = bindE (seed_checkpoints s due fresh) (\<lambda>(s', _). Inr s')"
| "recon_step L s (Op_Claim args i v) =
     bindE (claim_checkpoint s args i (vi_skipped v) (vi_fresh v) (vi_now v) (vi_lease_now v)) (\<lambda>(s', _). Inr s')"
| "recon_step L s (Op_Apply l ob limits probe now) = bindE (apply_lease s l ob limits probe now) (\<lambda>(s', _). Inr s')"
| "recon_step L s (Op_Directory k) =
     (case process L (rs_dir s) k of
        Inl _ \<Rightarrow> Inl (RX_REPOSITORY RE_REPOSITORY_UNAVAILABLE)
      | Inr (d, _) \<Rightarrow> Inr (s\<lparr>rs_dir := d\<rparr>))"

section \<open>What a step may change\<close>

definition counters_ok :: "checkpoint_row \<Rightarrow> bool" where
  "counters_ok cp \<longleftrightarrow> 0 \<le> cp_lease_attempt cp \<and> 0 \<le> cp_processed_count cp \<and> 0 \<le> cp_tightened_count cp \<and>
     0 \<le> cp_error_count cp \<and> 0 \<le> cp_consecutive_failures cp"

definition checkpoint_ok :: "checkpoint_row \<Rightarrow> bool" where
  \<comment> \<open>the check constraints of the table; a lease is held only within a cycle\<close>
  "checkpoint_ok cp \<longleftrightarrow> counters_ok cp \<and> (cp_lease_owner cp = None) = (cp_lease_until cp = None) \<and>
     (cp_cycle_started_at cp = None \<longrightarrow> cp_cursor_identity_id cp = None \<and> cp_lease_owner cp = None)"

fun not_found_ok :: "int \<Rightarrow> int option \<Rightarrow> int option \<Rightarrow> bool" where
  "not_found_ok n None None = (n = 0)"
| "not_found_ok n (Some f) (Some l) = (0 < n \<and> f \<le> l)"
| "not_found_ok n _ _ = False"

fun proof_ok :: "int option \<Rightarrow> int option \<Rightarrow> int option \<Rightarrow> int option \<Rightarrow> bool" where
  "proof_ok None account scope ident = (account = None \<and> scope = None \<and> ident = None)"
| "proof_ok (Some t) (Some account) scope (Some ident) = (1 \<le> account \<and> 1 \<le> ident)"
| "proof_ok (Some t) _ _ _ = False"

definition target_ok :: "target_row \<Rightarrow> bool" where
  \<comment> \<open>the check constraints of the table\<close>
  "target_ok tg \<longleftrightarrow> 1 \<le> tg_account_revision tg \<and> 1 \<le> tg_identity_revision tg \<and>
     not_found_ok (tg_not_found_count tg) (tg_first_not_found_at tg) (tg_last_not_found_at tg) \<and>
     proof_ok (tg_verified_at tg) (tg_proof_account_revision tg) (tg_proof_scope_change_at tg) (tg_proof_identity_revision tg)"

definition checkpoint_le :: "checkpoint_row \<Rightarrow> checkpoint_row \<Rightarrow> bool" where
  "checkpoint_le cp cp' \<longleftrightarrow>
     cp_id cp' = cp_id cp \<and> cp_provider_account_id cp' = cp_provider_account_id cp \<and> cp_tenant_id cp' = cp_tenant_id cp \<and>
     cp_provider cp' = cp_provider cp \<and> cp_next_run_at cp \<le> cp_next_run_at cp' \<and> cp_lease_attempt cp \<le> cp_lease_attempt cp' \<and>
     (cp_lease_attempt cp' = cp_lease_attempt cp \<longrightarrow>
        cp_lease_owner cp' = None \<or> cp_lease_owner cp' = cp_lease_owner cp \<and> cp_lease_until cp' = cp_lease_until cp)"

definition account_grows :: "account_row \<Rightarrow> account_row \<Rightarrow> bool" where
  "account_grows a b \<longleftrightarrow> ac_id b = ac_id a \<and> ac_tenant_id b = ac_tenant_id a \<and> ac_provider b = ac_provider a \<and>
     ac_provider_tenant_key b = ac_provider_tenant_key a \<and> ac_provider_account_key b = ac_provider_account_key a \<and>
     ac_identity_revision a \<le> ac_identity_revision b"

definition identity_grows :: "identity_row \<Rightarrow> identity_row \<Rightarrow> bool" where
  "identity_grows e f \<longleftrightarrow>
     f = e\<lparr>ei_state := ei_state f, ei_identity_revision := ei_identity_revision f, ei_verified_at := ei_verified_at f\<rparr> \<and>
     (f = e \<or> ei_identity_revision e < ei_identity_revision f) \<and> later (ei_verified_at e) (ei_verified_at f) \<and>
     (ei_state f = ei_state e \<or> tightness (ei_state e) < tightness (ei_state f))"

definition rows_le :: "('r \<Rightarrow> 'k) \<Rightarrow> ('r \<Rightarrow> 'r \<Rightarrow> bool) \<Rightarrow> 'r list \<Rightarrow> 'r list \<Rightarrow> bool" where
  "rows_le key R xs ys \<longleftrightarrow> (\<forall>k x. row_by key k xs = Some x \<longrightarrow> (\<exists>y. row_by key k ys = Some y \<and> R x y))"

definition recon_le :: "recon_store \<Rightarrow> recon_store \<Rightarrow> bool" where
  "recon_le s t \<longleftrightarrow> rs_tenants t = rs_tenants s \<and> ds_tenants (rs_dir t) = ds_tenants (rs_dir s) \<and>
     rows_le cp_id checkpoint_le (rs_checkpoints s) (rs_checkpoints t) \<and>
     rows_le ac_id account_grows (ds_accounts (rs_dir s)) (ds_accounts (rs_dir t)) \<and>
     rows_le ei_id identity_grows (ds_identities (rs_dir s)) (ds_identities (rs_dir t)) \<and>
     prefix (ds_receipts (rs_dir s)) (ds_receipts (rs_dir t))"

definition recon_wf :: "recon_store \<Rightarrow> bool" where
  "recon_wf s \<longleftrightarrow> dir_wf (rs_dir s) \<and>
     (\<forall>a\<in>set (ds_accounts (rs_dir s)). 1 \<le> ac_identity_revision a) \<and>
     (\<forall>e\<in>set (ds_identities (rs_dir s)). 1 \<le> ei_identity_revision e) \<and>
     distinct (map cp_id (rs_checkpoints s)) \<and> distinct (map cp_provider_account_id (rs_checkpoints s)) \<and>
     distinct (map tg_id (rs_targets s)) \<and>
     distinct (map (\<lambda>t. (tg_provider_account_id t, tg_external_identity_id t)) (rs_targets s)) \<and>
     (\<forall>cp\<in>set (rs_checkpoints s). checkpoint_ok cp) \<and> (\<forall>tg\<in>set (rs_targets s). target_ok tg)"

lemma rows_le_refl: "(\<And>x. R x x) \<Longrightarrow> rows_le key R xs xs"
  by (auto simp: rows_le_def)

lemma rows_le_trans:
  assumes "rows_le key R xs ys" "rows_le key R ys zs" "\<And>x y z. R x y \<Longrightarrow> R y z \<Longrightarrow> R x z"
  shows "rows_le key R xs zs"
  unfolding rows_le_def
proof (intro allI impI)
  fix k x assume "row_by key k xs = Some x"
  with assms(1) obtain y where y: "row_by key k ys = Some y" "R x y"
    unfolding rows_le_def by blast
  with assms(2) obtain z where "row_by key k zs = Some z" "R y z"
    unfolding rows_le_def by blast
  with assms(3) y show "\<exists>z. row_by key k zs = Some z \<and> R x z" by blast
qed

lemma rows_le_put:
  assumes "row_by key k xs = Some x" "key y = k" "R x y" "\<And>z. R z z"
  shows "rows_le key R xs (put_row key y xs)"
  using assms by (auto simp: rows_le_def row_by_put_row)

lemma rows_le_append: "(\<And>x. R x x) \<Longrightarrow> rows_le key R xs (xs @ ys)"
  by (auto simp: rows_le_def row_by_append)

lemma rows_le_list_all2:
  assumes "list_all2 R xs ys" "\<And>x y. R x y \<Longrightarrow> key y = key x"
  shows "rows_le key R xs ys"
  using assms unfolding rows_le_def
  by (induction rule: list_all2_induct) (auto simp: row_by_def)

lemma rows_le_mono: "rows_le key R xs ys \<Longrightarrow> (\<And>x y. R x y \<Longrightarrow> Q x y) \<Longrightarrow> rows_le key Q xs ys"
  unfolding rows_le_def by blast

lemma checkpoint_le_refl [simp]: "checkpoint_le cp cp"
  by (simp add: checkpoint_le_def)

lemma checkpoint_le_trans: "checkpoint_le x y \<Longrightarrow> checkpoint_le y z \<Longrightarrow> checkpoint_le x z"
  by (auto simp: checkpoint_le_def)

lemma account_grows_refl [simp]: "account_grows a a"
  by (simp add: account_grows_def)

lemma account_grows_trans: "account_grows x y \<Longrightarrow> account_grows y z \<Longrightarrow> account_grows x z"
  by (simp add: account_grows_def)

lemma identity_grows_refl [simp]: "identity_grows e e"
  by (simp add: identity_grows_def)

lemma identity_grows_trans:
  assumes "identity_grows x y" "identity_grows y z"
  shows "identity_grows x z"
proof -
  have "z = x\<lparr>ei_state := ei_state z, ei_identity_revision := ei_identity_revision z, ei_verified_at := ei_verified_at z\<rparr>"
    using assms by (cases x; cases y; cases z) (simp add: identity_grows_def)
  moreover have "z = x \<or> ei_identity_revision x < ei_identity_revision z"
    "later (ei_verified_at x) (ei_verified_at z)"
    "ei_state z = ei_state x \<or> tightness (ei_state x) < tightness (ei_state z)"
    using assms by (auto simp: identity_grows_def intro: later_trans)
  ultimately show ?thesis
    unfolding identity_grows_def by blast
qed

lemma recon_le_refl [simp]: "recon_le s s"
  by (simp add: recon_le_def rows_le_refl)

lemma recon_le_trans: "recon_le s t \<Longrightarrow> recon_le t u \<Longrightarrow> recon_le s u"
  unfolding recon_le_def
  by (auto intro: rows_le_trans checkpoint_le_trans account_grows_trans identity_grows_trans prefix_order.trans)

lemma advance_sel [simp]:
  "cp_id (advance_checkpoint_next_run t cp) = cp_id cp"
  "cp_provider_account_id (advance_checkpoint_next_run t cp) = cp_provider_account_id cp"
  "cp_tenant_id (advance_checkpoint_next_run t cp) = cp_tenant_id cp"
  "cp_provider (advance_checkpoint_next_run t cp) = cp_provider cp"
  "cp_cursor_identity_id (advance_checkpoint_next_run t cp) = cp_cursor_identity_id cp"
  "cp_cycle_started_at (advance_checkpoint_next_run t cp) = cp_cycle_started_at cp"
  "cp_lease_owner (advance_checkpoint_next_run t cp) = cp_lease_owner cp"
  "cp_lease_until (advance_checkpoint_next_run t cp) = cp_lease_until cp"
  "cp_lease_attempt (advance_checkpoint_next_run t cp) = cp_lease_attempt cp"
  "cp_processed_count (advance_checkpoint_next_run t cp) = cp_processed_count cp"
  "cp_tightened_count (advance_checkpoint_next_run t cp) = cp_tightened_count cp"
  "cp_error_count (advance_checkpoint_next_run t cp) = cp_error_count cp"
  "cp_consecutive_failures (advance_checkpoint_next_run t cp) = cp_consecutive_failures cp"
  "cp_next_run_at (advance_checkpoint_next_run t cp) = max (cp_next_run_at cp) t"
  by (simp_all add: advance_checkpoint_next_run_def)

lemma set_account_health_grows [simp]: "account_grows a (set_account_health a h)"
  by (simp add: account_grows_def set_account_health_def)

lemma set_account_health_sel [simp]:
  "ac_id (set_account_health a h) = ac_id a"
  "ac_last_scope_change_at (set_account_health a h) = ac_last_scope_change_at a"
  by (simp_all add: set_account_health_def)

lemma degrade_when_grows [simp]: "account_grows a (degrade_when b a)"
  by (simp add: degrade_when_def)

lemma account_grows_ge: "account_grows a b \<Longrightarrow> 1 \<le> ac_identity_revision a \<Longrightarrow> 1 \<le> ac_identity_revision b"
  by (simp add: account_grows_def)

lemma degrade_when_ge: "1 \<le> ac_identity_revision a \<Longrightarrow> 1 \<le> ac_identity_revision (degrade_when b a)"
  by (rule account_grows_ge [OF degrade_when_grows])

lemma set_account_health_ge: "1 \<le> ac_identity_revision a \<Longrightarrow> 1 \<le> ac_identity_revision (set_account_health a h)"
  by (rule account_grows_ge [OF set_account_health_grows])

text \<open>A step gives the lease back: \<open>cp'\<close> has no holder and the same attempt number.\<close>

definition held :: "checkpoint_row \<Rightarrow> bool" where
  "held cp \<longleftrightarrow> checkpoint_ok cp \<and> cp_cycle_started_at cp \<noteq> None"

definition released :: "checkpoint_row \<Rightarrow> checkpoint_row \<Rightarrow> bool" where
  "released cp cp' \<longleftrightarrow> checkpoint_le cp cp' \<and> checkpoint_ok cp' \<and> cp_lease_owner cp' = None"

lemmas checkpoint_defs = held_def released_def checkpoint_ok_def counters_ok_def checkpoint_le_def clear_lease_def

lemma complete_cycle_released:
  assumes "checkpoint_ok cp" "complete_cycle a cp now n pending recovery = (a', cp')"
  shows "released cp cp'" "account_grows a a'"
  using assms by (auto simp: complete_cycle_def checkpoint_defs Let_def split: if_splits)

lemma reject_checkpoint_released: "checkpoint_ok cp \<Longrightarrow> released cp (reject_checkpoint cp now)"
  by (auto simp: reject_checkpoint_def checkpoint_defs)

lemma advance_past_released: "held cp \<Longrightarrow> released cp (advance_past_pending_target cp i now)"
  by (auto simp: advance_past_pending_target_def checkpoint_defs)

lemma finish_target_released: "held cp \<Longrightarrow> finish_target cp tg i now failed code = (cp', tg') \<Longrightarrow> released cp cp'"
  by (auto simp: finish_target_def checkpoint_defs)

definition same_target :: "target_row \<Rightarrow> target_row \<Rightarrow> bool" where
  "same_target tg tg' \<longleftrightarrow> tg_id tg' = tg_id tg \<and> tg_checkpoint_id tg' = tg_checkpoint_id tg \<and>
     tg_provider_account_id tg' = tg_provider_account_id tg \<and> tg_external_identity_id tg' = tg_external_identity_id tg"

definition work_ok :: "work \<Rightarrow> bool" where
  "work_ok w \<longleftrightarrow> held (wk_checkpoint w) \<and> target_ok (wk_target w) \<and> 1 \<le> ac_identity_revision (wk_account w) \<and>
     1 \<le> ei_identity_revision (wk_identity w)"

definition work_done :: "work \<Rightarrow> work \<Rightarrow> bool" where
  "work_done w w' \<longleftrightarrow> released (wk_checkpoint w) (wk_checkpoint w') \<and> same_target (wk_target w) (wk_target w') \<and>
     target_ok (wk_target w') \<and> account_grows (wk_account w) (wk_account w') \<and> identity_grows (wk_identity w) (wk_identity w')"

lemma apply_unavailable_done:
  assumes "work_ok w"
  shows "work_done w (fst (apply_unavailable w code now limits))"
  using assms unfolding work_ok_def work_done_def
  by (auto simp: apply_unavailable_def record_failure_def Let_def checkpoint_defs same_target_def target_ok_def degrade_when_ge)

lemma apply_invalid_done:
  assumes "work_ok w"
  shows "work_done w (fst (apply_invalid w code now limits))"
  using assms unfolding work_ok_def work_done_def
  by (auto simp: apply_invalid_def record_failure_def finish_work_def finish_target_def Let_def checkpoint_defs same_target_def
      target_ok_def degrade_when_ge)

lemma not_found_reset [simp]: "not_found_ok 0 None None"
  by simp

lemma await_confirmation_done:
  assumes "work_ok w"
  shows "work_done w (fst (await_confirmation w confirm_at now))"
  using assms unfolding work_ok_def work_done_def
  by (simp add: await_confirmation_def Let_def advance_past_released same_target_def target_ok_def)

lemma open_circuit_done:
  assumes "work_ok w"
  shows "work_done w (fst (open_circuit w now limits))"
  using assms unfolding work_ok_def work_done_def
  by (auto simp: open_circuit_def complete_cycle_def Let_def checkpoint_defs same_target_def target_ok_def set_account_health_ge)

lemma settle_done:
  assumes "work_ok w"
  shows "work_done w (fst (settle w now changed failed code))"
  using assms unfolding work_ok_def work_done_def
  by (auto simp: settle_def finish_work_def finish_target_def Let_def checkpoint_defs same_target_def target_ok_def)

text \<open>What happens to the rows before the target is settled.\<close>

definition work_moves :: "work \<Rightarrow> work \<Rightarrow> bool" where
  "work_moves w w' \<longleftrightarrow> work_ok w' \<and> checkpoint_le (wk_checkpoint w) (wk_checkpoint w') \<and> same_target (wk_target w) (wk_target w') \<and>
     account_grows (wk_account w) (wk_account w') \<and> identity_grows (wk_identity w) (wk_identity w')"

lemma same_target_trans: "same_target x y \<Longrightarrow> same_target y z \<Longrightarrow> same_target x z"
  by (simp add: same_target_def)

lemma work_moves_trans: "work_moves x y \<Longrightarrow> work_moves y z \<Longrightarrow> work_moves x z"
  unfolding work_moves_def
  by (blast intro: checkpoint_le_trans same_target_trans account_grows_trans identity_grows_trans)

lemma work_moves_done: "work_moves w w1 \<Longrightarrow> work_done w1 w2 \<Longrightarrow> work_done w w2"
  unfolding work_moves_def work_done_def released_def
  by (blast intro: checkpoint_le_trans same_target_trans account_grows_trans identity_grows_trans)

lemma record_success_moves: "work_ok w \<Longrightarrow> work_moves w (record_success w)"
  by (auto simp: work_moves_def work_ok_def record_success_def checkpoint_defs target_ok_def same_target_def)

lemma tighten_moves:
  assumes "work_ok w" "ei_state (wk_identity w) = LINK_ACTIVE" "st \<in> {LINK_INACTIVE, LINK_CONFLICT}"
  shows "work_moves w (tighten_to st w)"
  using assms
  by (auto simp: work_moves_def work_ok_def tighten_to_def checkpoint_defs target_ok_def same_target_def identity_grows_def)

lemma apply_negative_moves:
  assumes "work_ok w" "ei_state (wk_identity w) = LINK_ACTIVE" "apply_negative w now = (w', changed)"
  shows "work_moves w w'"
  using assms tighten_moves [of w LINK_INACTIVE]
  by (auto simp: apply_negative_def work_moves_def same_target_def split: if_splits)

lemma apply_resolved_moves:
  assumes "work_ok w" "apply_resolved w t = (w', changed)"
  shows "work_moves w w'"
  using assms
  by (auto simp: work_moves_def work_ok_def apply_resolved_def Let_def target_ok_def same_target_def identity_grows_def
      split: option.splits if_splits)

lemma apply_conflict_moves:
  assumes "work_ok w" "ei_state (wk_identity w) = LINK_ACTIVE"
  shows "work_moves w (apply_conflict w n)"
proof -
  have "work_moves (tighten_to LINK_CONFLICT w) (apply_conflict w n)" if "work_ok (tighten_to LINK_CONFLICT w)"
    using that by (auto simp: work_moves_def work_ok_def apply_conflict_def Let_def checkpoint_defs target_ok_def same_target_def
        degrade_when_ge)
  then show ?thesis
    using tighten_moves [OF assms, of LINK_CONFLICT] work_moves_trans unfolding work_moves_def by blast
qed

lemma record_success_identity [simp]: "wk_identity (record_success w) = wk_identity w"
  by (simp add: record_success_def)

lemma settle_moves: "work_moves w w1 \<Longrightarrow> work_done w (fst (settle w1 now changed failed code))"
  by (rule work_moves_done [OF _ settle_done]) (simp_all add: work_moves_def)

lemma work_moves_ok: "work_moves w w' \<Longrightarrow> work_ok w'"
  by (simp add: work_moves_def)

lemma settling_negative_done:
  assumes ok: "work_ok w" and "ei_state (wk_identity w) = LINK_ACTIVE" "apply_negative (record_success w) now = (w1, changed)"
  shows "work_done w (fst (settle w1 now changed False None))"
proof -
  note m = record_success_moves [OF ok]
  have "work_moves (record_success w) w1"
    by (rule apply_negative_moves [OF work_moves_ok [OF m] _ assms(3)]) (simp add: assms(2))
  then show ?thesis
    by (rule settle_moves [OF work_moves_trans [OF m]])
qed

lemma settling_resolved_done:
  assumes ok: "work_ok w" and "apply_resolved (record_success w) t = (w1, changed)"
  shows "work_done w (fst (settle w1 now changed False None))"
  using assms apply_resolved_moves work_moves_ok work_moves_trans record_success_moves settle_moves by blast

lemma apply_settling_done:
  assumes ok: "work_ok w" and active: "ei_state (wk_identity w) = LINK_ACTIVE"
    and res: "apply_settling w ob now limits = Inr (w', res)"
  shows "work_done w w'"
proof (cases "(ob_status ob \<in> {RP_INACTIVE, RP_CONFLICT} \<or> ob_status ob = RP_NOT_FOUND \<and> negative_is_current (wk_identity w) now) \<and>
    al_max_tighten_per_cycle limits \<le> cp_tightened_count (wk_checkpoint w)")
  case True
  then have "w' = fst (open_circuit w now limits)"
    using res by (auto simp: apply_settling_def Let_def)
  with open_circuit_done [OF ok] show ?thesis by simp
next
  case False
  note rest = res [unfolded apply_settling_def Let_def if_not_P [OF False]]
  have other: "work_done w (fst (settle (record_success w) now False False None))"
    "work_done w (fst (settle (apply_conflict w n) now True True code))" for n code
    by (rule settle_moves, rule record_success_moves [OF ok] apply_conflict_moves [OF ok active])+
  show ?thesis
  proof (cases "ob_status ob")
    case RP_RESOLVED
    with rest obtain t w1 changed where "apply_resolved (record_success w) t = (w1, changed)" "settle w1 now changed False None = (w', res)"
      by (auto split: option.splits prod.splits)
    then show ?thesis
      using settling_resolved_done [OF ok] by (metis fst_conv)
  next
    case RP_INACTIVE
    with rest obtain w1 changed where "apply_negative (record_success w) now = (w1, changed)" "settle w1 now changed False None = (w', res)"
      by (auto split: prod.splits)
    then show ?thesis
      using settling_negative_done [OF ok active] by (metis fst_conv)
  next
    case RP_NOT_FOUND
    with rest obtain w1 changed where "apply_negative (record_success w) now = (w1, changed)" "settle w1 now changed False None = (w', res)"
      by (auto split: prod.splits)
    then show ?thesis
      using settling_negative_done [OF ok active] by (metis fst_conv)
  next
    case RP_CONFLICT
    with rest have "settle (apply_conflict w (al_degrade_after_failures limits)) now True True (Some (recon_code RE_PROVIDER_CONFLICT)) = (w', res)"
      by simp
    then show ?thesis
      using other(2) by (metis fst_conv)
  qed (insert rest other(1), simp_all)
qed

lemma apply_not_found_done:
  assumes ok: "work_ok w" and active: "ei_state (wk_identity w) = LINK_ACTIVE" and args: "0 < al_not_found_confirmation limits"
    and res: "apply_not_found w ob now limits = Inr (w', res)"
  shows "work_done w w'"
proof -
  note m = record_success_moves [OF ok]
  have await: "work_done w (fst (await_confirmation w1 t now))" if "work_moves w w1" for w1 t
    using that await_confirmation_done work_moves_ok work_moves_done by blast
  define first where "first = (record_success w)\<lparr>wk_target := (wk_target (record_success w))\<lparr>tg_not_found_count := 1,
      tg_first_not_found_at := Some now, tg_last_not_found_at := Some now\<rparr>\<rparr>"
  have first: "work_moves w first"
    using m by (simp add: first_def work_moves_def work_ok_def target_ok_def same_target_def)
  define again where "again = w\<lparr>wk_target := (wk_target w)\<lparr>tg_not_found_count := tg_not_found_count (wk_target w) + 1,
      tg_last_not_found_at := Some now\<rparr>\<rparr>"
  have again: "work_moves w again"
    if "tg_last_not_found_at (wk_target w) = Some t" "t + us (al_not_found_confirmation limits) \<le> now" for t
    using that ok args
    by (cases "tg_first_not_found_at (wk_target w)")
      (auto simp: again_def work_moves_def work_ok_def target_ok_def same_target_def us_def)
  have settled: "work_done w w'" if "work_moves w again" "apply_settling again ob now limits = Inr (w', res)"
    using that active by (intro work_moves_done [OF that(1) apply_settling_done [OF work_moves_ok [OF that(1)] _ that(2)]])
      (simp add: again_def)
  show ?thesis
    using res await [OF first] await [OF m] again settled unfolding apply_not_found_def Let_def
    by (auto simp: not_less simp flip: first_def again_def split: if_splits option.splits) (metis fst_conv)+
qed

lemma apply_observation_done:
  assumes ok: "work_ok w" and active: "ei_state (wk_identity w) = LINK_ACTIVE" and args: "0 < al_not_found_confirmation limits"
    and res: "apply_observation w ob now limits = Inr (w', res)"
  shows "work_done w w'"
proof -
  define w1 where "w1 = note_lookup w (ob_status ob) now"
  define w2 where "w2 = note_answer w1 now"
  have m: "work_moves w w1" "work_moves w w2"
    using ok by (auto simp: w1_def w2_def note_lookup_def note_answer_def work_moves_def work_ok_def checkpoint_defs target_ok_def same_target_def)
  have act: "ei_state (wk_identity w2) = LINK_ACTIVE"
    using active by (simp add: w1_def w2_def note_lookup_def note_answer_def)
  note steps = work_moves_done [OF m(1) apply_unavailable_done [OF work_moves_ok [OF m(1)]]]
    work_moves_done [OF m(1) apply_invalid_done [OF work_moves_ok [OF m(1)]]]
    work_moves_done [OF m(2) apply_settling_done [OF work_moves_ok [OF m(2)] act]]
    work_moves_done [OF m(2) apply_not_found_done [OF work_moves_ok [OF m(2)] act args]]
  note split = res [unfolded apply_observation_def Let_def, folded w1_def, folded w2_def]
  show ?thesis
    using split steps(3,4) steps(1,2) [of _ now limits]
    by (cases "ob_status ob") (auto, metis fst_conv, metis fst_conv)
qed

section \<open>Every transaction keeps the tables\<close>

definition keeps :: "recon_store \<Rightarrow> recon_store \<Rightarrow> bool" where
  "keeps s t \<longleftrightarrow> (recon_wf s \<longrightarrow> recon_wf t) \<and> recon_le s t"

lemma keeps_refl [simp]: "keeps s s"
  by (simp add: keeps_def)

lemma keeps_trans: "keeps s t \<Longrightarrow> keeps t u \<Longrightarrow> keeps s u"
  by (auto simp: keeps_def intro: recon_le_trans)

lemma put_sel [simp]:
  "rs_dir (put_checkpoint cp s) = rs_dir s" "rs_targets (put_checkpoint cp s) = rs_targets s" "rs_tenants (put_checkpoint cp s) = rs_tenants s"
  "rs_dir (put_target tg s) = rs_dir s" "rs_checkpoints (put_target tg s) = rs_checkpoints s" "rs_tenants (put_target tg s) = rs_tenants s"
  "rs_checkpoints (put_account a s) = rs_checkpoints s" "rs_targets (put_account a s) = rs_targets s" "rs_tenants (put_account a s) = rs_tenants s"
  "rs_checkpoints (put_identity e s) = rs_checkpoints s" "rs_targets (put_identity e s) = rs_targets s" "rs_tenants (put_identity e s) = rs_tenants s"
  "ds_identities (rs_dir (put_account a s)) = ds_identities (rs_dir s)" "ds_accounts (rs_dir (put_identity e s)) = ds_accounts (rs_dir s)"
  by (simp_all add: put_checkpoint_def put_target_def put_account_def put_identity_def)

lemma map_put_row_distinct:
  assumes "distinct (map key rows)" "x \<in> set rows" "key y = key x" "f y = f x"
  shows "map f (put_row key y rows) = map f rows"
  using assms by (intro map_put_row) (metis distinct_key_eq)

lemma put_checkpoint_keeps:
  assumes "row_by cp_id i (rs_checkpoints s) = Some cp" "checkpoint_le cp cp'" "checkpoint_ok cp'"
  shows "keeps s (put_checkpoint cp' s)"
proof -
  have cp: "cp \<in> set (rs_checkpoints s)" "cp_id cp = i"
    using row_by_Some_mem [OF assms(1)] by auto
  have "rows_le cp_id checkpoint_le (rs_checkpoints s) (put_row cp_id cp' (rs_checkpoints s))"
    using assms cp by (intro rows_le_put [OF assms(1)]) (auto simp: checkpoint_le_def)
  moreover have "recon_wf (put_checkpoint cp' s)" if "recon_wf s"
  proof -
    have "map cp_provider_account_id (put_row cp_id cp' (rs_checkpoints s)) = map cp_provider_account_id (rs_checkpoints s)"
      using that assms(2) cp by (intro map_put_row_distinct [of cp_id _ cp]) (auto simp: recon_wf_def checkpoint_le_def)
    with that assms(3) show ?thesis
      by (auto simp: recon_wf_def put_checkpoint_def dest: set_put_row)
  qed
  ultimately show ?thesis
    by (simp add: keeps_def recon_le_def put_checkpoint_def rows_le_refl)
qed

lemma put_target_keeps:
  assumes "tg \<in> set (rs_targets s)" "same_target tg tg'" "target_ok tg'"
  shows "keeps s (put_target tg' s)"
proof -
  let ?f = "\<lambda>t. (tg_provider_account_id t, tg_external_identity_id t)"
  have "recon_wf (put_target tg' s)" if "recon_wf s"
  proof -
    have "map ?f (put_row tg_id tg' (rs_targets s)) = map ?f (rs_targets s)"
      using that assms(1,2) by (intro map_put_row_distinct [of tg_id _ tg]) (auto simp: recon_wf_def same_target_def)
    with that assms(3) show ?thesis
      by (auto simp: recon_wf_def put_target_def dest: set_put_row)
  qed
  then show ?thesis
    by (simp add: keeps_def recon_le_def rows_le_refl)
qed

lemma put_account_keeps:
  assumes "row_by ac_id i (ds_accounts (rs_dir s)) = Some a" "account_grows a a'"
  shows "keeps s (put_account a' s)"
proof -
  have a: "a \<in> set (ds_accounts (rs_dir s))" "ac_id a = i"
    using row_by_Some_mem [OF assms(1)] by auto
  have "rows_le ac_id account_grows (ds_accounts (rs_dir s)) (put_row ac_id a' (ds_accounts (rs_dir s)))"
    using assms a by (intro rows_le_put [OF assms(1)]) (auto simp: account_grows_def)
  moreover have "recon_wf (put_account a' s)" if "recon_wf s"
    using that a account_grows_ge [OF assms(2)]
    by (auto simp: recon_wf_def dir_wf_def put_account_def dest: set_put_row)
  ultimately show ?thesis
    by (simp add: keeps_def recon_le_def put_account_def rows_le_refl)
qed

lemma put_identity_keeps:
  assumes "row_by ei_id i (ds_identities (rs_dir s)) = Some e" "identity_grows e e'"
  shows "keeps s (put_identity e' s)"
proof -
  have e: "e \<in> set (ds_identities (rs_dir s))" "ei_id e = i"
    using row_by_Some_mem [OF assms(1)] by auto
  have same: "ei_id e' = ei_id e"
    using assms(2) by (cases e; cases e') (simp add: identity_grows_def)
  have ge: "ei_identity_revision e \<le> ei_identity_revision e'"
    using assms(2) by (auto simp: identity_grows_def)
  have "rows_le ei_id identity_grows (ds_identities (rs_dir s)) (put_row ei_id e' (ds_identities (rs_dir s)))"
    using assms e same by (intro rows_le_put [OF assms(1)]) auto
  moreover have "recon_wf (put_identity e' s)" if "recon_wf s"
    using that e ge by (force simp: recon_wf_def dir_wf_def put_identity_def dest: set_put_row)
  ultimately show ?thesis
    by (simp add: keeps_def recon_le_def put_identity_def rows_le_refl)
qed

lemma advance_le: "checkpoint_le cp (advance_checkpoint_next_run t cp)"
  by (simp add: checkpoint_le_def)

lemma advance_ok: "checkpoint_ok (advance_checkpoint_next_run t cp) = checkpoint_ok cp"
  by (simp add: checkpoint_ok_def counters_ok_def)

lemma released_advance: "released (advance_checkpoint_next_run t cp) cp' \<Longrightarrow> released cp cp'"
  unfolding released_def by (blast intro: checkpoint_le_trans advance_le)

lemma identity_grows_id: "identity_grows e f \<Longrightarrow> ei_id f = ei_id e"
  by (cases e; cases f) (simp add: identity_grows_def)

lemma recon_wf_checkpoint: "recon_wf s \<Longrightarrow> row_by cp_id i (rs_checkpoints s) = Some cp \<Longrightarrow> checkpoint_ok cp"
  by (auto simp: recon_wf_def dest: row_by_Some_mem)

text \<open>The four rows a lease is applied to, as they are found in the tables.\<close>

definition rows_of :: "recon_store \<Rightarrow> work \<Rightarrow> bool" where
  "rows_of s w \<longleftrightarrow> (\<exists>i. row_by ac_id i (ds_accounts (rs_dir s)) = Some (wk_account w)) \<and>
     (\<exists>i. row_by ei_id i (ds_identities (rs_dir s)) = Some (wk_identity w)) \<and> wk_target w \<in> set (rs_targets s)"

lemma put_work_keeps:
  assumes rows: "rows_of s w" and cp: "row_by cp_id i (rs_checkpoints s) = Some cp"
    and "released cp (wk_checkpoint w')" "same_target (wk_target w) (wk_target w')" "target_ok (wk_target w')"
    and "account_grows (wk_account w) (wk_account w')" "identity_grows (wk_identity w) (wk_identity w')"
  shows "keeps s (put_work w' s)"
proof -
  let ?s1 = "put_identity (wk_identity w') s"
  let ?s2 = "put_target (wk_target w') ?s1"
  let ?s3 = "put_checkpoint (wk_checkpoint w') ?s2"
  obtain j k where a: "row_by ac_id j (ds_accounts (rs_dir s)) = Some (wk_account w)"
    and e: "row_by ei_id k (ds_identities (rs_dir s)) = Some (wk_identity w)"
    using rows by (auto simp: rows_of_def)
  have "keeps s ?s1"
    by (rule put_identity_keeps [OF e assms(7)])
  moreover have "keeps ?s1 ?s2"
    using rows by (intro put_target_keeps [OF _ assms(4,5)]) (simp add: rows_of_def)
  moreover have "keeps ?s2 ?s3"
    using cp assms(3) by (intro put_checkpoint_keeps [of i]) (auto simp: released_def)
  moreover have "keeps ?s3 (put_account (wk_account w') ?s3)"
    using a by (intro put_account_keeps [OF _ assms(6)]) simp
  ultimately show ?thesis
    unfolding put_work_def by (blast intro: keeps_trans)
qed

definition spent :: "ReconciliationLease \<Rightarrow> checkpoint_row \<Rightarrow> bool" where
  "spent l cp \<longleftrightarrow> rl_attempt l < cp_lease_attempt cp \<or> rl_attempt l = cp_lease_attempt cp \<and> cp_lease_owner cp = None"

lemma spent_le: "spent l cp \<Longrightarrow> checkpoint_le cp cp' \<Longrightarrow> spent l cp'"
  by (auto simp: spent_def checkpoint_le_def)

lemma spent_no_match: "spent l cp \<Longrightarrow> \<not> lease_matches cp l now"
  by (auto simp: spent_def lease_matches_def)

lemma released_spent: "lease_matches cp l now \<Longrightarrow> released cp cp' \<Longrightarrow> spent l cp'"
  by (auto simp: spent_def lease_matches_def released_def checkpoint_le_def)

lemma row_by_put_checkpoint:
  assumes "row_by cp_id i (rs_checkpoints s) = Some cp" "cp_id cp' = i"
  shows "row_by cp_id i (rs_checkpoints (put_checkpoint cp' s)) = Some cp'"
  using assms by (simp add: put_checkpoint_def row_by_put_row)

lemma put_work_checkpoints: "rs_checkpoints (put_work w s) = rs_checkpoints (put_checkpoint (wk_checkpoint w) s)"
  by (simp add: put_work_def put_checkpoint_def)

text \<open>A transaction that gives the lease of checkpoint \<open>i\<close> back.\<close>

definition gives_back :: "recon_store \<Rightarrow> string \<Rightarrow> checkpoint_row \<Rightarrow> recon_store \<Rightarrow> bool" where
  "gives_back s i cp s' \<longleftrightarrow> keeps s s' \<and> (\<exists>cp'. row_by cp_id i (rs_checkpoints s') = Some cp' \<and> released cp cp')"

lemma gives_back_put:
  assumes "row_by cp_id i (rs_checkpoints s) = Some cp" "released cp cp'"
    "rs_checkpoints s' = rs_checkpoints (put_checkpoint cp' s)" "keeps s s'"
  shows "gives_back s i cp s'"
  unfolding gives_back_def
proof (intro conjI exI [of _ cp'])
  have "cp_id cp' = i"
    using assms(2) row_by_Some_mem [OF assms(1)] by (auto simp: released_def checkpoint_le_def)
  then show "row_by cp_id i (rs_checkpoints s') = Some cp'"
    using row_by_put_checkpoint [OF assms(1)] assms(3) by simp
qed (use assms in auto)

lemma find_target_mem: "find_target s cp i = Some tg \<Longrightarrow> tg \<in> set (rs_targets s)"
  by (auto simp: find_target_def find_Some_iff)

lemma find_identity_row:
  assumes "recon_wf s" "find_identity s a i = Some e"
  shows "row_by ei_id (ei_id e) (ds_identities (rs_dir s)) = Some e"
proof -
  have "e \<in> set (ds_identities (rs_dir s))"
    using assms(2) by (auto simp: find_identity_def find_Some_iff)
  with assms(1) show ?thesis
    by (intro row_by_distinct) (auto simp: recon_wf_def dir_wf_def)
qed

lemma reject_fence_gives_back:
  assumes wf: "recon_wf s" and cp: "row_by cp_id i (rs_checkpoints s) = Some cp" and found: "\<And>tg. found = Some tg \<Longrightarrow> tg \<in> set (rs_targets s)"
  shows "gives_back s i cp (reject_fence s (advance_checkpoint_next_run t cp) found now)"
proof -
  let ?cp = "reject_checkpoint (advance_checkpoint_next_run t cp) now"
  let ?s = "case found of None \<Rightarrow> s | Some tg \<Rightarrow> put_target (reject_target tg now) s"
  have rel: "released cp ?cp"
    using recon_wf_checkpoint [OF wf cp] by (intro released_advance [OF reject_checkpoint_released]) (simp add: advance_ok)
  have "keeps s ?s"
  proof (cases found)
    case (Some tg)
    then have "keeps s (put_target (reject_target tg now) s)"
      using found wf by (intro put_target_keeps [of tg]) (auto simp: reject_target_def same_target_def recon_wf_def target_ok_def)
    with Some show ?thesis by simp
  qed simp
  moreover have "keeps ?s (put_checkpoint ?cp ?s)"
    using cp rel by (intro put_checkpoint_keeps [of i]) (auto simp: released_def split: option.split)
  ultimately show ?thesis
    using cp rel by (intro gives_back_put [OF cp rel]) (auto simp: reject_fence_def put_checkpoint_def intro: keeps_trans split: option.split)
qed

lemma finish_fence_gives_back:
  assumes wf: "recon_wf s" and cp: "row_by cp_id i (rs_checkpoints s) = Some cp" "held cp" and tg: "tg \<in> set (rs_targets s)"
    and fin: "finish_target (advance_checkpoint_next_run t cp) tg j now failed code = (cp', tg')"
  shows "gives_back s i cp (put_checkpoint cp' (put_target tg' s))"
proof -
  have rel: "released cp cp'"
    using cp(2) by (intro released_advance [OF finish_target_released [OF _ fin]]) (simp add: held_def advance_ok)
  have "keeps s (put_target tg' s)"
    using fin wf tg by (intro put_target_keeps [OF tg]) (auto simp: finish_target_def same_target_def recon_wf_def target_ok_def)
  moreover have "keeps (put_target tg' s) (put_checkpoint cp' (put_target tg' s))"
    using cp rel by (intro put_checkpoint_keeps [of i]) (auto simp: released_def)
  ultimately show ?thesis
    by (intro gives_back_put [OF cp(1) rel]) (auto simp: put_checkpoint_def intro: keeps_trans)
qed

lemma apply_fenced_gives_back:
  assumes wf: "recon_wf s" and cp: "row_by cp_id i (rs_checkpoints s) = Some cp" "held cp"
    and a: "row_by ac_id j (ds_accounts (rs_dir s)) = Some a" and args: "0 < al_not_found_confirmation limits"
    and res: "apply_fenced s a (advance_checkpoint_next_run t cp) l ob limits now = Inr (s', res)"
  shows "gives_back s i cp s'"
proof -
  let ?cp = "advance_checkpoint_next_run t cp"
  let ?i = "find_identity s a (rl_external_identity_id l)" and ?t = "find_target s ?cp (rl_target_id l)"
  show ?thesis
  proof (cases "?i = None \<or> ?t = None \<or> \<not> account_fence_matches a (rl_context l) \<or> \<not> target_fence_matches (the ?t) l")
    case True
    then have "s' = reject_fence s ?cp ?t now"
      using res by (cases ?i; cases ?t) (simp_all add: apply_fenced_def Let_def)
    then show ?thesis
      by (simp add: reject_fence_gives_back [OF wf cp(1)] find_target_mem)
  next
    case False
    then obtain e tg where e: "?i = Some e" and tg: "?t = Some tg"
      and fences: "account_fence_matches a (rl_context l)" "target_fence_matches tg l"
      by auto
    have rest: "(if \<not> identity_fence_matches e l
        then (case finish_target ?cp tg (ei_id e) now True (Some (recon_code RE_FENCE_CONFLICT)) of
          (cp1, tg1) \<Rightarrow> Inr (put_checkpoint cp1 (put_target tg1 s), fence_result (ac_identity_revision a)))
        else bindE (apply_observation \<lparr>wk_account = a, wk_checkpoint = ?cp, wk_target = tg, wk_identity = e\<rparr>
               (effective_observation ob now) now limits) (\<lambda>(w, res). Inr (put_work w s, res))) = Inr (s', res)"
      using res fences unfolding apply_fenced_def Let_def e tg by (simp split: if_splits)
    show ?thesis
    proof (cases "identity_fence_matches e l")
      case False
      with rest finish_fence_gives_back [OF wf cp find_target_mem [OF tg]] show ?thesis
        by (auto split: prod.splits)
    next
      case True
      let ?w = "\<lparr>wk_account = a, wk_checkpoint = ?cp, wk_target = tg, wk_identity = e\<rparr>"
      from True rest obtain w' where w': "apply_observation ?w (effective_observation ob now) now limits = Inr (w', res)" "s' = put_work w' s"
        by (auto simp: result_simps)
      have ei: "row_by ei_id (ei_id e) (ds_identities (rs_dir s)) = Some e"
        by (rule find_identity_row [OF wf e])
      have ok: "work_ok ?w"
        using wf cp(2) find_target_mem [OF tg] row_by_Some_mem [OF a] row_by_Some_mem [OF ei]
        by (auto simp: work_ok_def held_def advance_ok recon_wf_def)
      have "work_done ?w w'"
        using True by (intro apply_observation_done [OF ok _ args w'(1)]) (simp add: identity_fence_matches_def)
      then have rel: "released cp (wk_checkpoint w')" and d: "same_target tg (wk_target w')" "target_ok (wk_target w')"
          "account_grows a (wk_account w')" "identity_grows e (wk_identity w')"
        by (auto simp: work_done_def intro: released_advance)
      have "rows_of s ?w"
        using a ei find_target_mem [OF tg] by (auto simp: rows_of_def)
      with d have "keeps s (put_work w' s)"
        by (intro put_work_keeps [OF _ cp(1) rel]) auto
      then show ?thesis
        unfolding w'(2) by (rule gives_back_put [OF cp(1) rel put_work_checkpoints])
    qed
  qed
qed

lemma apply_lease_effect:
  assumes wf: "recon_wf s" and res: "apply_lease s l ob limits probe now = Inr (s', res)"
  shows "s' = s \<and> ra_outcome res = AO_FENCE_REJECTED \<or>
    (\<exists>cp. row_by cp_id (rl_checkpoint_id l) (rs_checkpoints s) = Some cp \<and> lease_matches cp l now \<and>
       gives_back s (rl_checkpoint_id l) cp s')"
proof (cases "row_by cp_id (rl_checkpoint_id l) (rs_checkpoints s)")
  case None
  with res show ?thesis by (auto simp: apply_lease_def result_simps Let_def fence_result_def)
next
  case (Some cp)
  note cp = Some
  show ?thesis
  proof (cases "lease_matches cp l now \<and> cp_tenant_id cp \<in> set (rs_tenants s) \<and>
      row_by ac_id (cp_provider_account_id cp) (ds_accounts (rs_dir s)) \<noteq> None")
    case False
    with res cp show ?thesis
      by (auto simp: apply_lease_def result_simps Let_def fence_result_def split: option.splits if_splits)
  next
    case True
    then obtain a where a: "row_by ac_id (cp_provider_account_id cp) (ds_accounts (rs_dir s)) = Some a" by auto
    have ok: "checkpoint_ok cp" by (rule recon_wf_checkpoint [OF wf cp])
    have held: "held cp"
      using ok True by (auto simp: held_def checkpoint_ok_def lease_matches_def)
    have "gives_back s (rl_checkpoint_id l) cp s'"
    proof (cases "cp_tenant_id cp \<in> set (ds_tenants (rs_dir s))")
      case valid: True
      with res cp True a show ?thesis
        by (intro apply_fenced_gives_back [OF wf cp held a])
          (auto simp: apply_lease_def result_simps Let_def apply_args_ok_def)
    next
      case False
      obtain a' cp' where c: "complete_cycle a (advance_checkpoint_next_run (now + timedelta_us probe) cp) now (al_cycle_interval limits) None False = (a', cp')"
        by fastforce
      then have rel: "released cp cp'" and "account_grows a a'"
        using complete_cycle_released ok released_advance advance_ok by metis+
      moreover have "s' = put_account a' (put_checkpoint cp' s)"
        using res cp True a False c by (auto simp: apply_lease_def result_simps Let_def)
      moreover have "keeps s (put_checkpoint cp' s)"
        using rel by (intro put_checkpoint_keeps [OF cp]) (auto simp: released_def)
      moreover have "keeps (put_checkpoint cp' s) (put_account a' (put_checkpoint cp' s))"
        using a \<open>account_grows a a'\<close> by (intro put_account_keeps) auto
      ultimately show ?thesis
        by (intro gives_back_put [OF cp rel]) (auto intro: keeps_trans)
    qed
    with cp True show ?thesis by blast
  qed
qed

text \<open>What a lease says of the state it was issued in.\<close>

definition issued ::
  "recon_store \<Rightarrow> claim_args \<Rightarrow> string \<Rightarrow> int \<Rightarrow> checkpoint_row \<Rightarrow> account_row \<Rightarrow> ReconciliationLease \<Rightarrow> recon_store \<Rightarrow> bool" where
  "issued s args i lease_now cp a l s' \<longleftrightarrow>
     rl_checkpoint_id l = i \<and> rl_owner l = ca_owner args \<and> rl_attempt l = cp_lease_attempt cp + 1 \<and>
     rl_lease_until l = lease_now + us (ca_lease_seconds args) \<and> rl_context l = context_of a \<and> lease_ok l \<and>
     (\<exists>e\<in>set (ds_identities (rs_dir s)). ei_id e = rl_external_identity_id l \<and> identity_fence_matches e l \<and> belongs_to_account e a) \<and>
     (\<exists>cp'. row_by cp_id i (rs_checkpoints s') = Some cp' \<and> cp_lease_owner cp' = Some (rl_owner l) \<and>
        cp_lease_attempt cp' = rl_attempt l \<and> cp_lease_until cp' = Some (rl_lease_until l) \<and>
        lease_now + timedelta_us (ca_probe_interval args) \<le> cp_next_run_at cp')"

lemma start_cycle_facts:
  assumes "checkpoint_ok cp"
  shows "checkpoint_le cp (start_cycle cp now)" "held (start_cycle cp now)" "cp_id (start_cycle cp now) = cp_id cp"
    "cp_lease_attempt (start_cycle cp now) = cp_lease_attempt cp"
  using assms by (auto simp: start_cycle_def checkpoint_defs)

lemma issue_lease_effect:
  assumes wf: "recon_wf s0" and base: "keeps s0 s" "rs_dir s = rs_dir s0" and cp: "row_by cp_id i (rs_checkpoints s) = Some cp"
    and le: "checkpoint_le cp cp1" "held cp1" "cp_lease_attempt cp1 = cp_lease_attempt cp"
    and a: "a \<in> set (ds_accounts (rs_dir s))" and e: "e \<in> set (ds_identities (rs_dir s))"
      "ei_state e = LINK_ACTIVE" "ei_subject_type e = ''user_id''" "belongs_to_account e a"
    and tg: "tg0 \<in> set (rs_targets s)" "same_target tg0 tg" "target_ok tg"
    and res: "issue_lease s a cp1 tg e args lease_now = Inr (s', lo)"
  shows "keeps s0 s' \<and> (\<exists>l. lo = Some l \<and> issued s0 args i lease_now cp a l s')"
proof -
  define tg1 where "tg1 = tg\<lparr>tg_account_revision := ac_identity_revision a, tg_account_scope_change_at := ac_last_scope_change_at a,
     tg_identity_revision := ei_identity_revision e, tg_next_attempt_at := lease_now\<rparr>"
  define cp2 where "cp2 = advance_checkpoint_next_run (lease_now + timedelta_us (ca_probe_interval args))
     (cp1\<lparr>cp_lease_owner := Some (ca_owner args), cp_lease_attempt := cp_lease_attempt cp1 + 1,
          cp_lease_until := Some (lease_now + us (ca_lease_seconds args))\<rparr>)"
  obtain l where l: "lo = Some l" "s' = put_checkpoint cp2 (put_target tg1 s)" "lease_ok l"
      "rl_checkpoint_id l = cp_id cp1" "rl_owner l = ca_owner args" "rl_attempt l = cp_lease_attempt cp1 + 1"
      "rl_lease_until l = lease_now + us (ca_lease_seconds args)" "rl_context l = context_of a"
      "rl_external_identity_id l = ei_id e" "rl_identity_revision l = ei_identity_revision e" "rl_subject_value l = ei_subject_value e"
    using res by (auto simp: issue_lease_def Let_def result_simps tg1_def cp2_def)
  have id: "cp_id cp = i"
    using row_by_Some_mem [OF cp] by simp
  have rev: "1 \<le> ac_identity_revision a" "1 \<le> ei_identity_revision e"
    using wf a e(1) base(2) by (auto simp: recon_wf_def)
  have "keeps s (put_target tg1 s)"
    using tg rev by (intro put_target_keeps [OF tg(1)]) (auto simp: tg1_def same_target_def target_ok_def)
  moreover have "keeps (put_target tg1 s) s'"
    unfolding l(2) using cp le
    by (intro put_checkpoint_keeps [of i _ cp]) (auto simp: cp2_def checkpoint_defs)
  ultimately have "keeps s0 s'"
    using base(1) keeps_trans by blast
  moreover have "row_by cp_id i (rs_checkpoints s') = Some cp2"
    unfolding l(2) using cp id le(1) by (intro row_by_put_checkpoint) (auto simp: cp2_def checkpoint_le_def)
  ultimately show ?thesis
    using l le e base(2) id by (auto simp: issued_def identity_fence_matches_def cp2_def checkpoint_le_def)
qed

lemma put_released_keeps:
  assumes "row_by cp_id i (rs_checkpoints s) = Some cp" "checkpoint_le cp cp1" "released cp1 cp'"
  shows "keeps s (put_checkpoint cp' s)"
  using assms by (intro put_checkpoint_keeps) (auto simp: released_def intro: checkpoint_le_trans)

lemma end_cycle_keeps:
  assumes "row_by cp_id i (rs_checkpoints s) = Some cp" "checkpoint_le cp cp1" "checkpoint_ok cp1"
    and a: "row_by ac_id j (ds_accounts (rs_dir s)) = Some a"
    and c: "complete_cycle a cp1 now n pending recovery = (a', cp')"
  shows "keeps s (put_account a' (put_checkpoint cp' s))"
proof -
  note r = complete_cycle_released [OF assms(3) c]
  have "keeps s (put_checkpoint cp' s)"
    by (rule put_released_keeps [OF assms(1,2) r(1)])
  moreover have "keeps (put_checkpoint cp' s) (put_account a' (put_checkpoint cp' s))"
    using a r(2) by (intro put_account_keeps) auto
  ultimately show ?thesis by (rule keeps_trans)
qed

definition claim_out ::
  "recon_store \<Rightarrow> claim_args \<Rightarrow> string \<Rightarrow> int \<Rightarrow> checkpoint_row \<Rightarrow> account_row \<Rightarrow> recon_store \<Rightarrow> ReconciliationLease option \<Rightarrow> bool" where
  "claim_out s args i lease_now cp a s' lo \<longleftrightarrow> keeps s s' \<and> (\<forall>l. lo = Some l \<longrightarrow> issued s args i lease_now cp a l s')"

lemma due_target_mem: "due_target s i now = Some tg \<Longrightarrow> tg \<in> set (rs_targets s)"
proof -
  assume "due_target s i now = Some tg"
  then obtain rest where "sort_key tg_next_attempt_at (sort_key tg_id (filter (\<lambda>t. tg_checkpoint_id t = i \<and>
      tg_state t = TG_PENDING \<and> tg_next_attempt_at t \<le> now) (rs_targets s))) = tg # rest"
    by (auto simp: due_target_def split: list.splits)
  from arg_cong [OF this, of set] show ?thesis by auto
qed

lemma next_identity_mem:
  assumes "next_identity s a cp t = Some e"
  shows "e \<in> set (ds_identities (rs_dir s))" "scannable s a cp t e"
proof -
  obtain rest where "sort_key ei_id (filter (scannable s a cp t) (ds_identities (rs_dir s))) = e # rest"
    using assms by (auto simp: next_identity_def split: list.splits)
  from arg_cong [OF this, of set] show "e \<in> set (ds_identities (rs_dir s))" "scannable s a cp t e" by auto
qed

lemma due_rejections_keep:
  assumes wf: "recon_wf s" and cp: "row_by cp_id i (rs_checkpoints s) = Some cp" "checkpoint_le cp cp1" "held cp1"
    and tg: "tg \<in> set (rs_targets s)"
  shows "keeps s (fail_due_target s cp1 tg found now)" "keeps s (retire_due_target s cp1 tg e now)"
proof -
  have put: "keeps s (put_checkpoint cp' (put_target tg' s))"
    if "released cp1 cp'" "same_target tg tg'" "target_ok tg'" for cp' tg'
    using that keeps_trans [OF put_target_keeps [OF tg that(2,3)] put_released_keeps [OF _ cp(2) that(1)]] cp(1) by simp
  have ok: "target_ok tg"
    using wf tg by (simp add: recon_wf_def)
  show "keeps s (fail_due_target s cp1 tg found now)"
    unfolding fail_due_target_def Let_def using ok cp(3)
    by (intro put) (auto simp: checkpoint_defs same_target_def target_ok_def split: option.split)
  show "keeps s (retire_due_target s cp1 tg e now)"
    unfolding retire_due_target_def using ok cp(3)
    by (intro put) (auto simp: checkpoint_defs same_target_def target_ok_def)
qed

lemma claim_due_effect:
  assumes wf: "recon_wf s" and cp: "row_by cp_id i (rs_checkpoints s) = Some cp" "checkpoint_le cp cp1" "held cp1"
      "cp_lease_attempt cp1 = cp_lease_attempt cp"
    and a: "row_by ac_id j (ds_accounts (rs_dir s)) = Some a" and tg: "tg \<in> set (rs_targets s)"
    and res: "claim_due s a cp1 tg args now lease_now = Inr (s', lo)"
  shows "claim_out s args i lease_now cp a s' lo"
proof (cases "\<exists>e. row_by ei_id (tg_external_identity_id tg) (ds_identities (rs_dir s)) = Some e \<and> target_usable s a e \<and>
    \<not> (case ei_last_seen_at e of None \<Rightarrow> True | Some t \<Rightarrow> t < ca_active_since args)")
  case False
  with res have "lo = None" "(\<exists>f. s' = fail_due_target s cp1 tg f now) \<or> (\<exists>e. s' = retire_due_target s cp1 tg e now)"
    by (auto simp: claim_due_def split: option.splits if_splits)
  with due_rejections_keep [OF wf cp(1-3) tg] show ?thesis
    by (auto simp: claim_out_def)
next
  case True
  then obtain e where e: "row_by ei_id (tg_external_identity_id tg) (ds_identities (rs_dir s)) = Some e" "target_usable s a e"
      "issue_lease s a cp1 (refence_target tg a e) e args lease_now = Inr (s', lo)"
    using res by (auto simp: claim_due_def split: if_splits)
  have "target_ok (refence_target tg a e)" "same_target tg (refence_target tg a e)"
    using wf tg by (auto simp: recon_wf_def refence_target_def target_ok_def same_target_def)
  then show ?thesis
    using issue_lease_effect [OF wf keeps_refl _ cp(1,2,3,4) _ _ _ _ _ tg _ _ e(3)] e row_by_Some_mem [OF a] row_by_Some_mem [OF e(1)]
    by (auto simp: claim_out_def target_usable_def)
qed

lemma add_target_keeps:
  assumes "target_ok tg" "tg_id tg \<notin> tg_id ` set (rs_targets s)"
    and "find (\<lambda>t. tg_provider_account_id t = tg_provider_account_id tg \<and> tg_external_identity_id t = tg_external_identity_id tg) (rs_targets s) = None"
  shows "keeps s (s\<lparr>rs_targets := rs_targets s @ [tg]\<rparr>)"
  using assms by (auto simp: keeps_def recon_wf_def recon_le_def rows_le_refl find_None_iff)

lemma claim_scan_effect:
  assumes wf: "recon_wf s" and cp: "row_by cp_id i (rs_checkpoints s) = Some cp" "checkpoint_le cp cp1" "held cp1"
      "cp_lease_attempt cp1 = cp_lease_attempt cp"
    and a: "row_by ac_id j (ds_accounts (rs_dir s)) = Some a"
    and res: "claim_scan s a cp1 args fresh now lease_now = Inr (s', lo)"
  shows "claim_out s args i lease_now cp a s' lo"
proof (cases "next_identity s a cp1 (ca_active_since args)")
  case None
  then obtain a' cp' where "complete_cycle a cp1 now (ca_cycle_interval args) (next_pending_attempt_at s (cp_id cp1)) True = (a', cp')"
      "s' = put_account a' (put_checkpoint cp' s)" "lo = None"
    using res by (auto simp: claim_scan_def split: prod.splits)
  with end_cycle_keeps [OF cp(1,2) _ a] cp(3) show ?thesis
    by (auto simp: claim_out_def held_def)
next
  case (Some e)
  note e = next_identity_mem [OF Some]
  have fits: "ei_state e = LINK_ACTIVE" "ei_subject_type e = ''user_id''" "belongs_to_account e a"
    using e(2) by (auto simp: scannable_def)
  have amem: "a \<in> set (ds_accounts (rs_dir s))"
    using row_by_Some_mem [OF a] by simp
  have rev: "1 \<le> ac_identity_revision a" "1 \<le> ei_identity_revision e"
    using wf e(1) amem by (auto simp: recon_wf_def)
  show ?thesis
  proof (cases "find (\<lambda>t. tg_provider_account_id t = ac_id a \<and> tg_external_identity_id t = ei_id e) (rs_targets s)")
    case (Some tg)
    then have tg: "tg \<in> set (rs_targets s)" by (auto simp: find_Some_iff)
    have "target_ok (reopen_target tg e now)" "same_target tg (reopen_target tg e now)"
      using wf tg by (auto simp: recon_wf_def reopen_target_def target_ok_def same_target_def)
    moreover have "issue_lease s a cp1 (reopen_target tg e now) e args lease_now = Inr (s', lo)"
      using res Some \<open>next_identity s a cp1 (ca_active_since args) = _\<close> by (simp add: claim_scan_def)
    ultimately have "keeps s s' \<and> (\<exists>l. lo = Some l \<and> issued s args i lease_now cp a l s')"
      by (intro issue_lease_effect [OF wf keeps_refl refl cp amem e(1) fits tg])
    then show ?thesis by (auto simp: claim_out_def)
  next
    case None
    let ?tg = "new_target a cp1 e fresh now"
    let ?s = "s\<lparr>rs_targets := rs_targets s @ [?tg]\<rparr>"
    have issue: "fresh \<notin> tg_id ` set (rs_targets s)" "issue_lease ?s a cp1 ?tg e args lease_now = Inr (s', lo)"
      using res None \<open>next_identity s a cp1 (ca_active_since args) = _\<close> by (auto simp: claim_scan_def result_simps Let_def)
    have ok: "target_ok ?tg"
      using rev by (simp add: new_target_def target_ok_def)
    have base: "keeps s ?s"
      using issue(1) None by (intro add_target_keeps [OF ok]) (auto simp: new_target_def)
    show ?thesis
      using issue_lease_effect [OF wf base _ _ cp(2-4) _ _ fits _ _ ok issue(2), of i "?tg"] cp(1) amem e(1)
      by (auto simp: claim_out_def same_target_def)
  qed
qed

lemma claim_effect:
  assumes wf: "recon_wf s" and res: "claim_checkpoint s args i skipped fresh now lease_now = Inr (s', lo)"
  shows "keeps s s' \<and> (\<forall>l. lo = Some l \<longrightarrow> (\<exists>cp a. row_by cp_id i (rs_checkpoints s) = Some cp \<and> claimable_at cp now \<and>
    row_by ac_id (cp_provider_account_id cp) (ds_accounts (rs_dir s)) = Some a \<and> issued s args i lease_now cp a l s'))"
proof (cases "s' = s \<and> lo = None")
  case False
  then obtain cp a where cp: "row_by cp_id i (rs_checkpoints s) = Some cp"
      and a: "row_by ac_id (cp_provider_account_id cp) (ds_accounts (rs_dir s)) = Some a"
    using res by (auto simp: claim_checkpoint_def split: option.splits if_splits)
  have ok: "checkpoint_ok cp" by (rule recon_wf_checkpoint [OF wf cp])
  note start = start_cycle_facts [OF ok, of now]
  show ?thesis
  proof (cases "cp_tenant_id cp \<in> set (ds_tenants (rs_dir s)) \<and> claimable_at cp now \<and> reconcilable a")
    case True
    with res False cp a have "case due_target s i now of
        Some tg \<Rightarrow> claim_due s a (start_cycle cp now) tg args now lease_now = Inr (s', lo)
      | None \<Rightarrow> claim_scan s a (start_cycle cp now) args fresh now lease_now = Inr (s', lo)"
      by (auto simp: claim_checkpoint_def Let_def split: if_splits option.splits)
    then have "claim_out s args i lease_now cp a s' lo"
      using claim_due_effect [OF wf cp start(1,2,4) a due_target_mem] claim_scan_effect [OF wf cp start(1,2,4) a]
      by (auto split: option.splits)
    with True cp a show ?thesis by (auto simp: claim_out_def)
  next
    case ended: False
    with res False cp a have "lo = None" "s' = end_cycle s a cp args now"
      by (auto simp: claim_checkpoint_def Let_def split: if_splits)
    with end_cycle_keeps [OF cp checkpoint_le_refl ok a] show ?thesis
      by (auto simp: end_cycle_def split: prod.splits)
  qed
qed auto

lemma seed_one_keeps:
  assumes "distinct (map cp_id cps)" "distinct (map cp_provider_account_id cps)" "\<forall>cp\<in>set cps. checkpoint_ok cp"
    and "seed_one due (cps, n) (a, fresh) = Inr (cps', n')"
  shows "distinct (map cp_id cps') \<and> distinct (map cp_provider_account_id cps') \<and> (\<forall>cp\<in>set cps'. checkpoint_ok cp) \<and> prefix cps cps'"
  using assms
  by (auto simp: seed_one_def result_simps new_checkpoint_def checkpoint_ok_def counters_ok_def split: if_splits)

lemma seed_all_keeps:
  assumes "distinct (map cp_id cps)" "distinct (map cp_provider_account_id cps)" "\<forall>cp\<in>set cps. checkpoint_ok cp"
    and "foldE (seed_one due) (cps, n) xs = Inr (cps', n')"
  shows "distinct (map cp_id cps') \<and> distinct (map cp_provider_account_id cps') \<and> (\<forall>cp\<in>set cps'. checkpoint_ok cp) \<and> prefix cps cps'"
  using assms
proof (induction xs arbitrary: cps n)
  case (Cons x xs)
  obtain a fresh where x: "x = (a, fresh)" by fastforce
  from Cons.prems(4) obtain cps1 n1 where one: "seed_one due (cps, n) (a, fresh) = Inr (cps1, n1)"
    and rest: "foldE (seed_one due) (cps1, n1) xs = Inr (cps', n')"
    by (auto simp: x split: sum.splits)
  from seed_one_keeps [OF Cons.prems(1-3) one] Cons.IH [OF _ _ _ rest] show ?case
    by (auto intro: prefix_order.trans)
qed simp

lemma seed_keeps:
  assumes wf: "recon_wf s" and "seed_checkpoints s due fresh = Inr (s', n)"
  shows "keeps s s'"
proof -
  obtain xs cps where cps: "foldE (seed_one (instant due)) (rs_checkpoints s, 0) xs = Inr (cps, n)" "s' = s\<lparr>rs_checkpoints := cps\<rparr>"
    using assms(2) by (auto simp: seed_checkpoints_def Let_def result_simps)
  have ok: "distinct (map cp_id cps) \<and> distinct (map cp_provider_account_id cps) \<and> (\<forall>cp\<in>set cps. checkpoint_ok cp) \<and>
      prefix (rs_checkpoints s) cps"
    using wf by (intro seed_all_keeps [OF _ _ _ cps(1)]) (simp_all add: recon_wf_def)
  then obtain more where "cps = rs_checkpoints s @ more" by (auto simp: prefix_def)
  then have "rows_le cp_id checkpoint_le (rs_checkpoints s) cps" by (simp add: rows_le_append)
  with ok wf cps(2) show ?thesis
    by (auto simp: keeps_def recon_wf_def recon_le_def rows_le_refl)
qed

lemma account_le_grows: "account_le a b \<Longrightarrow> account_grows a b"
  by (cases a; cases b) (simp add: account_le_def account_grows_def)

lemma identity_le_grows: "identity_le e f \<Longrightarrow> identity_grows e f"
  by (cases e; cases f) (auto simp: identity_le_def identity_grows_def)

lemma list_all2_mem: "list_all2 R xs ys \<Longrightarrow> y \<in> set ys \<Longrightarrow> \<exists>x\<in>set xs. R x y"
  by (induction rule: list_all2_induct) auto

lemma directory_keeps:
  assumes wf: "recon_wf s" and "process L (rs_dir s) k = Inr (d, res)"
  shows "keeps s (s\<lparr>rs_dir := d\<rparr>)"
proof -
  have d: "dir_wf d" "store_le (rs_dir s) d"
    using process_keeps [OF _ assms(2)] wf by (auto simp: recon_wf_def)
  have acc: "list_all2 account_le (ds_accounts (rs_dir s)) (ds_accounts d)"
    and ide: "list_all2 identity_le (ds_identities (rs_dir s)) (ds_identities d)"
    using d(2) by (auto simp: store_le_def)
  have rev: "1 \<le> ac_identity_revision b" if "b \<in> set (ds_accounts d)" for b
    using list_all2_mem [OF acc that] wf account_leD(7) unfolding recon_wf_def by fastforce
  have rev': "1 \<le> ei_identity_revision f" if "f \<in> set (ds_identities d)" for f
    using list_all2_mem [OF ide that] wf unfolding recon_wf_def identity_le_def by fastforce
  have "rows_le ac_id account_grows (ds_accounts (rs_dir s)) (ds_accounts d)"
    by (rule rows_le_list_all2) (auto simp: account_grows_def intro: list_all2_mono [OF acc] account_le_grows)
  moreover have "rows_le ei_id identity_grows (ds_identities (rs_dir s)) (ds_identities d)"
    by (rule rows_le_list_all2) (auto intro: list_all2_mono [OF ide] identity_le_grows identity_grows_id)
  moreover have "ds_tenants d = ds_tenants (rs_dir s)" "prefix (ds_receipts (rs_dir s)) (ds_receipts d)"
    using store_leD [OF d(2)] d(2) by (auto simp: store_le_def)
  ultimately show ?thesis
    using wf d(1) rev rev' by (auto simp: keeps_def recon_wf_def recon_le_def rows_le_refl)
qed

lemma recon_step_keeps:
  assumes wf: "recon_wf s" and "recon_step L s op = Inr s'"
  shows "keeps s s'"
  using assms(2)
proof (cases op)
  case (Op_Apply l ob limits probe now)
  with assms apply_lease_effect [OF wf] show ?thesis
    by (fastforce simp: result_simps gives_back_def)
qed (use wf in \<open>auto simp: result_simps split: sum.splits dest: seed_keeps claim_effect directory_keeps\<close>)

interpretation recon: step_invariant "recon_step L" recon_wf
  by unfold_locales (use recon_step_keeps in \<open>auto simp: keeps_def\<close>)

interpretation recon_order: step_monotone "recon_step L" "\<lambda>s t. recon_wf s \<longrightarrow> recon_wf t \<and> recon_le s t"
  by unfold_locales (use recon_step_keeps in \<open>auto simp: keeps_def intro: recon_le_trans\<close>)

end
