(* ===== verification/Reconcile_History.thy ===== *)
theory Reconcile_History
  imports Reconciliation
begin

text \<open>
  Histories of reconciliation and directory events: sequences of transactions by any number of workers, at any
  readings of the clock. A transaction that raises leaves the tables as they are.
\<close>

section \<open>Leases\<close>

lemma history_keeps:
  assumes "recon_wf s"
  shows "recon_wf (try_steps (recon_step L) s ops)" "recon_le s (try_steps (recon_step L) s ops)"
  using assms recon_order.try_steps_le [of s L ops] by blast+

lemma recon_le_checkpoint:
  assumes "recon_le s t" "row_by cp_id i (rs_checkpoints s) = Some cp"
  obtains cp' where "row_by cp_id i (rs_checkpoints t) = Some cp'" "checkpoint_le cp cp'"
  using assms unfolding recon_le_def rows_le_def by blast

lemma recon_le_account:
  assumes "recon_le s t" "row_by ac_id i (ds_accounts (rs_dir s)) = Some a"
  obtains b where "row_by ac_id i (ds_accounts (rs_dir t)) = Some b" "account_grows a b"
  using assms unfolding recon_le_def rows_le_def by blast

lemma spent_rejected:
  assumes wf: "recon_wf t" and "row_by cp_id (rl_checkpoint_id l) (rs_checkpoints t) = Some cp" "spent l cp"
    and "apply_lease t l ob limits probe now = Inr (u, res)"
  shows "u = t \<and> ra_outcome res = AO_FENCE_REJECTED"
  using apply_lease_effect [OF wf assms(4)] assms(2,3) spent_no_match by auto

lemma apply_spends:
  assumes "recon_wf s" "apply_lease s l ob limits probe now = Inr (s', res)" "s' \<noteq> s"
  obtains cp where "row_by cp_id (rl_checkpoint_id l) (rs_checkpoints s') = Some cp" "spent l cp"
  using apply_lease_effect [OF assms(1,2)] assms(3) released_spent by (auto simp: gives_back_def)

section \<open>Fences\<close>

lemma apply_fenced_stale:
  assumes "\<not> account_fence_matches a (rl_context l)" "apply_fenced s a cp l ob limits now = Inr (s', res)"
  shows "rs_dir s' = rs_dir s \<and> ra_outcome res = AO_FENCE_REJECTED"
  using assms by (auto simp: apply_fenced_def Let_def reject_fence_def fence_result_def split: option.splits)

lemma complete_cycle_account:
  "complete_cycle a cp now n pending False = (a', cp') \<Longrightarrow> a' = a"
  by (simp add: complete_cycle_def Let_def)

lemma put_account_same:
  assumes "recon_wf s" "row_by ac_id i (ds_accounts (rs_dir s)) = Some a"
  shows "rs_dir (put_account a s) = rs_dir s"
  using assms row_by_Some_mem [OF assms(2)]
  by (simp add: put_account_def put_row_same recon_wf_def dir_wf_def)

text \<open>A lease for another revision of the account changes neither accounts nor identities.\<close>

lemma apply_stale_account:
  assumes wf: "recon_wf s" and cp: "row_by cp_id (rl_checkpoint_id l) (rs_checkpoints s) = Some cp"
    and a: "row_by ac_id (cp_provider_account_id cp) (ds_accounts (rs_dir s)) = Some a"
      "ac_identity_revision a \<noteq> pc_provider_account_revision (rl_context l)"
    and res: "apply_lease s l ob limits probe now = Inr (s', res)"
  shows "rs_dir s' = rs_dir s \<and> ra_outcome res = AO_FENCE_REJECTED"
proof -
  have stale: "\<not> account_fence_matches a (rl_context l)"
    using a(2) by (simp add: account_fence_matches_def)
  consider "s' = s" "ra_outcome res = AO_FENCE_REJECTED"
    | n pending a' cp' where "complete_cycle a (advance_checkpoint_next_run (now + timedelta_us probe) cp) now n pending False = (a', cp')"
        "s' = put_account a' (put_checkpoint cp' s)" "ra_outcome res = AO_FENCE_REJECTED"
    | "apply_fenced s a (advance_checkpoint_next_run (now + timedelta_us probe) cp) l ob limits now = Inr (s', res)"
    using res cp a(1)
    by (auto simp: apply_lease_def Let_def result_simps fence_result_def split: if_splits prod.splits)
  then show ?thesis
  proof cases
    case 2
    with complete_cycle_account [OF 2(1)] have "s' = put_account a (put_checkpoint cp' s)" by simp
    then have "rs_dir s' = rs_dir s"
      using put_account_same [OF wf a(1)] by (simp add: put_account_def put_checkpoint_def)
    with 2 show ?thesis by simp
  next
    case 3
    with apply_fenced_stale [OF stale] show ?thesis by blast
  qed simp
qed

text \<open>The account of a lease, in every later state.\<close>

lemma lease_account_later:
  assumes wf: "recon_wf s" and claim: "claim_checkpoint s args i skipped fresh now lease_now = Inr (s1, Some l)"
    and le: "recon_le s1 t"
  obtains cp b where "rl_checkpoint_id l = i" "row_by cp_id i (rs_checkpoints t) = Some cp"
    "cp_provider_account_id cp = pc_provider_account_id (rl_context l)"
    "row_by ac_id (cp_provider_account_id cp) (ds_accounts (rs_dir t)) = Some b"
    "pc_provider_account_revision (rl_context l) \<le> ac_identity_revision b"
proof -
  from claim_effect [OF wf claim] obtain cp a where keep: "keeps s s1" and cp: "row_by cp_id i (rs_checkpoints s) = Some cp"
      and a: "row_by ac_id (cp_provider_account_id cp) (ds_accounts (rs_dir s)) = Some a"
      and l: "issued s args i lease_now cp a l s1"
    by auto
  have le': "recon_le s t"
    using keep le by (auto simp: keeps_def intro: recon_le_trans)
  obtain cp' where cp': "row_by cp_id i (rs_checkpoints t) = Some cp'" "checkpoint_le cp cp'"
    by (rule recon_le_checkpoint [OF le' cp])
  obtain b where b: "row_by ac_id (cp_provider_account_id cp) (ds_accounts (rs_dir t)) = Some b" "account_grows a b"
    by (rule recon_le_account [OF le' a])
  have "ac_id a = cp_provider_account_id cp"
    using row_by_Some_mem [OF a] by simp
  with l have "pc_provider_account_id (rl_context l) = cp_provider_account_id cp"
    "pc_provider_account_revision (rl_context l) = ac_identity_revision a" "rl_checkpoint_id l = i"
    by (auto simp: issued_def context_of_def provider_context_def)
  with cp' b that show thesis
    by (auto simp: checkpoint_le_def account_grows_def)
qed

section \<open>When an identity is tightened\<close>

text \<open>An observation that may tighten: inactive, conflicting, or missing for a second time after the window.\<close>

definition tightening_case :: "target_row \<Rightarrow> ReconciliationObservation \<Rightarrow> int \<Rightarrow> apply_limits \<Rightarrow> bool" where
  "tightening_case tg ob now limits \<longleftrightarrow>
     ob_status ob \<in> {RP_INACTIVE, RP_CONFLICT} \<or>
     ob_status ob = RP_NOT_FOUND \<and> 0 < tg_not_found_count tg \<and>
     (\<exists>t. tg_last_not_found_at tg = Some t \<and> t + us (al_not_found_confirmation limits) \<le> now)"

definition tightened_by :: "work \<Rightarrow> work \<Rightarrow> ReconciliationApplyResult \<Rightarrow> apply_limits \<Rightarrow> bool" where
  "tightened_by w w' res limits \<longleftrightarrow>
     cp_tightened_count (wk_checkpoint w') = cp_tightened_count (wk_checkpoint w) + 1 \<and>
     cp_tightened_count (wk_checkpoint w') \<le> al_max_tighten_per_cycle limits \<and> ra_identity_changed res"

lemma finish_work_sel [simp]:
  "wk_identity (finish_work w now failed code) = wk_identity w"
  "cp_tightened_count (wk_checkpoint (finish_work w now failed code)) = cp_tightened_count (wk_checkpoint w)"
  by (simp_all add: finish_work_def finish_target_def clear_lease_def)

lemma settle_sel:
  assumes "settle w now changed failed code = (w', res)"
  shows "wk_identity w' = wk_identity w" "cp_tightened_count (wk_checkpoint w') = cp_tightened_count (wk_checkpoint w)"
    "ra_identity_changed res = changed"
  using assms by (auto simp: settle_def Let_def apply_result_def)

lemma record_success_count [simp]: "cp_tightened_count (wk_checkpoint (record_success w)) = cp_tightened_count (wk_checkpoint w)"
  by (simp add: record_success_def)

lemma keep_identity:
  "apply_unavailable w code now limits = (w', res) \<Longrightarrow> wk_identity w' = wk_identity w"
  "apply_invalid w code now limits = (w', res) \<Longrightarrow> wk_identity w' = wk_identity w"
  "await_confirmation w t now = (w', res) \<Longrightarrow> wk_identity w' = wk_identity w"
  "open_circuit w now limits = (w', res) \<Longrightarrow> wk_identity w' = wk_identity w"
  by (auto simp: apply_unavailable_def apply_invalid_def await_confirmation_def open_circuit_def Let_def record_failure_def
      complete_cycle_def)

lemma apply_resolved_state: "apply_resolved w t = (w', changed) \<Longrightarrow> ei_state (wk_identity w') = ei_state (wk_identity w)"
  by (auto simp: apply_resolved_def Let_def split: if_splits)

lemma apply_settling_tightens:
  assumes res: "apply_settling w ob now limits = Inr (w', res)" and changed: "ei_state (wk_identity w') \<noteq> ei_state (wk_identity w)"
  shows "tightened_by w w' res limits" "ob_status ob \<in> {RP_INACTIVE, RP_CONFLICT, RP_NOT_FOUND}"
proof -
  have closed: "\<not> ((ob_status ob \<in> {RP_INACTIVE, RP_CONFLICT} \<or> ob_status ob = RP_NOT_FOUND \<and> negative_is_current (wk_identity w) now) \<and>
      al_max_tighten_per_cycle limits \<le> cp_tightened_count (wk_checkpoint w))"
    using res changed by (auto simp: apply_settling_def Let_def dest!: keep_identity(4))
  note rest = res [unfolded apply_settling_def Let_def if_not_P [OF closed]]
  show "ob_status ob \<in> {RP_INACTIVE, RP_CONFLICT, RP_NOT_FOUND}"
    using rest changed
    by (cases "ob_status ob") (auto split: option.splits prod.splits dest!: settle_sel(1) apply_resolved_state)
  then show "tightened_by w w' res limits"
    using rest changed closed
    by (auto simp: tightened_by_def apply_negative_def tighten_to_def apply_conflict_def Let_def not_le settle_sel
        split: prod.splits if_splits dest!: settle_sel)
qed

lemma apply_observation_tightens:
  assumes res: "apply_observation w ob now limits = Inr (w', res)" and changed: "ei_state (wk_identity w') \<noteq> ei_state (wk_identity w)"
    and ok: "target_ok (wk_target w)"
  shows "tightened_by w w' res limits" "tightening_case (wk_target w) ob now limits"
proof -
  define w2 where "w2 = note_answer (note_lookup w (ob_status ob) now) now"
  have w2: "wk_identity w2 = wk_identity w" "cp_tightened_count (wk_checkpoint w2) = cp_tightened_count (wk_checkpoint w)"
      "tg_not_found_count (wk_target w2) = tg_not_found_count (wk_target w)"
      "tg_last_not_found_at (wk_target w2) = tg_last_not_found_at (wk_target w)"
    by (simp_all add: w2_def note_answer_def note_lookup_def)
  have by_w2: "tightened_by w w' res limits" if "tightened_by w2 w' res limits"
    using that by (simp add: tightened_by_def w2)
  have settled: "tightened_by w2 w' res limits" "ob_status ob \<in> {RP_INACTIVE, RP_CONFLICT, RP_NOT_FOUND}"
    if "apply_settling w2 ob now limits = Inr (w', res)"
    using apply_settling_tightens [OF that] changed w2 by auto
  have missing: "tightened_by w2 w' res limits \<and> tightening_case (wk_target w) ob now limits"
    if nf: "apply_not_found w2 ob now limits = Inr (w', res)" and st: "ob_status ob = RP_NOT_FOUND"
  proof -
    define w3 where "w3 = w2\<lparr>wk_target := (wk_target w2)\<lparr>tg_not_found_count := tg_not_found_count (wk_target w2) + 1,
        tg_last_not_found_at := Some now\<rparr>\<rparr>"
    have "tg_not_found_count (wk_target w) \<noteq> 0 \<and> (\<exists>t. tg_last_not_found_at (wk_target w) = Some t \<and>
        t + us (al_not_found_confirmation limits) \<le> now) \<and> apply_settling w3 ob now limits = Inr (w', res)"
      using nf [unfolded apply_not_found_def Let_def, folded w3_def] changed w2
      by (auto simp: not_less dest!: keep_identity(3) split: if_splits option.splits)
    moreover have "0 \<le> tg_not_found_count (wk_target w)"
      using ok by (cases "tg_first_not_found_at (wk_target w)"; cases "tg_last_not_found_at (wk_target w)") (auto simp: target_ok_def)
    moreover have "tightened_by w3 w' res limits" if "apply_settling w3 ob now limits = Inr (w', res)"
      using apply_settling_tightens(1) [OF that] changed by (simp add: w3_def w2)
    ultimately show ?thesis
      using st by (auto simp: tightening_case_def tightened_by_def w3_def)
  qed
  note split = res [unfolded apply_observation_def Let_def, folded w2_def]
  have "tightened_by w w' res limits \<and> tightening_case (wk_target w) ob now limits"
  proof (cases "ob_status ob")
    case RP_NOT_FOUND
    with split missing by_w2 show ?thesis by simp
  next
    case RP_UNAVAILABLE
    with split changed show ?thesis by (auto simp: note_lookup_def dest!: keep_identity(1))
  next
    case RP_INVALID
    with split changed show ?thesis by (auto simp: note_lookup_def dest!: keep_identity(2))
  qed (use split settled by_w2 in \<open>auto simp: tightening_case_def\<close>)
  then show "tightened_by w w' res limits" "tightening_case (wk_target w) ob now limits" by auto
qed

text \<open>An apply that changes an identity has reached its observation with these rows.\<close>

definition reaches ::
  "recon_store \<Rightarrow> ReconciliationLease \<Rightarrow> ReconciliationObservation \<Rightarrow> apply_limits \<Rightarrow> int \<Rightarrow> checkpoint_row \<Rightarrow> work \<Rightarrow> work
     \<Rightarrow> ReconciliationApplyResult \<Rightarrow> bool" where
  "reaches s l ob limits now cp w w' res \<longleftrightarrow>
     row_by cp_id (rl_checkpoint_id l) (rs_checkpoints s) = Some cp \<and> lease_matches cp l now \<and>
     (\<exists>t. wk_checkpoint w = advance_checkpoint_next_run t cp) \<and>
     wk_target w \<in> set (rs_targets s) \<and> tg_id (wk_target w) = rl_target_id l \<and>
     row_by ei_id (rl_external_identity_id l) (ds_identities (rs_dir s)) = Some (wk_identity w) \<and>
     identity_fence_matches (wk_identity w) l \<and> work_done w w' \<and> target_ok (wk_target w) \<and>
     apply_observation w (effective_observation ob now) now limits = Inr (w', res)"

lemma fenced_reaches_observation:
  assumes wf: "recon_wf s" and cp: "row_by cp_id (rl_checkpoint_id l) (rs_checkpoints s) = Some cp" "lease_matches cp l now"
    and a: "row_by ac_id j (ds_accounts (rs_dir s)) = Some a" and args: "0 < al_not_found_confirmation limits"
    and res: "apply_fenced s a (advance_checkpoint_next_run t cp) l ob limits now = Inr (s', res)"
    and changed: "ds_identities (rs_dir s') \<noteq> ds_identities (rs_dir s)"
  shows "\<exists>w w'. reaches s l ob limits now cp w w' res \<and> s' = put_work w' s"
proof -
  let ?cp = "advance_checkpoint_next_run t cp"
  obtain e tg where e: "find_identity s a (rl_external_identity_id l) = Some e" and tg: "find_target s ?cp (rl_target_id l) = Some tg"
    using res changed by (auto simp: apply_fenced_def Let_def reject_fence_def split: option.splits)
  let ?w = "\<lparr>wk_account = a, wk_checkpoint = ?cp, wk_target = tg, wk_identity = e\<rparr>"
  have fence: "identity_fence_matches e l"
    and "\<exists>w'. s' = put_work w' s \<and> apply_observation ?w (effective_observation ob now) now limits = Inr (w', res)"
    using res changed unfolding apply_fenced_def Let_def e tg
    by (auto simp: reject_fence_def result_simps split: if_splits prod.splits)
  then obtain w' where w': "s' = put_work w' s" "apply_observation ?w (effective_observation ob now) now limits = Inr (w', res)"
    by blast
  have row: "row_by ei_id (ei_id e) (ds_identities (rs_dir s)) = Some e" "ei_id e = rl_external_identity_id l"
    using find_identity_row [OF wf e] e by (auto simp: find_identity_def find_Some_iff)
  have tgm: "tg \<in> set (rs_targets s)" "tg_id tg = rl_target_id l"
    using tg by (auto simp: find_target_def find_Some_iff)
  have ok: "work_ok ?w"
    using wf tgm row_by_Some_mem [OF a] row_by_Some_mem [OF row(1)] recon_wf_checkpoint [OF wf cp(1)] cp(2)
    by (auto simp: work_ok_def held_def advance_ok recon_wf_def checkpoint_ok_def counters_ok_def lease_matches_def)
  have "work_done ?w w'"
    using fence by (intro apply_observation_done [OF ok _ args w'(2)]) (simp add: identity_fence_matches_def)
  then have "reaches s l ob limits now cp ?w w' res"
    using cp tgm row fence w'(2) ok by (auto simp: reaches_def work_ok_def)
  with w'(1) show ?thesis by blast
qed

lemma apply_reaches_observation:
  assumes wf: "recon_wf s" and res: "apply_lease s l ob limits probe now = Inr (s', res)"
    and changed: "ds_identities (rs_dir s') \<noteq> ds_identities (rs_dir s)"
  shows "\<exists>cp w w'. reaches s l ob limits now cp w w' res \<and> s' = put_work w' s"
proof -
  obtain cp a j where "row_by cp_id (rl_checkpoint_id l) (rs_checkpoints s) = Some cp" "lease_matches cp l now"
    "row_by ac_id j (ds_accounts (rs_dir s)) = Some a" "0 < al_not_found_confirmation limits"
    "apply_fenced s a (advance_checkpoint_next_run (now + timedelta_us probe) cp) l ob limits now = Inr (s', res)"
    using res changed
    by (auto simp: apply_lease_def Let_def result_simps apply_args_ok_def split: option.splits if_splits prod.splits)
  from fenced_reaches_observation [OF wf this changed] show ?thesis by blast
qed

lemma put_work_identities: "ds_identities (rs_dir (put_work w s)) = put_row ei_id (wk_identity w) (ds_identities (rs_dir s))"
  by (simp add: put_work_def put_identity_def)

lemma effective_tightening: "tightening_case tg (effective_observation ob now) now limits \<Longrightarrow> tightening_case tg ob now limits"
  by (simp add: tightening_case_def effective_observation_def split: if_splits)

definition tightening_explained ::
  "recon_store \<Rightarrow> ReconciliationLease \<Rightarrow> ReconciliationObservation \<Rightarrow> apply_limits \<Rightarrow> int \<Rightarrow> recon_store \<Rightarrow> bool" where
  \<comment> \<open>the lease is held, the target's record justifies it, and the cycle's count stays within its limit\<close>
  "tightening_explained s l ob limits now s' \<longleftrightarrow>
     (\<exists>cp cp' tg. row_by cp_id (rl_checkpoint_id l) (rs_checkpoints s) = Some cp \<and> lease_matches cp l now \<and>
       row_by cp_id (rl_checkpoint_id l) (rs_checkpoints s') = Some cp' \<and> cp_tightened_count cp' = cp_tightened_count cp + 1 \<and>
       cp_tightened_count cp' \<le> al_max_tighten_per_cycle limits \<and> tg \<in> set (rs_targets s) \<and> tg_id tg = rl_target_id l \<and>
       tightening_case tg ob now limits)"

lemma tightening_needs_lease:
  assumes wf: "recon_wf s" and res: "apply_lease s l ob limits probe now = Inr (s', res)"
    and e: "row_by ei_id i (ds_identities (rs_dir s)) = Some e" "row_by ei_id i (ds_identities (rs_dir s')) = Some f"
      "ei_state f \<noteq> ei_state e"
  shows "i = rl_external_identity_id l \<and> identity_fence_matches e l \<and> ra_identity_changed res \<and> tightening_explained s l ob limits now s'"
proof -
  have "ds_identities (rs_dir s') \<noteq> ds_identities (rs_dir s)"
    using e by auto
  from apply_reaches_observation [OF wf res this] obtain cp w w' where r: "reaches s l ob limits now cp w w' res" and s': "s' = put_work w' s"
    by blast
  have row: "row_by ei_id (rl_external_identity_id l) (ds_identities (rs_dir s)) = Some (wk_identity w)"
    and cp: "row_by cp_id (rl_checkpoint_id l) (rs_checkpoints s) = Some cp" and d: "work_done w w'"
    and count: "cp_tightened_count (wk_checkpoint w) = cp_tightened_count cp" "cp_id (wk_checkpoint w) = cp_id cp"
    using r by (auto simp: reaches_def)
  have id: "ei_id (wk_identity w') = rl_external_identity_id l"
    using d row_by_Some_mem [OF row] identity_grows_id by (auto simp: work_done_def)
  have eq: "i = rl_external_identity_id l" "e = wk_identity w" "f = wk_identity w'"
    using e row id unfolding s' put_work_identities by (auto simp: row_by_put_row split: if_splits)
  have "cp_id (wk_checkpoint w') = rl_checkpoint_id l"
    using d row_by_Some_mem [OF cp] count(2) by (auto simp: work_done_def released_def checkpoint_le_def)
  then have cp': "row_by cp_id (rl_checkpoint_id l) (rs_checkpoints s') = Some (wk_checkpoint w')"
    unfolding s' put_work_checkpoints using row_by_put_checkpoint [OF cp] by simp
  have "tightened_by w w' res limits" "tightening_case (wk_target w) (effective_observation ob now) now limits"
    using r e(3) apply_observation_tightens [of w "effective_observation ob now" now limits w' res] by (auto simp: reaches_def eq)
  then show ?thesis
    using r cp cp' count eq by (auto simp: reaches_def tightening_explained_def tightened_by_def dest: effective_tightening)
qed

section \<open>A run on concrete tables\<close>

definition demo_recon :: recon_store where
  "demo_recon =
     \<lparr>rs_dir = demo_dir_store\<lparr>ds_identities := [demo_link\<lparr>ei_last_seen_at := Some 4\<rparr>],
        ds_aliases := [\<lparr>al_tenant_id = ''t'', al_provider = ''feishu'', al_provider_tenant_key = ''k'', al_provider_account_key = ''app'',
          al_alias_type = ''open_id'', al_alias_value = ''o'', al_external_identity_id = ''e''\<rparr>]\<rparr>,
      rs_tenants = [''t''], rs_users = [\<lparr>us_id = ''p'', us_status = ''1'', us_is_active = True, us_is_anonymous = False\<rparr>],
      rs_memberships = [\<lparr>ms_user_id = ''p'', ms_tenant_id = ''t'', ms_role = ''normal'', ms_status = ''1''\<rparr>],
      rs_checkpoints = [new_checkpoint demo_account ''c1'' 0], rs_targets = []\<rparr>"

definition demo_claim :: claim_args where
  "demo_claim = \<lparr>ca_owner = ''w'', ca_lease_seconds = 30, ca_probe_interval = 1, ca_active_since = 0, ca_cycle_interval = 60\<rparr>"

definition demo_limits :: apply_limits where
  "demo_limits = \<lparr>al_unavailable_delay = 5, al_not_found_confirmation = 60, al_cycle_interval = 60, al_degrade_after_failures = 3,
     al_max_tighten_per_cycle = 2\<rparr>"

definition demo_inactive :: ReconciliationObservation where
  "demo_inactive = \<lparr>ob_status = RP_INACTIVE, ob_observed_at = \<lparr>instant = 20, utcoffset = Some 0\<rparr>, ob_verified_at = None,
     ob_safe_error_code = None\<rparr>"

definition demo_lease :: ReconciliationLease where
  "demo_lease = \<lparr>rl_checkpoint_id = ''c1'', rl_target_id = ''g'', rl_owner = ''w'', rl_attempt = 1, rl_context = context_of demo_account,
     rl_external_identity_id = ''e'', rl_subject_value = ''u'', rl_identity_revision = 1, rl_consecutive_failures = 0,
     rl_lease_until = 30000010\<rparr>"

definition demo_claimed :: recon_store where
  "demo_claimed = demo_recon\<lparr>
     rs_checkpoints := [(new_checkpoint demo_account ''c1'' 0)\<lparr>cp_cycle_started_at := Some 10, cp_next_run_at := 1000010,
       cp_lease_owner := Some ''w'', cp_lease_until := Some 30000010, cp_lease_attempt := 1\<rparr>],
     rs_targets := [new_target demo_account (new_checkpoint demo_account ''c1'' 0) (demo_link\<lparr>ei_last_seen_at := Some 4\<rparr>) ''g'' 10]\<rparr>"

lemma demo_recon_wf: "recon_wf demo_recon"
  by (simp add: recon_wf_def demo_recon_def demo_dir_store_def dir_wf_def demo_account_def demo_link_def new_checkpoint_def
      checkpoint_ok_def counters_ok_def)

lemma strip_short [simp]:
  "py_strip ''c1'' = ''c1''" "py_strip ''g'' = ''g''" "py_strip ''w'' = ''w''" "py_strip ''e'' = ''e''" "py_strip ''u'' = ''u''"
  by (rule py_strip_noop; simp)+

lemma demo_claim_step: "claim_checkpoint demo_recon demo_claim ''c1'' False ''g'' 10 10 = Inr (demo_claimed, Some demo_lease)"
  by (simp add: claim_checkpoint_def demo_recon_def demo_claim_def demo_dir_store_def demo_account_def demo_link_def new_checkpoint_def
      claimable_at_def reconcilable_def start_cycle_def due_target_def claim_scan_def next_identity_def scannable_def belongs_to_account_def
      has_account_alias_def has_active_membership_def new_target_def issue_lease_def advance_checkpoint_next_run_def us_def
      timedelta_us_def context_of_def provider_context_def lease_ok_def put_checkpoint_def put_target_def put_row_def
      demo_claimed_def demo_lease_def Let_def)

definition demo_applied :: recon_store where
  "demo_applied = demo_claimed\<lparr>
     rs_dir := (rs_dir demo_recon)\<lparr>ds_identities := [demo_link\<lparr>ei_last_seen_at := Some 4, ei_state := LINK_INACTIVE, ei_identity_revision := 2\<rparr>]\<rparr>,
     rs_checkpoints := [(new_checkpoint demo_account ''c1'' 0)\<lparr>cp_cycle_started_at := Some 10, cp_cursor_identity_id := Some ''e'',
       cp_last_success_at := Some 20, cp_next_run_at := 1000020, cp_lease_attempt := 1, cp_processed_count := 1, cp_tightened_count := 1\<rparr>],
     rs_targets := [(new_target demo_account (new_checkpoint demo_account ''c1'' 0) (demo_link\<lparr>ei_last_seen_at := Some 4\<rparr>) ''g'' 10)\<lparr>
       tg_identity_revision := 2, tg_state := TG_COMPLETED, tg_next_attempt_at := 20, tg_last_outcome := Some RP_INACTIVE,
       tg_last_observed_at := Some 20, tg_last_success_at := Some 20\<rparr>]\<rparr>"

definition demo_apply_result :: ReconciliationApplyResult where
  "demo_apply_result = \<lparr>ra_outcome = AO_APPLIED, ra_identity_changed = True, ra_account_revision = 1, ra_next_attempt_at = Some 1000020,
     ra_safe_error_code = None\<rparr>"

lemmas demo_apply_defs = apply_lease_def apply_args_ok_def demo_claimed_def demo_recon_def demo_lease_def demo_limits_def
  demo_inactive_def demo_dir_store_def demo_account_def demo_link_def new_checkpoint_def new_target_def context_of_def provider_context_def
  lease_matches_def apply_fenced_def find_identity_def find_target_def belongs_to_account_def account_fence_matches_def
  target_fence_matches_def identity_fence_matches_def effective_observation_def apply_observation_def note_lookup_def note_answer_def
  apply_settling_def record_success_def apply_negative_def negative_is_current_def tighten_to_def settle_def finish_work_def
  finish_target_def max_cursor_def clear_lease_def apply_result_def put_work_def put_account_def put_checkpoint_def put_target_def
  put_identity_def put_row_def us_def timedelta_us_def advance_checkpoint_next_run_def demo_applied_def demo_apply_result_def

lemma demo_apply_step: "apply_lease demo_claimed demo_lease demo_inactive demo_limits 1 20 = Inr (demo_applied, demo_apply_result)"
  by (simp add: demo_apply_defs Let_def)

lemma demo_claimed_wf: "recon_wf demo_claimed"
  using claim_effect [OF demo_recon_wf demo_claim_step] demo_recon_wf by (simp add: keeps_def)

section \<open>Properties\<close>

text \<open>Property C28. Over every interleaving of seeding, claims, applied observations and directory events, by any workers and at any
  times, the tables keep their constraints (unique rows, lease columns set together and only within a cycle, counters not
  negative, the records of missing users and of proofs consistent); a schedule and an attempt number never go back and a
  lease of an attempt is only given back, never restored; account revisions never go back; an identity's changes raise its
  revision, never loosen its state and never move its proof back; receipts are only added.\<close>

theorem reconciliation_history_grows:
  assumes "recon_wf s"
  shows "recon_wf (try_steps (recon_step L) s ops) \<and> recon_le s (try_steps (recon_step L) s ops)"
  using history_keeps [OF assms] by blast

theorem reconciliation_history_grows_witness:
  "recon_wf demo_recon \<and> recon_wf demo_claimed \<and> recon_le demo_recon demo_claimed"
proof -
  have "try_steps (recon_step L) demo_recon [Op_Claim demo_claim ''c1'' \<lparr>vi_skipped = False, vi_fresh = ''g'', vi_now = 10, vi_lease_now = 10\<rparr>] =
      demo_claimed" for L
    by (simp add: try_step_def demo_claim_step)
  with reconciliation_history_grows [OF demo_recon_wf, of demo_dir_lib] demo_recon_wf show ?thesis by metis
qed

text \<open>Property C29. A lease is applied once: after an application of a lease that changed anything, no later history makes it
  valid again; a repeated application at any time is rejected at the fence and changes nothing.\<close>

theorem reconciliation_lease_applied_once:
  assumes "recon_wf s" "apply_lease s l ob limits probe now = Inr (s1, res)" "s1 \<noteq> s"
    and "t = try_steps (recon_step L) s1 ops" "apply_lease t l ob' limits' probe' now' = Inr (u, res')"
  shows "u = t \<and> ra_outcome res' = AO_FENCE_REJECTED"
proof -
  obtain cp where cp: "row_by cp_id (rl_checkpoint_id l) (rs_checkpoints s1) = Some cp" "spent l cp"
    by (rule apply_spends [OF assms(1-3)])
  have wf: "recon_wf s1"
    using apply_lease_effect [OF assms(1,2)] assms(1) by (auto simp: gives_back_def keeps_def)
  obtain cp' where "row_by cp_id (rl_checkpoint_id l) (rs_checkpoints t) = Some cp'" "checkpoint_le cp cp'"
    unfolding assms(4) by (rule recon_le_checkpoint [OF history_keeps(2) [OF wf] cp(1)])
  with spent_le [OF cp(2)] history_keeps(1) [OF wf] assms(4,5) show ?thesis
    by (intro spent_rejected) auto
qed

theorem reconciliation_lease_applied_once_witness:
  "\<exists>u res'. apply_lease demo_applied demo_lease demo_inactive demo_limits 1 25 = Inr (u, res') \<and> u = demo_applied \<and>
     ra_outcome res' = AO_FENCE_REJECTED"
proof -
  have "map cp_processed_count (rs_checkpoints demo_applied) \<noteq> map cp_processed_count (rs_checkpoints demo_claimed)"
    by (simp add: demo_applied_def demo_claimed_def new_checkpoint_def)
  then have "demo_applied \<noteq> demo_claimed" by auto
  moreover obtain u res' where "apply_lease demo_applied demo_lease demo_inactive demo_limits 1 25 = Inr (u, res')"
    by (simp add: demo_apply_defs Let_def)
  ultimately show ?thesis
    using reconciliation_lease_applied_once [OF demo_claimed_wf demo_apply_step, of _ L "[]" for L] by fastforce
qed

text \<open>Property C30. Leases of a checkpoint exclude each other and keep their distance: whatever happens after a claim, the next claim of the
  same checkpoint that succeeds has a larger attempt number, comes at least the probe interval after the first, and at
  its time the first lease is no longer valid.\<close>

theorem reconciliation_leases_exclusive:
  assumes "recon_wf s" "claim_checkpoint s args i skipped fresh now lease_now = Inr (s1, Some l)"
    and "t = try_steps (recon_step L) s1 ops" "claim_checkpoint t args' i skipped' fresh' now' lease_now' = Inr (u, Some l')"
  shows "rl_attempt l < rl_attempt l' \<and> lease_now + timedelta_us (ca_probe_interval args) \<le> now' \<and>
    (\<exists>cp. row_by cp_id i (rs_checkpoints t) = Some cp \<and> \<not> lease_matches cp l now')"
proof -
  from claim_effect [OF assms(1,2)] assms(1) obtain cp0 a where wf: "recon_wf s1" and "issued s args i lease_now cp0 a l s1"
    by (auto simp: keeps_def)
  then obtain cp1 where cp1: "row_by cp_id i (rs_checkpoints s1) = Some cp1" "cp_lease_attempt cp1 = rl_attempt l"
      "lease_now + timedelta_us (ca_probe_interval args) \<le> cp_next_run_at cp1"
    by (auto simp: issued_def)
  obtain cp where cp: "row_by cp_id i (rs_checkpoints t) = Some cp" "checkpoint_le cp1 cp"
    unfolding assms(3) by (rule recon_le_checkpoint [OF history_keeps(2) [OF wf] cp1(1)])
  have "recon_wf t"
    using history_keeps(1) [OF wf] assms(3) by simp
  from claim_effect [OF this assms(4)] cp(1) have free: "claimable_at cp now'" and "rl_attempt l' = cp_lease_attempt cp + 1"
    by (auto simp: issued_def)
  moreover have "\<not> lease_matches cp l now'"
    using free by (auto simp: claimable_at_def lease_matches_def split: option.splits)
  ultimately show ?thesis
    using cp cp1 by (auto simp: claimable_at_def checkpoint_le_def)
qed

definition demo_second :: "int \<Rightarrow> recon_error + (recon_store \<times> ReconciliationLease option)" where
  "demo_second now = claim_checkpoint demo_claimed demo_claim ''c1'' False ''h'' now now"

lemma demo_second_claim: "\<exists>u l'. demo_second 40000000 = Inr (u, Some l') \<and> rl_attempt l' = 2"
  by (simp add: demo_second_def claim_checkpoint_def demo_claimed_def demo_recon_def demo_claim_def demo_dir_store_def demo_account_def
      demo_link_def new_checkpoint_def claimable_at_def reconcilable_def start_cycle_def due_target_def claim_due_def target_usable_def
      belongs_to_account_def has_account_alias_def has_active_membership_def new_target_def issue_lease_def
      advance_checkpoint_next_run_def us_def timedelta_us_def context_of_def provider_context_def lease_ok_def refence_target_def Let_def)

theorem reconciliation_leases_exclusive_witness:
  "\<exists>u l'. demo_second 40000000 = Inr (u, Some l') \<and> rl_attempt demo_lease < rl_attempt l' \<and>
     10 + timedelta_us (ca_probe_interval demo_claim) \<le> 40000000"
proof -
  obtain u l' where second: "demo_second 40000000 = Inr (u, Some l')"
    using demo_second_claim by blast
  with reconciliation_leases_exclusive [OF demo_recon_wf demo_claim_step, of _ L "[]" for L] show ?thesis
    unfolding demo_second_def by fastforce
qed

text \<open>Property C31. An observation does not outlive a directory event: when a directory event has raised the revision of the lease's account
  after the claim, then after any further history the application of the lease is rejected at the fence and changes no
  account, no identity and no receipt.\<close>

theorem directory_event_fences_lease:
  assumes "recon_wf s" "claim_checkpoint s args i skipped fresh now lease_now = Inr (s1, Some l)"
    and "t = try_steps (recon_step L) s1 ops" "process L (rs_dir t) k = Inr (d, dres)"
    and "dr_context dres = Some ctx" "dr_revision_bumped dres" "pc_provider_account_id ctx = pc_provider_account_id (rl_context l)"
    and "t' = try_steps (recon_step L) (t\<lparr>rs_dir := d\<rparr>) ops'" "apply_lease t' l ob limits probe now' = Inr (u, res)"
  shows "ra_outcome res = AO_FENCE_REJECTED \<and> rs_dir u = rs_dir t'"
proof -
  let ?t = "t\<lparr>rs_dir := d\<rparr>"
  have wf1: "recon_wf s1"
    using claim_effect [OF assms(1,2)] assms(1) by (simp add: keeps_def)
  have wft: "recon_wf t" and le1: "recon_le s1 t"
    using history_keeps [OF wf1] assms(3) by auto
  have wf2: "recon_wf ?t" and le2: "recon_le t ?t"
    using directory_keeps [OF wft assms(4)] wft by (auto simp: keeps_def)
  have le3: "recon_le ?t t'" and wf3: "recon_wf t'"
    using history_keeps [OF wf2] assms(8) by auto
  obtain cp b where cp: "rl_checkpoint_id l = i" "row_by cp_id i (rs_checkpoints t) = Some cp"
      "cp_provider_account_id cp = pc_provider_account_id (rl_context l)"
    and b: "row_by ac_id (cp_provider_account_id cp) (ds_accounts (rs_dir t)) = Some b"
      "pc_provider_account_revision (rl_context l) \<le> ac_identity_revision b"
    by (rule lease_account_later [OF assms(1,2) le1])
  have "reports_account (rs_dir t) d dres"
    using process_reports [OF _ assms(4)] wft by (auto simp: recon_wf_def)
  then obtain b' where b': "row_by ac_id (cp_provider_account_id cp) (ds_accounts d) = Some b'"
      "ac_identity_revision b' = ac_identity_revision b + 1"
    using assms(5-7) b(1) cp(3) by (auto simp: reports_account_def split: option.splits)
  obtain c where c: "row_by ac_id (cp_provider_account_id cp) (ds_accounts (rs_dir t')) = Some c" "account_grows b' c"
    by (rule recon_le_account [OF le3, of _ b']) (use b' in auto)
  obtain cp' where cp': "row_by cp_id i (rs_checkpoints t') = Some cp'" "checkpoint_le cp cp'"
    by (rule recon_le_checkpoint [OF recon_le_trans [OF le2 le3] cp(2)])
  show ?thesis
    using apply_stale_account [OF wf3 _ _ _ assms(9)] cp cp' c b b'
    by (auto simp: checkpoint_le_def account_grows_def)
qed

definition demo_event_dir :: dir_store where
  "demo_event_dir = (rs_dir demo_recon)\<lparr>ds_identities := [demo_link\<lparr>ei_last_seen_at := Some 4, ei_state := LINK_REVOKED, ei_identity_revision := 2\<rparr>],
     ds_accounts := ds_accounts demo_deleted, ds_receipts := ds_receipts demo_deleted\<rparr>"

lemma demo_event_step:
  "process demo_dir_lib (rs_dir demo_claimed) (demo_deletion 6) =
     Inr (demo_event_dir, event_result APPLIED (current_context (hd (ds_accounts demo_deleted))) True None)"
proof -
  have "canonical_directory_event_hash demo_dir_lib c = ''h''" for c
    by (simp add: canonical_directory_event_hash_def demo_dir_lib_def)
  then show ?thesis
    by (simp add: process_def find_channel_id_def demo_claimed_def demo_recon_def demo_dir_store_def demo_deletion_def process_locked_def
        lock_authority_def account_links_def lock_binding_def authority_valid_def demo_account_def claim_receipt_def new_receipt_def
        receipt_key_of_def apply_event_def stale_scope_def lock_external_identity_def event_aliases_def event_user_id_def
        event_identities_def demo_link_def stale_for_def latest_identity_event_at_def List.map_filter_def tighten_identity_def
        tightened_state_def update_where_def conclude_event_def cas_bump_account_def finish_receipt_def put_row_def demo_deleted_def
        demo_event_dir_def current_context_def provider_context_def Let_def)
qed

theorem directory_event_fences_lease_witness:
  "\<exists>u res. apply_lease (demo_claimed\<lparr>rs_dir := demo_event_dir\<rparr>) demo_lease demo_inactive demo_limits 1 20 = Inr (u, res) \<and>
     ra_outcome res = AO_FENCE_REJECTED \<and> rs_dir u = demo_event_dir"
proof -
  let ?t = "demo_claimed\<lparr>rs_dir := demo_event_dir\<rparr>"
  obtain u res where u: "apply_lease ?t demo_lease demo_inactive demo_limits 1 20 = Inr (u, res)"
    by (simp add: demo_apply_defs demo_event_dir_def demo_deleted_def Let_def)
  have "ra_outcome res = AO_FENCE_REJECTED \<and> rs_dir u = rs_dir ?t"
  proof (rule directory_event_fences_lease [OF demo_recon_wf demo_claim_step, where ops = "[]" and ops' = "[]" and
      ctx = "current_context (hd (ds_accounts demo_deleted))"])
    show "process demo_dir_lib (rs_dir demo_claimed) (demo_deletion 6) =
        Inr (demo_event_dir, event_result APPLIED (current_context (hd (ds_accounts demo_deleted))) True None)"
      by (rule demo_event_step)
    show "apply_lease ?t demo_lease demo_inactive demo_limits 1 20 = Inr (u, res)"
      by (rule u)
  qed (simp_all add: event_result_def demo_lease_def context_of_def current_context_def provider_context_def demo_deleted_def demo_account_def)
  with u show ?thesis by auto
qed

text \<open>Property C32. Reconciliation changes the state of an identity only under its lease: the identity is the one leased, active and at the leased
  revision, the lease is valid at that time, the provider called it inactive or in conflict, or called it missing for the second
  time, at least the confirmation window after the last time; and it counts towards the cycle, whose count stays within
  the limit.\<close>

theorem reconciliation_tightens_with_cause:
  assumes "recon_wf s" "apply_lease s l ob limits probe now = Inr (s', res)"
    and "row_by ei_id i (ds_identities (rs_dir s)) = Some e" "row_by ei_id i (ds_identities (rs_dir s')) = Some f"
    and "ei_state f \<noteq> ei_state e"
  shows "i = rl_external_identity_id l \<and> identity_fence_matches e l \<and> ra_identity_changed res \<and> tightening_explained s l ob limits now s'"
  by (rule tightening_needs_lease [OF assms])

theorem reconciliation_tightens_with_cause_witness:
  "tightening_explained demo_claimed demo_lease demo_inactive demo_limits 20 demo_applied"
proof -
  have "row_by ei_id ''e'' (ds_identities (rs_dir demo_claimed)) = Some (demo_link\<lparr>ei_last_seen_at := Some 4\<rparr>)"
    "row_by ei_id ''e'' (ds_identities (rs_dir demo_applied)) =
       Some (demo_link\<lparr>ei_last_seen_at := Some 4, ei_state := LINK_INACTIVE, ei_identity_revision := 2\<rparr>)"
    by (simp_all add: demo_claimed_def demo_applied_def demo_recon_def demo_link_def)
  from reconciliation_tightens_with_cause [OF demo_claimed_wf demo_apply_step this] show ?thesis
    by (simp add: demo_link_def)
qed


end
