(* ===== verification/Reconcile_Service.thy ===== *)
theory Reconcile_Service
  imports Reconcile_History
begin

text \<open>
  The service that reconciles one identity (\<open>src/api/identity/reconciliation/service.py\<close>): claim a lease, ask the
  provider within what is left of it, check the answer, apply it.

  The provider is an argument: a function from the context and the subject to what its call does. Durations in seconds
  and readings of the monotonic clock, floats in the code, are exact fractions here. Telemetry and the cancellation of
  the task are left out; whether the provider's cache is invalidated is part of the result. The only directory status
  is active, so it is not a field. While the provider is asked and between passes, transactions of others run. The loop that calls the service (\<open>runtime.py\<close>) is at the end.
\<close>

section \<open>Limits and answers\<close>

record IdentityReconciliationLimits =
  li_lease_seconds :: int
  li_probe_safety_margin :: rat
  li_probe_interval :: rat
  li_cycle_interval :: int
  li_active_window :: int
  li_backoff_initial :: int
  li_backoff_max :: int
  li_not_found_confirmation :: int
  li_degrade_after_failures :: int
  li_max_tighten_per_cycle :: int

definition recon_limits_ok :: "IdentityReconciliationLimits \<Rightarrow> bool" where
  "recon_limits_ok c \<longleftrightarrow>
     list_all (\<lambda>v. 0 < v) [li_lease_seconds c, li_cycle_interval c, li_active_window c, li_backoff_initial c, li_backoff_max c,
       li_not_found_confirmation c, li_degrade_after_failures c, li_max_tighten_per_cycle c] \<and>
     0 < li_probe_safety_margin c \<and> li_probe_safety_margin c < of_int (li_lease_seconds c) \<and>
     1 / 10 \<le> li_probe_interval c \<and> li_probe_interval c \<le> 60 \<and>
     li_backoff_initial c \<le> li_backoff_max c \<and> li_cycle_interval c \<le> li_not_found_confirmation c"

datatype ProviderIdentityStatus =
  PS_RESOLVED | PS_NOT_FOUND | PS_NOT_IN_SCOPE | PS_INACTIVE | PS_UNAVAILABLE | PS_INVALID | PS_CONFLICT

datatype ProviderErrorCode =
    PC_ASSERTION_INVALID | PC_PROVIDER_MISMATCH | PC_TENANT_MISMATCH | PC_NOT_IN_SCOPE | PC_NOT_FOUND | PC_INACTIVE
  | PC_PROVIDER_UNAVAILABLE | PC_LINK_CONFLICT | PC_CREDENTIAL_UNAVAILABLE

primrec provider_code :: "ProviderErrorCode \<Rightarrow> string" where
  "provider_code PC_ASSERTION_INVALID = ''IDENTITY_ASSERTION_INVALID''"
| "provider_code PC_PROVIDER_MISMATCH = ''IDENTITY_PROVIDER_MISMATCH''"
| "provider_code PC_TENANT_MISMATCH = ''IDENTITY_TENANT_MISMATCH''"
| "provider_code PC_NOT_IN_SCOPE = ''IDENTITY_NOT_IN_SCOPE''"
| "provider_code PC_NOT_FOUND = ''IDENTITY_NOT_FOUND''"
| "provider_code PC_INACTIVE = ''IDENTITY_INACTIVE''"
| "provider_code PC_PROVIDER_UNAVAILABLE = ''IDENTITY_PROVIDER_UNAVAILABLE''"
| "provider_code PC_LINK_CONFLICT = ''IDENTITY_LINK_CONFLICT''"
| "provider_code PC_CREDENTIAL_UNAVAILABLE = ''IDENTITY_PROVIDER_CREDENTIAL_UNAVAILABLE''"

declare provider_code.simps [simp del]

record ProviderIdentity =
  pi_provider :: string
  pi_provider_tenant_key :: string
  pi_provider_account_id :: string
  pi_provider_user_id :: string
  pi_verified_at :: datetime

record ProviderIdentityResult =
  pr_status :: ProviderIdentityStatus
  pr_identity :: "ProviderIdentity option"
  pr_error_code :: "ProviderErrorCode option"
  pr_retryable :: bool
  pr_from_cache :: bool

datatype probe_outcome = Probe_Answer ProviderIdentityResult | Probe_Other \<comment> \<open>some other object\<close> | Probe_Raised | Probe_Timeout

definition invalid_observation :: "datetime \<Rightarrow> ReconciliationObservation" where
  "invalid_observation t = \<lparr>ob_status = RP_INVALID, ob_observed_at = t, ob_verified_at = None,
     ob_safe_error_code = Some (recon_code RE_PROVIDER_RESULT_INVALID)\<rparr>"

definition unavailable_observation :: "datetime \<Rightarrow> ReconciliationObservation" where
  "unavailable_observation t = \<lparr>ob_status = RP_UNAVAILABLE, ob_observed_at = t, ob_verified_at = None,
     ob_safe_error_code = Some (provider_code PC_PROVIDER_UNAVAILABLE)\<rparr>"

definition valid_resolved_identity :: "ProviderIdentity option \<Rightarrow> ReconciliationLease \<Rightarrow> datetime \<Rightarrow> bool" where
  "valid_resolved_identity ident l observed_at \<longleftrightarrow>
     (case ident of None \<Rightarrow> False
      | Some p \<Rightarrow> pi_provider p = pc_provider (rl_context l) \<and> pi_provider_tenant_key p = pc_provider_tenant_key (rl_context l) \<and>
          pi_provider_account_id p = pc_provider_account_id (rl_context l) \<and> pi_provider_user_id p = rl_subject_value l \<and>
          aware (pi_verified_at p) \<and> instant (pi_verified_at p) \<le> instant observed_at)"

fun expected_errors :: "ProviderIdentityStatus \<Rightarrow> ProviderErrorCode list" where
  "expected_errors PS_INACTIVE = [PC_INACTIVE]"
| "expected_errors PS_NOT_FOUND = [PC_NOT_FOUND]"
| "expected_errors PS_NOT_IN_SCOPE = [PC_NOT_IN_SCOPE]"
| "expected_errors PS_UNAVAILABLE = [PC_PROVIDER_UNAVAILABLE, PC_CREDENTIAL_UNAVAILABLE]"
| "expected_errors PS_CONFLICT = [PC_LINK_CONFLICT]"
| "expected_errors PS_INVALID = [PC_ASSERTION_INVALID, PC_PROVIDER_MISMATCH, PC_TENANT_MISMATCH]"
| "expected_errors PS_RESOLVED = []"

fun provider_status_map :: "ProviderIdentityStatus \<Rightarrow> ReconciliationProviderStatus" where
  "provider_status_map PS_INACTIVE = RP_INACTIVE"
| "provider_status_map PS_NOT_FOUND = RP_NOT_FOUND"
| "provider_status_map PS_NOT_IN_SCOPE = RP_NOT_IN_SCOPE"
| "provider_status_map PS_UNAVAILABLE = RP_UNAVAILABLE"
| "provider_status_map PS_CONFLICT = RP_CONFLICT"
| "provider_status_map PS_INVALID = RP_INVALID"
| "provider_status_map PS_RESOLVED = RP_RESOLVED" \<comment> \<open>not looked up\<close>

definition validate_provider_result :: "ProviderIdentityResult \<Rightarrow> ReconciliationLease \<Rightarrow> datetime \<Rightarrow> ReconciliationObservation" where
  "validate_provider_result r l observed_at =
     (if pr_from_cache r then invalid_observation observed_at
      else if pr_status r = PS_RESOLVED then
        if pr_error_code r \<noteq> None \<or> pr_retryable r \<or> \<not> valid_resolved_identity (pr_identity r) l observed_at
        then invalid_observation observed_at
        else \<lparr>ob_status = RP_RESOLVED, ob_observed_at = observed_at, ob_verified_at = map_option pi_verified_at (pr_identity r),
              ob_safe_error_code = None\<rparr>
      else if pr_identity r \<noteq> None then invalid_observation observed_at
      else case pr_error_code r of
          None \<Rightarrow> invalid_observation observed_at
        | Some code \<Rightarrow>
            if code \<notin> set (expected_errors (pr_status r)) then invalid_observation observed_at
            else if pr_status r \<noteq> PS_UNAVAILABLE \<and> pr_retryable r then invalid_observation observed_at
            else
              let status = provider_status_map (pr_status r) in
              \<lparr>ob_status = status, ob_observed_at = observed_at, ob_verified_at = None,
               ob_safe_error_code = (if status \<in> {RP_UNAVAILABLE, RP_INVALID} then Some (provider_code code) else None)\<rparr>)"

definition probe_budget :: "IdentityReconciliationLimits \<Rightarrow> ReconciliationLease \<Rightarrow> int \<Rightarrow> rat" where
  "probe_budget c l started_at =
     min (of_int (rl_lease_until l - started_at) / 1000000) (of_int (li_lease_seconds c)) - li_probe_safety_margin c"

primrec outcome_observation :: "ReconciliationLease \<Rightarrow> datetime \<Rightarrow> probe_outcome \<Rightarrow> ReconciliationObservation" where
  "outcome_observation l ended_at Probe_Timeout = unavailable_observation ended_at"
| "outcome_observation l ended_at Probe_Raised = unavailable_observation ended_at"
| "outcome_observation l ended_at Probe_Other = invalid_observation ended_at"
| "outcome_observation l ended_at (Probe_Answer r) = validate_provider_result r l ended_at"

record provider_adapter =
  pa_reconcile :: "ProviderContext \<Rightarrow> string \<Rightarrow> probe_outcome"
  pa_invalidatable :: bool

definition aware_now :: "datetime \<Rightarrow> recon_error + datetime" where
  "aware_now t = (if aware t then Inr t else Inl RX_VALUE)"

definition observe ::
  "IdentityReconciliationLimits \<Rightarrow> provider_adapter option \<Rightarrow> ReconciliationLease \<Rightarrow> datetime \<Rightarrow> datetime
     \<Rightarrow> recon_error + ReconciliationObservation" where
  \<comment> \<open>the clock is read when the probe starts and, when there is one, after it\<close>
  "observe c provider l clock1 clock2 =
     bindE (aware_now clock1) (\<lambda>started_at.
     case provider of
       None \<Rightarrow> Inr (invalid_observation started_at)
     | Some p \<Rightarrow>
         if probe_budget c l (instant started_at) \<le> 0 then Inr (unavailable_observation started_at)
         else bindE (aware_now clock2) (\<lambda>ended_at.
           Inr (outcome_observation l ended_at (pa_reconcile p (rl_context l) (rl_subject_value l)))))"

definition backoff_seconds :: "IdentityReconciliationLimits \<Rightarrow> int \<Rightarrow> int" where
  "backoff_seconds c consecutive_failures =
     min (li_backoff_initial c * 2 ^ nat (min (max consecutive_failures 0) 62)) (li_backoff_max c)"

definition valid_apply_result :: "ReconciliationApplyResult \<Rightarrow> bool" where
  "valid_apply_result r \<longleftrightarrow> 1 \<le> ra_account_revision r \<and> (case ra_safe_error_code r of None \<Rightarrow> True | Some code \<Rightarrow> safe_code code)"

section \<open>One reconciliation\<close>

datatype ReconciliationRunStatus = RS_IDLE | RS_COMPLETED | RS_REPOSITORY_UNAVAILABLE

record ReconciliationRunResult =
  rr_status :: ReconciliationRunStatus
  rr_provider_status :: "ReconciliationProviderStatus option"
  rr_apply_outcome :: "ReconciliationApplyOutcome option"
  rr_safe_error_code :: "string option"
  rr_invalidates :: bool \<comment> \<open>the provider's cache is invalidated\<close>

record round_world =
  rw_claimed_at :: datetime
  rw_listed_at :: int \<comment> \<open>the database clock when candidates are listed\<close>
  rw_visits :: "string \<Rightarrow> visit"
  rw_registry :: "string \<Rightarrow> provider_adapter option" \<comment> \<open>an adapter that can reconcile\<close>
  rw_started_at :: datetime
  rw_ended_at :: datetime
  rw_others :: "recon_op list" \<comment> \<open>transactions of other workers and events while the provider is asked\<close>
  rw_applied_at :: int

definition claim_of :: "IdentityReconciliationLimits \<Rightarrow> string \<Rightarrow> datetime \<Rightarrow> claim_args" where
  "claim_of c owner claimed_at = \<lparr>ca_owner = owner, ca_lease_seconds = li_lease_seconds c, ca_probe_interval = li_probe_interval c,
     ca_active_since = instant claimed_at - us (li_active_window c), ca_cycle_interval = li_cycle_interval c\<rparr>"

definition apply_of :: "IdentityReconciliationLimits \<Rightarrow> ReconciliationLease \<Rightarrow> apply_limits" where
  "apply_of c l = \<lparr>al_unavailable_delay = backoff_seconds c (rl_consecutive_failures l),
     al_not_found_confirmation = li_not_found_confirmation c, al_cycle_interval = li_cycle_interval c,
     al_degrade_after_failures = li_degrade_after_failures c, al_max_tighten_per_cycle = li_max_tighten_per_cycle c\<rparr>"

definition run_result :: "ReconciliationRunStatus \<Rightarrow> ReconciliationProviderStatus option \<Rightarrow> string option \<Rightarrow> ReconciliationRunResult" where
  "run_result st provider code =
     \<lparr>rr_status = st, rr_provider_status = provider, rr_apply_outcome = None, rr_safe_error_code = code, rr_invalidates = False\<rparr>"

definition provider_of :: "round_world \<Rightarrow> ReconciliationLease \<Rightarrow> provider_adapter option" where
  "provider_of w l = rw_registry w (pc_provider (rl_context l))"

definition invalidates_after_change ::
  "provider_adapter option \<Rightarrow> ReconciliationLease \<Rightarrow> ReconciliationApplyResult \<Rightarrow> bool" where
  "invalidates_after_change provider l r \<longleftrightarrow>
     (ra_identity_changed r \<or> ra_account_revision r \<noteq> pc_provider_account_revision (rl_context l)) \<and>
     (case provider of None \<Rightarrow> False | Some p \<Rightarrow> pa_invalidatable p)"

definition apply_round ::
  "IdentityReconciliationLimits \<Rightarrow> recon_store \<Rightarrow> round_world \<Rightarrow> ReconciliationLease \<Rightarrow> ReconciliationObservation
     \<Rightarrow> recon_store \<times> (recon_error + ReconciliationRunResult)" where
  "apply_round c s w l ob =
     (case apply_lease s l ob (apply_of c l) (li_probe_interval c) (rw_applied_at w) of
        Inl RX_VALUE \<Rightarrow> (s, Inl RX_VALUE)
      | Inl (RX_REPOSITORY e) \<Rightarrow> (s, Inr (run_result RS_REPOSITORY_UNAVAILABLE (Some (ob_status ob)) (Some (recon_code e))))
      | Inr (s', r) \<Rightarrow>
          (s', Inr (if \<not> valid_apply_result r
             then run_result RS_REPOSITORY_UNAVAILABLE (Some (ob_status ob)) (Some (recon_code RE_REPOSITORY_UNAVAILABLE))
             else \<lparr>rr_status = RS_COMPLETED, rr_provider_status = Some (ob_status ob), rr_apply_outcome = Some (ra_outcome r),
                   rr_safe_error_code = ra_safe_error_code r, rr_invalidates = invalidates_after_change (provider_of w l) l r\<rparr>)))"

definition finish_round ::
  "dir_lib \<Rightarrow> IdentityReconciliationLimits \<Rightarrow> recon_store \<Rightarrow> round_world \<Rightarrow> ReconciliationLease \<Rightarrow> recon_store \<times> (recon_error + ReconciliationRunResult)" where
  "finish_round L c s w l =
     (let s1 = try_steps (recon_step L) s (rw_others w) in
      case observe c (provider_of w l) l (rw_started_at w) (rw_ended_at w) of
        Inl e \<Rightarrow> (s1, Inl e)
      | Inr ob \<Rightarrow> apply_round c s1 w l ob)"

definition reconcile_one ::
  "dir_lib \<Rightarrow> IdentityReconciliationLimits \<Rightarrow> string \<Rightarrow> recon_store \<Rightarrow> round_world \<Rightarrow> recon_store \<times> (recon_error + ReconciliationRunResult)" where
  "reconcile_one L c owner s w =
     (if blank owner \<or> py_len owner > 64 \<or> \<not> aware (rw_claimed_at w) then (s, Inl RX_VALUE)
      else case claim_next s (claim_of c owner (rw_claimed_at w)) (rw_listed_at w) (rw_visits w) of
          (s', Inl RX_VALUE) \<Rightarrow> (s', Inl RX_VALUE)
        | (s', Inl (RX_REPOSITORY e)) \<Rightarrow> (s', Inr (run_result RS_REPOSITORY_UNAVAILABLE None (Some (recon_code e))))
        | (s', Inr None) \<Rightarrow> (s', Inr (run_result RS_IDLE None None))
        | (s', Inr (Some l)) \<Rightarrow> finish_round L c s' w l)"

section \<open>The worker's loop\<close>

datatype ReconciliationSeedStatus = SS_SEEDED | SS_REPOSITORY_UNAVAILABLE

record ReconciliationSeedResult =
  sr_status :: ReconciliationSeedStatus
  sr_checkpoint_count :: int
  sr_safe_error_code :: "string option"

definition seed_service :: "recon_store \<Rightarrow> datetime \<Rightarrow> (nat \<Rightarrow> string) \<Rightarrow> recon_error + (recon_store \<times> ReconciliationSeedResult)" where
  "seed_service s clock fresh =
     bindE (aware_now clock) (\<lambda>due_at.
     case seed_checkpoints s due_at fresh of
       Inl RX_VALUE \<Rightarrow> Inl RX_VALUE
     | Inl (RX_REPOSITORY e) \<Rightarrow>
         Inr (s, \<lparr>sr_status = SS_REPOSITORY_UNAVAILABLE, sr_checkpoint_count = 0, sr_safe_error_code = Some (recon_code e)\<rparr>)
     | Inr (s', n) \<Rightarrow>
         Inr (s', if n < 0
           then \<lparr>sr_status = SS_REPOSITORY_UNAVAILABLE, sr_checkpoint_count = 0,
                 sr_safe_error_code = Some (recon_code RE_REPOSITORY_UNAVAILABLE)\<rparr>
           else \<lparr>sr_status = SS_SEEDED, sr_checkpoint_count = n, sr_safe_error_code = None\<rparr>))"

text \<open>What one pass sees of the world; \<open>wt_stop\<close>: the stop event is set before it.\<close>

record worker_tick =
  wt_stop :: bool
  wt_others :: "recon_op list" \<comment> \<open>transactions of others before the pass\<close>
  wt_monotonic :: rat
  wt_due_at :: datetime
  wt_fresh :: "nat \<Rightarrow> string"
  wt_world :: round_world

definition worker_pass ::
  "dir_lib \<Rightarrow> IdentityReconciliationLimits \<Rightarrow> rat \<Rightarrow> string \<Rightarrow> recon_store \<times> rat \<Rightarrow> worker_tick \<Rightarrow> recon_store \<times> rat" where
  \<comment> \<open>the store and when to seed next; an exception ends the pass only\<close>
  "worker_pass L c seed_interval owner st t =
     (let (s0, next_seed_at) = st; s = try_steps (recon_step L) s0 (wt_others t) in
      if next_seed_at \<le> wt_monotonic t then
        case seed_service s (wt_due_at t) (wt_fresh t) of
          Inl _ \<Rightarrow> (s, next_seed_at)
        | Inr (s1, _) \<Rightarrow> (fst (reconcile_one L c owner s1 (wt_world t)), wt_monotonic t + seed_interval)
      else (fst (reconcile_one L c owner s (wt_world t)), next_seed_at))"

primrec worker_loop ::
  "dir_lib \<Rightarrow> IdentityReconciliationLimits \<Rightarrow> rat \<Rightarrow> string \<Rightarrow> recon_store \<times> rat \<Rightarrow> worker_tick list \<Rightarrow> recon_store \<times> rat" where
  "worker_loop L c seed_interval owner st [] = st"
| "worker_loop L c seed_interval owner st (t # ts) =
     (if wt_stop t then st else worker_loop L c seed_interval owner (worker_pass L c seed_interval owner st t) ts)"

definition worker_run ::
  "dir_lib \<Rightarrow> IdentityReconciliationLimits \<Rightarrow> rat \<Rightarrow> bool \<Rightarrow> string \<Rightarrow> recon_store \<Rightarrow> worker_tick list \<Rightarrow> recon_store" where
  "worker_run L c seed_interval enabled owner s ticks =
     (if \<not> enabled then s else fst (worker_loop L c seed_interval owner (s, 0) ticks))"

section \<open>What a probe yields\<close>

lemma safe_codes: "safe_code (recon_code e)" "safe_code (provider_code k)"
  by (cases e; simp add: recon_code.simps safe_code_def safe_code_char_def)
    (cases k; simp add: provider_code.simps safe_code_def safe_code_char_def)

lemma fixed_observations_ok:
  "aware t \<Longrightarrow> observation_ok (invalid_observation t)" "aware t \<Longrightarrow> observation_ok (unavailable_observation t)"
  by (simp_all add: observation_ok_def invalid_observation_def unavailable_observation_def safe_codes)

lemma status_map_resolved: "st \<noteq> PS_RESOLVED \<Longrightarrow> provider_status_map st \<noteq> RP_RESOLVED"
  by (cases st) auto

lemma validated_ok: "aware t \<Longrightarrow> observation_ok (validate_provider_result r l t)"
  using status_map_resolved [of "pr_status r"]
  by (auto simp: validate_provider_result_def fixed_observations_ok Let_def valid_resolved_identity_def split: option.splits)
    (auto simp: observation_ok_def safe_codes valid_resolved_identity_def)

lemma outcome_ok: "aware t \<Longrightarrow> observation_ok (outcome_observation l t out)"
  by (cases out) (simp_all add: fixed_observations_ok validated_ok)

lemma observe_ok: "observe c p l t1 t2 = Inr ob \<Longrightarrow> observation_ok ob"
  by (cases p) (auto simp: observe_def aware_now_def result_simps fixed_observations_ok outcome_ok split: if_splits)

lemma observe_total: "aware t1 \<Longrightarrow> aware t2 \<Longrightarrow> \<exists>ob. observe c p l t1 t2 = Inr ob"
  by (cases p) (simp_all add: observe_def aware_now_def)

lemma backoff_bounds:
  assumes "recon_limits_ok c"
  shows "0 < backoff_seconds c n" "li_backoff_initial c \<le> backoff_seconds c n" "backoff_seconds c n \<le> li_backoff_max c"
proof -
  have pos: "0 < li_backoff_initial c" "li_backoff_initial c \<le> li_backoff_max c"
    using assms by (auto simp: recon_limits_ok_def)
  have "1 \<le> (2::int) ^ nat (min (max n 0) 62)" by simp
  then have "li_backoff_initial c \<le> li_backoff_initial c * 2 ^ nat (min (max n 0) 62)"
    using pos(1) mult_left_mono [of 1 "(2::int) ^ nat (min (max n 0) 62)" "li_backoff_initial c"] by simp
  with pos show "0 < backoff_seconds c n" "li_backoff_initial c \<le> backoff_seconds c n" "backoff_seconds c n \<le> li_backoff_max c"
    by (auto simp: backoff_seconds_def)
qed

lemma apply_of_ok: "recon_limits_ok c \<Longrightarrow> apply_args_ok (apply_of c l) (li_probe_interval c)"
  using backoff_bounds(1) [of c "rl_consecutive_failures l"] by (simp add: recon_limits_ok_def apply_args_ok_def apply_of_def)

section \<open>Rounds as histories\<close>

fun proper_op :: "IdentityReconciliationLimits \<Rightarrow> string \<Rightarrow> recon_op \<Rightarrow> bool" where
  \<comment> \<open>what a worker may ask of the repository\<close>
  "proper_op c owner (Op_Seed due fresh) \<longleftrightarrow> aware due"
| "proper_op c owner (Op_Claim args i v) \<longleftrightarrow> claim_args_ok args \<and> ca_owner args = owner \<and> ca_lease_seconds args = li_lease_seconds c"
| "proper_op c owner (Op_Apply l ob limits probe now) \<longleftrightarrow>
     lease_ok l \<and> rl_owner l = owner \<and> observation_ok ob \<and> limits = apply_of c l \<and> apply_args_ok limits probe"
| "proper_op c owner (Op_Directory k) \<longleftrightarrow> False"

definition by_ops :: "dir_lib \<Rightarrow> (recon_op \<Rightarrow> bool) \<Rightarrow> recon_store \<Rightarrow> recon_store \<Rightarrow> bool" where
  "by_ops L P s t \<longleftrightarrow> (\<exists>ops. list_all P ops \<and> t = try_steps (recon_step L) s ops)"

lemma try_steps_append: "try_steps f s (as @ bs) = try_steps f (try_steps f s as) bs"
  by (simp add: try_steps_def)

lemma by_ops_refl [simp]: "by_ops L P s s"
  unfolding by_ops_def by (intro exI [of _ "[]"]) simp

lemma by_ops_trans [trans]: "by_ops L P s t \<Longrightarrow> by_ops L P t u \<Longrightarrow> by_ops L P s u"
  unfolding by_ops_def by (metis list_all_append try_steps_append)

lemma by_ops_mono: "by_ops L P s t \<Longrightarrow> (\<And>op. P op \<Longrightarrow> Q op) \<Longrightarrow> by_ops L Q s t"
  unfolding by_ops_def by (metis list.pred_mono_strong)

lemma by_ops_step: "recon_step L s op = Inr t \<Longrightarrow> P op \<Longrightarrow> by_ops L P s t"
  unfolding by_ops_def by (intro exI [of _ "[op]"]) (simp add: try_step_def)

lemma by_ops_others: "by_ops L (\<lambda>op. op \<in> set ops) s (try_steps (recon_step L) s ops)"
  unfolding by_ops_def by (intro exI [of _ ops]) (simp add: list_all_iff)

lemma by_ops_wf: "recon_wf s \<Longrightarrow> by_ops L P s t \<Longrightarrow> recon_wf t"
  unfolding by_ops_def using history_keeps(1) by blast

lemma claim_loop_by_ops:
  assumes "recon_wf s" "claim_loop args visits s ids = (s', r)" "claim_args_ok args" "ca_lease_seconds args = li_lease_seconds c"
  shows "by_ops L (proper_op c (ca_owner args)) s s' \<and> (\<forall>l. r = Inr (Some l) \<longrightarrow> lease_ok l \<and> rl_owner l = ca_owner args)"
  using assms(1,2)
proof (induction ids arbitrary: s)
  case (Cons i ids)
  let ?claim = "claim_checkpoint s args i (vi_skipped (visits i)) (vi_fresh (visits i)) (vi_now (visits i)) (vi_lease_now (visits i))"
  show ?case
  proof (cases ?claim)
    case (Inr out)
    then obtain s1 lo where claim: "?claim = Inr (s1, lo)" by (cases out) simp
    have step: "by_ops L (proper_op c (ca_owner args)) s s1"
      by (rule by_ops_step [where op = "Op_Claim args i (visits i)"]) (use claim assms(3,4) in simp_all)
    have wf: "recon_wf s1" by (rule by_ops_wf [OF Cons.prems(1) step])
    show ?thesis
    proof (cases lo)
      case None
      with Cons.prems claim have "claim_loop args visits s1 ids = (s', r)" by simp
      from Cons.IH [OF wf this] step show ?thesis by (blast intro: by_ops_trans)
    next
      case (Some l)
      with claim_effect [OF Cons.prems(1) claim] Cons.prems(2) claim step show ?thesis by (auto simp: issued_def)
    qed
  qed (use Cons.prems in auto)
qed auto

lemma apply_round_by_ops:
  assumes "recon_limits_ok c" "lease_ok l" "rl_owner l = owner" "observation_ok ob" "apply_round c s w l ob = (s', r)"
  shows "by_ops L (proper_op c owner) s s'"
proof (cases "apply_lease s l ob (apply_of c l) (li_probe_interval c) (rw_applied_at w)")
  case (Inl e)
  with assms show ?thesis by (cases e) (simp_all add: apply_round_def)
next
  case (Inr out)
  then obtain s1 res where "apply_lease s l ob (apply_of c l) (li_probe_interval c) (rw_applied_at w) = Inr (s1, res)"
    by (cases out) simp
  with assms apply_of_ok [OF assms(1)] show ?thesis
    by (intro by_ops_step [where op = "Op_Apply l ob (apply_of c l) (li_probe_interval c) (rw_applied_at w)"])
      (simp_all add: apply_round_def)
qed

abbreviation own_or :: "IdentityReconciliationLimits \<Rightarrow> string \<Rightarrow> recon_op list \<Rightarrow> recon_op \<Rightarrow> bool" where
  "own_or c owner others op \<equiv> proper_op c owner op \<or> op \<in> set others"

lemma finish_round_by_ops:
  assumes "recon_limits_ok c" "lease_ok l" "rl_owner l = owner" "finish_round L c s w l = (s', r)"
  shows "by_ops L (own_or c owner (rw_others w)) s s'"
proof -
  let ?t = "try_steps (recon_step L) s (rw_others w)"
  have others: "by_ops L (own_or c owner (rw_others w)) s ?t"
    by (rule by_ops_mono [OF by_ops_others]) simp
  show ?thesis
  proof (cases "observe c (provider_of w l) l (rw_started_at w) (rw_ended_at w)")
    case (Inr ob)
    with assms(4) have "apply_round c ?t w l ob = (s', r)" by (simp add: finish_round_def)
    from apply_round_by_ops [OF assms(1-3) observe_ok [OF Inr] this] have "by_ops L (own_or c owner (rw_others w)) ?t s'"
      by (rule by_ops_mono) simp
    with others show ?thesis by (rule by_ops_trans)
  qed (use others assms(4) in \<open>simp add: finish_round_def\<close>)
qed

lemma claim_next_by_ops:
  assumes "recon_wf s" "claim_next s (claim_of c owner t) now visits = (s', r)"
  shows "by_ops L (proper_op c owner) s s' \<and> (\<forall>l. r = Inr (Some l) \<longrightarrow> lease_ok l \<and> rl_owner l = owner)"
  using claim_loop_by_ops [OF assms(1), of "claim_of c owner t" visits "candidate_checkpoint_ids s now" s' r c L] assms(2)
  by (auto simp: claim_next_def claim_of_def split: if_splits)

lemma reconcile_one_by_ops:
  assumes "recon_limits_ok c" "recon_wf s" "reconcile_one L c owner s w = (s', r)"
  shows "by_ops L (own_or c owner (rw_others w)) s s'"
proof (cases "blank owner \<or> py_len owner > 64 \<or> \<not> aware (rw_claimed_at w)")
  case False
  obtain s1 claim where claim: "claim_next s (claim_of c owner (rw_claimed_at w)) (rw_listed_at w) (rw_visits w) = (s1, claim)"
    by fastforce
  from claim_next_by_ops [OF assms(2) this, of L] have one: "by_ops L (own_or c owner (rw_others w)) s s1"
    and lease: "\<And>l. claim = Inr (Some l) \<Longrightarrow> lease_ok l \<and> rl_owner l = owner"
    by (blast intro: by_ops_mono)+
  have "s' = s1 \<or> (\<exists>l. claim = Inr (Some l) \<and> finish_round L c s1 w l = (s', r))"
    using assms(3) False claim by (auto simp: reconcile_one_def split: sum.splits option.splits recon_error.splits)
  with one lease finish_round_by_ops [OF assms(1)] show ?thesis by (blast intro: by_ops_trans)
qed (use assms(3) in \<open>simp add: reconcile_one_def\<close>)

definition tick_others :: "worker_tick \<Rightarrow> recon_op list" where
  "tick_others t = wt_others t @ rw_others (wt_world t)"

lemma seed_service_by_ops:
  assumes "seed_service s due fresh = Inr (s', res)"
  shows "by_ops L (proper_op c owner) s s'"
proof (cases "seed_checkpoints s due fresh")
  case (Inl e)
  with assms show ?thesis by (cases e) (auto simp: seed_service_def aware_now_def result_simps split: if_splits)
next
  case (Inr out)
  then obtain s1 n where "seed_checkpoints s due fresh = Inr (s1, n)" by (cases out) simp
  with assms show ?thesis
    by (intro by_ops_step [where op = "Op_Seed due fresh"])
      (auto simp: seed_service_def aware_now_def result_simps split: if_splits)
qed

lemma worker_pass_by_ops:
  assumes "recon_limits_ok c" "recon_wf s"
  shows "by_ops L (own_or c owner (tick_others t)) s (fst (worker_pass L c iv owner (s, n) t))"
proof -
  let ?P = "own_or c owner (tick_others t)"
  let ?s = "try_steps (recon_step L) s (wt_others t)"
  have pre: "by_ops L ?P s ?s"
    by (rule by_ops_mono [OF by_ops_others]) (simp add: tick_others_def)
  have round: "by_ops L ?P s1 (fst (reconcile_one L c owner s1 (wt_world t)))" if "recon_wf s1" for s1
    by (rule by_ops_mono [OF reconcile_one_by_ops [OF assms(1) that]])
      (auto simp: tick_others_def intro: prod.collapse [symmetric])
  have seed: "by_ops L ?P ?s s1" if "seed_service ?s (wt_due_at t) (wt_fresh t) = Inr (s1, res)" for s1 res
    by (rule by_ops_mono [OF seed_service_by_ops [OF that, of L c owner]]) simp
  have wf: "recon_wf ?s" by (rule by_ops_wf [OF assms(2) pre])
  have wf1: "recon_wf s1" if "seed_service ?s (wt_due_at t) (wt_fresh t) = Inr (s1, res)" for s1 res
    by (rule by_ops_wf [OF wf seed [OF that]])
  show ?thesis
    using by_ops_trans [OF pre round [OF wf]] by_ops_trans [OF pre by_ops_trans [OF seed round [OF wf1]]] pre
    by (auto simp: worker_pass_def Let_def split: sum.splits)
qed

lemma worker_loop_by_ops:
  assumes "recon_limits_ok c" "recon_wf s"
  shows "by_ops L (own_or c owner (concat (map tick_others ticks))) s (fst (worker_loop L c iv owner (s, n) ticks))"
  using assms(2)
proof (induction ticks arbitrary: s n)
  case (Cons t ticks)
  obtain s1 n1 where p: "worker_pass L c iv owner (s, n) t = (s1, n1)" by fastforce
  have one: "by_ops L (own_or c owner (tick_others t)) s s1"
    using worker_pass_by_ops [OF assms(1) Cons.prems, of L owner t iv n] by (simp add: p)
  have "by_ops L (own_or c owner (concat (map tick_others (t # ticks)))) s s1"
    by (rule by_ops_mono [OF one]) auto
  also have "by_ops L (own_or c owner (concat (map tick_others (t # ticks)))) s1 (fst (worker_loop L c iv owner (s1, n1) ticks))"
    by (rule by_ops_mono [OF Cons.IH [OF by_ops_wf [OF Cons.prems one]]]) auto
  finally show ?case by (auto simp: p)
qed simp

section \<open>What an application reports\<close>

text \<open>The revision is the account's, a change of the identity is reported, and a change of the account raises its revision.\<close>

definition account_moved :: "account_row \<Rightarrow> account_row \<Rightarrow> bool" where
  "account_moved a b \<longleftrightarrow> b = a \<or> ac_id b = ac_id a \<and> ac_identity_revision a < ac_identity_revision b"

definition reported :: "work \<Rightarrow> work \<Rightarrow> ReconciliationApplyResult \<Rightarrow> bool" where
  "reported w w' res \<longleftrightarrow> ra_account_revision res = ac_identity_revision (wk_account w') \<and>
     (ra_identity_changed res \<or> wk_identity w' = wk_identity w) \<and>
     account_moved (wk_account w) (wk_account w') \<and>
     (case ra_safe_error_code res of None \<Rightarrow> True | Some code \<Rightarrow> safe_code code)"

lemma set_health_moves [simp]:
  "account_moved a (set_account_health a h)" "account_moved a (set_account_health (set_account_health a h) k)"
  by (simp_all add: account_moved_def set_account_health_def)

lemma degrade_moves [simp]: "account_moved a (degrade_when b a)"
  by (simp add: degrade_when_def account_moved_def [of a a])

lemma finish_work_account [simp]: "wk_account (finish_work w now failed code) = wk_account w"
  by (simp add: finish_work_def finish_target_def)

lemma unavailable_reported: "safe_code code \<Longrightarrow> apply_unavailable w code now limits = (w', res) \<Longrightarrow> reported w w' res"
  by (auto simp: apply_unavailable_def Let_def record_failure_def apply_result_def reported_def)

lemma invalid_reported: "safe_code code \<Longrightarrow> apply_invalid w code now limits = (w', res) \<Longrightarrow> reported w w' res"
  by (auto simp: apply_invalid_def Let_def record_failure_def apply_result_def reported_def)

lemma await_reported: "await_confirmation w t now = (w', res) \<Longrightarrow> reported w w' res"
  by (auto simp: await_confirmation_def Let_def apply_result_def reported_def account_moved_def)

lemma circuit_reported: "open_circuit w now limits = (w', res) \<Longrightarrow> reported w w' res"
  by (auto simp: open_circuit_def Let_def apply_result_def reported_def complete_cycle_def safe_codes)

lemma settle_reported:
  assumes "settle w1 now changed failed code = (w', res)" "changed \<or> wk_identity w1 = wk_identity w"
    "account_moved (wk_account w) (wk_account w1)"
    "case code of None \<Rightarrow> True | Some v \<Rightarrow> safe_code v"
  shows "reported w w' res"
  using assms by (auto simp: settle_def Let_def apply_result_def reported_def)

lemma kept_by_answer [simp]:
  "wk_account (record_success w) = wk_account w" "wk_account (note_answer w t) = wk_account w" "wk_identity (note_answer w t) = wk_identity w"
  "wk_account (note_lookup w st t) = wk_account w" "wk_identity (note_lookup w st t) = wk_identity w"
  by (simp_all add: record_success_def note_answer_def note_lookup_def)

lemma resolved_reports: "apply_resolved w t = (w1, changed) \<Longrightarrow> (changed \<or> wk_identity w1 = wk_identity w) \<and> account_moved (wk_account w) (wk_account w1)"
  by (auto simp: apply_resolved_def Let_def account_moved_def)

lemma negative_reports: "apply_negative w t = (w1, changed) \<Longrightarrow> (changed \<or> wk_identity w1 = wk_identity w) \<and> account_moved (wk_account w) (wk_account w1)"
  by (auto simp: apply_negative_def tighten_to_def account_moved_def split: if_splits)

lemma conflict_reports:
  "account_moved (wk_account w) (wk_account (apply_conflict w n))"
  by (simp add: apply_conflict_def Let_def tighten_to_def)

lemma conflict_reported:
  assumes "settle (apply_conflict w n) now True True (Some (recon_code k)) = (w', res)"
  shows "reported w w' res"
  by (rule settle_reported [OF assms]) (simp_all add: conflict_reports safe_codes)

lemma settling_reported:
  assumes res: "apply_settling w ob now limits = Inr (w', res)"
  shows "reported w w' res"
proof (cases "(ob_status ob \<in> {RP_INACTIVE, RP_CONFLICT} \<or> ob_status ob = RP_NOT_FOUND \<and> negative_is_current (wk_identity w) now) \<and>
      al_max_tighten_per_cycle limits \<le> cp_tightened_count (wk_checkpoint w)")
  case True
  with res show ?thesis by (auto simp: apply_settling_def Let_def dest!: circuit_reported)
next
  case closed: False
  note rest = res [unfolded apply_settling_def Let_def if_not_P [OF closed]]
  show ?thesis
    using rest by (cases "ob_status ob")
      (auto split: option.splits prod.splits dest!: resolved_reports negative_reports conflict_reported
        intro: settle_reported simp: account_moved_def)
qed

lemma reported_from: "reported w1 w' res \<Longrightarrow> wk_account w1 = wk_account w \<Longrightarrow> wk_identity w1 = wk_identity w \<Longrightarrow> reported w w' res"
  by (simp add: reported_def)

lemma not_found_reported:
  assumes "apply_not_found w ob now limits = Inr (w', res)"
  shows "reported w w' res"
  using assms unfolding apply_not_found_def Let_def
  by (auto split: if_splits dest!: await_reported settling_reported elim!: reported_from)

lemma code_or_safe: "observation_ok ob \<Longrightarrow> safe_code (code_or (ob_safe_error_code ob) k)"
  by (auto simp: observation_ok_def code_or_def safe_codes split: option.splits)

lemma observation_reported:
  assumes "observation_ok ob" "apply_observation w ob now limits = Inr (w', res)"
  shows "reported w w' res"
  using assms(2) unfolding apply_observation_def Let_def
  by (cases "ob_status ob")
    (auto dest!: unavailable_reported [OF code_or_safe [OF assms(1)]] invalid_reported [OF code_or_safe [OF assms(1)]]
        not_found_reported settling_reported elim!: reported_from)

lemma settling_total:
  assumes "observation_ok ob"
  shows "\<exists>w' res. apply_settling w ob now limits = Inr (w', res)"
proof (cases "apply_settling w ob now limits")
  case (Inl e)
  with assms show ?thesis
    by (cases "ob_status ob") (auto simp: apply_settling_def observation_ok_def Let_def split: option.splits if_splits prod.splits)
qed auto

lemma observation_total:
  assumes "observation_ok ob"
  shows "\<exists>w' res. apply_observation w ob now limits = Inr (w', res)"
proof -
  have "\<exists>w' res. apply_not_found w1 ob now limits = Inr (w', res)" for w1
    using settling_total [OF assms] by (auto simp: apply_not_found_def Let_def)
  with settling_total [OF assms] show ?thesis
    by (cases "ob_status ob") (auto simp: apply_observation_def Let_def)
qed

lemma effective_ok: "observation_ok ob \<Longrightarrow> observation_ok (effective_observation ob now)"
  by (simp add: effective_observation_def observation_ok_def aware_def safe_codes)


definition apply_reports :: "recon_store \<Rightarrow> account_row \<Rightarrow> recon_store \<Rightarrow> ReconciliationApplyResult \<Rightarrow> bool" where
  "apply_reports s a s' res \<longleftrightarrow> valid_apply_result res \<and>
     (\<exists>b. row_by ac_id (ac_id a) (ds_accounts (rs_dir s')) = Some b \<and> ra_account_revision res = ac_identity_revision b \<and>
        (rs_dir s' = rs_dir s \<or> ra_identity_changed res \<or> ac_identity_revision a < ac_identity_revision b))"

lemma apply_reports_fence:
  assumes "recon_wf s" "row_by ac_id (ac_id a) (ds_accounts (rs_dir s)) = Some a" "rs_dir s' = rs_dir s"
  shows "apply_reports s a s' (fence_result (ac_identity_revision a))"
  using assms row_by_Some_mem [OF assms(2)]
  by (auto simp: apply_reports_def fence_result_def valid_apply_result_def safe_codes recon_wf_def)

lemma put_work_accounts: "ds_accounts (rs_dir (put_work w s)) = put_row ac_id (wk_account w) (ds_accounts (rs_dir s))"
  by (simp add: put_work_def put_account_def put_identity_def put_checkpoint_def put_target_def)

lemma put_work_dir:
  assumes "recon_wf s" "wk_account w \<in> set (ds_accounts (rs_dir s))" "wk_identity w \<in> set (ds_identities (rs_dir s))"
  shows "rs_dir (put_work w s) = rs_dir s"
  using assms
  by (simp add: put_work_def put_account_def put_identity_def put_checkpoint_def put_target_def put_row_same recon_wf_def dir_wf_def)

lemma apply_reports_work:
  assumes wf: "recon_wf s" and a: "row_by ac_id (ac_id a) (ds_accounts (rs_dir s)) = Some a"
    and w: "wk_account w = a" "wk_identity w \<in> set (ds_identities (rs_dir s))" and r: "reported w w' res"
  shows "apply_reports s a (put_work w' s) res"
proof -
  have moved: "account_moved a (wk_account w')" using r w(1) by (simp add: reported_def)
  then have id: "ac_id (wk_account w') = ac_id a" by (auto simp: account_moved_def)
  have row: "row_by ac_id (ac_id a) (ds_accounts (rs_dir (put_work w' s))) = Some (wk_account w')"
    unfolding put_work_accounts by (rule row_by_put_row_same [OF a id])
  have mem: "a \<in> set (ds_accounts (rs_dir s))" using row_by_Some_mem [OF a] by simp
  then have "1 \<le> ac_identity_revision a" using wf by (simp add: recon_wf_def)
  with moved r have "valid_apply_result res"
    by (auto simp: valid_apply_result_def reported_def account_moved_def)
  moreover have "rs_dir (put_work w' s) = rs_dir s \<or> ra_identity_changed res \<or> ac_identity_revision a < ac_identity_revision (wk_account w')"
    using put_work_dir [OF wf, of w'] mem w moved r by (auto simp: reported_def account_moved_def)
  ultimately show ?thesis
    using row r by (auto simp: apply_reports_def reported_def)
qed

lemma apply_fenced_reports:
  assumes wf: "recon_wf s" and a: "row_by ac_id (ac_id a) (ds_accounts (rs_dir s)) = Some a" and ob: "observation_ok ob"
  shows "\<exists>s' res. apply_fenced s a cp l ob limits now = Inr (s', res) \<and> apply_reports s a s' res"
proof (cases "find_identity s a (rl_external_identity_id l)")
  case None
  then show ?thesis
    by (auto simp: apply_fenced_def Let_def reject_fence_def intro!: apply_reports_fence [OF wf a] split: option.splits)
next
  case e: (Some e)
  show ?thesis
  proof (cases "find_target s cp (rl_target_id l)")
    case None
    with e show ?thesis
      by (auto simp: apply_fenced_def Let_def reject_fence_def intro!: apply_reports_fence [OF wf a])
  next
    case tg: (Some tg)
    let ?w = "\<lparr>wk_account = a, wk_checkpoint = cp, wk_target = tg, wk_identity = e\<rparr>"
    show ?thesis
    proof (cases "account_fence_matches a (rl_context l) \<and> target_fence_matches tg l \<and> identity_fence_matches e l")
      case True
      obtain w' res where w': "apply_observation ?w (effective_observation ob now) now limits = Inr (w', res)"
        using observation_total [OF effective_ok [OF ob]] by blast
      have "apply_reports s a (put_work w' s) res"
        using find_identity_row [OF wf e] row_by_Some_mem
        by (intro apply_reports_work [OF wf a _ _ observation_reported [OF effective_ok [OF ob] w']]) fastforce+
      with True e tg w' show ?thesis by (simp add: apply_fenced_def Let_def)
    next
      case False
      with e tg show ?thesis
        by (auto simp: apply_fenced_def Let_def reject_fence_def intro!: apply_reports_fence [OF wf a] split: prod.splits)
    qed
  qed
qed

lemma apply_lease_reports:
  assumes wf: "recon_wf s" and args: "apply_args_ok limits probe" and ob: "observation_ok ob"
    and cp: "row_by cp_id (rl_checkpoint_id l) (rs_checkpoints s) = Some cp" "cp_tenant_id cp \<in> set (rs_tenants s)"
    and a: "row_by ac_id (cp_provider_account_id cp) (ds_accounts (rs_dir s)) = Some a"
  shows "\<exists>s' res. apply_lease s l ob limits probe now = Inr (s', res) \<and> apply_reports s a s' res"
proof -
  have row: "row_by ac_id (ac_id a) (ds_accounts (rs_dir s)) = Some a" using a row_by_Some_mem [OF a] by simp
  let ?cp = "advance_checkpoint_next_run (now + timedelta_us probe) cp"
  consider "\<not> lease_matches cp l now" | "lease_matches cp l now" "cp_tenant_id cp \<in> set (ds_tenants (rs_dir s))"
    | "lease_matches cp l now" "cp_tenant_id cp \<notin> set (ds_tenants (rs_dir s))" by blast
  then show ?thesis
  proof cases
    case 1
    with args cp a show ?thesis
      by (auto simp: apply_lease_def intro!: apply_reports_fence [OF wf row])
  next
    case 2
    with args cp a apply_fenced_reports [OF wf row ob] show ?thesis by (simp add: apply_lease_def Let_def)
  next
    case 3
    obtain a1 cp2 where c: "complete_cycle a ?cp now (al_cycle_interval limits) None False = (a1, cp2)" by fastforce
    have "a1 = a" by (rule complete_cycle_account [OF c])
    moreover have "rs_dir (put_account a (put_checkpoint cp2 s)) = rs_dir s"
      using put_account_same [OF wf row] by (simp add: put_account_def put_checkpoint_def)
    ultimately show ?thesis
      using 3 args cp a c by (auto simp: apply_lease_def Let_def intro!: apply_reports_fence [OF wf row])
  qed
qed


lemma claimed_rows_later:
  assumes wf: "recon_wf s" and claim: "claim_checkpoint s args i skipped fresh now lease_now = Inr (s1, Some l)" and le: "recon_le s1 t"
  obtains cp a where "row_by cp_id (rl_checkpoint_id l) (rs_checkpoints t) = Some cp" "cp_tenant_id cp \<in> set (rs_tenants t)"
    "row_by ac_id (cp_provider_account_id cp) (ds_accounts (rs_dir t)) = Some a" "ac_id a = pc_provider_account_id (rl_context l)"
    "pc_provider_account_revision (rl_context l) \<le> ac_identity_revision a"
proof -
  obtain cp a where i: "rl_checkpoint_id l = i" and cp: "row_by cp_id i (rs_checkpoints t) = Some cp"
    "cp_provider_account_id cp = pc_provider_account_id (rl_context l)"
    and a: "row_by ac_id (cp_provider_account_id cp) (ds_accounts (rs_dir t)) = Some a"
    "pc_provider_account_revision (rl_context l) \<le> ac_identity_revision a"
    by (rule lease_account_later [OF wf claim le])
  have le': "recon_le s t"
    using claim_effect [OF wf claim] le by (auto simp: keeps_def intro: recon_le_trans)
  obtain cp0 where cp0: "row_by cp_id i (rs_checkpoints s) = Some cp0" "cp_tenant_id cp0 \<in> set (rs_tenants s)"
    using claim by (auto simp: claim_checkpoint_def split: option.splits if_splits)
  from recon_le_checkpoint [OF le' cp0(1)] cp(1) have "cp_tenant_id cp = cp_tenant_id cp0"
    by (auto simp: checkpoint_le_def)
  with le' cp0(2) have "cp_tenant_id cp \<in> set (rs_tenants t)" by (simp add: recon_le_def)
  with that i cp a row_by_Some_mem [OF a(1)] show thesis by auto
qed

definition provider_answered :: "IdentityReconciliationLimits \<Rightarrow> provider_adapter option \<Rightarrow> ReconciliationLease \<Rightarrow> datetime
    \<Rightarrow> ProviderIdentityResult \<Rightarrow> bool" where
  "provider_answered c p l clock r \<longleftrightarrow> 0 < probe_budget c l (instant clock) \<and>
     map_option (\<lambda>ad. pa_reconcile ad (rl_context l) (rl_subject_value l)) p = Some (Probe_Answer r) \<and>
     \<not> pr_from_cache r \<and> \<not> pr_retryable r"

definition answers_for :: "ProviderIdentityResult \<Rightarrow> ReconciliationLease \<Rightarrow> ReconciliationObservation \<Rightarrow> bool" where
  \<comment> \<open>an identity exactly when it is resolved, and then the identity of the lease; an error code of the status otherwise\<close>
  "answers_for r l ob \<longleftrightarrow> provider_status_map (pr_status r) = ob_status ob \<and>
     (case pr_identity r of
        None \<Rightarrow> ob_status ob \<noteq> RP_RESOLVED \<and> pr_error_code r \<in> Some ` set (expected_errors (pr_status r))
      | Some i \<Rightarrow> ob_status ob = RP_RESOLVED \<and> pr_error_code r = None \<and> pi_provider_user_id i = rl_subject_value l \<and>
          pi_provider_account_id i = pc_provider_account_id (rl_context l) \<and>
          pi_provider_tenant_key i = pc_provider_tenant_key (rl_context l) \<and> pi_provider i = pc_provider (rl_context l) \<and>
          ob_verified_at ob = Some (pi_verified_at i))"

lemma fixed_status [simp]:
  "ob_status (invalid_observation t) = RP_INVALID" "ob_status (unavailable_observation t) = RP_UNAVAILABLE"
  by (simp_all add: invalid_observation_def unavailable_observation_def)

lemma validated_answers:
  assumes "ob_status (validate_provider_result r l t) \<notin> {RP_UNAVAILABLE, RP_INVALID}"
  shows "\<not> pr_from_cache r \<and> \<not> pr_retryable r \<and> answers_for r l (validate_provider_result r l t)"
  using assms
  by (cases "pr_status r"; cases "pr_identity r"; cases "pr_error_code r"; cases "pr_from_cache r"; cases "pr_retryable r")
    (auto simp: validate_provider_result_def valid_resolved_identity_def answers_for_def split: if_splits)

lemma observed_answers:
  assumes "observe c p l t1 t2 = Inr ob" "ob_status ob \<notin> {RP_UNAVAILABLE, RP_INVALID}"
  obtains r where "provider_answered c p l t1 r" "answers_for r l ob"
proof -
  obtain ad where p: "p = Some ad" using assms by (cases p) (auto simp: observe_def aware_now_def result_simps split: if_splits)
  have budget: "0 < probe_budget c l (instant t1)"
    and ob: "ob = outcome_observation l t2 (pa_reconcile ad (rl_context l) (rl_subject_value l))"
    using assms by (auto simp: p observe_def aware_now_def result_simps not_le split: if_splits)
  obtain r where r: "pa_reconcile ad (rl_context l) (rl_subject_value l) = Probe_Answer r"
    using assms(2) ob by (cases "pa_reconcile ad (rl_context l) (rl_subject_value l)") auto
  with ob assms(2) validated_answers [of r l t2] have "provider_answered c p l t1 r" "answers_for r l ob"
    by (auto simp: provider_answered_def p budget)
  with that show thesis by blast
qed


section \<open>A round on concrete tables\<close>

definition demo_service_limits :: IdentityReconciliationLimits where
  "demo_service_limits = \<lparr>li_lease_seconds = 30, li_probe_safety_margin = 1, li_probe_interval = 1, li_cycle_interval = 60,
     li_active_window = 1, li_backoff_initial = 5, li_backoff_max = 40, li_not_found_confirmation = 60, li_degrade_after_failures = 3,
     li_max_tighten_per_cycle = 2\<rparr>"

definition demo_adapter :: provider_adapter where
  "demo_adapter = \<lparr>pa_reconcile = (\<lambda>_ _. Probe_Answer \<lparr>pr_status = PS_INACTIVE, pr_identity = None, pr_error_code = Some PC_INACTIVE,
     pr_retryable = False, pr_from_cache = False\<rparr>), pa_invalidatable = True\<rparr>"

definition demo_round :: round_world where
  "demo_round = \<lparr>rw_claimed_at = \<lparr>instant = 1000000, utcoffset = Some 0\<rparr>, rw_listed_at = 10,
     rw_visits = (\<lambda>_. \<lparr>vi_skipped = False, vi_fresh = ''g'', vi_now = 10, vi_lease_now = 10\<rparr>), rw_registry = (\<lambda>_. Some demo_adapter),
     rw_started_at = \<lparr>instant = 15, utcoffset = Some 0\<rparr>, rw_ended_at = \<lparr>instant = 20, utcoffset = Some 0\<rparr>, rw_others = [],
     rw_applied_at = 20\<rparr>"

definition demo_tick :: worker_tick where
  "demo_tick = \<lparr>wt_stop = False, wt_others = [], wt_monotonic = 3, wt_due_at = \<lparr>instant = 5, utcoffset = Some 0\<rparr>,
     wt_fresh = (\<lambda>_. ''c2''), wt_world = demo_round\<rparr>"

lemma demo_service_limits_ok: "recon_limits_ok demo_service_limits"
  by (simp add: recon_limits_ok_def demo_service_limits_def)

lemma demo_observe:
  "observe demo_service_limits (Some demo_adapter) demo_lease \<lparr>instant = 15, utcoffset = Some 0\<rparr> \<lparr>instant = 20, utcoffset = Some 0\<rparr> =
     Inr demo_inactive"
  by (simp add: observe_def aware_now_def aware_def probe_budget_def demo_service_limits_def demo_lease_def demo_adapter_def
      validate_provider_result_def demo_inactive_def)

lemma demo_apply_of: "apply_of demo_service_limits demo_lease = demo_limits"
  by (simp add: apply_of_def demo_limits_def demo_service_limits_def demo_lease_def backoff_seconds_def)

lemma demo_finish:
  "finish_round L demo_service_limits demo_claimed demo_round demo_lease =
     (demo_applied, Inr \<lparr>rr_status = RS_COMPLETED, rr_provider_status = Some RP_INACTIVE, rr_apply_outcome = Some AO_APPLIED,
        rr_safe_error_code = None, rr_invalidates = True\<rparr>)"
  using demo_observe demo_apply_step
  by (simp add: finish_round_def demo_round_def provider_of_def apply_round_def demo_apply_of)
    (simp add: demo_service_limits_def demo_apply_result_def valid_apply_result_def demo_inactive_def invalidates_after_change_def
      provider_of_def demo_adapter_def)

lemma demo_reconcile: "fst (reconcile_one L demo_service_limits ''w'' demo_recon demo_round) = demo_applied"
proof -
  have args: "claim_of demo_service_limits ''w'' (rw_claimed_at demo_round) = demo_claim"
    by (simp add: claim_of_def demo_service_limits_def demo_round_def demo_claim_def us_def)
  have "candidate_checkpoint_ids demo_recon 10 = [''c1'']"
    by (simp add: candidate_checkpoint_ids_def demo_recon_def demo_dir_store_def demo_account_def new_checkpoint_def reconcilable_def
        claimable_at_def)
  then have "claim_next demo_recon demo_claim 10 (rw_visits demo_round) = (demo_claimed, Inr (Some demo_lease))"
    using demo_claim_step by (simp add: claim_next_def claim_args_ok_def demo_claim_def demo_round_def py_len_def is_cont_def)
  then show ?thesis
    using demo_finish by (simp add: reconcile_one_def args) (simp add: demo_round_def aware_def blank_def py_len_def is_cont_def)
qed

lemma demo_worker: "worker_run L demo_service_limits 60 True ''w'' demo_recon [demo_tick] = demo_applied"
proof -
  have "\<exists>res. seed_service demo_recon (wt_due_at demo_tick) (wt_fresh demo_tick) = Inr (demo_recon, res)"
    by (simp add: seed_service_def aware_now_def aware_def demo_tick_def seed_checkpoints_def seed_one_def demo_recon_def demo_dir_store_def
        demo_account_def new_checkpoint_def reconcilable_def Let_def)
  then show ?thesis
    using demo_reconcile [of L] by (auto simp: worker_run_def worker_pass_def) (auto simp: demo_tick_def)
qed


section \<open>Properties\<close>

text \<open>Property C33. However its clocks run, whatever the provider answers and whatever others do meanwhile, the worker's loop is a
  history of the repository's transactions: each is one of the others' or one that the worker may ask for (an aware clock;
  a claim under its own name for the configured time; an application of a lease of its own, with a well-formed
  observation and positive limits). So it keeps the tables' constraints and never takes back a revision.\<close>

theorem worker_refines_history:
  assumes "recon_limits_ok c" "recon_wf s"
  shows "\<exists>ops. list_all (\<lambda>op. proper_op c owner op \<or> op \<in> set (concat (map tick_others ticks))) ops \<and>
    worker_run L c seed_interval enabled owner s ticks = try_steps (recon_step L) s ops \<and>
    recon_wf (worker_run L c seed_interval enabled owner s ticks) \<and> recon_le s (worker_run L c seed_interval enabled owner s ticks)"
proof -
  have "by_ops L (own_or c owner (concat (map tick_others ticks))) s (worker_run L c seed_interval enabled owner s ticks)"
    using worker_loop_by_ops [OF assms, of L owner ticks seed_interval 0] by (simp add: worker_run_def)
  with history_keeps [OF assms(2)] show ?thesis unfolding by_ops_def by metis
qed

theorem worker_refines_history_witness:
  "recon_limits_ok demo_service_limits \<and> recon_wf demo_recon \<and> recon_wf demo_applied \<and> recon_le demo_recon demo_applied"
  using worker_refines_history [OF demo_service_limits_ok demo_recon_wf, of "''w''" "[demo_tick]" demo_dir_lib 60 True]
    demo_service_limits_ok demo_recon_wf
  by (auto simp: demo_worker)

text \<open>Property C34. A claimed round completes: with aware clocks, after whatever others did meanwhile, the application is accepted by the
  repository, its report is valid, and the result says so. And when the provider's cache is not invalidated (though it
  could be), the round changed neither accounts nor identities and the account still has the revision the lease was issued for.\<close>

theorem claimed_round_completes:
  assumes limits: "recon_limits_ok c" and wf: "recon_wf s0"
    and claim: "claim_checkpoint s0 args i skipped fresh now lease_now = Inr (s, Some l)"
    and clocks: "aware (rw_started_at w)" "aware (rw_ended_at w)" and t: "t = try_steps (recon_step L) s (rw_others w)"
  shows "\<exists>s' r a. finish_round L c s w l = (s', Inr r) \<and> rr_status r = RS_COMPLETED \<and>
    row_by ac_id (pc_provider_account_id (rl_context l)) (ds_accounts (rs_dir s')) = Some a \<and>
    (rr_invalidates r \<or> provider_of w l = None \<or> map_option pa_invalidatable (provider_of w l) = Some False \<or>
     rs_dir s' = rs_dir t \<and> ac_identity_revision a = pc_provider_account_revision (rl_context l))"
proof -
  have wfs: "recon_wf s" using claim_effect [OF wf claim] wf by (auto simp: keeps_def)
  have wft: "recon_wf t" and le: "recon_le s t" using history_keeps [OF wfs] t by auto
  obtain cp a where cp: "row_by cp_id (rl_checkpoint_id l) (rs_checkpoints t) = Some cp" "cp_tenant_id cp \<in> set (rs_tenants t)"
    and a: "row_by ac_id (cp_provider_account_id cp) (ds_accounts (rs_dir t)) = Some a" "ac_id a = pc_provider_account_id (rl_context l)"
      "pc_provider_account_revision (rl_context l) \<le> ac_identity_revision a"
    by (rule claimed_rows_later [OF wf claim le])
  obtain ob where ob: "observe c (provider_of w l) l (rw_started_at w) (rw_ended_at w) = Inr ob"
    using observe_total [OF clocks] by blast
  obtain s' res where app: "apply_lease t l ob (apply_of c l) (li_probe_interval c) (rw_applied_at w) = Inr (s', res)"
    and rep: "apply_reports t a s' res"
    using apply_lease_reports [OF wft apply_of_ok [OF limits] observe_ok [OF ob] cp a(1)] by blast
  from rep obtain b where b: "row_by ac_id (ac_id a) (ds_accounts (rs_dir s')) = Some b" "ra_account_revision res = ac_identity_revision b"
    "rs_dir s' = rs_dir t \<or> ra_identity_changed res \<or> ac_identity_revision a < ac_identity_revision b" and ok: "valid_apply_result res"
    by (auto simp: apply_reports_def)
  have "invalidates_after_change (provider_of w l) l res \<or> provider_of w l = None \<or>
      map_option pa_invalidatable (provider_of w l) = Some False \<or>
      rs_dir s' = rs_dir t \<and> ac_identity_revision b = pc_provider_account_revision (rl_context l)"
    using b a(3) by (auto simp: invalidates_after_change_def split: option.splits)
  with ob app ok b(1) a(2) show ?thesis
    by (simp add: finish_round_def t [symmetric] apply_round_def)
qed

theorem claimed_round_completes_witness:
  "finish_round demo_dir_lib demo_service_limits demo_claimed demo_round demo_lease =
     (demo_applied, Inr \<lparr>rr_status = RS_COMPLETED, rr_provider_status = Some RP_INACTIVE, rr_apply_outcome = Some AO_APPLIED,
        rr_safe_error_code = None, rr_invalidates = True\<rparr>) \<and>
   row_by ac_id (pc_provider_account_id (rl_context demo_lease)) (ds_accounts (rs_dir demo_applied)) \<noteq> None"
  using claimed_round_completes [OF demo_service_limits_ok demo_recon_wf demo_claim_step, of demo_round _ demo_dir_lib]
  by (simp add: demo_finish) (simp add: demo_round_def aware_def)

text \<open>Property C35. What counts as an answer of the provider: every observation is well formed, and one that says more than
  unavailable or invalid comes from a probe made within the lease that returned an uncached, definite result; it is
  resolved only with a proof for the very identity of the lease, and negative only with the error code of its status.
  An exception, a timeout, a foreign object or an answer that contradicts itself never settles an identity.\<close>

theorem observation_needs_answer:
  assumes "observe c p l clock1 clock2 = Inr ob"
  shows "observation_ok ob \<and> (ob_status ob \<in> {RP_UNAVAILABLE, RP_INVALID} \<or>
    (\<exists>r. provider_answered c p l clock1 r \<and> answers_for r l ob))"
  using observe_ok [OF assms] observed_answers [OF assms] by blast

theorem observation_needs_answer_witness:
  "observation_ok demo_inactive \<and> (\<exists>r. provider_answered demo_service_limits (Some demo_adapter) demo_lease \<lparr>instant = 15, utcoffset = Some 0\<rparr> r \<and>
     answers_for r demo_lease demo_inactive)"
  using observation_needs_answer [OF demo_observe] by (simp add: demo_inactive_def)

end
