(* ===== verification/Metadata.thy ===== *)
theory Metadata
  imports Agent_Switch
begin

text \<open>
  Document metadata and the filters on it that restrict a retrieval
  (\<open>src/common/metadata_utils.py\<close>).

  \<open>metalib\<close> adds what this module takes from Python: \<open>str.isdigit\<close>, \<open>ast.literal_eval\<close> on a text (\<open>None\<close>: it
  raises; tuples, sets and bytes are not represented) and the order in which a set is listed. A condition has
  its three fields. Loaders, the language model and the index search are arguments that return; what they
  raise propagates unchanged.
\<close>

section \<open>Values\<close>

record metalib =
  ml_py :: pylib
  ml_isdigit :: "string \<Rightarrow> bool"
  ml_literal_eval :: "string \<Rightarrow> json option"
  ml_set_list :: "string set \<Rightarrow> string list"

definition operator_alias :: "string \<Rightarrow> string" where
  "operator_alias op =
     (if op = ''is'' then ''='' else if op = ''not is'' then op_ne else if op = ''>='' then op_ge
      else if op = ''<='' then op_le else if op = ''!='' then op_ne else op)"

datatype membership_key = KString string | KBoolean bool | KNumber pyfloat | KOther string

definition membership_key :: "pylib \<Rightarrow> json \<Rightarrow> membership_key" where
  "membership_key L v =
     (case v of JStr s \<Rightarrow> KString (str_lower L s) | JBool b \<Rightarrow> KBoolean b
      | JInt n \<Rightarrow> KNumber (Finite (of_int n)) | JFloat x \<Rightarrow> KNumber x | _ \<Rightarrow> KOther (py_repr L v))"

record MetadataValueIndex =
  mi_view :: "(string \<times> string list) list"
  mi_typed :: "(membership_key \<times> json \<times> string list) list"

definition empty_index :: MetadataValueIndex where
  "empty_index = \<lparr>mi_view = [], mi_typed = []\<rparr>"

definition docs_at :: "(string \<times> string list) list \<Rightarrow> string \<Rightarrow> string list" where
  "docs_at view s = (case map_of view s of None \<Rightarrow> [] | Some docs \<Rightarrow> docs)"

definition typed_at :: "(membership_key \<times> json \<times> string list) list \<Rightarrow> membership_key \<Rightarrow> json \<Rightarrow> json \<times> string list" where
  "typed_at typed k v = (case map_of typed k of None \<Rightarrow> (v, []) | Some e \<Rightarrow> e)"

definition index_add :: "pylib \<Rightarrow> json \<Rightarrow> string \<Rightarrow> MetadataValueIndex \<Rightarrow> MetadataValueIndex" where
  "index_add L v doc ix =
     (let s = py_str L v; k = membership_key L v; (v0, docs0) = typed_at (mi_typed ix) k v in
      \<lparr>mi_view = AList.update s (docs_at (mi_view ix) s @ [doc]) (mi_view ix),
       mi_typed = AList.update k (v0, docs0 @ [doc]) (mi_typed ix)\<rparr>)"

datatype v2docs = Index MetadataValueIndex | Plain "(json \<times> string list) list"

type_synonym metas = "(string \<times> v2docs) list"

record condition =
  cd_key :: string
  cd_op :: string
  cd_value :: json

record api_condition =
  ap_comparison_operator :: string
  ap_name :: string
  ap_value :: json

definition convert_conditions :: "api_condition list option \<Rightarrow> condition list" where
  "convert_conditions m =
     map (\<lambda>c. \<lparr>cd_key = ap_name c, cd_op = operator_alias (ap_comparison_operator c), cd_value = ap_value c\<rparr>)
       (case m of None \<Rightarrow> [] | Some cs \<Rightarrow> cs)"

definition finite_scalar :: "json \<Rightarrow> bool" where
  "finite_scalar v = (case v of JStr _ \<Rightarrow> True | JBool _ \<Rightarrow> True | JInt _ \<Rightarrow> True | JFloat (Finite _) \<Rightarrow> True | _ \<Rightarrow> False)"

definition valid_metadata_conditions :: "condition list \<Rightarrow> bool" where
  "valid_metadata_conditions filters = list_all (\<lambda>c.
     case cd_value c of
       JList xs \<Rightarrow> list_all finite_scalar xs
     | v \<Rightarrow> if cd_op c \<in> {''in'', ''not in''} \<and> \<not> is_str v then False
            else (case v of JFloat x \<Rightarrow> (case x of Finite _ \<Rightarrow> True | _ \<Rightarrow> False) | _ \<Rightarrow> True)) filters"

section \<open>Matching one entry\<close>

definition is_date :: "metalib \<Rightarrow> string \<Rightarrow> bool" where
  \<comment> \<open>YYYY-MM-DD\<close>
  "is_date L s \<longleftrightarrow> (let p = code_points s; digits = (\<lambda>i j. ml_isdigit L (concat (take (j - i) (drop i p)))) in
     length p = 10 \<and> p ! 4 = ''-'' \<and> p ! 7 = ''-'' \<and> digits 0 4 \<and> digits 5 7 \<and> digits 8 10)"

definition lower_value :: "pylib \<Rightarrow> json \<Rightarrow> json" where
  "lower_value L v = (case v of JStr s \<Rightarrow> JStr (str_lower L s) | _ \<Rightarrow> v)"

definition normalize_string_values :: "pylib \<Rightarrow> json \<Rightarrow> json" where
  "normalize_string_values L v = (case v of JList xs \<Rightarrow> JList (map (lower_value L) xs) | _ \<Rightarrow> lower_value L v)"

definition literal_eval_of :: "metalib \<Rightarrow> json \<Rightarrow> json option" where
  "literal_eval_of L v = (case v of JStr s \<Rightarrow> ml_literal_eval L s | _ \<Rightarrow> None)"

definition coerce_operands :: "metalib \<Rightarrow> json \<Rightarrow> json \<Rightarrow> json \<times> json" where
  \<comment> \<open>the \<open>try\<close> block with its assignments that happened before an exception, then the lower casing\<close>
  "coerce_operands L input v =
     (let (input', v') =
        (case input of
           JList [] \<Rightarrow> (input, v)
         | _ \<Rightarrow>
           let first = (case input of JList (x # _) \<Rightarrow> x | _ \<Rightarrow> input) in
           case literal_eval_of L first of
             None \<Rightarrow> (first, v)
           | Some i \<Rightarrow> (i, case literal_eval_of L v of None \<Rightarrow> v | Some w \<Rightarrow> w)) in
      (lower_value (ml_py L) input', lower_value (ml_py L) v'))"

definition find_text :: "pylib \<Rightarrow> json \<Rightarrow> json \<Rightarrow> bool option" where
  \<comment> \<open>\<open>str(input).find(value) >= 0\<close>; \<open>None\<close>: TypeError\<close>
  "find_text L v input = (case v of JStr t \<Rightarrow> Some (occurs_in t (py_str L input)) | _ \<Rightarrow> None)"

fun any_text :: "(json \<Rightarrow> bool option) \<Rightarrow> json list \<Rightarrow> bool option" where
  "any_text f [] = Some False"
| "any_text f (x # xs) = (case f x of None \<Rightarrow> None | Some True \<Rightarrow> Some True | Some False \<Rightarrow> any_text f xs)"

definition in_value :: "json \<Rightarrow> json \<Rightarrow> bool option" where
  \<comment> \<open>\<open>input in value\<close> for a value that is no list\<close>
  "in_value v input =
     (case v of
        JStr t \<Rightarrow> (case input of JStr s \<Rightarrow> Some (occurs_in s t) | _ \<Rightarrow> None)
      | JDict d \<Rightarrow> (case input of JStr s \<Rightarrow> Some (has_key d s) | JList _ \<Rightarrow> None | JDict _ \<Rightarrow> None | _ \<Rightarrow> Some False)
      | _ \<Rightarrow> None)"

definition lowered_text :: "pylib \<Rightarrow> json \<Rightarrow> string" where
  "lowered_text L input =
     (case input of JList xs \<Rightarrow> concat (map (\<lambda>i. str_lower L (py_str L i)) xs) | _ \<Rightarrow> str_lower L (py_str L input))"

definition order_match :: "order_op \<Rightarrow> json \<Rightarrow> json \<Rightarrow> bool option" where
  "order_match r input v = (case py_cmp r input v of Inl _ \<Rightarrow> None | Inr b \<Rightarrow> Some b)"

definition matched :: "pylib \<Rightarrow> string \<Rightarrow> json \<Rightarrow> json \<Rightarrow> bool option" where
  \<comment> \<open>\<open>None\<close>: an exception\<close>
  "matched L op v input =
     (if op = ''contains'' then (case input of JList xs \<Rightarrow> any_text (find_text L v) xs | _ \<Rightarrow> find_text L v input)
      else if op = ''not contains''
      then map_option Not (case input of JList xs \<Rightarrow> any_text (find_text L v) xs | _ \<Rightarrow> find_text L v input)
      else if op = ''in'' then
        (case input of JList xs \<Rightarrow> map_option Not (any_text (\<lambda>i. map_option Not (in_value v i)) xs) | _ \<Rightarrow> in_value v input)
      else if op = ''not in'' then
        map_option Not (case input of JList xs \<Rightarrow> any_text (in_value v) xs | _ \<Rightarrow> in_value v input)
      else if op = ''start with'' then Some (prefix (str_lower L (py_str L v)) (lowered_text L input))
      else if op = ''end with'' then Some (suffix (str_lower L (py_str L v)) (lowered_text L input))
      else if op = ''empty'' then Some (\<not> truthy input)
      else if op = ''not empty'' then Some (truthy input)
      else if op = ''='' then Some (py_eq input v)
      else if op = op_ne then Some (\<not> py_eq input v)
      else if op = ''>'' then order_match Gt input v
      else if op = ''<'' then order_match Lt input v
      else if op = op_ge then order_match Ge input v
      else if op = op_le then order_match Le input v
      else Some False)"

definition member_match :: "pylib \<Rightarrow> string \<Rightarrow> membership_key set \<Rightarrow> json \<Rightarrow> bool" where
  "member_match L op ks input =
     (let test = (\<lambda>i. membership_key L i \<in> ks \<longleftrightarrow> op = ''in'') in
      case input of JList xs \<Rightarrow> list_all test xs | _ \<Rightarrow> test input)"

definition comparison_operators :: "string set" where
  "comparison_operators = {''='', op_ne, ''>'', ''<'', op_ge, op_le}"

definition entry_step :: "metalib \<Rightarrow> string \<Rightarrow> json \<Rightarrow> json \<Rightarrow> bool \<times> json" where
  \<comment> \<open>one pass of the loop for operands that are no list: whether the entry matches, and \<open>value\<close> after it\<close>
  "entry_step L op v input =
     (if op \<in> comparison_operators then
        (let input_str = py_strip (py_str (ml_py L) input); value_str = py_strip (py_str (ml_py L) v) in
         if is_date L value_str
         then (if is_date L input_str then (matched (ml_py L) op (JStr value_str) (JStr input_str) = Some True, JStr value_str)
               else (False, v))
         else let (input', v') = coerce_operands L input v in (matched (ml_py L) op v' input' = Some True, v'))
      else let v' = normalize_string_values (ml_py L) v in
        (matched (ml_py L) op v' (normalize_string_values (ml_py L) input) = Some True, v'))"

fun filter_entries :: "metalib \<Rightarrow> string \<Rightarrow> json \<Rightarrow> (json \<times> string list) list \<Rightarrow> string list" where
  "filter_entries L op v [] = []"
| "filter_entries L op v ((input, docs) # es) =
     (let (hit, v') = entry_step L op v input in (if hit then docs else []) @ filter_entries L op v' es)"

definition typed_items :: "v2docs \<Rightarrow> (json \<times> string list) list" where
  "typed_items m = (case m of Index ix \<Rightarrow> map snd (mi_typed ix) | Plain es \<Rightarrow> es)"

definition view_items :: "v2docs \<Rightarrow> (json \<times> string list) list" where
  "view_items m = (case m of Index ix \<Rightarrow> map (map_prod JStr id) (mi_view ix) | Plain es \<Rightarrow> es)"

definition filter_out :: "metalib \<Rightarrow> v2docs \<Rightarrow> string \<Rightarrow> json \<Rightarrow> string list" where
  "filter_out L m raw_op v =
     (let op = operator_alias raw_op in
      case (op \<in> {''in'', ''not in''}, v) of
        (True, JList xs) \<Rightarrow>
          concat (map snd (filter (\<lambda>(input, _). member_match (ml_py L) op (membership_key (ml_py L) ` set xs) input) (typed_items m)))
      | _ \<Rightarrow> filter_entries L op v (view_items m))"

section \<open>Filters\<close>

definition condition_ids :: "metalib \<Rightarrow> metas \<Rightarrow> condition \<Rightarrow> string list" where
  "condition_ids L metas f =
     (case map_of metas (cd_key f) of None \<Rightarrow> [] | Some m \<Rightarrow> filter_out L m (cd_op f) (cd_value f))"

fun match_rest :: "metalib \<Rightarrow> string \<Rightarrow> metas \<Rightarrow> string set \<Rightarrow> condition list \<Rightarrow> string set" where
  "match_rest L logic metas ids [] = ids"
| "match_rest L logic metas ids (f # fs) =
     (let new = set (condition_ids L metas f) in
      if logic = ''and'' then (if ids \<inter> new = {} then {} else match_rest L logic metas (ids \<inter> new) fs)
      else match_rest L logic metas (ids \<union> new) fs)"

definition metadata_match :: "metalib \<Rightarrow> condition list \<Rightarrow> string \<Rightarrow> metas \<Rightarrow> string set" where
  "metadata_match L filters logic metas =
     (case filters of [] \<Rightarrow> {} | f # fs \<Rightarrow> match_rest L logic metas (set (condition_ids L metas f)) fs)"

definition meta_filter :: "metalib \<Rightarrow> metas \<Rightarrow> condition list \<Rightarrow> string \<Rightarrow> string list" where
  "meta_filter L metas filters logic =
     (if \<not> valid_metadata_conditions filters then [] else ml_set_list L (metadata_match L filters logic metas))"

definition expand_value :: "json \<Rightarrow> json list" where
  "expand_value v = (case v of JList xs \<Rightarrow> xs | _ \<Rightarrow> [v])"

definition add_meta :: "pylib \<Rightarrow> string \<Rightarrow> metas \<Rightarrow> string \<times> json \<Rightarrow> metas" where
  "add_meta L doc metas kv =
     (let (key, item) = kv in
      if item = JNull then metas
      else AList.update key (Index (index_add L item doc
             (case map_of metas key of Some (Index ix) \<Rightarrow> ix | _ \<Rightarrow> empty_index))) metas)"

definition field_items :: "json \<Rightarrow> (string \<times> json) list" where
  \<comment> \<open>the two inner loops, in order\<close>
  "field_items row =
     (case row of JDict d \<Rightarrow> concat (map (\<lambda>(key, v). map (Pair key) (expand_value v)) d) | _ \<Rightarrow> [])"

definition aggregate_metadata_rows :: "pylib \<Rightarrow> (string \<times> json) list \<Rightarrow> metas" where
  "aggregate_metadata_rows L rows = foldl (\<lambda>metas (doc, row). foldl (add_meta L doc) metas (field_items row)) [] rows"

definition streamable_operators :: "string set" where
  "streamable_operators = {''in'', ''not in'', ''contains'', ''not contains'', ''start with'', ''end with'', ''empty'', ''not empty''}"

definition stream_metadata_matches :: "metalib \<Rightarrow> (string \<times> json) list \<Rightarrow> condition list \<Rightarrow> string \<Rightarrow> string list" where
  "stream_metadata_matches L rows filters logic =
     (if filters = [] \<or> \<not> valid_metadata_conditions filters then []
      else foldl (\<lambda>matches (doc, row).
        if metadata_match L filters logic (aggregate_metadata_rows (ml_py L) [(doc, row)]) \<noteq> {} \<and> doc \<notin> set matches
        then matches @ [doc] else matches) [] rows)"

section \<open>Restricting a retrieval\<close>

definition no_match :: "string list" where "no_match = [''-999'']"

record filter_spec =
  \<comment> \<open>what the language model proposes, or the manual conditions\<close>
  fs_conditions :: "condition list"
  fs_logic :: string

record metadata_filter =
  mf_method :: string
  mf_manual :: "condition list"
  mf_logic :: string
  mf_semi_auto :: json

definition selected_key :: "json \<Rightarrow> string option" where
  "selected_key item =
     (case (case item of JStr s \<Rightarrow> JStr s | JDict d \<Rightarrow> dget d ''key'' | _ \<Rightarrow> JNull) of
        JStr s \<Rightarrow> if blank s then None else Some s | _ \<Rightarrow> None)"

definition add_selected ::
  "metas \<Rightarrow> metas \<times> (string \<times> string) list \<Rightarrow> json \<Rightarrow> unit + metas \<times> (string \<times> string) list" where
  "add_selected metas acc item =
     (let (selected, constraints) = acc in
      case selected_key item of
        None \<Rightarrow> Inl ()
      | Some key \<Rightarrow>
          (case map_of metas key of
             None \<Rightarrow> Inl ()
           | Some m \<Rightarrow>
               if \<not> list_ex (\<lambda>(_, docs). docs \<noteq> []) (view_items m) then Inl ()
               else
                 let selected' = AList.update key m selected;
                     op = (case item of JDict d \<Rightarrow> dget d ''op'' | _ \<Rightarrow> JNull) in
                 if \<not> truthy op then Inr (selected', constraints)
                 else (case op of JStr s \<Rightarrow> Inr (selected', AList.update key s constraints) | _ \<Rightarrow> Inl ())))"

definition semi_auto_candidates :: "json \<Rightarrow> metas \<Rightarrow> (metas \<times> (string \<times> string) list) option" where
  "semi_auto_candidates selection metas =
     (case selection of
        JList (x # xs) \<Rightarrow> (case foldE (add_selected metas) ([], []) (x # xs) of Inl _ \<Rightarrow> None | Inr r \<Rightarrow> Some r)
      | _ \<Rightarrow> None)"

fun keep_first :: "'a list \<Rightarrow> 'a list" where
  \<comment> \<open>\<open>list(dict.fromkeys(xs))\<close>\<close>
  "keep_first [] = []"
| "keep_first (x # xs) = x # filter (\<lambda>y. y \<noteq> x) (keep_first xs)"

record filter_io =
  \<comment> \<open>the language model, loaded and refreshed metadata, the resolver of manual values and the index search\<close>
  io_gen :: "metas \<Rightarrow> (string \<times> string) list option \<Rightarrow> filter_spec"
  io_loader :: "metas option"
  io_refresher :: "metas option"
  io_resolver :: "(condition \<Rightarrow> condition) option"
  io_filterer :: "(condition list \<Rightarrow> string \<Rightarrow> string list option) option"

definition load_metas :: "filter_io \<Rightarrow> metas option \<Rightarrow> metas" where
  "load_metas io metas = (case metas of Some m \<Rightarrow> m | None \<Rightarrow> (case io_loader io of Some m \<Rightarrow> m | None \<Rightarrow> []))"

definition chosen_filter ::
  "filter_io \<Rightarrow> metas option \<Rightarrow> metadata_filter \<Rightarrow> string list option \<Rightarrow> string list option + filter_spec \<times> metas option" where
  \<comment> \<open>the conditions and the metadata of the method; \<open>Inl\<close> is an early return\<close>
  "chosen_filter io metas f doc_ids =
     (if mf_method f = ''auto'' then Inr (io_gen io (load_metas io metas) None, metas)
      else if mf_method f = ''semi_auto'' then
        (case semi_auto_candidates (mf_semi_auto f) (load_metas io metas) of
           None \<Rightarrow> Inl (Some no_match)
         | Some (selected, constraints) \<Rightarrow>
             let spec = io_gen io selected (Some constraints) in
             case (case io_refresher io of None \<Rightarrow> Some selected
                   | Some fresh \<Rightarrow> map_option fst (semi_auto_candidates (mf_semi_auto f) fresh)) of
               None \<Rightarrow> Inl (Some no_match)
             | Some filter_metas \<Rightarrow>
                 if fs_conditions spec = [] \<or> list_ex (\<lambda>c. \<not> has_key filter_metas (cd_key c)) (fs_conditions spec)
                 then Inl (Some no_match) else Inr (spec, Some filter_metas))
      else if mf_method f = ''manual'' then
        Inr (\<lparr>fs_conditions = (case io_resolver io of None \<Rightarrow> mf_manual f | Some r \<Rightarrow> map r (mf_manual f)), fs_logic = mf_logic f\<rparr>, metas)
      else Inl doc_ids)"

definition apply_meta_data_filter ::
  "metalib \<Rightarrow> filter_io \<Rightarrow> metas option \<Rightarrow> metadata_filter option \<Rightarrow> string list option \<Rightarrow> string list option" where
  "apply_meta_data_filter L io metas meta_data_filter doc_ids =
     (if doc_ids = Some [] then Some []
      else case meta_data_filter of
        None \<Rightarrow> doc_ids
      | Some f \<Rightarrow>
          (case chosen_filter io metas f doc_ids of
             Inl r \<Rightarrow> r
           | Inr (spec, filter_metas) \<Rightarrow>
               if fs_conditions spec = [] then doc_ids
               else if \<not> valid_metadata_conditions (fs_conditions spec) then Some no_match
               else
                 let searched = (case io_filterer io of
                       Some g \<Rightarrow> if mf_method f \<noteq> ''semi_auto'' then g (fs_conditions spec) (fs_logic spec) else None | None \<Rightarrow> None);
                     matches = (case searched of Some ms \<Rightarrow> ms
                       | None \<Rightarrow> meta_filter L (case filter_metas of Some m \<Rightarrow> m | None \<Rightarrow> load_metas io metas) (fs_conditions spec) (fs_logic spec));
                     kept = (case doc_ids of None \<Rightarrow> matches | Some ids \<Rightarrow> keep_first (filter (\<lambda>d. d \<in> set matches) ids)) in
                 Some (if kept = [] then no_match else kept)))"

section \<open>Merging extracted metadata\<close>

fun dedupe_from :: "pylib \<Rightarrow> string set \<Rightarrow> json list \<Rightarrow> json list" where
  "dedupe_from L seen [] = []"
| "dedupe_from L seen (x # xs) =
     (if py_str L x \<in> seen then dedupe_from L seen xs else x # dedupe_from L (insert (py_str L x) seen) xs)"

definition dedupe_list :: "pylib \<Rightarrow> json list \<Rightarrow> json list" where
  "dedupe_list L xs = dedupe_from L {} xs"

definition merge_field :: "pylib \<Rightarrow> pydict \<Rightarrow> string \<times> json \<Rightarrow> pydict" where
  \<comment> \<open>one pass of the loop; every JSON value that is no list or dict is one of the scalars\<close>
  "merge_field L metadata kv =
     (let (k, v) = kv;
          texts = (case v of JList xs \<Rightarrow> xs \<noteq> [] \<and> list_all is_str xs | _ \<Rightarrow> False);
          v' = (case v of JList xs \<Rightarrow> if texts then JList (dedupe_list L xs) else v | _ \<Rightarrow> v) in
      if \<not> texts \<and> (is_dict v \<or> is_list v) then (if has_key metadata k then metadata else AList.update k v metadata)
      else case map_of metadata k of
        None \<Rightarrow> AList.update k v' metadata
      | Some (JList old) \<Rightarrow>
          (case v' of
             JList new \<Rightarrow> if list_all is_str old then AList.update k (JList (dedupe_list L (old @ new))) metadata else metadata
           | JStr s \<Rightarrow> if list_all is_str old then AList.update k (JList (dedupe_list L (old @ [JStr s]))) metadata else metadata
           | _ \<Rightarrow> AList.update k v' metadata)
      | Some _ \<Rightarrow> AList.update k v' metadata)"

definition update_metadata_to :: "pylib \<Rightarrow> (string \<Rightarrow> json option) \<Rightarrow> pydict \<Rightarrow> json \<Rightarrow> pydict" where
  \<comment> \<open>\<open>repair\<close> is \<open>json_repair.loads\<close>; \<open>None\<close>: it raises\<close>
  "update_metadata_to L repair metadata meta =
     (if \<not> truthy meta then metadata
      else case (case meta of JStr s \<Rightarrow> repair s | _ \<Rightarrow> Some meta) of
        Some (JDict d) \<Rightarrow> foldl (merge_field L) metadata d
      | _ \<Rightarrow> metadata)"

section \<open>What the index holds\<close>

definition index_ok :: "pylib \<Rightarrow> (string \<times> json) set \<Rightarrow> MetadataValueIndex \<Rightarrow> bool" where
  \<comment> \<open>the index of the pairs of document and value\<close>
  "index_ok L D ix \<longleftrightarrow>
     distinct (map fst (mi_view ix)) \<and> distinct (map fst (mi_typed ix)) \<and>
     (\<forall>s. set (docs_at (mi_view ix) s) = {d. \<exists>i. (d, i) \<in> D \<and> py_str L i = s}) \<and>
     (\<forall>t v. set (snd (typed_at (mi_typed ix) t v)) = {d. \<exists>i. (d, i) \<in> D \<and> membership_key L i = t}) \<and>
     (\<forall>t v. membership_key L v = t \<longrightarrow> membership_key L (fst (typed_at (mi_typed ix) t v)) = t) \<and>
     (\<forall>t e. map_of (mi_typed ix) t = Some e \<longrightarrow> fst e \<in> snd ` D)"

lemma docs_at_update: "docs_at (AList.update s' docs view) s = (if s = s' then docs else docs_at view s)"
  by (simp add: docs_at_def update_conv')

lemma typed_at_update: "typed_at (AList.update t' e typed) t v = (if t = t' then e else typed_at typed t v)"
  by (simp add: typed_at_def update_conv')

lemma index_ok_empty: "index_ok L {} empty_index"
  by (simp add: index_ok_def empty_index_def docs_at_def typed_at_def)

lemma index_add_ok:
  assumes "index_ok L D ix"
  shows "index_ok L (insert (doc, v) D) (index_add L v doc ix)"
proof -
  obtain v0 docs0 where e: "typed_at (mi_typed ix) (membership_key L v) v = (v0, docs0)" by fastforce
  have add: "index_add L v doc ix = \<lparr>mi_view = AList.update (py_str L v) (docs_at (mi_view ix) (py_str L v) @ [doc]) (mi_view ix),
      mi_typed = AList.update (membership_key L v) (v0, docs0 @ [doc]) (mi_typed ix)\<rparr>"
    by (simp add: index_add_def e Let_def)
  have typed: "\<forall>t w. set (snd (typed_at (mi_typed ix) t w)) = {d. \<exists>i. (d, i) \<in> D \<and> membership_key L i = t}"
    and first: "\<forall>t w. membership_key L w = t \<longrightarrow> membership_key L (fst (typed_at (mi_typed ix) t w)) = t"
    and view: "\<forall>s. set (docs_at (mi_view ix) s) = {d. \<exists>i. (d, i) \<in> D \<and> py_str L i = s}"
    and dist: "distinct (map fst (mi_view ix))" "distinct (map fst (mi_typed ix))"
    and vals: "\<forall>t e. map_of (mi_typed ix) t = Some e \<longrightarrow> fst e \<in> snd ` D"
    using assms unfolding index_ok_def by blast+
  have docs0: "set docs0 = {d. \<exists>i. (d, i) \<in> D \<and> membership_key L i = membership_key L v}"
    using typed [rule_format, of "membership_key L v" v] by (simp add: e)
  have v0D: "v0 = v \<or> v0 \<in> snd ` D"
    using e vals by (cases "map_of (mi_typed ix) (membership_key L v)") (auto simp: typed_at_def dest!: spec)
  have v0: "membership_key L v0 = membership_key L v" using first [rule_format, of v "membership_key L v"] by (simp add: e)
  show ?thesis
    unfolding index_ok_def add MetadataValueIndex.simps
  proof (intro conjI allI)
    fix t w
    show "set (snd (typed_at (AList.update (membership_key L v) (v0, docs0 @ [doc]) (mi_typed ix)) t w))
        = {d. \<exists>i. (d, i) \<in> insert (doc, v) D \<and> membership_key L i = t}"
      using docs0 typed by (cases "t = membership_key L v") (auto simp: typed_at_update)
    show "membership_key L w = t \<longrightarrow>
        membership_key L (fst (typed_at (AList.update (membership_key L v) (v0, docs0 @ [doc]) (mi_typed ix)) t w)) = t"
      using v0 first by (auto simp: typed_at_update)
    fix e
    show "map_of (AList.update (membership_key L v) (v0, docs0 @ [doc]) (mi_typed ix)) t = Some e \<longrightarrow> fst e \<in> snd ` insert (doc, v) D"
      using v0D vals [rule_format, of t e] by (cases "t = membership_key L v") (fastforce simp: update_conv' image_iff)+
  next
    fix s
    show "set (docs_at (AList.update (py_str L v) (docs_at (mi_view ix) (py_str L v) @ [doc]) (mi_view ix)) s)
        = {d. \<exists>i. (d, i) \<in> insert (doc, v) D \<and> py_str L i = s}"
      using view by (cases "s = py_str L v") (auto simp: docs_at_update)
  qed (use dist in \<open>simp_all add: distinct_update\<close>)
qed

definition pairs_of :: "(string \<times> string \<times> json) list \<Rightarrow> string \<Rightarrow> (string \<times> json) set" where
  "pairs_of es k = {(d, i). (d, k, i) \<in> set es \<and> i \<noteq> JNull}"

definition metas_ok :: "pylib \<Rightarrow> (string \<times> string \<times> json) list \<Rightarrow> metas \<Rightarrow> bool" where
  "metas_ok L es m \<longleftrightarrow> (\<forall>k. case map_of m k of
     None \<Rightarrow> pairs_of es k = {} | Some (Index ix) \<Rightarrow> index_ok L (pairs_of es k) ix | Some (Plain _) \<Rightarrow> False)"

lemma add_meta_ok:
  assumes "metas_ok L es m"
  shows "metas_ok L (es @ [(d, k, i)]) (add_meta L d m (k, i))"
proof (cases "i = JNull")
  case True
  then have "pairs_of (es @ [(d, k, i)]) = pairs_of es" by (auto simp: pairs_of_def fun_eq_iff)
  moreover have "add_meta L d m (k, i) = m" using True by (simp add: add_meta_def)
  ultimately show ?thesis using assms unfolding metas_ok_def by metis
next
  case False
  let ?ix = "case map_of m k of Some (Index ix) \<Rightarrow> ix | _ \<Rightarrow> empty_index"
  have pairs: "pairs_of (es @ [(d, k, i)]) k' = (if k' = k then insert (d, i) (pairs_of es k) else pairs_of es k')" for k'
    using False by (auto simp: pairs_of_def)
  have "index_ok L (pairs_of es k) ?ix"
    using assms index_ok_empty [of L] unfolding metas_ok_def by (auto split: option.splits v2docs.splits dest!: spec [of _ k])
  then have "index_ok L (insert (d, i) (pairs_of es k)) (index_add L i d ?ix)" by (rule index_add_ok)
  with assms False show ?thesis
    unfolding metas_ok_def pairs add_meta_def by (auto simp: update_conv')
qed

definition row_entries :: "(string \<times> json) list \<Rightarrow> (string \<times> string \<times> json) list" where
  "row_entries rows = concat (map (\<lambda>(doc, row). map (Pair doc) (field_items row)) rows)"

lemma aggregate_ok: "metas_ok L (row_entries rows) (aggregate_metadata_rows L rows)"
proof -
  have agg: "aggregate_metadata_rows L rows = foldl (\<lambda>m (doc, kv). add_meta L doc m kv) [] (row_entries rows)"
  proof -
    have inner: "foldl (\<lambda>m (doc, kv). add_meta L doc m kv) m (map (Pair doc) kvs) = foldl (add_meta L doc) m kvs" for m doc kvs
      by (induction kvs arbitrary: m) auto
    have "foldl (\<lambda>m (doc, kv). add_meta L doc m kv) m (row_entries rows)
        = foldl (\<lambda>metas (doc, row). foldl (add_meta L doc) metas (field_items row)) m rows" for m
      by (induction rows arbitrary: m) (auto simp: row_entries_def inner)
    then show ?thesis by (simp add: aggregate_metadata_rows_def)
  qed
  have "metas_ok L es (foldl (\<lambda>m (doc, kv). add_meta L doc m kv) [] es)" for es
  proof (induction es rule: rev_induct)
    case Nil
    show ?case by (simp add: metas_ok_def pairs_of_def)
  next
    case (snoc x es)
    then show ?case using add_meta_ok by (cases x) auto
  qed
  with agg show ?thesis by simp
qed

section \<open>Streaming gives what aggregation gives\<close>

definition item_matches :: "metalib \<Rightarrow> condition \<Rightarrow> json \<Rightarrow> bool" where
  \<comment> \<open>a value satisfies a condition with a streamable operator\<close>
  "item_matches L f i =
     (case (cd_op f \<in> {''in'', ''not in''}, cd_value f) of
        (True, JList xs) \<Rightarrow> member_match (ml_py L) (cd_op f) (membership_key (ml_py L) ` set xs) i
      | _ \<Rightarrow> matched (ml_py L) (cd_op f) (normalize_string_values (ml_py L) (cd_value f))
               (normalize_string_values (ml_py L) (JStr (py_str (ml_py L) i))) = Some True)"

lemma streamable_plain:
  assumes "op \<in> streamable_operators"
  shows "operator_alias op = op" "op \<notin> comparison_operators"
  using assms by (auto simp: streamable_operators_def operator_alias_def comparison_operators_def op_ne_def op_ge_def op_le_def)

lemma normalize_idem:
  assumes "\<And>s. str_lower L (str_lower L s) = str_lower L s"
  shows "normalize_string_values L (normalize_string_values L v) = normalize_string_values L v"
  using assms by (cases v) (auto simp: normalize_string_values_def lower_value_def split: json.splits)

lemma filter_entries_plain:
  assumes "op \<notin> comparison_operators" "\<And>s. str_lower (ml_py L) (str_lower (ml_py L) s) = str_lower (ml_py L) s"
  shows "set (filter_entries L op v es) = {d. \<exists>input docs. (input, docs) \<in> set es \<and> d \<in> set docs \<and>
    matched (ml_py L) op (normalize_string_values (ml_py L) v) (normalize_string_values (ml_py L) input) = Some True}"
proof (induction es arbitrary: v)
  case (Cons e es)
  obtain input docs where e: "e = (input, docs)" by fastforce
  have "filter_entries L op v (e # es)
      = (if matched (ml_py L) op (normalize_string_values (ml_py L) v) (normalize_string_values (ml_py L) input) = Some True then docs else [])
        @ filter_entries L op (normalize_string_values (ml_py L) v) es"
    using assms(1) by (simp add: e entry_step_def Let_def)
  with Cons.IH [of "normalize_string_values (ml_py L) v"] show ?case
    by (auto simp: e normalize_idem [OF assms(2)])
qed simp

lemma member_match_key:
  "\<not> is_list i \<Longrightarrow> \<not> is_list j \<Longrightarrow> membership_key L i = membership_key L j \<Longrightarrow> member_match L op ks i = member_match L op ks j"
  by (cases i; cases j) (simp_all add: member_match_def)

lemma view_hits:
  assumes "index_ok L D ix"
  shows "(\<exists>s docs. (s, docs) \<in> set (mi_view ix) \<and> d \<in> set docs \<and> Q s) \<longleftrightarrow> (\<exists>i. (d, i) \<in> D \<and> Q (py_str L i))"
proof
  assume "\<exists>s docs. (s, docs) \<in> set (mi_view ix) \<and> d \<in> set docs \<and> Q s"
  then obtain s docs where "(s, docs) \<in> set (mi_view ix)" "d \<in> set docs" "Q s" by blast
  with assms have "d \<in> set (docs_at (mi_view ix) s)" by (simp add: index_ok_def docs_at_def)
  with assms \<open>Q s\<close> show "\<exists>i. (d, i) \<in> D \<and> Q (py_str L i)" unfolding index_ok_def by auto
next
  assume "\<exists>i. (d, i) \<in> D \<and> Q (py_str L i)"
  then obtain i where i: "(d, i) \<in> D" "Q (py_str L i)" by blast
  with assms have "d \<in> set (docs_at (mi_view ix) (py_str L i))" unfolding index_ok_def by auto
  then obtain docs where "map_of (mi_view ix) (py_str L i) = Some docs" "d \<in> set docs"
    by (cases "map_of (mi_view ix) (py_str L i)") (auto simp: docs_at_def)
  with i show "\<exists>s docs. (s, docs) \<in> set (mi_view ix) \<and> d \<in> set docs \<and> Q s" by (blast dest: map_of_SomeD)
qed

lemma typed_hits:
  assumes "index_ok L D ix" "\<And>i j. membership_key L i = membership_key L j \<Longrightarrow> i \<in> snd ` D \<Longrightarrow> j \<in> snd ` D \<Longrightarrow> Q i \<longleftrightarrow> Q j"
  shows "(\<exists>t v docs. (t, v, docs) \<in> set (mi_typed ix) \<and> d \<in> set docs \<and> Q v) \<longleftrightarrow> (\<exists>i. (d, i) \<in> D \<and> Q i)"
proof -
  have typed: "\<forall>t w. set (snd (typed_at (mi_typed ix) t w)) = {d. \<exists>i. (d, i) \<in> D \<and> membership_key L i = t}"
    and first: "\<forall>t w. membership_key L w = t \<longrightarrow> membership_key L (fst (typed_at (mi_typed ix) t w)) = t"
    and dist: "distinct (map fst (mi_typed ix))" and vals: "\<forall>t e. map_of (mi_typed ix) t = Some e \<longrightarrow> fst e \<in> snd ` D"
    using assms(1) unfolding index_ok_def by blast+
  show ?thesis
  proof
    assume "\<exists>t v docs. (t, v, docs) \<in> set (mi_typed ix) \<and> d \<in> set docs \<and> Q v"
    then obtain t v docs where e: "map_of (mi_typed ix) t = Some (v, docs)" "d \<in> set docs" "Q v"
      using dist by (auto simp: map_of_eq_Some_iff)
    then obtain i where i: "(d, i) \<in> D" "membership_key L i = t"
      using typed [rule_format, of t v] by (auto simp: typed_at_def)
    then have "membership_key L v = t" using first [rule_format, of i t] e by (simp add: typed_at_def)
    with i e have "Q i" using assms(2) [of i v] vals by force
    with i show "\<exists>i. (d, i) \<in> D \<and> Q i" by blast
  next
    assume "\<exists>i. (d, i) \<in> D \<and> Q i"
    then obtain i where i: "(d, i) \<in> D" "Q i" by blast
    then have "d \<in> set (snd (typed_at (mi_typed ix) (membership_key L i) i))"
      unfolding typed [rule_format] by blast
    then obtain v docs where e: "map_of (mi_typed ix) (membership_key L i) = Some (v, docs)" "d \<in> set docs"
      by (cases "map_of (mi_typed ix) (membership_key L i)") (auto simp: typed_at_def)
    then have "membership_key L v = membership_key L i" using first [rule_format, of i "membership_key L i"] by (simp add: typed_at_def)
    then have "Q v" using assms(2) [of i v] vals i e by force
    with e show "\<exists>t v docs. (t, v, docs) \<in> set (mi_typed ix) \<and> d \<in> set docs \<and> Q v" by (blast dest: map_of_SomeD)
  qed
qed

definition flat_items :: "(string \<times> json) list \<Rightarrow> bool" where
  \<comment> \<open>no array inside an array\<close>
  "flat_items rows \<longleftrightarrow> (\<forall>(d, k, i) \<in> set (row_entries rows). \<not> is_list i)"

lemma condition_ids_items:
  assumes "cd_op f \<in> streamable_operators" "flat_items rows"
    "\<And>s. str_lower (ml_py L) (str_lower (ml_py L) s) = str_lower (ml_py L) s"
  shows "set (condition_ids L (aggregate_metadata_rows (ml_py L) rows) f)
    = {d. \<exists>i. (d, i) \<in> pairs_of (row_entries rows) (cd_key f) \<and> item_matches L f i}"
proof -
  let ?D = "pairs_of (row_entries rows) (cd_key f)" and ?m = "aggregate_metadata_rows (ml_py L) rows"
  note ok = aggregate_ok [of "ml_py L" rows, unfolded metas_ok_def, rule_format, of "cd_key f"]
  show ?thesis
  proof (cases "map_of ?m (cd_key f)")
    case None
    with ok show ?thesis by (simp add: condition_ids_def)
  next
    case (Some m)
    then obtain ix where ix: "m = Index ix" "index_ok (ml_py L) ?D ix" using ok by (cases m) auto
    note op = streamable_plain [OF assms(1)]
    have flat: "i \<in> snd ` ?D \<Longrightarrow> \<not> is_list i" for i using assms(2) by (auto simp: flat_items_def pairs_of_def)
    show ?thesis
    proof (cases "cd_op f \<in> {''in'', ''not in''} \<and> is_list (cd_value f)")
      case True
      then obtain xs where xs: "cd_value f = JList xs" by (cases "cd_value f") auto
      let ?Q = "member_match (ml_py L) (cd_op f) (membership_key (ml_py L) ` set xs)"
      have "(\<exists>t v docs. (t, v, docs) \<in> set (mi_typed ix) \<and> d \<in> set docs \<and> ?Q v) \<longleftrightarrow> (\<exists>i. (d, i) \<in> ?D \<and> ?Q i)" for d
        by (rule typed_hits [OF ix(2)]) (use flat member_match_key in blast)
      moreover have "set (condition_ids L ?m f) = {d. \<exists>t v docs. (t, v, docs) \<in> set (mi_typed ix) \<and> d \<in> set docs \<and> ?Q v}"
        using True by (force simp: condition_ids_def Some ix(1) filter_out_def op xs typed_items_def)
      ultimately show ?thesis using True xs by (simp add: item_matches_def)
    next
      case False
      let ?Q = "\<lambda>s. matched (ml_py L) (cd_op f) (normalize_string_values (ml_py L) (cd_value f)) (normalize_string_values (ml_py L) (JStr s)) = Some True"
      have "filter_out L m (cd_op f) (cd_value f) = filter_entries L (cd_op f) (cd_value f) (view_items m)"
        using False by (auto simp: filter_out_def op Let_def split: json.splits bool.splits)
      then have "set (condition_ids L ?m f) = {d. \<exists>s docs. (s, docs) \<in> set (mi_view ix) \<and> d \<in> set docs \<and> ?Q s}"
        by (force simp: condition_ids_def Some filter_entries_plain [OF op(2) assms(3)] view_items_def ix(1))
      moreover have "item_matches L f i = ?Q (py_str (ml_py L) i)" for i
        using False by (auto simp: item_matches_def split: json.splits bool.splits)
      ultimately show ?thesis using view_hits [OF ix(2), of _ ?Q] by simp
    qed
  qed
qed

lemma metadata_match_and:
  "f \<noteq> [] \<Longrightarrow> logic = ''and'' \<Longrightarrow> metadata_match L f logic m = {d. \<forall>c \<in> set f. d \<in> set (condition_ids L m c)}"
proof -
  have "match_rest L ''and'' m ids fs = {d \<in> ids. \<forall>c \<in> set fs. d \<in> set (condition_ids L m c)}" for ids fs
    by (induction fs arbitrary: ids) (auto simp: Let_def)
  then show "f \<noteq> [] \<Longrightarrow> logic = ''and'' \<Longrightarrow> ?thesis" by (cases f) (auto simp: metadata_match_def)
qed

lemma metadata_match_or:
  "logic \<noteq> ''and'' \<Longrightarrow> metadata_match L f logic m = {d. \<exists>c \<in> set f. d \<in> set (condition_ids L m c)}"
proof -
  assume logic: "logic \<noteq> ''and''"
  have "match_rest L logic m ids fs = ids \<union> {d. \<exists>c \<in> set fs. d \<in> set (condition_ids L m c)}" for ids fs
    using logic by (induction fs arbitrary: ids) (auto simp: Let_def)
  then show ?thesis by (cases f) (auto simp: metadata_match_def)
qed

lemma stream_fold:
  "set (foldl (\<lambda>ms (doc, row). if P doc row \<and> doc \<notin> set ms then ms @ [doc] else ms) acc rows)
     = set acc \<union> {d. \<exists>row. (d, row) \<in> set rows \<and> P d row}"
  by (induction rows arbitrary: acc) (auto split: prod.splits)

lemma row_entries_pairs: "pairs_of (row_entries rows) k = {(d, i). \<exists>row. (d, row) \<in> set rows \<and> (k, i) \<in> set (field_items row) \<and> i \<noteq> JNull}"
  by (auto simp: pairs_of_def row_entries_def)

text \<open>Property C26. Evaluating a filter row by row, with memory for one row, finds exactly the documents that the
  filter finds on the aggregate of all rows, for every operator that is streamed, any number of conditions
  and both connectives, provided that each document has one row and no array contains an
  array.\<close>

theorem stream_equals_aggregate:
  assumes "distinct (map fst rows)" "flat_items rows" "list_all (\<lambda>f. cd_op f \<in> streamable_operators) filters"
    "\<And>s. str_lower (ml_py L) (str_lower (ml_py L) s) = str_lower (ml_py L) s"
    "\<And>S. finite S \<Longrightarrow> set (ml_set_list L S) = S"
  shows "set (stream_metadata_matches L rows filters logic)
    = set (meta_filter L (aggregate_metadata_rows (ml_py L) rows) filters logic)"
proof (cases "filters = [] \<or> \<not> valid_metadata_conditions filters")
  case True
  then show ?thesis using assms(5) [of "{}"] by (auto simp: stream_metadata_matches_def meta_filter_def metadata_match_def)
next
  case False
  define hit where "hit row f \<longleftrightarrow> (\<exists>i. (cd_key f, i) \<in> set (field_items row) \<and> i \<noteq> JNull \<and> item_matches L f i)" for row f
  define all where "all row \<longleftrightarrow> (if logic = ''and'' then \<forall>f \<in> set filters. hit row f else \<exists>f \<in> set filters. hit row f)" for row
  have ids: "d \<in> set (condition_ids L (aggregate_metadata_rows (ml_py L) rs) f) \<longleftrightarrow> (\<exists>row. (d, row) \<in> set rs \<and> hit row f)"
    if "f \<in> set filters" "set rs \<subseteq> set rows" for rs f d
  proof -
    have "flat_items rs" using assms(2) that(2) by (fastforce simp: flat_items_def row_entries_def)
    moreover have "cd_op f \<in> streamable_operators" using assms(3) that(1) by (auto simp: list_all_iff)
    ultimately show ?thesis using condition_ids_items [of f rs L] assms(4) by (auto simp: row_entries_pairs hit_def)
  qed
  have match: "d \<in> metadata_match L filters logic (aggregate_metadata_rows (ml_py L) rs) \<longleftrightarrow> (\<exists>row. (d, row) \<in> set rs \<and> all row)"
    if rs: "set rs \<subseteq> set rows" for rs d
  proof (cases "logic = ''and''")
    case True
    obtain f0 where f0: "f0 \<in> set filters" using False by (cases filters) auto
    have "d \<in> metadata_match L filters logic (aggregate_metadata_rows (ml_py L) rs) \<longleftrightarrow>
        (\<forall>f \<in> set filters. \<exists>row. (d, row) \<in> set rs \<and> hit row f)"
      using ids [OF _ rs] False True by (simp add: metadata_match_and)
    also have "\<dots> \<longleftrightarrow> (\<exists>row. (d, row) \<in> set rs \<and> (\<forall>f \<in> set filters. hit row f))"
    proof
      assume each: "\<forall>f \<in> set filters. \<exists>row. (d, row) \<in> set rs \<and> hit row f"
      with f0 obtain row where row: "(d, row) \<in> set rs" by blast
      have "row' = row" if "(d, row') \<in> set rs" for row'
        using that row rs eq_key_imp_eq_value [OF assms(1), of d row' row] by blast
      with each row show "\<exists>row. (d, row) \<in> set rs \<and> (\<forall>f \<in> set filters. hit row f)" by metis
    qed blast
    finally show ?thesis using True by (simp add: all_def)
  next
    case False
    have "d \<in> metadata_match L filters logic (aggregate_metadata_rows (ml_py L) rs) \<longleftrightarrow>
        (\<exists>f \<in> set filters. \<exists>row. (d, row) \<in> set rs \<and> hit row f)"
      using ids [OF _ rs] False by (simp add: metadata_match_or)
    with False show ?thesis by (auto simp: all_def)
  qed
  have rowmatch: "metadata_match L filters logic (aggregate_metadata_rows (ml_py L) [(d, row)]) \<noteq> {} \<longleftrightarrow> all row"
    if "(d, row) \<in> set rows" for d row
    using match [of "[(d, row)]"] that by auto
  have "set (stream_metadata_matches L rows filters logic)
      = {d. \<exists>row. (d, row) \<in> set rows \<and> metadata_match L filters logic (aggregate_metadata_rows (ml_py L) [(d, row)]) \<noteq> {}}"
    using False by (simp add: stream_metadata_matches_def stream_fold del: ex_in_conv)
  also have "\<dots> = metadata_match L filters logic (aggregate_metadata_rows (ml_py L) rows)"
    using rowmatch match [OF subset_refl] by blast
  also have "\<dots> = set (meta_filter L (aggregate_metadata_rows (ml_py L) rows) filters logic)"
  proof -
    have "metadata_match L filters logic (aggregate_metadata_rows (ml_py L) rows) \<subseteq> set (map fst rows)"
      using match [OF subset_refl] by force
    then have "finite (metadata_match L filters logic (aggregate_metadata_rows (ml_py L) rows))"
      by (rule finite_subset) simp
    then show ?thesis using False assms(5) by (simp add: meta_filter_def)
  qed
  finally show ?thesis .
qed

definition demo_lib :: metalib where
  "demo_lib = \<lparr>ml_py = plain_lib, ml_isdigit = list_all (\<lambda>c. 48 \<le> (of_char c :: nat) \<and> (of_char c :: nat) \<le> 57),
     ml_literal_eval = (\<lambda>_. None), ml_set_list = sorted_list_of_set\<rparr>"

definition demo_rows :: "(string \<times> json) list" where
  "demo_rows = [(''d1'', JDict [(''k'', JStr ''Ab''), (''n'', JInt 1)]), (''d2'', JDict [(''k'', JList [JStr ''b'', JNull])]), (''d3'', JNull)]"

definition demo_filters :: "condition list" where
  "demo_filters = [\<lparr>cd_key = ''k'', cd_op = ''contains'', cd_value = JStr ''B''\<rparr>, \<lparr>cd_key = ''n'', cd_op = ''in'', cd_value = JList [JInt 1]\<rparr>]"

lemma ascii_lower_idem: "ascii_lower (ascii_lower s) = ascii_lower s"
  by (induction s) (auto simp: ascii_lower_def Let_def)

theorem stream_equals_aggregate_witness:
  "set (stream_metadata_matches demo_lib demo_rows demo_filters ''and'') = {''d1''} \<and>
   set (meta_filter demo_lib (aggregate_metadata_rows plain_lib demo_rows) demo_filters ''and'') = {''d1''}"
proof -
  have "set (stream_metadata_matches demo_lib demo_rows demo_filters ''and'')
      = set (meta_filter demo_lib (aggregate_metadata_rows (ml_py demo_lib) demo_rows) demo_filters ''and'')"
    by (rule stream_equals_aggregate)
      (simp_all add: demo_rows_def demo_filters_def streamable_operators_def flat_items_def row_entries_def field_items_def expand_value_def
        demo_lib_def plain_lib_def ascii_lower_idem)
  moreover have "stream_metadata_matches demo_lib demo_rows demo_filters ''and'' = [''d1'']" by code_simp
  ultimately show ?thesis by (simp add: demo_lib_def)
qed

section \<open>A filter only restricts\<close>

lemma set_keep_first [simp]: "set (keep_first xs) = set xs"
  by (induction xs) auto

lemma chosen_filter_early: "chosen_filter io metas f doc_ids = Inl r \<Longrightarrow> r = doc_ids \<or> r = Some no_match"
  by (auto simp: chosen_filter_def Let_def split: if_splits option.splits)

lemma distinct_keep_first [simp]: "distinct (keep_first xs)"
  by (induction xs rule: keep_first.induct) auto

text \<open>Property C25. A metadata filter never widens a given selection of documents, whatever the language
  model proposes, the index search returns or the metadata say: the result is part of the selection,
  or the marker for no match. For a manual filter that is evaluated here the result is exact: the selected
  documents that match it, each once, when there are any; the marker when there are none, or when
  the conditions are malformed; and nothing for an empty selection.\<close>

theorem metadata_filter_never_widens:
  "\<exists>R. apply_meta_data_filter L io metas f (Some B) = Some R \<and> (set R \<subseteq> set B \<or> R = no_match) \<and>
    (\<forall>g m. f = Some g \<and> mf_method g = ''manual'' \<and> mf_manual g \<noteq> [] \<and> io_resolver io = None \<and> io_filterer io = None \<and> metas = Some m \<longrightarrow>
      (let M = set B \<inter> set (meta_filter L m (mf_manual g) (mf_logic g)) in
       if B = [] then R = []
       else if valid_metadata_conditions (mf_manual g) \<and> M \<noteq> {} then set R = M \<and> distinct R
       else R = no_match))"
proof (cases "B = []")
  case True
  then show ?thesis by (simp add: apply_meta_data_filter_def)
next
  case False
  show ?thesis
  proof (cases f)
    case None
    with False show ?thesis by (simp add: apply_meta_data_filter_def)
  next
    case (Some g)
    show ?thesis
    proof (cases "chosen_filter io metas g (Some B)")
      case (Inl r)
      then have "mf_method g \<noteq> ''manual''" by (auto simp: chosen_filter_def)
      moreover have "r = Some B \<or> r = Some no_match" using chosen_filter_early [OF Inl] .
      ultimately show ?thesis using False Some Inl by (auto simp: apply_meta_data_filter_def)
    next
      case (Inr c)
      then obtain spec fm where c: "chosen_filter io metas g (Some B) = Inr (spec, fm)" by (cases c) auto
      define matches where "matches = (case (case io_filterer io of
          Some h \<Rightarrow> if mf_method g \<noteq> ''semi_auto'' then h (fs_conditions spec) (fs_logic spec) else None | None \<Rightarrow> None) of
          Some ms \<Rightarrow> ms | None \<Rightarrow> meta_filter L (case fm of Some m \<Rightarrow> m | None \<Rightarrow> load_metas io metas) (fs_conditions spec) (fs_logic spec))"
      define R where "R = (if fs_conditions spec = [] then B
        else if \<not> valid_metadata_conditions (fs_conditions spec) then no_match
        else let kept = keep_first (filter (\<lambda>d. d \<in> set matches) B) in if kept = [] then no_match else kept)"
      have "apply_meta_data_filter L io metas f (Some B) = Some R"
        using False Some c by (simp add: apply_meta_data_filter_def R_def matches_def Let_def)
      moreover have "set R \<subseteq> set B \<or> R = no_match" by (auto simp: R_def Let_def)
      moreover have "if valid_metadata_conditions (mf_manual g) \<and> set B \<inter> set (meta_filter L m (mf_manual g) (mf_logic g)) \<noteq> {}
          then set R = set B \<inter> set (meta_filter L m (mf_manual g) (mf_logic g)) \<and> distinct R else R = no_match"
        if "mf_method g = ''manual''" "mf_manual g \<noteq> []" "io_resolver io = None" "io_filterer io = None" "metas = Some m" for m
      proof -
        have "spec = \<lparr>fs_conditions = mf_manual g, fs_logic = mf_logic g\<rparr>" "fm = Some m"
          using c that by (auto simp: chosen_filter_def)
        then have m: "set matches = set (meta_filter L m (mf_manual g) (mf_logic g))" "fs_conditions spec = mf_manual g"
          using that by (simp_all add: matches_def)
        let ?kept = "keep_first (filter (\<lambda>d. d \<in> set matches) B)"
        have kept: "set ?kept = set B \<inter> set (meta_filter L m (mf_manual g) (mf_logic g))" "distinct ?kept"
          using m(1) by auto
        have "R = (if \<not> valid_metadata_conditions (mf_manual g) \<or> ?kept = [] then no_match else ?kept)"
          using m(2) that(2) by (simp add: R_def Let_def)
        with kept show ?thesis by (auto simp del: set_keep_first simp flip: set_empty)
      qed
      ultimately show ?thesis using Some False by (auto simp: Let_def)
    qed
  qed
qed

theorem metadata_filter_never_widens_witness:
  "apply_meta_data_filter demo_lib \<lparr>io_gen = (\<lambda>_ _. \<lparr>fs_conditions = [], fs_logic = ''and''\<rparr>), io_loader = None, io_refresher = None,
       io_resolver = None, io_filterer = None\<rparr> (Some (aggregate_metadata_rows plain_lib demo_rows))
     (Some \<lparr>mf_method = ''manual'', mf_manual = [hd demo_filters], mf_logic = ''and'', mf_semi_auto = JNull\<rparr>) (Some [''d3'', ''d2'', ''d1''])
     = Some [''d2'', ''d1''] \<and> set [''d2'', ''d1''] = set [''d3'', ''d2'', ''d1''] \<inter>
       set (meta_filter demo_lib (aggregate_metadata_rows plain_lib demo_rows) [hd demo_filters] ''and'')"
proof -
  let ?io = "\<lparr>io_gen = (\<lambda>_ _. \<lparr>fs_conditions = [], fs_logic = ''and''\<rparr>), io_loader = None, io_refresher = None,
       io_resolver = None, io_filterer = None\<rparr> :: filter_io"
  let ?f = "\<lparr>mf_method = ''manual'', mf_manual = [hd demo_filters], mf_logic = ''and'', mf_semi_auto = JNull\<rparr> :: metadata_filter"
  let ?m = "aggregate_metadata_rows plain_lib demo_rows"
  have result: "apply_meta_data_filter demo_lib ?io (Some ?m) (Some ?f) (Some [''d3'', ''d2'', ''d1'']) = Some [''d2'', ''d1'']" by code_simp
  let ?M = "set [''d3'', ''d2'', ''d1''] \<inter> set (meta_filter demo_lib ?m (mf_manual ?f) (mf_logic ?f))"
  from metadata_filter_never_widens [of demo_lib ?io "Some ?m" "Some ?f" "[''d3'', ''d2'', ''d1'']"] obtain R where
    R: "apply_meta_data_filter demo_lib ?io (Some ?m) (Some ?f) (Some [''d3'', ''d2'', ''d1'']) = Some R"
    and "\<forall>g m. Some ?f = Some g \<and> mf_method g = ''manual'' \<and> mf_manual g \<noteq> [] \<and> io_resolver ?io = None \<and> io_filterer ?io = None \<and>
      Some ?m = Some m \<longrightarrow> (let M = set [''d3'', ''d2'', ''d1''] \<inter> set (meta_filter demo_lib m (mf_manual g) (mf_logic g)) in
       if [''d3'', ''d2'', ''d1''] = [] then R = []
       else if valid_metadata_conditions (mf_manual g) \<and> M \<noteq> {} then set R = M \<and> distinct R else R = no_match)"
    by blast
  from spec [OF spec [OF this(2), of ?f], of ?m]
  have "if valid_metadata_conditions (mf_manual ?f) \<and> ?M \<noteq> {} then set R = ?M \<and> distinct R else R = no_match"
    unfolding Let_def by simp
  moreover have r: "R = [''d2'', ''d1'']" using R result by simp
  moreover have "R \<noteq> no_match" unfolding r by (simp add: no_match_def)
  ultimately have "set [''d2'', ''d1''] = ?M" by argo
  with result show ?thesis by simp
qed

section \<open>Merged lists of texts have no repetitions\<close>

definition clean :: "pylib \<Rightarrow> json \<Rightarrow> bool" where
  "clean L v = (case v of JList xs \<Rightarrow> xs \<noteq> [] \<and> list_all is_str xs \<longrightarrow> distinct xs | _ \<Rightarrow> True)"

lemma dedupe_from_image: "py_str L ` set (dedupe_from L seen xs) = py_str L ` set xs - seen"
  by (induction L seen xs rule: dedupe_from.induct) auto

lemma dedupe_from_distinct: "distinct (map (py_str L) (dedupe_from L seen xs))"
  by (induction L seen xs rule: dedupe_from.induct) (use dedupe_from_image in \<open>auto simp: set_eq_iff image_iff\<close>)

lemma dedupe_list_texts:
  "distinct (dedupe_list L xs)" "py_str L ` set (dedupe_list L xs) = py_str L ` set xs"
  using dedupe_from_image [of L "{}" xs] dedupe_from_distinct [of L "{}" xs] by (auto simp: dedupe_list_def distinct_map)

lemma merge_field_clean:
  assumes "list_all (clean L \<circ> snd) metadata"
  shows "list_all (clean L \<circ> snd) (merge_field L metadata (k, v))"
proof -
  have update: "clean L w \<Longrightarrow> list_all (clean L \<circ> snd) (AList.update k w metadata)" for w
    using assms by (induction metadata) auto
  have new: "clean L (JList (dedupe_list L xs))" for xs by (simp add: clean_def dedupe_list_texts)
  show ?thesis
    using assms update new by (cases v) (auto simp: merge_field_def clean_def Let_def split: option.splits json.splits)
qed

lemma update_metadata_clean:
  assumes "list_all (clean L \<circ> snd) metadata"
  shows "list_all (clean L \<circ> snd) (update_metadata_to L repair metadata meta)"
proof -
  have step: "list_all (clean L \<circ> snd) m \<Longrightarrow> list_all (clean L \<circ> snd) (merge_field L m kv)" for m kv
    using merge_field_clean by (cases kv) simp
  have "list_all (clean L \<circ> snd) (foldl (merge_field L) metadata d)" for d
    using assms step by (induction d arbitrary: metadata) auto
  with assms show ?thesis by (auto simp: update_metadata_to_def split: option.splits json.splits)
qed

end
