(* ===== verification/Agent_Data.thy ===== *)
theory Agent_Data
  imports Metadata Canvas_Template
begin

text \<open>
  The component that reshapes objects (\<open>src/agent/component/data_operations.py\<close>).

  Texts that mention variables are expanded on the canvas. Values are copied here: that combining objects extends
  the lists of the objects it reads is not represented.
\<close>

section \<open>Parameters and inputs\<close>

record DataOperationsParam =
  do_query :: "string list"
  do_operations :: string
  do_select_keys :: "string list"
  do_filter_values :: "pydict list"
  do_updates :: "json list"
  do_remove_keys :: "json list"
  do_rename_keys :: "json list"

definition data_operations :: "string list" where
  "data_operations = [''select_keys'', ''literal_eval'', ''combine'', ''filter_values'', ''append_or_update'', ''remove_keys'', ''rename_keys'']"

definition data_check :: "DataOperationsParam \<Rightarrow> bool" where
  "data_check p \<longleftrightarrow> do_operations p \<in> set data_operations"

definition input_objects_of :: "json \<Rightarrow> pydict list" where
  "input_objects_of v =
     (case v of JDict d \<Rightarrow> [d] | JList xs \<Rightarrow> concat (map (\<lambda>x. case x of JDict d \<Rightarrow> [d] | _ \<Rightarrow> []) xs) | _ \<Rightarrow> [])"

definition input_objects :: "platform \<Rightarrow> canvas \<Rightarrow> string list \<Rightarrow> cpn_error + pydict list" where
  "input_objects P c refs =
     bindE (mapE (\<lambda>r. lift_var (get_variable_value (json_loads P) c r)) refs) (\<lambda>vs. Inr (concat (map input_objects_of vs)))"

section \<open>Operations\<close>

definition select_keys :: "string list \<Rightarrow> pydict \<Rightarrow> pydict" where
  "select_keys criteria d = filter (\<lambda>(k, v). k \<in> set criteria) d"

definition looks_literal :: "metalib \<Rightarrow> string \<Rightarrow> bool" where
  "looks_literal L s =
     (let t = py_strip s in
      (t \<noteq> [] \<and> hd t \<in> {CHR ''{'', CHR ''['', CHR ''('', CHR 0x27, CHR 0x22}) \<or>
      str_lower (ml_py L) t \<in> {''true'', ''false'', ''none''} \<or> ml_isdigit L (filter (\<lambda>c. c \<noteq> CHR ''.'') t))"

primrec recursive_eval :: "metalib \<Rightarrow> json \<Rightarrow> json" where
  "recursive_eval L (JDict d) = JDict (map (map_prod id (recursive_eval L)) d)"
| "recursive_eval L (JList xs) = JList (map (recursive_eval L) xs)"
| "recursive_eval L (JStr s) =
     (if looks_literal L s then (case ml_literal_eval L s of None \<Rightarrow> JStr s | Some v \<Rightarrow> v) else JStr s)"
| "recursive_eval L JNull = JNull"
| "recursive_eval L (JBool b) = JBool b"
| "recursive_eval L (JInt n) = JInt n"
| "recursive_eval L (JFloat x) = JFloat x"

definition combine_value :: "json \<Rightarrow> json \<Rightarrow> json" where
  \<comment> \<open>the value of a key that is there already, with one more\<close>
  "combine_value old v =
     (let more = (case v of JList ys \<Rightarrow> ys | _ \<Rightarrow> [v]) in
      case old of JList xs \<Rightarrow> JList (xs @ more) | _ \<Rightarrow> JList (old # more))"

definition combine_entry :: "pydict \<Rightarrow> string \<times> json \<Rightarrow> pydict" where
  "combine_entry res kv =
     (case map_of res (fst kv) of
        None \<Rightarrow> AList.update (fst kv) (snd kv) res
      | Some old \<Rightarrow> AList.update (fst kv) (combine_value old (snd kv)) res)"

definition combine :: "pydict list \<Rightarrow> pydict" where
  "combine objs = foldl combine_entry [] (concat objs)"

definition expand_or :: "platform \<Rightarrow> canvas \<Rightarrow> string \<Rightarrow> cpn_error + string" where
  \<comment> \<open>\<open>get_value_with_variable(s) or s\<close>\<close>
  "expand_or P c s = bindE (lift_var (get_value_with_variable P c s)) (\<lambda>t. Inr (if t = [] then s else t))"

definition rule_operator :: "metalib \<Rightarrow> pydict \<Rightarrow> cpn_error + string" where
  "rule_operator L rule =
     (case dget rule ''operator'' of
        JStr s \<Rightarrow> Inr (if s = [] then ''equals'' else str_lower (ml_py L) s)
      | v \<Rightarrow> if truthy v then Inl OperandError else Inr ''equals'')"

definition compare_rule :: "string \<Rightarrow> string \<Rightarrow> string \<Rightarrow> bool" where
  "compare_rule op v target =
     (if op = ''='' then v = target
      else if op = op_ne then v \<noteq> target
      else if op = ''contains'' then occurs_in target v
      else if op = ''start with'' then prefix target v
      else op = ''end with'' \<and> suffix target v)"

definition match_rule :: "metalib \<Rightarrow> platform \<Rightarrow> canvas \<Rightarrow> pydict \<Rightarrow> pydict \<Rightarrow> cpn_error + bool" where
  "match_rule L P c obj rule =
     bindE (rule_operator L rule) (\<lambda>op.
     bindE (expand_or P c (norm (ml_py L) (dget rule ''value''))) (\<lambda>target.
     Inr (case dget rule ''key'' of
            JStr k \<Rightarrow> has_key obj k \<and> compare_rule op (norm (ml_py L) (dget obj k)) target
          | _ \<Rightarrow> False)))"

fun match_all :: "metalib \<Rightarrow> platform \<Rightarrow> canvas \<Rightarrow> pydict \<Rightarrow> pydict list \<Rightarrow> cpn_error + bool" where
  \<comment> \<open>\<open>all\<close> stops at the first rule that does not hold\<close>
  "match_all L P c obj [] = Inr True"
| "match_all L P c obj (r # rs) =
     bindE (match_rule L P c obj r) (\<lambda>b. if b then match_all L P c obj rs else Inr False)"

definition filter_values :: "metalib \<Rightarrow> platform \<Rightarrow> canvas \<Rightarrow> pydict list \<Rightarrow> pydict list \<Rightarrow> cpn_error + pydict list" where
  "filter_values L P c rules objs = filterE (\<lambda>obj. match_all L P c obj rules) objs"

definition key_text :: "pydict \<Rightarrow> string \<Rightarrow> cpn_error + string" where
  \<comment> \<open>\<open>(item.get(k) or "").strip()\<close>\<close>
  "key_text d k = (case dget d k of JStr s \<Rightarrow> Inr (py_strip s) | v \<Rightarrow> if truthy v then Inl OperandError else Inr [])"

definition update_item :: "platform \<Rightarrow> canvas \<Rightarrow> pydict \<Rightarrow> json \<Rightarrow> cpn_error + pydict" where
  \<comment> \<open>a value that is no text cannot be searched for variables\<close>
  "update_item P c obj it =
     (case it of
        JDict d \<Rightarrow>
          bindE (key_text d ''key'') (\<lambda>k.
            if k = [] then Inr obj
            else case dget d ''value'' of
                   JStr s \<Rightarrow> bindE (expand_or P c s) (\<lambda>t. Inr (AList.update k (JStr t) obj))
                 | _ \<Rightarrow> Inl OperandError)
      | _ \<Rightarrow> Inr obj)"

definition append_or_update :: "platform \<Rightarrow> canvas \<Rightarrow> json list \<Rightarrow> pydict \<Rightarrow> cpn_error + pydict" where
  "append_or_update P c updates obj = foldE (update_item P c) obj updates"

definition remove_item :: "pydict \<Rightarrow> json \<Rightarrow> pydict" where
  "remove_item obj it = (case it of JStr k \<Rightarrow> AList.delete k obj | _ \<Rightarrow> obj)"

definition remove_keys :: "json list \<Rightarrow> pydict \<Rightarrow> pydict" where
  "remove_keys ks obj = foldl remove_item obj ks"

definition rename_one :: "string \<Rightarrow> string \<Rightarrow> pydict \<Rightarrow> pydict" where
  \<comment> \<open>\<open>new_obj[new] = new_obj.pop(old)\<close>\<close>
  "rename_one old new obj =
     (if old = [] \<or> new = [] \<or> old = new then obj
      else case map_of obj old of None \<Rightarrow> obj | Some v \<Rightarrow> AList.update new v (AList.delete old obj))"

definition rename_item :: "pydict \<Rightarrow> json \<Rightarrow> cpn_error + pydict" where
  "rename_item obj it =
     (case it of
        JDict d \<Rightarrow> bindE (key_text d ''old_key'') (\<lambda>old. bindE (key_text d ''new_key'') (\<lambda>new. Inr (rename_one old new obj)))
      | _ \<Rightarrow> Inr obj)"

definition rename_keys :: "json list \<Rightarrow> pydict \<Rightarrow> cpn_error + pydict" where
  "rename_keys pairs obj = foldE rename_item obj pairs"

definition data_operate :: "metalib \<Rightarrow> platform \<Rightarrow> canvas \<Rightarrow> DataOperationsParam \<Rightarrow> pydict list \<Rightarrow> cpn_error + json" where
  "data_operate L P c p objs =
     (let wrap = (\<lambda>m. bindE m (\<lambda>ds. Inr (JList (map JDict ds)))) in
      if do_operations p = ''select_keys'' then Inr (JList (map (\<lambda>d. JDict (select_keys (do_select_keys p) d)) objs))
      else if do_operations p = ''literal_eval'' then Inr (recursive_eval L (JList (map JDict objs)))
      else if do_operations p = ''combine'' then Inr (JDict (combine objs))
      else if do_operations p = ''filter_values'' then wrap (filter_values L P c (do_filter_values p) objs)
      else if do_operations p = ''append_or_update'' then wrap (mapE (append_or_update P c (do_updates p)) objs)
      else if do_operations p = ''remove_keys'' then Inr (JList (map (\<lambda>d. JDict (remove_keys (do_remove_keys p) d)) objs))
      else wrap (mapE (rename_keys (do_rename_keys p)) objs))"

definition data_invoke ::
  "metalib \<Rightarrow> platform \<Rightarrow> DataOperationsParam \<Rightarrow> string \<Rightarrow> canvas \<Rightarrow> cpn_error option \<times> canvas" where
  \<comment> \<open>\<open>_invoke\<close>: the exception, if any, and the canvas it leaves\<close>
  "data_invoke L P p self c =
     (case bindE (input_objects P c (do_query p)) (data_operate L P c p) of
        Inl e \<Rightarrow> (Some e, c)
      | Inr v \<Rightarrow> (None, set_outputs self [(''result'', v)] c))"

section \<open>What the operations read and write\<close>

lemma map_of_select_keys: "map_of (select_keys ks d) k = (if k \<in> set ks then map_of d k else None)"
  by (induction d) (auto simp: select_keys_def)

lemma map_of_remove_keys: "map_of (remove_keys ks d) k = (if JStr k \<in> set ks then None else map_of d k)"
proof (induction ks arbitrary: d)
  case (Cons it ks)
  then show ?case
    by (cases it) (auto simp: remove_keys_def remove_item_def delete_conv')
qed (simp add: remove_keys_def)

lemma select_and_remove_complement:
  "map_of d = map_of (remove_keys (map JStr ks) d) ++ map_of (select_keys ks d)"
  by (rule ext) (auto simp: map_add_def map_of_select_keys map_of_remove_keys split: option.splits)

lemma map_of_rename_one:
  assumes "old \<noteq> []" "new \<noteq> []" "old \<noteq> new" "map_of d old = Some v"
  shows "map_of (rename_one old new d) = (map_of d)(old := None, new \<mapsto> v)"
  using assms by (simp add: rename_one_def update_conv' delete_conv' fun_upd_twist)

lemma rename_back:
  assumes "old \<noteq> []" "new \<noteq> []" "map_of d new = None"
  shows "map_of (rename_one new old (rename_one old new d)) = map_of d"
proof (cases "old = new \<or> map_of d old = None")
  case True
  then show ?thesis
    using assms by (auto simp: rename_one_def)
next
  case False
  then obtain v where v: "map_of d old = Some v" "old \<noteq> new"
    by auto
  have "map_of (rename_one old new d) new = Some v"
    using map_of_rename_one [OF assms(1,2) v(2,1)] by simp
  then show ?thesis
    using map_of_rename_one [of new old "rename_one old new d" v] map_of_rename_one [OF assms(1,2) v(2,1)] assms v
    by (auto simp: fun_eq_iff)
qed

lemma filter_values_exact:
  assumes "filter_values L P c rules objs = Inr kept"
  shows "kept = filter (\<lambda>obj. match_all L P c obj rules = Inr True) objs \<and>
         (\<forall>obj\<in>set objs. \<exists>b. match_all L P c obj rules = Inr b)"
  using assms unfolding filter_values_def
proof (induction objs arbitrary: kept)
  case (Cons obj objs)
  then obtain b ys where "match_all L P c obj rules = Inr b" "filterE (\<lambda>obj. match_all L P c obj rules) objs = Inr ys"
      "kept = (if b then obj # ys else ys)"
    by (auto simp: bindE_eq_Inr)
  then show ?case using Cons.IH [of ys] by (cases b) auto
qed simp

lemma match_all_iff:
  "match_all L P c obj rules = Inr True \<longleftrightarrow> (\<forall>r\<in>set rules. match_rule L P c obj r = Inr True)"
  by (induction rules) (auto simp: bindE_eq_Inr split: if_splits)

text \<open>
  A key of the objects keeps all its values when they are combined: a single value as it is, several in a list
  in the order of the objects, the items of lists in place of the lists.
\<close>

definition values_of :: "string \<Rightarrow> pydict list \<Rightarrow> json list" where
  "values_of k objs = map snd (filter (\<lambda>kv. fst kv = k) (concat objs))"

definition items_of :: "json \<Rightarrow> json list" where
  "items_of v = (case v of JList xs \<Rightarrow> xs | _ \<Rightarrow> [v])"

lemma combine_entries:
  "map_of (foldl combine_entry res kvs) k =
     (case map snd (filter (\<lambda>kv. fst kv = k) kvs) of
        [] \<Rightarrow> map_of res k
      | v # vs \<Rightarrow> Some (case map_of res k of
          Some old \<Rightarrow> JList (items_of old @ concat (map items_of (v # vs)))
        | None \<Rightarrow> if vs = [] then v else JList (concat (map items_of (v # vs)))))"
proof (induction kvs arbitrary: res)
  case (Cons kv kvs)
  have "map_of (combine_entry res kv) k =
      (if fst kv = k then Some (case map_of res k of None \<Rightarrow> snd kv | Some old \<Rightarrow> JList (items_of old @ items_of (snd kv)))
       else map_of res k)"
    by (auto simp: combine_entry_def combine_value_def items_of_def update_conv' Let_def split: option.splits json.splits)
  then show ?case
    using Cons by (cases "fst kv = k") (auto simp: items_of_def split: option.splits list.splits json.splits)
qed simp

lemma combine_keeps_values:
  "map_of (combine objs) k =
     (case values_of k objs of [] \<Rightarrow> None | [v] \<Rightarrow> Some v | vs \<Rightarrow> Some (JList (concat (map items_of vs))))"
  by (auto simp: combine_def values_of_def combine_entries split: list.splits)

section \<open>Corner cases\<close>

text \<open>Without an operator a rule never holds.\<close>

lemma default_operator_never_holds:
  assumes "\<not> truthy (dget rule ''operator'')"
  shows "match_rule L P c obj rule \<noteq> Inr True"
proof -
  have "rule_operator L rule = Inr ''equals''"
    using assms by (cases "dget rule ''operator''") (auto simp: rule_operator_def)
  then show ?thesis
    by (auto simp: match_rule_def bindE_eq_Inr compare_rule_def op_ne_def split: json.splits)
qed

text \<open>A text whose variables are empty is stored with the references themselves.\<close>

lemma empty_variable_keeps_reference:
  assumes "get_value_with_variable P c s = Inr []"
  shows "expand_or P c s = Inr s"
  using assms by (simp add: expand_or_def)

end
