(* ===== verification/Chunk_Tree.thy ===== *)
theory Chunk_Tree
  imports Prelude
begin

text \<open>
  The heading tree of the hierarchical title chunker
  (\<open>_ChunkNode\<close> of \<open>src/core/flow/chunker/title_chunker/hierarchy_chunker.py\<close>).

  The source keeps a stack of nodes that share structure with the tree: a node is a child of the node
  below it from the moment it is pushed. Here a node on the stack becomes a child when it is popped, or
  when the loop is over; children are listed in the same order, since a later sibling is created only
  after the earlier one has left the stack. A line is a pair of its level and its index.

  \<open>hierarchy_reference\<close> says, line by line and without a tree, which lines make a chunk;
  \<open>get_paths_reference\<close> shows that the tree gives the same chunks in the same order.
\<close>

section \<open>The tree\<close>

datatype chunk_node =
  ChunkNode (node_level: int) (title_indexes: "nat list") (body_indexes: "nat list") (node_children: "chunk_node list")

definition add_child :: "chunk_node \<Rightarrow> chunk_node \<Rightarrow> chunk_node" where
  "add_child p c = ChunkNode (node_level p) (title_indexes p) (body_indexes p) (node_children p @ [c])"

definition add_body_index :: "nat \<Rightarrow> chunk_node \<Rightarrow> chunk_node" where
  "add_body_index i p = ChunkNode (node_level p) (title_indexes p) (body_indexes p @ [i]) (node_children p)"

fun pop_while :: "int \<Rightarrow> chunk_node list \<Rightarrow> chunk_node list" where
  \<comment> \<open>the stack, top first; the bottom is never popped\<close>
  "pop_while level (t # p # rest) =
     (if level \<le> node_level t then pop_while level (add_child p t # rest) else t # p # rest)"
| "pop_while level stack = stack"

fun tree_line :: "int \<Rightarrow> chunk_node list \<Rightarrow> int \<times> nat \<Rightarrow> chunk_node list" where
  "tree_line depth stack (level, i) =
     (if depth < level then (case stack of t # rest \<Rightarrow> add_body_index i t # rest | [] \<Rightarrow> [])
      else ChunkNode level [i] [] [] # pop_while level stack)"

fun unwind :: "chunk_node list \<Rightarrow> chunk_node" where
  "unwind (t # p # rest) = unwind (add_child p t # rest)"
| "unwind [t] = t"
| "unwind [] = ChunkNode 0 [] [] []"

definition build_tree :: "chunk_node \<Rightarrow> (int \<times> nat) list \<Rightarrow> int \<Rightarrow> chunk_node" where
  "build_tree root lines depth = unwind (foldl (tree_line depth) [root] lines)"

fun dfs :: "int \<Rightarrow> bool \<Rightarrow> nat list \<Rightarrow> chunk_node \<Rightarrow> nat list list" where
  "dfs depth include_heading_content titles (ChunkNode level own body kids) =
     (let shown = 1 \<le> level \<and> level \<le> depth in
      (if level = 0 \<and> body \<noteq> [] then [titles @ body] else []) @
      (if include_heading_content then
         let path_titles = (if shown then titles @ own else titles) in
         (if body \<noteq> [] \<and> shown then [path_titles @ body]
          else if kids = [] \<and> shown then [path_titles] else []) @
         concat (map (dfs depth include_heading_content path_titles) kids)
       else
         let path_titles = (if shown then titles @ own @ body else titles) in
         (if kids = [] \<and> shown then [path_titles] else []) @
         concat (map (dfs depth include_heading_content path_titles) kids)))"

definition get_paths :: "chunk_node \<Rightarrow> int \<Rightarrow> bool \<Rightarrow> nat list list" where
  "get_paths root depth include_heading_content = dfs depth include_heading_content [] root"

section \<open>Reference\<close>

definition body_run :: "int list \<Rightarrow> int \<Rightarrow> nat \<Rightarrow> nat list" where
  \<comment> \<open>the body lines from a position on, up to the next heading\<close>
  "body_run ls depth s = takeWhile (\<lambda>i. depth < ls ! i) [s..<length ls]"

definition outline :: "int list \<Rightarrow> int \<Rightarrow> nat \<Rightarrow> nat list" where
  \<comment> \<open>the headings a heading stands under, and itself: every line in between is deeper\<close>
  "outline ls depth h = filter (\<lambda>j. ls ! j \<le> depth \<and> (\<forall>k\<in>{j<..h}. ls ! j < ls ! k)) [0..<Suc h]"

definition headings :: "int list \<Rightarrow> int \<Rightarrow> nat list" where
  "headings ls depth = filter (\<lambda>j. ls ! j \<le> depth) [0..<length ls]"

definition lowest :: "int list \<Rightarrow> int \<Rightarrow> nat \<Rightarrow> bool" where
  \<comment> \<open>no heading stands directly under this one\<close>
  "lowest ls depth h =
     (let next = Suc h + length (body_run ls depth (Suc h)) in next = length ls \<or> ls ! next \<le> ls ! h)"

definition section_path :: "int list \<Rightarrow> int \<Rightarrow> bool \<Rightarrow> nat \<Rightarrow> nat list" where
  "section_path ls depth incl h =
     (if incl then outline ls depth h @ body_run ls depth (Suc h)
      else concat (map (\<lambda>j. j # body_run ls depth (Suc j)) (outline ls depth h)))"

definition section_paths :: "int list \<Rightarrow> int \<Rightarrow> bool \<Rightarrow> nat \<Rightarrow> nat list list" where
  "section_paths ls depth incl h =
     (if lowest ls depth h \<or> incl \<and> body_run ls depth (Suc h) \<noteq> [] then [section_path ls depth incl h] else [])"

definition hierarchy_reference :: "int list \<Rightarrow> int \<Rightarrow> bool \<Rightarrow> nat list list" where
  "hierarchy_reference ls depth incl =
     (if body_run ls depth 0 = [] then [] else [body_run ls depth 0]) @
     concat (map (section_paths ls depth incl) (headings ls depth))"

section \<open>The output along the open nodes\<close>

text \<open>What a node adds itself, and the titles it passes to its children.\<close>

definition own_paths :: "int \<Rightarrow> bool \<Rightarrow> nat list \<Rightarrow> chunk_node \<Rightarrow> bool \<Rightarrow> nat list list" where
  "own_paths depth incl titles f childless =
     (if node_level f = 0 \<and> body_indexes f \<noteq> [] then [titles @ body_indexes f] else []) @
     (if 1 \<le> node_level f \<and> node_level f \<le> depth \<and> (childless \<or> incl \<and> body_indexes f \<noteq> [])
      then [titles @ title_indexes f @ body_indexes f] else [])"

definition passed :: "int \<Rightarrow> bool \<Rightarrow> nat list \<Rightarrow> chunk_node \<Rightarrow> nat list" where
  "passed depth incl titles f =
     titles @ (if 1 \<le> node_level f \<and> node_level f \<le> depth
               then title_indexes f @ (if incl then [] else body_indexes f) else [])"

lemma dfs_own:
  "dfs depth incl titles f =
     own_paths depth incl titles f (node_children f = []) @
     concat (map (dfs depth incl (passed depth incl titles f)) (node_children f))"
proof (cases f)
  case (ChunkNode level own body kids)
  show ?thesis
    unfolding ChunkNode own_paths_def passed_def dfs.simps Let_def
    by (cases incl; cases "1 \<le> level \<and> level \<le> depth") (simp_all, blast+)
qed

lemma own_paths_add_child [simp]: "own_paths depth incl titles (add_child p c) b = own_paths depth incl titles p b"
  by (simp add: own_paths_def add_child_def)

lemma passed_add_child [simp]: "passed depth incl titles (add_child p c) = passed depth incl titles p"
  by (simp add: passed_def add_child_def)

lemma node_children_add_child [simp]: "node_children (add_child p c) = node_children p @ [c]"
  by (simp add: add_child_def)

fun spine :: "int \<Rightarrow> bool \<Rightarrow> nat list \<Rightarrow> chunk_node list \<Rightarrow> nat list list" where
  "spine depth incl titles [] = []"
| "spine depth incl titles (f # fs) =
     own_paths depth incl titles f (node_children f = [] \<and> fs = []) @
     concat (map (dfs depth incl (passed depth incl titles f)) (node_children f)) @
     spine depth incl (passed depth incl titles f) fs"

lemma spine_pop: "spine depth incl titles (fs @ [p, t]) = spine depth incl titles (fs @ [add_child p t])"
proof (induction fs arbitrary: titles)
  case Nil
  show ?case by (simp add: dfs_own [of depth incl _ t])
next
  case (Cons f fs)
  then show ?case by simp
qed

lemma spine_pop_while: "spine depth incl titles (rev (pop_while level stack)) = spine depth incl titles (rev stack)"
  by (induction level stack rule: pop_while.induct) (simp_all add: spine_pop)

lemma dfs_unwind:
  "stack \<noteq> [] \<Longrightarrow> dfs depth incl titles (unwind stack) = spine depth incl titles (rev stack)"
  by (induction stack rule: unwind.induct) (simp_all add: spine_pop, simp add: dfs_own)

text \<open>The part of the output that no further node changes.\<close>

fun settled_paths :: "int \<Rightarrow> bool \<Rightarrow> nat list \<Rightarrow> chunk_node list \<Rightarrow> nat list list" where
  "settled_paths depth incl titles [] = []"
| "settled_paths depth incl titles (f # fs) =
     own_paths depth incl titles f False @
     concat (map (dfs depth incl (passed depth incl titles f)) (node_children f)) @
     settled_paths depth incl (passed depth incl titles f) fs"

lemma spine_snoc:
  "spine depth incl titles (fs @ [t]) =
     settled_paths depth incl titles fs @ dfs depth incl (foldl (passed depth incl) titles fs) t"
  by (induction fs arbitrary: titles) (simp_all add: dfs_own)

lemma settled_paths_snoc:
  "settled_paths depth incl titles (fs @ [t]) =
     settled_paths depth incl titles fs @ own_paths depth incl (foldl (passed depth incl) titles fs) t False @
     concat (map (dfs depth incl (passed depth incl (foldl (passed depth incl) titles fs) t)) (node_children t))"
  by (induction fs arbitrary: titles) simp_all

lemma settled_paths_parent:
  "node_children p \<noteq> [] \<Longrightarrow> settled_paths depth incl titles (fs @ [p]) = spine depth incl titles (fs @ [p])"
  by (simp add: settled_paths_snoc spine_snoc dfs_own [of depth incl _ p])

section \<open>What stands on the stack\<close>

definition node_key :: "chunk_node \<Rightarrow> int \<times> nat list \<times> nat list" where
  "node_key f = (node_level f, title_indexes f, body_indexes f)"

lemma node_key_add_child [simp]: "node_key (add_child p c) = node_key p"
  by (simp add: node_key_def add_child_def)

lemma fst_node_key [simp]: "fst (node_key f) = node_level f"
  by (simp add: node_key_def)

lemma node_level_add_child [simp]: "node_level (add_child p c) = node_level p"
  by (simp add: add_child_def)

lemma passed_key:
  "node_key f = (level, own, body) \<Longrightarrow>
   passed depth incl titles f =
     titles @ (if 1 \<le> level \<and> level \<le> depth then own @ (if incl then [] else body) else [])"
  by (simp add: node_key_def passed_def)

lemma pop_while_children:
  "node_children (hd stack) \<noteq> [] \<Longrightarrow> node_children (hd (pop_while level stack)) \<noteq> []"
  by (induction level stack rule: pop_while.induct) simp_all

lemma pop_while_nonempty: "stack \<noteq> [] \<Longrightarrow> pop_while level stack \<noteq> []"
  by (induction level stack rule: pop_while.induct) auto

lemma map_butlast_last: "xs \<noteq> [] \<Longrightarrow> map f (butlast xs) @ [f (last xs)] = map f xs"
  by (induction xs) auto

lemma map_key_pop_while:
  assumes "stack \<noteq> []" "sorted_wrt (\<lambda>a b. fst b < fst a) (map node_key (butlast stack))"
  shows "map node_key (pop_while level stack) =
           filter (\<lambda>k. fst k < level) (map node_key (butlast stack)) @ [node_key (last stack)]"
  using assms
proof (induction level stack rule: pop_while.induct)
  case (1 level t p rest)
  show ?case
  proof (cases "level \<le> node_level t")
    case True
    then show ?thesis
      using 1 by (cases rest) auto
  next
    case False
    then have "\<forall>k\<in>set (map node_key (butlast (p # rest))). fst k < level"
      using 1(3) by (auto split: if_splits)
    then have "filter (\<lambda>k. fst k < level) (map node_key (butlast (p # rest))) = map node_key (butlast (p # rest))"
      by (simp add: filter_id_conv)
    then show ?thesis
      using False map_butlast_last [of "p # rest" node_key] by (simp del: butlast.simps last.simps add: butlast.simps(2) [of t] last.simps [of t])
  qed
qed auto

section \<open>Positions\<close>

lemma body_run_heading_snoc:
  "s \<le> length ls \<Longrightarrow> l \<le> depth \<Longrightarrow> body_run (ls @ [l]) depth s = body_run ls depth s"
proof -
  have "takeWhile (\<lambda>i. depth < (ls @ [l]) ! i) [s..<length ls] = takeWhile (\<lambda>i. depth < ls ! i) [s..<length ls]"
    by (rule takeWhile_cong) (auto simp: nth_append)
  then show "s \<le> length ls \<Longrightarrow> l \<le> depth \<Longrightarrow> body_run (ls @ [l]) depth s = body_run ls depth s"
    by (simp add: body_run_def takeWhile_tail)
qed

lemma body_run_open:
  assumes "s \<le> length ls" "\<forall>k. s \<le> k \<and> k < length ls \<longrightarrow> depth < ls ! k"
  shows "body_run ls depth s = [s..<length ls]"
  using assms by (simp add: body_run_def takeWhile_eq_all_conv)

lemma body_run_closed:
  assumes "s \<le> k" "k < length ls" "ls ! k \<le> depth"
  shows "body_run (ls @ [l]) depth s = body_run ls depth s"
    and "s + length (body_run ls depth s) < length ls"
proof -
  have k: "k \<in> set [s..<length ls]" "\<not> depth < ls ! k"
    using assms by auto
  have "body_run (ls @ [l]) depth s = takeWhile (\<lambda>i. depth < (ls @ [l]) ! i) [s..<length ls]"
    using assms by (auto simp: body_run_def nth_append intro!: takeWhile_append1 [of k])
  also have "\<dots> = body_run ls depth s"
    unfolding body_run_def by (rule takeWhile_cong) (auto simp: nth_append)
  finally show "body_run (ls @ [l]) depth s = body_run ls depth s" .
  have "length (body_run ls depth s) \<noteq> length [s..<length ls]"
    using k unfolding body_run_def by (metis takeWhile_eq_take take_all_iff le_refl takeWhile_eq_all_conv)
  moreover have "length (body_run ls depth s) \<le> length [s..<length ls]"
    unfolding body_run_def by (rule length_takeWhile_le)
  ultimately show "s + length (body_run ls depth s) < length ls"
    using assms by simp
qed

definition open_headings :: "int list \<Rightarrow> int \<Rightarrow> nat list" where
  "open_headings ls depth =
     filter (\<lambda>j. ls ! j \<le> depth \<and> (\<forall>k\<in>{j<..<length ls}. ls ! j < ls ! k)) [0..<length ls]"

lemma open_headings_body:
  assumes "depth < l"
  shows "open_headings (ls @ [l]) depth = open_headings ls depth"
proof -
  have "filter (\<lambda>j. (ls @ [l]) ! j \<le> depth \<and> (\<forall>k\<in>{j<..<Suc (length ls)}. (ls @ [l]) ! j < (ls @ [l]) ! k)) [0..<length ls] =
        filter (\<lambda>j. ls ! j \<le> depth \<and> (\<forall>k\<in>{j<..<length ls}. ls ! j < ls ! k)) [0..<length ls]"
    using assms by (intro filter_cong) (auto simp: nth_append less_Suc_eq)
  then show ?thesis
    using assms by (simp add: open_headings_def nth_append)
qed

lemma open_headings_heading:
  assumes "l \<le> depth"
  shows "open_headings (ls @ [l]) depth = filter (\<lambda>j. ls ! j < l) (open_headings ls depth) @ [length ls]"
proof -
  have "filter (\<lambda>j. (ls @ [l]) ! j \<le> depth \<and> (\<forall>k\<in>{j<..<Suc (length ls)}. (ls @ [l]) ! j < (ls @ [l]) ! k)) [0..<length ls] =
        filter (\<lambda>j. ls ! j < l) (open_headings ls depth)"
    unfolding open_headings_def filter_filter
    by (intro filter_cong) (auto simp: nth_append less_Suc_eq all_conj_distrib Ball_def)
  then show ?thesis
    using assms by (simp add: open_headings_def nth_append)
qed

lemma outline_le: "j \<in> set (outline ls depth h) \<Longrightarrow> j \<le> h"
  unfolding outline_def by (simp only: set_filter set_upt) auto

lemma outline_snoc: "h < length ls \<Longrightarrow> outline (ls @ [l]) depth h = outline ls depth h"
  unfolding outline_def by (intro filter_cong) (auto simp: nth_append)

lemma outline_new: "outline (ls @ [l]) depth (length ls) = open_headings (ls @ [l]) depth"
  unfolding outline_def open_headings_def by (intro filter_cong) auto

lemma headings_snoc:
  "headings (ls @ [l]) depth = headings ls depth @ (if l \<le> depth then [length ls] else [])"
proof -
  have "filter (\<lambda>j. (ls @ [l]) ! j \<le> depth) [0..<length ls] = filter (\<lambda>j. ls ! j \<le> depth) [0..<length ls]"
    by (intro filter_cong) (auto simp: nth_append)
  then show ?thesis
    by (simp add: headings_def)
qed

lemma sorted_wrt_open_headings: "sorted_wrt (\<lambda>i j. ls ! i < ls ! j) (open_headings ls depth)"
  unfolding open_headings_def
  by (intro sorted_wrt_mono_rel [OF _ sorted_wrt_filter [OF sorted_wrt_upt]]) auto

text \<open>The last heading is the innermost open one.\<close>

lemma open_headings_last:
  assumes "headings ls depth = hs @ [h]"
  obtains js where "open_headings ls depth = js @ [h]" "outline ls depth h = js @ [h]"
    and "h < length ls" "ls ! h \<le> depth" "\<forall>k. h < k \<and> k < length ls \<longrightarrow> depth < ls ! k"
proof -
  have h: "h < length ls" "ls ! h \<le> depth"
    using arg_cong [OF assms, of set] by (auto simp: headings_def)
  have "sorted_wrt (<) (headings ls depth)"
    unfolding headings_def by (intro sorted_wrt_filter sorted_wrt_upt)
  then have "\<forall>k\<in>set (headings ls depth). k \<le> h"
    unfolding assms by (auto simp: sorted_wrt_append)
  then have after: "\<forall>k. h < k \<and> k < length ls \<longrightarrow> depth < ls ! k"
    by (fastforce simp: headings_def)
  let ?js = "filter (\<lambda>j. ls ! j \<le> depth \<and> (\<forall>k\<in>{j<..h}. ls ! j < ls ! k)) [0..<h]"
  have "[0..<length ls] = [0..<h] @ h # [Suc h..<length ls]"
    using h upt_add_eq_append [of 0 h "length ls - h"] by (simp add: upt_conv_Cons)
  moreover have "filter (\<lambda>j. ls ! j \<le> depth \<and> (\<forall>k\<in>{j<..<length ls}. ls ! j < ls ! k)) [Suc h..<length ls] = []"
    using after by (force simp: filter_empty_conv Suc_le_eq)
  moreover have "filter (\<lambda>j. ls ! j \<le> depth \<and> (\<forall>k\<in>{j<..<length ls}. ls ! j < ls ! k)) [0..<h] = ?js"
  proof (intro filter_cong refl)
    fix j assume "j \<in> set [0..<h]"
    moreover have "ls ! j \<le> depth \<Longrightarrow> \<forall>k\<in>{h<..<length ls}. ls ! j < ls ! k"
      using after by fastforce
    moreover have "{j<..<length ls} = {j<..h} \<union> {h<..<length ls}" if "j < h"
      using that h by auto
    ultimately show "(ls ! j \<le> depth \<and> (\<forall>k\<in>{j<..<length ls}. ls ! j < ls ! k)) =
        (ls ! j \<le> depth \<and> (\<forall>k\<in>{j<..h}. ls ! j < ls ! k))"
      by (auto simp: ball_Un)
  qed
  ultimately have "open_headings ls depth = ?js @ [h]"
    using h after by (force simp: open_headings_def)
  moreover have "outline ls depth h = ?js @ [h]"
    using h by (simp add: outline_def)
  ultimately show thesis
    using that h after by blast
qed

lemma open_headings_none: "headings ls depth = [] \<Longrightarrow> open_headings ls depth = []"
  by (auto simp: headings_def open_headings_def filter_empty_conv)

lemma section_paths_earlier:
  assumes "h < k" "k < length ls" "ls ! k \<le> depth"
  shows "section_paths (ls @ [l]) depth incl h = section_paths ls depth incl h"
proof -
  have "body_run (ls @ [l]) depth (Suc j) = body_run ls depth (Suc j)" if "j \<le> h" for j
    using that assms by (intro body_run_closed(1) [of _ k]) auto
  moreover have "Suc h + length (body_run ls depth (Suc h)) < length ls"
    using assms by (intro body_run_closed(2) [of _ k]) auto
  moreover from calculation(1) have "map (\<lambda>j. j # body_run (ls @ [l]) depth (Suc j)) (outline ls depth h) =
      map (\<lambda>j. j # body_run ls depth (Suc j)) (outline ls depth h)"
    using outline_le by (intro map_cong refl) auto
  ultimately show ?thesis
    using assms unfolding section_paths_def section_path_def lowest_def
    by (simp add: outline_snoc nth_append Let_def cong: map_cong)
qed

lemma concat_section_paths_earlier:
  assumes "headings ls depth = hs @ [h]"
  shows "concat (map (section_paths (ls @ [l]) depth incl) hs) = concat (map (section_paths ls depth incl) hs)"
proof -
  have "h < length ls" "ls ! h \<le> depth"
    using arg_cong [OF assms, of set] by (auto simp: headings_def)
  moreover have "sorted_wrt (<) (hs @ [h])"
    unfolding assms [symmetric] headings_def by (intro sorted_wrt_filter sorted_wrt_upt)
  ultimately show ?thesis
    by (auto simp: sorted_wrt_append intro!: arg_cong [of _ _ concat] section_paths_earlier [of _ h])
qed

section \<open>The tree against the reference\<close>

definition heading_key :: "int list \<Rightarrow> int \<Rightarrow> nat \<Rightarrow> int \<times> nat list \<times> nat list" where
  "heading_key ls depth j = (ls ! j, [j], body_run ls depth (Suc j))"

definition heading_part :: "int list \<Rightarrow> int \<Rightarrow> bool \<Rightarrow> nat \<Rightarrow> nat list" where
  "heading_part ls depth incl j = j # (if incl then [] else body_run ls depth (Suc j))"

lemma foldl_passed_headings:
  assumes "map node_key fs = map (heading_key ls depth) js" "\<forall>j\<in>set js. 1 \<le> ls ! j \<and> ls ! j \<le> depth"
  shows "foldl (passed depth incl) titles fs = titles @ concat (map (heading_part ls depth incl) js)"
  using assms
proof (induction fs arbitrary: js titles)
  case Nil
  then show ?case by simp
next
  case (Cons f fs)
  then obtain j js' where js: "js = j # js'" "node_key f = heading_key ls depth j"
      "map node_key fs = map (heading_key ls depth) js'"
    by auto
  have "passed depth incl titles f = titles @ heading_part ls depth incl j"
    using js Cons.prems(2) passed_key [of f "ls ! j" "[j]" "body_run ls depth (Suc j)"]
    by (simp add: heading_key_def heading_part_def)
  then show ?case
    using Cons.IH [OF js(3)] Cons.prems(2) js(1) by simp
qed

lemma section_path_parts:
  "outline ls depth h = js @ [h] \<Longrightarrow>
   section_path ls depth incl h =
     concat (map (heading_part ls depth incl) js) @ h # body_run ls depth (Suc h)"
  by (cases incl) (simp_all add: section_path_def heading_part_def [abs_def])

definition stack_inv :: "int list \<Rightarrow> int \<Rightarrow> bool \<Rightarrow> chunk_node list \<Rightarrow> bool" where
  "stack_inv ls depth incl stack \<longleftrightarrow>
     stack \<noteq> [] \<and> node_children (hd stack) = [] \<and>
     map node_key (rev stack) = (0, [], body_run ls depth 0) # map (heading_key ls depth) (open_headings ls depth) \<and>
     spine depth incl [] (rev stack) = hierarchy_reference ls depth incl"

lemma dfs_heading:
  assumes "node_key t = heading_key ls depth h" "node_children t = []" "1 \<le> ls ! h" "ls ! h \<le> depth"
  shows "dfs depth incl titles t = [titles @ h # body_run ls depth (Suc h)]"
  using assms by (simp add: dfs_own own_paths_def node_key_def heading_key_def)

lemma own_paths_heading:
  assumes "node_key t = heading_key ls depth h" "1 \<le> ls ! h" "ls ! h \<le> depth"
  shows "own_paths depth incl titles t False =
           (if incl \<and> body_run ls depth (Suc h) \<noteq> [] then [titles @ h # body_run ls depth (Suc h)] else [])"
  using assms by (auto simp: own_paths_def node_key_def heading_key_def)

lemma foldl_passed_stack:
  assumes "map node_key fs = (0, [], body) # map (heading_key ls depth) js" "\<forall>j\<in>set js. 1 \<le> ls ! j \<and> ls ! j \<le> depth"
  shows "foldl (passed depth incl) [] fs = concat (map (heading_part ls depth incl) js)"
proof -
  obtain r fs' where fs: "fs = r # fs'" "node_key r = (0, [], body)" "map node_key fs' = map (heading_key ls depth) js"
    using assms(1) by auto
  have "passed depth incl [] r = []"
    using passed_key [OF fs(2)] by simp
  then show ?thesis
    using foldl_passed_headings [OF fs(3) assms(2)] fs(1) by simp
qed

lemma open_headings_levels:
  assumes "\<forall>x\<in>set ls. 1 \<le> x"
  shows "\<forall>j\<in>set (open_headings ls depth). 1 \<le> ls ! j \<and> ls ! j \<le> depth"
  using assms by (auto simp: open_headings_def)

definition front_paths :: "int list \<Rightarrow> int \<Rightarrow> bool \<Rightarrow> nat list \<Rightarrow> nat list list" where
  "front_paths ls depth incl hs =
     (if body_run ls depth 0 = [] then [] else [body_run ls depth 0]) @ concat (map (section_paths ls depth incl) hs)"

lemma hierarchy_reference_front: "hierarchy_reference ls depth incl = front_paths ls depth incl (headings ls depth)"
  by (simp add: hierarchy_reference_def front_paths_def)

lemma lowest_last:
  assumes "\<forall>k. h < k \<and> k < length ls \<longrightarrow> depth < ls ! k" "h < length ls"
  shows "lowest ls depth h"
proof -
  have "body_run ls depth (Suc h) = [Suc h..<length ls]"
    using assms by (intro body_run_open) auto
  then have "Suc h + length (body_run ls depth (Suc h)) = length ls"
    using assms(2) by simp
  then show ?thesis by (simp add: lowest_def Let_def)
qed

lemma stack_inv_top:
  assumes inv: "stack_inv ls depth incl stack" and hs: "headings ls depth = hs @ [h]" and pos: "\<forall>x\<in>set ls. 1 \<le> x"
  obtains t rest js where "stack = t # rest" "node_children t = []" "node_key t = heading_key ls depth h"
    and "map node_key (rev rest) = (0, [], body_run ls depth 0) # map (heading_key ls depth) js"
    and "open_headings ls depth = js @ [h]" "outline ls depth h = js @ [h]"
    and "foldl (passed depth incl) [] (rev rest) = concat (map (heading_part ls depth incl) js)"
    and "settled_paths depth incl [] (rev rest) = front_paths ls depth incl hs"
proof -
  from open_headings_last [OF hs] obtain js where js: "open_headings ls depth = js @ [h]" "outline ls depth h = js @ [h]"
      and h: "h < length ls" "ls ! h \<le> depth" and after: "\<forall>k. h < k \<and> k < length ls \<longrightarrow> depth < ls ! k"
    by blast
  obtain t rest where stack: "stack = t # rest" "node_children t = []"
    using inv by (cases stack) (auto simp: stack_inv_def)
  have keys: "map node_key (rev rest) = (0, [], body_run ls depth 0) # map (heading_key ls depth) js"
      "node_key t = heading_key ls depth h"
    using inv js(1) stack by (auto simp: stack_inv_def append_eq_Cons_conv append_eq_append_conv2)
  have titles: "foldl (passed depth incl) [] (rev rest) = concat (map (heading_part ls depth incl) js)"
    using open_headings_levels [OF pos, of depth] js(1) by (intro foldl_passed_stack [OF keys(1)]) auto
  have "dfs depth incl (foldl (passed depth incl) [] (rev rest)) t = section_paths ls depth incl h"
    using dfs_heading [OF keys(2) stack(2)] h pos lowest_last [OF after h(1)] section_path_parts [OF js(2)] titles
    by (simp add: section_paths_def)
  moreover have "spine depth incl [] (rev stack) = front_paths ls depth incl hs @ section_paths ls depth incl h"
    using inv hs by (simp add: stack_inv_def hierarchy_reference_front front_paths_def)
  ultimately have "settled_paths depth incl [] (rev rest) = front_paths ls depth incl hs"
    using stack by (simp add: spine_snoc)
  then show thesis
    by (rule that [OF stack keys(2) keys(1) js titles])
qed

lemma node_key_add_body:
  "node_key t = (level, own, body) \<Longrightarrow> node_key (add_body_index i t) = (level, own, body @ [i])"
  by (simp add: node_key_def add_body_index_def)

lemma body_run_body_snoc:
  assumes "s \<le> length ls" "\<forall>k. s \<le> k \<and> k < length ls \<longrightarrow> depth < ls ! k" "depth < l"
  shows "body_run (ls @ [l]) depth s = body_run ls depth s @ [length ls]"
proof -
  have "body_run (ls @ [l]) depth s = [s..<Suc (length ls)]"
    using assms body_run_open [of s "ls @ [l]" depth] by (auto simp: nth_append)
  then show ?thesis
    using assms(1) body_run_open [OF assms(1,2)] by simp
qed

lemma heading_keys_earlier:
  assumes "\<forall>j\<in>set js. j < h" "h < length ls" "ls ! h \<le> depth"
  shows "map (heading_key (ls @ [l]) depth) js = map (heading_key ls depth) js"
  using assms by (auto simp: heading_key_def nth_append body_run_closed(1) [of _ h])

lemma outline_prefix_less: "outline ls depth h = js @ [h] \<Longrightarrow> \<forall>j\<in>set js. j < h"
  using sorted_wrt_filter [OF sorted_wrt_upt [of 0 "Suc h"]] unfolding outline_def
  by (metis (no_types, lifting) sorted_wrt_append list.set_intros(1))

lemma headings_empty: "headings ls depth = [] \<Longrightarrow> k < length ls \<Longrightarrow> depth < ls ! k"
  by (force simp: headings_def filter_empty_conv)

lemma stack_inv_body:
  assumes inv: "stack_inv ls depth incl stack" and pos: "\<forall>x\<in>set ls. 1 \<le> x" and l: "depth < l" "1 \<le> l"
  shows "stack_inv (ls @ [l]) depth incl (tree_line depth stack (l, length ls))"
proof (cases "headings ls depth" rule: rev_cases)
  case Nil
  note body = headings_empty [OF Nil]
  obtain t where t: "stack = [t]" "node_children t = []" "node_key t = (0, [], body_run ls depth 0)"
    using inv open_headings_none [OF Nil] by (cases stack) (auto simp: stack_inv_def)
  have run: "body_run (ls @ [l]) depth 0 = body_run ls depth 0 @ [length ls]"
    using body l by (intro body_run_body_snoc) auto
  have "spine depth incl [] [add_body_index (length ls) t] = [body_run ls depth 0 @ [length ls]]"
    using t by (simp add: dfs_own own_paths_def add_body_index_def node_key_def)
  moreover have "hierarchy_reference (ls @ [l]) depth incl = [body_run ls depth 0 @ [length ls]]"
    using l Nil run by (simp add: hierarchy_reference_def headings_snoc)
  ultimately show ?thesis
    using t l run node_key_add_body [OF t(3)] open_headings_body [OF l(1)] open_headings_none [OF Nil]
    by (simp add: stack_inv_def add_body_index_def)
next
  case (snoc hs h)
  obtain t rest js where top: "stack = t # rest" "node_children t = []" "node_key t = heading_key ls depth h"
      "map node_key (rev rest) = (0, [], body_run ls depth 0) # map (heading_key ls depth) js"
      "open_headings ls depth = js @ [h]" "outline ls depth h = js @ [h]"
      "foldl (passed depth incl) [] (rev rest) = concat (map (heading_part ls depth incl) js)"
      "settled_paths depth incl [] (rev rest) = front_paths ls depth incl hs"
    by (rule stack_inv_top [OF inv snoc pos])
  from open_headings_last [OF snoc] have h: "h < length ls" "ls ! h \<le> depth"
      and after: "\<forall>k. h < k \<and> k < length ls \<longrightarrow> depth < ls ! k"
    by blast+
  have h': "h < length (ls @ [l])" "1 \<le> (ls @ [l]) ! h" "(ls @ [l]) ! h \<le> depth"
    using h pos by (auto simp: nth_append)
  have root: "body_run (ls @ [l]) depth 0 = body_run ls depth 0"
    by (rule body_run_closed(1) [OF _ h]) simp
  have run: "body_run (ls @ [l]) depth (Suc h) = body_run ls depth (Suc h) @ [length ls]"
    using h after l by (intro body_run_body_snoc) auto
  have before: "map (heading_key (ls @ [l]) depth) js = map (heading_key ls depth) js"
    using heading_keys_earlier [OF outline_prefix_less [OF top(6)] h] .
  define t' where "t' = add_body_index (length ls) t"
  have t': "node_key t' = heading_key (ls @ [l]) depth h" "node_children t' = []"
    using top(2,3) h run by (simp_all add: t'_def heading_key_def nth_append node_key_def add_body_index_def)
  have "lowest (ls @ [l]) depth h"
    using after h l by (intro lowest_last) (auto simp: nth_append less_Suc_eq)
  moreover have "concat (map (heading_part (ls @ [l]) depth incl) js) = concat (map (heading_part ls depth incl) js)"
    using before by (auto simp: heading_part_def heading_key_def intro!: arg_cong [of _ _ concat])
  ultimately have "dfs depth incl (foldl (passed depth incl) [] (rev rest)) t' = section_paths (ls @ [l]) depth incl h"
    using dfs_heading [OF t' h'(2,3)] top(6,7) outline_snoc [OF h(1)] section_path_parts [of "ls @ [l]" depth h js]
    by (simp add: section_paths_def)
  then have "spine depth incl [] (rev (t' # rest)) = hierarchy_reference (ls @ [l]) depth incl"
    using top(8) l snoc root concat_section_paths_earlier [OF snoc]
    by (simp add: spine_snoc hierarchy_reference_front headings_snoc front_paths_def)
  then show ?thesis
    using top l t' root before open_headings_body [OF l(1)] by (simp add: stack_inv_def t'_def)
qed

lemma stack_keys:
  assumes "stack_inv ls depth incl stack"
  shows "map node_key (butlast stack) = rev (map (heading_key ls depth) (open_headings ls depth))"
    and "node_key (last stack) = (0, [], body_run ls depth 0)"
proof -
  have "map node_key stack = rev (map (heading_key ls depth) (open_headings ls depth)) @ [(0, [], body_run ls depth 0)]"
    using assms unfolding stack_inv_def by (metis rev_map rev.simps(2) rev_rev_ident)
  then show "map node_key (butlast stack) = rev (map (heading_key ls depth) (open_headings ls depth))"
      "node_key (last stack) = (0, [], body_run ls depth 0)"
    using assms by (simp_all add: map_butlast stack_inv_def flip: last_map)
qed

lemma pop_while_keys:
  assumes "stack_inv ls depth incl stack"
  shows "map node_key (rev (pop_while l stack)) =
           (0, [], body_run ls depth 0) # map (heading_key ls depth) (filter (\<lambda>j. ls ! j < l) (open_headings ls depth))"
proof -
  have "sorted_wrt (\<lambda>a b. fst b < fst a) (map node_key (butlast stack))"
    using sorted_wrt_open_headings [of ls depth]
    by (simp add: stack_keys [OF assms] sorted_wrt_rev sorted_wrt_map heading_key_def)
  then have "map node_key (pop_while l stack) =
      filter (\<lambda>k. fst k < l) (rev (map (heading_key ls depth) (open_headings ls depth))) @ [(0, [], body_run ls depth 0)]"
    using assms map_key_pop_while [of stack l] by (simp add: stack_keys [OF assms] stack_inv_def)
  then have "rev (map node_key (pop_while l stack)) =
      (0, [], body_run ls depth 0) # map (heading_key ls depth) (filter (\<lambda>j. ls ! j < l) (open_headings ls depth))"
    by (simp add: rev_filter filter_map o_def heading_key_def)
  then show ?thesis
    by (simp add: rev_map)
qed

lemma section_paths_last_heading:
  assumes "headings ls depth = hs @ [h]" "l \<le> depth" "outline ls depth h = js @ [h]"
  shows "section_paths (ls @ [l]) depth incl h =
           (if l \<le> ls ! h then section_paths ls depth incl h
            else if incl \<and> body_run ls depth (Suc h) \<noteq> [] then [section_path ls depth incl h] else [])"
proof -
  from open_headings_last [OF assms(1)] have h: "h < length ls" "ls ! h \<le> depth"
      and after: "\<forall>k. h < k \<and> k < length ls \<longrightarrow> depth < ls ! k"
    by blast+
  have runs: "body_run (ls @ [l]) depth (Suc j) = body_run ls depth (Suc j)" if "j \<le> h" for j
    using that h assms(2) by (intro body_run_heading_snoc) auto
  have path: "section_path (ls @ [l]) depth incl h = section_path ls depth incl h"
    using runs outline_le [of _ ls depth h] outline_snoc [OF h(1)]
    by (auto simp: section_path_def intro!: arg_cong [of _ _ concat])
  have "body_run ls depth (Suc h) = [Suc h..<length ls]"
    using h after by (intro body_run_open) auto
  then have "Suc h + length (body_run ls depth (Suc h)) = length ls"
    using h by simp
  then have "lowest (ls @ [l]) depth h \<longleftrightarrow> l \<le> ls ! h"
    using runs [of h] h by (simp add: lowest_def Let_def nth_append)
  then show ?thesis
    using lowest_last [OF after h(1)] runs [of h] path by (cases incl) (simp_all add: section_paths_def)
qed

lemma settled_after_pop:
  assumes inv: "stack_inv ls depth incl stack" and pos: "\<forall>x\<in>set ls. 1 \<le> x" and l: "l \<le> depth" "1 \<le> l"
  shows "settled_paths depth incl [] (rev (pop_while l stack)) = front_paths (ls @ [l]) depth incl (headings ls depth)"
proof (cases "headings ls depth" rule: rev_cases)
  case Nil
  obtain t where t: "stack = [t]" "node_children t = []" "node_key t = (0, [], body_run ls depth 0)"
    using inv open_headings_none [OF Nil] by (cases stack) (auto simp: stack_inv_def)
  then show ?thesis
    using l Nil by (simp add: front_paths_def own_paths_def node_key_def body_run_heading_snoc)
next
  case (snoc hs h)
  obtain t rest js where top: "stack = t # rest" "node_children t = []" "node_key t = heading_key ls depth h"
      "map node_key (rev rest) = (0, [], body_run ls depth 0) # map (heading_key ls depth) js"
      "open_headings ls depth = js @ [h]" "outline ls depth h = js @ [h]"
      "foldl (passed depth incl) [] (rev rest) = concat (map (heading_part ls depth incl) js)"
      "settled_paths depth incl [] (rev rest) = front_paths ls depth incl hs"
    by (rule stack_inv_top [OF inv snoc pos])
  obtain p below where rest: "rest = p # below"
    using top(4) by (cases rest) auto
  from open_headings_last [OF snoc] have h: "h < length ls" "ls ! h \<le> depth"
    by blast+
  have level: "node_level t = ls ! h"
    using top(3) by (simp add: node_key_def heading_key_def)
  have front: "front_paths (ls @ [l]) depth incl (hs @ [h]) =
      front_paths ls depth incl hs @ section_paths (ls @ [l]) depth incl h"
    using l concat_section_paths_earlier [OF snoc] by (simp add: front_paths_def body_run_heading_snoc)
  show ?thesis
  proof (cases "l \<le> ls ! h")
    case False
    then have "pop_while l stack = stack"
      using top(1) rest level by simp
    moreover have "1 \<le> ls ! h"
      using pos h by simp
    ultimately show ?thesis
      using False own_paths_heading [OF top(3) _ h(2)] top(1,2,7,8) front snoc
        section_paths_last_heading [OF snoc l(1) top(6)] section_path_parts [OF top(6)]
      by (simp add: settled_paths_snoc)
  next
    case True
    then have pop: "pop_while l stack = pop_while l (add_child p t # below)"
      using top(1) rest level by simp
    obtain q under where q: "pop_while l stack = q # under" "node_children q \<noteq> []"
      using pop_while_nonempty [of "add_child p t # below" l] pop_while_children [of "add_child p t # below" l] pop
      by (metis list.collapse node_children_add_child list.sel(1) snoc_eq_iff_butlast list.distinct(1))
    have "settled_paths depth incl [] (rev (pop_while l stack)) = hierarchy_reference ls depth incl"
      using settled_paths_parent [OF q(2), of depth incl "[]" "rev under"] spine_pop_while [of depth incl "[]" l stack] inv
      by (simp add: q(1) stack_inv_def)
    then show ?thesis
      using True snoc front section_paths_last_heading [OF snoc l(1) top(6)]
      by (simp add: hierarchy_reference_front front_paths_def)
  qed
qed

lemma stack_inv_heading:
  assumes inv: "stack_inv ls depth incl stack" and pos: "\<forall>x\<in>set ls. 1 \<le> x" and l: "l \<le> depth" "1 \<le> l"
  shows "stack_inv (ls @ [l]) depth incl (tree_line depth stack (l, length ls))"
proof -
  let ?js = "filter (\<lambda>j. ls ! j < l) (open_headings ls depth)"
  define new where "new = ChunkNode l [length ls] [] []"
  have run: "body_run (ls @ [l]) depth (Suc (length ls)) = []"
    by (simp add: body_run_def)
  have new: "node_key new = heading_key (ls @ [l]) depth (length ls)" "node_children new = []"
    using run by (simp_all add: new_def node_key_def heading_key_def)
  have js: "\<forall>j\<in>set ?js. j < length ls \<and> 1 \<le> (ls @ [l]) ! j \<and> (ls @ [l]) ! j \<le> depth"
    using open_headings_levels [OF pos, of depth] by (auto simp: open_headings_def nth_append)
  have same: "map (heading_key (ls @ [l]) depth) ?js = map (heading_key ls depth) ?js"
    using js l by (intro map_cong) (auto simp: heading_key_def nth_append body_run_heading_snoc)
  have root: "body_run (ls @ [l]) depth 0 = body_run ls depth 0"
    using l by (simp add: body_run_heading_snoc)
  note keys = pop_while_keys [OF inv, of l, folded same root]
  have outline: "outline (ls @ [l]) depth (length ls) = ?js @ [length ls]"
    using outline_new open_headings_heading [OF l(1)] by metis
  have "foldl (passed depth incl) [] (rev (pop_while l stack)) = concat (map (heading_part (ls @ [l]) depth incl) ?js)"
    using js by (intro foldl_passed_stack [OF keys]) auto
  moreover have "lowest (ls @ [l]) depth (length ls)"
    by (rule lowest_last) auto
  ultimately have "dfs depth incl (foldl (passed depth incl) [] (rev (pop_while l stack))) new =
      section_paths (ls @ [l]) depth incl (length ls)"
    using dfs_heading [OF new] l section_path_parts [OF outline] by (simp add: section_paths_def)
  then have "spine depth incl [] (rev (new # pop_while l stack)) = hierarchy_reference (ls @ [l]) depth incl"
    using settled_after_pop [OF inv pos l] l
    by (simp add: spine_snoc hierarchy_reference_front headings_snoc front_paths_def)
  then show ?thesis
    using new keys l open_headings_heading [OF l(1)] by (simp add: stack_inv_def flip: new_def)
qed

lemma stack_inv_lines:
  assumes "\<forall>x\<in>set ls. 1 \<le> x"
  shows "stack_inv ls depth incl (foldl (tree_line depth) [ChunkNode 0 [] [] []] (zip ls [0..<length ls]))"
  using assms
proof (induction ls rule: rev_induct)
  case Nil
  show ?case
    by (simp add: stack_inv_def node_key_def body_run_def open_headings_def hierarchy_reference_def headings_def
        dfs_own own_paths_def)
next
  case (snoc l ls)
  then have "stack_inv ls depth incl (foldl (tree_line depth) [ChunkNode 0 [] [] []] (zip ls [0..<length ls]))"
    by simp
  then show ?case
    using snoc.prems stack_inv_body [of ls depth incl _ l] stack_inv_heading [of ls depth incl _ l]
    by (cases "depth < l") (auto simp: zip_append not_less simp del: tree_line.simps)
qed

lemma get_paths_reference:
  assumes "\<forall>x\<in>set ls. 1 \<le> x"
  shows "get_paths (build_tree (ChunkNode 0 [] [] []) (zip ls [0..<length ls]) depth) depth incl =
           hierarchy_reference ls depth incl"
  using stack_inv_lines [OF assms, of depth incl]
  by (simp add: stack_inv_def get_paths_def build_tree_def dfs_unwind)

section \<open>Every line is kept, in order\<close>

lemma body_run_filter:
  "body_run ls depth s = filter (\<lambda>i. \<forall>k. s \<le> k \<and> k \<le> i \<longrightarrow> depth < ls ! k) [s..<length ls]"
proof (induction "length ls - s" arbitrary: s)
  case 0
  then show ?case by (simp add: body_run_def)
next
  case (Suc m)
  then have s: "s < length ls" and IH: "body_run ls depth (Suc s) =
      filter (\<lambda>i. \<forall>k. Suc s \<le> k \<and> k \<le> i \<longrightarrow> depth < ls ! k) [Suc s..<length ls]"
    by auto
  show ?case
  proof (cases "depth < ls ! s")
    case True
    then have "(\<forall>k. s \<le> k \<and> k \<le> i \<longrightarrow> depth < ls ! k) \<longleftrightarrow> (\<forall>k. Suc s \<le> k \<and> k \<le> i \<longrightarrow> depth < ls ! k)" for i
      by (metis Suc_leD Suc_leI le_neq_implies_less)
    then show ?thesis
      using s True IH by (simp add: body_run_def upt_conv_Cons)
  next
    case False
    then have "filter (\<lambda>i. \<forall>k. s \<le> k \<and> k \<le> i \<longrightarrow> depth < ls ! k) [s..<length ls] = []"
      by (auto simp: filter_empty_conv)
    then show ?thesis
      using s False by (simp add: body_run_def upt_conv_Cons)
  qed
qed

lemma body_run_iff:
  "i \<in> set (body_run ls depth s) \<longleftrightarrow> s \<le> i \<and> i < length ls \<and> (\<forall>k. s \<le> k \<and> k \<le> i \<longrightarrow> depth < ls ! k)"
  by (auto simp: body_run_filter)

lemma outline_iff:
  "j \<in> set (outline ls depth h) \<longleftrightarrow> j \<le> h \<and> ls ! j \<le> depth \<and> (\<forall>k. j < k \<and> k \<le> h \<longrightarrow> ls ! j < ls ! k)"
  unfolding outline_def by (auto simp: less_Suc_eq_le simp del: upt_Suc)

lemma next_heading:
  assumes "h < length ls" "\<not> lowest ls depth h"
  obtains k where "h < k" "k < length ls" "ls ! k \<le> depth" "ls ! h < ls ! k" "\<forall>i. h < i \<and> i < k \<longrightarrow> depth < ls ! i"
proof -
  let ?run = "body_run ls depth (Suc h)"
  let ?k = "Suc h + length ?run"
  have le: "length ?run \<le> length ls - Suc h"
    using length_takeWhile_le [of "\<lambda>i. depth < ls ! i" "[Suc h..<length ls]"] by (simp add: body_run_def)
  have k: "?k < length ls" "ls ! h < ls ! ?k"
    using assms le by (auto simp: lowest_def Let_def)
  have "\<not> depth < ls ! ([Suc h..<length ls] ! length ?run)"
    using nth_length_takeWhile [of "\<lambda>i. depth < ls ! i" "[Suc h..<length ls]"] k by (simp add: body_run_def)
  then have "ls ! ?k \<le> depth"
    using k by simp
  moreover have "depth < ls ! i" if "h < i" "i < ?k" for i
  proof -
    have "?run ! (i - Suc h) = [Suc h..<length ls] ! (i - Suc h)"
      using that by (simp add: body_run_def takeWhile_nth)
    then have "i \<in> set ?run"
      using that k nth_mem [of "i - Suc h" ?run] by simp
    then show ?thesis by (simp add: body_run_iff)
  qed
  ultimately show thesis
    using that [of ?k] k by simp
qed

lemma lowest_below:
  assumes "h < length ls" "ls ! h \<le> depth"
  obtains h' where "h \<in> set (outline ls depth h')" "h' \<in> set (headings ls depth)" "lowest ls depth h'"
  using assms
proof (induction "length ls - h" arbitrary: h thesis rule: less_induct)
  case less
  show ?case
  proof (cases "lowest ls depth h")
    case True
    then show ?thesis
      using less.prems(2,3) by (intro less.prems(1) [of h]) (auto simp: outline_iff headings_def)
  next
    case False
    with less.prems(2) obtain k where k: "h < k" "k < length ls" "ls ! k \<le> depth" "ls ! h < ls ! k"
        "\<forall>i. h < i \<and> i < k \<longrightarrow> depth < ls ! i"
      by (rule next_heading)
    then obtain h' where h': "k \<in> set (outline ls depth h')" "h' \<in> set (headings ls depth)" "lowest ls depth h'"
      using less.hyps [of k thesis] less.prems(2) by (meson diff_less_mono2 less.hyps)
    have "ls ! h < ls ! i" if "h < i" "i \<le> h'" for i
      using that k h'(1) less.prems(3) by (cases i k rule: linorder_cases) (fastforce simp: outline_iff)+
    moreover have "h \<le> h'"
      using k(1) h'(1) by (simp add: outline_iff)
    ultimately have "h \<in> set (outline ls depth h')"
      using less.prems(3) by (simp add: outline_iff)
    then show ?thesis
      using less.prems(1) h' by blast
  qed
qed

lemma reference_paths:
  "p \<in> set (hierarchy_reference ls depth incl) \<longleftrightarrow>
     p = body_run ls depth 0 \<and> p \<noteq> [] \<or>
     (\<exists>h\<in>set (headings ls depth). p = section_path ls depth incl h \<and>
        (lowest ls depth h \<or> incl \<and> body_run ls depth (Suc h) \<noteq> []))"
  by (auto simp: hierarchy_reference_def section_paths_def)

lemma enclosing_heading:
  fixes ls :: "int list"
  assumes "k \<le> i" "ls ! k \<le> depth"
  obtains h where "h \<le> i" "ls ! h \<le> depth" "\<forall>k. h < k \<and> k \<le> i \<longrightarrow> depth < ls ! k"
proof -
  let ?H = "{h. h \<le> i \<and> ls ! h \<le> depth}"
  have H: "finite ?H" "?H \<noteq> {}"
    using assms by (auto intro: finite_subset [of _ "{..i}"])
  have "Max ?H \<in> ?H"
    by (rule Max_in [OF H])
  moreover have "depth < ls ! k" if "Max ?H < k" "k \<le> i" for k
  proof (rule ccontr)
    assume "\<not> depth < ls ! k"
    with that(2) have "k \<le> Max ?H"
      by (intro Max_ge [OF H(1)]) simp
    with that(1) show False by simp
  qed
  ultimately show thesis
    using that by blast
qed

lemma reference_complete: "(\<Union>p\<in>set (hierarchy_reference ls depth incl). set p) = {..<length ls}"
proof (intro subset_antisym subsetI)
  fix i assume "i \<in> (\<Union>p\<in>set (hierarchy_reference ls depth incl). set p)"
  then obtain p where "p \<in> set (hierarchy_reference ls depth incl)" "i \<in> set p"
    by blast
  then show "i \<in> {..<length ls}"
    unfolding reference_paths
    by (fastforce simp: section_path_def body_run_iff outline_iff headings_def split: if_splits)
next
  fix i assume "i \<in> {..<length ls}"
  then have i: "i < length ls" by simp
  have "\<exists>p\<in>set (hierarchy_reference ls depth incl). i \<in> set p"
  proof (cases "\<exists>k\<le>i. ls ! k \<le> depth")
    case False
    then have "i \<in> set (body_run ls depth 0)"
      using i by (auto simp: body_run_iff not_le [symmetric])
    then show ?thesis
      unfolding reference_paths by (auto intro!: bexI [of _ "body_run ls depth 0"] simp: reference_paths)
  next
    case True
    then obtain h where h: "h \<le> i" "ls ! h \<le> depth" "\<forall>k. h < k \<and> k \<le> i \<longrightarrow> depth < ls ! k"
      by (meson enclosing_heading)
    then have here: "i = h \<or> i \<in> set (body_run ls depth (Suc h))" and head: "h \<in> set (headings ls depth)"
      using i by (auto simp: body_run_iff headings_def)
    obtain h' where h': "h \<in> set (outline ls depth h')" "h' \<in> set (headings ls depth)" "lowest ls depth h'"
      using h i by (meson lowest_below le_less_trans)
    show ?thesis
    proof (cases "incl \<and> i \<in> set (body_run ls depth (Suc h))")
      case True
      then have "section_path ls depth incl h \<in> set (hierarchy_reference ls depth incl)"
        using head unfolding reference_paths by auto
      then show ?thesis
        using True by (intro bexI) (auto simp: section_path_def)
    next
      case False
      then have "i \<in> set (section_path ls depth incl h')"
        using here h'(1) by (auto simp: section_path_def)
      moreover have "section_path ls depth incl h' \<in> set (hierarchy_reference ls depth incl)"
        using h' unfolding reference_paths by blast
      ultimately show ?thesis by blast
    qed
  qed
  then show "i \<in> (\<Union>p\<in>set (hierarchy_reference ls depth incl). set p)"
    by blast
qed

lemma sorted_wrt_concat_map:
  assumes "sorted_wrt R js" "\<forall>j\<in>set js. sorted_wrt Q (f j)"
    and "\<And>i j x y. i \<in> set js \<Longrightarrow> j \<in> set js \<Longrightarrow> R i j \<Longrightarrow> x \<in> set (f i) \<Longrightarrow> y \<in> set (f j) \<Longrightarrow> Q x y"
  shows "sorted_wrt Q (concat (map f js))"
  using assms
proof (induction js)
  case (Cons j js)
  have "sorted_wrt Q (concat (map f js))"
    using Cons.prems(1,2) by (intro Cons.IH) (auto intro: Cons.prems(3))
  moreover have "Q x y" if "x \<in> set (f j)" "i \<in> set js" "y \<in> set (f i)" for x i y
    using that Cons.prems(1) by (intro Cons.prems(3) [of j i]) auto
  ultimately show ?case
    using Cons.prems(2) by (auto simp: sorted_wrt_append)
qed simp

lemma sorted_outline: "sorted_wrt (<) (outline ls depth h)"
  unfolding outline_def by (intro sorted_wrt_filter sorted_wrt_upt)

lemma sorted_body_run: "sorted_wrt (<) (body_run ls depth s)"
  unfolding body_run_filter by (intro sorted_wrt_filter sorted_wrt_upt)

lemma reference_sorted:
  assumes "p \<in> set (hierarchy_reference ls depth incl)"
  shows "p \<noteq> [] \<and> sorted_wrt (<) p"
proof -
  have "section_path ls depth incl h \<noteq> []" if "h \<in> set (headings ls depth)" for h
  proof -
    have "h \<in> set (outline ls depth h)"
      using that by (auto simp: outline_iff headings_def)
    then show ?thesis
      by (auto simp: section_path_def)
  qed
  moreover have "sorted_wrt (<) (section_path ls depth incl h)" for h
  proof (cases incl)
    case True
    then show ?thesis
      using sorted_outline [of ls depth h] sorted_body_run [of ls depth "Suc h"]
      by (auto simp: section_path_def sorted_wrt_append outline_iff body_run_iff)
  next
    case False
    have "sorted_wrt (<) (concat (map (\<lambda>j. j # body_run ls depth (Suc j)) (outline ls depth h)))"
    proof (rule sorted_wrt_concat_map [OF sorted_outline])
      fix i j x y
      assume "i \<in> set (outline ls depth h)" "j \<in> set (outline ls depth h)" "i < j"
        and x: "x \<in> set (i # body_run ls depth (Suc i))" and y: "y \<in> set (j # body_run ls depth (Suc j))"
      then have "ls ! j \<le> depth" by (simp add: outline_iff)
      then have "x < j"
        using x \<open>i < j\<close> by (fastforce simp: body_run_iff not_le [symmetric])
      then show "x < y"
        using y by (auto simp: body_run_iff)
    qed (use sorted_body_run in \<open>auto simp: body_run_iff\<close>)
    then show ?thesis
      using False by (simp add: section_path_def)
  qed
  ultimately show ?thesis
    using assms sorted_body_run [of ls depth 0] unfolding reference_paths by auto
qed

end
