(* ===== verification/Chunk_Titles.thy ===== *)
theory Chunk_Titles
  imports Chunk_Tree Agent_Lists "HOL-Library.Product_Lexorder"
begin

text \<open>
  Splitting a document by its headings
  (\<open>common.py\<close>, \<open>hierarchy_chunker.py\<close>, \<open>group_chunker.py\<close> and \<open>title_chunker.py\<close> of
  \<open>src/core/flow/chunker/title_chunker\<close>, with \<open>not_bullet\<close> and \<open>not_title\<close> of \<open>src/core/nlp\<close>).

  \<open>title_lib\<close> holds what the module takes from elsewhere: \<open>re.match\<close> of a configured pattern, the token
  count of the tokenizer, the positions found in an upstream item and the texts of values. The outlines of
  the file are an argument, a title with its depth each. Ratios are compared exactly; the source compares
  correctly rounded quotients with 0.8 and 0.03, which agrees on lengths below \<open>2^50\<close>. The previews that
  are cut out of the PDF afterwards are not modelled.
\<close>

section \<open>Data\<close>

type_synonym position = "int \<times> rat \<times> rat \<times> rat \<times> rat" \<comment> \<open>page, x0, x1, top, bottom\<close>

record 'i item =
  it_fields :: pydict
  it_image :: "'i option"

record 'i line_record =
  lr_text :: string
  lr_doc_type :: string
  lr_img_id :: json
  lr_image :: "'i option"
  lr_layout :: string
  lr_positions :: "position list"

record 'i upstream =
  up_format :: "string option"
  up_payload :: "string \<Rightarrow> string option" \<comment> \<open>\<open>markdown_result\<close>, \<open>text_result\<close>, \<open>html_result\<close>\<close>
  up_chunks :: "'i item list option"
  up_json :: "'i item list option"

record TitleChunkerParam =
  tp_method :: string
  tp_levels :: "string list list"
  tp_hierarchy :: int \<comment> \<open>0 when not set\<close>
  tp_include_heading_content :: bool
  tp_root_chunk_as_heading :: bool

record 'i title_lib =
  tl_py :: pylib
  tl_match :: "string \<Rightarrow> string \<Rightarrow> bool"
  tl_tokens :: "string \<Rightarrow> nat"
  tl_positions :: "'i item \<Rightarrow> position list"

record 'i chunk =
  ck_text :: string
  ck_doc_type :: "string option"
  ck_img_id :: "json option"
  ck_image :: "'i option"
  ck_positions :: "position list option"

record levels_info =
  li_levels :: "int list"
  li_most_level :: "int option"

definition BODY_LEVEL :: int where
  "BODY_LEVEL = 9223372036854775806"

definition param_check :: "TitleChunkerParam \<Rightarrow> bool" where
  "param_check p \<longleftrightarrow>
     (tp_method p \<in> {''hierarchy'', ''group''} \<longrightarrow> tp_levels p \<noteq> []) \<and>
     (tp_method p = ''hierarchy'' \<longrightarrow> tp_hierarchy p \<noteq> 0)"

definition text_formats :: "string set" where
  "text_formats = {''markdown'', ''text'', ''html''}"

definition is_text_format :: "'i upstream \<Rightarrow> bool" where
  "is_text_format up \<longleftrightarrow> (case up_format up of None \<Rightarrow> False | Some f \<Rightarrow> f \<in> text_formats)"

section \<open>Lines\<close>

definition text_line :: "string \<Rightarrow> 'i line_record" where
  "text_line s = \<lparr>lr_text = s, lr_doc_type = ''text'', lr_img_id = JNull, lr_image = None, lr_layout = [], lr_positions = []\<rparr>"

definition or_text :: "pylib \<Rightarrow> json \<Rightarrow> string \<Rightarrow> string" where
  \<comment> \<open>\<open>str(v or default)\<close>\<close>
  "or_text L v s0 = (if truthy v then py_str L v else s0)"

definition item_record :: "'i title_lib \<Rightarrow> 'i item \<Rightarrow> 'i line_record" where
  "item_record L it =
     \<lparr>lr_text = or_text (tl_py L) (dget (it_fields it) ''text'') [],
      lr_doc_type = or_text (tl_py L) (dget (it_fields it) ''doc_type_kwd'') ''text'',
      lr_img_id = dget (it_fields it) ''img_id'',
      lr_image = it_image it,
      lr_layout = py_strip (py_str (tl_py L) (dget_or (it_fields it) ''layout_type'' (JStr [])) @ '' '' @
                            py_str (tl_py L) (dget_or (it_fields it) ''layoutno'' (JStr []))),
      lr_positions = tl_positions L it\<rparr>"

definition extract_line_records :: "'i title_lib \<Rightarrow> 'i upstream \<Rightarrow> 'i line_record list" where
  "extract_line_records L up =
     (if is_text_format up then
        let payload = (case up_payload up (the (up_format up)) of None \<Rightarrow> [] | Some s \<Rightarrow> s);
            lines0 = split_on (CHR 0x0A) payload;
            lines = (if up_format up = Some ''text'' then map py_strip lines0 else lines0) in
        map text_line (filter (\<lambda>s. \<not> blank s) lines)
      else map (item_record L)
        (case (if up_format up = Some ''chunks'' then up_chunks up else up_json up) of None \<Rightarrow> [] | Some its \<Rightarrow> its))"

section \<open>Heading levels\<close>

definition not_bullet :: "string \<Rightarrow> bool" where
  "not_bullet s =
     (let after = dropWhile is_digit s; spaced = dropWhile (\<lambda>c. c = CHR '' '') after; numbered = (s \<noteq> after) in
      prefix ''0'' s \<or>
      numbered \<and> after \<noteq> spaced \<and>
        (spaced \<noteq> [] \<and> (is_digit (hd spaced) \<or> hd spaced \<in> {CHR ''~'', CHR ''-''}) \<or>
         prefix [228, 184, 170] (codes spaced) \<or> prefix [229, 143, 170] (codes spaced)) \<or>
      numbered \<and> prefix ''..'' after)"

definition cjk_numerals :: "nat list list" where
  "cjk_numerals = [[233, 155, 182], [228, 184, 128], [228, 186, 140], [228, 184, 137], [229, 155, 155], [228, 186, 148],
     [229, 133, 173], [228, 184, 131], [229, 133, 171], [228, 185, 157], [229, 141, 129], [231, 153, 190]]"

definition is_article :: "string list \<Rightarrow> bool" where
  \<comment> \<open>a numbered article of a statute\<close>
  "is_article cps =
     (case cps of
        [] \<Rightarrow> False
      | c # rest \<Rightarrow>
          let numeral = (\<lambda>x. codes x \<in> set cjk_numerals \<or> (case x of [d] \<Rightarrow> is_digit d | _ \<Rightarrow> False));
              after = dropWhile numeral rest in
          codes c = [231, 172, 172] \<and> after \<noteq> rest \<and> after \<noteq> [] \<and> codes (hd after) = [230, 157, 161])"

fun word_count :: "bool \<Rightarrow> string list \<Rightarrow> nat" where
  \<comment> \<open>\<open>len(s.split())\<close>; the flag says whether it is inside a word\<close>
  "word_count inside [] = 0"
| "word_count inside (c # cps) =
     (if codes c \<in> set ws_codes then word_count False cps
      else (if inside then 0 else 1) + word_count True cps)"

definition clause_marks :: "nat list list" where
  "clause_marks = [[44], [59], [239, 188, 140], [227, 128, 130], [239, 188, 155], [239, 188, 129], [33]]"

definition not_title :: "string \<Rightarrow> bool" where
  "not_title s =
     (let cps = code_points s in
      \<not> is_article cps \<and>
      (12 < word_count False cps \<or> (\<not> occurs_in '' '' s \<and> 32 \<le> length cps) \<or>
       (\<exists>c\<in>set cps. codes c \<in> set clause_marks)))"

fun match_regex_from :: "(string \<Rightarrow> string \<Rightarrow> bool) \<Rightarrow> string \<Rightarrow> nat \<Rightarrow> string list \<Rightarrow> nat option" where
  "match_regex_from re s n [] = None"
| "match_regex_from re s n (p # ps) = (if re p s \<and> \<not> not_bullet s then Some n else match_regex_from re s (Suc n) ps)"

definition match_regex_level :: "(string \<Rightarrow> string \<Rightarrow> bool) \<Rightarrow> string \<Rightarrow> string list \<Rightarrow> nat option" where
  "match_regex_level re s level_group = match_regex_from re (py_strip s) 1 level_group"

definition group_hits :: "(string \<Rightarrow> string \<Rightarrow> bool) \<Rightarrow> string list \<Rightarrow> string list \<Rightarrow> nat" where
  "group_hits re lines pats =
     length (filter (\<lambda>s. let t = py_strip s in t \<noteq> [] \<and> (\<exists>p\<in>set pats. re p t \<and> \<not> not_bullet t)) lines)"

fun best_hit :: "nat \<Rightarrow> nat option \<Rightarrow> nat \<Rightarrow> nat list \<Rightarrow> nat option" where
  \<comment> \<open>the position of the first largest number of hits above the maximum so far\<close>
  "best_hit i selected maximum [] = selected"
| "best_hit i selected maximum (h # hs) =
     (if h \<le> maximum then best_hit (Suc i) selected maximum hs else best_hit (Suc i) (Some i) h hs)"

definition select_level_group :: "(string \<Rightarrow> string \<Rightarrow> bool) \<Rightarrow> string list \<Rightarrow> string list list \<Rightarrow> string list" where
  "select_level_group re lines raw_levels =
     (case best_hit 0 None 0 (map (group_hits re lines) raw_levels) of
        None \<Rightarrow> [] | Some i \<Rightarrow> filter (\<lambda>p. p \<noteq> []) (raw_levels ! i))"

fun fold_case :: "nat list \<Rightarrow> nat list" where
  \<comment> \<open>what \<open>re.I\<close> identifies with the letters of the layout words: the long s, and the dotted and dotless i\<close>
  "fold_case (c # d # s) =
     (if c = 197 \<and> d = 191 then 115 # fold_case s
      else if c = 196 \<and> (d = 176 \<or> d = 177) then 105 # fold_case s
      else (if 65 \<le> c \<and> c \<le> 90 then c + 32 else c) # fold_case (d # s))"
| "fold_case [c] = [if 65 \<le> c \<and> c \<le> 90 then c + 32 else c]"
| "fold_case [] = []"

definition layout_words :: "string list" where
  "layout_words = [''section'', ''title'', ''head'']"

definition match_layout_level :: "string \<Rightarrow> string \<Rightarrow> int \<Rightarrow> int" where
  "match_layout_level s layout fallback_level =
     (if (\<exists>w\<in>set layout_words. sublist (codes w) (fold_case (codes layout))) \<and>
         \<not> not_title (py_strip (hd (split_on (CHR 0x40) s)))
      then fallback_level else BODY_LEVEL)"

definition char_pairs :: "nat \<Rightarrow> string list \<Rightarrow> string set" where
  \<comment> \<open>the pairs of neighbouring characters that start before a position\<close>
  "char_pairs n cps = (\<lambda>i. cps ! i @ cps ! Suc i) ` {..<min n (length cps - 1)}"

definition outline_similar :: "string \<Rightarrow> string \<Rightarrow> bool" where
  \<comment> \<open>\<open>_outline_similarity(left, right) > 0.8\<close>\<close>
  "outline_similar left right =
     (let l = code_points left; r = code_points right;
          lp = char_pairs (length l) l; rp = char_pairs (length l) r in
      4 * max (max (card lp) (card rp)) 1 < 5 * card (lp \<inter> rp))"

definition outline_level :: "(string \<times> int) list \<Rightarrow> 'i line_record \<Rightarrow> int" where
  "outline_level outlines r =
     (if lr_doc_type r \<noteq> ''text'' then BODY_LEVEL
      else case find (\<lambda>(title, level). outline_similar title (lr_text r)) outlines of
             None \<Rightarrow> BODY_LEVEL | Some (title, level) \<Rightarrow> level + 1)"

definition resolve_outline_levels :: "(string \<times> int) list \<Rightarrow> 'i line_record list \<Rightarrow> levels_info option" where
  "resolve_outline_levels outlines recs =
     (if recs = [] \<or> 100 * length outlines \<le> 3 * length recs then None
      else
        let max_level = Max (set (map snd outlines)) + 1 in
        Some \<lparr>li_levels = map (outline_level outlines) recs, li_most_level = Some (max 1 (max_level - 1))\<rparr>)"

fun first_seen :: "'a list \<Rightarrow> 'a list \<Rightarrow> 'a list" where
  "first_seen acc [] = acc"
| "first_seen acc (x # xs) = first_seen (if x \<in> set acc then acc else acc @ [x]) xs"

definition most_common :: "int list \<Rightarrow> int list" where
  \<comment> \<open>\<open>Counter.most_common\<close>: by falling count, equal counts in the order they first occur\<close>
  "most_common xs = sort_key (\<lambda>x. - int (count_list xs x)) (first_seen [] xs)"

definition line_level :: "(string \<Rightarrow> string \<Rightarrow> bool) \<Rightarrow> string list \<Rightarrow> 'i line_record \<Rightarrow> int" where
  "line_level re level_group r =
     (if lr_doc_type r \<noteq> ''text'' then BODY_LEVEL
      else case match_regex_level re (lr_text r) level_group of
             Some n \<Rightarrow> int n
           | None \<Rightarrow> match_layout_level (lr_text r) (lr_layout r) (int (length level_group) + 1))"

definition resolve_frequency_levels :: "(string \<Rightarrow> string \<Rightarrow> bool) \<Rightarrow> string list list \<Rightarrow> 'i line_record list \<Rightarrow> levels_info" where
  "resolve_frequency_levels re raw_levels recs =
     (let level_group = select_level_group re (map lr_text recs) raw_levels;
          levels = map (line_level re level_group) recs in
      \<lparr>li_levels = levels, li_most_level = find (\<lambda>l. l < BODY_LEVEL) (most_common levels)\<rparr>)"

definition resolve_title_levels ::
  "(string \<Rightarrow> string \<Rightarrow> bool) \<Rightarrow> TitleChunkerParam \<Rightarrow> (string \<times> int) list \<Rightarrow> 'i line_record list \<Rightarrow> levels_info" where
  "resolve_title_levels re p outlines recs =
     (case resolve_outline_levels outlines recs of
        Some info \<Rightarrow> info | None \<Rightarrow> resolve_frequency_levels re (tp_levels p) recs)"

definition resolve_target_level :: "int list \<Rightarrow> int \<Rightarrow> int option" where
  "resolve_target_level levels hierarchy =
     (let title_levels = sorted_list_of_set {l \<in> set levels. 0 < l \<and> l < BODY_LEVEL} in
      if title_levels = [] then None
      else Some (title_levels ! (min (nat (max hierarchy 1)) (length title_levels) - 1)))"

section \<open>Chunks from groups of records\<close>

definition group_text :: "'i line_record list \<Rightarrow> string" where
  "group_text recs = concat (map (\<lambda>r. lr_text r @ [CHR 0x0A]) recs)"

definition tag_char :: "char \<Rightarrow> bool" where
  "tag_char c \<longleftrightarrow> is_digit c \<or> c \<in> {CHR 0x09, CHR ''.'', CHR ''-''}"

definition tag_rest :: "string \<Rightarrow> string option" where
  \<comment> \<open>the text after a position tag at the front\<close>
  "tag_rest s =
     (if prefix ''@@'' s then
        let after = drop 2 s; end = dropWhile tag_char after in
        if end \<noteq> after \<and> prefix ''##'' end then Some (drop 2 end) else None
      else None)"

lemma tag_rest_shorter: "tag_rest s = Some rest \<Longrightarrow> length rest < length s"
proof -
  assume a: "tag_rest s = Some rest"
  define after where "after = drop 2 s"
  from a have "s = ''@@'' @ after" "rest = drop 2 (dropWhile tag_char after)"
    by (auto simp: tag_rest_def after_def Let_def elim!: prefixE split: if_splits)
  then show ?thesis
    using length_dropWhile_le [of tag_char after] by simp
qed

function remove_tag :: "string \<Rightarrow> string" where
  "remove_tag [] = []"
| "remove_tag (c # s) = (case tag_rest (c # s) of None \<Rightarrow> c # remove_tag s | Some rest \<Rightarrow> remove_tag rest)"
  by pat_completeness auto
termination
  by (relation "measure length") (auto dest: tag_rest_shorter)

definition record_positions :: "'i line_record \<Rightarrow> position list" where
  \<comment> \<open>\<open>extract_pdf_positions\<close> on a record, whose positions are normalised once more\<close>
  "record_positions r = map (\<lambda>(page, box). (if page \<le> 0 then page + 1 else page, box)) (lr_positions r)"

definition merge_pdf_positions :: "'i line_record list \<Rightarrow> position list" where
  "merge_pdf_positions recs =
     sort_key (\<lambda>(page, x0, x1, top, bottom). (page, top, x0)) (first_seen [] (concat (map record_positions recs)))"

definition group_chunk :: "'i line_record list \<Rightarrow> 'i chunk" where
  "group_chunk recs =
     (if lr_doc_type (hd recs) = ''text'' then
        \<lparr>ck_text = remove_tag (group_text recs), ck_doc_type = Some ''text'',
         ck_img_id = find truthy (map lr_img_id recs),
         ck_image = (case filter (\<lambda>i. i \<noteq> None) (map lr_image recs) of [] \<Rightarrow> None | i # _ \<Rightarrow> i),
         ck_positions = Some (merge_pdf_positions recs)\<rparr>
      else
        \<lparr>ck_text = lr_text (hd recs), ck_doc_type = Some (lr_doc_type (hd recs)),
         ck_img_id = Some (lr_img_id (hd recs)), ck_image = lr_image (hd recs),
         ck_positions = Some (lr_positions (hd recs))\<rparr>)"

definition build_chunks_from_record_groups ::
  "TitleChunkerParam \<Rightarrow> 'i upstream \<Rightarrow> 'i line_record list list \<Rightarrow> 'i chunk list" where
  "build_chunks_from_record_groups p up record_groups =
     (let groups = filter (\<lambda>g. g \<noteq> []) record_groups in
      if is_text_format up then
        map (\<lambda>g. \<lparr>ck_text = group_text g, ck_doc_type = None, ck_img_id = None, ck_image = None, ck_positions = None\<rparr>) groups
      else
        let chunks = map group_chunk groups in
        if tp_root_chunk_as_heading p \<and> 1 < length chunks
        then map (\<lambda>c. c\<lparr>ck_text := ck_text (hd chunks) @ [CHR 0x0A] @ ck_text c\<rparr>) (tl chunks)
        else chunks)"

section \<open>By hierarchy\<close>

definition flush_text_records ::
  "TitleChunkerParam \<Rightarrow> ('i line_record \<times> int) list \<Rightarrow> 'i line_record list list" where
  \<comment> \<open>the groups a run of text records adds\<close>
  "flush_text_records p pending =
     (if pending = [] then []
      else
        let recs = map fst pending; levels = map snd pending in
        case resolve_target_level levels (tp_hierarchy p) of
          None \<Rightarrow> [recs]
        | Some target \<Rightarrow>
            map (map (\<lambda>i. recs ! i))
              (filter (\<lambda>path. path \<noteq> [])
                (get_paths (build_tree (ChunkNode 0 [] [] []) (zip levels [0..<length recs]) target) target
                   (tp_include_heading_content p))))"

definition hierarchy_step ::
  "TitleChunkerParam \<Rightarrow> 'i line_record list list \<times> ('i line_record \<times> int) list \<Rightarrow> 'i line_record \<times> int \<Rightarrow>
   'i line_record list list \<times> ('i line_record \<times> int) list" where
  "hierarchy_step p st line =
     (if lr_doc_type (fst line) = ''text'' then (fst st, snd st @ [line])
      else (fst st @ flush_text_records p (snd st) @ [[fst line]], []))"

definition hierarchy_groups :: "TitleChunkerParam \<Rightarrow> 'i line_record list \<Rightarrow> int list \<Rightarrow> 'i line_record list list" where
  "hierarchy_groups p recs levels =
     (let st = foldl (hierarchy_step p) ([], []) (zip recs levels) in fst st @ flush_text_records p (snd st))"

section \<open>By group\<close>

definition MIN_GROUP_TOKENS :: nat where "MIN_GROUP_TOKENS = 32"

definition MAX_GROUP_TOKENS :: nat where "MAX_GROUP_TOKENS = 1024"

fun section_ids_from :: "int option \<Rightarrow> bool \<Rightarrow> int \<Rightarrow> int list \<Rightarrow> int list" where
  "section_ids_from target first sid [] = []"
| "section_ids_from target first sid (l # ls) =
     (let sid' = (case target of None \<Rightarrow> sid | Some t \<Rightarrow> if l \<le> t \<and> \<not> first then sid + 1 else sid) in
      sid' # section_ids_from target False sid' ls)"

definition build_section_ids :: "int list \<Rightarrow> int option \<Rightarrow> int list" where
  "build_section_ids levels target_level = section_ids_from target_level True 0 levels"

definition resolve_group_target_level :: "int list \<Rightarrow> int \<Rightarrow> int option \<Rightarrow> int option" where
  "resolve_group_target_level levels hierarchy most_level =
     (if 0 < hierarchy then resolve_target_level levels hierarchy else most_level)"

record 'i group_state =
  gs_groups :: "'i line_record list list"
  gs_tokens :: nat
  gs_last_sid :: int

definition group_step ::
  "(string \<Rightarrow> nat) \<Rightarrow> 'i group_state \<Rightarrow> 'i line_record \<times> int \<Rightarrow> 'i group_state" where
  "group_step tokens st line =
     (case line of (r, sec_id) \<Rightarrow>
      if lr_doc_type r \<noteq> ''text'' then \<lparr>gs_groups = gs_groups st @ [[r]], gs_tokens = 0, gs_last_sid = -2\<rparr>
      else if blank (lr_text r) then st
      else if gs_groups st \<noteq> [] \<and> lr_doc_type (hd (last (gs_groups st))) = ''text'' \<and>
              (gs_tokens st < MIN_GROUP_TOKENS \<or> (gs_tokens st < MAX_GROUP_TOKENS \<and> sec_id = gs_last_sid st))
      then \<lparr>gs_groups = butlast (gs_groups st) @ [last (gs_groups st) @ [r]],
            gs_tokens = gs_tokens st + tokens (lr_text r), gs_last_sid = sec_id\<rparr>
      else \<lparr>gs_groups = gs_groups st @ [[r]], gs_tokens = tokens (lr_text r), gs_last_sid = sec_id\<rparr>)"

definition title_groups :: "(string \<Rightarrow> nat) \<Rightarrow> 'i line_record list \<Rightarrow> int list \<Rightarrow> 'i line_record list list" where
  "title_groups tokens recs sec_ids =
     gs_groups (foldl (group_step tokens) \<lparr>gs_groups = [], gs_tokens = 0, gs_last_sid = -2\<rparr> (zip recs sec_ids))"

section \<open>The component\<close>

definition hierarchy_chunks ::
  "'i title_lib \<Rightarrow> TitleChunkerParam \<Rightarrow> 'i upstream \<Rightarrow> (string \<times> int) list \<Rightarrow> 'i chunk list" where
  "hierarchy_chunks L p up outlines =
     (let recs = extract_line_records L up; info = resolve_title_levels (tl_match L) p outlines recs in
      build_chunks_from_record_groups p up (hierarchy_groups p recs (li_levels info)))"

definition group_chunks ::
  "'i title_lib \<Rightarrow> TitleChunkerParam \<Rightarrow> 'i upstream \<Rightarrow> (string \<times> int) list \<Rightarrow> 'i chunk list" where
  "group_chunks L p up outlines =
     (let recs = extract_line_records L up; info = resolve_title_levels (tl_match L) p outlines recs;
          target = resolve_group_target_level (li_levels info) (tp_hierarchy p) (li_most_level info) in
      build_chunks_from_record_groups p up (title_groups (tl_tokens L) recs (build_section_ids (li_levels info) target)))"

definition title_chunker ::
  "'i title_lib \<Rightarrow> TitleChunkerParam \<Rightarrow> 'i upstream \<Rightarrow> (string \<times> int) list \<Rightarrow> string + 'i chunk list" where
  \<comment> \<open>\<open>_invoke\<close> on an accepted input; \<open>Inl\<close> is what it leaves in \<open>_ERROR\<close>\<close>
  "title_chunker L p up outlines =
     (if tp_method p = ''hierarchy'' then Inr (hierarchy_chunks L p up outlines)
      else if tp_method p = ''group'' then Inr (group_chunks L p up outlines)
      else Inl (''Unsupported TitleChunker method: '' @ tp_method p))"

section \<open>Hierarchical groups keep every record in order\<close>

definition is_text :: "'i line_record \<Rightarrow> bool" where
  "is_text r \<longleftrightarrow> lr_doc_type r = ''text''"

text \<open>Groups given by positions: together they cover a prefix of the records, each in order.\<close>

definition kept_paths :: "nat \<Rightarrow> nat list list \<Rightarrow> bool" where
  "kept_paths n paths \<longleftrightarrow> (\<Union>q\<in>set paths. set q) = {..<n} \<and> (\<forall>q\<in>set paths. q \<noteq> [] \<and> sorted_wrt (<) q)"

lemma kept_paths_append:
  "kept_paths k ps \<Longrightarrow> kept_paths n qs \<Longrightarrow> kept_paths (k + n) (ps @ map (map ((+) k)) qs)"
proof -
  assume ps: "kept_paths k ps" and qs: "kept_paths n qs"
  have "(\<Union>q\<in>set (map (map ((+) k)) qs). set q) = (+) k ` (\<Union>q\<in>set qs. set q)"
    by auto
  also have "\<dots> = {k..<k + n}"
    using qs by (simp add: kept_paths_def atLeast0LessThan [symmetric] image_add_atLeastLessThan add.commute)
  finally have "(\<Union>q\<in>set (ps @ map (map ((+) k)) qs). set q) = {..<k} \<union> {k..<k + n}"
    using ps by (simp add: kept_paths_def)
  then have "(\<Union>q\<in>set (ps @ map (map ((+) k)) qs). set q) = {..<k + n}"
    by (simp add: ivl_disj_un_one(2))
  then show ?thesis
    using ps qs unfolding kept_paths_def by (fastforce simp: sorted_wrt_map)
qed

lemma kept_paths_single: "kept_paths 1 [[0]]"
  by (auto simp: kept_paths_def)

lemma get_paths_kept:
  assumes "\<forall>x\<in>set ls. 1 \<le> x"
  shows "kept_paths (length ls) (get_paths (build_tree (ChunkNode 0 [] [] []) (zip ls [0..<length ls]) depth) depth incl)"
  using reference_complete [of ls depth incl] reference_sorted [of _ ls depth incl]
  by (simp add: get_paths_reference [OF assms] kept_paths_def)

lemma flush_text_records_kept:
  assumes "\<forall>line\<in>set pending. 1 \<le> snd line"
  obtains qs where "flush_text_records p pending = map (map (\<lambda>i. fst (pending ! i))) qs" "kept_paths (length pending) qs"
proof (cases "pending = []")
  case True
  then show thesis
    using that [of "[]"] by (simp add: flush_text_records_def kept_paths_def)
next
  case False
  let ?levels = "map snd pending"
  show thesis
  proof (cases "resolve_target_level ?levels (tp_hierarchy p)")
    case None
    have "map fst pending = map (\<lambda>i. fst (pending ! i)) [0..<length pending]"
      by (rule nth_equalityI) auto
    then show thesis
      using that [of "[[0..<length pending]]"] False None
      by (auto simp: flush_text_records_def kept_paths_def atLeast0LessThan)
  next
    case (Some target)
    let ?paths = "get_paths (build_tree (ChunkNode 0 [] [] []) (zip ?levels [0..<length pending]) target) target
      (tp_include_heading_content p)"
    have kept: "kept_paths (length pending) ?paths"
      using get_paths_kept [of ?levels target] assms by simp
    then have "filter (\<lambda>q. q \<noteq> []) ?paths = ?paths"
      by (auto simp: kept_paths_def filter_id_conv)
    moreover have "\<forall>q\<in>set ?paths. \<forall>i\<in>set q. i < length pending"
      using kept unfolding kept_paths_def by blast
    then have "map (map (\<lambda>i. map fst pending ! i)) ?paths = map (map (\<lambda>i. fst (pending ! i))) ?paths"
      by auto
    ultimately have "flush_text_records p pending = map (map (\<lambda>i. fst (pending ! i))) ?paths"
      using False Some by (simp add: flush_text_records_def)
    then show thesis
      using that kept by blast
  qed
qed

definition uniform_path :: "('i line_record \<times> int) list \<Rightarrow> nat list \<Rightarrow> bool" where
  \<comment> \<open>text records only, or a single other one\<close>
  "uniform_path lines q \<longleftrightarrow> (\<forall>i\<in>set q. is_text (fst (lines ! i))) \<or> (\<exists>i. q = [i] \<and> \<not> is_text (fst (lines ! i)))"

definition groups_inv :: "('i line_record \<times> int) list \<Rightarrow> nat \<Rightarrow> 'i line_record list list \<Rightarrow> bool" where
  "groups_inv lines k groups \<longleftrightarrow>
     (\<exists>paths. groups = map (map (\<lambda>i. fst (lines ! i))) paths \<and> kept_paths k paths \<and> (\<forall>q\<in>set paths. uniform_path lines q))"

lemma groups_inv_flush:
  assumes inv: "groups_inv lines k groups" and pending: "pending = drop k lines" "k \<le> length lines"
    and texts: "\<forall>line\<in>set pending. is_text (fst line)" and levels: "\<forall>line\<in>set lines. 1 \<le> snd line"
  shows "groups_inv lines (length lines) (groups @ flush_text_records p pending)"
proof -
  obtain ps where ps: "groups = map (map (\<lambda>i. fst (lines ! i))) ps" "kept_paths k ps" "\<forall>q\<in>set ps. uniform_path lines q"
    using inv by (auto simp: groups_inv_def)
  have "\<forall>line\<in>set pending. 1 \<le> snd line"
    using levels pending by (auto dest: in_set_dropD)
  then obtain qs where qs: "flush_text_records p pending = map (map (\<lambda>i. fst (pending ! i))) qs"
      "kept_paths (length pending) qs"
    by (rule flush_text_records_kept)
  have "uniform_path lines (map ((+) k) q)" if "q \<in> set qs" for q
  proof -
    have "\<forall>i\<in>set q. i < length pending"
      using qs(2) that by (auto simp: kept_paths_def)
    then have "\<forall>i\<in>set q. is_text (fst (pending ! i))"
      using texts by auto
    then show ?thesis
      using pending by (simp add: uniform_path_def)
  qed
  moreover have "map (map (\<lambda>i. fst (pending ! i))) qs = map (map (\<lambda>i. fst (lines ! i))) (map (map ((+) k)) qs)"
    using pending by simp
  moreover have "kept_paths (length lines) (ps @ map (map ((+) k)) qs)"
    using kept_paths_append [OF ps(2) qs(2)] pending by simp
  ultimately show ?thesis
    unfolding groups_inv_def using ps qs(1)
    by (intro exI [of _ "ps @ map (map ((+) k)) qs"]) auto
qed

lemma groups_inv_snoc:
  assumes "groups_inv lines k groups" "k \<le> length lines"
  shows "groups_inv (lines @ [line]) k groups"
proof -
  obtain ps where ps: "groups = map (map (\<lambda>i. fst (lines ! i))) ps" "kept_paths k ps" "\<forall>q\<in>set ps. uniform_path lines q"
    using assms by (auto simp: groups_inv_def)
  have "\<forall>q\<in>set ps. \<forall>i\<in>set q. i < length lines"
    using ps(2) assms(2) unfolding kept_paths_def by (metis UN_I lessThan_iff order_less_le_trans)
  then have same: "\<forall>q\<in>set ps. \<forall>i\<in>set q. (lines @ [line]) ! i = lines ! i"
    by (simp add: nth_append)
  then have "\<forall>q\<in>set ps. uniform_path (lines @ [line]) q"
    using ps(3) by (fastforce simp: uniform_path_def)
  moreover have "groups = map (map (\<lambda>i. fst ((lines @ [line]) ! i))) ps"
    using ps(1) same by simp
  ultimately show ?thesis
    using ps(2) unfolding groups_inv_def by blast
qed

lemma groups_inv_single:
  assumes "groups_inv lines (length lines) groups" "\<not> is_text (fst line)"
  shows "groups_inv (lines @ [line]) (Suc (length lines)) (groups @ [[fst line]])"
proof -
  obtain ps where ps: "groups = map (map (\<lambda>i. fst ((lines @ [line]) ! i))) ps" "kept_paths (length lines) ps"
      "\<forall>q\<in>set ps. uniform_path (lines @ [line]) q"
    using groups_inv_snoc [OF assms(1), of line] by (auto simp: groups_inv_def)
  have "kept_paths (Suc (length lines)) (ps @ [[length lines]])"
    using kept_paths_append [OF ps(2) kept_paths_single] by simp
  then show ?thesis
    unfolding groups_inv_def using ps assms(2)
    by (intro exI [of _ "ps @ [[length lines]]"]) (auto simp: uniform_path_def)
qed

lemma hierarchy_steps_inv:
  assumes "\<forall>line\<in>set lines. 1 \<le> snd line" "foldl (hierarchy_step p) ([], []) lines = (groups, pending)"
  shows "\<exists>k\<le>length lines. pending = drop k lines \<and> (\<forall>line\<in>set pending. is_text (fst line)) \<and> groups_inv lines k groups"
  using assms
proof (induction lines arbitrary: groups pending rule: rev_induct)
  case Nil
  then show ?case by (auto simp: groups_inv_def kept_paths_def)
next
  case (snoc line lines)
  obtain groups0 pending0 where st: "foldl (hierarchy_step p) ([], []) lines = (groups0, pending0)"
    by fastforce
  then obtain k where k: "k \<le> length lines" "pending0 = drop k lines" "\<forall>line\<in>set pending0. is_text (fst line)"
      "groups_inv lines k groups0"
    using snoc.IH snoc.prems(1) by fastforce
  show ?case
  proof (cases "is_text (fst line)")
    case True
    then have "groups = groups0" "pending = pending0 @ [line]"
      using snoc.prems(2) st by (auto simp: hierarchy_step_def [of p _ line] is_text_def)
    then show ?thesis
      using k True groups_inv_snoc [OF k(4) k(1), of line] by (intro exI [of _ k]) auto
  next
    case False
    then have "groups = (groups0 @ flush_text_records p pending0) @ [[fst line]]" "pending = []"
      using snoc.prems(2) st by (auto simp: hierarchy_step_def [of p _ line] is_text_def)
    moreover have "groups_inv lines (length lines) (groups0 @ flush_text_records p pending0)"
      using k snoc.prems(1) by (intro groups_inv_flush) auto
    ultimately show ?thesis
      using groups_inv_single [OF _ False, of lines "groups0 @ flush_text_records p pending0"]
      by (intro exI [of _ "Suc (length lines)"]) simp
  qed
qed

lemma hierarchy_groups_inv:
  assumes "length levels = length recs" "\<forall>l\<in>set levels. 1 \<le> l"
  shows "groups_inv (zip recs levels) (length recs) (hierarchy_groups p recs levels)"
proof -
  obtain groups pending where st: "foldl (hierarchy_step p) ([], []) (zip recs levels) = (groups, pending)"
    by fastforce
  have levels: "\<forall>line\<in>set (zip recs levels). 1 \<le> snd line"
    using assms(2) by (auto dest: set_zip_rightD)
  obtain k where k: "k \<le> length (zip recs levels)" "pending = drop k (zip recs levels)"
      "\<forall>line\<in>set pending. is_text (fst line)" "groups_inv (zip recs levels) k groups"
    using hierarchy_steps_inv [OF levels st] by blast
  then have "groups_inv (zip recs levels) (length (zip recs levels)) (groups @ flush_text_records p pending)"
    using levels by (intro groups_inv_flush) auto
  then show ?thesis
    using assms(1) by (simp add: hierarchy_groups_def st)
qed

lemma line_level_positive: "1 \<le> line_level re level_group r"
proof -
  have "1 \<le> m \<Longrightarrow> match_regex_from re s m ps = Some n \<Longrightarrow> 1 \<le> n" for s m ps n
    by (induction ps arbitrary: m) (auto split: if_splits)
  then have "match_regex_level re s level_group = Some n \<Longrightarrow> 1 \<le> n" for s n
    unfolding match_regex_level_def by blast
  then show ?thesis
    by (auto simp: line_level_def match_layout_level_def BODY_LEVEL_def split: option.splits)
qed

lemma title_levels_positive:
  assumes "\<forall>(title, depth)\<in>set outlines. 0 \<le> depth"
  shows "\<forall>l\<in>set (li_levels (resolve_title_levels re p outlines recs)). 1 \<le> l"
proof (cases "resolve_outline_levels outlines recs")
  case None
  then show ?thesis
    using line_level_positive by (auto simp: resolve_title_levels_def resolve_frequency_levels_def Let_def)
next
  case (Some info)
  have "1 \<le> outline_level outlines r" for r :: "'a line_record"
    using assms by (auto simp: outline_level_def BODY_LEVEL_def find_Some_iff split: option.splits dest!: nth_mem)
  moreover have "li_levels info = map (outline_level outlines) recs"
    using Some by (auto simp: resolve_outline_levels_def Let_def split: if_splits)
  ultimately show ?thesis
    using Some by (simp add: resolve_title_levels_def)
qed

lemma title_levels_length: "length (li_levels (resolve_title_levels re p outlines recs)) = length recs"
  by (auto simp: resolve_title_levels_def resolve_frequency_levels_def resolve_outline_levels_def Let_def split: option.splits)

lemma hierarchy_groups_positions:
  assumes "length levels = length recs" "\<forall>l\<in>set levels. 1 \<le> l"
  shows "\<exists>paths. hierarchy_groups p recs levels = map (map ((!) recs)) paths \<and>
           (\<Union>q\<in>set paths. set q) = {..<length recs} \<and>
           (\<forall>q\<in>set paths. q \<noteq> [] \<and> sorted_wrt (<) q \<and>
              ((\<forall>i\<in>set q. lr_doc_type (recs ! i) = ''text'') \<or> (\<exists>i. q = [i] \<and> lr_doc_type (recs ! i) \<noteq> ''text'')))"
proof -
  obtain ps where ps: "hierarchy_groups p recs levels = map (map (\<lambda>i. fst (zip recs levels ! i))) ps"
      "kept_paths (length recs) ps" "\<forall>q\<in>set ps. uniform_path (zip recs levels) q"
    using hierarchy_groups_inv [OF assms, of p] by (auto simp: groups_inv_def)
  have range: "\<forall>q\<in>set ps. \<forall>i\<in>set q. i < length recs"
    using ps(2) unfolding kept_paths_def by blast
  then have same: "\<forall>q\<in>set ps. \<forall>i\<in>set q. fst (zip recs levels ! i) = recs ! i"
    using assms(1) by simp
  have "\<forall>q\<in>set ps. (\<forall>i\<in>set q. lr_doc_type (recs ! i) = ''text'') \<or> (\<exists>i. q = [i] \<and> lr_doc_type (recs ! i) \<noteq> ''text'')"
    using ps(3) same unfolding uniform_path_def is_text_def by (metis list.set_intros(1))
  moreover have "hierarchy_groups p recs levels = map (map ((!) recs)) ps"
    using ps(1) same by simp
  ultimately show ?thesis
    using ps(2) by (intro exI [of _ ps]) (simp add: kept_paths_def)
qed

section \<open>Groups of bounded size\<close>

definition group_tokens :: "(string \<Rightarrow> nat) \<Rightarrow> ('i line_record \<times> int) list \<Rightarrow> nat" where
  "group_tokens tokens g = sum_list (map (\<lambda>(r, sid). tokens (lr_text r)) g)"

definition grown :: "(string \<Rightarrow> nat) \<Rightarrow> ('i line_record \<times> int) list \<Rightarrow> bool" where
  \<comment> \<open>a record joins a group that is short, or one of its own section that is not full\<close>
  "grown tokens g \<longleftrightarrow>
     (\<forall>i. 0 < i \<and> i < length g \<longrightarrow>
        group_tokens tokens (take i g) < MIN_GROUP_TOKENS \<or>
        group_tokens tokens (take i g) < MAX_GROUP_TOKENS \<and> snd (g ! i) = snd (g ! (i - 1)))"

definition grouped :: "(string \<Rightarrow> nat) \<Rightarrow> ('i line_record \<times> int) list \<Rightarrow> bool" where
  "grouped tokens g \<longleftrightarrow>
     g \<noteq> [] \<and> ((\<exists>line. g = [line] \<and> \<not> is_text (fst line)) \<or> (\<forall>line\<in>set g. is_text (fst line)) \<and> grown tokens g)"

definition retained :: "'i line_record \<times> int \<Rightarrow> bool" where
  "retained line \<longleftrightarrow> \<not> is_text (fst line) \<or> \<not> blank (lr_text (fst line))"

definition group_inv :: "(string \<Rightarrow> nat) \<Rightarrow> ('i line_record \<times> int) list \<Rightarrow> 'i group_state \<Rightarrow> bool" where
  "group_inv tokens lines st \<longleftrightarrow>
     (\<exists>gs. gs_groups st = map (map fst) gs \<and> concat gs = filter retained lines \<and> (\<forall>g\<in>set gs. grouped tokens g) \<and>
        (gs \<noteq> [] \<and> is_text (fst (hd (last gs))) \<longrightarrow>
           gs_tokens st = group_tokens tokens (last gs) \<and> gs_last_sid st = snd (last (last gs))))"

lemma grouped_single: "grouped tokens [line]"
  by (auto simp: grouped_def grown_def)

lemma grouped_snoc:
  assumes "grouped tokens g" "is_text (fst (hd g))" "is_text (fst line)"
    and "group_tokens tokens g < MIN_GROUP_TOKENS \<or> group_tokens tokens g < MAX_GROUP_TOKENS \<and> snd line = snd (last g)"
  shows "grouped tokens (g @ [line])"
proof -
  have g: "g \<noteq> []" "\<forall>line\<in>set g. is_text (fst line)" "grown tokens g"
    using assms(1,2) by (auto simp: grouped_def)
  have "grown tokens (g @ [line])"
    unfolding grown_def
  proof (intro allI impI)
    fix i assume i: "0 < i \<and> i < length (g @ [line])"
    show "group_tokens tokens (take i (g @ [line])) < MIN_GROUP_TOKENS \<or>
      group_tokens tokens (take i (g @ [line])) < MAX_GROUP_TOKENS \<and> snd ((g @ [line]) ! i) = snd ((g @ [line]) ! (i - 1))"
    proof (cases "i = length g")
      case True
      then show ?thesis using i assms(4) g(1) by (simp add: nth_append last_conv_nth)
    next
      case False
      then have "i < length g" "i - 1 < length g"
        using i by auto
      then show ?thesis
        using i g(3) unfolding grown_def by (simp add: nth_append)
    qed
  qed
  then show ?thesis
    using g assms(3) by (simp add: grouped_def)
qed

lemma group_inv_step:
  assumes inv: "group_inv tokens lines st"
  shows "group_inv tokens (lines @ [line]) (group_step tokens st line)"
proof -
  obtain r sid where line: "line = (r, sid)" by fastforce
  obtain gs where gs: "gs_groups st = map (map fst) gs" "concat gs = filter retained lines" "\<forall>g\<in>set gs. grouped tokens g"
      "gs \<noteq> [] \<Longrightarrow> is_text (fst (hd (last gs))) \<Longrightarrow>
         gs_tokens st = group_tokens tokens (last gs) \<and> gs_last_sid st = snd (last (last gs))"
    using inv by (auto simp: group_inv_def)
  have last: "gs \<noteq> [] \<Longrightarrow> last gs \<noteq> [] \<and> grouped tokens (last gs)"
    using gs(3) by (auto simp: grouped_def)
  have alone: "group_inv tokens (lines @ [line]) \<lparr>gs_groups = gs_groups st @ [[r]], gs_tokens = n, gs_last_sid = s\<rparr>"
    if "retained line" "is_text r \<longrightarrow> n = tokens (lr_text r) \<and> s = sid" for n s
    unfolding group_inv_def using gs that line grouped_single
    by (intro exI [of _ "gs @ [[line]]"]) (auto simp: group_tokens_def)
  consider (other) "\<not> is_text r" | (blank) "is_text r" "blank (lr_text r)"
    | (merge) "is_text r" "\<not> blank (lr_text r)" "gs_groups st \<noteq> []" "is_text (hd (last (gs_groups st)))"
        "gs_tokens st < MIN_GROUP_TOKENS \<or> (gs_tokens st < MAX_GROUP_TOKENS \<and> sid = gs_last_sid st)"
    | (new) "is_text r" "\<not> blank (lr_text r)"
        "\<not> (gs_groups st \<noteq> [] \<and> is_text (hd (last (gs_groups st))) \<and>
            (gs_tokens st < MIN_GROUP_TOKENS \<or> (gs_tokens st < MAX_GROUP_TOKENS \<and> sid = gs_last_sid st)))"
    by blast
  then show ?thesis
  proof cases
    case other
    then show ?thesis
      using alone by (simp add: group_step_def line is_text_def retained_def)
  next
    case blank
    then have "\<not> retained line"
      by (simp add: line retained_def)
    then show ?thesis
      using blank inv by (simp add: group_inv_def group_step_def line is_text_def)
  next
    case new
    then show ?thesis
      using alone by (auto simp: group_step_def line is_text_def retained_def)
  next
    case merge
    have nonempty: "gs \<noteq> []" and head: "is_text (fst (hd (last gs)))"
      using merge(3,4) gs(1) last by (auto simp: last_map hd_map)
    let ?gs = "butlast gs @ [last gs @ [line]]"
    have "grouped tokens (last gs @ [line])"
      using merge(1,5) gs(4) [OF nonempty head] last [OF nonempty] head line by (intro grouped_snoc) auto
    moreover have "concat ?gs = filter retained (lines @ [line])"
      using gs(2) nonempty merge(1,2) line append_butlast_last_id [OF nonempty]
      by (metis append_assoc concat.simps concat_append append_Nil2 filter_append filter.simps retained_def fst_conv)
    moreover have "gs_groups (group_step tokens st line) = map (map fst) ?gs"
      using merge gs(1) nonempty by (simp add: group_step_def line is_text_def last_map map_butlast)
    moreover have "gs_tokens (group_step tokens st line) = group_tokens tokens (last gs @ [line])"
        "gs_last_sid (group_step tokens st line) = sid"
      using merge gs(4) [OF nonempty head] by (auto simp: group_step_def line is_text_def group_tokens_def)
    ultimately show ?thesis
      unfolding group_inv_def using gs(3) line by (intro exI [of _ ?gs]) (auto dest: in_set_butlastD)
  qed
qed

lemma title_groups_inv:
  "group_inv tokens lines (foldl (group_step tokens) \<lparr>gs_groups = [], gs_tokens = 0, gs_last_sid = -2\<rparr> lines)"
proof (induction lines rule: rev_induct)
  case Nil
  show ?case by (simp add: group_inv_def)
next
  case (snoc line lines)
  then show ?case by (simp add: group_inv_step)
qed

section \<open>Selection of a rule set\<close>

lemma best_hit_other: "best_hit i selected m hs = Some j \<Longrightarrow> selected = Some j \<or> i \<le> j"
  by (induction hs arbitrary: i selected m) (auto split: if_splits dest: Suc_leD)

lemma best_hit_max:
  assumes "best_hit i selected m hs = Some j" "selected \<noteq> Some j"
  shows "i \<le> j \<and> j < i + length hs \<and> m < hs ! (j - i) \<and> (\<forall>h\<in>set hs. h \<le> hs ! (j - i))"
  using assms
proof (induction hs arbitrary: i selected m)
  case Nil
  then show ?case by simp
next
  case (Cons h hs)
  show ?case
  proof (cases "h \<le> m")
    case True
    then have "Suc i \<le> j \<and> j < Suc i + length hs \<and> m < hs ! (j - Suc i) \<and> (\<forall>h\<in>set hs. h \<le> hs ! (j - Suc i))"
      using Cons by (intro Cons.IH [of "Suc i" selected m]) auto
    then show ?thesis
      using True by (auto simp: nth_Cons' Suc_diff_le)
  next
    case False
    show ?thesis
    proof (cases "i = j")
      case True
      have "best_hit (Suc i') (Some i) m' hs' = Some i \<Longrightarrow> i \<le> i' \<Longrightarrow> \<forall>h\<in>set hs'. h \<le> m'" for i' m' hs'
        by (induction hs' arbitrary: i' m') (auto split: if_splits dest: best_hit_other)
      then show ?thesis
        using False Cons.prems(1) True by fastforce
    next
      case False
      then show ?thesis
        using Cons.IH [of "Suc i" "Some i" h] Cons.prems \<open>\<not> h \<le> m\<close> by (auto simp: nth_Cons' Suc_diff_le)
    qed
  qed
qed

text \<open>
  The rule set with the most matching lines is taken. The empty pattern matches every line, and patterns
  that are empty are dropped only after the choice: a rule set with an empty pattern is never beaten.
\<close>

lemma selected_group_best:
  assumes "select_level_group re lines raw_levels \<noteq> []"
  obtains i where "i < length raw_levels" "select_level_group re lines raw_levels = filter (\<lambda>p. p \<noteq> []) (raw_levels ! i)"
    and "0 < group_hits re lines (raw_levels ! i)"
    and "\<forall>pats\<in>set raw_levels. group_hits re lines pats \<le> group_hits re lines (raw_levels ! i)"
proof -
  let ?hits = "map (group_hits re lines) raw_levels"
  obtain i where i: "best_hit 0 None 0 ?hits = Some i" "select_level_group re lines raw_levels = filter (\<lambda>p. p \<noteq> []) (raw_levels ! i)"
    using assms by (auto simp: select_level_group_def split: option.splits)
  have "i < length raw_levels" "0 < ?hits ! i" "\<forall>h\<in>set ?hits. h \<le> ?hits ! i"
    using best_hit_max [OF i(1)] by auto
  then show thesis
    using that [OF _ i(2)] by simp
qed

lemma empty_pattern_unbeaten:
  assumes "\<And>s. re [] s" "[] \<in> set pats"
  shows "group_hits re lines others \<le> group_hits re lines pats"
proof (induction lines)
  case (Cons s lines)
  have "(\<exists>p\<in>set others. re p t \<and> \<not> not_bullet t) \<longrightarrow> (\<exists>p\<in>set pats. re p t \<and> \<not> not_bullet t)" for t
    using assms by blast
  then show ?case
    using Cons by (auto simp: group_hits_def Let_def)
qed (simp add: group_hits_def)

section \<open>Properties\<close>

definition sample_levels :: "int list" where
  "sample_levels = [1, 9, 2, 9, 1]"

text \<open>Property C36. The heading tree gives exactly the chunks of a line-by-line reading of the document: the lines
  before the first heading, then for every heading its path of enclosing headings with the text that follows it.
  Without separate heading content a chunk is written only for headings that have no heading below them, and it
  carries the text of the enclosing headings too.\<close>

theorem hierarchy_paths_reference:
  assumes "\<forall>l\<in>set ls. 1 \<le> l"
  shows "get_paths (build_tree (ChunkNode 0 [] [] []) (zip ls [0..<length ls]) depth) depth incl =
           hierarchy_reference ls depth incl"
  by (rule get_paths_reference [OF assms])

theorem hierarchy_paths_reference_witness:
  "get_paths (build_tree (ChunkNode 0 [] [] []) (zip sample_levels [0..<length sample_levels]) 2) 2 True =
     [[0, 1], [0, 2, 3], [4]] \<and>
   get_paths (build_tree (ChunkNode 0 [] [] []) (zip sample_levels [0..<length sample_levels]) 2) 2 False =
     [[0, 1, 2, 3], [4]]"
proof -
  have "\<forall>l\<in>set sample_levels. 1 \<le> l"
    by (simp add: sample_levels_def)
  note tree = hierarchy_paths_reference [OF this]
  have "hierarchy_reference sample_levels 2 True = [[0, 1], [0, 2, 3], [4]]"
      "hierarchy_reference sample_levels 2 False = [[0, 1, 2, 3], [4]]"
    by code_simp+
  then show ?thesis
    using tree [of 2 True] tree [of 2 False] by metis
qed

text \<open>Splitting by hierarchy keeps every record of the document: every record stands in some group, the
  records of a group are in document order, and a record that is no text stands alone in its group.\<close>

lemma hierarchy_keeps_every_record:
  assumes "\<forall>(title, depth)\<in>set outlines. 0 \<le> depth"
  shows "\<exists>paths. hierarchy_groups p recs (li_levels (resolve_title_levels re p outlines recs)) = map (map ((!) recs)) paths \<and>
           (\<Union>q\<in>set paths. set q) = {..<length recs} \<and>
           (\<forall>q\<in>set paths. q \<noteq> [] \<and> sorted_wrt (<) q \<and>
              ((\<forall>i\<in>set q. lr_doc_type (recs ! i) = ''text'') \<or> (\<exists>i. q = [i] \<and> lr_doc_type (recs ! i) \<noteq> ''text'')))"
  by (rule hierarchy_groups_positions [OF title_levels_length title_levels_positive [OF assms]])

definition sample_param :: TitleChunkerParam where
  "sample_param = \<lparr>tp_method = ''hierarchy'', tp_levels = [[''#'']], tp_hierarchy = 1,
     tp_include_heading_content = False, tp_root_chunk_as_heading = False\<rparr>"

lemma hierarchy_keeps_every_record_example:
  "\<exists>paths. hierarchy_groups sample_param [text_line ''# A'', text_line ''b'' :: unit line_record]
        (li_levels (resolve_title_levels prefix sample_param [(''# A'', 0)] [text_line ''# A'', text_line ''b'' :: unit line_record])) =
        map (map ((!) [text_line ''# A'', text_line ''b''])) paths \<and> (\<Union>q\<in>set paths. set q) = {..<2}"
proof -
  have "\<forall>(title, depth)\<in>set [(''# A'', 0 :: int)]. 0 \<le> depth" by simp
  from hierarchy_keeps_every_record [OF this, of sample_param "[text_line ''# A'', text_line ''b'' :: unit line_record]" prefix]
  show ?thesis by (auto simp: numeral_2_eq_2)
qed

text \<open>Splitting by groups drops nothing but blank text and keeps the order of the records: the groups, one
  after the other, are the records. A record that is no text stands alone. A text record is added to a group only
  while the group has fewer than 32 tokens, or fewer than 1024 and the record continues its section.\<close>

lemma title_groups_partition:
  "\<exists>gs. title_groups tokens recs sec_ids = map (map fst) gs \<and>
        concat gs = filter (\<lambda>line. lr_doc_type (fst line) \<noteq> ''text'' \<or> \<not> blank (lr_text (fst line))) (zip recs sec_ids) \<and>
        (\<forall>g\<in>set gs. g \<noteq> [] \<and>
           ((\<exists>line. g = [line] \<and> lr_doc_type (fst line) \<noteq> ''text'') \<or>
            (\<forall>line\<in>set g. lr_doc_type (fst line) = ''text'') \<and>
            (\<forall>i. 0 < i \<and> i < length g \<longrightarrow>
               group_tokens tokens (take i g) < MIN_GROUP_TOKENS \<or>
               group_tokens tokens (take i g) < MAX_GROUP_TOKENS \<and> snd (g ! i) = snd (g ! (i - 1)))))"
  using title_groups_inv [of tokens "zip recs sec_ids"]
  unfolding group_inv_def title_groups_def grouped_def grown_def is_text_def retained_def by blast

lemma title_groups_partition_example:
  "\<exists>gs. title_groups length [text_line ''a'', text_line ''b'' :: unit line_record] [0, 1] = map (map fst) gs \<and>
        concat gs = [(text_line ''a'', 0 :: int), (text_line ''b'', 1)]"
proof -
  have "\<not> blank ''a''" "\<not> blank ''b''" by code_simp+
  then have kept: "filter (\<lambda>line. lr_doc_type (fst line) \<noteq> ''text'' \<or> \<not> blank (lr_text (fst line)))
      (zip [text_line ''a'', text_line ''b'' :: unit line_record] [0, 1 :: int]) = [(text_line ''a'', 0), (text_line ''b'', 1)]"
    by (simp add: text_line_def)
  show ?thesis
    using title_groups_partition [of length "[text_line ''a'', text_line ''b'' :: unit line_record]" "[0, 1]"]
    unfolding kept by blast
qed

end
