(* ===== verification/Token_Chunks.thy ===== *)
theory Token_Chunks
  imports Chunk_Titles
begin

text \<open>
  Splitting a document by delimiters and by token count
  (\<open>src/core/flow/chunker/token_chunker.py\<close>, \<open>naive_merge\<close> of \<open>src/core/nlp/__init__.py\<close>,
  \<open>normalize_overlapped_percent\<close> of \<open>src/common/float_utils.py\<close> and the integer position fields of
  \<open>src/core/flow/parser/pdf_chunk_metadata.py\<close>).

  A delimiter pattern is the list of its alternatives, longest first; two different alternatives of one
  length never match at the same place, so their order does not matter. The capturing \<open>re.split\<close> at such a
  pattern is \<open>re_split\<close>: texts and delimiters alternate. Thresholds are compared exactly; the source divides
  by 100.0, which agrees on sizes below \<open>2^46\<close>.
\<close>

section \<open>Delimiters\<close>

definition clean_delimiters :: "json \<Rightarrow> string list option" where
  \<comment> \<open>\<open>check\<close> on one of the two parameters; \<open>None\<close>: it is not iterable\<close>
  "clean_delimiters v =
     map_option (filter (\<lambda>d. d \<noteq> []))
       (case v of
          JNull \<Rightarrow> Some []
        | JStr s \<Rightarrow> Some [s]
        | JList xs \<Rightarrow> Some (concat (map (\<lambda>x. case x of JStr s \<Rightarrow> [s] | _ \<Rightarrow> []) xs))
        | JDict d \<Rightarrow> Some (map fst d)
        | _ \<Rightarrow> None)"

function backtick_parts :: "string \<Rightarrow> string list" where
  \<comment> \<open>what stands between backticks\<close>
  "backtick_parts [] = []"
| "backtick_parts (c # s) =
     (let body = takeWhile (\<lambda>x. x \<noteq> CHR 0x60) s; rest = dropWhile (\<lambda>x. x \<noteq> CHR 0x60) s in
      if c = CHR 0x60 \<and> body \<noteq> [] \<and> rest \<noteq> [] then body # backtick_parts (tl rest) else backtick_parts s)"
  by pat_completeness auto
termination
  by (relation "measure length") (auto simp: less_Suc_eq_le le_diff_conv le_SucI length_dropWhile_le)

definition alternatives :: "string list \<Rightarrow> string list" where
  "alternatives ds = sort_key (\<lambda>d. - int (py_len d)) (remdups ds)"

definition compile_delimiter_pattern :: "string list \<Rightarrow> string list" where
  "compile_delimiter_pattern delimiters = alternatives (backtick_parts (concat delimiters))"

function re_split :: "string list \<Rightarrow> string \<Rightarrow> string \<Rightarrow> string list" where
  "re_split alts acc [] = [rev acc]"
| "re_split alts acc (c # s) =
     (case find (\<lambda>d. d \<noteq> [] \<and> prefix d (c # s)) alts of
        None \<Rightarrow> re_split alts (c # acc) s
      | Some d \<Rightarrow> rev acc # d # re_split alts [] (drop (length d) (c # s)))"
  by pat_completeness auto
termination
  by (relation "measure (\<lambda>(alts, acc, s). length s)") (auto simp: find_Some_iff)

fun kept_segments :: "string list \<Rightarrow> string list" where
  "kept_segments (s # d # rest) = (if s = [] \<or> blank (s @ d) then [] else [s @ d]) @ kept_segments rest"
| "kept_segments [s] = (if s = [] \<or> blank s then [] else [s])"
| "kept_segments [] = []"

definition split_text_by_pattern :: "string \<Rightarrow> string list \<Rightarrow> string list" where
  "split_text_by_pattern s alts = (if alts = [] then [s] else kept_segments (re_split alts [] s))"

section \<open>Chunks of a structured document\<close>

record 'i token_chunk =
  tc_text :: string
  tc_type :: string \<comment> \<open>\<open>ck_type\<close> and \<open>doc_type_kwd\<close>\<close>
  tc_img_id :: json
  tc_image :: "'i option"
  tc_positions :: "position list"
  tc_tokens :: nat
  tc_above :: string
  tc_below :: string
  tc_mom :: "string option"

record TokenChunkerParam =
  tk_delimiter_mode :: string
  tk_chunk_token_size :: nat
  tk_delimiters :: "string list"
  tk_overlapped_percent :: json
  tk_children_delimiters :: "string list"
  tk_table_context_size :: rat
  tk_image_context_size :: rat

definition item_text :: "pydict \<Rightarrow> string option" where
  \<comment> \<open>\<open>text\<close>, or \<open>content_with_weight\<close> when it is no text\<close>
  "item_text d = (case dget d ''text'' of JStr s \<Rightarrow> Some s
     | _ \<Rightarrow> (case dget d ''content_with_weight'' of JStr s \<Rightarrow> Some s | _ \<Rightarrow> None))"

definition item_chunks :: "'i title_lib \<Rightarrow> string list \<Rightarrow> 'i item \<Rightarrow> 'i token_chunk list" where
  "item_chunks L delimiter_pattern it =
     (let doc_type = str_lower (tl_py L) (py_strip (or_text (tl_py L) (dget (it_fields it) ''doc_type_kwd'') []));
          text = (case item_text (it_fields it) of None \<Rightarrow> [] | Some s \<Rightarrow> s);
          img = dget (it_fields it) ''img_id'' in
      if doc_type \<in> {''table'', ''image''} then
        [\<lparr>tc_text = text, tc_type = doc_type, tc_img_id = img, tc_image = it_image it, tc_positions = tl_positions L it,
          tc_tokens = tl_tokens L text, tc_above = [], tc_below = [], tc_mom = None\<rparr>]
      else
        map (\<lambda>s. \<lparr>tc_text = s, tc_type = ''text'', tc_img_id = (if truthy img then img else JNull), tc_image = it_image it,
               tc_positions = tl_positions L it, tc_tokens = tl_tokens L s, tc_above = [], tc_below = [], tc_mom = None\<rparr>)
          (filter (\<lambda>s. \<not> blank s) (split_text_by_pattern text delimiter_pattern)))"

definition build_json_chunks :: "'i title_lib \<Rightarrow> 'i item list \<Rightarrow> string list \<Rightarrow> 'i token_chunk list" where
  "build_json_chunks L json_result delimiter_pattern = concat (map (item_chunks L delimiter_pattern) json_result)"

subsection \<open>Context of tables and images\<close>

definition sentence_ends :: "string list" where
  "sentence_ends = [map char_of [227, 128, 130 :: nat], ''!'', ''?'', map char_of [239, 188, 159 :: nat],
     map char_of [239, 188, 155 :: nat], map char_of [239, 188, 129 :: nat], [CHR 0x0A], ''. '']"

fun pair_up :: "string list \<Rightarrow> string list" where
  "pair_up (s # d # rest) = (s @ d) # pair_up rest"
| "pair_up rest = rest"

fun take_until :: "(string \<Rightarrow> nat) \<Rightarrow> bool \<Rightarrow> rat \<Rightarrow> string \<Rightarrow> string list \<Rightarrow> string" where
  "take_until tokens from_end need collected [] = collected"
| "take_until tokens from_end need collected (s # ss) =
     (let collected' = (if from_end then s @ collected else collected @ s) in
      if need \<le> of_nat (tokens collected') then collected' else take_until tokens from_end need collected' ss)"

definition take_sentences :: "(string \<Rightarrow> nat) \<Rightarrow> string \<Rightarrow> rat \<Rightarrow> bool \<Rightarrow> string" where
  "take_sentences tokens text need_tokens from_end =
     (let sentences = pair_up (re_split sentence_ends [] text) in
      take_until tokens from_end need_tokens [] (if from_end then rev sentences else sentences))"

fun context_part :: "(string \<Rightarrow> nat) \<Rightarrow> bool \<Rightarrow> rat \<Rightarrow> 'i token_chunk list \<Rightarrow> string list" where
  \<comment> \<open>the texts taken, the nearest first; the chunks are given in the order they are visited\<close>
  "context_part tokens from_end remain [] = []"
| "context_part tokens from_end remain (c # cs) =
     (if remain \<le> 0 then []
      else if tc_type c \<noteq> ''text'' then context_part tokens from_end remain cs
      else if remain \<le> of_nat (tc_tokens c) then [take_sentences tokens (tc_text c) remain from_end]
      else tc_text c # context_part tokens from_end (remain - of_nat (tc_tokens c)) cs)"

definition attach_context :: "(string \<Rightarrow> nat) \<Rightarrow> TokenChunkerParam \<Rightarrow> 'i token_chunk list \<Rightarrow> nat \<Rightarrow> 'i token_chunk" where
  "attach_context tokens p chunks i =
     (let c = chunks ! i;
          size = (if tc_type c = ''image'' then tk_image_context_size p else tk_table_context_size p) in
      if tc_type c \<notin> {''table'', ''image''} \<or> size \<le> 0 then c
      else c\<lparr>tc_above := concat (rev (context_part tokens True size (rev (take i chunks)))),
             tc_below := concat (context_part tokens False size (drop (Suc i) chunks))\<rparr>)"

definition attach_context_to_media_chunks ::
  "(string \<Rightarrow> nat) \<Rightarrow> TokenChunkerParam \<Rightarrow> 'i token_chunk list \<Rightarrow> 'i token_chunk list" where
  "attach_context_to_media_chunks tokens p chunks = map (attach_context tokens p chunks) [0..<length chunks]"

subsection \<open>Merging by token count\<close>

definition over_threshold :: "nat \<Rightarrow> nat \<Rightarrow> nat \<Rightarrow> bool" where
  \<comment> \<open>\<open>tk_nums > chunk_token_size * (100 - overlapped_percent) / 100.0\<close>\<close>
  "over_threshold chunk_token_size pct tk_nums \<longleftrightarrow>
     int chunk_token_size * (100 - int pct) < 100 * int tk_nums"

definition overlap_tail :: "nat \<Rightarrow> string \<Rightarrow> string" where
  \<comment> \<open>\<open>s[int(len(s) * (100 - overlapped_percent) / 100.0):]\<close>\<close>
  "overlap_tail pct s = (let cps = code_points s in concat (drop (length cps * (100 - pct) div 100) cps))"

definition glue :: "string \<Rightarrow> string \<Rightarrow> string" where
  "glue s t = (if s \<noteq> [] \<and> t \<noteq> [] then s @ [CHR 0x0A] @ t else s @ t)"

definition merge_step ::
  "(string \<Rightarrow> nat) \<Rightarrow> nat \<Rightarrow> nat \<Rightarrow> 'i token_chunk list \<times> bool \<Rightarrow> 'i token_chunk \<Rightarrow> 'i token_chunk list \<times> bool" where
  \<comment> \<open>the flag says whether the last chunk is a text that may grow (\<open>prev_text_idx >= 0\<close>)\<close>
  "merge_step tokens limit pct st c =
     (case st of (merged, grows) \<Rightarrow>
      if tc_type c \<noteq> ''text'' then (merged @ [c], False)
      else if \<not> grows \<or> over_threshold limit pct (tc_tokens (last merged)) then
        let current = (if grows \<and> 0 < pct \<and> tc_text (last merged) \<noteq> []
                       then let text = overlap_tail pct (tc_text (last merged)) @ tc_text c in
                            c\<lparr>tc_text := text, tc_tokens := tokens text\<rparr>
                       else c) in
        (merged @ [current], True)
      else
        (butlast merged @
           [(last merged)\<lparr>tc_text := glue (tc_text (last merged)) (tc_text c),
                           tc_positions := tc_positions (last merged) @ tc_positions c,
                           tc_tokens := tc_tokens (last merged) + tc_tokens c\<rparr>], True))"

definition merge_text_chunks_by_token_size ::
  "(string \<Rightarrow> nat) \<Rightarrow> nat \<Rightarrow> nat \<Rightarrow> 'i token_chunk list \<Rightarrow> 'i token_chunk list" where
  "merge_text_chunks_by_token_size tokens chunk_token_size pct chunks =
     fst (foldl (merge_step tokens chunk_token_size pct) ([], False) chunks)"

subsection \<open>The documents that leave the component\<close>

type_synonym position_fields = "int \<times> int \<times> int \<times> int \<times> int"

record 'i token_doc =
  td_text :: string
  td_doc_type :: "string option"
  td_position_int :: "position_fields list"
  td_mom :: "string option"
  td_img_id :: "json option"
  td_image :: "'i option"

definition trunc :: "rat \<Rightarrow> int" where
  \<comment> \<open>\<open>int(x)\<close>: towards zero\<close>
  "trunc x = (if 0 \<le> x then \<lfloor>x\<rfloor> else \<lceil>x\<rceil>)"

definition position_int :: "position \<Rightarrow> position_fields" where
  "position_int pos =
     (case pos of (page, x0, x1, y0, y1) \<Rightarrow>
      (if page \<le> 0 then page + 1 else page, trunc x0, trunc x1, trunc y0, trunc y1))"

definition finalize_json_chunks :: "'i token_chunk list \<Rightarrow> 'i token_doc list" where
  "finalize_json_chunks chunks =
     map (\<lambda>c. \<lparr>td_text = tc_above c @ tc_text c @ tc_below c, td_doc_type = Some (tc_type c),
               td_position_int = map position_int (tc_positions c),
               td_mom = (case tc_mom c of Some [] \<Rightarrow> None | m \<Rightarrow> m),
               td_img_id = (if truthy (tc_img_id c) then Some (tc_img_id c) else None), td_image = tc_image c\<rparr>)
       (filter (\<lambda>c. \<not> blank (tc_above c @ tc_text c @ tc_below c)) chunks)"

definition split_chunk_docs_by_children :: "'i token_chunk list \<Rightarrow> string list \<Rightarrow> 'i token_chunk list" where
  "split_chunk_docs_by_children chunks alts =
     (if alts = [] then chunks
      else concat (map (\<lambda>c. if tc_type c \<noteq> ''text'' then [c]
             else map (\<lambda>s. c\<lparr>tc_mom := Some (tc_text c), tc_text := s\<rparr>)
                    (filter (\<lambda>s. \<not> blank s) (split_text_by_pattern (tc_text c) alts))) chunks))"

section \<open>Plain text\<close>

definition naive_pos :: "(string \<Rightarrow> nat) \<Rightarrow> string \<Rightarrow> string \<Rightarrow> string" where
  "naive_pos tokens t pos = (if tokens t < 8 then [] else pos)"

definition naive_add_chunk ::
  "(string \<Rightarrow> nat) \<Rightarrow> nat \<Rightarrow> nat \<Rightarrow> (string \<times> nat) list \<Rightarrow> string \<times> string \<Rightarrow> (string \<times> nat) list" where
  \<comment> \<open>\<open>add_chunk\<close>; a chunk with its token count\<close>
  "naive_add_chunk tokens chunk_token_num pct cks sec =
     (let t = CHR 0x0A # fst sec; tnum = tokens t; pos = naive_pos tokens t (snd sec);
          with_pos = (\<lambda>u v. if occurs_in pos u then v else v @ pos) in
      if fst (last cks) = [] \<or> over_threshold chunk_token_num pct (snd (last cks)) then
        let t' = overlap_tail pct (remove_tag (fst (last cks))) @ t in
        cks @ [(with_pos t' t', tnum)]
      else butlast cks @ [(fst (last cks) @ with_pos (fst (last cks)) t, snd (last cks) + tnum)])"

definition naive_custom ::
  "(string \<Rightarrow> nat) \<Rightarrow> string list \<Rightarrow> string \<times> string \<Rightarrow> string list" where
  \<comment> \<open>the chunks of one section at custom delimiters\<close>
  "naive_custom tokens custom sec =
     map (\<lambda>sub. let t = CHR 0x0A # sub; pos = naive_pos tokens t (snd sec) in
            if pos \<noteq> [] \<and> \<not> occurs_in pos t then t @ pos else t)
       (filter (\<lambda>sub. sub \<notin> set custom) (re_split (alternatives custom) [] (fst sec)))"

definition naive_merge ::
  "(string \<Rightarrow> nat) \<Rightarrow> (string \<times> string) list \<Rightarrow> nat \<Rightarrow> string \<Rightarrow> nat \<Rightarrow> string list" where
  "naive_merge tokens sections chunk_token_num delimiter pct =
     (if sections = [] then []
      else if backtick_parts delimiter \<noteq> [] then concat (map (naive_custom tokens (backtick_parts delimiter)) sections)
      else map fst (foldl (naive_add_chunk tokens chunk_token_num pct) [([], 0)] sections))"

definition normalize_overlapped_percent :: "pylib \<Rightarrow> json \<Rightarrow> nat option" where
  \<comment> \<open>\<open>None\<close>: \<open>int\<close> of an infinity or of NaN raises\<close>
  "normalize_overlapped_percent L v =
     (case to_float L v of
        None \<Rightarrow> Some 0
      | Some (Finite x) \<Rightarrow>
          (case (if 0 < x \<and> x < 1 then float_op L (CHR ''*'') (JFloat (Finite x)) (JInt 100) else Some (JFloat (Finite x))) of
             Some (JFloat (Finite y)) \<Rightarrow> Some (nat (max 0 (min (trunc y) 90)))
           | _ \<Rightarrow> None)
      | Some _ \<Rightarrow> None)"

definition text_doc :: "string \<Rightarrow> string option \<Rightarrow> 'i token_doc" where
  "text_doc s mom = \<lparr>td_text = s, td_doc_type = None, td_position_int = [], td_mom = mom, td_img_id = None, td_image = None\<rparr>"

definition chunk_text_payload ::
  "'i title_lib \<Rightarrow> TokenChunkerParam \<Rightarrow> nat \<Rightarrow> string \<Rightarrow> 'i token_doc list" where
  "chunk_text_payload L p pct payload =
     (if tk_delimiter_mode p = ''one'' then (if blank payload then [] else [text_doc payload None])
      else
        let delimiter_pattern = compile_delimiter_pattern (tk_delimiters p);
            custom_pattern = alternatives (tk_children_delimiters p);
            cks = (if delimiter_pattern \<noteq> [] then split_text_by_pattern payload delimiter_pattern
                   else naive_merge (tl_tokens L) (if payload = [] then [] else [(payload, [])]) (tk_chunk_token_size p) [] pct) in
        if custom_pattern \<noteq> [] then
          concat (map (\<lambda>c. map (\<lambda>s. text_doc s (Some c)) (filter (\<lambda>s. \<not> blank s) (split_text_by_pattern c custom_pattern)))
                    (filter (\<lambda>c. \<not> blank c) cks))
        else map (\<lambda>c. text_doc (py_strip c) None) (filter (\<lambda>c. \<not> blank c) cks))"

definition chunk_json_items ::
  "'i title_lib \<Rightarrow> TokenChunkerParam \<Rightarrow> nat \<Rightarrow> 'i item list \<Rightarrow> 'i token_doc list" where
  "chunk_json_items L p pct items =
     (if tk_delimiter_mode p = ''one'' then
        let merged = join [CHR 0x0A] (filter (\<lambda>s. \<not> blank s)
              (concat (map (\<lambda>it. case item_text (it_fields it) of None \<Rightarrow> [] | Some s \<Rightarrow> [s]) items))) in
        if blank merged then [] else [text_doc merged None]
      else
        let delimiter_pattern = compile_delimiter_pattern (tk_delimiters p);
            custom_pattern = alternatives (tk_children_delimiters p);
            chunks = attach_context_to_media_chunks (tl_tokens L) p (build_json_chunks L items delimiter_pattern);
            merged = (if delimiter_pattern = []
                      then merge_text_chunks_by_token_size (tl_tokens L) (tk_chunk_token_size p) pct chunks else chunks) in
        finalize_json_chunks (split_chunk_docs_by_children merged custom_pattern))"

definition token_chunker :: "'i title_lib \<Rightarrow> TokenChunkerParam \<Rightarrow> 'i upstream \<Rightarrow> 'i token_doc list option" where
  \<comment> \<open>\<open>_invoke\<close> on an accepted input; \<open>None\<close>: the overlap is no number of percent\<close>
  "token_chunker L p up =
     (case normalize_overlapped_percent (tl_py L) (tk_overlapped_percent p) of
        None \<Rightarrow> None
      | Some pct \<Rightarrow> Some (
          if is_text_format up
          then chunk_text_payload L p pct (case up_payload up (the (up_format up)) of None \<Rightarrow> [] | Some s \<Rightarrow> s)
          else chunk_json_items L p pct (case up_json up of None \<Rightarrow> [] | Some its \<Rightarrow> its)))"

section \<open>Splitting loses nothing\<close>

lemma concat_re_split: "concat (re_split alts acc s) = rev acc @ s"
proof (induction alts acc s rule: re_split.induct)
  case (2 alts acc c s)
  show ?case
  proof (cases "find (\<lambda>d. d \<noteq> [] \<and> prefix d (c # s)) alts")
    case None
    then show ?thesis using 2(1) by simp
  next
    case (Some d)
    then have "prefix d (c # s)"
      by (auto simp: find_Some_iff)
    then have "d @ drop (length d) (c # s) = c # s"
      by (auto elim: prefixE)
    then show ?thesis
      using 2(2) [OF Some] Some by simp
  qed
qed simp

lemma concat_pair_up: "concat (pair_up xs) = concat xs"
  by (induction xs rule: pair_up.induct) auto

lemma kept_segments_not_blank: "s \<in> set (kept_segments xs) \<Longrightarrow> \<not> blank s"
  by (induction xs rule: kept_segments.induct) (auto split: if_splits)

lemma take_until_suffix:
  "suffix (take_until tokens True need collected ss) (concat (rev ss) @ collected)"
proof (induction ss arbitrary: collected)
  case (Cons s ss)
  have "suffix (s @ collected) (concat (rev ss) @ s @ collected)"
    by (simp add: suffix_def)
  then show ?case
    using Cons [of "s @ collected"] by (simp add: Let_def)
qed simp

lemma take_until_prefix:
  "prefix (take_until tokens False need collected ss) (collected @ concat ss)"
proof (induction ss arbitrary: collected)
  case (Cons s ss)
  show ?case
    using Cons [of "collected @ s"] by (simp add: Let_def)
qed simp

lemma take_sentences_adjacent:
  "suffix (take_sentences tokens s need True) s" "prefix (take_sentences tokens s need False) s"
  using take_until_suffix [of tokens need "[]" "rev (pair_up (re_split sentence_ends [] s))"]
    take_until_prefix [of tokens need "[]" "pair_up (re_split sentence_ends [] s)"]
  by (simp_all add: take_sentences_def concat_pair_up concat_re_split)

definition texts_of :: "'i token_chunk list \<Rightarrow> string list" where
  "texts_of cs = map tc_text (filter (\<lambda>c. tc_type c = ''text'') cs)"

lemma context_part_suffix:
  "suffix (concat (rev (context_part tokens True remain cs))) (concat (rev (texts_of cs)))"
proof (induction cs arbitrary: remain)
  case (Cons c cs)
  have "suffix (take_sentences tokens (tc_text c) remain True) (concat (rev (texts_of cs)) @ tc_text c)"
    using take_sentences_adjacent(1) by (rule suffix_appendI)
  then show ?case
    using Cons by (auto simp: texts_of_def same_suffix_suffix)
qed (simp add: texts_of_def)

lemma context_part_prefix:
  "prefix (concat (context_part tokens False remain cs)) (concat (texts_of cs))"
proof (induction cs arbitrary: remain)
  case (Cons c cs)
  have "prefix (take_sentences tokens (tc_text c) remain False) (tc_text c @ concat (texts_of cs))"
    using take_sentences_adjacent(2) by (rule prefix_order.trans) simp
  then show ?case
    using Cons by (auto simp: texts_of_def)
qed (simp add: texts_of_def)

section \<open>Merged chunks\<close>

text \<open>The merged chunk of a group of neighbouring chunks, after the merged chunk \<open>prev\<close> before it: the texts joined,
  led by the share of the text of \<open>prev\<close> that overlaps when both are text.\<close>

definition absorb :: "'i token_chunk \<Rightarrow> 'i token_chunk \<Rightarrow> 'i token_chunk" where
  "absorb l c = l\<lparr>tc_text := glue (tc_text l) (tc_text c), tc_positions := tc_positions l @ tc_positions c,
                  tc_tokens := tc_tokens l + tc_tokens c\<rparr>"

definition led_by :: "(string \<Rightarrow> nat) \<Rightarrow> nat \<Rightarrow> 'i token_chunk option \<Rightarrow> 'i token_chunk \<Rightarrow> 'i token_chunk" where
  "led_by tokens pct prev c =
     (case prev of None \<Rightarrow> c | Some q \<Rightarrow>
        if pct = 0 \<or> tc_type q \<noteq> ''text'' \<or> tc_type c \<noteq> ''text'' \<or> tc_text q = [] then c
        else c\<lparr>tc_text := overlap_tail pct (tc_text q) @ tc_text c, tc_tokens := tokens (overlap_tail pct (tc_text q) @ tc_text c)\<rparr>)"

definition merged_group :: "(string \<Rightarrow> nat) \<Rightarrow> nat \<Rightarrow> 'i token_chunk option \<Rightarrow> 'i token_chunk list \<Rightarrow> 'i token_chunk" where
  "merged_group tokens pct prev g = foldl absorb (led_by tokens pct prev (hd g)) (tl g)"

definition text_group :: "'i token_chunk list \<Rightarrow> bool" where
  "text_group g \<longleftrightarrow> g \<noteq> [] \<and> (\<forall>c\<in>set g. tc_type c = ''text'')"

text \<open>One group is well placed: it is a single table or image, or texts each of which was joined while what was
  merged before it was within the reduced limit; and it starts next to a text only when that one is over it.\<close>

definition in_limit :: "nat \<Rightarrow> nat \<Rightarrow> nat \<Rightarrow> bool" where
  "in_limit limit pct n \<longleftrightarrow> 100 * int n \<le> int limit * (100 - int pct)"

definition placed :: "(string \<Rightarrow> nat) \<Rightarrow> nat \<Rightarrow> nat \<Rightarrow> 'i token_chunk option \<Rightarrow> 'i token_chunk list \<Rightarrow> 'i token_chunk \<Rightarrow> bool" where
  "placed tokens limit pct prev g m \<longleftrightarrow> m = merged_group tokens pct prev g \<and>
     ((\<exists>c. g = [c] \<and> tc_type c \<noteq> ''text'') \<or>
      text_group g \<and> (\<forall>i. 0 < i \<and> i < length g \<longrightarrow> in_limit limit pct (tc_tokens (merged_group tokens pct prev (take i g)))) \<and>
      (\<forall>q. prev = Some q \<and> tc_type q = ''text'' \<longrightarrow> \<not> in_limit limit pct (tc_tokens q)))"

fun placed_all :: "(string \<Rightarrow> nat) \<Rightarrow> nat \<Rightarrow> nat \<Rightarrow> 'i token_chunk option \<Rightarrow> 'i token_chunk list list \<Rightarrow> 'i token_chunk list \<Rightarrow> bool" where
  "placed_all tokens limit pct prev (g # gs) (m # ms) = (placed tokens limit pct prev g m \<and> placed_all tokens limit pct (Some m) gs ms)"
| "placed_all tokens limit pct prev gs ms = (gs = [] \<and> ms = [])"

definition last_or :: "'a option \<Rightarrow> 'a list \<Rightarrow> 'a option" where
  "last_or prev ms = (if ms = [] then prev else Some (last ms))"

lemma placed_all_length: "placed_all tokens limit pct prev gs ms \<Longrightarrow> length gs = length ms"
  by (induction tokens limit pct prev gs ms rule: placed_all.induct) auto

lemma placed_all_snoc:
  "length gs = length ms \<Longrightarrow> placed_all tokens limit pct prev (gs @ [g]) (ms @ [m]) \<longleftrightarrow>
     placed_all tokens limit pct prev gs ms \<and> placed tokens limit pct (last_or prev ms) g m"
proof (induction gs ms arbitrary: prev rule: list_induct2)
  case (Cons h gs n ms)
  then show ?case by (cases ms) (auto simp: last_or_def)
qed (simp add: last_or_def)

lemma absorb_frame [simp]: "tc_type (absorb l c) = tc_type l" "tc_tokens (absorb l c) = tc_tokens l + tc_tokens c"
  by (simp_all add: absorb_def)

lemma led_by_type [simp]: "tc_type (led_by tokens pct prev c) = tc_type c"
  by (simp add: led_by_def split: option.splits)

lemma merged_group_type: "tc_type (merged_group tokens pct prev g) = tc_type (hd g)"
proof -
  have "tc_type (foldl absorb l cs) = tc_type l" for l :: "'a token_chunk" and cs
    by (induction cs arbitrary: l) simp_all
  then show ?thesis by (simp add: merged_group_def)
qed

lemma merged_group_single: "merged_group tokens pct prev [c] = led_by tokens pct prev c"
  by (simp add: merged_group_def)

lemma merged_group_snoc: "g \<noteq> [] \<Longrightarrow> merged_group tokens pct prev (g @ [c]) = absorb (merged_group tokens pct prev g) c"
  by (simp add: merged_group_def)

lemma over_threshold_in_limit: "over_threshold limit pct n \<longleftrightarrow> \<not> in_limit limit pct n"
  by (auto simp: over_threshold_def in_limit_def)

lemma placed_text: "placed tokens limit pct prev g m \<Longrightarrow> tc_type m = ''text'' \<longleftrightarrow> text_group g"
  by (auto simp: placed_def merged_group_type text_group_def)

lemma placed_snoc:
  assumes "placed tokens limit pct prev g m" "tc_type m = ''text''" "tc_type c = ''text''" "in_limit limit pct (tc_tokens m)"
  shows "placed tokens limit pct prev (g @ [c]) (absorb m c)"
proof -
  have g: "text_group g" "g \<noteq> []" "m = merged_group tokens pct prev g"
    using placed_text [OF assms(1)] assms(1,2) by (auto simp: text_group_def placed_def)
  then have old: "\<forall>i. 0 < i \<and> i < length g \<longrightarrow> in_limit limit pct (tc_tokens (merged_group tokens pct prev (take i g)))"
    "\<forall>q. prev = Some q \<and> tc_type q = ''text'' \<longrightarrow> \<not> in_limit limit pct (tc_tokens q)"
    using assms(1) by (auto simp: placed_def text_group_def)
  have "in_limit limit pct (tc_tokens (merged_group tokens pct prev (take i (g @ [c]))))"
    if "0 < i" "i < length (g @ [c])" for i
    using that old(1) g(3) assms(4) by (cases "i = length g") auto
  with g old(2) assms(3) show ?thesis by (auto simp: placed_def merged_group_snoc text_group_def)
qed

definition merge_inv ::
  "(string \<Rightarrow> nat) \<Rightarrow> nat \<Rightarrow> nat \<Rightarrow> 'i token_chunk list \<Rightarrow> 'i token_chunk list \<times> bool \<Rightarrow> bool" where
  "merge_inv tokens limit pct cs st \<longleftrightarrow>
     (\<exists>gs. concat gs = cs \<and> placed_all tokens limit pct None gs (fst st)) \<and>
     (snd st \<longleftrightarrow> fst st \<noteq> [] \<and> tc_type (last (fst st)) = ''text'')"

lemma merge_inv_step:
  assumes inv: "merge_inv tokens limit pct cs st"
  shows "merge_inv tokens limit pct (cs @ [c]) (merge_step tokens limit pct st c)"
proof -
  obtain ms grows where st: "st = (ms, grows)" by (cases st)
  obtain gs where gs: "concat gs = cs" "placed_all tokens limit pct None gs ms"
    and grows: "grows \<longleftrightarrow> ms \<noteq> [] \<and> tc_type (last ms) = ''text''"
    using inv by (auto simp: merge_inv_def st)
  note len = placed_all_length [OF gs(2)]
  have add: "merge_inv tokens limit pct (cs @ [c]) (ms @ [m], tc_type c = ''text'')"
    if "placed tokens limit pct (last_or None ms) [c] m" for m
    unfolding merge_inv_def
    using that gs placed_all_snoc [OF len] placed_text [OF that]
    by (intro conjI exI [of _ "gs @ [[c]]"]) (auto simp: text_group_def)
  consider (other) "tc_type c \<noteq> ''text''" | (new) "tc_type c = ''text''" "\<not> grows \<or> over_threshold limit pct (tc_tokens (last ms))"
    | (grow) "tc_type c = ''text''" "grows" "\<not> over_threshold limit pct (tc_tokens (last ms))"
    by blast
  then show ?thesis
  proof cases
    case other
    then have "placed tokens limit pct (last_or None ms) [c] c"
      by (auto simp: placed_def merged_group_single led_by_def split: option.splits)
    from add [OF this] other show ?thesis by (simp add: st merge_step_def)
  next
    case new
    have l: "last_or None ms = Some q \<longleftrightarrow> ms \<noteq> [] \<and> q = last ms" for q by (auto simp: last_or_def)
    have p: "placed tokens limit pct (last_or None ms) [c] (led_by tokens pct (last_or None ms) c)"
      using new grows by (auto simp: placed_def merged_group_single text_group_def l over_threshold_in_limit)
    have "merge_step tokens limit pct st c = (ms @ [led_by tokens pct (last_or None ms) c], True)"
      using new grows by (auto simp: st merge_step_def led_by_def last_or_def Let_def)
    with new(1) add [OF p] show ?thesis by simp
  next
    case grow
    then have ne: "ms \<noteq> []" "gs \<noteq> []" using grows len by auto
    then have "ms = butlast ms @ [last ms]" "gs = butlast gs @ [last gs]" by simp_all
    with gs(2) len have split: "placed_all tokens limit pct None (butlast gs) (butlast ms)"
      "placed tokens limit pct (last_or None (butlast ms)) (last gs) (last ms)"
      using placed_all_snoc [of "butlast gs" "butlast ms" tokens limit pct None "last gs" "last ms"] by simp_all
    have "placed tokens limit pct (last_or None (butlast ms)) (last gs @ [c]) (absorb (last ms) c)"
      using placed_snoc [OF split(2)] grow grows by (simp add: over_threshold_in_limit)
    then have "placed_all tokens limit pct None (butlast gs @ [last gs @ [c]]) (butlast ms @ [absorb (last ms) c])"
      using placed_all_snoc [of "butlast gs" "butlast ms"] split(1) len by simp
    moreover have "concat (butlast gs @ [last gs @ [c]]) = cs @ [c]"
      using gs(1) \<open>gs = _\<close> by (metis append_assoc concat_append concat.simps append_Nil2)
    moreover have "merge_step tokens limit pct st c = (butlast ms @ [absorb (last ms) c], True)"
      using grow by (simp add: st merge_step_def absorb_def)
    moreover have "snd (merge_step tokens limit pct st c) \<longleftrightarrow> butlast ms @ [absorb (last ms) c] \<noteq> [] \<and>
        tc_type (last (butlast ms @ [absorb (last ms) c])) = ''text''"
      using calculation(3) grow(2) grows by simp
    ultimately show ?thesis unfolding merge_inv_def by (metis fst_conv)
  qed
qed

lemma merge_chunks_inv: "merge_inv tokens limit pct cs (foldl (merge_step tokens limit pct) ([], False) cs)"
proof (induction cs rule: rev_induct)
  case Nil
  show ?case by (auto simp: merge_inv_def intro: exI [of _ "[]"])
next
  case (snoc c cs)
  then show ?case by (simp add: merge_inv_step)
qed

lemma placed_all_plain:
  "placed_all tokens limit 0 prev gs ms \<Longrightarrow> ms = map (\<lambda>g. foldl absorb (hd g) (tl g)) gs"
proof (induction tokens limit "0 :: nat" prev gs ms rule: placed_all.induct)
  case (1 tokens limit prev g gs m ms)
  have "led_by tokens 0 prev c = c" for c :: "'a token_chunk" by (simp add: led_by_def split: option.splits)
  then have "merged_group tokens 0 prev g = foldl absorb (hd g) (tl g)" by (simp add: merged_group_def)
  with 1 show ?case by (auto simp: placed_def)
qed auto

section \<open>Sizes and inputs\<close>

lemma normalize_overlapped_percent_bounded:
  "normalize_overlapped_percent L v = Some pct \<Longrightarrow> pct \<le> 90"
  by (auto simp: normalize_overlapped_percent_def split: option.splits json.splits pyfloat.splits if_splits)

text \<open>
  A share of 1 is accepted by the parameter check and read as one percent; a smaller share below 1 is read
  as a hundred times itself.
\<close>

lemma overlap_of_one:
  assumes "to_float L v = Some (Finite 1)"
  shows "normalize_overlapped_percent L v = Some 1"
  using assms by (simp add: normalize_overlapped_percent_def trunc_def)

text \<open>
  A plain text has a single section, and merging never splits a section: without a delimiter between backticks
  the whole payload is one chunk, whatever the size limit.
\<close>

lemma code_points_Nil: "code_points [] = []"
  by simp

lemma naive_merge_single:
  "naive_merge tokens [(payload, [])] chunk_token_num [] pct = [[], CHR 0x0A # payload]"
  by (simp add: naive_merge_def naive_add_chunk_def naive_pos_def overlap_tail_def Let_def)

lemma token_size_ignored_on_text:
  assumes "tk_delimiter_mode p \<noteq> ''one''" "compile_delimiter_pattern (tk_delimiters p) = []" "tk_children_delimiters p = []"
    and "payload \<noteq> []" "\<not> blank (CHR 0x0A # payload)"
  shows "chunk_text_payload L p pct payload = [text_doc (py_strip (CHR 0x0A # payload)) None]"
proof -
  have "blank []"
    by (simp add: blank_def py_strip_def strip_codes.simps ws_codes_def codes_def)
  then show ?thesis
    using assms by (simp add: chunk_text_payload_def alternatives_def naive_merge_single)
qed

text \<open>Chunks of an earlier component are accepted as input and not read.\<close>

lemma chunks_input_not_read:
  assumes "up_format up = Some ''chunks''" "up_json up = None"
    and "normalize_overlapped_percent (tl_py L) (tk_overlapped_percent p) = Some pct"
  shows "token_chunker L p up = Some []"
proof -
  have "blank []"
    by (simp add: blank_def py_strip_def strip_codes.simps ws_codes_def codes_def)
  then show ?thesis
    using assms
    by (simp add: token_chunker_def is_text_format_def text_formats_def chunk_json_items_def build_json_chunks_def
        attach_context_to_media_chunks_def merge_text_chunks_by_token_size_def split_chunk_docs_by_children_def
        finalize_json_chunks_def Let_def)
qed

section \<open>Properties\<close>

text \<open>Property C37. Merging by token count, at every overlap percentage, keeps the chunks and their order: the chunks
  that leave are groups of neighbouring chunks, each a table or image as it came, or texts joined. A text is joined on
  only while what is merged is within the size limit reduced by the percentage, and a new text chunk starts next to
  another one only when that one is over the reduced limit; it is then led by the last share of the other's text that the
  percentage gives, and its size counted anew. Without overlap nothing but the texts of the group is in it.\<close>

theorem token_merge_partition:
  "\<exists>gs. concat gs = chunks \<and>
     placed_all tokens limit pct None gs (merge_text_chunks_by_token_size tokens limit pct chunks) \<and>
     (pct = 0 \<longrightarrow> merge_text_chunks_by_token_size tokens limit pct chunks = map (\<lambda>g. foldl absorb (hd g) (tl g)) gs)"
  using merge_chunks_inv [of tokens limit pct chunks] placed_all_plain
  unfolding merge_inv_def merge_text_chunks_by_token_size_def by blast

definition sample_chunk :: "string \<Rightarrow> nat \<Rightarrow> unit token_chunk" where
  "sample_chunk s n = \<lparr>tc_text = s, tc_type = ''text'', tc_img_id = JNull, tc_image = None, tc_positions = [],
     tc_tokens = n, tc_above = [], tc_below = [], tc_mom = None\<rparr>"

definition sample_input :: "unit token_chunk list" where
  "sample_input = [sample_chunk ''aaaa'' 4, sample_chunk ''bb'' 2, sample_chunk ''c'' 1]"

theorem token_merge_partition_witness:
  "\<exists>gs. concat gs = sample_input \<and>
     placed_all length 10 50 None gs [sample_chunk (''aaaa'' @ [CHR 0x0A] @ ''bb'') 6, sample_chunk (''a'' @ [CHR 0x0A] @ ''bbc'') 5] \<and>
     merge_text_chunks_by_token_size length 10 50 sample_input =
       [sample_chunk (''aaaa'' @ [CHR 0x0A] @ ''bb'') 6, sample_chunk (''a'' @ [CHR 0x0A] @ ''bbc'') 5]"
proof -
  have "merge_text_chunks_by_token_size length 10 50 sample_input =
      [sample_chunk (''aaaa'' @ [CHR 0x0A] @ ''bb'') 6, sample_chunk (''a'' @ [CHR 0x0A] @ ''bbc'') 5]"
    by code_simp
  then show ?thesis
    using token_merge_partition [of sample_input length 10 50] by (metis (no_types, lifting))
qed

text \<open>The context attached to a table or an image is adjacent text: what stands above it ends the text of the
  chunks before it and what stands below begins the text of the chunks after it. Text chunks, and the text of the
  table or image itself, stay as they are.\<close>

lemma media_context_adjacent:
  assumes "i < length chunks" "tc_type (chunks ! i) \<in> {''table'', ''image''}"
    and "\<forall>c\<in>set chunks. tc_above c = [] \<and> tc_below c = []"
  shows "let c = attach_context_to_media_chunks tokens p chunks ! i in
           suffix (tc_above c) (concat (texts_of (take i chunks))) \<and>
           prefix (tc_below c) (concat (texts_of (drop (Suc i) chunks))) \<and> tc_text c = tc_text (chunks ! i)"
proof -
  have "texts_of (rev (take i chunks)) = rev (texts_of (take i chunks))"
    by (simp add: texts_of_def rev_map rev_filter)
  then have "suffix (concat (rev (context_part tokens True r (rev (take i chunks))))) (concat (texts_of (take i chunks)))" for r
    using context_part_suffix [of tokens r "rev (take i chunks)"] by simp
  then show ?thesis
    using assms(1,3) context_part_prefix [of tokens _ "drop (Suc i) chunks"]
    by (simp add: attach_context_to_media_chunks_def attach_context_def Let_def)
qed

definition sample_media :: "unit token_chunk list" where
  "sample_media = [sample_chunk ''before'' 2, (sample_chunk ''cells'' 1)\<lparr>tc_type := ''table''\<rparr>, sample_chunk ''after'' 2]"

definition sample_token_param :: TokenChunkerParam where
  "sample_token_param = \<lparr>tk_delimiter_mode = ''token_size'', tk_chunk_token_size = 512, tk_delimiters = [],
     tk_overlapped_percent = JInt 0, tk_children_delimiters = [], tk_table_context_size = 5, tk_image_context_size = 0\<rparr>"

lemma media_context_adjacent_example:
  "let c = attach_context_to_media_chunks length sample_token_param sample_media ! 1 in
     suffix (tc_above c) ''before'' \<and> prefix (tc_below c) ''after'' \<and> tc_text c = ''cells'' \<and> tc_above c = ''before''"
proof -
  have "tc_above (attach_context_to_media_chunks length sample_token_param sample_media ! 1) = ''before''"
    by (simp add: attach_context_to_media_chunks_def attach_context_def sample_media_def sample_token_param_def
        sample_chunk_def Let_def)
  then show ?thesis
    using media_context_adjacent [of 1 sample_media length sample_token_param]
    by (simp add: sample_media_def sample_chunk_def texts_of_def Let_def)
qed

end
