(* ===== verification/Component_Invoke.thy ===== *)
theory Component_Invoke
  imports Agent_Lists
begin

text \<open>
  The call of a component and what becomes of an exception in it
  (\<open>invoke\<close> and \<open>invoke_async\<close> of \<open>src/agent/component/base.py\<close>, \<open>ProcessBase.invoke\<close> of
  \<open>src/core/flow/base.py\<close>).

  The work of a component, its \<open>_invoke\<close>, is an argument: it takes the object and gives the object as it left
  it, with the text of the exception when it raised one. Exceptions that are no \<open>Exception\<close> (the cancellation
  of a task by the event loop) are not covered. The clock is read as a number of seconds. A call itself ends in
  \<open>Inl\<close> when subtracting the time of creation raises, which is outside the \<open>try\<close>.
\<close>

section \<open>Objects\<close>

record cpn_object =
  co_cpn :: component
  co_exception_method :: "string option"
  co_exception_default_value :: json
  co_exception_goto :: "string list"
  co_inputs :: "(string \<times> json) list"
  co_debug_inputs :: pydict

definition out :: "string \<Rightarrow> json \<Rightarrow> cpn_object \<Rightarrow> cpn_object" where
  "out key v obj = obj\<lparr>co_cpn := set_output key v (co_cpn obj)\<rparr>"

definition get_exception_default_value :: "cpn_object \<Rightarrow> json" where
  "get_exception_default_value obj =
     (if co_exception_method obj \<noteq> Some ''comment'' then JStr [] else co_exception_default_value obj)"

definition set_exception_default_value :: "cpn_object \<Rightarrow> cpn_object" where
  "set_exception_default_value obj = out ''result'' (get_exception_default_value obj) obj"

definition exception_handler :: "cpn_object \<Rightarrow> (string list \<times> json) option" where
  "exception_handler obj =
     (if co_exception_method obj \<in> {None, Some []} then None
      else Some (co_exception_goto obj, co_exception_default_value obj))"

definition reset_object :: "bool \<Rightarrow> cpn_object \<Rightarrow> cpn_object" where
  "reset_object only_output obj =
     (let obj' = obj\<lparr>co_cpn := reset_outputs (co_cpn obj)\<rparr> in
      if only_output then obj'
      else obj'\<lparr>co_inputs := map (map_prod id (\<lambda>_. JNull)) (co_inputs obj'), co_debug_inputs := []\<rparr>)"

definition set_input_value :: "string \<Rightarrow> json \<Rightarrow> cpn_object \<Rightarrow> cpn_object" where
  "set_input_value key v obj = obj\<lparr>co_inputs := AList.update key v (co_inputs obj)\<rparr>"

definition get_input_value :: "cpn_object \<Rightarrow> string \<Rightarrow> json" where
  "get_input_value obj key = (case map_of (co_inputs obj) key of None \<Rightarrow> JNull | Some v \<Rightarrow> v)"

section \<open>Calls\<close>

type_synonym work = "cpn_object \<Rightarrow> cpn_object \<times> string option"

definition subtract :: "pylib \<Rightarrow> json \<Rightarrow> json \<Rightarrow> json option" where
  \<comment> \<open>\<open>x - y\<close> for a float \<open>x\<close>; \<open>None\<close>: TypeError or OverflowError\<close>
  "subtract L x y = (case y of JInt _ \<Rightarrow> float_op L (CHR ''-'') x y | JBool _ \<Rightarrow> float_op L (CHR ''-'') x y
     | JFloat _ \<Rightarrow> float_op L (CHR ''-'') x y | _ \<Rightarrow> None)"

definition handle_exception :: "string \<Rightarrow> cpn_object \<Rightarrow> cpn_object" where
  "handle_exception e obj =
     (if truthy (get_exception_default_value obj) then set_exception_default_value obj
      else out ''_ERROR'' (JStr e) obj)"

definition guarded :: "work \<Rightarrow> work" where
  \<comment> \<open>the \<open>try\<close> statement; the text of a caught exception is kept\<close>
  "guarded work obj = (case work obj of (obj', None) \<Rightarrow> (obj', None) | (obj', Some e) \<Rightarrow> (handle_exception e obj', Some e))"

definition finish_call :: "pylib \<Rightarrow> rat \<Rightarrow> cpn_object \<Rightarrow> cpn_object + cpn_object \<times> json" where
  "finish_call L now obj =
     (case subtract L (JFloat (Finite now)) (cpn_output (co_cpn obj) ''_created_time'') of
        None \<Rightarrow> Inl obj
      | Some d \<Rightarrow> let obj' = out ''_elapsed_time'' d obj in Inr (obj', cpn_output (co_cpn obj') []))"

definition invoke :: "pylib \<Rightarrow> rat \<Rightarrow> rat \<Rightarrow> work \<Rightarrow> cpn_object \<Rightarrow> cpn_object + cpn_object \<times> json" where
  "invoke L start stop work obj =
     finish_call L stop ((fst (guarded work (out ''_created_time'' (JFloat (Finite start)) obj)))\<lparr>co_debug_inputs := []\<rparr>)"

definition check_if_canceled :: "bool \<Rightarrow> cpn_object \<Rightarrow> bool \<times> cpn_object" where
  "check_if_canceled canceled obj =
     (if canceled then (True, out ''_ERROR'' (JStr ''Task has been canceled'') obj) else (False, obj))"

definition invoke_async ::
  "pylib \<Rightarrow> bool \<Rightarrow> rat \<Rightarrow> rat \<Rightarrow> work \<Rightarrow> cpn_object \<Rightarrow> cpn_object + cpn_object \<times> json" where
  \<comment> \<open>a canceled call returns \<open>None\<close> at once\<close>
  "invoke_async L canceled start stop work obj =
     (let (stopped, obj') = check_if_canceled canceled (out ''_created_time'' (JFloat (Finite start)) obj) in
      if stopped then Inr (obj', JNull)
      else finish_call L stop ((fst (guarded work obj'))\<lparr>co_debug_inputs := []\<rparr>))"

definition process_invoke ::
  "pylib \<Rightarrow> rat \<Rightarrow> rat \<Rightarrow> (pydict \<Rightarrow> work) \<Rightarrow> pydict \<Rightarrow> cpn_object \<Rightarrow> (cpn_object + cpn_object \<times> json) \<times> (int \<times> string)" where
  \<comment> \<open>the call of a pipeline stage with the last report to the callback: progress and message\<close>
  "process_invoke L start stop work kwargs obj =
     (let obj1 = foldl (\<lambda>o' (k, v). out k v o') (out ''_created_time'' (JFloat (Finite start)) obj) kwargs;
          (obj2, err) = guarded (work kwargs) obj1 in
      (finish_call L stop obj2, case err of None \<Rightarrow> (1, ''Done'') | Some e \<Rightarrow> (-1, e)))"

section \<open>Outputs after a call\<close>

definition output_of :: "cpn_object \<Rightarrow> string \<Rightarrow> json option" where
  \<comment> \<open>the stored value of an output\<close>
  "output_of obj k = (case map_of (cp_outputs (co_cpn obj)) k of None \<Rightarrow> None | Some e \<Rightarrow> oe_value e)"

lemma output_of_out [simp]: "output_of (out k v obj) k' = (if k' = k then Some v else output_of obj k')"
  by (auto simp: output_of_def out_def set_output_def update_conv' split: option.splits)

lemma output_of_debug [simp]: "output_of (obj\<lparr>co_debug_inputs := d\<rparr>) = output_of obj"
  by (rule ext) (simp add: output_of_def)

lemma debug_cleared: "co_debug_inputs (obj\<lparr>co_debug_inputs := d\<rparr>) = d"
  by simp

lemma cpn_output_output_of: "k \<noteq> [] \<Longrightarrow> cpn_output (co_cpn obj) k = (case output_of obj k of None \<Rightarrow> JStr [] | Some v \<Rightarrow> v)"
  by (auto simp: cpn_output_def output_of_def split: option.splits)

lemma cpn_error_output_of: "cpn_error (co_cpn obj) = (case output_of obj ''_ERROR'' of None \<Rightarrow> JNull | Some v \<Rightarrow> v)"
  by (auto simp: cpn_error_def output_of_def split: option.splits)

lemma out_exception [simp]:
  "co_exception_method (out k v obj) = co_exception_method obj"
  "co_exception_default_value (out k v obj) = co_exception_default_value obj"
  "co_debug_inputs (out k v obj) = co_debug_inputs obj"
  by (simp_all add: out_def)

lemma guarded_output:
  assumes "work obj = (obj', err)"
  shows "output_of (fst (guarded work obj)) k =
           (case err of None \<Rightarrow> output_of obj' k
            | Some e \<Rightarrow> if truthy (get_exception_default_value obj')
                        then (if k = ''result'' then Some (get_exception_default_value obj') else output_of obj' k)
                        else (if k = ''_ERROR'' then Some (JStr e) else output_of obj' k))"
  using assms by (auto simp: guarded_def handle_exception_def set_exception_default_value_def split: option.splits)

lemma finish_call_output:
  assumes "output_of obj ''_created_time'' = Some (JFloat t)"
    and "float_op L (CHR ''-'') (JFloat (Finite now)) (JFloat t) = Some d"
  shows "\<exists>r. finish_call L now obj = Inr (r, cpn_output (co_cpn r) []) \<and> co_debug_inputs r = co_debug_inputs obj \<and>
           (\<forall>k. output_of r k = (if k = ''_elapsed_time'' then Some d else output_of obj k))"
  using assms
  by (intro exI [of _ "out ''_elapsed_time'' d obj"])
    (simp add: finish_call_def subtract_def cpn_output_output_of Let_def)

section \<open>Properties\<close>

definition minus_lib :: pylib where
  \<comment> \<open>a concrete instance for witnesses\<close>
  "minus_lib = plain_lib\<lparr>float_op := (\<lambda>op x y. case (x, y) of (JFloat (Finite a), JFloat (Finite b)) \<Rightarrow> Some (JFloat (Finite (a - b))) | _ \<Rightarrow> None)\<rparr>"

definition idle_object :: cpn_object where
  "idle_object = \<lparr>co_cpn = demo_component\<lparr>cp_outputs := []\<rparr>, co_exception_method = Some ''comment'',
     co_exception_default_value = JStr ''no answer'', co_exception_goto = [], co_inputs = [], co_debug_inputs = []\<rparr>"

text \<open>Property C38. An exception in the work of a component never leaves the call. With a default value configured for
  it the output \<open>result\<close> is set to that value and no error is recorded, otherwise the message is stored in
  \<open>_ERROR\<close>; every other output is what the work left, the elapsed time is recorded, the inputs of a debug run are
  dropped and the outputs are returned.\<close>

theorem invoke_contains_exceptions:
  assumes "work (out ''_created_time'' (JFloat (Finite start)) obj) = (obj', err)"
    and "output_of obj' ''_created_time'' = Some (JFloat t)"
    and "float_op L (CHR ''-'') (JFloat (Finite stop)) (JFloat t) = Some d"
  shows "\<exists>r. invoke L start stop work obj = Inr (r, cpn_output (co_cpn r) []) \<and> co_debug_inputs r = [] \<and>
           (\<forall>k. output_of r k =
              (if k = ''_elapsed_time'' then Some d
               else case err of None \<Rightarrow> output_of obj' k
                 | Some e \<Rightarrow>
                     if truthy (get_exception_default_value obj')
                     then (if k = ''result'' then Some (get_exception_default_value obj') else output_of obj' k)
                     else (if k = ''_ERROR'' then Some (JStr e) else output_of obj' k)))"
proof -
  let ?obj = "out ''_created_time'' (JFloat (Finite start)) obj"
  note after = guarded_output [where work = work and obj = ?obj, OF assms(1)]
  have "output_of ((fst (guarded work ?obj))\<lparr>co_debug_inputs := []\<rparr>) ''_created_time'' = Some (JFloat t)"
    using assms(2) by (simp add: after split: option.splits)
  from finish_call_output [OF this assms(3)] show ?thesis
    unfolding invoke_def output_of_debug after debug_cleared .
qed

theorem invoke_contains_exceptions_witness:
  "\<exists>r. invoke minus_lib 1 3 (\<lambda>obj. (obj, Some ''boom'')) idle_object = Inr (r, cpn_output (co_cpn r) []) \<and>
       output_of r ''result'' = Some (JStr ''no answer'') \<and> output_of r ''_ERROR'' = None \<and>
       output_of r ''_elapsed_time'' = Some (JFloat (Finite 2))"
proof -
  let ?work = "\<lambda>obj :: cpn_object. (obj, Some ''boom'')"
  have "float_op minus_lib (CHR ''-'') (JFloat (Finite 3)) (JFloat (Finite 1)) = Some (JFloat (Finite 2))"
    by (simp add: minus_lib_def)
  moreover have "output_of (out ''_created_time'' (JFloat (Finite 1)) idle_object) ''_created_time'' = Some (JFloat (Finite 1))"
    by simp
  moreover have "output_of idle_object ''_ERROR'' = None"
    by (simp add: idle_object_def output_of_def)
  moreover have "get_exception_default_value (out ''_created_time'' (JFloat (Finite 1)) idle_object) = JStr ''no answer''"
    by (simp add: get_exception_default_value_def) (simp add: idle_object_def)
  ultimately show ?thesis
    using invoke_contains_exceptions [where work = ?work and start = 1 and obj = idle_object and stop = 3 and L = minus_lib, OF refl]
    by fastforce
qed

text \<open>
  An exception whose text is empty, such as the \<open>TimeoutError\<close> of \<open>asyncio.wait_for\<close>, leaves an empty
  \<open>_ERROR\<close>. The schedulers test the truth of the error, so for them the component has succeeded.
\<close>

lemma empty_message_unseen:
  assumes "work obj = (obj', Some [])" "\<not> truthy (get_exception_default_value obj')"
  shows "\<not> truthy (cpn_error (co_cpn (fst (guarded work obj))))"
  using guarded_output [where work = work and obj = obj, OF assms(1), of "''_ERROR''"] assms(2)
  by (simp add: cpn_error_output_of)

text \<open>
  A pipeline stage gets the outputs of the stage before it, the time of creation among them, after it has
  recorded its own: the time of creation it keeps is the one it was given.
\<close>

lemma created_time_overwritten:
  assumes "map_of (rev kwargs) ''_created_time'' = Some v"
  shows "output_of (foldl (\<lambda>o' (k, v). out k v o') obj kwargs) ''_created_time'' = Some v"
  using assms
proof (induction kwargs arbitrary: v rule: rev_induct)
  case (snoc kv kwargs)
  then show ?case by (cases kv) (auto split: if_splits)
qed simp

end
