(* ===== verification/Pipeline.thy ===== *)
theory Pipeline
  imports Component_Invoke
begin

text \<open>
  The run of a data processing pipeline (\<open>Pipeline.run\<close> of \<open>src/core/flow/pipeline.py\<close>): the stages on a
  path are called one after the other, each with the outputs of the one before it on the path, and the
  successors of a stage join the path when it has succeeded.

  The work of the stages, the clock and the graph are arguments; the graph does not change during a run. The
  progress that is written to the task row and the Redis log of a run are not modelled, nor is a run that is
  canceled. \<open>pl_trace\<close> is the history of calls, each with the error it left. A run over a cyclic graph may not
  end; the loop is a partial function, and \<open>pipeline_run_ends\<close> shows that it returns on an acyclic one.
\<close>

section \<open>State\<close>

datatype pipeline_error = MissingStage string | StageRaised string

record pipeline =
  pl_objs :: "(string \<times> cpn_object) list"
  pl_path :: "string list"
  pl_error :: string
  pl_calls :: nat \<comment> \<open>reads of the clock so far\<close>
  pl_reports :: "(string \<times> int \<times> string) list" \<comment> \<open>\<open>callback\<close>: stage, progress, message\<close>
  pl_trace :: "(string \<times> json) list" \<comment> \<open>the stages called and their error\<close>

record stages =
  sg_lib :: pylib
  sg_clock :: "nat \<Rightarrow> rat"
  sg_work :: "string \<Rightarrow> pydict \<Rightarrow> work"
  sg_down :: "string \<Rightarrow> string list"

definition report :: "string \<Rightarrow> int \<Rightarrow> string \<Rightarrow> pipeline \<Rightarrow> pipeline" where
  "report i progress message pl = pl\<lparr>pl_reports := pl_reports pl @ [(i, progress, message)]\<rparr>"

definition stage_outputs :: "cpn_object \<Rightarrow> pydict" where
  \<comment> \<open>\<open>output()\<close>\<close>
  "stage_outputs obj = (case cpn_output (co_cpn obj) [] of JDict d \<Rightarrow> d | _ \<Rightarrow> [])"

definition obj_of :: "pipeline \<Rightarrow> string \<Rightarrow> pipeline_error + cpn_object" where
  "obj_of pl i = (case map_of (pl_objs pl) i of None \<Rightarrow> Inl (MissingStage i) | Some obj \<Rightarrow> Inr obj)"

definition call_stage :: "stages \<Rightarrow> string \<Rightarrow> pydict \<Rightarrow> pipeline \<Rightarrow> pipeline_error + pipeline" where
  "call_stage S i kwargs pl =
     bindE (obj_of pl i) (\<lambda>obj.
       let (res, (progress, message)) =
             process_invoke (sg_lib S) (sg_clock S (pl_calls pl)) (sg_clock S (Suc (pl_calls pl))) (sg_work S i) kwargs obj in
       case res of
         Inl obj' \<Rightarrow> Inl (StageRaised i)
       | Inr (obj', outs) \<Rightarrow>
           Inr (report i progress message
             (pl\<lparr>pl_objs := AList.update i obj' (pl_objs pl), pl_calls := pl_calls pl + 2,
                 pl_trace := pl_trace pl @ [(i, cpn_error (co_cpn obj'))]\<rparr>)))"

definition note_error :: "string \<Rightarrow> json \<Rightarrow> pipeline \<Rightarrow> pipeline_error + pipeline" where
  \<comment> \<open>\<open>"[ERROR]" + error()\<close>; an error that is no text raises\<close>
  "note_error i err pl =
     (case err of
        JStr s \<Rightarrow> (let message = ''[ERROR]'' @ s in Inr (report i (-1) message (pl\<lparr>pl_error := message\<rparr>)))
      | _ \<Rightarrow> Inl (StageRaised i))"

section \<open>The loop\<close>

definition run_stage :: "stages \<Rightarrow> nat \<Rightarrow> pipeline \<Rightarrow> pipeline_error + pipeline \<times> bool" where
  \<comment> \<open>one turn; the flag says whether the loop breaks\<close>
  "run_stage S idx pl =
     bindE (obj_of pl (pl_path pl ! (idx - 1))) (\<lambda>last_cpn.
     bindE (call_stage S (pl_path pl ! idx) (stage_outputs last_cpn) pl) (\<lambda>pl'.
     let err = snd (last (pl_trace pl')) in
     if truthy err then bindE (note_error (pl_path pl ! idx) err pl') (\<lambda>pl''. Inr (pl'', True))
     else Inr (pl'\<lparr>pl_path := pl_path pl' @ sg_down S (pl_path pl ! idx)\<rparr>, False)))"

partial_function (option) run_stages :: "stages \<Rightarrow> nat \<Rightarrow> pipeline \<Rightarrow> (pipeline_error + pipeline) option" where
  "run_stages S idx pl =
     (if idx < length (pl_path pl) \<and> pl_error pl = [] then
        (case run_stage S idx pl of
           Inl e \<Rightarrow> Some (Inl e)
         | Inr (pl', breaks) \<Rightarrow> if breaks then Some (Inr pl') else run_stages S (Suc idx) pl')
      else Some (Inr pl))"

definition start_run :: "stages \<Rightarrow> pydict \<Rightarrow> pipeline \<Rightarrow> pipeline_error + pipeline" where
  \<comment> \<open>a fresh run calls the file stage with the arguments of the run\<close>
  "start_run S kwargs pl =
     (let pl0 = pl\<lparr>pl_error := []\<rparr> in
      if pl_path pl0 \<noteq> [] then Inr pl0
      else bindE (call_stage S ''File'' kwargs (pl0\<lparr>pl_path := [''File'']\<rparr>)) (\<lambda>pl1.
        let err = snd (last (pl_trace pl1)) in
        if truthy err then note_error ''File'' err pl1 else Inr pl1))"

definition finish_run :: "pipeline \<Rightarrow> pipeline_error + pipeline \<times> pydict" where
  "finish_run pl =
     bindE (obj_of pl (last (pl_path pl))) (\<lambda>obj.
       let pl' = report ''END'' (if pl_error pl = [] then 1 else -1) [] pl in
       Inr (pl', if pl_error pl = [] then stage_outputs obj else []))"

definition pipeline_run :: "stages \<Rightarrow> pydict \<Rightarrow> pipeline \<Rightarrow> (pipeline_error + pipeline \<times> pydict) option" where
  "pipeline_run S kwargs pl =
     (case bindE (start_run S kwargs pl) (\<lambda>pl1.
         bindE (obj_of pl1 (last (pl_path pl1))) (\<lambda>obj. Inr pl1)) of
        Inl e \<Rightarrow> Some (Inl e)
      | Inr pl1 \<Rightarrow>
          (case run_stages S (length (pl_path pl1)) (pl1\<lparr>pl_path := pl_path pl1 @ sg_down S (last (pl_path pl1))\<rparr>) of
             None \<Rightarrow> None
           | Some (Inl e) \<Rightarrow> Some (Inl e)
           | Some (Inr pl2) \<Rightarrow> Some (finish_run pl2)))"

section \<open>One turn\<close>

lemma call_stage_Inr:
  assumes "call_stage S i kwargs pl = Inr pl'"
  obtains err where "pl_trace pl' = pl_trace pl @ [(i, err)]" "pl_path pl' = pl_path pl" "pl_error pl' = pl_error pl"
proof -
  obtain obj where obj: "obj_of pl i = Inr obj"
    using assms by (auto simp: call_stage_def bindE_eq_Inr)
  obtain res progress message where call: "process_invoke (sg_lib S) (sg_clock S (pl_calls pl))
      (sg_clock S (Suc (pl_calls pl))) (sg_work S i) kwargs obj = (res, progress, message)"
    by (metis prod_cases3)
  show thesis
    using assms that obj call by (cases res) (auto simp: call_stage_def report_def)
qed

lemma note_error_Inr:
  assumes "note_error i err pl = Inr pl'"
  shows "pl_trace pl' = pl_trace pl" "pl_path pl' = pl_path pl" "pl_error pl' \<noteq> []"
  using assms by (auto simp: note_error_def report_def Let_def split: json.splits)

lemma run_stage_Inr:
  assumes "run_stage S idx pl = Inr (pl', breaks)"
  obtains err where "pl_trace pl' = pl_trace pl @ [(pl_path pl ! idx, err)]" "breaks \<longleftrightarrow> truthy err"
    and "breaks \<Longrightarrow> pl_path pl' = pl_path pl \<and> pl_error pl' \<noteq> []"
    and "\<not> breaks \<Longrightarrow> pl_path pl' = pl_path pl @ sg_down S (pl_path pl ! idx) \<and> pl_error pl' = pl_error pl"
proof -
  obtain kwargs pl1 where pl1: "call_stage S (pl_path pl ! idx) kwargs pl = Inr pl1"
      "(if truthy (snd (last (pl_trace pl1)))
        then bindE (note_error (pl_path pl ! idx) (snd (last (pl_trace pl1))) pl1) (\<lambda>pl''. Inr (pl'', True))
        else Inr (pl1\<lparr>pl_path := pl_path pl1 @ sg_down S (pl_path pl ! idx)\<rparr>, False)) = Inr (pl', breaks)"
    using assms unfolding run_stage_def bindE_eq_Inr Let_def by blast
  from call_stage_Inr [OF pl1(1)] obtain err where err: "pl_trace pl1 = pl_trace pl @ [(pl_path pl ! idx, err)]"
      "pl_path pl1 = pl_path pl" "pl_error pl1 = pl_error pl"
    by blast
  show thesis
  proof (cases "truthy err")
    case True
    then have "note_error (pl_path pl ! idx) err pl1 = Inr pl'" "breaks"
      using pl1(2) err(1) by (auto simp: bindE_eq_Inr)
    then show thesis
      using note_error_Inr [of "pl_path pl ! idx" err pl1 pl'] err True by (intro that [of err]) auto
  next
    case False
    then show thesis
      using pl1(2) err by (intro that [of err]) auto
  qed
qed

section \<open>Ending\<close>

lemma run_stages_end:
  assumes weight: "\<And>i. sum_list (map w (sg_down S i)) < (w i :: nat)"
  shows "\<exists>r. run_stages S idx pl = Some r"
proof (induction "sum_list (map w (drop idx (pl_path pl)))" arbitrary: idx pl rule: less_induct)
  case less
  show ?case
  proof (cases "idx < length (pl_path pl) \<and> pl_error pl = []")
    case False
    then show ?thesis by (subst run_stages.simps) auto
  next
    case True
    show ?thesis
    proof (cases "run_stage S idx pl")
      case (Inl e)
      then show ?thesis using True by (subst run_stages.simps) auto
    next
      case (Inr res)
      obtain pl' breaks where res: "res = (pl', breaks)" by fastforce
      have "\<exists>r. run_stages S (Suc idx) pl' = Some r" if "\<not> breaks"
      proof -
        have path: "pl_path pl' = pl_path pl @ sg_down S (pl_path pl ! idx)"
          using run_stage_Inr [OF Inr [unfolded res]] that by metis
        have pending: "drop idx (pl_path pl) = pl_path pl ! idx # drop (Suc idx) (pl_path pl)"
          using True by (simp add: Cons_nth_drop_Suc)
        have "sum_list (map w (drop (Suc idx) (pl_path pl'))) < sum_list (map w (drop idx (pl_path pl)))"
          unfolding path pending using True weight [of "pl_path pl ! idx"] by simp
        then show ?thesis by (rule less)
      qed
      then show ?thesis
        using True Inr res by (subst run_stages.simps) auto
    qed
  qed
qed

section \<open>Outcome\<close>

definition chain_outcome :: "stages \<Rightarrow> nat \<Rightarrow> pipeline \<Rightarrow> pipeline \<Rightarrow> bool" where
  "chain_outcome S idx pl pl2 \<longleftrightarrow>
     (\<exists>errs. pl_trace pl2 = pl_trace pl @ zip (drop idx (pl_path pl2)) errs \<and>
        length errs \<le> length (drop idx (pl_path pl2)) \<and> prefix (pl_path pl) (pl_path pl2) \<and>
        (\<forall>e\<in>set (butlast errs). \<not> truthy e) \<and>
        (pl_error pl2 = [] \<longrightarrow> (\<forall>e\<in>set errs. \<not> truthy e) \<and> length errs = length (drop idx (pl_path pl2)) \<and>
           pl_path pl2 = pl_path pl @ concat (map (sg_down S) (drop idx (pl_path pl2)))) \<and>
        (pl_error pl2 \<noteq> [] \<longrightarrow> errs \<noteq> [] \<and> truthy (last errs)))"

lemma chain_outcome_done:
  "pl_error pl = [] \<Longrightarrow> length (pl_path pl) \<le> idx \<Longrightarrow> chain_outcome S idx pl pl"
  by (simp add: chain_outcome_def)

lemma chain_outcome_break:
  assumes "idx < length (pl_path pl)" "pl_trace pl' = pl_trace pl @ [(pl_path pl ! idx, err)]" "truthy err"
    and "pl_path pl' = pl_path pl" "pl_error pl' \<noteq> []"
  shows "chain_outcome S idx pl pl'"
  using assms by (auto simp: chain_outcome_def Cons_nth_drop_Suc [symmetric] intro!: exI [of _ "[err]"])

lemma chain_outcome_step:
  assumes "idx < length (pl_path pl)" "pl_trace pl' = pl_trace pl @ [(pl_path pl ! idx, err)]" "\<not> truthy err"
    and path: "pl_path pl' = pl_path pl @ sg_down S (pl_path pl ! idx)" and rest: "chain_outcome S (Suc idx) pl' pl2"
  shows "chain_outcome S idx pl pl2"
proof -
  obtain errs where errs: "pl_trace pl2 = pl_trace pl' @ zip (drop (Suc idx) (pl_path pl2)) errs"
      "length errs \<le> length (drop (Suc idx) (pl_path pl2))" "prefix (pl_path pl') (pl_path pl2)"
      "\<forall>e\<in>set (butlast errs). \<not> truthy e"
      "pl_error pl2 = [] \<Longrightarrow> (\<forall>e\<in>set errs. \<not> truthy e) \<and> length errs = length (drop (Suc idx) (pl_path pl2)) \<and>
         pl_path pl2 = pl_path pl' @ concat (map (sg_down S) (drop (Suc idx) (pl_path pl2)))"
      "pl_error pl2 \<noteq> [] \<Longrightarrow> errs \<noteq> [] \<and> truthy (last errs)"
    using rest unfolding chain_outcome_def by blast
  have pre: "prefix (pl_path pl) (pl_path pl2)"
    using errs(3) path by (auto elim!: prefixE)
  then have "idx < length (pl_path pl2)" "pl_path pl2 ! idx = pl_path pl ! idx"
    using assms(1) by (auto simp: nth_append elim!: prefixE)
  then have split: "drop idx (pl_path pl2) = pl_path pl ! idx # drop (Suc idx) (pl_path pl2)"
    by (metis Cons_nth_drop_Suc)
  show ?thesis
    unfolding chain_outcome_def split
    using assms(2,3) errs pre path by (intro exI [of _ "err # errs"]) auto
qed

lemma run_stages_outcome:
  assumes "run_stages S idx pl = Some (Inr pl2)" "pl_error pl = []"
  shows "chain_outcome S idx pl pl2"
proof -
  have "pl_error pl = [] \<longrightarrow> (\<forall>pl3. Inr pl2 = (Inr pl3 :: pipeline_error + pipeline) \<longrightarrow> chain_outcome S idx pl pl3)"
  proof (rule run_stages.raw_induct [OF _ assms(1)], intro impI allI)
    fix loop :: "stages \<Rightarrow> nat \<Rightarrow> pipeline \<Rightarrow> (pipeline_error + pipeline) option" and S idx pl r pl3
    assume IH: "\<And>S idx pl r. loop S idx pl = Some r \<Longrightarrow> pl_error pl = [] \<longrightarrow> (\<forall>pl3. r = Inr pl3 \<longrightarrow> chain_outcome S idx pl pl3)"
      and body: "(if idx < length (pl_path pl) \<and> pl_error pl = [] then
        (case run_stage S idx pl of
           Inl e \<Rightarrow> Some (Inl e)
         | Inr (pl', breaks) \<Rightarrow> if breaks then Some (Inr pl') else loop S (Suc idx) pl')
        else Some (Inr pl)) = Some r"
      and ok: "pl_error pl = []" and r: "r = Inr pl3"
    show "chain_outcome S idx pl pl3"
    proof (cases "idx < length (pl_path pl)")
      case False
      then show ?thesis
        using body ok r by (auto intro: chain_outcome_done)
    next
      case True
      then obtain pl' breaks where step: "run_stage S idx pl = Inr (pl', breaks)"
          "(if breaks then Some (Inr pl') else loop S (Suc idx) pl') = Some (Inr pl3)"
        using body ok r by (auto split: sum.splits prod.splits)
      from run_stage_Inr [OF step(1)] obtain err where err: "pl_trace pl' = pl_trace pl @ [(pl_path pl ! idx, err)]"
          "breaks \<longleftrightarrow> truthy err" "breaks \<Longrightarrow> pl_path pl' = pl_path pl \<and> pl_error pl' \<noteq> []"
          "\<not> breaks \<Longrightarrow> pl_path pl' = pl_path pl @ sg_down S (pl_path pl ! idx) \<and> pl_error pl' = pl_error pl"
        by blast
      show ?thesis
      proof (cases breaks)
        case True
        then show ?thesis
          using err step(2) \<open>idx < length (pl_path pl)\<close> by (intro chain_outcome_break [of idx pl pl3 err]) auto
      next
        case False
        then have "chain_outcome S (Suc idx) pl' pl3"
          using IH [of S "Suc idx" pl' "Inr pl3"] step(2) err(4) ok by simp
        then show ?thesis
          using err False \<open>idx < length (pl_path pl)\<close> by (intro chain_outcome_step [of idx pl pl' err S pl3]) auto
      qed
    qed
  qed
  then show ?thesis using assms by simp
qed

lemma start_run_fresh:
  assumes "start_run S kwargs pl = Inr pl1" "pl_path pl = []" "pl_trace pl = []"
  obtains err where "pl_path pl1 = [''File'']" "pl_trace pl1 = [(''File'', err)]" "truthy err \<longleftrightarrow> pl_error pl1 \<noteq> []"
proof -
  let ?pl = "pl\<lparr>pl_error := [], pl_path := [''File'']\<rparr>"
  obtain pl0 where pl0: "call_stage S ''File'' kwargs ?pl = Inr pl0"
      "(if truthy (snd (last (pl_trace pl0))) then note_error ''File'' (snd (last (pl_trace pl0))) pl0 else Inr pl0) = Inr pl1"
    using assms(1,2) by (auto simp: start_run_def bindE_eq_Inr Let_def)
  from call_stage_Inr [OF pl0(1)] obtain err where err: "pl_trace pl0 = pl_trace ?pl @ [(''File'', err)]"
      "pl_path pl0 = pl_path ?pl" "pl_error pl0 = pl_error ?pl"
    by blast
  show thesis
  proof (cases "truthy err")
    case True
    then have "note_error ''File'' err pl0 = Inr pl1"
      using pl0(2) err(1) by simp
    from note_error_Inr [OF this] show thesis
      using err True assms(3) by (intro that [of err]) auto
  next
    case False
    then have "pl1 = pl0"
      using pl0(2) err(1) by simp
    then show thesis
      using err False assms(3) by (intro that [of err]) auto
  qed
qed

lemma finish_run_Inr:
  assumes "finish_run pl = Inr (pl', res)"
  shows "pl_trace pl' = pl_trace pl" "pl_path pl' = pl_path pl" "pl_error pl' = pl_error pl" "pl_error pl \<noteq> [] \<Longrightarrow> res = []"
  using assms by (auto simp: finish_run_def bindE_eq_Inr report_def Let_def)

section \<open>Properties\<close>

text \<open>Property C40. A run of a pipeline without cycles ends: with a weight per stage that exceeds the weights of its
  successors together, the loop over the growing path returns.\<close>

theorem pipeline_run_ends:
  assumes "\<And>i. sum_list (map w (sg_down S i)) < (w i :: nat)"
  shows "\<exists>r. pipeline_run S kwargs pl = Some r"
proof -
  have ends: "\<exists>r. run_stages S idx pl' = Some r" for idx pl'
    by (rule run_stages_end [where w = w, OF assms])
  show ?thesis
  proof (cases "bindE (start_run S kwargs pl) (\<lambda>pl1. bindE (obj_of pl1 (last (pl_path pl1))) (\<lambda>obj. Inr pl1))")
    case (Inr pl1)
    then show ?thesis
      using ends [of "length (pl_path pl1)" "pl1\<lparr>pl_path := pl_path pl1 @ sg_down S (last (pl_path pl1))\<rparr>"]
      by (auto simp: pipeline_run_def split: sum.splits)
  qed (simp add: pipeline_run_def)
qed

definition two_stages :: stages where
  "two_stages = \<lparr>sg_lib = minus_lib, sg_clock = of_nat, sg_work = (\<lambda>i kwargs obj. (obj, Some ''boom'')),
     sg_down = (\<lambda>i. if i = ''File'' then [''Parser''] else [])\<rparr>"

definition two_stage_pipeline :: pipeline where
  "two_stage_pipeline = \<lparr>pl_objs = [(''File'', idle_object\<lparr>co_exception_method := None\<rparr>), (''Parser'', idle_object)],
     pl_path = [], pl_error = [],
     pl_calls = 0, pl_reports = [], pl_trace = []\<rparr>"

theorem pipeline_run_ends_witness: "\<exists>r. pipeline_run two_stages [] two_stage_pipeline = Some r"
  by (rule pipeline_run_ends [where w = "\<lambda>i. if i = ''File'' then 2 else 1"]) (simp add: two_stages_def)

text \<open>Property C39. A fresh run calls the stages of its path in order and stops at the first error. Without an error every
  stage of the path has been called, none failed, and the path is the file stage followed by the successors of its
  stages in order; with an error only the last stage called failed, and the run returns nothing.\<close>

theorem pipeline_run_outcome:
  assumes "pipeline_run S kwargs pl = Some (Inr (pl2, res))" "pl_path pl = []" "pl_trace pl = []"
  shows "\<exists>errs. pl_trace pl2 = zip (pl_path pl2) errs \<and> length errs \<le> length (pl_path pl2) \<and>
           (\<forall>e\<in>set (butlast errs). \<not> truthy e) \<and>
           (pl_error pl2 = [] \<longrightarrow> (\<forall>e\<in>set errs. \<not> truthy e) \<and> length errs = length (pl_path pl2) \<and>
              pl_path pl2 = ''File'' # concat (map (sg_down S) (pl_path pl2))) \<and>
           (pl_error pl2 \<noteq> [] \<longrightarrow> errs \<noteq> [] \<and> truthy (last errs) \<and> res = [])"
proof -
  obtain pl1 pl3 where start: "start_run S kwargs pl = Inr pl1"
      and loop: "run_stages S (length (pl_path pl1)) (pl1\<lparr>pl_path := pl_path pl1 @ sg_down S (last (pl_path pl1))\<rparr>) = Some (Inr pl3)"
      and fin: "finish_run pl3 = Inr (pl2, res)"
    using assms(1) by (auto simp: pipeline_run_def bindE_eq_Inr split: sum.splits option.splits)
  note fin = finish_run_Inr [OF fin]
  obtain err where first: "pl_path pl1 = [''File'']" "pl_trace pl1 = [(''File'', err)]" "truthy err \<longleftrightarrow> pl_error pl1 \<noteq> []"
    by (rule start_run_fresh [OF start assms(2,3)])
  let ?pl = "pl1\<lparr>pl_path := [''File''] @ sg_down S ''File''\<rparr>"
  show ?thesis
  proof (cases "pl_error pl1 = []")
    case False
    then have "pl3 = ?pl"
      using loop first(1) by (subst (asm) run_stages.simps) simp
    then show ?thesis
      using False first fin by (intro exI [of _ "[err]"]) simp
  next
    case True
    then have "chain_outcome S 1 ?pl pl3"
      using loop first(1) by (intro run_stages_outcome) simp_all
    then obtain errs where errs: "pl_trace pl3 = (''File'', err) # zip (drop 1 (pl_path pl3)) errs"
        "length errs \<le> length (drop 1 (pl_path pl3))" "prefix (''File'' # sg_down S ''File'') (pl_path pl3)"
        "\<forall>e\<in>set (butlast errs). \<not> truthy e"
        "pl_error pl3 = [] \<Longrightarrow> (\<forall>e\<in>set errs. \<not> truthy e) \<and> length errs = length (drop 1 (pl_path pl3)) \<and>
           pl_path pl3 = ''File'' # sg_down S ''File'' @ concat (map (sg_down S) (drop 1 (pl_path pl3)))"
        "pl_error pl3 \<noteq> [] \<Longrightarrow> errs \<noteq> [] \<and> truthy (last errs)"
      using first(2) unfolding chain_outcome_def by auto
    obtain rest where rest: "pl_path pl3 = ''File'' # rest"
      using errs(3) by (auto elim!: prefixE)
    show ?thesis
      using errs first(3) True fin rest by (intro exI [of _ "err # errs"]) auto
  qed
qed

theorem pipeline_run_outcome_witness:
  "\<exists>(pl2 :: pipeline) errs. pl_trace pl2 = zip (pl_path pl2) errs \<and> pl_path pl2 = [''File'', ''Parser''] \<and>
     pl_trace pl2 = [(''File'', JStr ''boom'')] \<and> pl_error pl2 = ''[ERROR]boom'' \<and> truthy (last errs)"
proof -
  have "\<exists>pl2. pipeline_run two_stages [] two_stage_pipeline = Some (Inr (pl2, [])) \<and>
      pl_path pl2 = [''File'', ''Parser''] \<and> pl_trace pl2 = [(''File'', JStr ''boom'')] \<and> pl_error pl2 = ''[ERROR]boom''"
    by (simp add: pipeline_run_def start_run_def call_stage_def obj_of_def process_invoke_def guarded_def handle_exception_def
        get_exception_default_value_def finish_call_def subtract_def out_def set_output_def cpn_output_def cpn_error_def
        note_error_def report_def finish_run_def two_stages_def two_stage_pipeline_def idle_object_def demo_component_def
        minus_lib_def run_stages.simps Let_def)
  then obtain pl2 where run: "pipeline_run two_stages [] two_stage_pipeline = Some (Inr (pl2, []))"
      and state: "pl_path pl2 = [''File'', ''Parser'']" "pl_trace pl2 = [(''File'', JStr ''boom'')]" "pl_error pl2 = ''[ERROR]boom''"
    by blast
  obtain errs where "pl_trace pl2 = zip (pl_path pl2) errs" "truthy (last errs)"
    using pipeline_run_outcome [OF run] state(3) by (auto simp: two_stage_pipeline_def)
  then show ?thesis
    using state by blast
qed

end
