(* ===== verification/Spec2Isabelle.thy ===== *)
theory Spec2Isabelle
  imports Run_Lifecycle Mcp_Service Tool_Gate Canvas_Store Canvas_Run Agent_Switch Agent_Assign Mcp_Reauth Reconcile_Service Agent_Data Token_Chunks Pipeline
begin

text \<open>
  A verification library of MultiRAG, a platform for retrieval augmented generation: agents are canvases of
  components, their runs are recorded as event streams, their tool calls go to remote servers on behalf of a
  user, and a call that needs a human answer is stored, answered and resumed. File names below are
  relative to \<open>src/\<close>.

  \<^bold>\<open>Foundations.\<close> \<open>Prelude\<close>: results of fallible code (\<open>Inl\<close> the error) with \<open>bindE\<close>, \<open>guardE\<close>, \<open>foldE\<close> and \<open>mapE\<close>,
  the locale \<open>step_invariant\<close> for loops that may refuse, Python text as UTF-8 bytes. \<open>Json\<close>: Python's JSON values, dictionaries as association
  lists in insertion order, canonical serialisation. \<open>Base64\<close>: the URL-safe encoding and the decoder of payload
  keys. \<open>Url\<close>: \<open>urlsplit\<close> as far as it is read.

  \<^bold>\<open>Run platform\<close> (\<open>api/run_platform\<close>). \<open>Run_Lifecycle\<close> models statuses, the versioned transition, event envelopes and the projection
  of an event stream. Shown: a replay passes through exactly the statuses its events name, each a legal move of an
  independent description of the lifecycle; accepted sequence
  numbers are contiguous; a terminal run stays; two transitions with one expected version cannot both
  succeed; cancellation is sticky.

  \<^bold>\<open>Stored interactions\<close> (\<open>api/identity/mcp_interactions\<close>, \<open>common/mcp_interactions.py\<close>). \<open>Mcp_Contracts\<close> holds the immutable objects
  and the validation of schemas and answers, \<open>Mcp_Crypto\<close> the sealing of payloads, \<open>Mcp_Interactions\<close> the two tables and
  every transaction of the repository, \<open>Mcp_Store\<close> its histories: sequences of transactions at any times.
  \<open>Mcp_Service\<close> is the host and its recovery worker, \<open>Mcp_Reauth\<close> the executor that reads identity, membership and policy again
  before it resumes a call, \<open>Tool_Gate\<close> the ticket queue of parallel calls as a step relation over all
  interleavings. Shown: the constraints on revisions, attempts, leases and rounds hold in every history; a call that may not be replayed is
  leased once; settled or re-granted leases stay void; answers are applied once; results are final;
  payloads open exactly at their own place, also after a rotation of keys; each outcome settles the round and its job in its own
  way; retries are spaced; the queue serialises, calls no delegate from its first pause on and, left to itself,
  comes to an end with every call answered; a resumption needs live authority.

  \<^bold>\<open>Delegated tool calls\<close> (\<open>api/identity\<close>). \<open>Principal\<close> builds tenant-bound identities from evidence, \<open>Mcp_Issuer\<close> issues tokens and guards
  key rotation, \<open>Delegation_Policy\<close> loads the published policy, \<open>Delegation\<close> evaluates it with a bounded cache and issues the
  credential of a call, \<open>Directory_Events\<close> is the transaction that applies an event of the identity provider's directory.
  \<open>Reconciliation\<close> has the tables and transactions by which workers re-check identities at the provider (seed, claim a lease, apply what was
  observed under its fences), \<open>Reconcile_History\<close> their histories, interleaved with directory events, and \<open>Reconcile_Service\<close> the service and loop of a worker:
  the budget of a probe, the check of an answer, one round, what it reports. The issuer is the locale \<open>token_issuer\<close>, interpreted on the modelled issuer. Shown: what a principal, a policy and a
  token guarantee; the cache changes no answer; a credential needs a grant of its run; directory events only tighten
  identities and are applied once; reconciliation keeps its tables, applies a lease once, leases of a checkpoint never overlap, an
  event of the directory voids an observation made before it, an identity is tightened only for a cause and within
  the limit of a cycle; a worker's loop is such a history, its rounds complete and keep no stale cache, and only a
  fresh, consistent answer counts.

  \<^bold>\<open>Agent canvas\<close> (\<open>agent/canvas.py\<close>, \<open>agent/component\<close>). \<open>Canvas_Vars\<close> reads and writes variables on JSON trees (locale \<open>variable_store\<close>), \<open>Canvas_Store\<close>
  on a store of objects that variables share, changed in place, \<open>Canvas_Template\<close> expands references in
  texts, \<open>Canvas_Run\<close> schedules components, \<open>Agent_Loops\<close>, \<open>Agent_Lists\<close>, \<open>Agent_Switch\<close>, \<open>Agent_Assign\<close> and \<open>Agent_Data\<close> are the components for iteration and loops, lists, branching,
  assignment and the reshaping of objects. Shown: a written variable reads as the value and
  what does not reach the changed object stays, and the trees are exact where nothing is shared; references are replaced; a component is
  scheduled along edges and after the components it reads from, which have finished when it reads them unless they are in
  its own batch; an iteration visits each item; how many passes a loop makes, entered once or again; a switch takes its first
  satisfied branch; what an assigner writes; which objects a filter keeps and what combining keeps. \<open>Component_Invoke\<close> is the call of a component, in a canvas or in a pipeline. Shown: an
  exception never leaves it and changes one output only.

  \<^bold>\<open>Document pipelines\<close> (\<open>core/flow\<close>). \<open>Pipeline\<close> runs the stages of a pipeline over a growing path. \<open>Chunk_Tree\<close> is the heading tree of the
  hierarchical chunker next to a reference that reads the document line by line, \<open>Chunk_Titles\<close> the two chunkers by
  headings around it, \<open>Token_Chunks\<close> the chunker by delimiters and token counts. Shown: a run stops at the first error and
  ends on a graph without cycles; the tree gives the chunks of the reference; chunkers lose no record but
  blank text and keep the order; merged chunks respect the limits at every overlap; the context of a table is adjacent text.

  \<^bold>\<open>Retrieval filters\<close> (\<open>common/metadata_utils.py\<close>). \<open>Metadata\<close> matches documents against conditions. Shown: a filter never widens a selection and a manual one is exact; streaming
  evaluation equals evaluation of the aggregate.

  \<^bold>\<open>Parameters.\<close> What is not in the repository is an argument: hashing, AES-GCM, ES256, the JSON parser and the JSON Schema library
  (record \<open>platform\<close>), Unicode tables, \<open>repr\<close> and float arithmetic (records \<open>pylib\<close>, \<open>metalib\<close> and \<open>title_lib\<close>), the tokenizer, \<open>json_repair\<close>, the language model, remote servers, clocks and
  random values. Properties name what they use of them as hypotheses, and their witnesses instantiate them.

  \<^bold>\<open>Bounds.\<close> Recursions are structural or have a measure; the scheduler and the loops of a canvas take the number
  of steps as fuel, and the properties hold for every amount of it or state how much is enough. The loop of a
  pipeline is a partial function, shown to return on graphs without cycles. Python
  integers are \<open>int\<close>; database columns with a width carry it as a bound.

  \<^bold>\<open>Not modelled.\<close> Sharing of mutable values in the components of a canvas (they compute on trees; \<open>Canvas_Store\<close> has the sharing
  of variables), objects that contain themselves, the digit limit of \<open>int()\<close>,
  cancellation of asyncio tasks other than in the tool gate, streamed outputs, logging, tracing, TLS settings and configuration. Not
  modelled as components: HTTP handlers, ORM services, search engines and models, document parsing, knowledge graphs,
  connectors, chat providers, administration and scripts; they are calls of external systems.
  Of the parts that are modelled, these are missing: the provisioning of identities, the administrators' view of
  reconciliation, the remaining merge routines of \<open>core/nlp\<close>.
\<close>

end
